(* ===== verification/Prelude.thy ===== *)
theory Prelude
  imports Main "HOL-Library.Word" "HOL-Library.Monad_Syntax"
begin

text \<open>
  Shared vocabulary of the development: the fixed-width integers of the server,
  the convention for C code that does not return normally, and generic lemmas
  on lists and on the option monad that the component theories rely on.

  A C function is modelled in the option monad whenever it can fail to return:
  \<^term>\<open>None\<close> stands for a call to \<^verbatim>\<open>panic()\<close>, for the dereference of a pointer
  that does not point to an object, and for a loop that does not end.  The
  errors of the MOO language (\<^verbatim>\<open>E_PERM\<close>, \<^verbatim>\<open>E_RANGE\<close>, ...) are ordinary values of
  a datatype and never \<^term>\<open>None\<close>.
\<close>

section \<open>Integers\<close>

text \<open>
  \<^verbatim>\<open>Num\<close> and \<^verbatim>\<open>Objid\<close> are 64-bit two's complement integers in the default
  configuration (\<^verbatim>\<open>structures.h\<close>).  They are integers here, and each operation
  that can leave the range writes out the wrap-around with \<open>norm_num\<close>.
\<close>

type_synonym num = int
type_synonym objid = int

definition NUM_MIN :: num where
  "NUM_MIN = - (2 ^ 63)"

definition NUM_MAX :: num where
  "NUM_MAX = 2 ^ 63 - 1"

definition norm_num :: "int \<Rightarrow> num" where
  "norm_num x = (x + 2 ^ 63) mod 2 ^ 64 - 2 ^ 63"

definition in_num_range :: "int \<Rightarrow> bool" where
  "in_num_range x \<longleftrightarrow> NUM_MIN \<le> x \<and> x \<le> NUM_MAX"

lemma norm_num_range: "in_num_range (norm_num x)"
proof -
  have "0 \<le> (x + 2 ^ 63) mod 2 ^ 64" and "(x + 2 ^ 63) mod 2 ^ 64 < (2 ^ 64 :: int)"
    by simp_all
  then show ?thesis
    by (simp add: in_num_range_def norm_num_def NUM_MIN_def NUM_MAX_def)
qed

lemma norm_num_id: "in_num_range x \<Longrightarrow> norm_num x = x"
  by (simp add: in_num_range_def norm_num_def NUM_MIN_def NUM_MAX_def)

lemma norm_num_cong_mod: "norm_num x mod 2 ^ 64 = x mod 2 ^ 64"
proof -
  have "norm_num x mod 2 ^ 64 = ((x + 2 ^ 63) mod 2 ^ 64 - 2 ^ 63) mod 2 ^ 64"
    by (simp only: norm_num_def)
  also have "\<dots> = (x + 2 ^ 63 - 2 ^ 63) mod 2 ^ 64"
    by (simp only: mod_diff_left_eq)
  finally show ?thesis by simp
qed

lemma norm_num_eqI: "x mod 2 ^ 64 = y mod 2 ^ 64 \<Longrightarrow> norm_num x = norm_num y"
proof -
  assume "x mod 2 ^ 64 = y mod 2 ^ 64"
  then have "(x + 2 ^ 63) mod 2 ^ 64 = (y + 2 ^ 63) mod (2 ^ 64 :: int)"
    by (metis mod_add_left_eq)
  then show ?thesis by (simp only: norm_num_def)
qed

lemma norm_num_idem [simp]: "norm_num (norm_num x) = norm_num x"
  by (rule norm_num_id) (rule norm_num_range)

section \<open>The option monad\<close>

definition assert_that :: "bool \<Rightarrow> unit option" where
  "assert_that b = (if b then Some () else None)"

lemma assert_that_simps [simp]:
  "assert_that True = Some ()" "assert_that False = None"
  by (simp_all add: assert_that_def)

lemma assert_that_Some [simp]: "assert_that b = Some u \<longleftrightarrow> b"
  by (simp add: assert_that_def)

section \<open>Lists\<close>

definition insert_at :: "nat \<Rightarrow> 'a \<Rightarrow> 'a list \<Rightarrow> 'a list" where
  "insert_at i x xs = take i xs @ x # drop i xs"

definition delete_at :: "nat \<Rightarrow> 'a list \<Rightarrow> 'a list" where
  "delete_at i xs = take i xs @ drop (Suc i) xs"

lemma length_insert_at [simp]: "length (insert_at i x xs) = Suc (length xs)"
  by (simp add: insert_at_def)

lemma length_delete_at [simp]: "i < length xs \<Longrightarrow> length (delete_at i xs) = length xs - 1"
  by (simp add: delete_at_def)

lemma nth_insert_at:
  "i \<le> length xs \<Longrightarrow> j \<le> length xs \<Longrightarrow>
   insert_at i x xs ! j = (if j < i then xs ! j else if j = i then x else xs ! (j - 1))"
  by (auto simp: insert_at_def nth_append nth_Cons' min_def)

lemma nth_delete_at:
  "i < length xs \<Longrightarrow> j < length xs - 1 \<Longrightarrow>
   delete_at i xs ! j = (if j < i then xs ! j else xs ! Suc j)"
  by (auto simp: delete_at_def nth_append min_def)

lemma delete_insert_at [simp]: "i \<le> length xs \<Longrightarrow> delete_at i (insert_at i x xs) = xs"
  by (simp add: delete_at_def insert_at_def)

lemma insert_at_append:
  "insert_at (length xs + i) x (xs @ ys) = xs @ insert_at i x ys"
  by (simp add: insert_at_def)

lemma delete_at_append:
  "delete_at (length xs + i) (xs @ ys) = xs @ delete_at i ys"
  by (simp add: delete_at_def)

lemma zip_insert_at:
  "length xs = length ys \<Longrightarrow> i \<le> length xs \<Longrightarrow>
   zip (insert_at i x xs) (insert_at i y ys) = insert_at i (x, y) (zip xs ys)"
  by (simp add: insert_at_def take_zip drop_zip zip_append)

lemma zip_delete_at:
  "length xs = length ys \<Longrightarrow>
   zip (delete_at i xs) (delete_at i ys) = delete_at i (zip xs ys)"
  by (simp add: delete_at_def take_zip drop_zip zip_append)

lemma set_insert_at [simp]: "set (insert_at i x xs) = insert x (set xs)"
  by (metis append_take_drop_id insert_at_def insert_commute list.simps(15) set_append Un_insert_right)

lemma map_insert_at: "map f (insert_at i x xs) = insert_at i (f x) (map f xs)"
  by (simp add: insert_at_def take_map drop_map)

lemma map_delete_at: "map f (delete_at i xs) = delete_at i (map f xs)"
  by (simp add: delete_at_def take_map drop_map)

text \<open>Association lists under insertion and deletion at a position.\<close>

lemma map_of_insert_at:
  "k \<notin> fst ` set xs \<Longrightarrow> map_of (insert_at i (k, v) xs) = (map_of xs)(k \<mapsto> v)"
proof -
  assume "k \<notin> fst ` set xs"
  then have "k \<notin> fst ` set (take i xs)" by (auto dest: in_set_takeD)
  then have "map_of (take i xs) k = None" by (simp add: map_of_eq_None_iff)
  moreover have "map_of xs = map_of (drop i xs) ++ map_of (take i xs)"
    by (metis append_take_drop_id map_of_append)
  ultimately show ?thesis by (auto simp: insert_at_def map_add_def fun_eq_iff split: option.splits)
qed

lemma map_of_delete_at:
  assumes "distinct (map fst xs)" "i < length xs"
  shows "map_of (delete_at i xs) = (map_of xs)(fst (xs ! i) := None)"
proof -
  have s: "xs = take i xs @ xs ! i # drop (Suc i) xs" using assms(2) by (simp add: id_take_nth_drop)
  define us vs k v where "us = take i xs" and "vs = drop (Suc i) xs" and "k = fst (xs ! i)" and "v = snd (xs ! i)"
  have xs: "xs = us @ (k, v) # vs" using s by (simp add: us_def vs_def k_def v_def)
  then have "k \<notin> fst ` set us" "k \<notin> fst ` set vs" using assms(1) by auto
  then have "map_of us k = None" "map_of vs k = None" by (simp_all add: map_of_eq_None_iff)
  then have "map_of (us @ vs) = (map_of (us @ (k, v) # vs))(k := None)"
    by (auto simp: map_add_def fun_eq_iff split: option.splits)
  moreover have "delete_at i xs = us @ vs" "fst (xs ! i) = k" by (simp_all add: delete_at_def us_def vs_def k_def)
  ultimately show ?thesis using xs by metis
qed

lemma take_insert_at: "n \<le> i \<Longrightarrow> i \<le> length xs \<Longrightarrow> take n (insert_at i v xs) = take n xs"
  by (simp add: insert_at_def min_def)

lemma take_delete_at: "n \<le> i \<Longrightarrow> take n (delete_at i xs) = take n xs"
  by (cases "i \<le> length xs") (auto simp: delete_at_def min_def)

lemma distinct_insert_at: "distinct (insert_at i v xs) \<longleftrightarrow> v \<notin> set xs \<and> distinct xs"
proof -
  have "distinct (us @ v # vs) \<longleftrightarrow> v \<notin> set (us @ vs) \<and> distinct (us @ vs)" for us vs by auto
  from this [of "take i xs" "drop i xs"] show ?thesis by (simp only: insert_at_def append_take_drop_id)
qed

lemma distinct_delete_at: "distinct xs \<Longrightarrow> distinct (delete_at i xs)"
  by (simp add: delete_at_def set_take_disj_set_drop_if_distinct)

lemma take_delete_at_own:
  "i < n \<Longrightarrow> n \<le> length xs \<Longrightarrow> take (n - 1) (delete_at i xs) = delete_at i (take n xs)"
  by (cases n) (simp_all add: delete_at_def drop_take min_absorb2 less_Suc_eq_le)

lemma list_all_delete_at: "list_all P xs \<Longrightarrow> list_all P (delete_at i xs)"
  by (auto simp: list_all_iff delete_at_def dest: in_set_takeD in_set_dropD)

lemma list_update_delete_insert:
  "i < length xs \<Longrightarrow> xs[i := v] = insert_at i v (delete_at i xs)"
  by (simp add: insert_at_def delete_at_def upd_conv_take_nth_drop)

lemma notin_delete_at:
  assumes "distinct xs" "i < length xs"
  shows "xs ! i \<notin> set (delete_at i xs)"
proof -
  have "xs = take i xs @ xs ! i # drop (Suc i) xs" using assms(2) by (simp add: id_take_nth_drop)
  with assms(1) have "distinct (take i xs @ xs ! i # drop (Suc i) xs)" by metis
  then show ?thesis by (simp add: delete_at_def)
qed

lemma map_of_zip_rename:
  assumes "distinct xs" "length xs = length vs" "i < length xs" "k = xs ! i \<or> k \<notin> set xs"
  shows "map_of (zip (xs[i := k]) vs) = (map_of (zip xs vs))(xs ! i := None, k \<mapsto> vs ! i)"
proof -
  have "zip (xs[i := k]) vs = zip (xs[i := k]) (vs[i := vs ! i])" by simp
  also have "\<dots> = insert_at i (k, vs ! i) (delete_at i (zip xs vs))"
    using assms(2,3) by (simp add: list_update_delete_insert zip_insert_at zip_delete_at del: list_update_id)
  finally have z: "zip (xs[i := k]) vs = insert_at i (k, vs ! i) (delete_at i (zip xs vs))" .
  have "k \<notin> set (delete_at i xs)"
    using assms notin_delete_at [OF assms(1,3)]
    by (auto simp: delete_at_def dest: in_set_takeD in_set_dropD)
  moreover have "map fst (delete_at i (zip xs vs)) = delete_at i xs" using assms(2) by (simp add: map_delete_at)
  ultimately have "k \<notin> fst ` set (delete_at i (zip xs vs))" by (metis list.set_map)
  with z assms show ?thesis by (simp add: map_of_insert_at map_of_delete_at)
qed

lemma distinct_rename:
  assumes "distinct (map g xs)" "i < length xs" "g k = g (xs ! i) \<or> g k \<notin> g ` set xs"
  shows "distinct (map g (xs[i := k]))"
proof -
  have "map g (xs[i := k]) = (map g xs)[i := g k]" by (simp add: map_update)
  moreover have "(map g xs)[i := g k] = map g xs" if "g k = g (xs ! i)"
    using that assms(2) by (metis list_update_id nth_map)
  moreover have "distinct ((map g xs)[i := g k])" if "g k \<notin> g ` set xs"
    using that assms(1,2) by (intro distinct_list_update) auto
  ultimately show ?thesis using assms(1,3) by metis
qed

section \<open>The highest bit of a number\<close>

lemma ex_highest: "0 < v \<Longrightarrow> \<exists>h. 2 ^ h \<le> v \<and> v < 2 ^ Suc h" for v :: nat
proof (induction v rule: less_induct)
  case (less v)
  show ?case
  proof (cases "v = 1")
    case True then show ?thesis by (intro exI [of _ 0]) simp
  next
    case False
    with less.prems have "v div 2 < v" "0 < v div 2" by auto
    from less.IH [OF this] obtain h where "2 ^ h \<le> v div 2" "v div 2 < 2 ^ Suc h" by blast
    then have "2 ^ Suc h \<le> v \<and> v < 2 ^ Suc (Suc h)" by auto
    then show ?thesis by blast
  qed
qed

end
