(* ===== verification/CStrings.thy ===== *)
theory CStrings
  imports Prelude "HOL-Library.Sublist"
begin

text \<open>
  The string primitives of \<^verbatim>\<open>utils.c\<close>: case-folding comparison, verb-name
  matching with wildcards, and the case-insensitive hash.  A C string is a list
  of bytes without the terminating NUL; reading the NUL is the empty list.
  The table \<^verbatim>\<open>cmap\<close> has element type \<^verbatim>\<open>char\<close>, which is signed on the supported
  platforms, so bytes from 128 on read as negative numbers.
\<close>

section \<open>Case folding and comparison\<close>

definition cmap :: "char \<Rightarrow> int" where
  "cmap c =
     (let b = (of_char c :: nat);
          m = (if 65 \<le> b \<and> b \<le> 90 then b + 32 else b)
      in if m < 128 then int m else int m - 256)"

fun mystrcasecmp :: "string \<Rightarrow> string \<Rightarrow> int" where
  "mystrcasecmp [] [] = 0"
| "mystrcasecmp (c # s) [] = cmap c"
| "mystrcasecmp [] (d # t) = - cmap d"
| "mystrcasecmp (c # s) (d # t) =
     (if cmap c = cmap d then mystrcasecmp s t else cmap c - cmap d)"

fun mystrncasecmp :: "string \<Rightarrow> string \<Rightarrow> nat \<Rightarrow> int" where
  "mystrncasecmp s t 0 = 0"
| "mystrncasecmp [] [] (Suc n) = 0"
| "mystrncasecmp (c # s) [] (Suc n) = cmap c"
| "mystrncasecmp [] (d # t) (Suc n) = - cmap d"
| "mystrncasecmp (c # s) (d # t) (Suc n) =
     (if cmap c = cmap d then mystrncasecmp s t n else cmap c - cmap d)"

text \<open>\<^verbatim>\<open>unsigned\<close> is 32 bits wide; the signed table entry is converted to it.\<close>

fun str_hash_loop :: "32 word \<Rightarrow> string \<Rightarrow> 32 word" where
  "str_hash_loop ans [] = ans"
| "str_hash_loop ans (c # s) =
     str_hash_loop (push_bit 3 ans + drop_bit 28 ans + word_of_int (cmap c)) s"

definition str_hash :: "string \<Rightarrow> 32 word" where
  "str_hash s = str_hash_loop 0 s"

section \<open>Verb names\<close>

datatype star = Star_none | Star_inner | Star_end

fun skip_stars :: "string \<Rightarrow> star \<Rightarrow> string \<times> star" where
  "skip_stars [] st = ([], st)"
| "skip_stars (c # v) st =
     (if c = CHR ''*''
      then skip_stars v (if v = [] \<or> hd v = CHR '' '' then Star_end else Star_inner)
      else (c # v, st))"

fun verb_scan :: "string \<Rightarrow> string \<Rightarrow> star \<Rightarrow> string \<times> string \<times> star" where
  "verb_scan v [] st = (let (v', st') = skip_stars v st in (v', [], st'))"
| "verb_scan v (d # w) st =
     (case skip_stars v st of
        ([], st') \<Rightarrow> ([], d # w, st')
      | (c # v', st') \<Rightarrow>
          if c = CHR '' '' \<or> cmap d \<noteq> cmap c then (c # v', d # w, st')
          else verb_scan v' w st')"

definition next_name :: "string \<Rightarrow> string" where
  "next_name v = dropWhile (\<lambda>c. c = CHR '' '') (dropWhile (\<lambda>c. c \<noteq> CHR '' '') v)"

lemma skip_stars_length: "length (fst (skip_stars v st)) \<le> length v"
  by (induction v st rule: skip_stars.induct) auto

lemma verb_scan_length: "length (fst (verb_scan v w st)) \<le> length v"
proof (induction v w st rule: verb_scan.induct)
  case (1 v st)
  then show ?case using skip_stars_length [of v st] by (auto split: prod.splits)
next
  case (2 v d w st)
  obtain v1 st1 where s: "skip_stars v st = (v1, st1)" by (cases "skip_stars v st")
  with skip_stars_length [of v st] have "length v1 \<le> length v" by simp
  with s "2.IH" show ?case by (cases v1) fastforce+
qed

lemma next_name_length: "v \<noteq> [] \<Longrightarrow> length (next_name v) < length v"
proof (cases v)
  case (Cons c u)
  let ?sp = "\<lambda>c. c = CHR '' ''" and ?ns = "\<lambda>c. c \<noteq> CHR '' ''"
  have "length (dropWhile ?sp (dropWhile ?ns u)) \<le> length u"
    by (meson length_dropWhile_le order_trans)
  moreover have "length (dropWhile ?sp u) \<le> length u"
    by (rule length_dropWhile_le)
  ultimately show ?thesis using Cons by (auto simp: next_name_def)
qed simp

lemma next_name_scan_length:
  assumes "(v', r) = verb_scan v word st" and "v \<noteq> []"
  shows "length (next_name v') < length v"
proof (cases "v' = []")
  case True
  with assms(2) show ?thesis by (simp add: next_name_def)
next
  case False
  have "length v' \<le> length v" using verb_scan_length [of v word st] assms(1) by (metis fst_conv)
  with next_name_length [OF False] show ?thesis by simp
qed

text \<open>
  The loop of \<^verbatim>\<open>verbcasecmp\<close>.  The first test of the C function compares the
  two pointers; \<open>same\<close> is its outcome, since two different pointers can hold
  the same characters.
\<close>

function verb_loop :: "string \<Rightarrow> string \<Rightarrow> bool" where
  "verb_loop v word =
     (if v = [] then False
      else case verb_scan v word Star_none of (v', w', st) \<Rightarrow>
        if (if w' = [] then st \<noteq> Star_none \<or> v' = [] \<or> hd v' = CHR '' ''
            else st = Star_end)
        then True
        else verb_loop (next_name v') word)"
  by pat_completeness auto
termination
  by (relation "measure (\<lambda>(v, word). length v)") (auto dest: next_name_scan_length)

declare verb_loop.simps [simp del]

definition verbcasecmp :: "bool \<Rightarrow> string \<Rightarrow> string \<Rightarrow> bool" where
  "verbcasecmp same verb word = (same \<or> verb_loop verb word)"

section \<open>Facts about case folding\<close>

definition fold_case :: "string \<Rightarrow> int list" where
  "fold_case s = map cmap s"

lemma fold_case_simps [simp]:
  "fold_case [] = []" "fold_case (c # s) = cmap c # fold_case s"
  "fold_case (s @ t) = fold_case s @ fold_case t"
  "length (fold_case s) = length s"
  by (simp_all add: fold_case_def)

definition nul_free :: "string \<Rightarrow> bool" where
  "nul_free s \<longleftrightarrow> CHR 0x00 \<notin> set s"

lemma nul_free_simps [simp]:
  "nul_free []" "nul_free (c # s) \<longleftrightarrow> c \<noteq> CHR 0x00 \<and> nul_free s"
  "nul_free (s @ t) \<longleftrightarrow> nul_free s \<and> nul_free t"
  by (auto simp: nul_free_def)

lemma cmap_eq_0 [simp]: "cmap c = 0 \<longleftrightarrow> c = CHR 0x00"
proof -
  define n where "n = (of_char c :: nat)"
  have "n = 0 \<longleftrightarrow> c = CHR 0x00"
    unfolding n_def using of_char_eq_iff [of c "CHR 0x00", where ?'a = nat] by simp
  moreover have "n < 256" by (simp add: n_def)
  ultimately show ?thesis by (auto simp: cmap_def Let_def n_def [symmetric] split: if_splits)
qed

lemma mystrcasecmp_0_iff:
  "nul_free s \<Longrightarrow> nul_free t \<Longrightarrow> mystrcasecmp s t = 0 \<longleftrightarrow> fold_case s = fold_case t"
  by (induction s t rule: mystrcasecmp.induct) auto

lemma mystrcasecmp_anti: "mystrcasecmp t s = - mystrcasecmp s t"
  by (induction s t rule: mystrcasecmp.induct) auto

lemma mystrcasecmp_refl [simp]: "mystrcasecmp s s = 0"
  by (induction s) auto

text \<open>Comparison is lexicographic on the folded bytes, with the NUL at the end.\<close>

lemma mystrcasecmp_trans:
  "nul_free s \<Longrightarrow> nul_free t \<Longrightarrow> nul_free u \<Longrightarrow>
   mystrcasecmp s t \<le> 0 \<Longrightarrow> mystrcasecmp t u \<le> 0 \<Longrightarrow> mystrcasecmp s u \<le> 0"
proof (induction s t arbitrary: u rule: mystrcasecmp.induct)
  case (1 u) then show ?case by simp
next
  case (2 c s u)
  then show ?case by (cases u) (auto split: if_splits)
next
  case (3 d t u)
  then show ?case by (cases u) (auto split: if_splits)
next
  case (4 c s d t u)
  show ?case
  proof (cases u)
    case Nil
    with "4.prems"(4,5) show ?thesis by (simp split: if_splits)
  next
    case (Cons e v)
    from "4.prems"(4) have cd: "cmap c < cmap d \<or> cmap c = cmap d \<and> mystrcasecmp s t \<le> 0"
      by (auto split: if_splits)
    from "4.prems"(5) Cons have de: "cmap d < cmap e \<or> cmap d = cmap e \<and> mystrcasecmp t v \<le> 0"
      by (auto split: if_splits)
    show ?thesis
    proof (cases "cmap c = cmap e")
      case True
      with cd de have "cmap c = cmap d" "mystrcasecmp s t \<le> 0" "mystrcasecmp t v \<le> 0" by auto
      with "4.IH" "4.prems"(1-3) Cons have "mystrcasecmp s v \<le> 0" by simp
      with True Cons show ?thesis by simp
    next
      case False
      with cd de have "cmap c < cmap e" by auto
      with Cons show ?thesis by simp
    qed
  qed
qed

lemma str_hash_loop_fold:
  "fold_case s = fold_case t \<Longrightarrow> str_hash_loop a s = str_hash_loop a t"
proof (induction s arbitrary: a t)
  case Nil
  then show ?case by (cases t) simp_all
next
  case (Cons c s)
  then obtain d u where t: "t = d # u" and "cmap c = cmap d" and "fold_case s = fold_case u"
    by (cases t) auto
  with Cons.IH [of u] show ?case by (simp only: t str_hash_loop.simps)
qed

lemma str_hash_fold: "fold_case s = fold_case t \<Longrightarrow> str_hash s = str_hash t"
  unfolding str_hash_def by (rule str_hash_loop_fold)

text \<open>
  The property tables test the hash before the names: the test never rejects
  an equal name.
\<close>

lemma hash_guard:
  "nul_free s \<Longrightarrow> nul_free t \<Longrightarrow>
   str_hash s = str_hash t \<and> mystrcasecmp s t = 0 \<longleftrightarrow> fold_case s = fold_case t"
  using str_hash_fold [of s t] mystrcasecmp_0_iff [of s t] by blast

lemma mystrncasecmp_prefix:
  "nul_free s \<Longrightarrow> nul_free t \<Longrightarrow>
   mystrncasecmp s t (length t) = 0 \<longleftrightarrow>
     length t \<le> length s \<and> fold_case (take (length t) s) = fold_case t"
proof (induction t arbitrary: s)
  case Nil
  then show ?case by simp
next
  case (Cons d t)
  then show ?case by (cases s) auto
qed

section \<open>What verbcasecmp decides\<close>

text \<open>
  The documented meaning of a verb name: the string is a list of alternatives
  separated by spaces; an alternative without a star is matched by exactly that
  word; a star marks the shortest abbreviation that is still accepted; a star
  at the end accepts every continuation.
\<close>

definition literal_part :: "string \<Rightarrow> string" where
  "literal_part p = filter (\<lambda>c. c \<noteq> CHR ''*'') p"

definition min_abbrev :: "string \<Rightarrow> nat" where
  "min_abbrev p = length (takeWhile (\<lambda>c. c \<noteq> CHR ''*'') p)"

definition name_matches :: "string \<Rightarrow> string \<Rightarrow> bool" where
  "name_matches p w \<longleftrightarrow>
     fold_case w = fold_case (literal_part p)
   \<or> CHR ''*'' \<in> set p \<and> min_abbrev p \<le> length w
       \<and> prefix (fold_case w) (fold_case (literal_part p))
   \<or> p \<noteq> [] \<and> last p = CHR ''*'' \<and> prefix (fold_case (literal_part p)) (fold_case w)"

function verb_names :: "string \<Rightarrow> string list" where
  "verb_names v =
     (if v = [] then [] else takeWhile (\<lambda>c. c \<noteq> CHR '' '') v # verb_names (next_name v))"
  by pat_completeness auto
termination
  by (relation "measure length") (auto intro: next_name_length)

declare verb_names.simps [simp del]

definition verb_name_spec :: "string \<Rightarrow> string \<Rightarrow> bool" where
  "verb_name_spec verb word \<longleftrightarrow> (\<exists>p \<in> set (verb_names verb). name_matches p word)"

definition scan_accepts :: "string \<times> string \<times> star \<Rightarrow> bool" where
  "scan_accepts r \<longleftrightarrow>
     (case r of (v, w, st) \<Rightarrow>
        if w = [] then st \<noteq> Star_none \<or> v = [] \<or> hd v = CHR '' '' else st = Star_end)"

lemma skip_stars_eq:
  "skip_stars v st =
     (let r = dropWhile (\<lambda>c. c = CHR ''*'') v
      in (r, if v = [] \<or> hd v \<noteq> CHR ''*'' then st
             else if r = [] \<or> hd r = CHR '' '' then Star_end else Star_inner))"
proof (induction v st rule: skip_stars.induct)
  case (2 c v st)
  then show ?case by (cases v) (auto simp: Let_def)
qed simp

lemma skip_stars_append:
  assumes "rest = [] \<or> hd rest = CHR '' ''"
  shows "skip_stars (p @ rest) st = (case skip_stars p st of (q, st') \<Rightarrow> (q @ rest, st'))"
proof (induction p st rule: skip_stars.induct)
  case (1 st)
  with assms show ?case by (cases rest) auto
next
  case (2 c v st)
  with assms show ?case by (cases v) auto
qed

lemma skip_stars_no_space:
  "CHR '' '' \<notin> set p \<Longrightarrow> skip_stars p st = (q, st') \<Longrightarrow> CHR '' '' \<notin> set q"
  by (auto simp: skip_stars_eq Let_def dest: set_dropWhileD)

lemma verb_scan_append:
  assumes "rest = [] \<or> hd rest = CHR '' ''" and "CHR '' '' \<notin> set p"
  shows "verb_scan (p @ rest) w st = (case verb_scan p w st of (q, w', st') \<Rightarrow> (q @ rest, w', st'))"
  using assms(2)
proof (induction p w st rule: verb_scan.induct)
  case (1 v st)
  then show ?case using assms(1) by (auto simp: skip_stars_append split: prod.splits)
next
  case (2 v d w st)
  obtain q st1 where s: "skip_stars v st = (q, st1)" by (cases "skip_stars v st")
  with assms(1) have app: "skip_stars (v @ rest) st = (q @ rest, st1)"
    by (simp add: skip_stars_append)
  have ns: "CHR '' '' \<notin> set q" using skip_stars_no_space [OF "2.prems" s] .
  show ?case
  proof (cases q)
    case Nil
    with s app assms(1) show ?thesis by (cases rest) auto
  next
    case (Cons c q')
    with s app ns "2.IH" show ?thesis by auto
  qed
qed

text \<open>
  One alternative, scanned from any star state a scan can be in; the state
  \<open>Star_end\<close> is reached only at the end of an alternative.
\<close>

definition segment_matches :: "string \<Rightarrow> string \<Rightarrow> star \<Rightarrow> bool" where
  "segment_matches p w st \<longleftrightarrow>
     fold_case w = fold_case (literal_part p)
   \<or> (st \<noteq> Star_none \<or> CHR ''*'' \<in> set p \<and> min_abbrev p \<le> length w)
       \<and> prefix (fold_case w) (fold_case (literal_part p))
   \<or> (if p = [] then st = Star_end else last p = CHR ''*'')
       \<and> prefix (fold_case (literal_part p)) (fold_case w)"

lemma segment_matches_Nil: "segment_matches [] w st \<longleftrightarrow> w = [] \<or> st = Star_end"
  by (cases w) (auto simp: segment_matches_def literal_part_def)

lemma segment_matches_star:
  "segment_matches (CHR ''*'' # p) w st \<longleftrightarrow>
   segment_matches p w (if p = [] then Star_end else Star_inner)"
  by (simp add: segment_matches_def literal_part_def min_abbrev_def)

lemma segment_matches_char_Nil:
  "c \<noteq> CHR ''*'' \<Longrightarrow> segment_matches (c # p) [] st \<longleftrightarrow> st \<noteq> Star_none"
  by (simp add: segment_matches_def literal_part_def min_abbrev_def)

lemma segment_matches_char:
  "c \<noteq> CHR ''*'' \<Longrightarrow> st \<noteq> Star_end \<Longrightarrow>
   segment_matches (c # p) (d # w) st \<longleftrightarrow> cmap d = cmap c \<and> segment_matches p w st"
  by (auto simp: segment_matches_def literal_part_def min_abbrev_def)

lemma verb_scan_star:
  "verb_scan (CHR ''*'' # v) w st =
   verb_scan v w (if v = [] \<or> hd v = CHR '' '' then Star_end else Star_inner)"
  by (cases w) simp_all

lemma scan_accepts_segment:
  "CHR '' '' \<notin> set p \<Longrightarrow> st = Star_end \<longrightarrow> p = [] \<Longrightarrow>
   scan_accepts (verb_scan p w st) \<longleftrightarrow> segment_matches p w st"
proof (induction p arbitrary: w st)
  case Nil
  show ?case by (cases w) (simp_all add: scan_accepts_def segment_matches_Nil)
next
  case (Cons c p)
  show ?case
  proof (cases "c = CHR ''*''")
    case True
    have hd: "p = [] \<or> hd p = CHR '' '' \<longleftrightarrow> p = []" using Cons.prems(1) by (cases p) auto
    have "scan_accepts (verb_scan p w (if p = [] then Star_end else Star_inner)) \<longleftrightarrow>
        segment_matches p w (if p = [] then Star_end else Star_inner)"
      using Cons.prems(1) by (intro Cons.IH) auto
    then show ?thesis by (simp only: True verb_scan_star hd segment_matches_star)
  next
    case star: False
    have st: "st \<noteq> Star_end" and sp: "c \<noteq> CHR '' ''" using Cons.prems by auto
    show ?thesis
    proof (cases w)
      case Nil
      with star sp show ?thesis by (simp add: scan_accepts_def segment_matches_char_Nil)
    next
      case (Cons d u)
      have "scan_accepts (verb_scan p u st) \<longleftrightarrow> segment_matches p u st"
        using \<open>CHR '' '' \<notin> set (c # p)\<close> st by (intro Cons.IH) auto
      with star sp st Cons show ?thesis
        by (simp add: segment_matches_char scan_accepts_def)
    qed
  qed
qed

lemma name_matches_segment: "name_matches p w \<longleftrightarrow> segment_matches p w Star_none"
  by (simp add: name_matches_def segment_matches_def)

lemma scan_accepts_name:
  fixes v :: string
  defines "p \<equiv> takeWhile (\<lambda>c. c \<noteq> CHR '' '') v"
  shows "scan_accepts (verb_scan v w Star_none) \<longleftrightarrow> name_matches p w"
proof -
  define rest where "rest = dropWhile (\<lambda>c. c \<noteq> CHR '' '') v"
  have rest: "rest = [] \<or> hd rest = CHR '' ''"
    unfolding rest_def by (metis (mono_tags, lifting) hd_dropWhile)
  have v: "v = p @ rest" unfolding p_def rest_def by simp
  have ns: "CHR '' '' \<notin> set p" unfolding p_def by (auto dest: set_takeWhileD)
  obtain q w' st where s: "verb_scan p w Star_none = (q, w', st)" by (metis prod_cases3)
  have "scan_accepts (q @ rest, w', st) = scan_accepts (q, w', st)"
  proof (cases q)
    case Nil
    with rest show ?thesis by (auto simp: scan_accepts_def)
  qed (simp add: scan_accepts_def)
  moreover have "verb_scan v w Star_none = (q @ rest, w', st)"
    using verb_scan_append [OF rest ns, of w Star_none] s v by simp
  moreover have "scan_accepts (q, w', st) \<longleftrightarrow> name_matches p w"
    using scan_accepts_segment [OF ns, of Star_none w] s by (simp add: name_matches_segment)
  ultimately show ?thesis by simp
qed

text \<open>Whatever a scan consumed, the next alternative starts at the same place.\<close>

lemma verb_scan_no_space:
  "CHR '' '' \<notin> set p \<Longrightarrow> CHR '' '' \<notin> set (fst (verb_scan p w st))"
proof (induction p w st rule: verb_scan.induct)
  case (1 v st)
  then show ?case by (auto split: prod.splits dest: skip_stars_no_space)
next
  case (2 v d w st)
  obtain q st1 where s: "skip_stars v st = (q, st1)" by (cases "skip_stars v st")
  have "CHR '' '' \<notin> set q" using skip_stars_no_space [OF "2.prems" s] .
  with s "2.IH" show ?case by (cases q) auto
qed

lemma next_name_append:
  "CHR '' '' \<notin> set q \<Longrightarrow> next_name (q @ rest) = next_name rest"
  unfolding next_name_def by (subst dropWhile_append2) auto

lemma verb_scan_next_name:
  assumes "verb_scan v w st = (v', r)"
  shows "next_name v' = next_name v"
proof -
  define p where "p = takeWhile (\<lambda>c. c \<noteq> CHR '' '') v"
  define rest where "rest = dropWhile (\<lambda>c. c \<noteq> CHR '' '') v"
  have rest: "rest = [] \<or> hd rest = CHR '' ''"
    unfolding rest_def by (metis (mono_tags, lifting) hd_dropWhile)
  have v: "v = p @ rest" unfolding p_def rest_def by simp
  have ns: "CHR '' '' \<notin> set p" unfolding p_def by (auto dest: set_takeWhileD)
  have "v' = fst (verb_scan p w st) @ rest"
    using verb_scan_append [OF rest ns, of w st] assms v by (auto split: prod.splits)
  with v ns verb_scan_no_space [OF ns, of w st] show ?thesis
    by (simp add: next_name_append)
qed

lemma verb_loop_spec: "verb_loop v w \<longleftrightarrow> verb_name_spec v w"
proof (induction v w rule: verb_loop.induct)
  case (1 v w)
  show ?case
  proof (cases "v = []")
    case True
    then show ?thesis by (simp add: verb_loop.simps verb_name_spec_def verb_names.simps)
  next
    case False
    obtain v' w' st where s: "verb_scan v w Star_none = (v', w', st)" by (metis prod_cases3)
    let ?hit = "if w' = [] then st \<noteq> Star_none \<or> v' = [] \<or> hd v' = CHR '' '' else st = Star_end"
    have hit: "?hit \<longleftrightarrow> name_matches (takeWhile (\<lambda>c. c \<noteq> CHR '' '') v) w"
      using scan_accepts_name [of v w] s by (simp add: scan_accepts_def)
    have next': "next_name v' = next_name v" using verb_scan_next_name [OF s] .
    have "verb_loop v w \<longleftrightarrow> ?hit \<or> verb_loop (next_name v) w"
      using False s next' by (subst verb_loop.simps) simp
    moreover have "?hit \<or> (verb_loop (next_name v) w \<longleftrightarrow> verb_name_spec (next_name v) w)"
      using "1.IH" [OF False s [symmetric] refl] next' by metis
    ultimately show ?thesis
      using False hit by (auto simp: verb_name_spec_def verb_names.simps [of v])
  qed
qed

text \<open>
  Verb lookup is insensitive to the case of the word that is looked up: the
  verb cache, which compares words with \<open>mystrcasecmp\<close>, relies on it.
\<close>

lemma name_matches_fold:
  "fold_case w = fold_case w' \<Longrightarrow> name_matches p w = name_matches p w'"
proof -
  assume eq: "fold_case w = fold_case w'"
  then have "length w = length w'" by (metis fold_case_simps(4))
  with eq show ?thesis by (simp add: name_matches_def)
qed

lemma verb_loop_fold:
  "fold_case w = fold_case w' \<Longrightarrow> verb_loop v w = verb_loop v w'"
  by (simp add: verb_loop_spec verb_name_spec_def name_matches_fold [of w w'])

end
