(* ===== verification/Values.thy ===== *)
theory Values
  imports CStrings
begin

text \<open>
  MOO values (\<^verbatim>\<open>struct Var\<close> of \<^verbatim>\<open>structures.h\<close>), truth and equality from
  \<^verbatim>\<open>utils.c\<close>, and the list primitives of \<^verbatim>\<open>list.c\<close>.  A value is modelled by
  its contents: reference counts and the sharing of list and string storage
  are not part of the model (\<^verbatim>\<open>var_ref\<close> and \<^verbatim>\<open>free_var\<close> leave the contents
  alone, and \<^verbatim>\<open>doinsert\<close> reuses storage only when no one else holds it).
  Element 0 of the C array, the length, is the length of the HOL list; MOO
  positions count from 1.
\<close>

section \<open>Errors and values\<close>

datatype error =
    E_NONE | E_TYPE | E_DIV | E_PERM | E_PROPNF | E_VERBNF | E_VARNF | E_INVIND
  | E_RECMOVE | E_MAXREC | E_RANGE | E_ARGS | E_NACC | E_INVARG | E_QUOTA | E_FLOAT

text \<open>A \<^verbatim>\<open>double\<close> is its IEEE binary64 bit pattern.\<close>

type_synonym flnum = "64 word"

datatype var =
    TYPE_INT num
  | TYPE_OBJ objid
  | TYPE_STR string
  | TYPE_ERR error
  | TYPE_LIST "var list"
  | TYPE_CLEAR
  | TYPE_NONE
  | TYPE_CATCH num
  | TYPE_FINALLY num
  | TYPE_FLOAT flnum

definition zero_var :: var where
  "zero_var = TYPE_INT 0"

unbundle bit_operations_syntax

definition fl_magnitude :: "flnum \<Rightarrow> flnum" where
  "fl_magnitude w = w AND 0x7FFFFFFFFFFFFFFF"

definition fl_is_nan :: "flnum \<Rightarrow> bool" where
  "fl_is_nan w \<longleftrightarrow> fl_magnitude w > 0x7FF0000000000000"

definition fl_is_zero :: "flnum \<Rightarrow> bool" where
  "fl_is_zero w \<longleftrightarrow> fl_magnitude w = 0"

text \<open>The C operators \<^verbatim>\<open>==\<close> and \<^verbatim>\<open>!= 0.0\<close> on doubles.\<close>

definition fl_eq :: "flnum \<Rightarrow> flnum \<Rightarrow> bool" where
  "fl_eq a b \<longleftrightarrow> \<not> fl_is_nan a \<and> \<not> fl_is_nan b \<and> (a = b \<or> fl_is_zero a \<and> fl_is_zero b)"

definition fl_nonzero :: "flnum \<Rightarrow> bool" where
  "fl_nonzero a \<longleftrightarrow> \<not> fl_is_zero a"

section \<open>Truth and equality\<close>

fun is_true :: "var \<Rightarrow> bool" where
  "is_true (TYPE_INT n) = (n \<noteq> 0)"
| "is_true (TYPE_FLOAT f) = fl_nonzero f"
| "is_true (TYPE_STR s) = (s \<noteq> [])"
| "is_true (TYPE_LIST l) = (l \<noteq> [])"
| "is_true _ = False"

text \<open>\<^verbatim>\<open>do_equals\<close> of \<^verbatim>\<open>numbers.c\<close>, with the pragma \<^verbatim>\<open>FLOATINT_EQ\<close> off (the default).\<close>

fun do_equals :: "flnum \<Rightarrow> var \<Rightarrow> bool" where
  "do_equals a (TYPE_FLOAT b) = fl_eq a b"
| "do_equals a _ = False"

text \<open>The type codes of \<^verbatim>\<open>var_type\<close>, without the in-memory flag bit.\<close>

fun var_type :: "var \<Rightarrow> int" where
  "var_type (TYPE_INT _) = 0"
| "var_type (TYPE_OBJ _) = 1"
| "var_type (TYPE_STR _) = 2"
| "var_type (TYPE_ERR _) = 3"
| "var_type (TYPE_LIST _) = 4"
| "var_type TYPE_CLEAR = 5"
| "var_type TYPE_NONE = 6"
| "var_type (TYPE_CATCH _) = 7"
| "var_type (TYPE_FINALLY _) = 8"
| "var_type (TYPE_FLOAT _) = 9"

text \<open>
  \<^term>\<open>None\<close> is the panic on two values of a type that MOO code cannot hold.
  The element loop stops at the first difference, so a later pair of such
  values is not looked at.
\<close>

fun equality :: "var \<Rightarrow> var \<Rightarrow> bool \<Rightarrow> bool option"
and equality_elems :: "var list \<Rightarrow> var list \<Rightarrow> bool \<Rightarrow> bool option" where
  "equality lhs rhs case_matters =
     (case lhs of
        TYPE_FLOAT f \<Rightarrow> Some (do_equals f rhs)
      | _ \<Rightarrow>
        (case rhs of
           TYPE_FLOAT g \<Rightarrow> Some (do_equals g lhs)
         | _ \<Rightarrow>
           if var_type lhs \<noteq> var_type rhs then Some False
           else
             (case lhs of
                TYPE_INT a \<Rightarrow> Some (rhs = TYPE_INT a)
              | TYPE_OBJ a \<Rightarrow> Some (rhs = TYPE_OBJ a)
              | TYPE_ERR a \<Rightarrow> Some (rhs = TYPE_ERR a)
              | TYPE_STR a \<Rightarrow>
                  (case rhs of
                     TYPE_STR b \<Rightarrow> Some (if case_matters then a = b else mystrcasecmp a b = 0)
                   | _ \<Rightarrow> None)
              | TYPE_LIST as \<Rightarrow>
                  (case rhs of
                     TYPE_LIST bs \<Rightarrow>
                       if length as \<noteq> length bs then Some False
                       else equality_elems as bs case_matters
                   | _ \<Rightarrow> None)
              | _ \<Rightarrow> None)))"
| "equality_elems [] bs case_matters = Some True"
| "equality_elems (a # as) [] case_matters = Some True"
| "equality_elems (a # as) (b # bs) case_matters =
     do { eq \<leftarrow> equality a b case_matters;
          if eq then equality_elems as bs case_matters else Some False }"

declare equality.simps [simp del]

section \<open>List primitives\<close>

fun ismember_loop :: "var \<Rightarrow> var list \<Rightarrow> bool \<Rightarrow> int \<Rightarrow> int option" where
  "ismember_loop lhs [] case_matters i = Some 0"
| "ismember_loop lhs (x # xs) case_matters i =
     do { eq \<leftarrow> equality lhs x case_matters;
          if eq then Some i else ismember_loop lhs xs case_matters (i + 1) }"

definition ismember :: "var \<Rightarrow> var list \<Rightarrow> bool \<Rightarrow> int option" where
  "ismember lhs rhs case_matters = ismember_loop lhs rhs case_matters 1"

text \<open>
  The array primitives trust their callers with the positions; outside the
  array they touch storage they do not own, which is \<^term>\<open>None\<close>.
\<close>

definition listset :: "var list \<Rightarrow> var \<Rightarrow> int \<Rightarrow> var list option" where
  "listset xs value pos =
     (if 1 \<le> pos \<and> pos \<le> int (length xs) then Some (xs[nat (pos - 1) := value]) else None)"

definition doinsert :: "var list \<Rightarrow> var \<Rightarrow> int \<Rightarrow> var list option" where
  "doinsert xs value pos =
     (if 1 \<le> pos \<and> pos \<le> int (length xs) + 1
      then Some (take (nat (pos - 1)) xs @ value # drop (nat (pos - 1)) xs) else None)"

definition listinsert :: "var list \<Rightarrow> var \<Rightarrow> int \<Rightarrow> var list option" where
  "listinsert xs value pos =
     (let n = int (length xs);
          p = (if pos \<le> 0 then 1 else if pos > n then n + 1 else pos)
      in doinsert xs value p)"

definition listappend :: "var list \<Rightarrow> var \<Rightarrow> var list option" where
  "listappend xs value = doinsert xs value (int (length xs) + 1)"

definition listdelete :: "var list \<Rightarrow> int \<Rightarrow> var list option" where
  "listdelete xs pos =
     (if 1 \<le> pos \<and> pos \<le> int (length xs)
      then Some (take (nat (pos - 1)) xs @ drop (nat pos) xs) else None)"

definition listconcat :: "var list \<Rightarrow> var list \<Rightarrow> var list" where
  "listconcat first second = first @ second"

definition setadd :: "var list \<Rightarrow> var \<Rightarrow> var list option" where
  "setadd xs value =
     do { i \<leftarrow> ismember value xs False;
          if i \<noteq> 0 then Some xs else listappend xs value }"

definition setremove :: "var list \<Rightarrow> var \<Rightarrow> var list option" where
  "setremove xs value =
     do { i \<leftarrow> ismember value xs False;
          if i \<noteq> 0 then listdelete xs i else Some xs }"

text \<open>The range primitives are shared by lists and by byte strings.\<close>

definition rangeset :: "'a list \<Rightarrow> int \<Rightarrow> int \<Rightarrow> 'a list \<Rightarrow> 'a list option" where
  "rangeset base from after value =
     (if 1 \<le> after \<and> from \<le> int (length base) + 1
      then let lenleft = (if from > 1 then nat (from - 1) else 0);
               lenright = (if int (length base) \<ge> after
                           then nat (int (length base) - after + 1) else 0)
           in Some (take lenleft base @ value @ take lenright (drop (nat (after - 1)) base))
      else None)"

definition listrangeset :: "var list \<Rightarrow> int \<Rightarrow> int \<Rightarrow> var list \<Rightarrow> var list option" where
  "listrangeset base from after value = rangeset base from after value"

definition strrangeset :: "string \<Rightarrow> int \<Rightarrow> int \<Rightarrow> string \<Rightarrow> string option" where
  "strrangeset base from after value = rangeset base from after value"

definition subrange :: "'a list \<Rightarrow> int \<Rightarrow> int \<Rightarrow> 'a list option" where
  "subrange xs first after =
     (if after \<le> first then Some []
      else if 1 \<le> first \<and> after \<le> int (length xs) + 1
      then Some (take (nat (after - first)) (drop (nat (first - 1)) xs)) else None)"

definition sublist :: "var list \<Rightarrow> int \<Rightarrow> int \<Rightarrow> var list option" where
  "sublist xs first after = subrange xs first after"

definition substr :: "string \<Rightarrow> int \<Rightarrow> int \<Rightarrow> string option" where
  "substr s first after = subrange s first after"

text \<open>
  \<^verbatim>\<open>value_bytes\<close> in the default byte-quota model \<^verbatim>\<open>BQM_64\<close>: a \<^verbatim>\<open>Var\<close> counts for
  16 bytes and floats are not boxed.
\<close>

definition BQM_SIZEOF_Var :: int where
  "BQM_SIZEOF_Var = 16"

fun value_bytes :: "var \<Rightarrow> int"
and value_bytes_elems :: "var list \<Rightarrow> int" where
  "value_bytes (TYPE_STR s) = BQM_SIZEOF_Var + (int (length s) + 1)"
| "value_bytes (TYPE_LIST l) = BQM_SIZEOF_Var + BQM_SIZEOF_Var + value_bytes_elems l"
| "value_bytes _ = BQM_SIZEOF_Var"
| "value_bytes_elems [] = 0"
| "value_bytes_elems (x # xs) = value_bytes x + value_bytes_elems xs"

section \<open>Equality is an equivalence on the values MOO code can hold\<close>

text \<open>Floats that reach MOO code are checked with \<^verbatim>\<open>IS_REAL\<close>, so none is a NaN.\<close>

fun user_value :: "var \<Rightarrow> bool"
and user_values :: "var list \<Rightarrow> bool" where
  "user_value (TYPE_INT n) = True"
| "user_value (TYPE_OBJ n) = True"
| "user_value (TYPE_STR s) = nul_free s"
| "user_value (TYPE_ERR e) = True"
| "user_value (TYPE_LIST l) = user_values l"
| "user_value (TYPE_FLOAT f) = (\<not> fl_is_nan f)"
| "user_value _ = False"
| "user_values [] = True"
| "user_values (x # xs) = (user_value x \<and> user_values xs)"

lemma user_values_list_all: "user_values xs \<longleftrightarrow> list_all user_value xs"
  by (induction xs) auto

text \<open>What the comparison looks at: two values are equal iff these agree.\<close>

datatype key =
    KNum int int | KStr "int list" | KText string | KErr error | KFloat flnum | KList "key list"

definition fl_key :: "flnum \<Rightarrow> flnum" where
  "fl_key f = (if fl_is_zero f then 0 else f)"

fun val_key :: "bool \<Rightarrow> var \<Rightarrow> key"
and val_keys :: "bool \<Rightarrow> var list \<Rightarrow> key list" where
  "val_key cm (TYPE_INT n) = KNum 0 n"
| "val_key cm (TYPE_OBJ n) = KNum 1 n"
| "val_key cm (TYPE_STR s) = (if cm then KText s else KStr (fold_case s))"
| "val_key cm (TYPE_ERR e) = KErr e"
| "val_key cm (TYPE_LIST l) = KList (val_keys cm l)"
| "val_key cm (TYPE_FLOAT f) = KFloat (fl_key f)"
| "val_key cm _ = KNum 2 0"
| "val_keys cm [] = []"
| "val_keys cm (x # xs) = val_key cm x # val_keys cm xs"

lemma length_val_keys [simp]: "length (val_keys cm xs) = length xs"
  by (induction xs) auto

lemma fl_is_zero_0 [simp]: "fl_is_zero 0"
  by (simp add: fl_is_zero_def fl_magnitude_def)

lemma fl_eq_key:
  "\<not> fl_is_nan a \<Longrightarrow> \<not> fl_is_nan b \<Longrightarrow> fl_eq a b \<longleftrightarrow> fl_key a = fl_key b"
  by (auto simp: fl_eq_def fl_key_def)

lemma equality_key:
  "user_value a \<Longrightarrow> user_value b \<Longrightarrow> equality a b cm = Some (val_key cm a = val_key cm b)"
  "user_values as \<Longrightarrow> user_values bs \<Longrightarrow> length as = length bs \<Longrightarrow>
   equality_elems as bs cm = Some (val_keys cm as = val_keys cm bs)"
proof (induction a b cm and as bs cm rule: equality_equality_elems.induct)
  case (1 lhs rhs cm)
  show ?case
  proof (cases lhs)
    case (TYPE_STR s)
    with "1.prems" show ?thesis
      by (cases rhs) (simp_all add: equality.simps mystrcasecmp_0_iff)
  next
    case (TYPE_FLOAT f)
    with "1.prems" show ?thesis
      by (cases rhs) (simp_all add: equality.simps fl_eq_key)
  next
    case (TYPE_LIST l)
    show ?thesis
    proof (cases rhs)
      fix m assume rhs: "rhs = TYPE_LIST m"
      show ?thesis
      proof (cases "length l = length m")
        case True
        with "1" TYPE_LIST rhs show ?thesis by (simp add: equality.simps)
      next
        case False
        then have "val_keys cm l \<noteq> val_keys cm m" by (metis length_val_keys)
        with False TYPE_LIST rhs show ?thesis by (simp add: equality.simps)
      qed
    qed (use TYPE_LIST "1.prems" in \<open>simp_all add: equality.simps\<close>)
  qed (use "1.prems" in \<open>cases rhs; simp add: equality.simps; blast\<close>)+
next
  case (2 bs cm)
  then show ?case by simp
next
  case (3 a as cm)
  then show ?case by simp
next
  case (4 a as b bs cm)
  then show ?case by simp
qed

section \<open>Lists as sets\<close>

text \<open>
  The contract of the two set primitives: elements are the same when their keys
  agree; adding appends at most once; removing takes out the first occurrence.
  The user list of the object database is a client.
\<close>

locale value_set =
  fixes key :: "'a \<Rightarrow> 'k" and ok :: "'a \<Rightarrow> bool"
    and add :: "'a list \<Rightarrow> 'a \<Rightarrow> 'a list option"
    and remove :: "'a list \<Rightarrow> 'a \<Rightarrow> 'a list option"
  assumes add_new:
      "ok x \<Longrightarrow> list_all ok xs \<Longrightarrow> key x \<notin> key ` set xs \<Longrightarrow> add xs x = Some (xs @ [x])"
    and add_old:
      "ok x \<Longrightarrow> list_all ok xs \<Longrightarrow> key x \<in> key ` set xs \<Longrightarrow> add xs x = Some xs"
    and remove_new:
      "ok x \<Longrightarrow> list_all ok xs \<Longrightarrow> key x \<notin> key ` set xs \<Longrightarrow> remove xs x = Some xs"
    and remove_old:
      "ok x \<Longrightarrow> list_all ok (us @ y # vs) \<Longrightarrow> key y = key x \<Longrightarrow> key x \<notin> key ` set us \<Longrightarrow>
       remove (us @ y # vs) x = Some (us @ vs)"
begin

lemma first_split:
  "key x \<in> key ` set xs \<Longrightarrow> \<exists>us y vs. xs = us @ y # vs \<and> key y = key x \<and> key x \<notin> key ` set us"
proof -
  assume "key x \<in> key ` set xs"
  then have "\<exists>y \<in> set xs. key y = key x" by force
  then obtain us y vs where "xs = us @ y # vs" "key y = key x" "\<forall>u \<in> set us. key u \<noteq> key x"
    using split_list_first_prop [of xs "\<lambda>y. key y = key x"] by blast
  then show ?thesis by (metis imageE)
qed

lemma add_spec:
  assumes "ok x" "list_all ok xs"
  shows "\<exists>ys. add xs x = Some ys \<and> list_all ok ys
           \<and> key ` set ys = insert (key x) (key ` set xs)
           \<and> (distinct (map key xs) \<longrightarrow> distinct (map key ys))"
  using assms add_new [of x xs] add_old [of x xs] by (cases "key x \<in> key ` set xs") auto

lemma remove_spec:
  assumes "ok x" "list_all ok xs"
  shows "\<exists>ys. remove xs x = Some ys \<and> list_all ok ys
           \<and> (distinct (map key xs) \<longrightarrow>
                distinct (map key ys) \<and> key ` set ys = key ` set xs - {key x})"
proof (cases "key x \<in> key ` set xs")
  case True
  with first_split obtain us y vs
    where xs: "xs = us @ y # vs" "key y = key x" "key x \<notin> key ` set us" by blast
  with assms have "remove xs x = Some (us @ vs)" by (simp add: remove_old)
  moreover have "list_all ok (us @ vs)" using assms xs by simp
  moreover have "distinct (map key xs) \<longrightarrow>
      distinct (map key (us @ vs)) \<and> key ` set (us @ vs) = key ` set xs - {key x}"
    using xs by (auto simp: image_iff)
  ultimately show ?thesis by blast
next
  case False
  with assms remove_new show ?thesis by auto
qed

lemma remove_add:
  "ok x \<Longrightarrow> list_all ok xs \<Longrightarrow> key x \<notin> key ` set xs \<Longrightarrow>
   do { ys \<leftarrow> add xs x; remove ys x } = Some xs"
  using remove_old [of x xs x "[]"] by (simp add: add_new)

end

lemma ismember_loop_key:
  "user_value x \<Longrightarrow> list_all user_value (us @ vs) \<Longrightarrow> val_key cm x \<notin> val_key cm ` set us \<Longrightarrow>
   ismember_loop x (us @ vs) cm i = ismember_loop x vs cm (i + int (length us))"
  by (induction us arbitrary: i) (auto simp: equality_key(1) algebra_simps)

lemma ismember_absent:
  "user_value x \<Longrightarrow> list_all user_value xs \<Longrightarrow> val_key cm x \<notin> val_key cm ` set xs \<Longrightarrow>
   ismember x xs cm = Some 0"
  using ismember_loop_key [of x xs "[]" cm 1] by (simp add: ismember_def)

lemma ismember_first:
  "user_value x \<Longrightarrow> list_all user_value (us @ y # vs) \<Longrightarrow> val_key cm y = val_key cm x \<Longrightarrow>
   val_key cm x \<notin> val_key cm ` set us \<Longrightarrow>
   ismember x (us @ y # vs) cm = Some (1 + int (length us))"
  using ismember_loop_key [of x us "y # vs" cm 1] by (simp add: ismember_def equality_key(1))

lemma listappend_eq [simp]: "listappend xs v = Some (xs @ [v])"
  by (simp add: listappend_def doinsert_def)

interpretation moo_set: value_set "val_key False" user_value setadd setremove
proof
  fix x y :: var and xs us vs :: "var list"
  assume ok: "user_value x"
  show "setadd xs x = Some (xs @ [x])"
    if "list_all user_value xs" "val_key False x \<notin> val_key False ` set xs"
    using ok that by (simp add: setadd_def ismember_absent)
  show "setremove xs x = Some xs"
    if "list_all user_value xs" "val_key False x \<notin> val_key False ` set xs"
    using ok that by (simp add: setremove_def ismember_absent)
  show "setremove (us @ y # vs) x = Some (us @ vs)"
    if "list_all user_value (us @ y # vs)" "val_key False y = val_key False x"
      "val_key False x \<notin> val_key False ` set us"
    using ok that by (simp add: setremove_def ismember_first listdelete_def nat_add_distrib)
  show "setadd xs x = Some xs"
    if xs: "list_all user_value xs" "val_key False x \<in> val_key False ` set xs"
  proof -
    from xs(2) obtain z where "z \<in> set xs" "val_key False z = val_key False x" by force
    then obtain us y vs where "xs = us @ y # vs" "val_key False y = val_key False x"
        "\<forall>u \<in> set us. val_key False u \<noteq> val_key False x"
      using split_list_first_prop [of xs "\<lambda>y. val_key False y = val_key False x"] by blast
    moreover from this(3) have "val_key False x \<notin> val_key False ` set us" by (metis imageE)
    ultimately show ?thesis using ok xs(1) by (simp add: setadd_def ismember_first)
  qed
qed

section \<open>Ranges\<close>

lemma subrange_rangeset:
  assumes "rangeset base from after value = Some r" and "1 \<le> from"
  shows "subrange r from (from + int (length value)) = Some value"
  using assms by (auto simp: rangeset_def subrange_def Let_def min_def split: if_splits)

lemma rangeset_eq:
  assumes "1 \<le> from" "1 \<le> after" "from \<le> int (length xs) + 1"
  shows "rangeset xs from after v = Some (take (nat (from - 1)) xs @ v @ drop (nat (after - 1)) xs)"
  using assms by (auto simp: rangeset_def Let_def)

lemma subrange_eq:
  assumes "1 \<le> first" "first \<le> after" "after \<le> int (length xs) + 1"
  shows "subrange xs first after = Some (take (nat (after - first)) (drop (nat (first - 1)) xs))"
  using assms by (auto simp: subrange_def)

lemma rangeset_self:
  assumes "1 \<le> first" "first \<le> after" "after \<le> int (length xs) + 1"
  shows "do { v \<leftarrow> subrange xs first after; rangeset xs first after v } = Some xs"
proof -
  define i k where "i = nat (first - 1)" and "k = nat (after - first)"
  have a: "nat (after - 1) = k + i" using assms by (simp add: i_def k_def)
  have "take i xs @ take k (drop i xs) @ drop (k + i) xs = xs"
    by (metis append_take_drop_id drop_drop)
  with assms a show ?thesis
    by (simp add: rangeset_eq subrange_eq i_def k_def)
qed

lemma rangeset_length:
  assumes "rangeset base from after value = Some r" and "1 \<le> from" and "from \<le> after"
  shows "int (length r) = from - 1 + int (length value) + max 0 (int (length base) + 1 - after)"
  using assms by (auto simp: rangeset_def Let_def split: if_splits)

lemma value_bytes_pos: "0 < value_bytes v" "0 \<le> value_bytes_elems vs"
  by (induction v and vs rule: value_bytes_value_bytes_elems.induct)
    (simp_all add: BQM_SIZEOF_Var_def)

lemma value_bytes_elems_append:
  "value_bytes_elems (xs @ ys) = value_bytes_elems xs + value_bytes_elems ys"
  by (induction xs) simp_all

end
