(* ===== verification/Words.thy ===== *)
theory Words
  imports Values
begin

text \<open>
  Splitting a line into words (\<^verbatim>\<open>parse_into_words\<close> and \<^verbatim>\<open>build_string\<close> of
  \<^verbatim>\<open>parse_cmd.c\<close>), and the part of the C library that the name lookups use
  (\<^verbatim>\<open>isspace\<close>, \<^verbatim>\<open>isdigit\<close>, \<^verbatim>\<open>strtol\<close> in base 10 with a 64-bit \<^verbatim>\<open>long\<close>).  The C code
  writes the words into the line it reads; the write position never passes the
  read position, so the words are those of a separate output.
\<close>

section \<open>The C library\<close>

definition isspace :: "char \<Rightarrow> bool" where
  "isspace c = (c \<in> {CHR '' '', CHR 0x09, CHR 0x0A, CHR 0x0B, CHR 0x0C, CHR 0x0D})"

definition isdigit :: "char \<Rightarrow> bool" where
  "isdigit c = (48 \<le> (of_char c :: nat) \<and> (of_char c :: nat) \<le> 57)"

definition digit_val :: "char \<Rightarrow> int" where
  "digit_val c = of_char c - 48"

definition digits_val :: "string \<Rightarrow> int" where
  "digits_val ds = foldl (\<lambda>n c. 10 * n + digit_val c) 0 ds"

definition clamp_num :: "int \<Rightarrow> int" where
  "clamp_num n = (if n < NUM_MIN then NUM_MIN else if n > NUM_MAX then NUM_MAX else n)"

text \<open>The value and what is left after the number; all of the string if there is no number.\<close>

definition strtol :: "string \<Rightarrow> int \<times> string" where
  "strtol s =
     (let t = dropWhile isspace s;
          neg = (t \<noteq> [] \<and> hd t = CHR ''-'');
          u = (if t \<noteq> [] \<and> (hd t = CHR ''-'' \<or> hd t = CHR ''+'') then tl t else t);
          ds = takeWhile isdigit u
      in if ds = [] then (0, s)
         else (clamp_num (if neg then - digits_val ds else digits_val ds), dropWhile isdigit u))"

text \<open>Conversion to a 32-bit \<^verbatim>\<open>int\<close>.\<close>

definition int32 :: "int \<Rightarrow> int" where
  "int32 n = (n + 2 ^ 31) mod 2 ^ 32 - 2 ^ 31"

section \<open>Words\<close>

definition QUOTE :: char where "QUOTE = CHR 0x22"
definition BACKSLASH :: char where "BACKSLASH = CHR 0x5C"

fun scan_word :: "bool \<Rightarrow> string \<Rightarrow> string \<times> string" where
  "scan_word in_quotes [] = ([], [])"
| "scan_word in_quotes (c # input) =
     (if \<not> in_quotes \<and> c = CHR '' '' then ([], c # input)
      else if c = QUOTE then scan_word (\<not> in_quotes) input
      else if c = BACKSLASH
      then (case input of [] \<Rightarrow> ([], [])
            | d # rest \<Rightarrow> (case scan_word in_quotes rest of (w, r) \<Rightarrow> (d # w, r)))
      else (case scan_word in_quotes input of (w, r) \<Rightarrow> (c # w, r)))"

lemma scan_word_length: "length (snd (scan_word q s)) \<le> length s"
proof (induction q s rule: scan_word.induct)
  case (2 q c s)
  show ?case
  proof (cases s)
    case (Cons d t)
    with 2 show ?thesis by (auto split: prod.splits simp del: scan_word.simps(2) simp: scan_word.simps(2) [of q c "d # t"])
  qed (simp split: prod.splits)
qed simp

lemma scan_word_progress:
  assumes "c \<noteq> CHR '' ''"
  shows "length (snd (scan_word False (c # s))) < length (c # s)"
proof -
  have "snd (scan_word False (c # s)) =
      (if c = QUOTE then snd (scan_word True s)
       else if c = BACKSLASH then (case s of [] \<Rightarrow> [] | d # t \<Rightarrow> snd (scan_word False t))
       else snd (scan_word False s))"
    using assms by (auto split: prod.splits list.splits)
  then show ?thesis
    using scan_word_length [of True s] scan_word_length [of False s] scan_word_length [of False "tl s"]
    by (auto split: list.splits)
qed

definition skip_spaces :: "string \<Rightarrow> string" where
  "skip_spaces s = dropWhile (\<lambda>c. c = CHR '' '') s"

lemma skip_spaces_cases:
  obtains "skip_spaces s = []" | c t where "skip_spaces s = c # t" "c \<noteq> CHR '' ''" "length (c # t) \<le> length s"
proof (cases "skip_spaces s")
  case (Cons c t)
  moreover from Cons have "c \<noteq> CHR '' ''" unfolding skip_spaces_def by (metis (mono_tags, lifting) hd_dropWhile list.discI list.sel(1))
  moreover have "length (skip_spaces s) \<le> length s" unfolding skip_spaces_def by (rule length_dropWhile_le)
  ultimately show thesis using that(2) by simp
qed (rule that(1))

function parse_into_words :: "string \<Rightarrow> string list" where
  "parse_into_words input =
     (if skip_spaces input = [] then []
      else case scan_word False (skip_spaces input) of (w, rest) \<Rightarrow> w # parse_into_words rest)"
  by pat_completeness auto
termination
proof (relation "measure length")
  fix input w rest :: string
  assume a: "skip_spaces input \<noteq> []" "(w, rest) = scan_word False (skip_spaces input)"
  then obtain c t where t: "skip_spaces input = c # t" "c \<noteq> CHR '' ''" "length (c # t) \<le> length input"
    using skip_spaces_cases [of input] by blast
  have "rest = snd (scan_word False (c # t))" using a(2) t(1) by (metis snd_conv)
  then show "(rest, input) \<in> measure length"
    using scan_word_progress [OF t(2), of t] t(3) by (simp del: scan_word.simps)
qed simp

declare parse_into_words.simps [simp del]

fun build_string :: "string list \<Rightarrow> string" where
  "build_string [] = []"
| "build_string [w] = w"
| "build_string (w # ws) = w @ CHR '' '' # build_string ws"

definition parse_into_wordlist :: "string \<Rightarrow> var" where
  "parse_into_wordlist command = TYPE_LIST (map TYPE_STR (parse_into_words command))"

section \<open>Quoting round trip\<close>

text \<open>
  Every list of words, empty words and words with blanks, quotes and
  backslashes included, is the parse of its quoted form.
\<close>

fun escape :: "string \<Rightarrow> string" where
  "escape [] = []"
| "escape (c # s) = (if c = QUOTE \<or> c = BACKSLASH then BACKSLASH # c # escape s else c # escape s)"

definition quote_word :: "string \<Rightarrow> string" where
  "quote_word w = QUOTE # escape w @ [QUOTE]"

lemma quote_chars [simp]: "QUOTE \<noteq> CHR '' ''" "BACKSLASH \<noteq> CHR '' ''" "BACKSLASH \<noteq> QUOTE" "QUOTE \<noteq> BACKSLASH"
  by (simp_all add: QUOTE_def BACKSLASH_def)

lemma scan_escape: "scan_word True (escape w @ QUOTE # r) = (case scan_word False r of (v, s) \<Rightarrow> (w @ v, s))"
  by (induction w) (auto split: prod.splits)

lemma scan_quote_word:
  "r = [] \<or> hd r = CHR '' '' \<Longrightarrow> scan_word False (quote_word w @ r) = (w, r)"
proof -
  assume "r = [] \<or> hd r = CHR '' ''"
  then have "scan_word False r = ([], r)" by (cases r) auto
  then show ?thesis by (simp add: quote_word_def scan_escape)
qed

lemma parse_step:
  assumes "skip_spaces s = c # t" "scan_word False (c # t) = (w, r)"
  shows "parse_into_words s = w # parse_into_words r"
  using assms by (subst parse_into_words.simps) simp

lemma skip_quote_word: "skip_spaces (quote_word w @ r) = quote_word w @ r"
  by (simp add: skip_spaces_def quote_word_def)

lemma parse_quoted: "parse_into_words (build_string (map quote_word ws)) = ws"
proof (induction ws rule: build_string.induct)
  case 1
  then show ?case by (subst parse_into_words.simps) (simp add: skip_spaces_def)
next
  case (2 w)
  have "parse_into_words [] = []" by (subst parse_into_words.simps) (simp add: skip_spaces_def)
  moreover have "skip_spaces (quote_word w) = QUOTE # escape w @ [QUOTE]"
    using skip_quote_word [of w "[]"] by (simp add: quote_word_def)
  moreover have "scan_word False (QUOTE # escape w @ [QUOTE]) = (w, [])"
    using scan_quote_word [of "[]" w] by (simp add: quote_word_def)
  ultimately show ?case using parse_step [of "quote_word w"] by simp
next
  case (3 w v ws)
  let ?r = "CHR '' '' # build_string (map quote_word (v # ws))"
  have "skip_spaces (quote_word w @ ?r) = QUOTE # escape w @ [QUOTE] @ ?r"
    using skip_quote_word [of w ?r] by (simp add: quote_word_def)
  moreover have "scan_word False (QUOTE # escape w @ [QUOTE] @ ?r) = (w, ?r)"
    using scan_quote_word [of ?r w] by (simp add: quote_word_def)
  ultimately have "parse_into_words (quote_word w @ ?r) = w # parse_into_words ?r" by (rule parse_step)
  moreover have "parse_into_words ?r = parse_into_words (build_string (map quote_word (v # ws)))"
    by (subst (1 2) parse_into_words.simps) (simp add: skip_spaces_def)
  ultimately show ?case using "3.IH" by simp
qed

end
