(* ===== verification/DbModel.thy ===== *)
theory DbModel
  imports Values
begin

text \<open>
  The data of the object database (\<^verbatim>\<open>db_private.h\<close>, \<^verbatim>\<open>program.h\<close>) and the
  accessors of \<^verbatim>\<open>db_objects.c\<close> that read or write one object.  The array
  \<^verbatim>\<open>objects\<close> is a map from object numbers; the entries at or above
  \<^verbatim>\<open>num_objects\<close> are not looked at.  A \<^verbatim>\<open>Verbdef\<close> list and the two property
  arrays belong to one object and are lists; the hierarchy links (\<^verbatim>\<open>parent\<close>,
  \<^verbatim>\<open>child\<close>, \<^verbatim>\<open>sibling\<close>, \<^verbatim>\<open>location\<close>, \<^verbatim>\<open>contents\<close>, \<^verbatim>\<open>next\<close>) stay object numbers, as
  in the source.  The model is that of a server without the waif extension.
\<close>

unbundle bit_operations_syntax

section \<open>Programs\<close>

record bytecodes =
  bc_numbytes_label :: nat
  bc_numbytes_literal :: nat
  bc_numbytes_fork :: nat
  bc_numbytes_var_name :: nat
  bc_numbytes_stack :: nat
  bc_vector :: "8 word list"
  bc_max_stack :: nat

record program =
  prog_version :: int
  prog_first_lineno :: nat
  prog_main_vector :: bytecodes
  prog_literals :: "var list"
  prog_fork_vectors :: "bytecodes list"
  prog_var_names :: "string list"

text \<open>Sizes of the byte-quota model \<^verbatim>\<open>BQM_64\<close>.\<close>

definition BQM_SIZEOF_PTR :: int where
  "BQM_SIZEOF_PTR = 8"

definition BQM_SIZEOF_Bytecodes :: int where
  "BQM_SIZEOF_Bytecodes = 4 * 4 + 8"

definition BQM_SIZEOF_Program :: int where
  "BQM_SIZEOF_Program = 8 * 4 + 9 * 8"

definition BQM_SIZEOF_Verbdef :: int where
  "BQM_SIZEOF_Verbdef = 5 * 8"

definition BQM_SIZEOF_Propdef :: int where
  "BQM_SIZEOF_Propdef = 2 * 8"

definition BQM_SIZEOF_Pval :: int where
  "BQM_SIZEOF_Pval = 4 * 8"

definition BQM_SIZEOF_Object :: int where
  "BQM_SIZEOF_Object = 2 * 4 + 13 * 8"

definition program_bytes :: "program \<Rightarrow> int" where
  "program_bytes p =
     BQM_SIZEOF_Program
     + int (length (bc_vector (prog_main_vector p)))
     + (\<Sum>v\<leftarrow>prog_literals p. value_bytes v)
     + BQM_SIZEOF_Bytecodes * int (length (prog_fork_vectors p))
     + (\<Sum>f\<leftarrow>prog_fork_vectors p. int (length (bc_vector f)))
     + BQM_SIZEOF_PTR * int (length (prog_var_names p))
     + (\<Sum>n\<leftarrow>prog_var_names p. int (length n) + 1)"

section \<open>Objects\<close>

record verbdef =
  vd_name :: string
  vd_program :: "program option"
  vd_owner :: objid
  vd_perms :: "16 word"
  vd_prep :: int

record propdef =
  pd_name :: string
  pd_hash :: "32 word"

text \<open>\<open>cur_length\<close> of the C structure is the length of \<open>pl_l\<close>.\<close>

record proplist =
  pl_max_length :: nat
  pl_l :: "propdef list"

record pval =
  pv_var :: var
  pv_owner :: objid
  pv_perms :: "16 word"

record object =
  o_id :: objid
  o_owner :: objid
  o_location :: objid
  o_contents :: objid
  o_next :: objid
  o_parent :: objid
  o_child :: objid
  o_sibling :: objid
  o_name :: string
  o_flags :: "16 word"
  o_verbdefs :: "verbdef list"
  o_propdefs :: proplist
  o_propval :: "pval list"

definition NOTHING :: objid where
  "NOTHING = -1"

definition AMBIGUOUS :: objid where
  "AMBIGUOUS = -2"

definition FAILED_MATCH :: objid where
  "FAILED_MATCH = -3"

definition SYSTEM_OBJECT :: objid where
  "SYSTEM_OBJECT = 0"

text \<open>
  A \<^verbatim>\<open>Verbdef\<close> pointer is the object that holds the definition and the index
  in its list.  \<open>vc_table\<close> is \<^term>\<open>None\<close> before the first lookup.
\<close>

record verb_handle =
  vh_definer :: objid
  vh_index :: nat

record vc_entry =
  vc_hash :: "32 word"
  vc_oid_key :: objid
  vc_verbname :: string
  vc_h :: "verb_handle option"

record db =
  objects :: "objid \<Rightarrow> object option"
  num_objects :: int
  max_objects :: int
  all_users :: "var list"
  vc_table :: "vc_entry list list option"
  db_verb_generation :: int
  verbcache_hit :: int
  verbcache_neg_hit :: int
  verbcache_miss :: int

definition dbpriv_find_object :: "db \<Rightarrow> objid \<Rightarrow> object option" where
  "dbpriv_find_object db oid =
     (if oid < 0 \<or> oid \<ge> num_objects db then None else objects db oid)"

definition valid :: "db \<Rightarrow> objid \<Rightarrow> bool" where
  "valid db oid = (dbpriv_find_object db oid \<noteq> None)"

text \<open>
  An assignment through \<^verbatim>\<open>objects[oid]->...\<close>; it needs \<open>oid\<close> to be valid.
\<close>

definition modify_obj :: "db \<Rightarrow> objid \<Rightarrow> (object \<Rightarrow> object) \<Rightarrow> db option" where
  "modify_obj db oid f =
     do { ob \<leftarrow> dbpriv_find_object db oid;
          Some (db\<lparr>objects := (objects db)(oid \<mapsto> f ob)\<rparr>) }"

definition db_last_used_objid :: "db \<Rightarrow> objid" where
  "db_last_used_objid db = num_objects db - 1"

text \<open>The loop reads \<^verbatim>\<open>objects[-1]\<close> when no object is left.\<close>

function db_reset_last_used_objid :: "db \<Rightarrow> db option" where
  "db_reset_last_used_objid db =
     (if num_objects db \<le> 0 then None
      else if objects db (num_objects db - 1) = None
      then db_reset_last_used_objid (db\<lparr>num_objects := num_objects db - 1\<rparr>)
      else Some db)"
  by pat_completeness auto
termination
  by (relation "measure (\<lambda>db. nat (num_objects db))") auto

declare db_reset_last_used_objid.simps [simp del]

definition ensure_new_object :: "db \<Rightarrow> db" where
  "ensure_new_object db =
     (let db1 = (if max_objects db = 0 then db\<lparr>max_objects := 100\<rparr> else db)
      in if num_objects db1 \<ge> max_objects db1
         then db1\<lparr>max_objects := max_objects db1 * 2\<rparr> else db1)"

text \<open>
  The new object is raw storage but for its number; \<open>junk\<close> is what that
  storage holds.
\<close>

definition dbpriv_new_object :: "object \<Rightarrow> db \<Rightarrow> db \<times> objid" where
  "dbpriv_new_object junk db =
     (let db1 = ensure_new_object db; n = num_objects db1
      in (db1\<lparr>objects := (objects db1)(n \<mapsto> junk\<lparr>o_id := n\<rparr>), num_objects := n + 1\<rparr>, n))"

definition dbpriv_new_recycled_object :: "db \<Rightarrow> db" where
  "dbpriv_new_recycled_object db =
     (let db1 = ensure_new_object db; n = num_objects db1
      in db1\<lparr>objects := (objects db1)(n := None), num_objects := n + 1\<rparr>)"

definition db_create_object :: "object \<Rightarrow> db \<Rightarrow> (db \<times> objid) option" where
  "db_create_object junk db =
     (let (db1, oid) = dbpriv_new_object junk db
      in do { db2 \<leftarrow> modify_obj db1 oid
                (\<lambda>ob. ob\<lparr>o_name := [], o_flags := 0,
                         o_parent := NOTHING, o_child := NOTHING, o_sibling := NOTHING,
                         o_location := NOTHING, o_contents := NOTHING, o_next := NOTHING,
                         o_propval := [],
                         o_propdefs := \<lparr>pl_max_length = 0, pl_l = []\<rparr>,
                         o_verbdefs := []\<rparr>);
              Some (db2, oid) })"

section \<open>Attributes of one object\<close>

definition FLAG_USER :: nat where "FLAG_USER = 0"
definition FLAG_PROGRAMMER :: nat where "FLAG_PROGRAMMER = 1"
definition FLAG_WIZARD :: nat where "FLAG_WIZARD = 2"
definition FLAG_READ :: nat where "FLAG_READ = 4"
definition FLAG_WRITE :: nat where "FLAG_WRITE = 5"
definition FLAG_FERTILE :: nat where "FLAG_FERTILE = 7"

definition db_object_owner :: "db \<Rightarrow> objid \<Rightarrow> objid option" where
  "db_object_owner db oid = map_option o_owner (dbpriv_find_object db oid)"

definition db_set_object_owner :: "db \<Rightarrow> objid \<Rightarrow> objid \<Rightarrow> db option" where
  "db_set_object_owner db oid owner = modify_obj db oid (\<lambda>ob. ob\<lparr>o_owner := owner\<rparr>)"

definition db_object_name :: "db \<Rightarrow> objid \<Rightarrow> string option" where
  "db_object_name db oid = map_option o_name (dbpriv_find_object db oid)"

definition db_set_object_name :: "db \<Rightarrow> objid \<Rightarrow> string \<Rightarrow> db option" where
  "db_set_object_name db oid name = modify_obj db oid (\<lambda>ob. ob\<lparr>o_name := name\<rparr>)"

definition db_object_parent :: "db \<Rightarrow> objid \<Rightarrow> objid option" where
  "db_object_parent db oid = map_option o_parent (dbpriv_find_object db oid)"

definition db_object_location :: "db \<Rightarrow> objid \<Rightarrow> objid option" where
  "db_object_location db oid = map_option o_location (dbpriv_find_object db oid)"

definition db_object_has_flag :: "db \<Rightarrow> objid \<Rightarrow> nat \<Rightarrow> bool option" where
  "db_object_has_flag db oid f =
     map_option (\<lambda>ob. o_flags ob AND push_bit f 1 \<noteq> 0) (dbpriv_find_object db oid)"

definition is_wizard :: "db \<Rightarrow> objid \<Rightarrow> bool" where
  "is_wizard db oid = (valid db oid \<and> db_object_has_flag db oid FLAG_WIZARD = Some True)"

definition is_programmer :: "db \<Rightarrow> objid \<Rightarrow> bool" where
  "is_programmer db oid = (valid db oid \<and> db_object_has_flag db oid FLAG_PROGRAMMER = Some True)"

definition is_user :: "db \<Rightarrow> objid \<Rightarrow> bool" where
  "is_user db oid = (valid db oid \<and> db_object_has_flag db oid FLAG_USER = Some True)"

definition db_set_object_flag :: "db \<Rightarrow> objid \<Rightarrow> nat \<Rightarrow> db option" where
  "db_set_object_flag db oid f =
     do { db1 \<leftarrow> modify_obj db oid (\<lambda>ob. ob\<lparr>o_flags := o_flags ob OR push_bit f 1\<rparr>);
          if f = FLAG_USER
          then do { us \<leftarrow> setadd (all_users db1) (TYPE_OBJ oid);
                    Some (db1\<lparr>all_users := us\<rparr>) }
          else Some db1 }"

definition db_clear_object_flag :: "db \<Rightarrow> objid \<Rightarrow> nat \<Rightarrow> db option" where
  "db_clear_object_flag db oid f =
     do { db1 \<leftarrow> modify_obj db oid (\<lambda>ob. ob\<lparr>o_flags := o_flags ob AND NOT (push_bit f 1)\<rparr>);
          if f = FLAG_USER
          then do { us \<leftarrow> setremove (all_users db1) (TYPE_OBJ oid);
                    Some (db1\<lparr>all_users := us\<rparr>) }
          else Some db1 }"

definition db_object_allows :: "db \<Rightarrow> objid \<Rightarrow> objid \<Rightarrow> nat \<Rightarrow> bool option" where
  "db_object_allows db oid progr f =
     do { owner \<leftarrow> db_object_owner db oid;
          if progr = owner \<or> is_wizard db progr then Some True
          else db_object_has_flag db oid f }"

definition db_all_users :: "db \<Rightarrow> var list" where
  "db_all_users db = all_users db"

definition dbpriv_set_all_users :: "var list \<Rightarrow> db \<Rightarrow> db" where
  "dbpriv_set_all_users v db = db\<lparr>all_users := v\<rparr>"

section \<open>The verb cache is emptied\<close>

text \<open>Whatever can influence the lookup of a callable verb calls this first.\<close>

definition db_priv_affected_callable_verb_lookup :: "db \<Rightarrow> db" where
  "db_priv_affected_callable_verb_lookup db =
     (case vc_table db of
        None \<Rightarrow> db
      | Some t \<Rightarrow> db\<lparr>db_verb_generation := db_verb_generation db + 1,
                     vc_table := Some (map (\<lambda>_. []) t)\<rparr>)"

section \<open>Reading after writing\<close>

lemma NOTHING_neg [simp]: "NOTHING < 0"
  by (simp add: NOTHING_def)

lemma find_objects_cong:
  "dbpriv_find_object (db\<lparr>objects := m\<rparr>) x = (if x < 0 \<or> num_objects db \<le> x then None else m x)"
  by (simp add: dbpriv_find_object_def)

lemma find_range: "dbpriv_find_object db x = Some ob \<Longrightarrow> 0 \<le> x \<and> x < num_objects db"
  by (auto simp: dbpriv_find_object_def split: if_splits)

lemma find_NOTHING [simp]: "dbpriv_find_object db NOTHING = None"
  by (simp add: dbpriv_find_object_def)

lemma not_valid_NOTHING [simp]: "\<not> valid db NOTHING"
  by (simp add: valid_def)

lemma valid_not_NOTHING: "valid db x \<Longrightarrow> x \<noteq> NOTHING"
  by auto

lemma find_not_NOTHING: "dbpriv_find_object db x = Some ob \<Longrightarrow> x \<noteq> NOTHING"
  by auto

lemma validE: "valid db x \<Longrightarrow> (\<And>ob. dbpriv_find_object db x = Some ob \<Longrightarrow> P) \<Longrightarrow> P"
  by (auto simp: valid_def)

lemma validI: "dbpriv_find_object db x = Some ob \<Longrightarrow> valid db x"
  by (simp add: valid_def)

lemma finite_valid: "finite {x. valid db x}"
proof (rule finite_subset)
  show "{x. valid db x} \<subseteq> {0..<num_objects db}"
    by (auto elim!: validE dest: find_range)
qed simp

lemma modify_obj_Some:
  "dbpriv_find_object db x = Some ob \<Longrightarrow>
   modify_obj db x f = Some (db\<lparr>objects := (objects db)(x \<mapsto> f ob)\<rparr>)"
  by (simp add: modify_obj_def)

lemma find_put [simp]:
  "dbpriv_find_object db x = Some ob \<Longrightarrow>
   dbpriv_find_object (db\<lparr>objects := (objects db)(x \<mapsto> ob')\<rparr>) y =
     (if y = x then Some ob' else dbpriv_find_object db y)"
  using find_range [of db x ob] by (auto simp: dbpriv_find_object_def)

lemma find_other_fields [simp]:
  "dbpriv_find_object (db\<lparr>all_users := us\<rparr>) = dbpriv_find_object db"
  "dbpriv_find_object (db\<lparr>vc_table := t\<rparr>) = dbpriv_find_object db"
  "dbpriv_find_object (db\<lparr>db_verb_generation := g\<rparr>) = dbpriv_find_object db"
  "dbpriv_find_object (db\<lparr>verbcache_hit := g\<rparr>) = dbpriv_find_object db"
  "dbpriv_find_object (db\<lparr>verbcache_neg_hit := g\<rparr>) = dbpriv_find_object db"
  "dbpriv_find_object (db\<lparr>verbcache_miss := g\<rparr>) = dbpriv_find_object db"
  by (simp_all add: dbpriv_find_object_def fun_eq_iff)

lemma modify_objD:
  assumes "modify_obj db x f = Some db'"
  shows "\<exists>ob. dbpriv_find_object db x = Some ob
     \<and> db' = db\<lparr>objects := (objects db)(x \<mapsto> f ob)\<rparr>
     \<and> (\<forall>y. dbpriv_find_object db' y = (if y = x then Some (f ob) else dbpriv_find_object db y))"
  using assms by (auto simp: modify_obj_def bind_eq_Some_conv)

lemma affected_simps [simp]:
  "objects (db_priv_affected_callable_verb_lookup db) = objects db"
  "num_objects (db_priv_affected_callable_verb_lookup db) = num_objects db"
  "max_objects (db_priv_affected_callable_verb_lookup db) = max_objects db"
  "all_users (db_priv_affected_callable_verb_lookup db) = all_users db"
  "dbpriv_find_object (db_priv_affected_callable_verb_lookup db) = dbpriv_find_object db"
  by (simp_all add: db_priv_affected_callable_verb_lookup_def dbpriv_find_object_def fun_eq_iff
      split: option.splits)

end
