(* ===== verification/Links.thy ===== *)
theory Links
  imports DbModel
begin

text \<open>
  The intrusive lists of \<^verbatim>\<open>db_objects.c\<close>.  Each object keeps the first element
  of two lists (\<^verbatim>\<open>child\<close>, \<^verbatim>\<open>contents\<close>) and the link to the next element of the
  two lists it is itself in (\<^verbatim>\<open>sibling\<close>, \<^verbatim>\<open>next\<close>).  The macros \<^verbatim>\<open>LL_REMOVE\<close> and
  \<^verbatim>\<open>LL_APPEND\<close> are parameterised by the two field names; here the parameters
  are the selector and the update function of each field.  The locale
  \<open>ll_fields\<close> states what is needed of the fields, and \<open>ll_tree\<close> adds the link
  back to the owner of the list; both hierarchies are interpretations.
\<close>

section \<open>Chains of links\<close>

primrec chain :: "(object \<Rightarrow> objid) \<Rightarrow> db \<Rightarrow> objid \<Rightarrow> objid list \<Rightarrow> bool" where
  "chain nx db c [] = (c = NOTHING)"
| "chain nx db c (x # xs) =
     (c = x \<and> (\<exists>ob. dbpriv_find_object db x = Some ob \<and> chain nx db (nx ob) xs))"

lemma chain_NOTHING [simp]: "chain nx db NOTHING xs \<longleftrightarrow> xs = []"
  by (cases xs) auto

lemma chain_ConsE:
  assumes "chain nx db c (x # xs)"
  obtains ob where "c = x" "x \<noteq> NOTHING" "dbpriv_find_object db x = Some ob" "chain nx db (nx ob) xs"
  using assms by (auto dest: find_not_NOTHING)

lemma chain_valid: "chain nx db c xs \<Longrightarrow> x \<in> set xs \<Longrightarrow> valid db x"
  by (induction xs arbitrary: c) (auto simp: valid_def)

lemma chain_NOTHING_notin: "chain nx db c xs \<Longrightarrow> NOTHING \<notin> set xs"
  using chain_valid not_valid_NOTHING by blast

lemma chain_start: "chain nx db c xs \<Longrightarrow> c \<noteq> NOTHING \<Longrightarrow> xs \<noteq> [] \<and> hd xs = c"
  by (cases xs) auto

lemma chain_unique: "chain nx db c xs \<Longrightarrow> chain nx db c ys \<Longrightarrow> xs = ys"
proof (induction xs arbitrary: c ys)
  case Nil
  then show ?case by simp
next
  case (Cons x xs)
  then have "c \<noteq> NOTHING" by auto
  with Cons show ?case by (cases ys) auto
qed

lemma chain_suffix:
  "chain nx db c (xs @ x # ys) \<Longrightarrow> dbpriv_find_object db x = Some ob \<Longrightarrow> chain nx db (nx ob) ys"
  by (induction xs arbitrary: c) auto

lemma chain_suffix_self: "chain nx db c (xs @ x # ys) \<Longrightarrow> chain nx db x (x # ys)"
  by (induction xs arbitrary: c) auto

lemma chain_distinct: "chain nx db c xs \<Longrightarrow> distinct xs"
proof (induction xs arbitrary: c)
  case (Cons x xs)
  then obtain ob where ob: "dbpriv_find_object db x = Some ob" and ch: "chain nx db (nx ob) xs" by auto
  have "x \<notin> set xs"
  proof
    assume "x \<in> set xs"
    then obtain us vs where xs: "xs = us @ x # vs" by (meson split_list)
    with ch have "chain nx db x (x # vs)" using chain_suffix_self by blast
    moreover have "chain nx db x (x # us @ x # vs)" using ob ch xs by simp
    ultimately have "x # vs = x # us @ x # vs" by (rule chain_unique)
    from arg_cong [OF this, of length] show False by simp
  qed
  with Cons ob ch show ?case by auto
qed simp

text \<open>A chain depends only on the links of its elements.\<close>

lemma chain_cong:
  assumes "\<And>x ob. x \<in> set xs \<Longrightarrow> dbpriv_find_object db x = Some ob \<Longrightarrow>
             \<exists>ob'. dbpriv_find_object db' x = Some ob' \<and> nx ob' = nx ob"
  shows "chain nx db c xs \<Longrightarrow> chain nx db' c xs"
  using assms
proof (induction xs arbitrary: c)
  case (Cons x xs)
  from Cons.prems(1) obtain ob where c: "c = x" and ob: "dbpriv_find_object db x = Some ob"
    and ch: "chain nx db (nx ob) xs" by auto
  from Cons.prems(2) [of x ob] ob obtain ob' where
    ob': "dbpriv_find_object db' x = Some ob'" "nx ob' = nx ob" by auto
  have "chain nx db' (nx ob) xs"
    using ch by (rule Cons.IH) (use Cons.prems(2) in auto)
  with c ob' show ?case by simp
qed simp

definition chain_from :: "(object \<Rightarrow> objid) \<Rightarrow> db \<Rightarrow> objid \<Rightarrow> objid list" where
  "chain_from nx db c = (THE xs. chain nx db c xs)"

lemma chain_from_eq: "chain nx db c xs \<Longrightarrow> chain_from nx db c = xs"
  unfolding chain_from_def using chain_unique by blast

text \<open>An executable reader of chains; \<open>fuel\<close> bounds the number of elements.\<close>

fun read_chain :: "nat \<Rightarrow> (object \<Rightarrow> objid) \<Rightarrow> db \<Rightarrow> objid \<Rightarrow> objid list option" where
  "read_chain 0 nx db c = (if c = NOTHING then Some [] else None)"
| "read_chain (Suc n) nx db c =
     (if c = NOTHING then Some []
      else do { ob \<leftarrow> dbpriv_find_object db c;
                xs \<leftarrow> read_chain n nx db (nx ob);
                Some (c # xs) })"

lemma read_chain_sound: "read_chain n nx db c = Some xs \<Longrightarrow> chain nx db c xs"
proof (induction n arbitrary: c xs)
  case (Suc n)
  show ?case
  proof (cases "c = NOTHING")
    case False
    with Suc.prems obtain ob ys where "dbpriv_find_object db c = Some ob"
      "read_chain n nx db (nx ob) = Some ys" "xs = c # ys"
      by (auto simp: bind_eq_Some_conv)
    with Suc.IH show ?thesis by auto
  qed (use Suc.prems in simp)
qed (simp split: if_splits)

section \<open>The macros\<close>

partial_function (option) ll_remove_loop ::
  "(object \<Rightarrow> objid) \<Rightarrow> ((objid \<Rightarrow> objid) \<Rightarrow> object \<Rightarrow> object) \<Rightarrow> objid \<Rightarrow> db \<Rightarrow> objid \<Rightarrow> db option"
where
  "ll_remove_loop nx nx_upd what db lid =
     (if lid = NOTHING then Some db
      else do { l \<leftarrow> dbpriv_find_object db lid;
                if nx l = what
                then do { w \<leftarrow> dbpriv_find_object db what;
                          modify_obj db lid (nx_upd (\<lambda>_. nx w)) }
                else ll_remove_loop nx nx_upd what db (nx l) })"

definition LL_REMOVE ::
  "(object \<Rightarrow> objid) \<Rightarrow> ((objid \<Rightarrow> objid) \<Rightarrow> object \<Rightarrow> object) \<Rightarrow>
   (object \<Rightarrow> objid) \<Rightarrow> ((objid \<Rightarrow> objid) \<Rightarrow> object \<Rightarrow> object) \<Rightarrow>
   objid \<Rightarrow> objid \<Rightarrow> db \<Rightarrow> db option" where
  "LL_REMOVE first first_upd nx nx_upd holder what db =
     do { p \<leftarrow> dbpriv_find_object db holder;
          db1 \<leftarrow> (if first p = what
                  then do { w \<leftarrow> dbpriv_find_object db what;
                            modify_obj db holder (first_upd (\<lambda>_. nx w)) }
                  else ll_remove_loop nx nx_upd what db (first p));
          modify_obj db1 what (nx_upd (\<lambda>_. NOTHING)) }"

partial_function (option) ll_last :: "(object \<Rightarrow> objid) \<Rightarrow> db \<Rightarrow> objid \<Rightarrow> objid option" where
  "ll_last nx db lid =
     do { l \<leftarrow> dbpriv_find_object db lid;
          if nx l \<noteq> NOTHING then ll_last nx db (nx l) else Some lid }"

definition LL_APPEND ::
  "(object \<Rightarrow> objid) \<Rightarrow> ((objid \<Rightarrow> objid) \<Rightarrow> object \<Rightarrow> object) \<Rightarrow>
   (object \<Rightarrow> objid) \<Rightarrow> ((objid \<Rightarrow> objid) \<Rightarrow> object \<Rightarrow> object) \<Rightarrow>
   objid \<Rightarrow> objid \<Rightarrow> db \<Rightarrow> db option" where
  "LL_APPEND first first_upd nx nx_upd holder what db =
     do { p \<leftarrow> dbpriv_find_object db holder;
          db1 \<leftarrow> (if first p = NOTHING
                  then modify_obj db holder (first_upd (\<lambda>_. what))
                  else do { lid \<leftarrow> ll_last nx db (first p);
                            modify_obj db lid (nx_upd (\<lambda>_. what)) });
          modify_obj db1 what (nx_upd (\<lambda>_. NOTHING)) }"

section \<open>Loops over a list\<close>

text \<open>
  \<^verbatim>\<open>db_count_children\<close>, \<^verbatim>\<open>db_count_contents\<close> and the two \<^verbatim>\<open>db_for_all_...\<close>
  iterators.  The callback threads a state and says whether to stop.
\<close>

partial_function (option) count_loop :: "(object \<Rightarrow> objid) \<Rightarrow> db \<Rightarrow> objid \<Rightarrow> int \<Rightarrow> int option" where
  "count_loop nx db c i =
     (if c = NOTHING then Some i
      else do { ob \<leftarrow> dbpriv_find_object db c; count_loop nx db (nx ob) (i + 1) })"

definition db_count_children :: "db \<Rightarrow> objid \<Rightarrow> int option" where
  "db_count_children db oid =
     do { ob \<leftarrow> dbpriv_find_object db oid; count_loop o_sibling db (o_child ob) 0 }"

definition db_count_contents :: "db \<Rightarrow> objid \<Rightarrow> int option" where
  "db_count_contents db oid =
     do { ob \<leftarrow> dbpriv_find_object db oid; count_loop o_next db (o_contents ob) 0 }"

partial_function (option) for_all_loop ::
  "(object \<Rightarrow> objid) \<Rightarrow> db \<Rightarrow> ('s \<Rightarrow> objid \<Rightarrow> ('s \<times> bool) option) \<Rightarrow> objid \<Rightarrow> 's \<Rightarrow> ('s \<times> bool) option"
where
  "for_all_loop nx db func c s =
     (if c = NOTHING then Some (s, False)
      else do { (s', stop) \<leftarrow> func s c;
                if stop then Some (s', True)
                else do { ob \<leftarrow> dbpriv_find_object db c; for_all_loop nx db func (nx ob) s' } })"

definition db_for_all_children ::
  "db \<Rightarrow> objid \<Rightarrow> ('s \<Rightarrow> objid \<Rightarrow> ('s \<times> bool) option) \<Rightarrow> 's \<Rightarrow> ('s \<times> bool) option" where
  "db_for_all_children db oid func s =
     do { ob \<leftarrow> dbpriv_find_object db oid; for_all_loop o_sibling db func (o_child ob) s }"

definition db_for_all_contents ::
  "db \<Rightarrow> objid \<Rightarrow> ('s \<Rightarrow> objid \<Rightarrow> ('s \<times> bool) option) \<Rightarrow> 's \<Rightarrow> ('s \<times> bool) option" where
  "db_for_all_contents db oid func s =
     do { ob \<leftarrow> dbpriv_find_object db oid; for_all_loop o_next db func (o_contents ob) s }"

lemma count_loop_chain: "chain nx db c xs \<Longrightarrow> count_loop nx db c i = Some (i + int (length xs))"
proof (induction xs arbitrary: c i)
  case Nil
  then show ?case by (simp add: count_loop.simps)
next
  case (Cons x xs)
  from Cons.prems obtain ob where "c = x" "x \<noteq> NOTHING" "dbpriv_find_object db x = Some ob"
    "chain nx db (nx ob) xs" by (rule chain_ConsE)
  with Cons.IH show ?case by (subst count_loop.simps) simp
qed

fun fold_until :: "('s \<Rightarrow> 'a \<Rightarrow> ('s \<times> bool) option) \<Rightarrow> 'a list \<Rightarrow> 's \<Rightarrow> ('s \<times> bool) option" where
  "fold_until f [] s = Some (s, False)"
| "fold_until f (x # xs) s =
     do { (s', stop) \<leftarrow> f s x; if stop then Some (s', True) else fold_until f xs s' }"

lemma for_all_loop_chain:
  "chain nx db c xs \<Longrightarrow> for_all_loop nx db f c s = fold_until f xs s"
proof (induction xs arbitrary: c s)
  case Nil
  then show ?case by (simp add: for_all_loop.simps)
next
  case (Cons x xs)
  from Cons.prems obtain ob where "c = x" "x \<noteq> NOTHING" "dbpriv_find_object db x = Some ob"
    "chain nx db (nx ob) xs" by (rule chain_ConsE)
  with Cons.IH show ?case
    by (subst for_all_loop.simps) (auto split: bind_splits prod.splits)
qed

section \<open>Segments\<close>

primrec segment :: "(object \<Rightarrow> objid) \<Rightarrow> db \<Rightarrow> objid \<Rightarrow> objid list \<Rightarrow> objid \<Rightarrow> bool" where
  "segment nx db c [] d = (c = d)"
| "segment nx db c (x # xs) d =
     (c = x \<and> (\<exists>ob. dbpriv_find_object db x = Some ob \<and> segment nx db (nx ob) xs d))"

lemma chain_append: "chain nx db c (us @ vs) \<longleftrightarrow> (\<exists>d. segment nx db c us d \<and> chain nx db d vs)"
  by (induction us arbitrary: c) auto

lemma segment_append:
  "segment nx db c (us @ vs) d \<longleftrightarrow> (\<exists>e. segment nx db c us e \<and> segment nx db e vs d)"
  by (induction us arbitrary: c) auto

lemma segment_cong:
  assumes "\<And>x ob. x \<in> set xs \<Longrightarrow> dbpriv_find_object db x = Some ob \<Longrightarrow>
             \<exists>ob'. dbpriv_find_object db' x = Some ob' \<and> nx ob' = nx ob"
  shows "segment nx db c xs d \<Longrightarrow> segment nx db' c xs d"
  using assms
proof (induction xs arbitrary: c)
  case (Cons x xs)
  from Cons.prems(1) obtain ob where c: "c = x" and ob: "dbpriv_find_object db x = Some ob"
    and sg: "segment nx db (nx ob) xs d" by auto
  from Cons.prems(2) [of x ob] ob obtain ob' where
    ob': "dbpriv_find_object db' x = Some ob'" "nx ob' = nx ob" by auto
  have "segment nx db' (nx ob) xs d"
    using sg by (rule Cons.IH) (use Cons.prems(2) in auto)
  with c ob' show ?case by simp
qed simp

lemma ll_last_chain: "chain nx db c xs \<Longrightarrow> xs \<noteq> [] \<Longrightarrow> ll_last nx db c = Some (last xs)"
proof (induction xs arbitrary: c)
  case (Cons x xs)
  from Cons.prems(1) obtain ob where x: "c = x" "dbpriv_find_object db x = Some ob"
    "chain nx db (nx ob) xs" by (rule chain_ConsE)
  show ?case
  proof (cases xs)
    case Nil
    with x show ?thesis by (subst ll_last.simps) simp
  next
    case (Cons y ys)
    then have "nx ob \<noteq> NOTHING" using x(3) by (auto dest: find_not_NOTHING)
    with x Cons Cons.IH [of "nx ob"] show ?thesis by (subst ll_last.simps) simp
  qed
qed simp

lemma ll_remove_loop_chain:
  assumes "chain nx db c (us @ l # what # vs)" and w: "dbpriv_find_object db what = Some w"
  shows "ll_remove_loop nx nx_upd what db c = modify_obj db l (nx_upd (\<lambda>_. nx w))"
  using assms(1)
proof (induction us arbitrary: c)
  case Nil
  then have "chain nx db c (l # what # vs)" by simp
  then obtain ob where "c = l" "l \<noteq> NOTHING" "dbpriv_find_object db l = Some ob"
    "chain nx db (nx ob) (what # vs)" by (rule chain_ConsE)
  with w show ?case by (subst ll_remove_loop.simps) simp
next
  case (Cons u us)
  then have ch: "chain nx db c (u # us @ l # what # vs)" by simp
  then obtain ob where u: "c = u" "u \<noteq> NOTHING" "dbpriv_find_object db u = Some ob"
    "chain nx db (nx ob) (us @ l # what # vs)" by (rule chain_ConsE)
  have "nx ob \<noteq> what"
    using u(4) chain_distinct [OF ch] by (cases us) auto
  with u Cons.IH [OF u(4)] show ?case by (subst ll_remove_loop.simps) simp
qed

section \<open>What a relinking step may change\<close>

definition link_frame ::
  "(object \<Rightarrow> objid) \<Rightarrow> (object \<Rightarrow> objid) \<Rightarrow> (object \<Rightarrow> objid) \<Rightarrow> (object \<Rightarrow> object) \<Rightarrow>
   objid set \<Rightarrow> objid set \<Rightarrow> objid set \<Rightarrow> db \<Rightarrow> db \<Rightarrow> bool" where
  "link_frame first nx up core P N U db db' \<longleftrightarrow>
     db' = db\<lparr>objects := objects db'\<rparr> \<and>
     (\<forall>y. rel_option
            (\<lambda>ob ob'. core ob' = core ob \<and> (y \<notin> P \<longrightarrow> first ob' = first ob)
                     \<and> (y \<notin> N \<longrightarrow> nx ob' = nx ob) \<and> (y \<notin> U \<longrightarrow> up ob' = up ob))
            (dbpriv_find_object db y) (dbpriv_find_object db' y))"

lemma link_frame_refl: "link_frame first nx up core P N U db db"
  by (simp add: link_frame_def option.rel_refl)

lemma link_frame_trans:
  assumes "link_frame first nx up core P N U db db1" "link_frame first nx up core P' N' U' db1 db2"
  shows "link_frame first nx up core (P \<union> P') (N \<union> N') (U \<union> U') db db2"
  unfolding link_frame_def
proof (intro conjI allI)
  show "db2 = db\<lparr>objects := objects db2\<rparr>"
    using assms by (metis db.surjective db.update_convs(1) link_frame_def)
  fix y
  from assms have
    "rel_option (\<lambda>ob ob'. core ob' = core ob \<and> (y \<notin> P \<longrightarrow> first ob' = first ob)
        \<and> (y \<notin> N \<longrightarrow> nx ob' = nx ob) \<and> (y \<notin> U \<longrightarrow> up ob' = up ob))
        (dbpriv_find_object db y) (dbpriv_find_object db1 y)"
    "rel_option (\<lambda>ob ob'. core ob' = core ob \<and> (y \<notin> P' \<longrightarrow> first ob' = first ob)
        \<and> (y \<notin> N' \<longrightarrow> nx ob' = nx ob) \<and> (y \<notin> U' \<longrightarrow> up ob' = up ob))
        (dbpriv_find_object db1 y) (dbpriv_find_object db2 y)"
    by (simp_all add: link_frame_def)
  then show "rel_option (\<lambda>ob ob'. core ob' = core ob \<and> (y \<notin> P \<union> P' \<longrightarrow> first ob' = first ob)
        \<and> (y \<notin> N \<union> N' \<longrightarrow> nx ob' = nx ob) \<and> (y \<notin> U \<union> U' \<longrightarrow> up ob' = up ob))
        (dbpriv_find_object db y) (dbpriv_find_object db2 y)"
    by (auto simp: option_rel_Some1 elim!: option.rel_cases)
qed

lemma link_frame_find:
  assumes "link_frame first nx up core P N U db db'" "dbpriv_find_object db y = Some ob"
  obtains ob' where "dbpriv_find_object db' y = Some ob'" "core ob' = core ob"
    "y \<notin> P \<longrightarrow> first ob' = first ob" "y \<notin> N \<longrightarrow> nx ob' = nx ob" "y \<notin> U \<longrightarrow> up ob' = up ob"
proof -
  have "rel_option (\<lambda>ob ob'. core ob' = core ob \<and> (y \<notin> P \<longrightarrow> first ob' = first ob)
      \<and> (y \<notin> N \<longrightarrow> nx ob' = nx ob) \<and> (y \<notin> U \<longrightarrow> up ob' = up ob))
      (dbpriv_find_object db y) (dbpriv_find_object db' y)"
    using assms(1) by (simp add: link_frame_def)
  with assms(2) that show thesis by (auto simp: option_rel_Some1)
qed

lemma link_frame_find':
  assumes "link_frame first nx up core P N U db db'" "dbpriv_find_object db' y = Some ob'"
  obtains ob where "dbpriv_find_object db y = Some ob" "core ob' = core ob"
    "y \<notin> P \<longrightarrow> first ob' = first ob" "y \<notin> N \<longrightarrow> nx ob' = nx ob" "y \<notin> U \<longrightarrow> up ob' = up ob"
proof -
  have "rel_option (\<lambda>ob ob'. core ob' = core ob \<and> (y \<notin> P \<longrightarrow> first ob' = first ob)
      \<and> (y \<notin> N \<longrightarrow> nx ob' = nx ob) \<and> (y \<notin> U \<longrightarrow> up ob' = up ob))
      (dbpriv_find_object db y) (dbpriv_find_object db' y)"
    using assms(1) by (simp add: link_frame_def)
  with assms(2) that show thesis by (auto simp: option_rel_Some2)
qed

lemma link_frame_valid: "link_frame first nx up core P N U db db' \<Longrightarrow> valid db' y = valid db y"
  by (metis link_frame_find link_frame_find' validE validI)

lemma link_frame_chain_nx:
  assumes "link_frame first nx up core P N U db db'" "chain nx db c xs" "set xs \<inter> N = {}"
  shows "chain nx db' c xs"
  using assms(2)
proof (rule chain_cong [rotated])
  fix x ob assume "x \<in> set xs" "dbpriv_find_object db x = Some ob"
  with assms(1,3) show "\<exists>ob'. dbpriv_find_object db' x = Some ob' \<and> nx ob' = nx ob"
    by (metis disjoint_iff link_frame_find)
qed

lemma link_frame_chain_up:
  assumes "link_frame first nx up core P N U db db'" "chain up db c xs" "set xs \<inter> U = {}"
  shows "chain up db' c xs"
  using assms(2)
proof (rule chain_cong [rotated])
  fix x ob assume "x \<in> set xs" "dbpriv_find_object db x = Some ob"
  with assms(1,3) show "\<exists>ob'. dbpriv_find_object db' x = Some ob' \<and> up ob' = up ob"
    by (metis disjoint_iff link_frame_find)
qed

lemma link_frame_put:
  assumes "dbpriv_find_object db p = Some po" "core po' = core po" "p \<notin> P \<longrightarrow> first po' = first po"
    "p \<notin> N \<longrightarrow> nx po' = nx po" "p \<notin> U \<longrightarrow> up po' = up po"
  shows "link_frame first nx up core P N U db (db\<lparr>objects := (objects db)(p \<mapsto> po')\<rparr>)"
  using assms by (auto simp: link_frame_def option.rel_refl)

section \<open>Trees of objects\<close>

text \<open>
  \<open>first\<close> is the head of an object's list, \<open>nx\<close> its link in the list that holds
  it, \<open>up\<close> the owner of that list, and \<open>core\<close> the rest of the object.
\<close>

locale ll_tree =
  fixes first :: "object \<Rightarrow> objid" and first_upd :: "(objid \<Rightarrow> objid) \<Rightarrow> object \<Rightarrow> object"
    and nx :: "object \<Rightarrow> objid" and nx_upd :: "(objid \<Rightarrow> objid) \<Rightarrow> object \<Rightarrow> object"
    and up :: "object \<Rightarrow> objid" and up_upd :: "(objid \<Rightarrow> objid) \<Rightarrow> object \<Rightarrow> object"
    and core :: "object \<Rightarrow> object"
  assumes first_upd: "first (first_upd f ob) = f (first ob)" "nx (first_upd f ob) = nx ob"
      "up (first_upd f ob) = up ob" "core (first_upd f ob) = core ob"
    and nx_upd: "nx (nx_upd f ob) = f (nx ob)" "first (nx_upd f ob) = first ob"
      "up (nx_upd f ob) = up ob" "core (nx_upd f ob) = core ob"
    and up_upd: "up (up_upd f ob) = f (up ob)" "first (up_upd f ob) = first ob"
      "nx (up_upd f ob) = nx ob" "core (up_upd f ob) = core ob"
begin

lemmas field_laws = first_upd nx_upd up_upd

text \<open>Unlinking what follows the list prefix: the cell before \<open>c\<close> takes over its link.\<close>

lemma unlink_step:
  assumes p: "dbpriv_find_object db p = Some po" and ch: "chain nx db (first po) (us @ c # vs)"
    and c: "dbpriv_find_object db c = Some co"
  shows "\<exists>db1 po1. (if first po = c then modify_obj db p (first_upd (\<lambda>_. nx co))
                    else ll_remove_loop nx nx_upd c db (first po)) = Some db1
      \<and> link_frame first nx up core {p} (set us) {} db db1
      \<and> dbpriv_find_object db1 p = Some po1 \<and> chain nx db1 (first po1) (us @ vs)"
proof (cases us rule: rev_cases)
  case Nil
  then have f: "first po = c" using ch by simp
  have vs: "chain nx db (nx co) vs" using chain_suffix [OF ch c] .
  let ?db1 = "db\<lparr>objects := (objects db)(p \<mapsto> first_upd (\<lambda>_. nx co) po)\<rparr>"
  have fr: "link_frame first nx up core {p} {} {} db ?db1"
    by (rule link_frame_put [OF p]) (simp_all add: field_laws)
  have "chain nx ?db1 (nx co) vs" by (rule link_frame_chain_nx [OF fr vs]) simp
  with fr p f Nil show ?thesis by (auto simp: modify_obj_Some [OF p] field_laws)
next
  case (snoc us' l)
  have ch': "chain nx db (first po) (us' @ l # c # vs)" using ch snoc by simp
  have dist: "distinct (us' @ l # c # vs)" by (rule chain_distinct [OF ch'])
  have f: "first po \<noteq> c" using ch' dist by (cases us') auto
  obtain lo where l: "dbpriv_find_object db l = Some lo"
    using chain_valid [OF ch', of l] by (auto elim: validE)
  let ?db1 = "db\<lparr>objects := (objects db)(l \<mapsto> nx_upd (\<lambda>_. nx co) lo)\<rparr>"
  have fr: "link_frame first nx up core {} {l} {} db ?db1"
    by (rule link_frame_put [OF l]) (simp_all add: field_laws)
  have loop: "ll_remove_loop nx nx_upd c db (first po) = Some ?db1"
    by (simp add: ll_remove_loop_chain [OF ch' c] modify_obj_Some [OF l])
  have vs: "chain nx db (nx co) vs" using chain_suffix [OF ch c] .
  have vs1: "chain nx ?db1 (nx co) vs"
    using dist by (intro link_frame_chain_nx [OF fr vs]) auto
  obtain e where "segment nx db (first po) us' e" "chain nx db e (l # c # vs)"
    using ch' by (auto simp: chain_append)
  then have seg: "segment nx db (first po) us' l" by simp
  have seg1: "segment nx ?db1 (first po) us' l"
    using seg by (rule segment_cong [rotated]) (use dist l in auto)
  have "chain nx ?db1 (first po) (us @ vs)"
    using seg1 vs1 l snoc by (auto simp: chain_append segment_append field_laws)
  moreover obtain po1 where "dbpriv_find_object ?db1 p = Some po1" "first po1 = first po"
    using link_frame_find [OF fr p] by auto
  moreover have "link_frame first nx up core {p} (set us) {} db ?db1"
    using link_frame_trans [OF link_frame_refl fr, of "{p}" "set us" "{}"] snoc
    by (simp add: insert_absorb)
  ultimately show ?thesis using f loop by (metis)
qed

lemma LL_REMOVE_spec:
  assumes p: "dbpriv_find_object db p = Some po" and ch: "chain nx db (first po) cs"
    and c: "c \<in> set cs"
  shows "\<exists>db' po'. LL_REMOVE first first_upd nx nx_upd p c db = Some db'
      \<and> link_frame first nx up core {p} (set cs) {} db db'
      \<and> dbpriv_find_object db' p = Some po' \<and> chain nx db' (first po') (remove1 c cs)"
proof -
  obtain us vs where cs: "cs = us @ c # vs" and "c \<notin> set us" by (metis c split_list_first)
  then have rem: "remove1 c cs = us @ vs" by (simp add: remove1_append)
  have dist: "distinct (us @ c # vs)" using chain_distinct ch cs by blast
  obtain co where co: "dbpriv_find_object db c = Some co"
    using chain_valid [OF ch c] by (auto elim: validE)
  from unlink_step [OF p ch [unfolded cs] co] obtain db1 po1 where
    st: "(if first po = c then modify_obj db p (first_upd (\<lambda>_. nx co))
          else ll_remove_loop nx nx_upd c db (first po)) = Some db1"
    and fr: "link_frame first nx up core {p} (set us) {} db db1"
    and p1: "dbpriv_find_object db1 p = Some po1" and ch1: "chain nx db1 (first po1) (us @ vs)"
    by blast
  from fr co obtain co1 where c1: "dbpriv_find_object db1 c = Some co1"
    by (blast elim: link_frame_find)
  let ?db2 = "db1\<lparr>objects := (objects db1)(c \<mapsto> nx_upd (\<lambda>_. NOTHING) co1)\<rparr>"
  have fr2: "link_frame first nx up core {} {c} {} db1 ?db2"
    by (rule link_frame_put [OF c1]) (simp_all add: field_laws)
  have "link_frame first nx up core {p} (insert c (set us)) {} db ?db2"
    using link_frame_trans [OF fr fr2] by simp
  from link_frame_trans [OF this link_frame_refl, of "{}" "set cs" "{}"] cs
  have fr3: "link_frame first nx up core {p} (set cs) {} db ?db2"
    by (simp add: Un_absorb1 subset_iff)
  have "chain nx ?db2 (first po1) (us @ vs)"
    using dist by (intro link_frame_chain_nx [OF fr2 ch1]) auto
  moreover obtain po2 where "dbpriv_find_object ?db2 p = Some po2" "first po2 = first po1"
    using link_frame_find [OF fr2 p1] by auto
  moreover have "LL_REMOVE first first_upd nx nx_upd p c db = Some ?db2"
    using st by (simp add: LL_REMOVE_def p co modify_obj_Some [OF c1] split: if_splits)
  ultimately show ?thesis using fr3 rem by metis
qed

lemma link_step:
  assumes q: "dbpriv_find_object db q = Some qo" and ch: "chain nx db (first qo) ds"
  shows "\<exists>db1 qo1. (if first qo = NOTHING then modify_obj db q (first_upd (\<lambda>_. c))
          else do { lid \<leftarrow> ll_last nx db (first qo); modify_obj db lid (nx_upd (\<lambda>_. c)) }) = Some db1
      \<and> link_frame first nx up core {q} (set ds) {} db db1
      \<and> dbpriv_find_object db1 q = Some qo1 \<and> segment nx db1 (first qo1) ds c"
proof (cases ds rule: rev_cases)
  case Nil
  let ?db1 = "db\<lparr>objects := (objects db)(q \<mapsto> first_upd (\<lambda>_. c) qo)\<rparr>"
  have "link_frame first nx up core {q} {} {} db ?db1"
    by (rule link_frame_put [OF q]) (simp_all add: field_laws)
  with Nil ch q show ?thesis by (auto simp: modify_obj_Some [OF q] field_laws)
next
  case (snoc us l)
  obtain lo where l: "dbpriv_find_object db l = Some lo"
    using chain_valid [OF ch, of l] snoc by (auto elim: validE)
  have f: "first qo \<noteq> NOTHING" using ch snoc by auto
  let ?db1 = "db\<lparr>objects := (objects db)(l \<mapsto> nx_upd (\<lambda>_. c) lo)\<rparr>"
  have fr: "link_frame first nx up core {} {l} {} db ?db1"
    by (rule link_frame_put [OF l]) (simp_all add: field_laws)
  have dist: "distinct ds" by (rule chain_distinct [OF ch])
  have "segment nx db (first qo) us l" using ch snoc by (auto simp: chain_append)
  then have "segment nx ?db1 (first qo) us l"
    by (rule segment_cong [rotated]) (use dist snoc l in auto)
  then have sg: "segment nx ?db1 (first qo) ds c"
    using l snoc by (auto simp: segment_append field_laws)
  obtain qo1 where q1: "dbpriv_find_object ?db1 q = Some qo1" "first qo1 = first qo"
    using link_frame_find [OF fr q] by auto
  have fr': "link_frame first nx up core {q} (set ds) {} db ?db1"
    using link_frame_trans [OF link_frame_refl fr, of "{q}" "set ds" "{}"] snoc
    by (simp add: insert_absorb)
  have "ll_last nx db (first qo) = Some l"
    using ll_last_chain [OF ch] snoc by simp
  with f sg q1 fr' show ?thesis by (auto simp: modify_obj_Some [OF l])
qed

lemma LL_APPEND_spec:
  assumes q: "dbpriv_find_object db q = Some qo" and ch: "chain nx db (first qo) ds"
    and c: "valid db c" and new: "c \<notin> set ds"
  shows "\<exists>db' qo'. LL_APPEND first first_upd nx nx_upd q c db = Some db'
      \<and> link_frame first nx up core {q} (insert c (set ds)) {} db db'
      \<and> dbpriv_find_object db' q = Some qo' \<and> chain nx db' (first qo') (ds @ [c])"
proof -
  from link_step [OF q ch, of c] obtain db1 qo1 where
    st: "(if first qo = NOTHING then modify_obj db q (first_upd (\<lambda>_. c))
          else do { lid \<leftarrow> ll_last nx db (first qo); modify_obj db lid (nx_upd (\<lambda>_. c)) }) = Some db1"
    and fr: "link_frame first nx up core {q} (set ds) {} db db1"
    and q1: "dbpriv_find_object db1 q = Some qo1" and sg: "segment nx db1 (first qo1) ds c" by blast
  from fr c obtain co1 where c1: "dbpriv_find_object db1 c = Some co1"
    by (meson link_frame_valid validE)
  let ?db2 = "db1\<lparr>objects := (objects db1)(c \<mapsto> nx_upd (\<lambda>_. NOTHING) co1)\<rparr>"
  have fr2: "link_frame first nx up core {} {c} {} db1 ?db2"
    by (rule link_frame_put [OF c1]) (simp_all add: field_laws)
  have "segment nx ?db2 (first qo1) ds c"
    using sg by (rule segment_cong [rotated]) (use new c1 in auto)
  then have "chain nx ?db2 (first qo1) (ds @ [c])"
    using c1 by (auto simp: chain_append field_laws)
  moreover obtain qo2 where "dbpriv_find_object ?db2 q = Some qo2" "first qo2 = first qo1"
    using link_frame_find [OF fr2 q1] by auto
  moreover have "LL_APPEND first first_upd nx nx_upd q c db = Some ?db2"
    using st by (simp add: LL_APPEND_def q modify_obj_Some [OF c1])
  moreover have "link_frame first nx up core {q} (insert c (set ds)) {} db ?db2"
    using link_frame_trans [OF fr fr2] by simp
  ultimately show ?thesis by metis
qed

end

section \<open>Well-formed hierarchies\<close>

definition kids_are :: "(object \<Rightarrow> objid) \<Rightarrow> (object \<Rightarrow> objid) \<Rightarrow> db \<Rightarrow> objid \<Rightarrow> objid list \<Rightarrow> bool" where
  "kids_are first nx db x cs \<longleftrightarrow>
     (\<exists>ob. dbpriv_find_object db x = Some ob \<and> chain nx db (first ob) cs)"

definition below :: "(object \<Rightarrow> objid) \<Rightarrow> db \<Rightarrow> objid \<Rightarrow> objid set" where
  "below up db x = {c. \<exists>oc. dbpriv_find_object db c = Some oc \<and> up oc = x}"

text \<open>
  Every object's list of children is a finite chain that holds exactly the
  objects whose back link names it, and every chain of back links ends.
\<close>

definition tree_ok :: "(object \<Rightarrow> objid) \<Rightarrow> (object \<Rightarrow> objid) \<Rightarrow> (object \<Rightarrow> objid) \<Rightarrow> db \<Rightarrow> bool" where
  "tree_ok first nx up db \<longleftrightarrow>
     (\<forall>x. valid db x \<longrightarrow>
        (\<exists>as. chain up db x as) \<and> (\<exists>cs. kids_are first nx db x cs \<and> set cs = below up db x))"

lemma tree_ok_ancestors: "tree_ok first nx up db \<Longrightarrow> valid db x \<Longrightarrow> \<exists>as. chain up db x as"
  by (simp add: tree_ok_def)

lemma tree_ok_kids:
  assumes "tree_ok first nx up db" "kids_are first nx db x cs"
  shows "set cs = below up db x"
proof -
  from assms(2) have "valid db x" by (auto simp: kids_are_def valid_def)
  with assms(1) obtain ds where "kids_are first nx db x ds" "set ds = below up db x"
    by (auto simp: tree_ok_def)
  moreover from this(1) assms(2) have "ds = cs" by (auto simp: kids_are_def intro: chain_unique)
  ultimately show ?thesis by simp
qed

lemma tree_ok_kids_ex: "tree_ok first nx up db \<Longrightarrow> valid db x \<Longrightarrow> \<exists>cs. kids_are first nx db x cs"
  by (auto simp: tree_ok_def)

lemma kids_are_distinct: "kids_are first nx db x cs \<Longrightarrow> distinct cs"
  by (auto simp: kids_are_def dest: chain_distinct)

lemma tree_ok_up:
  "tree_ok first nx up db \<Longrightarrow> dbpriv_find_object db x = Some ob \<Longrightarrow> up ob = NOTHING \<or> valid db (up ob)"
proof -
  assume "tree_ok first nx up db" and x: "dbpriv_find_object db x = Some ob"
  then obtain as where "chain up db x as" using tree_ok_ancestors validI by blast
  with x obtain bs where "chain up db (up ob) bs" by (cases as) auto
  then show ?thesis by (cases bs) (auto simp: valid_def)
qed

lemma kids_are_unique: "kids_are first nx db x cs \<Longrightarrow> kids_are first nx db x ds \<Longrightarrow> cs = ds"
  by (auto simp: kids_are_def intro: chain_unique)

lemma kids_are_frame:
  assumes "link_frame first nx up core P N U db db'" "kids_are first nx db x cs"
    "x \<notin> P" "set cs \<inter> N = {}"
  shows "kids_are first nx db' x cs"
proof -
  from assms(2) obtain ob where ob: "dbpriv_find_object db x = Some ob" "chain nx db (first ob) cs"
    by (auto simp: kids_are_def)
  from link_frame_find [OF assms(1) ob(1)] assms(3) obtain ob' where
    "dbpriv_find_object db' x = Some ob'" "first ob' = first ob" by metis
  with link_frame_chain_nx [OF assms(1) ob(2) assms(4)] show ?thesis by (auto simp: kids_are_def)
qed

lemma below_frame:
  "link_frame first nx up core P N {} db db' \<Longrightarrow> below up db' x = below up db x"
  unfolding below_def by (fastforce elim: link_frame_find link_frame_find')

lemma below_disjoint: "x \<noteq> y \<Longrightarrow> below up db x \<inter> below up db y = {}"
  by (auto simp: below_def)

context ll_tree
begin

text \<open>
  Moving \<open>c\<close> from its old place to \<open>q\<close>: unlink it, append it to the list of
  \<open>q\<close>, set the back link.  The three steps are the body of
  \<^verbatim>\<open>db_change_parent\<close> and of \<^verbatim>\<open>db_change_location\<close>.
\<close>

lemma detach_spec:
  assumes ok: "tree_ok first nx up db" and c: "dbpriv_find_object db c = Some co"
  shows "\<exists>db1. (if up co \<noteq> NOTHING then LL_REMOVE first first_upd nx nx_upd (up co) c db
                else Some db) = Some db1
      \<and> link_frame first nx up core {up co} (below up db (up co)) {} db db1
      \<and> (\<forall>x cs. kids_are first nx db x cs \<longrightarrow> kids_are first nx db1 x (removeAll c cs))"
proof (cases "up co = NOTHING")
  case True
  have "removeAll c cs = cs" if k: "kids_are first nx db x cs" for x cs
  proof -
    have "x \<noteq> NOTHING" using k by (auto simp: kids_are_def)
    then have "c \<notin> below up db x" using True c by (auto simp: below_def)
    with tree_ok_kids [OF ok k] show ?thesis by simp
  qed
  with True show ?thesis by (simp add: link_frame_refl)
next
  case False
  with tree_ok_up [OF ok c] obtain po where p: "dbpriv_find_object db (up co) = Some po"
    by (auto elim: validE)
  obtain cs where k: "kids_are first nx db (up co) cs"
    using tree_ok_kids_ex [OF ok validI [OF p]] by blast
  with p have ch: "chain nx db (first po) cs" by (simp add: kids_are_def)
  have cs: "set cs = below up db (up co)" by (rule tree_ok_kids [OF ok k])
  have "c \<in> set cs" using cs c by (auto simp: below_def)
  from LL_REMOVE_spec [OF p ch this] obtain db1 po1 where
    r: "LL_REMOVE first first_upd nx nx_upd (up co) c db = Some db1"
    and fr: "link_frame first nx up core {up co} (set cs) {} db db1"
    and p1: "dbpriv_find_object db1 (up co) = Some po1" "chain nx db1 (first po1) (remove1 c cs)"
    by blast
  have "kids_are first nx db1 x (removeAll c ds)" if d: "kids_are first nx db x ds" for x ds
  proof (cases "x = up co")
    case True
    then have "ds = cs" using d k kids_are_unique by blast
    with True p1 kids_are_distinct [OF k] show ?thesis
      by (simp add: kids_are_def distinct_remove1_removeAll)
  next
    case neq: False
    have "set ds \<inter> set cs = {}"
      using tree_ok_kids [OF ok d] cs below_disjoint [OF neq] by simp
    moreover from this \<open>c \<in> set cs\<close> have "removeAll c ds = ds"
      by (metis removeAll_id disjoint_iff)
    ultimately show ?thesis using kids_are_frame [OF fr d] neq by simp
  qed
  with False r fr cs show ?thesis by auto
qed

lemma attach_spec:
  assumes c: "valid db c" and q: "q = NOTHING \<or> valid db q"
    and kids: "\<And>x. valid db x \<Longrightarrow> \<exists>cs. kids_are first nx db x cs \<and> set cs = below up db x - {c}"
  shows "\<exists>db2 N. (if q \<noteq> NOTHING then LL_APPEND first first_upd nx nx_upd q c db
                else Some db) = Some db2
      \<and> link_frame first nx up core {q} N {} db db2
      \<and> (\<forall>x cs. kids_are first nx db x cs \<longrightarrow>
            kids_are first nx db2 x (cs @ (if x = q then [c] else [])))"
proof (cases "q = NOTHING")
  case True
  then have "\<not> kids_are first nx db q cs" for cs by (simp add: kids_are_def)
  with True show ?thesis by (auto intro: link_frame_refl)
next
  case False
  with q obtain qo where qo: "dbpriv_find_object db q = Some qo" by (auto elim: validE)
  from kids [OF validI [OF qo]] obtain ds where
    d: "kids_are first nx db q ds" "set ds = below up db q - {c}" by blast
  with qo have "chain nx db (first qo) ds" by (simp add: kids_are_def)
  from LL_APPEND_spec [OF qo this c] d(2) obtain db2 qo2 where
    a: "LL_APPEND first first_upd nx nx_upd q c db = Some db2"
    and fr: "link_frame first nx up core {q} (insert c (set ds)) {} db db2"
    and q2: "dbpriv_find_object db2 q = Some qo2" "chain nx db2 (first qo2) (ds @ [c])" by blast
  have "kids_are first nx db2 x (cs @ (if x = q then [c] else []))"
    if k: "kids_are first nx db x cs" for x cs
  proof (cases "x = q")
    case True
    with k d(1) have "cs = ds" using kids_are_unique by blast
    with True q2 show ?thesis by (simp add: kids_are_def)
  next
    case neq: False
    have "valid db x" using k by (auto simp: kids_are_def valid_def)
    with kids k have "set cs = below up db x - {c}" using kids_are_unique by metis
    with d(2) below_disjoint [OF neq, of up db] have "set cs \<inter> insert c (set ds) = {}" by blast
    with kids_are_frame [OF fr k] neq show ?thesis by simp
  qed
  with False a fr show ?thesis by auto
qed

lemma chain_up_moved:
  assumes fr: "link_frame first nx up core P N {c} db db'"
    and c': "dbpriv_find_object db' c = Some co'" "up co' = q"
    and q: "chain up db q as" "c \<notin> set as"
  shows "chain up db x bs \<Longrightarrow> \<exists>bs'. chain up db' x bs'"
proof (induction bs arbitrary: x)
  case Nil
  then have "chain up db' x []" by simp
  then show ?case by blast
next
  case (Cons y bs)
  from Cons.prems obtain ob where y: "x = y" "dbpriv_find_object db y = Some ob" "chain up db (up ob) bs"
    by (rule chain_ConsE)
  show ?case
  proof (cases "y = c")
    case True
    have "chain up db' q as" using link_frame_chain_up [OF fr q(1)] q(2) by simp
    with c' True y(1) have "chain up db' x (c # as)" by simp
    then show ?thesis by blast
  next
    case False
    from link_frame_find [OF fr y(2)] False obtain ob' where
      ob': "dbpriv_find_object db' y = Some ob'" "up ob' = up ob" by auto
    from Cons.IH [OF y(3)] obtain bs' where "chain up db' (up ob) bs'" by blast
    with ob' y(1) have "chain up db' x (y # bs')" by simp
    then show ?thesis by blast
  qed
qed

text \<open>What the hierarchy looks like once \<open>c\<close> hangs under \<open>q\<close>.\<close>

lemma tree_ok_moved:
  assumes ok: "tree_ok first nx up db" and c: "valid db c"
    and q: "chain up db q as" "c \<notin> set as"
    and fr: "link_frame first nx up core P N {c} db db'"
    and c': "dbpriv_find_object db' c = Some co'" "up co' = q"
    and kids: "\<And>x cs. kids_are first nx db x cs \<Longrightarrow>
      kids_are first nx db' x (removeAll c cs @ (if x = q then [c] else []))"
  shows "tree_ok first nx up db'"
  unfolding tree_ok_def
proof (intro allI impI conjI)
  fix x assume x': "valid db' x"
  then have x: "valid db x" using link_frame_valid [OF fr] by simp
  with tree_ok_ancestors [OF ok] obtain bs where "chain up db x bs" by blast
  then show "\<exists>bs'. chain up db' x bs'" by (rule chain_up_moved [OF fr c' q])
  from tree_ok_kids_ex [OF ok x] obtain cs where k: "kids_are first nx db x cs" by blast
  have "below up db' x = (below up db x - {c}) \<union> (if x = q then {c} else {})"
  proof (intro set_eqI)
    fix y
    show "y \<in> below up db' x \<longleftrightarrow> y \<in> (below up db x - {c}) \<union> (if x = q then {c} else {})"
    proof (cases "y = c")
      case True
      with c' show ?thesis by (auto simp: below_def)
    next
      case False
      have "y \<in> below up db' x \<longleftrightarrow> y \<in> below up db x"
        unfolding below_def mem_Collect_eq using False
        by (metis fr link_frame_find link_frame_find' singletonD)
      with False show ?thesis by auto
    qed
  qed
  with tree_ok_kids [OF ok k] have
    "set (removeAll c cs @ (if x = q then [c] else [])) = below up db' x" by auto
  with kids [OF k] show "\<exists>cs. kids_are first nx db' x cs \<and> set cs = below up db' x" by blast
qed

lemma move_spec:
  assumes ok: "tree_ok first nx up db" and c: "dbpriv_find_object db c = Some co"
    and q: "chain up db q as" "c \<notin> set as"
  shows "\<exists>db1 db2 db3 N.
      (if up co \<noteq> NOTHING then LL_REMOVE first first_upd nx nx_upd (up co) c db
       else Some db) = Some db1
      \<and> (if q \<noteq> NOTHING then LL_APPEND first first_upd nx nx_upd q c db1 else Some db1) = Some db2
      \<and> modify_obj db2 c (up_upd (\<lambda>_. q)) = Some db3
      \<and> link_frame first nx up core {up co, q} N {c} db db3
      \<and> tree_ok first nx up db3
      \<and> (\<exists>co3. dbpriv_find_object db3 c = Some co3 \<and> up co3 = q)
      \<and> (\<forall>x cs. kids_are first nx db x cs \<longrightarrow>
           kids_are first nx db3 x (removeAll c cs @ (if x = q then [c] else [])))"
proof -
  from detach_spec [OF ok c] obtain db1 where
    d: "(if up co \<noteq> NOTHING then LL_REMOVE first first_upd nx nx_upd (up co) c db
         else Some db) = Some db1"
    and fr1: "link_frame first nx up core {up co} (below up db (up co)) {} db db1"
    and k1: "\<And>x cs. kids_are first nx db x cs \<Longrightarrow> kids_are first nx db1 x (removeAll c cs)" by blast
  have qv: "q = NOTHING \<or> valid db1 q" using q(1) link_frame_valid [OF fr1]
    by (cases as) (auto simp: valid_def)
  have c1: "valid db1 c" using link_frame_valid [OF fr1] c by (simp add: valid_def)
  have kk: "\<exists>cs. kids_are first nx db1 x cs \<and> set cs = below up db1 x - {c}" if "valid db1 x" for x
  proof -
    from that have "valid db x" using link_frame_valid [OF fr1] by simp
    then obtain cs where k: "kids_are first nx db x cs" using tree_ok_kids_ex [OF ok] by blast
    with k1 [OF k] tree_ok_kids [OF ok k] below_frame [OF fr1] show ?thesis by (metis set_removeAll)
  qed
  from attach_spec [OF c1 qv kk] obtain db2 N where
    a: "(if q \<noteq> NOTHING then LL_APPEND first first_upd nx nx_upd q c db1 else Some db1) = Some db2"
    and fr2: "link_frame first nx up core {q} N {} db1 db2"
    and k2: "\<And>x cs. kids_are first nx db1 x cs \<Longrightarrow>
      kids_are first nx db2 x (cs @ (if x = q then [c] else []))" by blast
  obtain co2 where c2: "dbpriv_find_object db2 c = Some co2"
    using c1 link_frame_valid [OF fr2] by (auto elim: validE)
  define db3 where "db3 = db2\<lparr>objects := (objects db2)(c \<mapsto> up_upd (\<lambda>_. q) co2)\<rparr>"
  have fr3: "link_frame first nx up core {} {} {c} db2 db3"
    unfolding db3_def by (rule link_frame_put [OF c2]) (simp_all add: field_laws)
  define M where "M = below up db (up co) \<union> N"
  have fr: "link_frame first nx up core {up co, q} M {c} db db3"
    using link_frame_trans [OF link_frame_trans [OF fr1 fr2] fr3]
    by (simp add: M_def insert_commute)
  have k3: "kids_are first nx db3 x (removeAll c cs @ (if x = q then [c] else []))"
    if "kids_are first nx db x cs" for x cs
    using kids_are_frame [OF fr3 k2 [OF k1 [OF that]]] by simp
  have c3: "dbpriv_find_object db3 c = Some (up_upd (\<lambda>_. q) co2)" "up (up_upd (\<lambda>_. q) co2) = q"
    using c2 by (simp_all add: db3_def field_laws)
  have "tree_ok first nx up db3"
    by (rule tree_ok_moved [OF ok validI [OF c] q fr c3 k3])
  moreover have "modify_obj db2 c (up_upd (\<lambda>_. q)) = Some db3"
    by (simp add: modify_obj_Some [OF c2] db3_def)
  ultimately show ?thesis using d a fr c3 k3 by metis
qed

end

section \<open>The two hierarchies\<close>

definition tree_core :: "object \<Rightarrow> object" where
  "tree_core ob = ob\<lparr>o_child := NOTHING, o_sibling := NOTHING, o_parent := NOTHING\<rparr>"

definition loc_core :: "object \<Rightarrow> object" where
  "loc_core ob = ob\<lparr>o_contents := NOTHING, o_next := NOTHING, o_location := NOTHING\<rparr>"

interpretation inherit: ll_tree o_child o_child_update o_sibling o_sibling_update
  o_parent o_parent_update tree_core
  by unfold_locales (simp_all add: tree_core_def)

interpretation place: ll_tree o_contents o_contents_update o_next o_next_update
  o_location o_location_update loc_core
  by unfold_locales (simp_all add: loc_core_def)

abbreviation inherit_ok :: "db \<Rightarrow> bool" where
  "inherit_ok db \<equiv> tree_ok o_child o_sibling o_parent db"

abbreviation place_ok :: "db \<Rightarrow> bool" where
  "place_ok db \<equiv> tree_ok o_contents o_next o_location db"

abbreviation children_are :: "db \<Rightarrow> objid \<Rightarrow> objid list \<Rightarrow> bool" where
  "children_are \<equiv> kids_are o_child o_sibling"

abbreviation contents_are :: "db \<Rightarrow> objid \<Rightarrow> objid list \<Rightarrow> bool" where
  "contents_are \<equiv> kids_are o_contents o_next"

end
