(* ===== verification/DbProps.thy ===== *)
theory DbProps
  imports Links
begin

text \<open>
  Properties (\<^verbatim>\<open>db_properties.c\<close>).  An object stores one value slot for every
  property that it or an ancestor defines, in the order of its ancestor chain;
  a definition added, removed or moved by a change of parent therefore shifts
  the slots of all descendants.  The three recursive updates of the source
  (\<^verbatim>\<open>insert_prop_recursively\<close>, \<^verbatim>\<open>remove_prop_recursively\<close>, \<^verbatim>\<open>fix_props\<close>) walk the
  child lists in the same way, adding up the number of definitions on the way
  down; \<open>prop_walk\<close> is that walk.
\<close>

unbundle bit_operations_syntax

section \<open>Definitions and slots\<close>

definition PF_READ :: "16 word" where "PF_READ = 1"
definition PF_WRITE :: "16 word" where "PF_WRITE = 2"
definition PF_CHOWN :: "16 word" where "PF_CHOWN = 4"

definition dbpriv_new_propdef :: "string \<Rightarrow> propdef" where
  "dbpriv_new_propdef name = \<lparr>pd_name = name, pd_hash = str_hash name\<rparr>"

definition cur_length :: "object \<Rightarrow> nat" where
  "cur_length ob = length (pl_l (o_propdefs ob))"

definition propdef_is :: "32 word \<Rightarrow> string \<Rightarrow> propdef \<Rightarrow> bool" where
  "propdef_is hash name pd \<longleftrightarrow> pd_hash pd = hash \<and> mystrcasecmp (pd_name pd) name = 0"

text \<open>The loop over a definition array: the first index that matches.\<close>

fun find_index :: "('a \<Rightarrow> bool) \<Rightarrow> 'a list \<Rightarrow> nat option" where
  "find_index P [] = None"
| "find_index P (x # xs) = (if P x then Some 0 else map_option Suc (find_index P xs))"

partial_function (option) count_props_loop :: "db \<Rightarrow> objid \<Rightarrow> nat \<Rightarrow> nat option" where
  "count_props_loop db oid nprops =
     (case dbpriv_find_object db oid of
        None \<Rightarrow> Some nprops
      | Some ob \<Rightarrow> count_props_loop db (o_parent ob) (nprops + cur_length ob))"

definition dbpriv_count_properties :: "db \<Rightarrow> objid \<Rightarrow> nat option" where
  "dbpriv_count_properties db oid = count_props_loop db oid 0"

text \<open>\<open>defined_in_kids\<close> is the loop over the children, with the recursive call unfolded.\<close>

partial_function (option) defined_in_kids :: "string \<Rightarrow> 32 word \<Rightarrow> db \<Rightarrow> objid \<Rightarrow> bool option" where
  "defined_in_kids pname phash db c =
     (if c = NOTHING then Some False
      else do { ob \<leftarrow> dbpriv_find_object db c;
                if find_index (propdef_is phash pname) (pl_l (o_propdefs ob)) \<noteq> None
                then Some True
                else do { r \<leftarrow> defined_in_kids pname phash db (o_child ob);
                          if r then Some True
                          else defined_in_kids pname phash db (o_sibling ob) } })"

definition property_defined_at_or_below :: "string \<Rightarrow> 32 word \<Rightarrow> db \<Rightarrow> objid \<Rightarrow> bool option" where
  "property_defined_at_or_below pname phash db oid =
     do { ob \<leftarrow> dbpriv_find_object db oid;
          if find_index (propdef_is phash pname) (pl_l (o_propdefs ob)) \<noteq> None
          then Some True
          else defined_in_kids pname phash db (o_child ob) }"

section \<open>The walk over the descendants\<close>

text \<open>
  \<open>k\<close> is the offset handed down by the parent; the loop body runs \<open>step\<close> on the
  child, descends with the child's own definitions added, and goes on to the
  next sibling.  The links are read after each call, as the source does.
\<close>

partial_function (option) prop_walk ::
  "(db \<Rightarrow> objid \<Rightarrow> nat \<Rightarrow> db option) \<Rightarrow> db \<Rightarrow> objid \<Rightarrow> nat \<Rightarrow> db option" where
  "prop_walk step db c k =
     (if c = NOTHING then Some db
      else do { ob \<leftarrow> dbpriv_find_object db c;
                db1 \<leftarrow> step db c k;
                ob1 \<leftarrow> dbpriv_find_object db1 c;
                db2 \<leftarrow> prop_walk step db1 (o_child ob1) (cur_length ob + k);
                ob2 \<leftarrow> dbpriv_find_object db2 c;
                prop_walk step db2 (o_sibling ob2) k })"

text \<open>
  The new array has \<open>nprops\<close> elements and is filled from the old one; the
  assertion says that the reads stay inside the old array.
\<close>

definition insert_prop :: "db \<Rightarrow> objid \<Rightarrow> nat \<Rightarrow> pval \<Rightarrow> db option" where
  "insert_prop db oid pos pval =
     do { nprops \<leftarrow> dbpriv_count_properties db oid;
          ob \<leftarrow> dbpriv_find_object db oid;
          let old = o_propval ob;
          assert_that (pos < nprops \<and> nprops \<le> length old + 1);
          let pv = (if pv_perms pval AND PF_CHOWN \<noteq> 0 then pval\<lparr>pv_owner := o_owner ob\<rparr> else pval);
          modify_obj db oid
            (\<lambda>ob. ob\<lparr>o_propval := take pos old @ pv # take (nprops - pos - 1) (drop pos old)\<rparr>) }"

definition insert_prop_step :: "pval \<Rightarrow> db \<Rightarrow> objid \<Rightarrow> nat \<Rightarrow> db option" where
  "insert_prop_step pv db c root_pos =
     do { ob \<leftarrow> dbpriv_find_object db c;
          insert_prop db c (cur_length ob + root_pos) pv }"

definition insert_prop_recursively :: "db \<Rightarrow> objid \<Rightarrow> nat \<Rightarrow> pval \<Rightarrow> db option" where
  "insert_prop_recursively db root root_pos pv =
     do { db1 \<leftarrow> insert_prop db root root_pos pv;
          ob \<leftarrow> dbpriv_find_object db1 root;
          prop_walk (insert_prop_step (pv\<lparr>pv_var := TYPE_CLEAR\<rparr>)) db1 (o_child ob) root_pos }"

definition remove_prop :: "db \<Rightarrow> objid \<Rightarrow> nat \<Rightarrow> db option" where
  "remove_prop db oid pos =
     do { ob \<leftarrow> dbpriv_find_object db oid;
          nprops \<leftarrow> dbpriv_count_properties db oid;
          let old = o_propval ob;
          assert_that (pos < length old \<and> pos \<le> nprops \<and> nprops < length old);
          modify_obj db oid
            (\<lambda>ob. ob\<lparr>o_propval := take pos old @ take (nprops - pos) (drop (Suc pos) old)\<rparr>) }"

definition remove_prop_step :: "db \<Rightarrow> objid \<Rightarrow> nat \<Rightarrow> db option" where
  "remove_prop_step db c root_pos =
     do { ob \<leftarrow> dbpriv_find_object db c;
          remove_prop db c (cur_length ob + root_pos) }"

definition remove_prop_recursively :: "db \<Rightarrow> objid \<Rightarrow> nat \<Rightarrow> db option" where
  "remove_prop_recursively db root root_pos =
     do { db1 \<leftarrow> remove_prop db root root_pos;
          ob \<leftarrow> dbpriv_find_object db1 root;
          prop_walk remove_prop_step db1 (o_child ob) root_pos }"

section \<open>Looking up a property\<close>

datatype bi_prop =
  BP_NAME | BP_OWNER | BP_PROGRAMMER | BP_WIZARD | BP_R | BP_W | BP_F | BP_LOCATION | BP_CONTENTS

text \<open>
  A handle: nothing found (\<^verbatim>\<open>ptr\<close> null), a built-in property of an object, or a
  slot of the object \<open>holder\<close> at an index, with the object that defines it.
\<close>

datatype db_prop_handle =
    No_prop
  | Builtin bi_prop objid
  | Prop_slot (definer: objid) (holder: objid) (slot: nat)

definition ptable :: "(string \<times> bi_prop) list" where
  "ptable = [(''name'', BP_NAME), (''owner'', BP_OWNER), (''programmer'', BP_PROGRAMMER),
             (''wizard'', BP_WIZARD), (''r'', BP_R), (''w'', BP_W), (''f'', BP_F),
             (''location'', BP_LOCATION), (''contents'', BP_CONTENTS)]"

definition find_builtin :: "string \<Rightarrow> bi_prop option" where
  "find_builtin name =
     map_option snd
       (List.find (\<lambda>(p, _). str_hash p = str_hash name \<and> mystrcasecmp name p = 0) ptable)"

definition int_of_flag :: "bool \<Rightarrow> var" where
  "int_of_flag b = TYPE_INT (if b then 1 else 0)"

definition add_to_list :: "var list \<Rightarrow> objid \<Rightarrow> (var list \<times> bool) option" where
  "add_to_list d c = Some (d @ [TYPE_OBJ c], False)"

fun get_bi_value :: "db \<Rightarrow> bi_prop \<Rightarrow> objid \<Rightarrow> var option" where
  "get_bi_value db BP_NAME oid = map_option TYPE_STR (db_object_name db oid)"
| "get_bi_value db BP_OWNER oid = map_option TYPE_OBJ (db_object_owner db oid)"
| "get_bi_value db BP_PROGRAMMER oid = map_option int_of_flag (db_object_has_flag db oid FLAG_PROGRAMMER)"
| "get_bi_value db BP_WIZARD oid = map_option int_of_flag (db_object_has_flag db oid FLAG_WIZARD)"
| "get_bi_value db BP_R oid = map_option int_of_flag (db_object_has_flag db oid FLAG_READ)"
| "get_bi_value db BP_W oid = map_option int_of_flag (db_object_has_flag db oid FLAG_WRITE)"
| "get_bi_value db BP_F oid = map_option int_of_flag (db_object_has_flag db oid FLAG_FERTILE)"
| "get_bi_value db BP_LOCATION oid = map_option TYPE_OBJ (db_object_location db oid)"
| "get_bi_value db BP_CONTENTS oid =
     do { n \<leftarrow> db_count_contents db oid;
          (r, _) \<leftarrow> db_for_all_contents db oid add_to_list [];
          assert_that (int (length r) = n);
          Some (TYPE_LIST r) }"

definition nth_opt :: "'a list \<Rightarrow> nat \<Rightarrow> 'a option" where
  "nth_opt xs n = (if n < length xs then Some (xs ! n) else None)"

partial_function (option) find_prop_loop ::
  "db \<Rightarrow> 32 word \<Rightarrow> string \<Rightarrow> objid \<Rightarrow> nat \<Rightarrow> (objid \<times> nat) option option" where
  "find_prop_loop db hash name oid n =
     (case dbpriv_find_object db oid of
        None \<Rightarrow> Some None
      | Some ob \<Rightarrow>
          (case find_index (propdef_is hash name) (pl_l (o_propdefs ob)) of
             Some i \<Rightarrow> Some (Some (o_id ob, n + i))
           | None \<Rightarrow> find_prop_loop db hash name (o_parent ob) (n + cur_length ob)))"

text \<open>Climbing over the clear slots.\<close>

partial_function (option) clear_loop :: "db \<Rightarrow> objid \<Rightarrow> nat \<Rightarrow> var option" where
  "clear_loop db oid n =
     do { ob \<leftarrow> dbpriv_find_object db oid;
          pv \<leftarrow> nth_opt (o_propval ob) n;
          if pv_var pv = TYPE_CLEAR
          then do { assert_that (cur_length ob \<le> n);
                    clear_loop db (o_parent ob) (n - cur_length ob) }
          else Some (pv_var pv) }"

text \<open>
  \<open>want\<close> says whether the caller passed a place for the value; the value is the
  second component of the result.
\<close>

definition db_find_property ::
  "bool \<Rightarrow> db \<Rightarrow> objid \<Rightarrow> string \<Rightarrow> (db_prop_handle \<times> var option) option" where
  "db_find_property want db oid name =
     (case find_builtin name of
        Some bi \<Rightarrow>
          if want then do { v \<leftarrow> get_bi_value db bi oid; Some (Builtin bi oid, Some v) }
          else Some (Builtin bi oid, None)
      | None \<Rightarrow>
          do { r \<leftarrow> find_prop_loop db (str_hash name) name oid 0;
               (case r of
                  None \<Rightarrow> Some (No_prop, None)
                | Some (d, n) \<Rightarrow>
                    if want
                    then do { v \<leftarrow> clear_loop db oid n; Some (Prop_slot d oid n, Some v) }
                    else Some (Prop_slot d oid n, None)) })"

section \<open>Operations on definitions\<close>

definition grow_propdefs :: "proplist \<Rightarrow> proplist" where
  "grow_propdefs pl =
     (if length (pl_l pl) = pl_max_length pl
      then pl\<lparr>pl_max_length := (if pl_max_length pl = 0 then 8 else 2 * pl_max_length pl)\<rparr>
      else pl)"

definition db_add_propdef ::
  "db \<Rightarrow> objid \<Rightarrow> string \<Rightarrow> var \<Rightarrow> objid \<Rightarrow> 16 word \<Rightarrow> (db \<times> bool) option" where
  "db_add_propdef db oid pname value owner flags =
     do { (h, _) \<leftarrow> db_find_property False db oid pname;
          if h \<noteq> No_prop then Some (db, False)
          else do {
            defd \<leftarrow> property_defined_at_or_below pname (str_hash pname) db oid;
            if defd then Some (db, False)
            else do {
              db1 \<leftarrow> modify_obj db oid
                (\<lambda>ob. let pl = grow_propdefs (o_propdefs ob)
                      in ob\<lparr>o_propdefs := pl\<lparr>pl_l := pl_l pl @ [dbpriv_new_propdef pname]\<rparr>\<rparr>);
              ob \<leftarrow> dbpriv_find_object db1 oid;
              db2 \<leftarrow> insert_prop_recursively db1 oid (cur_length ob - 1)
                       \<lparr>pv_var = value, pv_owner = owner, pv_perms = flags\<rparr>;
              Some (db2, True) } } }"

definition db_rename_propdef :: "db \<Rightarrow> objid \<Rightarrow> string \<Rightarrow> string \<Rightarrow> (db \<times> bool) option" where
  "db_rename_propdef db oid old new =
     do { ob \<leftarrow> dbpriv_find_object db oid;
          (case find_index (propdef_is (str_hash old) old) (pl_l (o_propdefs ob)) of
             None \<Rightarrow> Some (db, False)
           | Some i \<Rightarrow>
               do { clash \<leftarrow>
                      (if mystrcasecmp old new \<noteq> 0
                       then do { (h, _) \<leftarrow> db_find_property False db oid new;
                                 if h \<noteq> No_prop then Some True
                                 else property_defined_at_or_below new (str_hash new) db oid }
                       else Some False);
                    if clash then Some (db, False)
                    else do {
                      db1 \<leftarrow> modify_obj db oid
                        (\<lambda>ob. ob\<lparr>o_propdefs := (o_propdefs ob)\<lparr>pl_l :=
                           (pl_l (o_propdefs ob))[i := dbpriv_new_propdef new]\<rparr>\<rparr>);
                      Some (db1, True) } }) }"

definition shrink_propdefs :: "nat \<Rightarrow> proplist \<Rightarrow> proplist" where
  "shrink_propdefs i pl =
     pl\<lparr>pl_max_length :=
          (if pl_max_length pl > 8 \<and> length (pl_l pl) \<le> (pl_max_length pl * 3) div 8
           then pl_max_length pl div 2 else pl_max_length pl),
        pl_l := take i (pl_l pl) @ drop (Suc i) (pl_l pl)\<rparr>"

definition db_delete_propdef :: "db \<Rightarrow> objid \<Rightarrow> string \<Rightarrow> (db \<times> bool) option" where
  "db_delete_propdef db oid pname =
     do { ob \<leftarrow> dbpriv_find_object db oid;
          (case find_index (propdef_is (str_hash pname) pname) (pl_l (o_propdefs ob)) of
             None \<Rightarrow> Some (db, False)
           | Some i \<Rightarrow>
               do { db1 \<leftarrow> modify_obj db oid
                      (\<lambda>ob. ob\<lparr>o_propdefs := shrink_propdefs i (o_propdefs ob)\<rparr>);
                    db2 \<leftarrow> remove_prop_recursively db1 oid i;
                    Some (db2, True) }) }"

definition db_count_propdefs :: "db \<Rightarrow> objid \<Rightarrow> nat option" where
  "db_count_propdefs db oid = map_option cur_length (dbpriv_find_object db oid)"

definition db_for_all_propdefs ::
  "db \<Rightarrow> objid \<Rightarrow> ('s \<Rightarrow> string \<Rightarrow> ('s \<times> bool) option) \<Rightarrow> 's \<Rightarrow> ('s \<times> bool) option" where
  "db_for_all_propdefs db oid func data =
     do { ob \<leftarrow> dbpriv_find_object db oid;
          fold_until func (map pd_name (pl_l (o_propdefs ob))) data }"

section \<open>Operations on slots\<close>

definition get_slot :: "db \<Rightarrow> objid \<Rightarrow> nat \<Rightarrow> pval option" where
  "get_slot db oid n = do { ob \<leftarrow> dbpriv_find_object db oid; nth_opt (o_propval ob) n }"

definition modify_slot :: "db \<Rightarrow> objid \<Rightarrow> nat \<Rightarrow> (pval \<Rightarrow> pval) \<Rightarrow> db option" where
  "modify_slot db oid n f =
     do { pv \<leftarrow> get_slot db oid n;
          modify_obj db oid (\<lambda>ob. ob\<lparr>o_propval := (o_propval ob)[n := f pv]\<rparr>) }"

fun db_property_value :: "db \<Rightarrow> db_prop_handle \<Rightarrow> var option" where
  "db_property_value db No_prop = None"
| "db_property_value db (Builtin bi oid) = get_bi_value db bi oid"
| "db_property_value db (Prop_slot d oid n) = map_option pv_var (get_slot db oid n)"

definition set_flag_by_value :: "db \<Rightarrow> objid \<Rightarrow> nat \<Rightarrow> var \<Rightarrow> db option" where
  "set_flag_by_value db oid flag value =
     (if is_true value then db_set_object_flag db oid flag else db_clear_object_flag db oid flag)"

fun db_set_property_value :: "db \<Rightarrow> db_prop_handle \<Rightarrow> var \<Rightarrow> db option" where
  "db_set_property_value db No_prop value = None"
| "db_set_property_value db (Prop_slot d oid n) value =
     modify_slot db oid n (\<lambda>pv. pv\<lparr>pv_var := value\<rparr>)"
| "db_set_property_value db (Builtin BP_NAME oid) value =
     (case value of TYPE_STR s \<Rightarrow> db_set_object_name db oid s | _ \<Rightarrow> None)"
| "db_set_property_value db (Builtin BP_OWNER oid) value =
     (case value of TYPE_OBJ ow \<Rightarrow> db_set_object_owner db oid ow | _ \<Rightarrow> None)"
| "db_set_property_value db (Builtin BP_PROGRAMMER oid) value = set_flag_by_value db oid FLAG_PROGRAMMER value"
| "db_set_property_value db (Builtin BP_WIZARD oid) value = set_flag_by_value db oid FLAG_WIZARD value"
| "db_set_property_value db (Builtin BP_R oid) value = set_flag_by_value db oid FLAG_READ value"
| "db_set_property_value db (Builtin BP_W oid) value = set_flag_by_value db oid FLAG_WRITE value"
| "db_set_property_value db (Builtin BP_F oid) value = set_flag_by_value db oid FLAG_FERTILE value"
| "db_set_property_value db (Builtin BP_LOCATION oid) value = None"
| "db_set_property_value db (Builtin BP_CONTENTS oid) value = None"

fun db_property_owner :: "db \<Rightarrow> db_prop_handle \<Rightarrow> objid option" where
  "db_property_owner db (Prop_slot d oid n) = map_option pv_owner (get_slot db oid n)"
| "db_property_owner db _ = None"

fun db_set_property_owner :: "db \<Rightarrow> db_prop_handle \<Rightarrow> objid \<Rightarrow> db option" where
  "db_set_property_owner db (Prop_slot d oid n) ow = modify_slot db oid n (\<lambda>pv. pv\<lparr>pv_owner := ow\<rparr>)"
| "db_set_property_owner db _ ow = None"

fun db_property_flags :: "db \<Rightarrow> db_prop_handle \<Rightarrow> 16 word option" where
  "db_property_flags db (Prop_slot d oid n) = map_option pv_perms (get_slot db oid n)"
| "db_property_flags db _ = None"

fun db_set_property_flags :: "db \<Rightarrow> db_prop_handle \<Rightarrow> 16 word \<Rightarrow> db option" where
  "db_set_property_flags db (Prop_slot d oid n) fl = modify_slot db oid n (\<lambda>pv. pv\<lparr>pv_perms := fl\<rparr>)"
| "db_set_property_flags db _ fl = None"

definition db_property_allows :: "db \<Rightarrow> db_prop_handle \<Rightarrow> objid \<Rightarrow> 16 word \<Rightarrow> bool option" where
  "db_property_allows db h progr flag =
     do { fl \<leftarrow> db_property_flags db h;
          if fl AND flag \<noteq> 0 then Some True
          else do { ow \<leftarrow> db_property_owner db h; Some (progr = ow \<or> is_wizard db progr) } }"

section \<open>After a change of parent\<close>

text \<open>
  \<^verbatim>\<open>fix_props\<close> on one object: the slots of the object itself and of its path
  down from the changed object (\<open>local\<close> of them) stay, the slots inherited from
  the old parent go, fresh clear slots copied from the parent come in, the
  slots inherited from the common ancestor stay.
\<close>

definition fix_props_one :: "nat \<Rightarrow> nat \<Rightarrow> nat \<Rightarrow> db \<Rightarrow> objid \<Rightarrow> nat \<Rightarrow> db option" where
  "fix_props_one old new common db oid parent_local =
     do { me \<leftarrow> dbpriv_find_object db oid;
          let lcl = parent_local + cur_length me;
          let pvs = o_propval me;
          assert_that (lcl + old + common \<le> length pvs);
          fresh \<leftarrow>
            (if new = 0 then Some []
             else do { parent \<leftarrow> dbpriv_find_object db (o_parent me);
                       assert_that (parent_local + new \<le> length (o_propval parent));
                       Some (map (\<lambda>pv. if pv_perms pv AND PF_CHOWN \<noteq> 0
                                       then pv\<lparr>pv_var := TYPE_CLEAR, pv_owner := o_owner me\<rparr>
                                       else pv\<lparr>pv_var := TYPE_CLEAR\<rparr>)
                               (take new (drop parent_local (o_propval parent)))) });
          modify_obj db oid
            (\<lambda>ob. ob\<lparr>o_propval := take lcl pvs @ fresh @ take common (drop (lcl + old) pvs)\<rparr>) }"

definition fix_props :: "db \<Rightarrow> objid \<Rightarrow> nat \<Rightarrow> nat \<Rightarrow> nat \<Rightarrow> nat \<Rightarrow> db option" where
  "fix_props db oid parent_local old new common =
     do { me \<leftarrow> dbpriv_find_object db oid;
          db1 \<leftarrow> fix_props_one old new common db oid parent_local;
          me1 \<leftarrow> dbpriv_find_object db1 oid;
          prop_walk (fix_props_one old new common) db1 (o_child me1) (cur_length me + parent_local) }"

fun any_defined :: "db \<Rightarrow> objid \<Rightarrow> propdef list \<Rightarrow> bool option" where
  "any_defined db oid [] = Some False"
| "any_defined db oid (pd # pds) =
     do { r \<leftarrow> property_defined_at_or_below (pd_name pd) (pd_hash pd) db oid;
          if r then Some True else any_defined db oid pds }"

partial_function (option) chparent_check_loop :: "db \<Rightarrow> objid \<Rightarrow> objid \<Rightarrow> bool option" where
  "chparent_check_loop db oid p =
     (case dbpriv_find_object db p of
        None \<Rightarrow> Some True
      | Some ob \<Rightarrow>
          do { bad \<leftarrow> any_defined db oid (pl_l (o_propdefs ob));
               if bad then Some False else chparent_check_loop db oid (o_parent ob) })"

definition dbpriv_check_properties_for_chparent :: "db \<Rightarrow> objid \<Rightarrow> objid \<Rightarrow> bool option" where
  "dbpriv_check_properties_for_chparent db oid new_parent = chparent_check_loop db oid new_parent"

partial_function (option) on_parent_chain :: "db \<Rightarrow> objid \<Rightarrow> objid \<Rightarrow> bool option" where
  "on_parent_chain db o1 o2 =
     (if o2 = NOTHING then Some False
      else if o1 = o2 then Some True
      else do { p \<leftarrow> db_object_parent db o2; on_parent_chain db o1 p })"

partial_function (option) nearest_common :: "db \<Rightarrow> objid \<Rightarrow> objid \<Rightarrow> objid option" where
  "nearest_common db o1 old_parent =
     (if o1 = NOTHING then Some NOTHING
      else do { hit \<leftarrow> on_parent_chain db o1 old_parent;
                if hit then Some o1
                else do { p \<leftarrow> db_object_parent db o1; nearest_common db p old_parent } })"

definition dbpriv_fix_properties_after_chparent :: "db \<Rightarrow> objid \<Rightarrow> objid \<Rightarrow> db option" where
  "dbpriv_fix_properties_after_chparent db oid old_parent =
     do { new_parent \<leftarrow> db_object_parent db oid;
          common \<leftarrow> nearest_common db new_parent old_parent;
          common_props \<leftarrow> (if common \<noteq> NOTHING then dbpriv_count_properties db common else Some 0);
          oldn \<leftarrow> dbpriv_count_properties db old_parent;
          newn \<leftarrow> dbpriv_count_properties db new_parent;
          fix_props db oid 0 (oldn - common_props) (newn - common_props) common_props }"

end
