(* ===== verification/DbVerbs.thy ===== *)
theory DbVerbs
  imports DbProps Words
begin

text \<open>
  Prepositions, verbs and the cache of verb lookups (\<^verbatim>\<open>db_verbs.c\<close>).  A
  \<^verbatim>\<open>db_verb_handle\<close> is null (\<^term>\<open>None\<close>) or names a definition by its object and
  its position.  \<^verbatim>\<open>verbcasecmp\<close> first compares the two pointers it is given; the
  parameter \<open>al\<close> of the lookups by name says, for the verb at a position of an
  object, whether its name is the very string that is looked up.
\<close>

unbundle bit_operations_syntax

section \<open>Prepositions\<close>

definition MAXPPHRASE :: nat where "MAXPPHRASE = 3"

definition prep_list :: "string list" where
  "prep_list =
     [''with/using'', ''at/to'', ''in front of'', ''in/inside/into'', ''on top of/on/onto/upon'',
      ''out of/from inside/from'', ''over'', ''through'', ''under/underneath/beneath'', ''behind'',
      ''beside'', ''for/about'', ''is'', ''as'', ''off/off of'']"

definition NPREPS :: int where "NPREPS = 15"

definition PREP_ANY :: int where "PREP_ANY = -2"
definition PREP_NONE :: int where "PREP_NONE = -1"

definition SLASH :: char where "SLASH = CHR ''/''"

function prep_phrases :: "string \<Rightarrow> string list" where
  "prep_phrases p =
     (if p = [] then []
      else let q = (if hd p = SLASH then tl p else p)
           in takeWhile (\<lambda>c. c \<noteq> SLASH) q # prep_phrases (dropWhile (\<lambda>c. c \<noteq> SLASH) q))"
  by pat_completeness auto
termination
proof (relation "measure length")
  fix p q :: string
  assume "p \<noteq> []" "q = (if hd p = SLASH then tl p else p)"
  moreover have "length (dropWhile (\<lambda>c. c \<noteq> SLASH) q) \<le> length q" by (rule length_dropWhile_le)
  moreover have "length (dropWhile (\<lambda>c. c \<noteq> SLASH) (tl p)) \<le> length (tl p)" by (rule length_dropWhile_le)
  ultimately show "(dropWhile (\<lambda>c. c \<noteq> SLASH) q, p) \<in> measure length"
    by (cases p) auto
qed simp

declare prep_phrases.simps [simp del]

definition prep_table :: "string list list list" where
  "prep_table = map (\<lambda>p. map parse_into_words (prep_phrases p)) prep_list"

definition phrase_at :: "string list \<Rightarrow> nat \<Rightarrow> string list \<Rightarrow> bool" where
  "phrase_at argv i alias \<longleftrightarrow>
     list_all2 (\<lambda>a b. mystrcasecmp a b = 0) (take (length alias) (drop i argv)) alias"

text \<open>The two inner loops: the first phrase of the table that starts at word \<open>i\<close>.\<close>

definition prep_entries :: "(nat \<times> string list) list" where
  "prep_entries = concat (map (\<lambda>(j, as). map (Pair j) as) (enumerate 0 prep_table))"

definition prep_at :: "bool \<Rightarrow> string list \<Rightarrow> nat \<Rightarrow> (nat \<times> string list) option" where
  "prep_at exact argv i =
     List.find (\<lambda>(j, alias). phrase_at argv i alias \<and> (\<not> exact \<or> i + length alias = length argv)) prep_entries"

text \<open>
  The result is the preposition with the indices of its first and last word.
\<close>

definition db_find_prep :: "bool \<Rightarrow> string list \<Rightarrow> int \<times> nat \<times> nat" where
  "db_find_prep exact argv =
     (let is = (if exact then take 1 [0..<length argv] else [0..<length argv])
      in case List.find (\<lambda>i. prep_at exact argv i \<noteq> None) is of
           None \<Rightarrow> (PREP_NONE, 0, 0)
         | Some i \<Rightarrow> (case the (prep_at exact argv i) of (j, alias) \<Rightarrow> (int j, i, i + length alias - 1)))"

definition db_match_prep :: "string \<Rightarrow> int" where
  "db_match_prep prepname =
     (let s1 = (if prepname \<noteq> [] \<and> hd prepname = CHR ''#'' then tl prepname else prepname);
          prep = int32 (fst (strtol s1))
      in if snd (strtol s1) = []
         then if s1 = [] \<or> \<not> isdigit (hd s1) \<or> prep \<ge> NPREPS then PREP_NONE else prep
         else fst (db_find_prep True (parse_into_words (takeWhile (\<lambda>c. c \<noteq> SLASH) prepname))))"

text \<open>The array is read without a check of the index.\<close>

definition db_unparse_prep :: "int \<Rightarrow> string option" where
  "db_unparse_prep prep =
     (if prep = PREP_NONE then Some ''none''
      else if prep = PREP_ANY then Some ''any''
      else if 0 \<le> prep \<and> prep < NPREPS then Some (prep_list ! nat prep)
      else None)"

section \<open>Verbs\<close>

definition VF_READ :: "16 word" where "VF_READ = 1"
definition VF_WRITE :: "16 word" where "VF_WRITE = 2"
definition VF_EXEC :: "16 word" where "VF_EXEC = 4"
definition VF_DEBUG :: "16 word" where "VF_DEBUG = 8"

definition DOBJSHIFT :: nat where "DOBJSHIFT = 4"
definition IOBJSHIFT :: nat where "IOBJSHIFT = 6"
definition OBJMASK :: "16 word" where "OBJMASK = 3"
definition PERMMASK :: "16 word" where "PERMMASK = 15"

text \<open>Argument specifiers are stored in two bits; the value 3 has no name.\<close>

type_synonym db_arg_spec = "16 word"

definition ASPEC_NONE :: db_arg_spec where "ASPEC_NONE = 0"
definition ASPEC_ANY :: db_arg_spec where "ASPEC_ANY = 1"
definition ASPEC_THIS :: db_arg_spec where "ASPEC_THIS = 2"

definition int16 :: "int \<Rightarrow> int" where
  "int16 n = (n + 2 ^ 15) mod 2 ^ 16 - 2 ^ 15"

definition perms_of :: "16 word \<Rightarrow> db_arg_spec \<Rightarrow> db_arg_spec \<Rightarrow> 16 word" where
  "perms_of flags dobj iobj = flags OR push_bit DOBJSHIFT dobj OR push_bit IOBJSHIFT iobj"

definition dobj_of :: "16 word \<Rightarrow> db_arg_spec" where
  "dobj_of perms = drop_bit DOBJSHIFT perms AND OBJMASK"

definition iobj_of :: "16 word \<Rightarrow> db_arg_spec" where
  "iobj_of perms = drop_bit IOBJSHIFT perms AND OBJMASK"

definition db_add_verb ::
  "db \<Rightarrow> objid \<Rightarrow> string \<Rightarrow> objid \<Rightarrow> 16 word \<Rightarrow> db_arg_spec \<Rightarrow> int \<Rightarrow> db_arg_spec \<Rightarrow> (db \<times> nat) option" where
  "db_add_verb db oid vnames owner flags dobj prep iobj =
     (let db0 = db_priv_affected_callable_verb_lookup db;
          newv = \<lparr>vd_name = vnames, vd_program = None, vd_owner = owner,
                  vd_perms = perms_of flags dobj iobj, vd_prep = int16 prep\<rparr>
      in do { ob \<leftarrow> dbpriv_find_object db0 oid;
              db1 \<leftarrow> modify_obj db0 oid (\<lambda>ob. ob\<lparr>o_verbdefs := o_verbdefs ob @ [newv]\<rparr>);
              Some (db1, length (o_verbdefs ob) + 1) })"

fun find_verb_from :: "(nat \<Rightarrow> bool) \<Rightarrow> string \<Rightarrow> bool \<Rightarrow> nat \<Rightarrow> verbdef list \<Rightarrow> nat option" where
  "find_verb_from al vname check_x_bit n [] = None"
| "find_verb_from al vname check_x_bit n (v # vs) =
     (if verbcasecmp (al n) (vd_name v) vname \<and> (\<not> check_x_bit \<or> vd_perms v AND VF_EXEC \<noteq> 0)
      then Some n else find_verb_from al vname check_x_bit (Suc n) vs)"

definition find_verbdef_by_name :: "(nat \<Rightarrow> bool) \<Rightarrow> object \<Rightarrow> string \<Rightarrow> bool \<Rightarrow> nat option" where
  "find_verbdef_by_name al ob vname check_x_bit = find_verb_from al vname check_x_bit 0 (o_verbdefs ob)"

definition db_count_verbs :: "db \<Rightarrow> objid \<Rightarrow> nat option" where
  "db_count_verbs db oid = map_option (\<lambda>ob. length (o_verbdefs ob)) (dbpriv_find_object db oid)"

definition db_for_all_verbs ::
  "db \<Rightarrow> objid \<Rightarrow> ('s \<Rightarrow> string \<Rightarrow> ('s \<times> bool) option) \<Rightarrow> 's \<Rightarrow> ('s \<times> bool) option" where
  "db_for_all_verbs db oid func data =
     do { ob \<leftarrow> dbpriv_find_object db oid; fold_until func (map vd_name (o_verbdefs ob)) data }"

definition handle_of :: "objid \<Rightarrow> nat \<Rightarrow> verb_handle" where
  "handle_of d i = \<lparr>vh_definer = d, vh_index = i\<rparr>"

definition verbdef_of :: "db \<Rightarrow> verb_handle \<Rightarrow> verbdef option" where
  "verbdef_of db h = do { ob \<leftarrow> dbpriv_find_object db (vh_definer h); nth_opt (o_verbdefs ob) (vh_index h) }"

definition modify_verb :: "db \<Rightarrow> verb_handle \<Rightarrow> (verbdef \<Rightarrow> verbdef) \<Rightarrow> db option" where
  "modify_verb db h f =
     do { v \<leftarrow> verbdef_of db h;
          modify_obj db (vh_definer h) (\<lambda>ob. ob\<lparr>o_verbdefs := (o_verbdefs ob)[vh_index h := f v]\<rparr>) }"

definition db_delete_verb :: "db \<Rightarrow> verb_handle option \<Rightarrow> db option" where
  "db_delete_verb db vh =
     do { h \<leftarrow> vh;
          let db0 = db_priv_affected_callable_verb_lookup db;
          v \<leftarrow> verbdef_of db0 h;
          modify_obj db0 (vh_definer h)
            (\<lambda>ob. ob\<lparr>o_verbdefs := take (vh_index h) (o_verbdefs ob) @ drop (Suc (vh_index h)) (o_verbdefs ob)\<rparr>) }"

definition command_match :: "bool \<Rightarrow> string \<Rightarrow> db_arg_spec \<Rightarrow> int \<Rightarrow> db_arg_spec \<Rightarrow> verbdef \<Rightarrow> bool" where
  "command_match same verb dobj prep iobj v \<longleftrightarrow>
     verbcasecmp same (vd_name v) verb
   \<and> (dobj_of (vd_perms v) = ASPEC_ANY \<or> dobj_of (vd_perms v) = dobj)
   \<and> (vd_prep v = PREP_ANY \<or> vd_prep v = prep)
   \<and> (iobj_of (vd_perms v) = ASPEC_ANY \<or> iobj_of (vd_perms v) = iobj)"

fun command_verb_from ::
  "(nat \<Rightarrow> bool) \<Rightarrow> string \<Rightarrow> db_arg_spec \<Rightarrow> int \<Rightarrow> db_arg_spec \<Rightarrow> nat \<Rightarrow> verbdef list \<Rightarrow> nat option" where
  "command_verb_from al verb dobj prep iobj n [] = None"
| "command_verb_from al verb dobj prep iobj n (v # vs) =
     (if command_match (al n) verb dobj prep iobj v then Some n
      else command_verb_from al verb dobj prep iobj (Suc n) vs)"

definition command_here ::
  "(objid \<Rightarrow> nat \<Rightarrow> bool) \<Rightarrow> string \<Rightarrow> db_arg_spec \<Rightarrow> int \<Rightarrow> db_arg_spec \<Rightarrow> object \<Rightarrow> verb_handle option" where
  "command_here al verb dobj prep iobj ob =
     map_option (handle_of (o_id ob)) (command_verb_from (al (o_id ob)) verb dobj prep iobj 0 (o_verbdefs ob))"

text \<open>
  The loop over the ancestors that both lookups use; \<open>here\<close> looks at the verbs of one object.
\<close>

partial_function (option) verb_walk ::
  "(object \<Rightarrow> verb_handle option) \<Rightarrow> db \<Rightarrow> object option \<Rightarrow> verb_handle option option" where
  "verb_walk here db ob =
     (case ob of
        None \<Rightarrow> Some None
      | Some ob \<Rightarrow>
          if here ob \<noteq> None then Some (here ob)
          else verb_walk here db (dbpriv_find_object db (o_parent ob)))"

definition db_find_command_verb ::
  "(objid \<Rightarrow> nat \<Rightarrow> bool) \<Rightarrow> db \<Rightarrow> objid \<Rightarrow> string \<Rightarrow> db_arg_spec \<Rightarrow> int \<Rightarrow> db_arg_spec \<Rightarrow> verb_handle option option" where
  "db_find_command_verb al db oid verb dobj prep iobj =
     verb_walk (command_here al verb dobj prep iobj) db (dbpriv_find_object db oid)"

section \<open>The verb cache\<close>

definition DEFAULT_VC_SIZE :: nat where "DEFAULT_VC_SIZE = 7507"

definition make_vc_table :: "nat \<Rightarrow> db \<Rightarrow> db" where
  "make_vc_table n db = db\<lparr>vc_table := Some (replicate n [])\<rparr>"

definition VC_CACHE_STATS_MAX :: nat where "VC_CACHE_STATS_MAX = 16"

definition vc_histogram :: "vc_entry list list \<Rightarrow> nat list" where
  "vc_histogram t =
     map (\<lambda>d. length (filter (\<lambda>vs. min (length vs) VC_CACHE_STATS_MAX = d) t)) [0..<VC_CACHE_STATS_MAX + 1]"

definition db_verb_cache_stats :: "db \<Rightarrow> var" where
  "db_verb_cache_stats db =
     TYPE_LIST
       [TYPE_INT (verbcache_hit db), TYPE_INT (verbcache_neg_hit db), TYPE_INT (verbcache_miss db),
        TYPE_INT (db_verb_generation db),
        TYPE_LIST (map (\<lambda>n. TYPE_INT (int n)) (vc_histogram (case vc_table db of None \<Rightarrow> [] | Some t \<Rightarrow> t)))]"

partial_function (option) first_with_verbs :: "db \<Rightarrow> object option \<Rightarrow> object option option" where
  "first_with_verbs db ob =
     (case ob of
        None \<Rightarrow> Some None
      | Some ob \<Rightarrow>
          if o_verbdefs ob \<noteq> [] then Some (Some ob)
          else first_with_verbs db (dbpriv_find_object db (o_parent ob)))"

definition vc_hash_of :: "string \<Rightarrow> objid \<Rightarrow> 32 word" where
  "vc_hash_of verb key = str_hash verb XOR NOT (word_of_int key)"

definition vc_hit :: "32 word \<Rightarrow> objid \<Rightarrow> string \<Rightarrow> vc_entry \<Rightarrow> bool" where
  "vc_hit hash key verb vc \<longleftrightarrow>
     hash = vc_hash vc \<and> key = vc_oid_key vc \<and> mystrcasecmp verb (vc_verbname vc) = 0"

definition callable_here :: "(objid \<Rightarrow> nat \<Rightarrow> bool) \<Rightarrow> string \<Rightarrow> object \<Rightarrow> verb_handle option" where
  "callable_here al verb ob = map_option (handle_of (o_id ob)) (find_verbdef_by_name (al (o_id ob)) ob verb True)"

definition db_find_callable_verb ::
  "(objid \<Rightarrow> nat \<Rightarrow> bool) \<Rightarrow> db \<Rightarrow> objid \<Rightarrow> string \<Rightarrow> (db \<times> verb_handle option) option" where
  "db_find_callable_verb al db oid verb =
     (let db0 = (if vc_table db = None then make_vc_table DEFAULT_VC_SIZE db else db)
      in do {
        t \<leftarrow> vc_table db0;
        ob \<leftarrow> first_with_verbs db0 (dbpriv_find_object db0 oid);
        let key = (case ob of None \<Rightarrow> NOTHING | Some ob \<Rightarrow> o_id ob);
        let hash = vc_hash_of verb key;
        assert_that (t \<noteq> []);
        let bucket = unat hash mod length t;
        (case List.find (vc_hit hash key verb) (t ! bucket) of
           Some vc \<Rightarrow>
             Some ((if vc_h vc \<noteq> None then db0\<lparr>verbcache_hit := verbcache_hit db0 + 1\<rparr>
                    else db0\<lparr>verbcache_neg_hit := verbcache_neg_hit db0 + 1\<rparr>), vc_h vc)
         | None \<Rightarrow>
             do { let db1 = db0\<lparr>verbcache_miss := verbcache_miss db0 + 1\<rparr>;
                  h \<leftarrow> verb_walk (callable_here al verb) db1 ob;
                  let new_vc = \<lparr>vc_hash = hash, vc_oid_key = key, vc_verbname = verb, vc_h = h\<rparr>;
                  Some (db1\<lparr>vc_table := Some (t[bucket := new_vc # t ! bucket])\<rparr>, h) }) })"

section \<open>Verbs of one object\<close>

fun defined_verb_from :: "(nat \<Rightarrow> bool) \<Rightarrow> string \<Rightarrow> int \<Rightarrow> nat \<Rightarrow> verbdef list \<Rightarrow> nat option" where
  "defined_verb_from al vname num n [] = None"
| "defined_verb_from al vname num n (v # vs) =
     (if int n = num \<or> verbcasecmp (al n) (vd_name v) vname then Some n
      else defined_verb_from al vname num (Suc n) vs)"

definition verb_number :: "bool \<Rightarrow> string \<Rightarrow> int" where
  "verb_number allow_numbers vname =
     (if \<not> allow_numbers \<or> (vname \<noteq> [] \<and> isspace (hd vname)) \<or> snd (strtol vname) \<noteq> [] then -1
      else int32 (fst (strtol vname)))"

definition db_find_defined_verb ::
  "(nat \<Rightarrow> bool) \<Rightarrow> db \<Rightarrow> objid \<Rightarrow> string \<Rightarrow> bool \<Rightarrow> verb_handle option option" where
  "db_find_defined_verb al db oid vname allow_numbers =
     do { ob \<leftarrow> dbpriv_find_object db oid;
          Some (map_option (handle_of (o_id ob))
                  (defined_verb_from al vname (verb_number allow_numbers vname) 0 (o_verbdefs ob))) }"

definition db_find_indexed_verb :: "db \<Rightarrow> objid \<Rightarrow> nat \<Rightarrow> verb_handle option option" where
  "db_find_indexed_verb db oid index =
     do { ob \<leftarrow> dbpriv_find_object db oid;
          Some (if 1 \<le> index \<and> index \<le> length (o_verbdefs ob)
                then Some (handle_of (o_id ob) (index - 1)) else None) }"

section \<open>Through a handle\<close>

definition db_verb_definer :: "verb_handle option \<Rightarrow> objid option" where
  "db_verb_definer vh = map_option vh_definer vh"

definition db_verb_names :: "db \<Rightarrow> verb_handle option \<Rightarrow> string option" where
  "db_verb_names db vh = do { h \<leftarrow> vh; map_option vd_name (verbdef_of db h) }"

definition db_set_verb_names :: "db \<Rightarrow> verb_handle option \<Rightarrow> string \<Rightarrow> db option" where
  "db_set_verb_names db vh names =
     (let db0 = db_priv_affected_callable_verb_lookup db
      in do { h \<leftarrow> vh; modify_verb db0 h (\<lambda>v. v\<lparr>vd_name := names\<rparr>) })"

definition db_verb_owner :: "db \<Rightarrow> verb_handle option \<Rightarrow> objid option" where
  "db_verb_owner db vh = do { h \<leftarrow> vh; map_option vd_owner (verbdef_of db h) }"

definition db_set_verb_owner :: "db \<Rightarrow> verb_handle option \<Rightarrow> objid \<Rightarrow> db option" where
  "db_set_verb_owner db vh owner = do { h \<leftarrow> vh; modify_verb db h (\<lambda>v. v\<lparr>vd_owner := owner\<rparr>) }"

definition db_verb_flags :: "db \<Rightarrow> verb_handle option \<Rightarrow> 16 word option" where
  "db_verb_flags db vh = do { h \<leftarrow> vh; map_option (\<lambda>v. vd_perms v AND PERMMASK) (verbdef_of db h) }"

definition db_set_verb_flags :: "db \<Rightarrow> verb_handle option \<Rightarrow> 16 word \<Rightarrow> db option" where
  "db_set_verb_flags db vh flags =
     (let db0 = db_priv_affected_callable_verb_lookup db
      in do { h \<leftarrow> vh; modify_verb db0 h (\<lambda>v. v\<lparr>vd_perms := (vd_perms v AND NOT PERMMASK) OR flags\<rparr>) })"

text \<open>\<open>null_program\<close> stands for the program of a verb that was never programmed.\<close>

definition db_verb_program :: "program \<Rightarrow> db \<Rightarrow> verb_handle option \<Rightarrow> program option" where
  "db_verb_program null_program db vh =
     do { h \<leftarrow> vh; v \<leftarrow> verbdef_of db h;
          Some (case vd_program v of None \<Rightarrow> null_program | Some p \<Rightarrow> p) }"

definition db_set_verb_program :: "db \<Rightarrow> verb_handle option \<Rightarrow> program \<Rightarrow> db option" where
  "db_set_verb_program db vh program =
     do { h \<leftarrow> vh; modify_verb db h (\<lambda>v. v\<lparr>vd_program := Some program\<rparr>) }"

definition db_verb_arg_specs :: "db \<Rightarrow> verb_handle option \<Rightarrow> (db_arg_spec \<times> int \<times> db_arg_spec) option" where
  "db_verb_arg_specs db vh =
     do { h \<leftarrow> vh; v \<leftarrow> verbdef_of db h;
          Some (dobj_of (vd_perms v), vd_prep v, iobj_of (vd_perms v)) }"

definition db_set_verb_arg_specs ::
  "db \<Rightarrow> verb_handle option \<Rightarrow> db_arg_spec \<Rightarrow> int \<Rightarrow> db_arg_spec \<Rightarrow> db option" where
  "db_set_verb_arg_specs db vh dobj prep iobj =
     (let db0 = db_priv_affected_callable_verb_lookup db
      in do { h \<leftarrow> vh;
              modify_verb db0 h
                (\<lambda>v. v\<lparr>vd_perms := perms_of (vd_perms v AND PERMMASK) dobj iobj, vd_prep := int16 prep\<rparr>) })"

definition db_verb_allows :: "db \<Rightarrow> verb_handle option \<Rightarrow> objid \<Rightarrow> 16 word \<Rightarrow> bool option" where
  "db_verb_allows db h progr flag =
     do { fl \<leftarrow> db_verb_flags db h;
          if fl AND flag \<noteq> 0 then Some True
          else do { ow \<leftarrow> db_verb_owner db h; Some (progr = ow \<or> is_wizard db progr) } }"

end
