(* ===== verification/PropLayout.thy ===== *)
theory PropLayout
  imports DbProps
begin

text \<open>
  Why the slot arrays of \<^verbatim>\<open>db_properties.c\<close> stay aligned with the definitions.
  The first part is about the walk over all descendants: an induction rule that
  follows the two loops, and the state such a walk leaves behind.  The second
  part defines the layout invariant and proves that each operation on
  definitions keeps it and shifts the slots of every object by the right entry.
\<close>

section \<open>Descendants\<close>

definition desc :: "db \<Rightarrow> objid \<Rightarrow> objid set" where
  "desc db x = {y. \<exists>as. chain o_parent db y as \<and> x \<in> set as}"

lemma chain_tail_of:
  "chain nx db y as \<Longrightarrow> x \<in> set as \<Longrightarrow> \<exists>us vs. as = us @ x # vs \<and> chain nx db x (x # vs)"
  by (metis chain_suffix_self split_list)

lemma desc_valid: "y \<in> desc db x \<Longrightarrow> valid db y \<and> valid db x"
proof -
  assume "y \<in> desc db x"
  then obtain as where as: "chain o_parent db y as" "x \<in> set as" by (auto simp: desc_def)
  then have "y \<in> set as" by (cases as) auto
  with as show ?thesis by (auto intro: chain_valid)
qed

lemma finite_desc: "finite (desc db x)"
  by (rule finite_subset [OF _ finite_valid]) (auto dest: desc_valid)

lemma desc_self: "inherit_ok db \<Longrightarrow> valid db x \<Longrightarrow> x \<in> desc db x"
proof -
  assume "inherit_ok db" "valid db x"
  then obtain as where "chain o_parent db x as" using tree_ok_ancestors by blast
  moreover from this have "x \<in> set as" using \<open>valid db x\<close> by (cases as) auto
  ultimately show ?thesis by (auto simp: desc_def)
qed

lemma desc_up:
  "dbpriv_find_object db c = Some ob \<Longrightarrow> y \<in> desc db c \<Longrightarrow> valid db (o_parent ob) \<Longrightarrow>
   y \<in> desc db (o_parent ob)"
proof -
  assume c: "dbpriv_find_object db c = Some ob" "valid db (o_parent ob)" and "y \<in> desc db c"
  then obtain as where as: "chain o_parent db y as" "c \<in> set as" by (auto simp: desc_def)
  then obtain us vs where s: "as = us @ c # vs" "chain o_parent db c (c # vs)" by (metis chain_tail_of)
  with c have "chain o_parent db (o_parent ob) vs" by simp
  with c(2) have "o_parent ob \<in> set vs" by (cases vs) auto
  with as s show ?thesis by (auto simp: desc_def)
qed

lemma desc_down:
  "dbpriv_find_object db c = Some ob \<Longrightarrow> o_parent ob \<in> desc db p \<Longrightarrow> c \<in> desc db p"
proof -
  assume c: "dbpriv_find_object db c = Some ob" and "o_parent ob \<in> desc db p"
  then obtain as where "chain o_parent db (o_parent ob) as" "p \<in> set as" by (auto simp: desc_def)
  with c have "chain o_parent db c (c # as)" "p \<in> set (c # as)" by auto
  then show ?thesis unfolding desc_def by blast
qed

lemma desc_not_up:
  "dbpriv_find_object db c = Some ob \<Longrightarrow> o_parent ob \<notin> desc db c"
proof
  assume c: "dbpriv_find_object db c = Some ob" and "o_parent ob \<in> desc db c"
  then obtain as where as: "chain o_parent db (o_parent ob) as" "c \<in> set as" by (auto simp: desc_def)
  with c have "chain o_parent db c (c # as)" by simp
  with as(2) chain_distinct show False by fastforce
qed

lemma desc_insert:
  assumes "inherit_ok db" "valid db p"
  shows "desc db p = insert p (\<Union>c\<in>below o_parent db p. desc db c)"
proof (intro equalityI subsetI)
  fix y assume "y \<in> desc db p"
  then obtain as where as: "chain o_parent db y as" "p \<in> set as" by (auto simp: desc_def)
  from as show "y \<in> insert p (\<Union>c\<in>below o_parent db p. desc db c)"
  proof (induction as arbitrary: y)
    case (Cons a as)
    from Cons.prems(1) obtain ob where a: "y = a" "dbpriv_find_object db a = Some ob"
      "chain o_parent db (o_parent ob) as" by (rule chain_ConsE)
    show ?case
    proof (cases "a = p")
      case False
      with Cons.prems(2) have "p \<in> set as" by simp
      with Cons.IH [OF a(3)] consider "o_parent ob = p" | c where "c \<in> below o_parent db p"
        "o_parent ob \<in> desc db c" by auto
      then show ?thesis
      proof cases
        case 1
        with a have "a \<in> below o_parent db p" by (simp add: below_def)
        moreover have "a \<in> desc db a" using desc_self [OF assms(1) validI [OF a(2)]] .
        ultimately show ?thesis using a(1) by blast
      next
        case 2
        then have "a \<in> desc db c" by (intro desc_down [OF a(2)])
        with 2 a(1) show ?thesis by blast
      qed
    qed (use a in simp)
  qed simp
next
  fix y assume "y \<in> insert p (\<Union>c\<in>below o_parent db p. desc db c)"
  then consider "y = p" | c ob where "dbpriv_find_object db c = Some ob" "o_parent ob = p" "y \<in> desc db c"
    by (auto simp: below_def)
  then show "y \<in> desc db p"
    by cases (use desc_self assms in \<open>auto dest: desc_up\<close>)
qed

lemma desc_disjoint:
  assumes "c \<in> below o_parent db p" "d \<in> below o_parent db p" "c \<noteq> d"
  shows "desc db c \<inter> desc db d = {}"
proof -
  have False if y: "chain o_parent db y as" "c \<in> set as" "d \<in> set as" for y as
    using y
  proof (induction as arbitrary: y)
    case (Cons a as)
    from Cons.prems(1) obtain ob where a: "y = a" "dbpriv_find_object db a = Some ob"
      "chain o_parent db (o_parent ob) as" by (rule chain_ConsE)
    consider "a = c" | "a = d" | "c \<in> set as" "d \<in> set as" using Cons.prems(2,3) by auto
    then show ?case
    proof cases
      case 1
      with a assms Cons.prems(3) have "o_parent ob = p" "p \<in> desc db d"
        by (auto simp: below_def desc_def)
      with assms(2) desc_not_up [of db d] show False by (auto simp: below_def)
    next
      case 2
      with a assms Cons.prems(2) have "o_parent ob = p" "p \<in> desc db c"
        by (auto simp: below_def desc_def)
      with assms(1) desc_not_up [of db c] show False by (auto simp: below_def)
    next
      case 3
      with Cons.IH [OF a(3)] show False by simp
    qed
  qed simp
  then show ?thesis unfolding desc_def using chain_unique by blast
qed

section \<open>Induction along the loops over children\<close>

text \<open>
  The recursive functions loop over a list of siblings and recurse into the
  children of each; the rule has one case per turn of the loop.
\<close>

lemma forest_induct [consumes 4, case_names stop turn]:
  assumes ok: "inherit_ok db" and "valid db p"
    and "chain o_sibling db c cs" "set cs \<subseteq> below o_parent db p"
    and stop: "\<And>p. P p NOTHING []"
    and turn: "\<And>p c ob cs ds. \<lbrakk>dbpriv_find_object db c = Some ob; c \<in> below o_parent db p;
        c \<notin> set cs; set cs \<subseteq> below o_parent db p; children_are db c ds;
        set ds = below o_parent db c; P c (o_child ob) ds; P p (o_sibling ob) cs\<rbrakk>
      \<Longrightarrow> P p c (c # cs)"
  shows "P p c cs"
  using assms(2-4)
proof (induction "card (desc db p)" arbitrary: p c cs rule: less_induct)
  case less
  from less.prems(2,3) show ?case
  proof (induction cs arbitrary: c)
    case Nil
    then show ?case using stop by simp
  next
    case (Cons x cs)
    from Cons.prems(1) obtain ob where x: "c = x" "dbpriv_find_object db x = Some ob"
      "chain o_sibling db (o_sibling ob) cs" by (rule chain_ConsE)
    obtain ds where ds: "children_are db x ds" using tree_ok_kids_ex [OF ok validI [OF x(2)]] by blast
    then have sds: "set ds = below o_parent db x" by (rule tree_ok_kids [OF ok])
    have xp: "x \<in> below o_parent db p" using Cons.prems(2) by simp
    have "desc db x \<subseteq> desc db p" using desc_insert [OF ok less.prems(1)] xp by blast
    moreover have "p \<in> desc db p" "p \<notin> desc db x"
      using desc_self [OF ok less.prems(1)] desc_not_up x(2) xp by (auto simp: below_def)
    ultimately have "desc db x \<subset> desc db p" by blast
    then have "card (desc db x) < card (desc db p)" by (rule psubset_card_mono [OF finite_desc])
    then have "P x (o_child ob) ds"
      by (rule less.hyps) (use ds sds x in \<open>auto simp: kids_are_def valid_def\<close>)
    moreover have "P p (o_sibling ob) cs" by (rule Cons.IH [OF x(3)]) (use Cons.prems in auto)
    moreover have "x \<notin> set cs" using chain_distinct [OF Cons.prems(1)] by simp
    ultimately show ?case using turn x xp Cons.prems(2) ds sds by simp
  qed
qed

section \<open>The state a walk leaves behind\<close>

text \<open>\<open>patch db V f\<close> is \<open>db\<close> with the slot array of each \<open>y \<in> V\<close> changed by \<open>f y\<close>.\<close>

definition patch :: "db \<Rightarrow> objid set \<Rightarrow> (objid \<Rightarrow> pval list \<Rightarrow> pval list) \<Rightarrow> db" where
  "patch db V f =
     db\<lparr>objects := (\<lambda>y. if y \<in> V then map_option (o_propval_update (f y)) (objects db y)
                        else objects db y)\<rparr>"

lemma find_patch:
  "dbpriv_find_object (patch db V f) y =
     (if y \<in> V then map_option (o_propval_update (f y)) (dbpriv_find_object db y)
      else dbpriv_find_object db y)"
  by (simp add: patch_def dbpriv_find_object_def)

lemma find_patch_ex:
  "dbpriv_find_object db y = Some ob \<Longrightarrow>
   \<exists>pvs. dbpriv_find_object (patch db V f) y = Some (ob\<lparr>o_propval := pvs\<rparr>)
       \<and> pvs = (if y \<in> V then f y (o_propval ob) else o_propval ob)"
  by (cases ob) (simp add: find_patch object.defs)

lemma patch_empty [simp]: "patch db {} f = db"
  by (simp add: patch_def)

lemma patch_extend:
  assumes "dbpriv_find_object db c = Some ob" "c \<notin> V"
  shows "modify_obj (patch db V f) c (\<lambda>ob'. ob'\<lparr>o_propval := f c (o_propval ob)\<rparr>)
       = Some (patch db (insert c V) f)"
proof -
  have "dbpriv_find_object (patch db V f) c = Some ob" using assms by (simp add: find_patch)
  moreover have "objects db c = Some ob"
    using assms(1) by (simp add: dbpriv_find_object_def split: if_splits)
  ultimately show ?thesis using assms(2)
    by (auto simp: modify_obj_Some patch_def fun_eq_iff intro!: db.equality object.equality)
qed

lemma patch_find_rel:
  assumes "\<And>ob pvs. nx (ob\<lparr>o_propval := pvs\<rparr>) = nx ob"
  shows "map_option nx (dbpriv_find_object (patch db V f) y) = map_option nx (dbpriv_find_object db y)"
proof (cases "dbpriv_find_object db y")
  case (Some ob)
  with find_patch_ex [OF Some, of V f] assms show ?thesis by auto
qed (simp add: find_patch)

lemma chain_map_option_cong:
  assumes "\<And>y. map_option nx (dbpriv_find_object db' y) = map_option nx (dbpriv_find_object db y)"
  shows "chain nx db' c xs \<longleftrightarrow> chain nx db c xs"
proof (induction xs arbitrary: c)
  case (Cons x xs)
  have "map_option nx (dbpriv_find_object db' x) = map_option nx (dbpriv_find_object db x)" by (rule assms)
  then have "(\<exists>ob. dbpriv_find_object db' x = Some ob \<and> chain nx db' (nx ob) xs) \<longleftrightarrow>
        (\<exists>ob. dbpriv_find_object db x = Some ob \<and> chain nx db (nx ob) xs)"
    using Cons.IH by (cases "dbpriv_find_object db' x"; cases "dbpriv_find_object db x") auto
  then show ?case by simp
qed simp

lemma chain_patch [simp]:
  "chain o_parent (patch db V f) c xs = chain o_parent db c xs"
  "chain o_sibling (patch db V f) c xs = chain o_sibling db c xs"
  "chain o_location (patch db V f) c xs = chain o_location db c xs"
  "chain o_next (patch db V f) c xs = chain o_next db c xs"
  by (rule chain_map_option_cong, rule patch_find_rel, simp)+

text \<open>Every object has the same \<open>f\<close> before and after.\<close>

definition keeps :: "(object \<Rightarrow> 'a) \<Rightarrow> db \<Rightarrow> db \<Rightarrow> bool" where
  "keeps f db db' \<longleftrightarrow>
     (\<forall>y. map_option f (dbpriv_find_object db' y) = map_option f (dbpriv_find_object db y))"

lemma keeps_refl [simp]: "keeps f db db"
  by (simp add: keeps_def)

lemma keeps_trans: "keeps f db db1 \<Longrightarrow> keeps f db1 db2 \<Longrightarrow> keeps f db db2"
  by (simp add: keeps_def)

lemma keeps_via:
  assumes "keeps f db db'" "\<And>ob. g ob = h (f ob)"
  shows "keeps g db db'"
proof -
  have "map_option h (map_option f (dbpriv_find_object db' y)) = map_option h (map_option f (dbpriv_find_object db y))" for y
    using assms(1) by (simp only: keeps_def)
  moreover have "g = h \<circ> f" using assms(2) by (simp add: fun_eq_iff)
  ultimately show ?thesis by (simp add: keeps_def option.map_comp)
qed

lemma keeps_put:
  "dbpriv_find_object db x = Some ob \<Longrightarrow> f ob' = f ob \<Longrightarrow>
   keeps f db (db\<lparr>objects := (objects db)(x \<mapsto> ob')\<rparr>)"
  by (simp add: keeps_def)

lemma keeps_same: "dbpriv_find_object db' = dbpriv_find_object db \<Longrightarrow> keeps f db db'"
  by (simp add: keeps_def)

lemma keeps_patch: "(\<And>ob pvs. f (ob\<lparr>o_propval := pvs\<rparr>) = f ob) \<Longrightarrow> keeps f db (patch db V g)"
  unfolding keeps_def by (intro allI patch_find_rel)

lemma keeps_frame:
  assumes "link_frame first nx up core P N U db db'" "\<And>ob ob'. core ob' = core ob \<Longrightarrow> f ob' = f ob"
  shows "keeps f db db'"
  unfolding keeps_def
proof
  fix y
  show "map_option f (dbpriv_find_object db' y) = map_option f (dbpriv_find_object db y)"
  proof (cases "dbpriv_find_object db y")
    case None
    with link_frame_valid [OF assms(1), of y] show ?thesis by (simp add: valid_def)
  next
    case (Some ob)
    with link_frame_find [OF assms(1) Some] assms(2) show ?thesis by (metis option.simps(9))
  qed
qed

lemma keeps_valid: "keeps f db db' \<Longrightarrow> valid db' x = valid db x"
  unfolding keeps_def valid_def by (metis map_option_is_None)

lemma patch_rest: "patch db V f = db\<lparr>objects := objects (patch db V f)\<rparr>"
  by (simp add: patch_def)

lemma valid_patch [simp]: "valid (patch db V f) y = valid db y"
  by (auto simp: valid_def find_patch)

text \<open>One turn of the loop, in patched states.\<close>

lemma prop_walk_turn:
  assumes c: "dbpriv_find_object db c = Some ob"
    and s: "step (patch db V f) c k = Some (patch db W f)"
    and w: "prop_walk step (patch db W f) (o_child ob) (cur_length ob + k) = Some (patch db X f)"
  shows "prop_walk step (patch db V f) c k = prop_walk step (patch db X f) (o_sibling ob) k"
proof -
  obtain o0 o1 o2 where
    "dbpriv_find_object (patch db V f) c = Some o0" "cur_length o0 = cur_length ob"
    "dbpriv_find_object (patch db W f) c = Some o1" "o_child o1 = o_child ob"
    "dbpriv_find_object (patch db X f) c = Some o2" "o_sibling o2 = o_sibling ob"
    using find_patch_ex [OF c] by (fastforce simp: cur_length_def)
  with find_not_NOTHING [OF c] s w show ?thesis by (subst prop_walk.simps) simp
qed

text \<open>
  A step that changes the slots of one child, and the offset that is handed
  down: after the walk every descendant has been changed once.
\<close>

definition walks ::
  "db \<Rightarrow> objid \<Rightarrow> (db \<Rightarrow> objid \<Rightarrow> nat \<Rightarrow> db option) \<Rightarrow> (objid \<Rightarrow> nat) \<Rightarrow>
   (objid \<Rightarrow> pval list \<Rightarrow> pval list) \<Rightarrow> bool" where
  "walks db p step off f \<longleftrightarrow>
     (\<forall>V c ob. dbpriv_find_object db c = Some ob \<longrightarrow> c \<in> desc db p \<longrightarrow> c \<noteq> p \<longrightarrow> c \<notin> V \<longrightarrow> o_parent ob \<in> V \<longrightarrow>
        step (patch db V f) c (off (o_parent ob)) = Some (patch db (insert c V) f)) \<and>
     (\<forall>c ob. dbpriv_find_object db c = Some ob \<longrightarrow> c \<in> desc db p \<longrightarrow> c \<noteq> p \<longrightarrow>
        off c = cur_length ob + off (o_parent ob))"

lemma prop_walk_forest:
  assumes ok: "inherit_ok db"
    and w: "walks db p step off f"
    and q: "valid db q" "chain o_sibling db c cs" "set cs \<subseteq> below o_parent db q"
  shows "q \<in> desc db p \<longrightarrow> q \<in> V \<longrightarrow> V \<inter> (\<Union>x\<in>set cs. desc db x) = {} \<longrightarrow>
      prop_walk step (patch db V f) c (off q) = Some (patch db (V \<union> (\<Union>x\<in>set cs. desc db x)) f)"
  using ok q
proof (induction arbitrary: V rule: forest_induct)
  case (stop q)
  then show ?case by (simp add: prop_walk.simps)
next
  case (turn q c ob cs ds)
  show ?case
  proof (intro impI)
    assume q: "q \<in> desc db p" "q \<in> V" and dj: "V \<inter> (\<Union>x\<in>set (c # cs). desc db x) = {}"
    have up: "o_parent ob = q" using turn.hyps(1,2) by (auto simp: below_def)
    have dc: "desc db c = insert c (\<Union>x\<in>set ds. desc db x)"
      using desc_insert [OF ok validI [OF turn.hyps(1)]] turn.hyps(6) by simp
    have cV: "c \<notin> V" using dj dc by auto
    have cp: "c \<in> desc db p" by (rule desc_down [OF turn.hyps(1)]) (simp add: up q(1))
    have cnp: "c \<noteq> p" using turn.hyps(1) up desc_not_up q(1) by blast
    have s: "step (patch db V f) c (off q) = Some (patch db (insert c V) f)"
      using w turn.hyps(1) cV up q cp cnp by (auto simp: walks_def)
    have oc: "off c = cur_length ob + off q"
      using w turn.hyps(1) cp cnp up by (auto simp: walks_def)
    have "c \<notin> (\<Union>x\<in>set ds. desc db x)"
      using turn.hyps(6) desc_not_up by (fastforce simp: below_def)
    then have w1: "prop_walk step (patch db (insert c V) f) (o_child ob) (cur_length ob + off q)
        = Some (patch db (V \<union> desc db c) f)"
      using turn.IH(1) [of "insert c V"] cp dj dc oc by auto
    have "desc db c \<inter> (\<Union>x\<in>set cs. desc db x) = {}"
      using desc_disjoint turn.hyps(2-4) by fastforce
    then have "prop_walk step (patch db (V \<union> desc db c) f) (o_sibling ob) (off q)
        = Some (patch db (V \<union> desc db c \<union> (\<Union>x\<in>set cs. desc db x)) f)"
      using turn.IH(2) [of "V \<union> desc db c"] q dj by auto
    then show "prop_walk step (patch db V f) c (off q) =
        Some (patch db (V \<union> (\<Union>x\<in>set (c # cs). desc db x)) f)"
      by (simp add: prop_walk_turn [where V = V, OF turn.hyps(1) s w1] Un_assoc)
  qed
qed

lemma prop_walk_patch:
  assumes ok: "inherit_ok db" and p: "dbpriv_find_object db p = Some po" and V: "V \<inter> desc db p = {p}"
    and w: "walks db p step off f"
  shows "prop_walk step (patch db V f) (o_child po) (off p) = Some (patch db (V \<union> desc db p) f)"
proof -
  have vp: "valid db p" using p by (rule validI)
  obtain cs where cs: "children_are db p cs" using tree_ok_kids_ex [OF ok vp] by blast
  then have ch: "chain o_sibling db (o_child po) cs" using p by (simp add: kids_are_def)
  have scs: "set cs = below o_parent db p" by (rule tree_ok_kids [OF ok cs])
  let ?U = "\<Union>x\<in>set cs. desc db x"
  have d: "desc db p = insert p ?U" using desc_insert [OF ok vp] scs by simp
  have "p \<notin> ?U" using scs desc_not_up by (fastforce simp: below_def)
  with V d have V': "p \<in> V" "V \<inter> ?U = {}" by auto
  have "prop_walk step (patch db V f) (o_child po) (off p) = Some (patch db (V \<union> ?U) f)"
    using prop_walk_forest [OF ok w vp ch] scs V' desc_self [OF ok vp] by blast
  moreover have "V \<union> desc db p = V \<union> ?U" using d V' by auto
  ultimately show ?thesis by simp
qed

section \<open>The slots of an object\<close>

text \<open>
  A slot belongs to the object that defines the property and to the definition.
  \<open>slots\<close> lists them in the order of the value array, and \<open>ptab\<close> is the table
  that the array stands for.
\<close>

type_synonym slot_id = "objid \<times> propdef"

definition propdefs_of :: "db \<Rightarrow> objid \<Rightarrow> propdef list" where
  "propdefs_of db x = (case dbpriv_find_object db x of None \<Rightarrow> [] | Some ob \<Rightarrow> pl_l (o_propdefs ob))"

primrec slots_along :: "db \<Rightarrow> objid list \<Rightarrow> slot_id list" where
  "slots_along db [] = []"
| "slots_along db (a # as) = map (Pair a) (propdefs_of db a) @ slots_along db as"

definition slots :: "db \<Rightarrow> objid \<Rightarrow> slot_id list" where
  "slots db x = slots_along db (chain_from o_parent db x)"

definition propvals_of :: "db \<Rightarrow> objid \<Rightarrow> pval list" where
  "propvals_of db x = (case dbpriv_find_object db x of None \<Rightarrow> [] | Some ob \<Rightarrow> o_propval ob)"

definition ptab :: "db \<Rightarrow> objid \<Rightarrow> slot_id \<rightharpoonup> pval" where
  "ptab db x = map_of (zip (slots db x) (propvals_of db x))"

definition slot_name :: "slot_id \<Rightarrow> int list" where
  "slot_name s = fold_case (pd_name (snd s))"

definition pd_ok :: "propdef \<Rightarrow> bool" where
  "pd_ok pd \<longleftrightarrow> pd_hash pd = str_hash (pd_name pd) \<and> nul_free (pd_name pd) \<and> find_builtin (pd_name pd) = None"

definition props_ok_at :: "db \<Rightarrow> objid \<Rightarrow> object \<Rightarrow> bool" where
  "props_ok_at db x ob \<longleftrightarrow>
     o_id ob = x \<and> length (pl_l (o_propdefs ob)) \<le> pl_max_length (o_propdefs ob)
   \<and> list_all pd_ok (pl_l (o_propdefs ob))
   \<and> length (o_propval ob) = length (slots db x)
   \<and> distinct (map slot_name (slots db x))
   \<and> list_all (\<lambda>pv. pv_var pv \<noteq> TYPE_CLEAR) (take (cur_length ob) (o_propval ob))"

definition props_ok :: "db \<Rightarrow> bool" where
  "props_ok db \<longleftrightarrow> (\<forall>x ob. dbpriv_find_object db x = Some ob \<longrightarrow> props_ok_at db x ob)"

lemma ancestor_induct [consumes 2, case_names root up]:
  assumes ok: "inherit_ok db" and x: "x = NOTHING \<or> valid db x"
    and root: "P NOTHING"
    and up: "\<And>x ob. dbpriv_find_object db x = Some ob \<Longrightarrow> P (o_parent ob) \<Longrightarrow> P x"
  shows "P x"
proof -
  obtain as where "chain o_parent db x as"
  proof (cases "x = NOTHING")
    case False
    with x ok tree_ok_ancestors that show thesis by blast
  qed (use that [of "[]"] in simp)
  then show ?thesis
  proof (induction as arbitrary: x)
    case Nil
    with root show ?case by simp
  next
    case (Cons a as)
    then obtain ob where "x = a" "dbpriv_find_object db a = Some ob" "chain o_parent db (o_parent ob) as"
      by (auto elim: chain_ConsE)
    with Cons.IH up show ?case by blast
  qed
qed

lemma chain_from_NOTHING [simp]: "chain_from nx db NOTHING = []"
  by (rule chain_from_eq) simp

lemma chain_from_step:
  assumes "inherit_ok db" "dbpriv_find_object db x = Some ob"
  shows "chain_from o_parent db x = x # chain_from o_parent db (o_parent ob)"
proof -
  obtain as where "chain o_parent db x as"
    using tree_ok_ancestors [OF assms(1) validI [OF assms(2)]] by blast
  with assms(2) obtain bs where "chain o_parent db (o_parent ob) bs" "chain o_parent db x (x # bs)"
    by (cases as) auto
  then show ?thesis by (simp add: chain_from_eq del: chain.simps)
qed

lemma slots_NOTHING [simp]: "slots db NOTHING = []"
  by (simp add: slots_def)

lemma slots_step:
  "inherit_ok db \<Longrightarrow> dbpriv_find_object db x = Some ob \<Longrightarrow>
   slots db x = map (Pair x) (pl_l (o_propdefs ob)) @ slots db (o_parent ob)"
  by (simp add: slots_def chain_from_step propdefs_of_def)

lemma chain_chain_from:
  "inherit_ok db \<Longrightarrow> valid db x \<Longrightarrow> chain o_parent db x (chain_from o_parent db x)"
  using tree_ok_ancestors chain_from_eq by metis

lemma parent_ok:
  "inherit_ok db \<Longrightarrow> dbpriv_find_object db x = Some ob \<Longrightarrow> o_parent ob = NOTHING \<or> valid db (o_parent ob)"
  by (rule tree_ok_up)

lemma props_okD: "props_ok db \<Longrightarrow> dbpriv_find_object db x = Some ob \<Longrightarrow> props_ok_at db x ob"
  by (simp add: props_ok_def)

lemma count_properties_slots:
  assumes "inherit_ok db" "x = NOTHING \<or> valid db x"
  shows "dbpriv_count_properties db x = Some (length (slots db x))"
proof -
  have "\<forall>n. count_props_loop db x n = Some (n + length (slots db x))"
    using assms
  proof (induction rule: ancestor_induct)
    case root
    then show ?case by (simp add: count_props_loop.simps)
  next
    case (up x ob)
    then show ?case
      by (subst count_props_loop.simps) (simp add: slots_step [OF assms(1)] cur_length_def)
  qed
  then show ?thesis by (simp add: dbpriv_count_properties_def)
qed

text \<open>The slots of an ancestor are a final part of the slots of a descendant.\<close>

lemma slots_pd_ok:
  assumes "inherit_ok db" "props_ok db" "x = NOTHING \<or> valid db x"
  shows "list_all (\<lambda>s. pd_ok (snd s)) (slots db x)"
  using assms(1,3)
proof (induction rule: ancestor_induct)
  case (up x ob)
  with props_okD [OF assms(2) up(1)] show ?case
    by (simp add: slots_step [OF assms(1)] props_ok_at_def list.pred_map comp_def)
qed simp

lemma propdef_is_name:
  "pd_ok pd \<Longrightarrow> nul_free name \<Longrightarrow>
   propdef_is (str_hash name) name pd \<longleftrightarrow> fold_case (pd_name pd) = fold_case name"
  using hash_guard [of "pd_name pd" name] by (auto simp: propdef_is_def pd_ok_def)

section \<open>Where a name is defined\<close>

definition defines_prop :: "db \<Rightarrow> objid \<Rightarrow> string \<Rightarrow> bool" where
  "defines_prop db x name \<longleftrightarrow> (\<exists>pd \<in> set (propdefs_of db x). fold_case (pd_name pd) = fold_case name)"

lemma find_index_None: "find_index P xs = None \<longleftrightarrow> \<not> (\<exists>x \<in> set xs. P x)"
  by (induction xs) auto

lemma find_index_Some:
  "find_index P xs = Some i \<Longrightarrow> i < length xs \<and> P (xs ! i) \<and> (\<forall>j<i. \<not> P (xs ! j))"
proof (induction xs arbitrary: i)
  case (Cons x xs)
  then show ?case
    by (cases i) (auto split: if_splits simp: less_Suc_eq_0_disj)
qed simp

lemma find_index_append:
  "find_index P (xs @ ys) =
     (case find_index P xs of Some i \<Rightarrow> Some i
      | None \<Rightarrow> map_option (\<lambda>i. length xs + i) (find_index P ys))"
  by (induction xs) (cases "find_index P ys"; auto split: option.splits)+

lemma find_index_map: "find_index P (map f xs) = find_index (P \<circ> f) xs"
  by (induction xs) auto

lemma find_index_cong: "(\<And>x. x \<in> set xs \<Longrightarrow> P x = Q x) \<Longrightarrow> find_index P xs = find_index Q xs"
  by (induction xs) auto

lemma defines_find_index:
  assumes "props_ok db" "nul_free name" "dbpriv_find_object db x = Some ob"
  shows "find_index (propdef_is (str_hash name) name) (pl_l (o_propdefs ob)) = None \<longleftrightarrow> \<not> defines_prop db x name"
  using props_okD [OF assms(1,3)] assms(2,3)
  by (auto simp: find_index_None defines_prop_def propdefs_of_def props_ok_at_def list_all_iff propdef_is_name)

lemma property_defined_at_or_below_spec:
  assumes ok: "inherit_ok db" "props_ok db" and n: "nul_free name" and x: "valid db x"
  shows "property_defined_at_or_below name (str_hash name) db x = Some (\<exists>y \<in> desc db x. defines_prop db y name)"
proof -
  have loop: "defined_in_kids name (str_hash name) db c = Some (\<exists>x\<in>set cs. \<exists>y\<in>desc db x. defines_prop db y name)"
    if "valid db q" "chain o_sibling db c cs" "set cs \<subseteq> below o_parent db q" for q c cs
    using ok(1) that
  proof (induction rule: forest_induct)
    case (stop q)
    then show ?case by (simp add: defined_in_kids.simps)
  next
    case (turn q c ob cs ds)
    have dc: "desc db c = insert c (\<Union>x\<in>set ds. desc db x)"
      using desc_insert [OF ok(1) validI [OF turn.hyps(1)]] turn.hyps(6) by simp
    show ?case
      using turn.hyps(1) turn.IH find_not_NOTHING [OF turn.hyps(1)]
        defines_find_index [OF ok(2) n turn.hyps(1)]
      by (subst defined_in_kids.simps) (auto simp: dc)
  qed
  from x obtain ob where ob: "dbpriv_find_object db x = Some ob" by (rule validE)
  obtain cs where cs: "children_are db x cs" using tree_ok_kids_ex [OF ok(1) x] by blast
  then have "chain o_sibling db (o_child ob) cs" using ob by (simp add: kids_are_def)
  moreover have scs: "set cs = below o_parent db x" by (rule tree_ok_kids [OF ok(1) cs])
  ultimately show ?thesis
    using loop [OF x] ob defines_find_index [OF ok(2) n ob] desc_insert [OF ok(1) x]
    by (auto simp: property_defined_at_or_below_def)
qed

section \<open>Lookup\<close>

text \<open>
  The meaning of reading a property, on the tables: a clear slot stands for
  the value of the parent.
\<close>

inductive prop_value :: "db \<Rightarrow> slot_id \<Rightarrow> objid \<Rightarrow> var \<Rightarrow> bool" for db s where
  own: "ptab db x s = Some pv \<Longrightarrow> pv_var pv \<noteq> TYPE_CLEAR \<Longrightarrow> prop_value db s x (pv_var pv)"
| inherited: "ptab db x s = Some pv \<Longrightarrow> pv_var pv = TYPE_CLEAR \<Longrightarrow> dbpriv_find_object db x = Some ob \<Longrightarrow>
    prop_value db s (o_parent ob) v \<Longrightarrow> prop_value db s x v"

lemma prop_value_unique: "prop_value db s x v \<Longrightarrow> prop_value db s x w \<Longrightarrow> v = w"
proof (induction rule: prop_value.induct)
  case (own x pv)
  from own.prems own.hyps show ?case by cases auto
next
  case (inherited x pv ob v)
  from inherited.prems show ?case using inherited.hyps inherited.IH by cases auto
qed

lemma ptab_nth:
  assumes "props_ok db" "dbpriv_find_object db x = Some ob" "n < length (slots db x)"
  shows "ptab db x (slots db x ! n) = Some (o_propval ob ! n)"
  using props_okD [OF assms(1,2)] assms(2,3)
  by (simp add: ptab_def propvals_of_def props_ok_at_def distinct_map map_of_zip_nth)

lemma clear_loop_value:
  assumes ok: "inherit_ok db" "props_ok db" and x: "x = NOTHING \<or> valid db x"
    and n: "n < length (slots db x)"
  shows "\<exists>v. clear_loop db x n = Some v \<and> prop_value db (slots db x ! n) x v"
proof -
  have "\<forall>n < length (slots db x). \<exists>v. clear_loop db x n = Some v \<and> prop_value db (slots db x ! n) x v"
    using ok(1) x
  proof (induction rule: ancestor_induct)
    case (up x ob)
    note ob = up(1) and sl = slots_step [OF ok(1) up(1)] and pok = props_okD [OF ok(2) up(1)]
    show ?case
    proof (intro allI impI)
      fix n assume n: "n < length (slots db x)"
      let ?pv = "o_propval ob ! n"
      have nth: "nth_opt (o_propval ob) n = Some ?pv" using n pok by (simp add: nth_opt_def props_ok_at_def)
      have tab: "ptab db x (slots db x ! n) = Some ?pv" using ptab_nth [OF ok(2) ob n] .
      show "\<exists>v. clear_loop db x n = Some v \<and> prop_value db (slots db x ! n) x v"
      proof (cases "pv_var ?pv = TYPE_CLEAR")
        case False
        then show ?thesis using ob nth prop_value.own [OF tab]
          by (subst clear_loop.simps) simp
      next
        case True
        have cl: "cur_length ob \<le> n"
        proof (rule ccontr)
          assume "\<not> cur_length ob \<le> n"
          then show False using pok True n
            by (auto simp: props_ok_at_def list_all_length)
        qed
        then have sn: "slots db x ! n = slots db (o_parent ob) ! (n - cur_length ob)"
          by (simp add: sl nth_append cur_length_def)
        have "n - cur_length ob < length (slots db (o_parent ob))"
          using n cl by (simp add: sl cur_length_def)
        with up(2) obtain v where v: "clear_loop db (o_parent ob) (n - cur_length ob) = Some v"
          "prop_value db (slots db x ! n) (o_parent ob) v" unfolding sn by blast
        then show ?thesis using ob nth True cl prop_value.inherited [OF tab True ob]
          by (subst clear_loop.simps) auto
      qed
    qed
  qed simp
  with n show ?thesis by blast
qed

lemma find_prop_loop_spec:
  assumes ok: "inherit_ok db" "props_ok db" and n: "nul_free name" and x: "x = NOTHING \<or> valid db x"
  shows "find_prop_loop db (str_hash name) name x k =
     Some (map_option (\<lambda>i. (fst (slots db x ! i), k + i))
             (find_index (\<lambda>s. slot_name s = fold_case name) (slots db x)))"
proof -
  have "\<forall>k. find_prop_loop db (str_hash name) name x k =
     Some (map_option (\<lambda>i. (fst (slots db x ! i), k + i))
             (find_index (\<lambda>s. slot_name s = fold_case name) (slots db x)))"
    using ok(1) x
  proof (induction rule: ancestor_induct)
    case root
    then show ?case by (simp add: find_prop_loop.simps)
  next
    case (up x ob)
    note ob = up(1) and pok = props_okD [OF ok(2) up(1)]
    have id: "o_id ob = x" using pok by (simp add: props_ok_at_def)
    let ?pds = "pl_l (o_propdefs ob)" and ?P = "\<lambda>s. slot_name s = fold_case name"
    have "find_index (propdef_is (str_hash name) name) ?pds = find_index (?P \<circ> Pair x) ?pds"
      using pok n by (intro find_index_cong) (auto simp: props_ok_at_def list_all_iff slot_name_def propdef_is_name)
    with up(2) id show ?case
      by (subst find_prop_loop.simps)
         (auto simp: ob slots_step [OF ok(1) ob] find_index_append find_index_map cur_length_def nth_append
             option.map_comp comp_def add.assoc
           split: option.splits dest!: find_index_Some)
  qed
  then show ?thesis by blast
qed

section \<open>Changing the definitions of one object\<close>

text \<open>What the layout depends on: the links, the definitions, the numbers.\<close>

definition tree_links :: "object \<Rightarrow> objid \<times> objid \<times> objid" where
  "tree_links ob = (o_child ob, o_sibling ob, o_parent ob)"

definition same_tree :: "db \<Rightarrow> db \<Rightarrow> bool" where
  "same_tree db db' \<longleftrightarrow>
     (\<forall>y. map_option tree_links (dbpriv_find_object db' y) = map_option tree_links (dbpriv_find_object db y))"

lemma same_tree_field:
  assumes "same_tree db db'" "\<And>ob. nx ob = g (tree_links ob)"
  shows "map_option nx (dbpriv_find_object db' y) = map_option nx (dbpriv_find_object db y)"
proof -
  have "map_option g (map_option tree_links (dbpriv_find_object db' y)) =
        map_option g (map_option tree_links (dbpriv_find_object db y))"
    using assms(1) by (simp only: same_tree_def)
  moreover have "nx = g \<circ> tree_links" using assms(2) by (simp add: fun_eq_iff)
  ultimately show ?thesis by (simp add: option.map_comp)
qed

lemma same_tree_fields:
  assumes "same_tree db db'"
  shows "map_option o_parent (dbpriv_find_object db' y) = map_option o_parent (dbpriv_find_object db y)"
    and "map_option o_child (dbpriv_find_object db' y) = map_option o_child (dbpriv_find_object db y)"
    and "map_option o_sibling (dbpriv_find_object db' y) = map_option o_sibling (dbpriv_find_object db y)"
  by (rule same_tree_field [OF assms, where g = "\<lambda>(a, b, c). c"], simp add: tree_links_def)
     (rule same_tree_field [OF assms, where g = "\<lambda>(a, b, c). a"], simp add: tree_links_def,
      rule same_tree_field [OF assms, where g = "\<lambda>(a, b, c). b"], simp add: tree_links_def)

lemma same_tree_valid: "same_tree db db' \<Longrightarrow> valid db' y = valid db y"
  unfolding same_tree_def valid_def by (metis map_option_is_None)

lemma same_tree_parent_chain: "same_tree db db' \<Longrightarrow> chain o_parent db' y = chain o_parent db y"
  by (rule ext) (rule chain_map_option_cong, rule same_tree_fields)

lemma same_tree_desc: "same_tree db db' \<Longrightarrow> desc db' x = desc db x"
  by (simp add: desc_def same_tree_parent_chain)

lemma same_tree_chain_from: "same_tree db db' \<Longrightarrow> chain_from o_parent db' x = chain_from o_parent db x"
  by (simp add: chain_from_def same_tree_parent_chain)

lemma tree_ok_fields:
  assumes f: "\<And>y. map_option first (dbpriv_find_object db' y) = map_option first (dbpriv_find_object db y)"
    and n: "\<And>y. map_option nx (dbpriv_find_object db' y) = map_option nx (dbpriv_find_object db y)"
    and u: "\<And>y. map_option up (dbpriv_find_object db' y) = map_option up (dbpriv_find_object db y)"
  shows "tree_ok first nx up db' \<longleftrightarrow> tree_ok first nx up db"
proof -
  have v: "valid db' x = valid db x" for x unfolding valid_def using f [of x] by (metis map_option_is_None)
  have nx: "chain nx db' c xs = chain nx db c xs" and up: "chain up db' c xs = chain up db c xs" for c xs
    by (rule chain_map_option_cong, rule n, rule chain_map_option_cong, rule u)
  have "kids_are first nx db' x cs \<longleftrightarrow> kids_are first nx db x cs" for x cs
    using f [of x] nx
    by (cases "dbpriv_find_object db x"; cases "dbpriv_find_object db' x") (auto simp: kids_are_def)
  moreover have "y \<in> below up db' x \<longleftrightarrow> y \<in> below up db x" for x y
    using u [of y]
    by (cases "dbpriv_find_object db y"; cases "dbpriv_find_object db' y") (auto simp: below_def)
  ultimately show ?thesis by (simp add: tree_ok_def v up set_eq_iff)
qed

lemma same_tree_ok: "same_tree db db' \<Longrightarrow> inherit_ok db' \<longleftrightarrow> inherit_ok db"
  by (intro tree_ok_fields same_tree_fields)

lemma same_tree_patch: "same_tree db (patch db V f)"
  by (simp add: same_tree_def find_patch option.map_comp comp_def tree_links_def [abs_def])

lemma same_tree_trans: "same_tree db db1 \<Longrightarrow> same_tree db1 db2 \<Longrightarrow> same_tree db db2"
  by (simp add: same_tree_def)

lemma same_tree_put:
  "dbpriv_find_object db x = Some xo \<Longrightarrow> tree_links xo' = tree_links xo \<Longrightarrow>
   same_tree db (db\<lparr>objects := (objects db)(x \<mapsto> xo')\<rparr>)"
  by (simp add: same_tree_def)

lemma slots_along_cong:
  "(\<And>a. a \<in> set as \<Longrightarrow> propdefs_of db' a = propdefs_of db a) \<Longrightarrow> slots_along db' as = slots_along db as"
  by (induction as) auto

lemma slots_cong:
  "same_tree db db' \<Longrightarrow> (\<And>a. a \<in> set (chain_from o_parent db y) \<Longrightarrow> propdefs_of db' a = propdefs_of db a) \<Longrightarrow>
   slots db' y = slots db y"
  unfolding slots_def by (simp add: same_tree_chain_from) (rule slots_along_cong)

lemma slots_patch [simp]: "slots (patch db V f) y = slots db y"
  by (rule slots_cong [OF same_tree_patch])
     (simp add: propdefs_of_def find_patch split: option.splits)

text \<open>The slots of a descendant before those of \<open>x\<close>.\<close>

definition pre :: "db \<Rightarrow> objid \<Rightarrow> objid \<Rightarrow> slot_id list" where
  "pre db x y = slots_along db (takeWhile (\<lambda>z. z \<noteq> x) (chain_from o_parent db y))"

lemma pre_self: "inherit_ok db \<Longrightarrow> valid db x \<Longrightarrow> pre db x x = []"
  by (erule validE) (simp add: pre_def chain_from_step)

lemma pre_step:
  "inherit_ok db \<Longrightarrow> dbpriv_find_object db y = Some ob \<Longrightarrow> y \<noteq> x \<Longrightarrow>
   pre db x y = map (Pair y) (pl_l (o_propdefs ob)) @ pre db x (o_parent ob)"
  by (simp add: pre_def chain_from_step propdefs_of_def)

lemma slots_along_append: "slots_along db (as @ bs) = slots_along db as @ slots_along db bs"
  by (induction as) auto

lemma slots_split:
  assumes ok: "inherit_ok db" and y: "y \<in> desc db x"
  shows "slots db y = pre db x y @ slots db x"
proof -
  obtain as where as: "chain o_parent db y as" "x \<in> set as" using y by (auto simp: desc_def)
  let ?us = "takeWhile (\<lambda>z. z \<noteq> x) as"
  obtain vs where s: "as = ?us @ x # vs"
    using as(2) by (metis (mono_tags, lifting) dropWhile_eq_Cons_conv dropWhile_eq_Nil_conv
        list.exhaust takeWhile_dropWhile_id)
  with as(1) have "chain o_parent db x (x # vs)" by (metis chain_suffix_self)
  then have "chain_from o_parent db x = x # vs" by (rule chain_from_eq)
  moreover have "slots db y = slots_along db (?us @ x # vs)"
    using chain_from_eq [OF as(1)] s by (simp add: slots_def)
  ultimately show ?thesis
    using chain_from_eq [OF as(1)] by (simp add: slots_def pre_def slots_along_append)
qed

lemma desc_iff: "inherit_ok db \<Longrightarrow> valid db y \<Longrightarrow> y \<in> desc db x \<longleftrightarrow> x \<in> set (chain_from o_parent db y)"
  unfolding desc_def using chain_chain_from chain_unique by blast

text \<open>Replacing the definitions of \<open>x\<close> changes one segment of the slots of its descendants.\<close>

lemma redefine_slots:
  assumes ok: "inherit_ok db" and x: "dbpriv_find_object db x = Some xo"
    and db1: "db1 = db\<lparr>objects := (objects db)(x \<mapsto> xo\<lparr>o_propdefs := pl\<rparr>)\<rparr>"
  shows "same_tree db db1"
    and "y \<in> desc db x \<Longrightarrow> slots db1 y = pre db x y @ map (Pair x) (pl_l pl) @ slots db (o_parent xo)"
    and "valid db y \<Longrightarrow> y \<notin> desc db x \<Longrightarrow> slots db1 y = slots db y"
    and "pre db1 x y = pre db x y"
proof -
  show st: "same_tree db db1" unfolding db1 by (rule same_tree_put [OF x]) (simp add: tree_links_def)
  have pd: "propdefs_of db1 a = propdefs_of db a" if "a \<noteq> x" for a
    using x that by (simp add: propdefs_of_def db1)
  show "slots db1 y = slots db y" if "valid db y" "y \<notin> desc db x"
    using that desc_iff [OF ok] by (intro slots_cong [OF st] pd) auto
  show pre: "pre db1 x y = pre db x y"
    unfolding pre_def same_tree_chain_from [OF st]
    by (rule slots_along_cong) (auto dest: set_takeWhileD intro: pd)
  assume y: "y \<in> desc db x"
  have ok1: "inherit_ok db1" using same_tree_ok [OF st] ok by simp
  have x1: "dbpriv_find_object db1 x = Some (xo\<lparr>o_propdefs := pl\<rparr>)" using x by (simp add: db1)
  have "slots db1 (o_parent xo) = slots db (o_parent xo)"
  proof (cases "o_parent xo = NOTHING")
    case False
    with tree_ok_up [OF ok x] have "valid db (o_parent xo)" by simp
    with desc_not_up [OF x] desc_iff [OF ok] show ?thesis by (intro slots_cong [OF st] pd) auto
  qed simp
  moreover have "slots db1 y = pre db1 x y @ slots db1 x"
    using slots_split [OF ok1] y same_tree_desc [OF st] by simp
  ultimately show "slots db1 y = pre db x y @ map (Pair x) (pl_l pl) @ slots db (o_parent xo)"
    using slots_step [OF ok1 x1] pre by simp
qed

end
