(* ===== verification/PropOps.thy ===== *)
theory PropOps
  imports PropLayout
begin

text \<open>
  The operations on property definitions keep the layout and act on the tables
  of all objects as a map update: adding a definition adds one entry, deleting
  removes one, renaming changes a key.
\<close>

section \<open>Inserting a slot everywhere\<close>

definition chowned :: "object \<Rightarrow> pval \<Rightarrow> pval" where
  "chowned ob pv = (if and (pv_perms pv) PF_CHOWN \<noteq> 0 then pv\<lparr>pv_owner := o_owner ob\<rparr> else pv)"

lemma count_patch:
  "inherit_ok db \<Longrightarrow> valid db c \<Longrightarrow> dbpriv_count_properties (patch db V f) c = Some (length (slots db c))"
  using count_properties_slots [of "patch db V f" c] same_tree_ok [OF same_tree_patch, of db V f] by simp

lemma insert_prop_patch:
  assumes ok: "inherit_ok db" and c: "dbpriv_find_object db c = Some ob" "c \<notin> V"
    and len: "length (slots db c) = Suc (length (o_propval ob))" and pos: "pos \<le> length (o_propval ob)"
    and f: "f c (o_propval ob) = insert_at pos (chowned ob pv) (o_propval ob)"
  shows "insert_prop (patch db V f) c pos pv = Some (patch db (insert c V) f)"
proof -
  have c': "dbpriv_find_object (patch db V f) c = Some ob" using c by (simp add: find_patch)
  have "insert_prop (patch db V f) c pos pv =
      modify_obj (patch db V f) c (\<lambda>ob'. ob'\<lparr>o_propval := f c (o_propval ob)\<rparr>)"
    using c' len pos unfolding f
    by (simp add: insert_prop_def count_patch [OF ok validI [OF c(1)]] chowned_def insert_at_def Let_def)
  then show ?thesis using patch_extend [OF c] by simp
qed

lemma remove_prop_patch:
  assumes ok: "inherit_ok db" and c: "dbpriv_find_object db c = Some ob" "c \<notin> V"
    and len: "Suc (length (slots db c)) = length (o_propval ob)" and pos: "pos < length (o_propval ob)"
    and f: "f c (o_propval ob) = delete_at pos (o_propval ob)"
  shows "remove_prop (patch db V f) c pos = Some (patch db (insert c V) f)"
proof -
  have c': "dbpriv_find_object (patch db V f) c = Some ob" using c by (simp add: find_patch)
  have n: "length (slots db c) = length (o_propval ob) - 1" using len by simp
  have le: "pos \<le> length (o_propval ob) - 1" "length (o_propval ob) - 1 < length (o_propval ob)"
    using pos by linarith+
  have "remove_prop (patch db V f) c pos =
      modify_obj (patch db V f) c (\<lambda>ob'. ob'\<lparr>o_propval := f c (o_propval ob)\<rparr>)"
    using c' pos le unfolding f
    by (simp add: remove_prop_def count_patch [OF ok validI [OF c(1)]] delete_at_def Let_def n)
  then show ?thesis using patch_extend [OF c] by simp
qed

text \<open>The offset handed down below \<open>x\<close> when the entry is number \<open>i\<close> of \<open>x\<close> itself.\<close>

definition slot_off :: "db \<Rightarrow> objid \<Rightarrow> nat \<Rightarrow> objid \<Rightarrow> nat" where
  "slot_off db x i y = length (pre db x y) + i"

lemma slot_off_self: "inherit_ok db \<Longrightarrow> valid db x \<Longrightarrow> slot_off db x i x = i"
  by (simp add: slot_off_def pre_self)

lemma slot_off_step:
  "inherit_ok db \<Longrightarrow> dbpriv_find_object db c = Some ob \<Longrightarrow> c \<noteq> x \<Longrightarrow>
   slot_off db x i c = cur_length ob + slot_off db x i (o_parent ob)"
  by (simp add: slot_off_def pre_step cur_length_def)

lemma walk_all:
  assumes ok: "inherit_ok db" and x: "dbpriv_find_object db x = Some xo"
    and root: "root_step db = Some (patch db {x} f)"
    and step: "\<And>V c ob. dbpriv_find_object db c = Some ob \<Longrightarrow> c \<in> desc db x \<Longrightarrow> c \<noteq> x \<Longrightarrow> c \<notin> V \<Longrightarrow>
        o_parent ob \<in> V \<Longrightarrow> step (patch db V f) c (slot_off db x i (o_parent ob)) = Some (patch db (insert c V) f)"
  shows "do { db1 \<leftarrow> root_step db; ob \<leftarrow> dbpriv_find_object db1 x; prop_walk step db1 (o_child ob) i }
       = Some (patch db (desc db x) f)"
proof -
  have self: "x \<in> desc db x" using desc_self [OF ok validI [OF x]] .
  have "walks db x step (slot_off db x i) f"
    using step slot_off_step [OF ok] by (simp add: walks_def)
  from prop_walk_patch [OF ok x _ this, of "{x}"] self
  have "prop_walk step (patch db {x} f) (o_child xo) (slot_off db x i x) = Some (patch db (desc db x) f)"
    by (simp add: insert_absorb)
  moreover obtain ob where "dbpriv_find_object (patch db {x} f) x = Some ob" "o_child ob = o_child xo"
    using find_patch_ex [OF x] by fastforce
  ultimately show ?thesis using root slot_off_self [OF ok validI [OF x]] by simp
qed

lemma slot_off_bound:
  assumes ok: "inherit_ok db" and x: "dbpriv_find_object db x = Some xo" and y: "y \<in> desc db x"
    and i: "i \<le> cur_length xo"
  shows "slot_off db x i y \<le> length (slots db y)"
    and "i < cur_length xo \<Longrightarrow> slot_off db x i y < length (slots db y)"
  using slots_split [OF ok y] slots_step [OF ok x] i by (simp_all add: slot_off_def cur_length_def)

text \<open>One more definition of \<open>x\<close>, at the end; one less, at position \<open>i\<close>.\<close>

lemma slots_added:
  assumes ok: "inherit_ok db" and x: "dbpriv_find_object db x = Some xo"
    and db1: "db1 = db\<lparr>objects := (objects db)(x \<mapsto> xo\<lparr>o_propdefs := pl\<rparr>)\<rparr>"
    and pl: "pl_l pl = pl_l (o_propdefs xo) @ [pd]" and y: "y \<in> desc db x"
  shows "slots db1 y = insert_at (slot_off db x (cur_length xo) y) (x, pd) (slots db y)"
proof -
  let ?own = "map (Pair x) (pl_l (o_propdefs xo))" and ?rest = "slots db (o_parent xo)"
  have "slots db y = (pre db x y @ ?own) @ ?rest"
    using slots_split [OF ok y] slots_step [OF ok x] by simp
  moreover have "slot_off db x (cur_length xo) y = length (pre db x y @ ?own)"
    by (simp add: slot_off_def cur_length_def)
  moreover have "slots db1 y = (pre db x y @ ?own) @ (x, pd) # ?rest"
    using redefine_slots(2) [OF ok x db1 y] pl by simp
  ultimately show ?thesis by (simp add: insert_at_def)
qed

lemma slots_deleted:
  assumes ok: "inherit_ok db" and x: "dbpriv_find_object db x = Some xo"
    and db1: "db1 = db\<lparr>objects := (objects db)(x \<mapsto> xo\<lparr>o_propdefs := pl\<rparr>)\<rparr>"
    and pl: "pl_l pl = delete_at i (pl_l (o_propdefs xo))" and i: "i < cur_length xo" and y: "y \<in> desc db x"
  shows "slots db1 y = delete_at (slot_off db x i y) (slots db y)"
proof -
  let ?own = "map (Pair x) (pl_l (o_propdefs xo))" and ?rest = "slots db (o_parent xo)"
  have "slots db y = pre db x y @ ?own @ ?rest"
    using slots_split [OF ok y] slots_step [OF ok x] by simp
  moreover have "delete_at i (?own @ ?rest) = delete_at i ?own @ ?rest"
    using i by (simp add: delete_at_def cur_length_def)
  moreover have "slots db1 y = pre db x y @ delete_at i ?own @ ?rest"
    using redefine_slots(2) [OF ok x db1 y] pl by (simp add: map_delete_at)
  ultimately show ?thesis by (simp add: slot_off_def delete_at_append)
qed

definition new_slot :: "db \<Rightarrow> objid \<Rightarrow> pval \<Rightarrow> objid \<Rightarrow> pval" where
  "new_slot db x pv y =
     chowned (the (dbpriv_find_object db y)) (if y = x then pv else pv\<lparr>pv_var := TYPE_CLEAR\<rparr>)"

lemma insert_recursively_patch:
  fixes pv :: pval
  assumes ok: "inherit_ok db" "props_ok db" and x: "dbpriv_find_object db x = Some xo"
    and db1: "db1 = db\<lparr>objects := (objects db)(x \<mapsto> xo\<lparr>o_propdefs := pl\<rparr>)\<rparr>"
    and pl: "pl_l pl = pl_l (o_propdefs xo) @ [pd]"
  defines "f \<equiv> \<lambda>y. insert_at (slot_off db x (cur_length xo) y) (new_slot db x pv y)"
  shows "insert_prop_recursively db1 x (cur_length xo) pv = Some (patch db1 (desc db x) f)"
proof -
  note st = redefine_slots(1) [OF ok(1) x db1]
  have ok1: "inherit_ok db1" using same_tree_ok [OF st] ok(1) by simp
  let ?i = "cur_length xo"
  have f1: "dbpriv_find_object db1 y = (if y = x then Some (xo\<lparr>o_propdefs := pl\<rparr>) else dbpriv_find_object db y)" for y
    using x by (simp add: db1)
  have x1: "dbpriv_find_object db1 x = Some (xo\<lparr>o_propdefs := pl\<rparr>)" by (simp add: f1)
  have off1: "slot_off db1 x ?i y = slot_off db x ?i y" for y
    by (simp add: slot_off_def redefine_slots(4) [OF ok(1) x db1])
  have ins: "insert_prop (patch db1 V f) c (slot_off db x ?i c) (if c = x then pv else pv\<lparr>pv_var := TYPE_CLEAR\<rparr>)
      = Some (patch db1 (insert c V) f)"
    if c: "dbpriv_find_object db1 c = Some ob" "c \<in> desc db x" "c \<notin> V" for V c ob
  proof -
    obtain oc where oc: "dbpriv_find_object db c = Some oc" "o_propval ob = o_propval oc" "o_owner ob = o_owner oc"
      using c(1) x by (auto simp: f1 split: if_splits)
    have len: "length (slots db c) = length (o_propval ob)"
      using props_okD [OF ok(2) oc(1)] oc(2) by (simp add: props_ok_at_def)
    show ?thesis
      using slots_added [OF ok(1) x db1 pl c(2)] slot_off_bound(1) [OF ok(1) x c(2)] len oc
      by (intro insert_prop_patch [OF ok1 c(1,3)]) (auto simp: f_def new_slot_def chowned_def)
  qed
  have "insert_prop db1 x ?i pv = Some (patch db1 {x} f)"
    using ins [OF x1 desc_self [OF ok(1) validI [OF x]], of "{}"] slot_off_self [OF ok(1) validI [OF x]] by simp
  moreover have "insert_prop_step (pv\<lparr>pv_var := TYPE_CLEAR\<rparr>) (patch db1 V f) c (slot_off db1 x ?i (o_parent ob))
      = Some (patch db1 (insert c V) f)"
    if "dbpriv_find_object db1 c = Some ob" "c \<in> desc db1 x" "c \<noteq> x" "c \<notin> V" for V c ob
    using ins [OF that(1) _ that(4)] that slot_off_step [OF ok1 that(1,3), of ?i] same_tree_desc [OF st]
    by (simp add: insert_prop_step_def find_patch off1)
  ultimately show ?thesis
    using walk_all [OF ok1 x1, of "\<lambda>d. insert_prop d x ?i pv" f] same_tree_desc [OF st]
    by (simp add: insert_prop_recursively_def)
qed

lemma remove_recursively_patch:
  assumes ok: "inherit_ok db" "props_ok db" and x: "dbpriv_find_object db x = Some xo"
    and db1: "db1 = db\<lparr>objects := (objects db)(x \<mapsto> xo\<lparr>o_propdefs := pl\<rparr>)\<rparr>"
    and pl: "pl_l pl = delete_at i (pl_l (o_propdefs xo))" and i: "i < cur_length xo"
  shows "remove_prop_recursively db1 x i = Some (patch db1 (desc db x) (\<lambda>y. delete_at (slot_off db x i y)))"
proof -
  let ?f = "\<lambda>y. delete_at (slot_off db x i y)"
  note st = redefine_slots(1) [OF ok(1) x db1]
  have ok1: "inherit_ok db1" using same_tree_ok [OF st] ok(1) by simp
  have f1: "dbpriv_find_object db1 y = (if y = x then Some (xo\<lparr>o_propdefs := pl\<rparr>) else dbpriv_find_object db y)" for y
    using x by (simp add: db1)
  have x1: "dbpriv_find_object db1 x = Some (xo\<lparr>o_propdefs := pl\<rparr>)" by (simp add: f1)
  have off1: "slot_off db1 x i y = slot_off db x i y" for y
    by (simp add: slot_off_def redefine_slots(4) [OF ok(1) x db1])
  have rem: "remove_prop (patch db1 V ?f) c (slot_off db x i c) = Some (patch db1 (insert c V) ?f)"
    if c: "dbpriv_find_object db1 c = Some ob" "c \<in> desc db x" "c \<notin> V" for V c ob
  proof -
    obtain oc where oc: "dbpriv_find_object db c = Some oc" "o_propval ob = o_propval oc"
      using c(1) x by (auto simp: f1 split: if_splits)
    have len: "length (slots db c) = length (o_propval ob)"
      using props_okD [OF ok(2) oc(1)] oc(2) by (simp add: props_ok_at_def)
    show ?thesis
      using slots_deleted [OF ok(1) x db1 pl i c(2)] slot_off_bound(2) [OF ok(1) x c(2), of i] i len
      by (intro remove_prop_patch [OF ok1 c(1,3)]) auto
  qed
  have "remove_prop db1 x i = Some (patch db1 {x} ?f)"
    using rem [OF x1 desc_self [OF ok(1) validI [OF x]], of "{}"] slot_off_self [OF ok(1) validI [OF x]] by simp
  moreover have "remove_prop_step (patch db1 V ?f) c (slot_off db1 x i (o_parent ob))
      = Some (patch db1 (insert c V) ?f)"
    if "dbpriv_find_object db1 c = Some ob" "c \<in> desc db1 x" "c \<noteq> x" "c \<notin> V" for V c ob
    using rem [OF that(1) _ that(4)] that slot_off_step [OF ok1 that(1,3), of i] same_tree_desc [OF st]
    by (simp add: remove_prop_step_def find_patch off1)
  ultimately show ?thesis
    using walk_all [OF ok1 x1, of "\<lambda>d. remove_prop d x i" ?f] same_tree_desc [OF st]
    by (simp add: remove_prop_recursively_def)
qed

section \<open>Names above and below\<close>

lemma slot_names_along:
  "fold_case name \<in> slot_name ` set (slots_along db as) \<longleftrightarrow> (\<exists>a \<in> set as. defines_prop db a name)"
proof (induction as)
  case (Cons a as)
  have "fold_case name \<in> slot_name ` set (map (Pair a) (propdefs_of db a)) \<longleftrightarrow> defines_prop db a name"
    by (force simp: slot_name_def defines_prop_def)
  with Cons.IH show ?case by (simp add: image_Un)
qed simp

lemma slot_names:
  "fold_case name \<in> slot_name ` set (slots db x) \<longleftrightarrow>
   (\<exists>a \<in> set (chain_from o_parent db x). defines_prop db a name)"
  unfolding slots_def by (rule slot_names_along)

lemma between_desc:
  assumes y: "y \<in> desc db x" and z: "z \<in> set (takeWhile (\<lambda>z. z \<noteq> x) (chain_from o_parent db y))"
  shows "z \<in> desc db x"
proof -
  obtain as where as: "chain o_parent db y as" "x \<in> set as" using y by (auto simp: desc_def)
  from z as(1) have "z \<in> set (takeWhile (\<lambda>z. z \<noteq> x) as)" by (simp add: chain_from_eq)
  then obtain us vs where s: "takeWhile (\<lambda>z. z \<noteq> x) as = us @ z # vs" by (meson split_list)
  then have as': "as = us @ z # vs @ dropWhile (\<lambda>z. z \<noteq> x) as"
    using takeWhile_dropWhile_id [of "\<lambda>z. z \<noteq> x" as] by simp
  have "x \<notin> set (takeWhile (\<lambda>z. z \<noteq> x) as)" by (auto dest: set_takeWhileD)
  with as(2) have "x \<in> set (dropWhile (\<lambda>z. z \<noteq> x) as)"
    by (metis Un_iff set_append takeWhile_dropWhile_id)
  moreover have "chain o_parent db z (z # vs @ dropWhile (\<lambda>z. z \<noteq> x) as)"
    using as(1) as' by (metis chain_suffix_self)
  ultimately show ?thesis unfolding desc_def by fastforce
qed

lemma pre_names:
  "y \<in> desc db x \<Longrightarrow> fold_case name \<in> slot_name ` set (pre db x y) \<Longrightarrow>
   \<exists>z \<in> desc db x. defines_prop db z name"
  unfolding pre_def slot_names_along using between_desc by blast

lemma fresh_below:
  assumes ok: "inherit_ok db"
    and up: "\<not> (\<exists>a \<in> set (chain_from o_parent db x). defines_prop db a name)"
    and down: "\<not> (\<exists>y \<in> desc db x. defines_prop db y name)" and y: "y \<in> desc db x"
  shows "fold_case name \<notin> slot_name ` set (slots db y)"
  using slots_split [OF ok y] pre_names [OF y] up down slot_names [of name db x] by auto

section \<open>Tables after an insertion or deletion\<close>

lemma ptab_inserted:
  assumes "slots db' y = insert_at i s (slots db y)" "propvals_of db' y = insert_at i pv (propvals_of db y)"
    "length (propvals_of db y) = length (slots db y)" "i \<le> length (slots db y)" "s \<notin> set (slots db y)"
  shows "ptab db' y = (ptab db y)(s \<mapsto> pv)"
  using assms by (simp add: ptab_def zip_insert_at map_of_insert_at set_map [symmetric] del: set_map)

lemma ptab_deleted:
  assumes "slots db' y = delete_at i (slots db y)" "propvals_of db' y = delete_at i (propvals_of db y)"
    "length (propvals_of db y) = length (slots db y)" "i < length (slots db y)" "distinct (slots db y)"
  shows "ptab db' y = (ptab db y)(slots db y ! i := None)"
  using assms by (simp add: ptab_def zip_delete_at map_of_delete_at)

section \<open>Finding a property\<close>

lemma db_find_property_absent:
  assumes "inherit_ok db" "props_ok db" "nul_free name" "valid db x" "find_builtin name = None"
    and "fold_case name \<notin> slot_name ` set (slots db x)"
  shows "db_find_property want db x name = Some (No_prop, None)"
proof -
  have "find_index (\<lambda>s. slot_name s = fold_case name) (slots db x) = None"
    using assms(6) by (auto simp: find_index_None image_iff)
  with assms show ?thesis by (simp add: db_find_property_def find_prop_loop_spec)
qed

lemma db_find_property_present:
  assumes "inherit_ok db" "props_ok db" "nul_free name" "valid db x" "find_builtin name = None"
    and "fold_case name \<in> slot_name ` set (slots db x)"
  shows "\<exists>n v. n < length (slots db x) \<and> slot_name (slots db x ! n) = fold_case name
      \<and> prop_value db (slots db x ! n) x v
      \<and> db_find_property want db x name =
          Some (Prop_slot (fst (slots db x ! n)) x n, if want then Some v else None)"
proof -
  let ?P = "\<lambda>s. slot_name s = fold_case name"
  have "find_index ?P (slots db x) \<noteq> None"
    using assms(6) by (auto simp: find_index_None image_iff)
  then obtain n where n: "find_index ?P (slots db x) = Some n" by blast
  then have n': "n < length (slots db x)" "?P (slots db x ! n)" by (auto dest: find_index_Some)
  from clear_loop_value [OF assms(1,2) _ n'(1)] assms(4) obtain v where
    "clear_loop db x n = Some v" "prop_value db (slots db x ! n) x v" by blast
  with n n' assms(1-5) show ?thesis
    by (intro exI [of _ n] exI [of _ v]) (simp add: db_find_property_def find_prop_loop_spec)
qed

lemma db_find_property_builtin:
  "find_builtin name = Some bi \<Longrightarrow> db_find_property False db x name = Some (Builtin bi x, None)"
  by (simp add: db_find_property_def)

lemma db_find_property_No_prop:
  assumes "inherit_ok db" "props_ok db" "nul_free name" "valid db x"
  obtains h where "db_find_property False db x name = Some (h, None)"
    "h = No_prop \<longleftrightarrow> find_builtin name = None \<and> fold_case name \<notin> slot_name ` set (slots db x)"
proof (cases "find_builtin name")
  case None
  show thesis
  proof (cases "fold_case name \<in> slot_name ` set (slots db x)")
    case True
    from db_find_property_present [OF assms None True, of False] show thesis
      using that True by fastforce
  next
    case False
    with db_find_property_absent [OF assms None False, of False] None that show thesis by simp
  qed
qed (use that in \<open>auto simp: db_find_property_builtin\<close>)

section \<open>Adding a definition\<close>

text \<open>All that an operation on definitions leaves alone.\<close>

definition prop_rest :: "object \<Rightarrow> object" where
  "prop_rest ob = ob\<lparr>o_propdefs := \<lparr>pl_max_length = 0, pl_l = []\<rparr>, o_propval := []\<rparr>"

definition only_props :: "db \<Rightarrow> db \<Rightarrow> bool" where
  "only_props db db' \<longleftrightarrow> db' = db\<lparr>objects := objects db'\<rparr> \<and> keeps prop_rest db db'"

lemma only_propsI:
  assumes x: "dbpriv_find_object db x = Some xo"
    and db1: "db1 = db\<lparr>objects := (objects db)(x \<mapsto> xo\<lparr>o_propdefs := pl\<rparr>)\<rparr>"
  shows "only_props db db1" "only_props db (patch db1 V f)"
proof -
  have k: "keeps prop_rest db db1" unfolding db1 by (rule keeps_put [OF x]) (simp add: prop_rest_def)
  then show "only_props db db1" by (simp add: only_props_def db1)
  have "keeps prop_rest db1 (patch db1 V f)" by (rule keeps_patch) (simp add: prop_rest_def)
  from keeps_trans [OF k this] show "only_props db (patch db1 V f)" by (simp add: only_props_def patch_def db1)
qed

definition can_define :: "db \<Rightarrow> objid \<Rightarrow> string \<Rightarrow> bool" where
  "can_define db x name \<longleftrightarrow> find_builtin name = None
     \<and> \<not> (\<exists>a \<in> set (chain_from o_parent db x). defines_prop db a name)
     \<and> \<not> (\<exists>y \<in> desc db x. defines_prop db y name)"

lemma slots_edited:
  fixes f :: "objid \<Rightarrow> pval list \<Rightarrow> pval list"
  assumes ok: "inherit_ok db" and x: "dbpriv_find_object db x = Some xo"
    and db1: "db1 = db\<lparr>objects := (objects db)(x \<mapsto> xo\<lparr>o_propdefs := pl\<rparr>)\<rparr>"
    and y: "dbpriv_find_object db y = Some ob"
  defines "db' \<equiv> patch db1 (desc db x) f"
  defines "pvs \<equiv> (if y \<in> desc db x then f y (o_propval ob) else o_propval ob)"
  shows "inherit_ok db'" "slots db' z = slots db1 z"
    and "dbpriv_find_object db' y =
           Some (ob\<lparr>o_propdefs := if y = x then pl else o_propdefs ob, o_propval := pvs\<rparr>)"
    and "y \<notin> desc db x \<Longrightarrow> ptab db' y = ptab db y"
proof -
  note st = redefine_slots(1) [OF ok x db1]
  show "inherit_ok db'" unfolding db'_def using same_tree_ok [OF same_tree_trans [OF st same_tree_patch]] ok by simp
  show sl: "slots db' z = slots db1 z" for z by (simp add: db'_def)
  show find': "dbpriv_find_object db' y =
      Some (ob\<lparr>o_propdefs := if y = x then pl else o_propdefs ob, o_propval := pvs\<rparr>)"
    using x y by (auto simp: db'_def pvs_def db1 find_patch)
  show "ptab db' y = ptab db y" if "y \<notin> desc db x"
    using find' y that sl redefine_slots(3) [OF ok x db1 validI [OF y] that]
    by (simp add: ptab_def propvals_of_def pvs_def)
qed

lemma own_slots_before:
  assumes "inherit_ok db" "dbpriv_find_object db y = Some ob" "y \<noteq> x"
  shows "cur_length ob \<le> slot_off db x i y"
  using slot_off_step [OF assms] by simp

lemma inserted_layout:
  fixes pv :: pval
  assumes ok: "inherit_ok db" "props_ok db" and x: "dbpriv_find_object db x = Some xo"
    and db1: "db1 = db\<lparr>objects := (objects db)(x \<mapsto> xo\<lparr>o_propdefs := pl\<rparr>)\<rparr>"
    and pl: "pl_l pl = pl_l (o_propdefs xo) @ [pd]"
    and can: "can_define db x (pd_name pd)" and y: "y \<in> desc db x" "dbpriv_find_object db y = Some ob"
  defines "db' \<equiv> patch db1 (desc db x) (\<lambda>y. insert_at (slot_off db x (cur_length xo) y) (new_slot db x pv y))"
  shows "slots db' y = insert_at (slot_off db x (cur_length xo) y) (x, pd) (slots db y)"
    and "length (o_propval ob) = length (slots db y)"
    and "slot_off db x (cur_length xo) y \<le> length (o_propval ob)"
    and "distinct (map slot_name (slots db' y))"
    and "ptab db' y = (ptab db y)((x, pd) \<mapsto> new_slot db x pv y)"
proof -
  let ?i = "slot_off db x (cur_length xo) y"
  have fresh: "fold_case (pd_name pd) \<notin> slot_name ` set (slots db y)"
    using can fresh_below [OF ok(1) _ _ y(1), of "pd_name pd"] by (simp add: can_define_def)
  show sl: "slots db' y = insert_at ?i (x, pd) (slots db y)"
    using slots_edited(2) [OF ok(1) x db1 y(2)] slots_added [OF ok(1) x db1 pl y(1)] by (simp add: db'_def)
  show len: "length (o_propval ob) = length (slots db y)"
    using props_okD [OF ok(2) y(2)] by (simp add: props_ok_at_def)
  show off: "?i \<le> length (o_propval ob)" using slot_off_bound(1) [OF ok(1) x y(1)] len by simp
  show "distinct (map slot_name (slots db' y))"
    using props_okD [OF ok(2) y(2)] fresh
    by (simp add: sl map_insert_at distinct_insert_at props_ok_at_def slot_name_def)
  have "(x, pd) \<notin> set (slots db y)" using fresh by (force simp: slot_name_def)
  moreover have "propvals_of db' y = insert_at ?i (new_slot db x pv y) (propvals_of db y)"
    using slots_edited(3) [OF ok(1) x db1 y(2)] y by (simp add: db'_def propvals_of_def)
  ultimately show "ptab db' y = (ptab db y)((x, pd) \<mapsto> new_slot db x pv y)"
    using ptab_inserted [OF sl, of "new_slot db x pv y"] y len off by (simp add: propvals_of_def)
qed

lemma inserted_props_ok:
  assumes ok: "inherit_ok db" "props_ok db" and x: "dbpriv_find_object db x = Some xo"
    and db1: "db1 = db\<lparr>objects := (objects db)(x \<mapsto> xo\<lparr>o_propdefs := pl\<rparr>)\<rparr>"
    and pl: "pl_l pl = pl_l (o_propdefs xo) @ [pd]" "length (pl_l pl) \<le> pl_max_length pl" "pd_ok pd"
    and can: "can_define db x (pd_name pd)" and pv: "pv_var pv \<noteq> TYPE_CLEAR"
  shows "props_ok (patch db1 (desc db x) (\<lambda>y. insert_at (slot_off db x (cur_length xo) y) (new_slot db x pv y)))"
    (is "props_ok ?db'")
  unfolding props_ok_def
proof (intro allI impI)
  fix y ob' assume y': "dbpriv_find_object ?db' y = Some ob'"
  then have "valid db y" using same_tree_valid [OF redefine_slots(1) [OF ok(1) x db1]]
    by (metis validI valid_patch)
  then obtain ob where y: "dbpriv_find_object db y = Some ob" by (rule validE)
  note old = props_okD [OF ok(2) y, unfolded props_ok_at_def]
  note ed = slots_edited(2,3) [OF ok(1) x db1 y]
  let ?i = "slot_off db x (cur_length xo) y"
  show "props_ok_at ?db' y ob'"
  proof (cases "y \<in> desc db x")
    case True
    note lay = inserted_layout [OF ok x db1 pl(1) can True y]
    have ob': "ob' = ob\<lparr>o_propdefs := if y = x then pl else o_propdefs ob,
        o_propval := insert_at ?i (new_slot db x pv y) (o_propval ob)\<rparr>"
      using y' ed(2) True by simp
    have "list_all (\<lambda>pv. pv_var pv \<noteq> TYPE_CLEAR) (take (cur_length ob') (o_propval ob'))"
    proof (cases "y = x")
      case True
      then have i: "?i = cur_length ob" "ob = xo" and new: "pv_var (new_slot db x pv y) \<noteq> TYPE_CLEAR"
        using slot_off_self [OF ok(1) validI [OF x]] x y pv by (auto simp: new_slot_def chowned_def)
      have "take (Suc (cur_length ob)) (insert_at (cur_length ob) v (o_propval ob)) =
          take (cur_length ob) (o_propval ob) @ [v]" for v
        using lay(3) i by (simp add: insert_at_def min_def)
      with True i old new pl(1) show ?thesis by (simp add: ob' cur_length_def)
    next
      case False
      with old lay(3) own_slots_before [OF ok(1) y False, of "cur_length xo"] show ?thesis
        by (simp add: ob' cur_length_def take_insert_at)
    qed
    with old lay pl x y show ?thesis by (auto simp: ob' props_ok_at_def)
  next
    case False
    then have "y \<noteq> x" using desc_self [OF ok(1) validI [OF x]] by auto
    then have "ob' = ob" using y' ed(2) False by (cases ob) simp
    moreover have "slots ?db' y = slots db y"
      using redefine_slots(3) [OF ok(1) x db1 validI [OF y] False] by simp
    ultimately show ?thesis using old by (simp add: props_ok_at_def)
  qed
qed

lemma grow_propdefs_room:
  "length (pl_l pl) \<le> pl_max_length pl \<Longrightarrow>
   pl_l (grow_propdefs pl) = pl_l pl \<and> Suc (length (pl_l pl)) \<le> pl_max_length (grow_propdefs pl)"
  by (auto simp: grow_propdefs_def)

lemma db_add_propdef_fail:
  assumes ok: "inherit_ok db" "props_ok db" and n: "nul_free pname" and x: "valid db x"
    and can: "\<not> can_define db x pname"
  shows "db_add_propdef db x pname value owner flags = Some (db, False)"
proof -
  obtain h where h: "db_find_property False db x pname = Some (h, None)"
    "h = No_prop \<longleftrightarrow> find_builtin pname = None \<and> fold_case pname \<notin> slot_name ` set (slots db x)"
    using db_find_property_No_prop [OF ok n x] .
  with can slot_names [of pname db x] show ?thesis
    by (auto simp: db_add_propdef_def can_define_def property_defined_at_or_below_spec [OF ok n x])
qed

lemma db_add_propdef_ok:
  fixes flags :: "16 word" and owner :: objid
  assumes ok: "inherit_ok db" "props_ok db" and n: "nul_free pname" and x: "valid db x"
    and can: "can_define db x pname" and v: "value \<noteq> TYPE_CLEAR"
  defines "pv \<equiv> \<lparr>pv_var = value, pv_owner = owner, pv_perms = flags\<rparr>"
  shows "\<exists>db'. db_add_propdef db x pname value owner flags = Some (db', True)
      \<and> only_props db db' \<and> inherit_ok db' \<and> props_ok db'
      \<and> (\<forall>y. valid db y \<longrightarrow> ptab db' y =
            (if y \<in> desc db x then (ptab db y)((x, dbpriv_new_propdef pname) \<mapsto> new_slot db x pv y)
             else ptab db y))"
proof -
  from x obtain xo where xo: "dbpriv_find_object db x = Some xo" by (rule validE)
  obtain h where h: "db_find_property False db x pname = Some (h, None)"
    "h = No_prop \<longleftrightarrow> find_builtin pname = None \<and> fold_case pname \<notin> slot_name ` set (slots db x)"
    using db_find_property_No_prop [OF ok n x] .
  define pd where "pd = dbpriv_new_propdef pname"
  define pl where "pl = (let g = grow_propdefs (o_propdefs xo) in g\<lparr>pl_l := pl_l g @ [pd]\<rparr>)"
  define db1 where "db1 = db\<lparr>objects := (objects db)(x \<mapsto> xo\<lparr>o_propdefs := pl\<rparr>)\<rparr>"
  let ?f = "\<lambda>y. insert_at (slot_off db x (cur_length xo) y) (new_slot db x pv y)"
  have "length (pl_l (o_propdefs xo)) \<le> pl_max_length (o_propdefs xo)"
    using props_okD [OF ok(2) xo] by (simp add: props_ok_at_def)
  from grow_propdefs_room [OF this]
  have pl: "pl_l pl = pl_l (o_propdefs xo) @ [pd]" "length (pl_l pl) \<le> pl_max_length pl"
    by (simp_all add: pl_def Let_def)
  have pdo: "pd_ok pd" and name: "pd_name pd = pname"
    using n can by (simp_all add: pd_def dbpriv_new_propdef_def pd_ok_def can_define_def)
  have "modify_obj db x (\<lambda>ob. let pl = grow_propdefs (o_propdefs ob)
        in ob\<lparr>o_propdefs := pl\<lparr>pl_l := pl_l pl @ [dbpriv_new_propdef pname]\<rparr>\<rparr>) = Some db1"
    by (simp add: modify_obj_Some [OF xo] db1_def pl_def pd_def Let_def)
  moreover have "insert_prop_recursively db1 x (cur_length xo) pv = Some (patch db1 (desc db x) ?f)"
    by (rule insert_recursively_patch [OF ok xo db1_def pl(1)])
  moreover have "dbpriv_find_object db1 x = Some (xo\<lparr>o_propdefs := pl\<rparr>)" using xo by (simp add: db1_def)
  ultimately have "db_add_propdef db x pname value owner flags = Some (patch db1 (desc db x) ?f, True)"
    using h can slot_names [of pname db x] pl(1)
    by (simp add: db_add_propdef_def can_define_def property_defined_at_or_below_spec [OF ok n x]
        pv_def [symmetric] cur_length_def)
  moreover have "props_ok (patch db1 (desc db x) ?f)"
    by (rule inserted_props_ok [OF ok xo db1_def pl pdo]) (use can v in \<open>simp_all add: name pv_def\<close>)
  moreover have "inherit_ok (patch db1 (desc db x) ?f)" by (rule slots_edited(1) [OF ok(1) xo db1_def xo])
  moreover have "ptab (patch db1 (desc db x) ?f) y =
      (if y \<in> desc db x then (ptab db y)((x, pd) \<mapsto> new_slot db x pv y) else ptab db y)" if "valid db y" for y
    using that inserted_layout(5) [OF ok xo db1_def pl(1)] slots_edited(4) [OF ok(1) xo db1_def] can
    by (auto simp: name elim!: validE)
  moreover have "only_props db (patch db1 (desc db x) ?f)" by (rule only_propsI(2) [OF xo db1_def])
  ultimately show ?thesis by (auto simp: pd_def)
qed

section \<open>Deleting a definition\<close>

lemma deleted_layout:
  assumes ok: "inherit_ok db" "props_ok db" and x: "dbpriv_find_object db x = Some xo"
    and db1: "db1 = db\<lparr>objects := (objects db)(x \<mapsto> xo\<lparr>o_propdefs := pl\<rparr>)\<rparr>"
    and pl: "pl_l pl = delete_at i (pl_l (o_propdefs xo))" and i: "i < cur_length xo"
    and y: "y \<in> desc db x" "dbpriv_find_object db y = Some ob"
  defines "db' \<equiv> patch db1 (desc db x) (\<lambda>y. delete_at (slot_off db x i y))"
  shows "slots db' y = delete_at (slot_off db x i y) (slots db y)"
    and "length (o_propval ob) = length (slots db y)"
    and "slot_off db x i y < length (o_propval ob)"
    and "ptab db' y = (ptab db y)((x, pl_l (o_propdefs xo) ! i) := None)"
proof -
  show sl: "slots db' y = delete_at (slot_off db x i y) (slots db y)"
    using slots_edited(2) [OF ok(1) x db1 y(2)] slots_deleted [OF ok(1) x db1 pl i y(1)] by (simp add: db'_def)
  show len: "length (o_propval ob) = length (slots db y)"
    using props_okD [OF ok(2) y(2)] by (simp add: props_ok_at_def)
  show off: "slot_off db x i y < length (o_propval ob)"
    using slot_off_bound(2) [OF ok(1) x y(1), of i] i len by simp
  have "slots db y ! slot_off db x i y = (x, pl_l (o_propdefs xo) ! i)"
    using slots_split [OF ok(1) y(1)] slots_step [OF ok(1) x] i
    by (simp add: slot_off_def nth_append cur_length_def)
  moreover have "distinct (slots db y)"
    using props_okD [OF ok(2) y(2)] by (simp add: props_ok_at_def distinct_map)
  moreover have "propvals_of db' y = delete_at (slot_off db x i y) (propvals_of db y)"
    using slots_edited(3) [OF ok(1) x db1 y(2)] y by (simp add: db'_def propvals_of_def)
  ultimately show "ptab db' y = (ptab db y)((x, pl_l (o_propdefs xo) ! i) := None)"
    using ptab_deleted [OF sl] y len off by (simp add: propvals_of_def)
qed

lemma deleted_props_ok:
  assumes ok: "inherit_ok db" "props_ok db" and x: "dbpriv_find_object db x = Some xo"
    and db1: "db1 = db\<lparr>objects := (objects db)(x \<mapsto> xo\<lparr>o_propdefs := pl\<rparr>)\<rparr>"
    and pl: "pl_l pl = delete_at i (pl_l (o_propdefs xo))" "length (pl_l pl) \<le> pl_max_length pl"
    and i: "i < cur_length xo"
  shows "props_ok (patch db1 (desc db x) (\<lambda>y. delete_at (slot_off db x i y)))" (is "props_ok ?db'")
  unfolding props_ok_def
proof (intro allI impI)
  fix y ob' assume y': "dbpriv_find_object ?db' y = Some ob'"
  then have "valid db y" using same_tree_valid [OF redefine_slots(1) [OF ok(1) x db1]]
    by (metis validI valid_patch)
  then obtain ob where y: "dbpriv_find_object db y = Some ob" by (rule validE)
  note old = props_okD [OF ok(2) y, unfolded props_ok_at_def]
  note ed = slots_edited(2,3) [OF ok(1) x db1 y]
  let ?i = "slot_off db x i y"
  show "props_ok_at ?db' y ob'"
  proof (cases "y \<in> desc db x")
    case True
    note lay = deleted_layout [OF ok x db1 pl(1) i True y]
    have ob': "ob' = ob\<lparr>o_propdefs := if y = x then pl else o_propdefs ob,
        o_propval := delete_at ?i (o_propval ob)\<rparr>"
      using y' ed(2) True by simp
    have "list_all (\<lambda>pv. pv_var pv \<noteq> TYPE_CLEAR) (take (cur_length ob') (o_propval ob'))"
    proof (cases "y = x")
      case True
      then have i': "?i = i" "ob = xo" using slot_off_self [OF ok(1) validI [OF x]] x y by auto
      have "take (cur_length xo - 1) (delete_at i (o_propval ob)) = delete_at i (take (cur_length xo) (o_propval ob))"
        using i lay(2) i' slots_step [OF ok(1) y] by (intro take_delete_at_own) (auto simp: cur_length_def)
      moreover have "cur_length ob' = cur_length xo - 1"
        using True i pl(1) i' by (simp add: ob' cur_length_def)
      ultimately show ?thesis using old i' by (simp add: ob' list_all_delete_at)
    next
      case False
      with old own_slots_before [OF ok(1) y False, of i] show ?thesis
        by (simp add: ob' cur_length_def take_delete_at)
    qed
    moreover have "list_all pd_ok (pl_l (o_propdefs ob'))"
      using old x y pl(1) by (auto simp: ob' list_all_delete_at)
    moreover have "distinct (map slot_name (slots ?db' y))"
      using old unfolding lay(1) map_delete_at by (intro distinct_delete_at) simp
    ultimately show ?thesis using old lay(1-3) pl(2) by (auto simp: ob' props_ok_at_def)
  next
    case False
    then have "y \<noteq> x" using desc_self [OF ok(1) validI [OF x]] by auto
    then have "ob' = ob" using y' ed(2) False by (cases ob) simp
    moreover have "slots ?db' y = slots db y"
      using redefine_slots(3) [OF ok(1) x db1 validI [OF y] False] by simp
    ultimately show ?thesis using old by (simp add: props_ok_at_def)
  qed
qed

lemma db_delete_propdef_fail:
  assumes "props_ok db" "nul_free pname" "valid db x" "\<not> defines_prop db x pname"
  shows "db_delete_propdef db x pname = Some (db, False)"
proof -
  from assms(3) obtain xo where xo: "dbpriv_find_object db x = Some xo" by (rule validE)
  with defines_find_index [OF assms(1,2) xo] assms(4) show ?thesis by (simp add: db_delete_propdef_def)
qed

lemma own_index:
  assumes "props_ok db" "nul_free name" "dbpriv_find_object db x = Some xo" "defines_prop db x name"
  obtains i where "find_index (propdef_is (str_hash name) name) (pl_l (o_propdefs xo)) = Some i"
    "i < cur_length xo" "fold_case (pd_name (pl_l (o_propdefs xo) ! i)) = fold_case name"
proof -
  obtain i where i: "find_index (propdef_is (str_hash name) name) (pl_l (o_propdefs xo)) = Some i"
    using defines_find_index [OF assms(1-3)] assms(4) by blast
  from find_index_Some [OF i] have "i < cur_length xo" "propdef_is (str_hash name) name (pl_l (o_propdefs xo) ! i)"
    by (auto simp: cur_length_def)
  with i that props_okD [OF assms(1,3)] assms(2) show thesis
    by (simp add: props_ok_at_def list_all_length cur_length_def propdef_is_name)
qed

lemma shrink_propdefs_room:
  "length (pl_l pl) \<le> pl_max_length pl \<Longrightarrow> i < length (pl_l pl) \<Longrightarrow>
   pl_l (shrink_propdefs i pl) = delete_at i (pl_l pl) \<and>
   length (pl_l (shrink_propdefs i pl)) \<le> pl_max_length (shrink_propdefs i pl)"
  by (auto simp: shrink_propdefs_def delete_at_def)

lemma db_delete_propdef_ok:
  assumes ok: "inherit_ok db" "props_ok db" and n: "nul_free pname" and x: "valid db x"
    and d: "defines_prop db x pname"
  shows "\<exists>db' pd. db_delete_propdef db x pname = Some (db', True)
      \<and> pd \<in> set (propdefs_of db x) \<and> fold_case (pd_name pd) = fold_case pname
      \<and> only_props db db' \<and> inherit_ok db' \<and> props_ok db'
      \<and> (\<forall>y. valid db y \<longrightarrow> ptab db' y =
            (if y \<in> desc db x then (ptab db y)((x, pd) := None) else ptab db y))"
proof -
  from x obtain xo where xo: "dbpriv_find_object db x = Some xo" by (rule validE)
  obtain i where i: "find_index (propdef_is (str_hash pname) pname) (pl_l (o_propdefs xo)) = Some i"
    "i < cur_length xo" "fold_case (pd_name (pl_l (o_propdefs xo) ! i)) = fold_case pname"
    using own_index [OF ok(2) n xo d] .
  define pl where "pl = shrink_propdefs i (o_propdefs xo)"
  define db1 where "db1 = db\<lparr>objects := (objects db)(x \<mapsto> xo\<lparr>o_propdefs := pl\<rparr>)\<rparr>"
  let ?db' = "patch db1 (desc db x) (\<lambda>y. delete_at (slot_off db x i y))" and ?pd = "pl_l (o_propdefs xo) ! i"
  have "length (pl_l (o_propdefs xo)) \<le> pl_max_length (o_propdefs xo)"
    using props_okD [OF ok(2) xo] by (simp add: props_ok_at_def)
  from shrink_propdefs_room [OF this, of i] i(2)
  have pl: "pl_l pl = delete_at i (pl_l (o_propdefs xo))" "length (pl_l pl) \<le> pl_max_length pl"
    unfolding pl_def cur_length_def by blast+
  have "modify_obj db x (\<lambda>ob. ob\<lparr>o_propdefs := shrink_propdefs i (o_propdefs ob)\<rparr>) = Some db1"
    by (simp add: modify_obj_Some [OF xo] db1_def pl_def)
  with remove_recursively_patch [OF ok xo db1_def pl(1) i(2)]
  have "db_delete_propdef db x pname = Some (?db', True)" by (simp add: db_delete_propdef_def xo i(1))
  moreover have "?pd \<in> set (propdefs_of db x)" using i(2) xo by (simp add: propdefs_of_def cur_length_def)
  moreover have "props_ok ?db'" by (rule deleted_props_ok [OF ok xo db1_def pl i(2)])
  moreover have "inherit_ok ?db'" by (rule slots_edited(1) [OF ok(1) xo db1_def xo])
  moreover have "ptab ?db' y = (if y \<in> desc db x then (ptab db y)((x, ?pd) := None) else ptab db y)"
    if "valid db y" for y
    using that deleted_layout(4) [OF ok xo db1_def pl(1) i(2)] slots_edited(4) [OF ok(1) xo db1_def]
    by (auto elim!: validE)
  moreover have "only_props db ?db'" by (rule only_propsI(2) [OF xo db1_def])
  ultimately show ?thesis using i(3) by blast
qed

section \<open>Renaming a definition\<close>

lemma slots_renamed:
  assumes ok: "inherit_ok db" and x: "dbpriv_find_object db x = Some xo"
    and db1: "db1 = db\<lparr>objects := (objects db)(x \<mapsto> xo\<lparr>o_propdefs := pl\<rparr>)\<rparr>"
    and pl: "pl_l pl = (pl_l (o_propdefs xo))[i := pd]" and i: "i < cur_length xo" and y: "y \<in> desc db x"
  shows "slots db1 y = (slots db y)[slot_off db x i y := (x, pd)]"
    and "slots db y ! slot_off db x i y = (x, pl_l (o_propdefs xo) ! i)"
proof -
  let ?own = "map (Pair x) (pl_l (o_propdefs xo))" and ?rest = "slots db (o_parent xo)"
  have s: "slots db y = pre db x y @ ?own @ ?rest"
    using slots_split [OF ok y] slots_step [OF ok x] by simp
  have "slots db1 y = pre db x y @ ?own[i := (x, pd)] @ ?rest"
    using redefine_slots(2) [OF ok x db1 y] pl by (simp add: map_update)
  with s i show "slots db1 y = (slots db y)[slot_off db x i y := (x, pd)]"
    by (simp add: slot_off_def list_update_append cur_length_def)
  show "slots db y ! slot_off db x i y = (x, pl_l (o_propdefs xo) ! i)"
    using s i by (simp add: slot_off_def nth_append cur_length_def)
qed

lemma renamed_ok:
  assumes ok: "inherit_ok db" "props_ok db" and x: "dbpriv_find_object db x = Some xo"
    and db1: "db1 = db\<lparr>objects := (objects db)(x \<mapsto> xo\<lparr>o_propdefs := pl\<rparr>)\<rparr>"
    and pl: "pl_l pl = (pl_l (o_propdefs xo))[i := pd]" "pl_max_length pl = pl_max_length (o_propdefs xo)"
    and i: "i < cur_length xo" and pd: "pd_ok pd"
    and can: "fold_case (pd_name pd) = fold_case (pd_name (pl_l (o_propdefs xo) ! i)) \<or> can_define db x (pd_name pd)"
  shows "props_ok db1"
    and "valid db y \<Longrightarrow> ptab db1 y =
      (if y \<in> desc db x
       then (ptab db y)((x, pl_l (o_propdefs xo) ! i) := None, (x, pd) := ptab db y (x, pl_l (o_propdefs xo) ! i))
       else ptab db y)"
proof -
  let ?pd = "pl_l (o_propdefs xo) ! i"
  have key: "slots db1 y = (slots db y)[slot_off db x i y := (x, pd)] \<and>
      slot_off db x i y < length (slots db y) \<and> slots db y ! slot_off db x i y = (x, ?pd) \<and>
      (slot_name (x, pd) = slot_name (x, ?pd) \<or> slot_name (x, pd) \<notin> slot_name ` set (slots db y))"
    if "y \<in> desc db x" for y
    using slots_renamed [OF ok(1) x db1 pl(1) i that] slot_off_bound(2) [OF ok(1) x that, of i] i can
      fresh_below [OF ok(1) _ _ that, of "pd_name pd"]
    by (auto simp: slot_name_def can_define_def)
  have find1: "dbpriv_find_object db1 y = (if y = x then Some (xo\<lparr>o_propdefs := pl\<rparr>) else dbpriv_find_object db y)" for y
    using x by (simp add: db1)
  have clen: "cur_length (xo\<lparr>o_propdefs := pl\<rparr>) = cur_length xo" using pl(1) by (simp add: cur_length_def)
  have "props_ok_at db1 y ob'" if y': "dbpriv_find_object db1 y = Some ob'" for y ob'
  proof -
    from y' x obtain ob where y: "dbpriv_find_object db y = Some ob" and
      ob': "ob' = (if y = x then ob\<lparr>o_propdefs := pl\<rparr> else ob)" by (auto simp: find1 split: if_splits)
    note old = props_okD [OF ok(2) y, unfolded props_ok_at_def]
    have "length (slots db1 y) = length (slots db y) \<and> distinct (map slot_name (slots db1 y))"
    proof (cases "y \<in> desc db x")
      case True
      with key [OF True] old show ?thesis by (metis distinct_rename length_list_update)
    next
      case False
      with old redefine_slots(3) [OF ok(1) x db1 validI [OF y] False] show ?thesis by simp
    qed
    moreover have "list_all pd_ok (pl_l (o_propdefs ob'))"
      using old x y pl(1) pd by (auto simp: ob' list_all_iff dest: set_update_memI subsetD [OF set_update_subset_insert])
    moreover have "cur_length ob' = cur_length ob" using x y clen by (auto simp: ob')
    ultimately show ?thesis using old x y pl by (auto simp: ob' props_ok_at_def)
  qed
  then show "props_ok db1" by (simp add: props_ok_def)
  assume "valid db y"
  then obtain ob where y: "dbpriv_find_object db y = Some ob" by (rule validE)
  have pv: "propvals_of db1 y = propvals_of db y" using x y by (auto simp: propvals_of_def find1)
  note old = props_okD [OF ok(2) y, unfolded props_ok_at_def]
  show "ptab db1 y = (if y \<in> desc db x
       then (ptab db y)((x, ?pd) := None, (x, pd) := ptab db y (x, ?pd)) else ptab db y)"
  proof (cases "y \<in> desc db x")
    case True
    have "(x, pd) = (x, ?pd) \<or> (x, pd) \<notin> set (slots db y)"
      using key [OF True] old nth_mem [of "slot_off db x i y" "slots db y"]
      by (auto simp: distinct_map dest: inj_onD)
    with key [OF True] old y pv ptab_nth [OF ok(2) y, of "slot_off db x i y"] True show ?thesis
      by (auto simp: ptab_def propvals_of_def map_of_zip_rename distinct_map)
  next
    case False
    with redefine_slots(3) [OF ok(1) x db1 validI [OF y] False] pv show ?thesis by (simp add: ptab_def)
  qed
qed

lemma find_builtin_fold:
  assumes "nul_free s" "nul_free t" "fold_case s = fold_case t"
  shows "find_builtin s = find_builtin t"
proof -
  have nf: "list_all (\<lambda>(p, _). nul_free p) ptable" by (simp add: ptable_def)
  have "str_hash p = str_hash s \<and> mystrcasecmp s p = 0 \<longleftrightarrow> str_hash p = str_hash t \<and> mystrcasecmp t p = 0"
    if "(p, b) \<in> set ptable" for p b
  proof -
    have "nul_free p" using nf that by (auto simp: list_all_iff)
    with assms show ?thesis
      using mystrcasecmp_0_iff [of s p] mystrcasecmp_0_iff [of t p] str_hash_fold [of s t] by simp
  qed
  then show ?thesis
    unfolding find_builtin_def by (intro arg_cong [where f = "map_option snd"] find_cong) auto
qed

lemma db_rename_propdef_fail:
  assumes ok: "inherit_ok db" "props_ok db" and n: "nul_free old" "nul_free new" and x: "valid db x"
    and no: "\<not> (defines_prop db x old \<and> (fold_case old = fold_case new \<or> can_define db x new))"
  shows "db_rename_propdef db x old new = Some (db, False)"
proof -
  from x obtain xo where xo: "dbpriv_find_object db x = Some xo" by (rule validE)
  obtain h where h: "db_find_property False db x new = Some (h, None)"
    "h = No_prop \<longleftrightarrow> find_builtin new = None \<and> fold_case new \<notin> slot_name ` set (slots db x)"
    using db_find_property_No_prop [OF ok n(2) x] .
  show ?thesis
  proof (cases "find_index (propdef_is (str_hash old) old) (pl_l (o_propdefs xo))")
    case None
    then show ?thesis by (simp add: db_rename_propdef_def xo)
  next
    case (Some i)
    then have "fold_case old \<noteq> fold_case new" "\<not> can_define db x new"
      using no defines_find_index [OF ok(2) n(1) xo] by auto
    with h slot_names [of new db x] show ?thesis
      by (auto simp: db_rename_propdef_def xo Some mystrcasecmp_0_iff [OF n] can_define_def
          property_defined_at_or_below_spec [OF ok n(2) x])
  qed
qed

lemma db_rename_propdef_ok:
  assumes ok: "inherit_ok db" "props_ok db" and n: "nul_free old" "nul_free new" and x: "valid db x"
    and d: "defines_prop db x old" and can: "fold_case old = fold_case new \<or> can_define db x new"
  shows "\<exists>db' pd. db_rename_propdef db x old new = Some (db', True)
      \<and> pd \<in> set (propdefs_of db x) \<and> fold_case (pd_name pd) = fold_case old
      \<and> only_props db db' \<and> inherit_ok db' \<and> props_ok db'
      \<and> (\<forall>y. valid db y \<longrightarrow> ptab db' y =
            (if y \<in> desc db x
             then (ptab db y)((x, pd) := None, (x, dbpriv_new_propdef new) := ptab db y (x, pd))
             else ptab db y))"
proof -
  from x obtain xo where xo: "dbpriv_find_object db x = Some xo" by (rule validE)
  obtain h where h: "db_find_property False db x new = Some (h, None)"
    "h = No_prop \<longleftrightarrow> find_builtin new = None \<and> fold_case new \<notin> slot_name ` set (slots db x)"
    using db_find_property_No_prop [OF ok n(2) x] .
  obtain i where i: "find_index (propdef_is (str_hash old) old) (pl_l (o_propdefs xo)) = Some i"
    "i < cur_length xo" "fold_case (pd_name (pl_l (o_propdefs xo) ! i)) = fold_case old"
    using own_index [OF ok(2) n(1) xo d] .
  let ?pd = "pl_l (o_propdefs xo) ! i" and ?new = "dbpriv_new_propdef new"
  define pl where "pl = (o_propdefs xo)\<lparr>pl_l := (pl_l (o_propdefs xo))[i := ?new]\<rparr>"
  define db1 where "db1 = db\<lparr>objects := (objects db)(x \<mapsto> xo\<lparr>o_propdefs := pl\<rparr>)\<rparr>"
  have pl: "pl_l pl = (pl_l (o_propdefs xo))[i := ?new]" "pl_max_length pl = pl_max_length (o_propdefs xo)"
    by (simp_all add: pl_def)
  have "modify_obj db x (\<lambda>ob. ob\<lparr>o_propdefs := (o_propdefs ob)\<lparr>pl_l :=
      (pl_l (o_propdefs ob))[i := ?new]\<rparr>\<rparr>) = Some db1"
    by (simp add: modify_obj_Some [OF xo] db1_def pl_def)
  then have r: "db_rename_propdef db x old new = Some (db1, True)"
    using h can slot_names [of new db x] i(1)
    by (auto simp: db_rename_propdef_def xo mystrcasecmp_0_iff [OF n] can_define_def
        property_defined_at_or_below_spec [OF ok n(2) x])
  have "pd_ok ?pd" using props_okD [OF ok(2) xo] i(2)
    by (simp add: props_ok_at_def list_all_length cur_length_def)
  then have "find_builtin new = None"
    using can find_builtin_fold [of "pd_name ?pd" new] i(3) n(2) by (auto simp: pd_ok_def can_define_def)
  then have pdo: "pd_ok ?new" using n(2) by (simp add: pd_ok_def dbpriv_new_propdef_def)
  have can': "fold_case (pd_name ?new) = fold_case (pd_name ?pd) \<or> can_define db x (pd_name ?new)"
    using can i(3) by (auto simp: dbpriv_new_propdef_def)
  note res = renamed_ok [OF ok xo db1_def pl i(2) pdo can']
  have "inherit_ok db1" using same_tree_ok [OF redefine_slots(1) [OF ok(1) xo db1_def]] ok(1) by simp
  moreover have "?pd \<in> set (propdefs_of db x)" using i(2) xo by (simp add: propdefs_of_def cur_length_def)
  moreover have "only_props db db1" by (rule only_propsI(1) [OF xo db1_def])
  ultimately show ?thesis using r i(3) res by blast
qed

end
