(* ===== verification/DbObjects.thy ===== *)
theory DbObjects
  imports PropOps
begin

text \<open>
  The operations of \<^verbatim>\<open>db_objects.c\<close> that change the two hierarchies: a new
  parent, a new location, destruction, renumbering; and the size of an object.
\<close>

section \<open>Definitions\<close>

definition db_change_parent :: "db \<Rightarrow> objid \<Rightarrow> objid \<Rightarrow> (db \<times> bool) option" where
  "db_change_parent db oid parent =
     do { ok \<leftarrow> dbpriv_check_properties_for_chparent db oid parent;
          if \<not> ok then Some (db, False)
          else do {
            ob \<leftarrow> dbpriv_find_object db oid;
            let db0 = (if o_child ob = NOTHING \<and> o_verbdefs ob = [] then db
                       else db_priv_affected_callable_verb_lookup db);
            let old_parent = o_parent ob;
            db1 \<leftarrow> (if old_parent \<noteq> NOTHING
                    then LL_REMOVE o_child o_child_update o_sibling o_sibling_update old_parent oid db0
                    else Some db0);
            db2 \<leftarrow> (if parent \<noteq> NOTHING
                    then LL_APPEND o_child o_child_update o_sibling o_sibling_update parent oid db1
                    else Some db1);
            db3 \<leftarrow> modify_obj db2 oid (o_parent_update (\<lambda>_. parent));
            db4 \<leftarrow> dbpriv_fix_properties_after_chparent db3 oid old_parent;
            Some (db4, True) } }"

definition db_change_location :: "db \<Rightarrow> objid \<Rightarrow> objid \<Rightarrow> db option" where
  "db_change_location db oid location =
     do { ob \<leftarrow> dbpriv_find_object db oid;
          let old_location = o_location ob;
          db1 \<leftarrow> (if valid db old_location
                  then LL_REMOVE o_contents o_contents_update o_next o_next_update old_location oid db
                  else Some db);
          db2 \<leftarrow> (if valid db1 location
                  then LL_APPEND o_contents o_contents_update o_next o_next_update location oid db1
                  else Some db1);
          modify_obj db2 oid (o_location_update (\<lambda>_. location)) }"

text \<open>
  Releasing the storage of names, values and programs has no counterpart here;
  the loop that releases the values of the object's own properties needs as
  many slots as definitions.
\<close>

definition db_destroy_object :: "db \<Rightarrow> objid \<Rightarrow> db option" where
  "db_destroy_object db oid =
     (let db0 = db_priv_affected_callable_verb_lookup db
      in do { ob \<leftarrow> dbpriv_find_object db0 oid;
              assert_that (o_location ob = NOTHING \<and> o_contents ob = NOTHING
                           \<and> o_parent ob = NOTHING \<and> o_child ob = NOTHING);
              db1 \<leftarrow> (if is_user db0 oid
                      then do { us \<leftarrow> setremove (all_users db0) (TYPE_OBJ oid);
                                Some (db0\<lparr>all_users := us\<rparr>) }
                      else Some db0);
              assert_that (cur_length ob \<le> length (o_propval ob));
              Some (db1\<lparr>objects := (objects db1)(oid := None)\<rparr>) })"

text \<open>
  Renumbering.  \<open>relink_first\<close> is the loop over \<^verbatim>\<open>oidp\<close>: it finds the link, in the
  head of the list or in an element, that holds \<open>old\<close>.
\<close>

partial_function (option) relink_loop ::
  "(object \<Rightarrow> objid) \<Rightarrow> ((objid \<Rightarrow> objid) \<Rightarrow> object \<Rightarrow> object) \<Rightarrow> objid \<Rightarrow> objid \<Rightarrow> db \<Rightarrow> objid \<Rightarrow> db option"
where
  "relink_loop nx nx_upd old new db lid =
     do { l \<leftarrow> dbpriv_find_object db lid;
          if nx l = old then modify_obj db lid (nx_upd (\<lambda>_. new))
          else if nx l = NOTHING then None
          else relink_loop nx nx_upd old new db (nx l) }"

definition relink_first ::
  "(object \<Rightarrow> objid) \<Rightarrow> ((objid \<Rightarrow> objid) \<Rightarrow> object \<Rightarrow> object) \<Rightarrow>
   (object \<Rightarrow> objid) \<Rightarrow> ((objid \<Rightarrow> objid) \<Rightarrow> object \<Rightarrow> object) \<Rightarrow>
   objid \<Rightarrow> objid \<Rightarrow> db \<Rightarrow> objid \<Rightarrow> db option" where
  "relink_first first first_upd nx nx_upd old new db wh =
     do { p \<leftarrow> dbpriv_find_object db wh;
          if first p = old then modify_obj db wh (first_upd (\<lambda>_. new))
          else if first p = NOTHING then None
          else relink_loop nx nx_upd old new db (first p) }"

partial_function (option) reown_loop ::
  "(object \<Rightarrow> objid) \<Rightarrow> ((objid \<Rightarrow> objid) \<Rightarrow> object \<Rightarrow> object) \<Rightarrow> objid \<Rightarrow> db \<Rightarrow> objid \<Rightarrow> db option"
where
  "reown_loop nx up_upd new db c =
     (if c = NOTHING then Some db
      else do { db1 \<leftarrow> modify_obj db c (up_upd (\<lambda>_. new));
                ob \<leftarrow> dbpriv_find_object db1 c;
                reown_loop nx up_upd new db1 (nx ob) })"

definition renumber_links ::
  "(object \<Rightarrow> objid) \<Rightarrow> ((objid \<Rightarrow> objid) \<Rightarrow> object \<Rightarrow> object) \<Rightarrow>
   (object \<Rightarrow> objid) \<Rightarrow> ((objid \<Rightarrow> objid) \<Rightarrow> object \<Rightarrow> object) \<Rightarrow>
   (object \<Rightarrow> objid) \<Rightarrow> ((objid \<Rightarrow> objid) \<Rightarrow> object \<Rightarrow> object) \<Rightarrow>
   objid \<Rightarrow> objid \<Rightarrow> db \<Rightarrow> db option" where
  "renumber_links first first_upd nx nx_upd up up_upd old new db =
     do { ob \<leftarrow> dbpriv_find_object db new;
          db1 \<leftarrow> (if up ob \<noteq> NOTHING
                  then relink_first first first_upd nx nx_upd old new db (up ob) else Some db);
          ob1 \<leftarrow> dbpriv_find_object db1 new;
          reown_loop nx up_upd new db1 (first ob1) }"

fun rename_user :: "objid \<Rightarrow> objid \<Rightarrow> var list \<Rightarrow> var list" where
  "rename_user old new [] = []"
| "rename_user old new (v # vs) =
     (if v = TYPE_OBJ old then TYPE_OBJ new # vs else v # rename_user old new vs)"

definition new_owner :: "objid \<Rightarrow> objid \<Rightarrow> objid \<Rightarrow> objid" where
  "new_owner old new ow = (if ow = new then NOTHING else if ow = old then new else ow)"

fun fix_owners :: "objid \<Rightarrow> objid \<Rightarrow> nat \<Rightarrow> db \<Rightarrow> db option" where
  "fix_owners old new 0 db = Some db"
| "fix_owners old new (Suc n) db =
     do { db1 \<leftarrow> fix_owners old new n db;
          (case dbpriv_find_object db1 (int n) of
             None \<Rightarrow> Some db1
           | Some ob \<Rightarrow>
               do { count \<leftarrow> dbpriv_count_properties db1 (int n);
                    assert_that (count \<le> length (o_propval ob));
                    modify_obj db1 (int n)
                      (\<lambda>ob. ob\<lparr>o_owner := new_owner old new (o_owner ob),
                              o_verbdefs := map (\<lambda>v. v\<lparr>vd_owner := new_owner old new (vd_owner v)\<rparr>) (o_verbdefs ob),
                              o_propval := map (\<lambda>p. p\<lparr>pv_owner := new_owner old new (pv_owner p)\<rparr>)
                                             (take count (o_propval ob))
                                           @ drop count (o_propval ob)\<rparr>) }) }"

definition change_identity :: "objid \<Rightarrow> objid \<Rightarrow> db \<Rightarrow> db option" where
  "change_identity old new db =
     do { ob \<leftarrow> dbpriv_find_object db old;
          let db1 = db\<lparr>objects := (objects db)(new \<mapsto> ob\<lparr>o_id := new\<rparr>, old := None)\<rparr>;
          db2 \<leftarrow> renumber_links o_child o_child_update o_sibling o_sibling_update
                   o_parent o_parent_update old new db1;
          db3 \<leftarrow> renumber_links o_contents o_contents_update o_next o_next_update
                   o_location o_location_update old new db2;
          let db4 = (if is_user db3 new
                     then db3\<lparr>all_users := rename_user old new (all_users db3)\<rparr> else db3);
          fix_owners old new (nat (num_objects db4)) db4 }"

definition first_free :: "db \<Rightarrow> objid \<Rightarrow> objid option" where
  "first_free db old = List.find (\<lambda>i. objects db i = None) (map int [0..<nat old])"

definition db_renumber_object :: "db \<Rightarrow> objid \<Rightarrow> (db \<times> objid) option" where
  "db_renumber_object db old =
     (let db0 = db_priv_affected_callable_verb_lookup db
      in case first_free db0 old of
           None \<Rightarrow> Some (db0, old)
         | Some new \<Rightarrow> do { db1 \<leftarrow> change_identity old new db0; Some (db1, new) })"

definition db_object_bytes :: "db \<Rightarrow> objid \<Rightarrow> int option" where
  "db_object_bytes db oid =
     do { ob \<leftarrow> dbpriv_find_object db oid;
          len \<leftarrow> dbpriv_count_properties db oid;
          assert_that (len \<le> length (o_propval ob));
          Some (BQM_SIZEOF_Object + BQM_SIZEOF_PTR
                + (int (length (o_name ob)) + 1)
                + (\<Sum>v\<leftarrow>o_verbdefs ob. BQM_SIZEOF_Verbdef + (int (length (vd_name v)) + 1)
                      + (case vd_program v of None \<Rightarrow> 0 | Some p \<Rightarrow> program_bytes p))
                + BQM_SIZEOF_Propdef * int (cur_length ob)
                + (\<Sum>p\<leftarrow>pl_l (o_propdefs ob). int (length (pd_name p)) + 1)
                + (BQM_SIZEOF_Pval - BQM_SIZEOF_Var) * int len
                + (\<Sum>p\<leftarrow>take len (o_propval ob). value_bytes (pv_var p))) }"

section \<open>Only the objects matter\<close>

text \<open>Emptying the verb cache leaves every statement about objects as it was.\<close>

lemma same_objects_chain:
  "dbpriv_find_object db' = dbpriv_find_object db \<Longrightarrow> chain nx db' = chain nx db"
  by (intro ext chain_map_option_cong) simp

lemma same_objects:
  assumes "dbpriv_find_object db' = dbpriv_find_object db"
  shows "valid db' = valid db" "chain nx db' = chain nx db" "chain_from nx db' = chain_from nx db"
    "kids_are first nx db' = kids_are first nx db" "below up db' = below up db"
    "tree_ok first nx up db' = tree_ok first nx up db"
    "desc db' = desc db" "slots db' = slots db" "ptab db' = ptab db" "props_ok db' = props_ok db"
proof -
  note ch = same_objects_chain [OF assms]
  show v: "valid db' = valid db" by (simp add: fun_eq_iff valid_def assms)
  show "chain nx db' = chain nx db" by (rule ch)
  show cf: "chain_from nx db' = chain_from nx db" for nx by (simp add: fun_eq_iff chain_from_def ch)
  show k: "kids_are first nx db' = kids_are first nx db" by (simp add: fun_eq_iff kids_are_def ch assms)
  show b: "below up db' = below up db" by (simp add: fun_eq_iff below_def assms)
  show "tree_ok first nx up db' = tree_ok first nx up db" by (simp add: tree_ok_def v k b ch)
  show "desc db' = desc db" by (simp add: fun_eq_iff desc_def ch)
  have "slots_along db' as = slots_along db as" for as
    by (rule slots_along_cong) (simp add: propdefs_of_def assms)
  then show s: "slots db' = slots db" by (simp add: fun_eq_iff slots_def cf)
  show "ptab db' = ptab db" by (simp add: fun_eq_iff ptab_def s propvals_of_def assms)
  show "props_ok db' = props_ok db" by (simp add: props_ok_def props_ok_at_def s assms)
qed

lemmas affected_same = same_objects [OF affected_simps(5)]

end
