(* ===== verification/ChParent.thy ===== *)
theory ChParent
  imports DbObjects
begin

text \<open>
  What a change of parent does to the properties: the tests made beforehand, the
  nearest common ancestor, and the slots of the moved object and all its
  descendants afterwards.
\<close>

section \<open>The test before\<close>

lemma any_defined_spec:
  assumes ok: "inherit_ok db" "props_ok db" and x: "valid db x" and pds: "list_all pd_ok pds"
  shows "any_defined db x pds = Some (\<exists>pd \<in> set pds. \<exists>y \<in> desc db x. defines_prop db y (pd_name pd))"
  using pds
proof (induction pds)
  case (Cons pd pds)
  then have "property_defined_at_or_below (pd_name pd) (pd_hash pd) db x
      = Some (\<exists>y \<in> desc db x. defines_prop db y (pd_name pd))"
    using property_defined_at_or_below_spec [OF ok _ x, of "pd_name pd"] by (simp add: pd_ok_def)
  with Cons show ?case by auto
qed simp

definition clash_free :: "db \<Rightarrow> objid \<Rightarrow> objid \<Rightarrow> bool" where
  "clash_free db x q \<longleftrightarrow>
     (\<forall>a \<in> set (chain_from o_parent db q). \<forall>pd \<in> set (propdefs_of db a). \<forall>y \<in> desc db x.
        \<not> defines_prop db y (pd_name pd))"

lemma check_properties_spec:
  assumes ok: "inherit_ok db" "props_ok db" and x: "valid db x" and q: "q = NOTHING \<or> valid db q"
  shows "dbpriv_check_properties_for_chparent db x q = Some (clash_free db x q)"
  unfolding dbpriv_check_properties_for_chparent_def
  using ok(1) q
proof (induction rule: ancestor_induct)
  case root
  then show ?case by (simp add: chparent_check_loop.simps clash_free_def)
next
  case (up a ob)
  have "list_all pd_ok (pl_l (o_propdefs ob))"
    using props_okD [OF ok(2) up(1)] by (simp add: props_ok_at_def)
  from any_defined_spec [OF ok x this] up show ?case
    by (subst chparent_check_loop.simps)
       (auto simp: clash_free_def chain_from_step [OF ok(1)] propdefs_of_def)
qed

section \<open>The nearest common ancestor\<close>

lemma on_parent_chain_spec:
  "chain o_parent db p as \<Longrightarrow> a \<noteq> NOTHING \<Longrightarrow> on_parent_chain db a p = Some (a \<in> set as)"
proof (induction as arbitrary: p)
  case Nil
  then show ?case by (simp add: on_parent_chain.simps)
next
  case (Cons b as)
  from Cons.prems(1) obtain ob where "p = b" "b \<noteq> NOTHING" "dbpriv_find_object db b = Some ob"
    "chain o_parent db (o_parent ob) as" by (rule chain_ConsE)
  with Cons.IH Cons.prems(2) show ?case
    by (subst on_parent_chain.simps) (auto simp: db_object_parent_def)
qed

text \<open>The chains of two objects share a common end, which starts at the object found.\<close>

lemma nearest_common_spec:
  assumes "chain o_parent db q as" "chain o_parent db p bs"
  shows "\<exists>us vs ws. as = us @ ws \<and> bs = vs @ ws \<and> set us \<inter> set bs = {}
      \<and> nearest_common db q p = Some (case ws of [] \<Rightarrow> NOTHING | w # _ \<Rightarrow> w)"
  using assms(1)
proof (induction as arbitrary: q)
  case Nil
  then show ?case by (simp add: nearest_common.simps)
next
  case (Cons a as)
  from Cons.prems obtain ob where a: "q = a" "a \<noteq> NOTHING" "dbpriv_find_object db a = Some ob"
    "chain o_parent db (o_parent ob) as" by (rule chain_ConsE)
  note hit = on_parent_chain_spec [OF assms(2) a(2)]
  show ?case
  proof (cases "a \<in> set bs")
    case True
    with chain_tail_of [OF assms(2)] obtain vs ws where "bs = vs @ a # ws" "chain o_parent db a (a # ws)" by blast
    moreover from this(2) Cons.prems a(1) have "as = ws" using chain_unique by blast
    ultimately show ?thesis using a hit True
      by (subst nearest_common.simps) (fastforce intro: exI [of _ "[]"])
  next
    case False
    from Cons.IH [OF a(4)] obtain us vs ws where r: "as = us @ ws" "bs = vs @ ws" "set us \<inter> set bs = {}"
      "nearest_common db (o_parent ob) p = Some (case ws of [] \<Rightarrow> NOTHING | w # _ \<Rightarrow> w)" by blast
    with a hit False have "nearest_common db q p = Some (case ws of [] \<Rightarrow> NOTHING | w # _ \<Rightarrow> w)"
      by (subst nearest_common.simps) (simp add: db_object_parent_def)
    with r False show ?thesis by (intro exI [of _ "a # us"] exI [of _ vs] exI [of _ ws]) simp
  qed
qed

section \<open>The hierarchy after the move\<close>

text \<open>\<open>x\<close> hangs under \<open>q\<close> now; every other link upwards and all other data are as before.\<close>

definition moved :: "db \<Rightarrow> db \<Rightarrow> objid \<Rightarrow> objid \<Rightarrow> bool" where
  "moved db db3 x q \<longleftrightarrow>
     inherit_ok db \<and> inherit_ok db3 \<and> q \<notin> desc db x \<and> (q = NOTHING \<or> valid db q) \<and> valid db x
   \<and> (\<forall>y. rel_option (\<lambda>ob ob3. tree_core ob3 = tree_core ob
              \<and> o_parent ob3 = (if y = x then q else o_parent ob))
            (dbpriv_find_object db y) (dbpriv_find_object db3 y))"

lemma tree_core_fields:
  assumes "tree_core ob' = tree_core ob"
  shows "o_propdefs ob' = o_propdefs ob" "o_propval ob' = o_propval ob" "o_owner ob' = o_owner ob"
    "o_id ob' = o_id ob" "o_verbdefs ob' = o_verbdefs ob" "o_flags ob' = o_flags ob"
    "cur_length ob' = cur_length ob" "o_name ob' = o_name ob"
    "o_location ob' = o_location ob" "o_contents ob' = o_contents ob" "o_next ob' = o_next ob"
proof -
  show "o_propdefs ob' = o_propdefs ob" "o_propval ob' = o_propval ob" "o_owner ob' = o_owner ob"
    "o_id ob' = o_id ob" "o_verbdefs ob' = o_verbdefs ob" "o_flags ob' = o_flags ob"
    "cur_length ob' = cur_length ob" "o_name ob' = o_name ob"
    "o_location ob' = o_location ob" "o_contents ob' = o_contents ob" "o_next ob' = o_next ob"
    using assms [THEN arg_cong, of o_propdefs] assms [THEN arg_cong, of o_propval]
      assms [THEN arg_cong, of o_owner] assms [THEN arg_cong, of o_id]
      assms [THEN arg_cong, of o_verbdefs] assms [THEN arg_cong, of o_flags]
      assms [THEN arg_cong, of o_name] assms [THEN arg_cong, of o_location]
      assms [THEN arg_cong, of o_contents] assms [THEN arg_cong, of o_next]
    by (simp_all add: tree_core_def cur_length_def)
qed

lemma movedI:
  assumes ok: "inherit_ok db" "inherit_ok db3" and fr: "link_frame o_child o_sibling o_parent tree_core P N {x} db db3"
    and x3: "dbpriv_find_object db3 x = Some x3" "o_parent x3 = q"
    and q: "q \<notin> desc db x" "q = NOTHING \<or> valid db q"
  shows "moved db db3 x q"
proof -
  have "valid db x" using link_frame_valid [OF fr] x3(1) by (auto simp: valid_def)
  moreover have "rel_option (\<lambda>ob ob3. tree_core ob3 = tree_core ob
      \<and> o_parent ob3 = (if y = x then q else o_parent ob)) (dbpriv_find_object db y) (dbpriv_find_object db3 y)" for y
  proof (cases "dbpriv_find_object db y")
    case None
    then have "dbpriv_find_object db3 y = None" using link_frame_valid [OF fr, of y] by (simp add: valid_def)
    with None show ?thesis by simp
  next
    case (Some ob)
    from link_frame_find [OF fr Some] obtain ob3 where "dbpriv_find_object db3 y = Some ob3"
      "tree_core ob3 = tree_core ob" "y \<notin> {x} \<longrightarrow> o_parent ob3 = o_parent ob" .
    with x3 Some show ?thesis by auto
  qed
  ultimately show ?thesis using ok q by (simp add: moved_def)
qed

lemma moved_find:
  assumes "moved db db3 x q" "dbpriv_find_object db y = Some ob"
  obtains ob3 where "dbpriv_find_object db3 y = Some ob3" "tree_core ob3 = tree_core ob"
    "o_parent ob3 = (if y = x then q else o_parent ob)"
proof -
  have "rel_option (\<lambda>ob ob3. tree_core ob3 = tree_core ob
      \<and> o_parent ob3 = (if y = x then q else o_parent ob)) (dbpriv_find_object db y) (dbpriv_find_object db3 y)"
    using assms(1) by (simp add: moved_def)
  with assms(2) that show thesis by (auto simp: option_rel_Some1)
qed

lemma moved_valid: "moved db db3 x q \<Longrightarrow> valid db3 y = valid db y"
  by (auto simp: moved_def valid_def option.rel_sel)

lemma moved_data:
  assumes "moved db db3 x q"
  shows "propdefs_of db3 y = propdefs_of db y" "propvals_of db3 y = propvals_of db y"
proof -
  show "propdefs_of db3 y = propdefs_of db y"
  proof (cases "dbpriv_find_object db y")
    case (Some ob)
    with moved_find [OF assms Some] show ?thesis by (metis option.simps(5) propdefs_of_def tree_core_fields(1))
  qed (use moved_valid [OF assms, of y] in \<open>simp add: valid_def propdefs_of_def\<close>)
  show "propvals_of db3 y = propvals_of db y"
  proof (cases "dbpriv_find_object db y")
    case (Some ob)
    with moved_find [OF assms Some] show ?thesis by (metis option.simps(5) propvals_of_def tree_core_fields(2))
  qed (use moved_valid [OF assms, of y] in \<open>simp add: valid_def propvals_of_def\<close>)
qed

lemma moved_chain_out:
  assumes m: "moved db db3 x q" and y: "chain o_parent db y as" "x \<notin> set as"
  shows "chain o_parent db3 y as"
  using y(1)
proof (rule chain_cong [rotated])
  fix z ob assume "z \<in> set as" "dbpriv_find_object db z = Some ob"
  with y(2) moved_find [OF m, of z ob] show "\<exists>ob'. dbpriv_find_object db3 z = Some ob' \<and> o_parent ob' = o_parent ob"
    by metis
qed

lemma moved_chain_q:
  assumes m: "moved db db3 x q"
  obtains as where "chain o_parent db q as" "chain o_parent db3 q as" "x \<notin> set as"
    "chain_from o_parent db q = as"
proof -
  have "q = NOTHING \<or> valid db q" "inherit_ok db" using m by (simp_all add: moved_def)
  then have "\<exists>as. chain o_parent db q as" using tree_ok_ancestors chain.simps(1) by blast
  then obtain as where as: "chain o_parent db q as" ..
  moreover have "x \<notin> set as" using as m by (auto simp: moved_def desc_def)
  ultimately show thesis using that moved_chain_out [OF m] chain_from_eq by blast
qed

lemma chain_segment_prefix:
  assumes "moved db db3 x q" "chain o_parent db3 q cs" "chain o_parent db y (us @ x # vs)" "x \<notin> set us"
  shows "chain o_parent db3 y (us @ x # cs)"
  using assms(3,4)
proof (induction us arbitrary: y)
  case Nil
  then obtain xo where "y = x" "dbpriv_find_object db x = Some xo" by auto
  with moved_find [OF assms(1), of x xo] assms(2) show ?case by auto
next
  case (Cons u us)
  then have ch: "chain o_parent db y (u # us @ x # vs)" by simp
  then obtain ob where u: "y = u" "dbpriv_find_object db u = Some ob"
    "chain o_parent db (o_parent ob) (us @ x # vs)" by (rule chain_ConsE)
  with moved_find [OF assms(1) u(2)] Cons.prems(2) obtain ob3 where
    "dbpriv_find_object db3 u = Some ob3" "o_parent ob3 = o_parent ob" by auto
  with Cons.IH [OF u(3)] Cons.prems(2) u(1) show ?case by simp
qed

lemma moved_chain_in:
  assumes m: "moved db db3 x q" and y: "y \<in> desc db x"
  shows "chain_from o_parent db3 y = takeWhile (\<lambda>z. z \<noteq> x) (chain_from o_parent db y) @ x # chain_from o_parent db q"
proof -
  obtain as where as: "chain o_parent db y as" "x \<in> set as" using y by (auto simp: desc_def)
  then have cf: "chain_from o_parent db y = as" by (simp add: chain_from_eq)
  let ?us = "takeWhile (\<lambda>z. z \<noteq> x) as"
  obtain vs where s: "as = ?us @ x # vs"
    using as(2) by (metis (mono_tags, lifting) dropWhile_eq_Cons_conv dropWhile_eq_Nil_conv
        list.exhaust takeWhile_dropWhile_id)
  have "x \<notin> set ?us" by (auto dest: set_takeWhileD)
  moreover obtain cs where cs: "chain o_parent db3 q cs" "chain_from o_parent db q = cs"
    using moved_chain_q [OF m] .
  ultimately have "chain o_parent db3 y (?us @ x # cs)"
    using chain_segment_prefix [OF m cs(1)] as(1) s by metis
  then show ?thesis using cs(2) cf by (simp add: chain_from_eq)
qed

lemma moved_desc:
  assumes m: "moved db db3 x q"
  shows "desc db3 x = desc db x"
proof (intro set_eqI)
  fix y
  have ok: "inherit_ok db" "inherit_ok db3" using m by (simp_all add: moved_def)
  show "y \<in> desc db3 x \<longleftrightarrow> y \<in> desc db x"
  proof (cases "y \<in> desc db x")
    case True
    then have "valid db3 y" using desc_valid moved_valid [OF m] by blast
    with moved_chain_in [OF m True] desc_iff [OF ok(2)] True show ?thesis by simp
  next
    case False
    have "y \<notin> desc db3 x" if v: "valid db3 y"
    proof -
      have "valid db y" using v moved_valid [OF m] by simp
      then obtain as where as: "chain o_parent db y as" using tree_ok_ancestors [OF ok(1)] by blast
      moreover have "x \<notin> set as" using as False by (auto simp: desc_def)
      ultimately have "chain o_parent db3 y as" by (rule moved_chain_out [OF m])
      with \<open>x \<notin> set as\<close> show ?thesis by (auto simp: desc_def dest: chain_unique)
    qed
    with False desc_valid show ?thesis by blast
  qed
qed

lemma moved_slots_in:
  assumes m: "moved db db3 x q" and x: "dbpriv_find_object db x = Some xo" and y: "y \<in> desc db x"
  shows "slots db3 y = pre db x y @ map (Pair x) (pl_l (o_propdefs xo)) @ slots db q"
    and "pre db3 x y = pre db x y"
proof -
  have along: "slots_along db3 as = slots_along db as" for as
    by (rule slots_along_cong) (rule moved_data [OF m])
  have tw: "takeWhile (\<lambda>z. z \<noteq> x) (takeWhile (\<lambda>z. z \<noteq> x) as @ x # bs) = takeWhile (\<lambda>z. z \<noteq> x) as" for as bs
    by (subst takeWhile_append2) (auto dest: set_takeWhileD)
  have px: "propdefs_of db x = pl_l (o_propdefs xo)" using x by (simp add: propdefs_of_def)
  show "slots db3 y = pre db x y @ map (Pair x) (pl_l (o_propdefs xo)) @ slots db q"
    by (simp add: slots_def along moved_chain_in [OF m y] slots_along_append pre_def moved_data [OF m] px)
  show "pre db3 x y = pre db x y"
    by (simp add: pre_def along moved_chain_in [OF m y] tw)
qed

lemma moved_slots_out:
  assumes m: "moved db db3 x q" and y: "y = NOTHING \<or> valid db y" "y \<notin> desc db x"
  shows "slots db3 y = slots db y"
proof (cases "y = NOTHING")
  case False
  then have v: "valid db y" using y by simp
  then obtain as where as: "chain o_parent db y as"
    using m tree_ok_ancestors unfolding moved_def by blast
  moreover have "x \<notin> set as" using as y(2) by (auto simp: desc_def)
  ultimately have "chain o_parent db3 y as" by (rule moved_chain_out [OF m])
  with as have "chain_from o_parent db3 y = chain_from o_parent db y" by (simp add: chain_from_eq)
  moreover have "slots_along db3 as = slots_along db as" for as
    by (rule slots_along_cong) (rule moved_data [OF m])
  ultimately show ?thesis by (simp add: slots_def)
qed simp

section \<open>Rebuilding the slots\<close>

definition fresh_slot :: "object \<Rightarrow> pval \<Rightarrow> pval" where
  "fresh_slot ob pv = chowned ob (pv\<lparr>pv_var := TYPE_CLEAR\<rparr>)"

lemma fresh_slot_fresh: "fresh_slot ob (fresh_slot ob' pv) = fresh_slot ob pv"
  by (simp add: fresh_slot_def chowned_def)

lemma fix_props_one_patch:
  assumes c: "dbpriv_find_object db c = Some ob" "c \<notin> V"
    and len: "k + cur_length ob + old + common \<le> length (o_propval ob)"
    and new: "new = 0 \<and> fresh = [] \<or>
       (\<exists>po. dbpriv_find_object (patch db V f) (o_parent ob) = Some po \<and> k + new \<le> length (o_propval po)
           \<and> map (fresh_slot ob) (take new (drop k (o_propval po))) = fresh)"
    and f: "f c (o_propval ob) = take (k + cur_length ob) (o_propval ob) @ fresh
              @ take common (drop (k + cur_length ob + old) (o_propval ob))"
  shows "fix_props_one old new common (patch db V f) c k = Some (patch db (insert c V) f)"
proof -
  have c': "dbpriv_find_object (patch db V f) c = Some ob" using c by (simp add: find_patch)
  have fr: "fresh_slot ob = (\<lambda>pv. if and (pv_perms pv) PF_CHOWN \<noteq> 0
      then pv\<lparr>pv_var := TYPE_CLEAR, pv_owner := o_owner ob\<rparr> else pv\<lparr>pv_var := TYPE_CLEAR\<rparr>)"
    by (simp add: fun_eq_iff fresh_slot_def chowned_def)
  have "fix_props_one old new common (patch db V f) c k =
      modify_obj (patch db V f) c (\<lambda>ob'. ob'\<lparr>o_propval := f c (o_propval ob)\<rparr>)"
    using new len unfolding fix_props_one_def f fr by (auto simp: c' Let_def)
  then show ?thesis using patch_extend [OF c] by simp
qed

text \<open>
  \<open>vs\<close> and \<open>us\<close> are the ancestors lost and gained, \<open>ws\<close> the common ones.
\<close>

definition rebuilt :: "db \<Rightarrow> objid \<Rightarrow> objid \<Rightarrow> nat \<Rightarrow> nat \<Rightarrow> objid \<Rightarrow> pval list \<Rightarrow> pval list" where
  "rebuilt db x q old new y pvs =
     (let lcl = slot_off db x (cur_length (the (dbpriv_find_object db x))) y
      in take lcl pvs @ map (fresh_slot (the (dbpriv_find_object db y))) (take new (propvals_of db q))
         @ drop (lcl + old) pvs)"

lemma slots_desc_length:
  assumes ok: "inherit_ok db" "props_ok db" and x: "dbpriv_find_object db x = Some xo"
    and y: "y \<in> desc db x" "dbpriv_find_object db y = Some ob"
  shows "length (o_propval ob) = slot_off db x (cur_length xo) y + length (slots db (o_parent xo))"
  using props_okD [OF ok(2) y(2)] slots_split [OF ok(1) y(1)] slots_step [OF ok(1) x]
  by (simp add: props_ok_at_def slot_off_def cur_length_def)

lemma fresh_slot_owner: "o_owner ob = o_owner ob' \<Longrightarrow> fresh_slot ob = fresh_slot ob'"
  by (simp add: fun_eq_iff fresh_slot_def chowned_def)

lemma rebuilt_eq:
  assumes m: "moved db db3 x q" and ok: "props_ok db" and x: "dbpriv_find_object db x = Some xo"
    and old: "length (slots db (o_parent xo)) = old + common"
    and y: "y \<in> desc db x" "dbpriv_find_object db3 y = Some ob"
  defines "k \<equiv> slot_off db x (cur_length xo) y"
  shows "rebuilt db x q old new y (o_propval ob) =
      take k (o_propval ob) @ map (fresh_slot ob) (take new (propvals_of db q))
      @ take common (drop (k + old) (o_propval ob))"
    and "k + old + common = length (o_propval ob)"
proof -
  have i: "inherit_ok db" using m by (simp add: moved_def)
  have "valid db y" using desc_valid [OF y(1)] by simp
  then obtain ob0 where o: "dbpriv_find_object db y = Some ob0" by (rule validE)
  from moved_find [OF m o] y(2) have tc: "tree_core ob = tree_core ob0" by auto
  note same = tree_core_fields(2,3) [OF tc]
  show l: "k + old + common = length (o_propval ob)"
    using slots_desc_length [OF i ok x y(1) o] old same(1) by (simp add: k_def)
  then have "length (drop (k + old) (o_propval ob)) = common" by simp
  then show "rebuilt db x q old new y (o_propval ob) =
      take k (o_propval ob) @ map (fresh_slot ob) (take new (propvals_of db q))
      @ take common (drop (k + old) (o_propval ob))"
    using o fresh_slot_owner [OF same(2)] by (simp add: rebuilt_def x Let_def k_def)
qed

lemma fix_props_root:
  assumes m: "moved db db3 x q" and ok: "props_ok db" and x: "dbpriv_find_object db x = Some xo"
    and old: "length (slots db (o_parent xo)) = old + common"
    and new: "length (slots db q) = new + common"
  shows "fix_props_one old new common db3 x 0 = Some (patch db3 {x} (rebuilt db x q old new))"
proof -
  have i: "inherit_ok db" using m by (simp add: moved_def)
  from moved_find [OF m x] obtain x3 where x3: "dbpriv_find_object db3 x = Some x3"
    "tree_core x3 = tree_core xo" "o_parent x3 = q" by auto
  have cl: "cur_length x3 = cur_length xo" by (rule tree_core_fields(7) [OF x3(2)])
  note rb = rebuilt_eq [OF m ok x old desc_self [OF i validI [OF x]] x3(1),
      unfolded slot_off_self [OF i validI [OF x]]]
  let ?f = "rebuilt db x q old new" and ?fresh = "map (fresh_slot x3) (take new (propvals_of db q))"
  have par: "new = 0 \<and> ?fresh = [] \<or>
     (\<exists>po. dbpriv_find_object (patch db3 {} ?f) (o_parent x3) = Some po \<and> 0 + new \<le> length (o_propval po)
         \<and> map (fresh_slot x3) (take new (drop 0 (o_propval po))) = ?fresh)"
  proof (cases "q = NOTHING")
    case False
    with m have "valid db q" by (simp add: moved_def)
    then obtain qo where qo: "dbpriv_find_object db q = Some qo" by (rule validE)
    from moved_find [OF m qo] obtain q3 where q3: "dbpriv_find_object db3 q = Some q3"
      "tree_core q3 = tree_core qo" by auto
    have "new \<le> length (o_propval q3)" "take new (o_propval q3) = take new (propvals_of db q)"
      using props_okD [OF ok qo] new qo tree_core_fields(2) [OF q3(2)]
      by (simp_all add: props_ok_at_def propvals_of_def)
    with q3(1) show ?thesis by (simp add: x3(3))
  qed (use new in simp)
  have "fix_props_one old new common (patch db3 {} ?f) x 0 = Some (patch db3 (insert x {}) ?f)"
    by (rule fix_props_one_patch [OF x3(1) _ _ par]) (simp_all add: rb(1) cl rb(2) [symmetric])
  then show ?thesis by simp
qed

lemma desc_parent:
  assumes "dbpriv_find_object db c = Some ob" "c \<in> desc db x" "c \<noteq> x"
  shows "o_parent ob \<in> desc db x"
proof -
  obtain as where as: "chain o_parent db c as" "x \<in> set as" using assms(2) by (auto simp: desc_def)
  with assms(1,3) show ?thesis by (cases as) (auto simp: desc_def)
qed

lemma fix_props_step:
  assumes m: "moved db db3 x q" and ok: "props_ok db" and x: "dbpriv_find_object db x = Some xo"
    and old: "length (slots db (o_parent xo)) = old + common"
    and len: "length (take new (propvals_of db q)) = new"
    and c: "dbpriv_find_object db3 c = Some ob" "c \<in> desc db3 x" "c \<noteq> x" "c \<notin> V" "o_parent ob \<in> V"
  shows "fix_props_one old new common (patch db3 V (rebuilt db x q old new)) c
      (slot_off db3 x (cur_length xo) (o_parent ob)) = Some (patch db3 (insert c V) (rebuilt db x q old new))"
proof -
  have i: "inherit_ok db3" using m by (simp add: moved_def)
  let ?k = "\<lambda>y. slot_off db x (cur_length xo) y"
  have off: "slot_off db3 x (cur_length xo) y = ?k y" if "y \<in> desc db x" for y
    using moved_slots_in(2) [OF m x that] by (simp add: slot_off_def)
  have cd: "c \<in> desc db x" using c(2) moved_desc [OF m] by simp
  have pd: "o_parent ob \<in> desc db x" using desc_parent [OF c(1-3)] moved_desc [OF m] by simp
  then have "valid db3 (o_parent ob)" using desc_valid moved_valid [OF m] by simp
  then obtain p3 where p3: "dbpriv_find_object db3 (o_parent ob) = Some p3" by (rule validE)
  have kc: "?k c = ?k (o_parent ob) + cur_length ob"
    using slot_off_step [OF i c(1,3), of "cur_length xo"] off [OF cd] off [OF pd] by simp
  note rc = rebuilt_eq [OF m ok x old cd c(1)] and rp = rebuilt_eq [OF m ok x old pd p3]
  have "fix_props_one old new common (patch db3 V (rebuilt db x q old new)) c (?k (o_parent ob))
      = Some (patch db3 (insert c V) (rebuilt db x q old new))"
  proof (rule fix_props_one_patch [OF c(1,4)])
    let ?pv = "rebuilt db x q old new (o_parent ob) (o_propval p3)"
    have "take new (drop (?k (o_parent ob)) ?pv) = map (fresh_slot p3) (take new (propvals_of db q))"
      and "?k (o_parent ob) + new \<le> length ?pv"
      using rp len by (simp_all add: min_absorb2)
    then show "new = 0 \<and> map (fresh_slot ob) (take new (propvals_of db q)) = [] \<or>
       (\<exists>po. dbpriv_find_object (patch db3 V (rebuilt db x q old new)) (o_parent ob) = Some po
           \<and> ?k (o_parent ob) + new \<le> length (o_propval po)
           \<and> map (fresh_slot ob) (take new (drop (?k (o_parent ob)) (o_propval po)))
             = map (fresh_slot ob) (take new (propvals_of db q)))"
      using p3 c(5) by (auto simp: find_patch fresh_slot_fresh)
  qed (use rc kc in \<open>auto simp: add.commute\<close>)
  then show ?thesis using off [OF pd] by simp
qed

lemma fix_props_patch:
  assumes m: "moved db db3 x q" and ok: "props_ok db" and x: "dbpriv_find_object db x = Some xo"
    and old: "length (slots db (o_parent xo)) = old + common"
    and new: "length (slots db q) = new + common"
  shows "fix_props db3 x 0 old new common = Some (patch db3 (desc db x) (rebuilt db x q old new))"
proof -
  from moved_find [OF m x] obtain x3 where x3: "dbpriv_find_object db3 x = Some x3"
    "tree_core x3 = tree_core xo" "o_parent x3 = q" by auto
  have i: "inherit_ok db3" using m by (simp add: moved_def)
  have len: "length (take new (propvals_of db q)) = new"
  proof (cases "q = NOTHING")
    case False
    with m have "valid db q" by (simp add: moved_def)
    then obtain qo where "dbpriv_find_object db q = Some qo" by (rule validE)
    with props_okD [OF ok this] new show ?thesis by (simp add: props_ok_at_def propvals_of_def)
  qed (use new in simp)
  show ?thesis
    using walk_all [where root_step = "\<lambda>d. fix_props_one old new common d x 0"
        and step = "fix_props_one old new common" and f = "rebuilt db x q old new" and i = "cur_length xo",
        OF i x3(1) fix_props_root [OF m ok x old new] fix_props_step [OF m ok x old len]] moved_desc [OF m] x3 tree_core_fields(7) [OF x3(2)]
    by (simp add: fix_props_def)
qed

lemma fix_properties_patch:
  assumes m: "moved db db3 x q" and ok: "props_ok db" and x: "dbpriv_find_object db x = Some xo"
  obtains us vs ws where "chain_from o_parent db q = us @ ws" "chain_from o_parent db (o_parent xo) = vs @ ws"
    "set us \<inter> set (vs @ ws) = {}"
    "dbpriv_fix_properties_after_chparent db3 x (o_parent xo) =
       Some (patch db3 (desc db x) (rebuilt db x q (length (slots_along db vs)) (length (slots_along db us))))"
proof -
  have i: "inherit_ok db" "inherit_ok db3" and q: "q = NOTHING \<or> valid db q" "q \<notin> desc db x"
    using m by (simp_all add: moved_def)
  let ?p = "o_parent xo"
  have p: "?p = NOTHING \<or> valid db ?p" "?p \<notin> desc db x"
    using tree_ok_up [OF i(1) x] desc_not_up [OF x] by simp_all
  obtain as where as: "chain o_parent db3 q as" "chain_from o_parent db q = as"
    using moved_chain_q [OF m] by metis
  have "\<exists>bs. chain o_parent db ?p bs" using p(1) tree_ok_ancestors [OF i(1)] chain.simps(1) by blast
  then obtain bs where bs: "chain o_parent db ?p bs" ..
  moreover have "x \<notin> set bs" using bs p(2) by (auto simp: desc_def)
  ultimately have bs3: "chain o_parent db3 ?p bs" by (rule moved_chain_out [OF m])
  from nearest_common_spec [OF as(1) bs3] obtain us vs ws where
    s: "as = us @ ws" "bs = vs @ ws" "set us \<inter> set bs = {}" and
    nc: "nearest_common db3 q ?p = Some (case ws of [] \<Rightarrow> NOTHING | w # _ \<Rightarrow> w)" by blast
  have along: "slots_along db3 cs = slots_along db cs" for cs
    by (rule slots_along_cong) (rule moved_data [OF m])
  have cp: "dbpriv_count_properties db3 ?p = Some (length (slots_along db vs) + length (slots_along db ws))"
    using count_properties_slots [OF i(2)] p(1) moved_valid [OF m] bs3 s(2)
    by (simp add: slots_def chain_from_eq along slots_along_append)
  have cq: "dbpriv_count_properties db3 q = Some (length (slots_along db us) + length (slots_along db ws))"
    using count_properties_slots [OF i(2)] q(1) moved_valid [OF m] as(1) s(1)
    by (simp add: slots_def chain_from_eq along slots_along_append)
  have cw: "dbpriv_count_properties db3 w = Some (length (slots_along db ws))" if "ws = w # ws'" for w ws'
  proof -
    have "chain o_parent db3 w ws" using bs3 s(2) that by (metis chain_suffix_self)
    moreover from this that have "valid db3 w" by (auto simp: valid_def)
    ultimately show ?thesis using count_properties_slots [OF i(2)]
      by (simp add: slots_def chain_from_eq along)
  qed
  have "db_object_parent db3 x = Some q"
    using moved_find [OF m x] by (metis db_object_parent_def option.simps(9))
  moreover have "fix_props db3 x 0 (length (slots_along db vs)) (length (slots_along db us)) (length (slots_along db ws))
      = Some (patch db3 (desc db x) (rebuilt db x q (length (slots_along db vs)) (length (slots_along db us))))"
    by (rule fix_props_patch [OF m ok x])
      (use as bs s in \<open>simp_all add: slots_def chain_from_eq slots_along_append\<close>)
  ultimately have "dbpriv_fix_properties_after_chparent db3 x ?p =
       Some (patch db3 (desc db x) (rebuilt db x q (length (slots_along db vs)) (length (slots_along db us))))"
    using nc cp cq cw chain_NOTHING_notin [OF bs3]
    by (cases ws) (auto simp: dbpriv_fix_properties_after_chparent_def s(2))
  with that as(2) bs s show thesis by (simp add: chain_from_eq)
qed

section \<open>The tables after the move\<close>

lemma slots_along_fst: "fst ` set (slots_along db as) \<subseteq> set as"
  by (induction as) auto

lemma map_of_zip_append:
  "length as = length xs \<Longrightarrow> map_of (zip (as @ bs) (xs @ ys)) = map_of (zip bs ys) ++ map_of (zip as xs)"
  by simp

lemma map_of_zip_map: "map_of (zip as (map f xs)) = map_option f \<circ> map_of (zip as xs)"
proof (induction as arbitrary: xs)
  case (Cons a as)
  show ?case
  proof (cases xs)
    case (Cons b xs')
    with Cons.IH [of xs'] show ?thesis by (simp add: fun_eq_iff)
  qed (simp add: fun_eq_iff)
qed (simp add: fun_eq_iff)

lemma map_of_zip_dom: "length as = length xs \<Longrightarrow> dom (map_of (zip as xs)) = set as"
  by (simp add: dom_map_of_conv_image_fst flip: set_map)


text \<open>
  The new table of a descendant \<open>y\<close> of the moved object: what the moved subtree
  defines is kept; of what the new parent has, \<open>y\<close> keeps its own entry where it
  had one and gets a clear copy otherwise; everything else is gone.
\<close>

definition adopt :: "object \<Rightarrow> objid set \<Rightarrow> (slot_id \<rightharpoonup> pval) \<Rightarrow> (slot_id \<rightharpoonup> pval) \<Rightarrow> slot_id \<rightharpoonup> pval" where
  "adopt ob D mine theirs s =
     (if fst s \<in> D then mine s
      else case theirs s of
             None \<Rightarrow> None
           | Some pv \<Rightarrow> Some (case mine s of Some old \<Rightarrow> old | None \<Rightarrow> fresh_slot ob pv))"

lemma adopt_zip:
  assumes len: "length L = length X" "length V = length W" "length U = length N" "length C = length Y" "length Y = length Z"
    and L: "fst ` set L \<subseteq> D" and UD: "fst ` set U \<inter> D = {}" "fst ` set C \<inter> D = {}" "fst ` set V \<inter> D = {}"
    and dj: "fst ` set U \<inter> fst ` set V = {}" "fst ` set U \<inter> fst ` set C = {}" "fst ` set V \<inter> fst ` set C = {}"
  shows "map_of (zip (L @ U @ C) (X @ map (fresh_slot ob) N @ Y)) =
    adopt ob D (map_of (zip (L @ V @ C) (X @ W @ Y))) (map_of (zip (U @ C) (N @ Z)))"
proof
  fix s
  define mL mU mV mC mZ where m: "mL = map_of (zip L X)" "mU = map_of (zip U N)" "mV = map_of (zip V W)"
    "mC = map_of (zip C Y)" "mZ = map_of (zip C Z)"
  have dom: "dom mL = set L" "dom mU = set U" "dom mV = set V" "dom mC = set C" "dom mZ = set C"
    using len by (simp_all add: m map_of_zip_dom)
  have new: "map_of (zip (L @ U @ C) (X @ map (fresh_slot ob) N @ Y)) = (mC ++ (map_option (fresh_slot ob) \<circ> mU)) ++ mL"
    and mine: "map_of (zip (L @ V @ C) (X @ W @ Y)) = (mC ++ mV) ++ mL"
    and theirs: "map_of (zip (U @ C) (N @ Z)) = mZ ++ mU"
    using len by (simp_all add: m map_of_zip_map)
  have none: "mL s = None \<longleftrightarrow> s \<notin> set L" "mU s = None \<longleftrightarrow> s \<notin> set U" "mV s = None \<longleftrightarrow> s \<notin> set V"
    "mC s = None \<longleftrightarrow> s \<notin> set C" "mZ s = None \<longleftrightarrow> s \<notin> set C"
    using dom by (metis domIff)+
  have excl: "s \<in> set L \<Longrightarrow> fst s \<in> D" "s \<in> set U \<Longrightarrow> fst s \<notin> D" "s \<in> set C \<Longrightarrow> fst s \<notin> D"
    "s \<in> set V \<Longrightarrow> fst s \<notin> D" "s \<in> set U \<Longrightarrow> s \<notin> set V" "s \<in> set U \<Longrightarrow> s \<notin> set C" "s \<in> set V \<Longrightarrow> s \<notin> set C"
    using L UD dj by (meson disjoint_iff image_eqI subsetD)+
  have eq: "((mC ++ (map_option (fresh_slot ob) \<circ> mU)) ++ mL) s = adopt ob D ((mC ++ mV) ++ mL) (mZ ++ mU) s"
  proof (cases "fst s \<in> D")
    case True
    then have "mU s = None" "mV s = None" "mC s = None" using excl none by auto
    with True show ?thesis by (cases "mL s") (simp_all add: adopt_def map_add_def)
  next
    case False
    then have "mL s = None" using excl none by auto
    moreover have "mU s \<noteq> None \<Longrightarrow> mV s = None \<and> mC s = None" "mV s \<noteq> None \<Longrightarrow> mC s = None"
      "mC s = None \<longleftrightarrow> mZ s = None" using excl none by auto
    ultimately show ?thesis using False
      by (cases "mU s"; cases "mV s"; cases "mC s"; cases "mZ s") (simp_all add: adopt_def map_add_def)
  qed
  show "map_of (zip (L @ U @ C) (X @ map (fresh_slot ob) N @ Y)) s =
    adopt ob D (map_of (zip (L @ V @ C) (X @ W @ Y))) (map_of (zip (U @ C) (N @ Z))) s"
    unfolding new mine theirs by (rule eq)
qed

lemma slots_along_mem: "s \<in> set (slots_along db as) \<Longrightarrow> fst s \<in> set as \<and> snd s \<in> set (propdefs_of db (fst s))"
  by (induction as) auto

lemma local_desc:
  assumes "y \<in> desc db x" "s \<in> set (pre db x y @ map (Pair x) (propdefs_of db x))"
  shows "fst s \<in> desc db x \<and> snd s \<in> set (propdefs_of db (fst s))"
proof -
  from assms(1) obtain as where "chain o_parent db y as" "x \<in> set as" by (auto simp: desc_def)
  then obtain vs where "chain o_parent db x (x # vs)" using chain_tail_of by metis
  then have xd: "x \<in> desc db x" unfolding desc_def by (metis (mono_tags) list.set_intros(1) mem_Collect_eq)
  show ?thesis
  proof (cases "s \<in> set (pre db x y)")
    case True
    then show ?thesis using between_desc [OF assms(1)] slots_along_mem unfolding pre_def by blast
  next
    case False
    with assms(2) xd show ?thesis by auto
  qed
qed

lemma moved_names:
  assumes m: "moved db db3 x q" and ok: "props_ok db" and x: "dbpriv_find_object db x = Some xo"
    and cf: "clash_free db x q" and y: "y \<in> desc db x"
  shows "distinct (map slot_name (slots db3 y))"
proof -
  have i: "inherit_ok db" using m by (simp add: moved_def)
  let ?L = "pre db x y @ map (Pair x) (pl_l (o_propdefs xo))"
  have "valid db y" using desc_valid [OF y] by simp
  then obtain ob where ob: "dbpriv_find_object db y = Some ob" by (rule validE)
  have "slots db y = ?L @ slots db (o_parent xo)" using slots_split [OF i y] slots_step [OF i x] by simp
  then have "distinct (map slot_name ?L)"
    using props_okD [OF ok ob] by (metis distinct_append map_append props_ok_at_def)
  moreover have "distinct (map slot_name (slots db q))"
  proof (cases "q = NOTHING")
    case False
    with m have "valid db q" by (simp add: moved_def)
    then obtain qo where "dbpriv_find_object db q = Some qo" by (rule validE)
    with props_okD [OF ok this] show ?thesis by (simp add: props_ok_at_def)
  qed simp
  moreover have "slot_name s \<noteq> slot_name t" if "s \<in> set ?L" "t \<in> set (slots db q)" for s t
  proof
    assume eq: "slot_name s = slot_name t"
    have "fst s \<in> desc db x" "snd s \<in> set (propdefs_of db (fst s))"
      using local_desc [OF y, of s] that(1) x by (auto simp: propdefs_of_def)
    moreover have "fst t \<in> set (chain_from o_parent db q)" "snd t \<in> set (propdefs_of db (fst t))"
      using that(2) slots_along_mem unfolding slots_def by blast+
    ultimately show False using cf eq unfolding clash_free_def defines_prop_def slot_name_def by blast
  qed
  ultimately show ?thesis using moved_slots_in(1) [OF m x y] by (fastforce simp: disjoint_iff)
qed

text \<open>What lies above an object outside the subtree of \<open>x\<close> is outside it.\<close>

lemma not_desc_above:
  assumes ok: "inherit_ok db" and q: "q = NOTHING \<or> valid db q" "q \<notin> desc db x"
    and z: "z \<in> set (chain_from o_parent db q)"
  shows "z \<notin> desc db x"
proof
  assume "z \<in> desc db x"
  then obtain bs where bs: "chain o_parent db z bs" "x \<in> set bs" by (auto simp: desc_def)
  have "q \<noteq> NOTHING" using z by auto
  with q(1) have v: "valid db q" by simp
  note ch = chain_chain_from [OF ok v]
  from chain_tail_of [OF ch z] obtain us vs where
    "chain_from o_parent db q = us @ z # vs" "chain o_parent db z (z # vs)" by blast
  moreover from this(2) bs(1) have "bs = z # vs" by (metis chain_unique)
  ultimately have "x \<in> set (chain_from o_parent db q)" using bs(2) by auto
  with ch q(2) show False unfolding desc_def by blast
qed

lemma moved_table:
  assumes m: "moved db db3 x q" and ok: "props_ok db" and x: "dbpriv_find_object db x = Some xo"
    and as: "chain_from o_parent db q = us @ ws" "chain_from o_parent db (o_parent xo) = vs @ ws"
      "set us \<inter> set (vs @ ws) = {}"
    and y: "y \<in> desc db x" "dbpriv_find_object db y = Some ob"
  defines "pvs \<equiv> rebuilt db x q (length (slots_along db vs)) (length (slots_along db us)) y (o_propval ob)"
  shows "map_of (zip (slots db3 y) pvs) = adopt ob (desc db x) (ptab db y) (ptab db q)"
    and "length pvs = length (slots db3 y)"
proof -
  have i: "inherit_ok db" using m by (simp add: moved_def)
  have q: "q = NOTHING \<or> valid db q" "q \<notin> desc db x" using m by (simp_all add: moved_def)
  have par: "o_parent xo = NOTHING \<or> valid db (o_parent xo)" by (rule tree_ok_up [OF i x])
  define L where "L = pre db x y @ map (Pair x) (pl_l (o_propdefs xo))"
  let ?V = "slots_along db vs" and ?U = "slots_along db us" and ?C = "slots_along db ws"
  define X W Y N Z where p: "X = take (length L) (o_propval ob)" "W = take (length ?V) (drop (length L) (o_propval ob))"
    "Y = drop (length ?V) (drop (length L) (o_propval ob))" "N = take (length ?U) (propvals_of db q)"
    "Z = drop (length ?U) (propvals_of db q)"
  have sy: "slots db y = L @ ?V @ ?C" and sq: "slots db q = ?U @ ?C" and s3: "slots db3 y = L @ ?U @ ?C"
    using slots_split [OF i y(1)] slots_step [OF i x] moved_slots_in(1) [OF m x y(1)] as
    by (simp_all add: slots_def slots_along_append L_def)
  have lob: "length (o_propval ob) = length (slots db y)" using props_okD [OF ok y(2)] by (simp add: props_ok_at_def)
  have lq: "length (propvals_of db q) = length (slots db q)"
  proof (cases "q = NOTHING")
    case False
    with m have "valid db q" by (simp add: moved_def)
    then obtain qo where "dbpriv_find_object db q = Some qo" by (rule validE)
    with props_okD [OF ok this] show ?thesis by (simp add: props_ok_at_def propvals_of_def)
  qed (simp add: propvals_of_def)
  have lens: "length L = length X" "length ?V = length W" "length ?U = length N" "length ?C = length Y" "length Y = length Z"
    using lob lq sy sq by (simp_all add: p)
  have split: "o_propval ob = X @ W @ Y" "propvals_of db q = N @ Z" by (simp_all add: p del: drop_drop)
  have pvs: "pvs = X @ map (fresh_slot ob) N @ Y"
    by (simp add: pvs_def rebuilt_def x y Let_def p L_def slot_off_def cur_length_def add.commute)
  then show "length pvs = length (slots db3 y)" using lens s3 by simp
  have "set (us @ ws) \<inter> desc db x = {}" "set (vs @ ws) \<inter> desc db x = {}"
    using not_desc_above [OF i q] not_desc_above [OF i par desc_not_up [OF x]] as(1,2) by (metis disjoint_iff)+
  then have nd: "set us \<inter> desc db x = {}" "set vs \<inter> desc db x = {}" "set ws \<inter> desc db x = {}" by auto
  have dist: "set vs \<inter> set ws = {}"
  proof (cases "o_parent xo = NOTHING")
    case False
    with par have "distinct (vs @ ws)" using chain_chain_from [OF i] as(2) chain_distinct by metis
    then show ?thesis by simp
  qed (use as(2) in simp)
  have uv: "set us \<inter> set vs = {}" "set us \<inter> set ws = {}" using as(3) by auto
  have Ld: "fst ` set L \<subseteq> desc db x"
  proof (intro image_subsetI)
    fix s assume "s \<in> set L"
    then have "s \<in> set (pre db x y @ map (Pair x) (propdefs_of db x))" using x by (simp add: L_def propdefs_of_def)
    from local_desc [OF y(1) this] show "fst s \<in> desc db x" by simp
  qed
  note f = slots_along_fst [of db us] slots_along_fst [of db vs] slots_along_fst [of db ws]
  have disj: "fst ` set ?U \<inter> desc db x = {}" "fst ` set ?C \<inter> desc db x = {}" "fst ` set ?V \<inter> desc db x = {}"
    "A \<subseteq> B \<Longrightarrow> C \<subseteq> D \<Longrightarrow> B \<inter> D = {} \<Longrightarrow> A \<inter> C = {}" for A B C D :: "objid set"
    using f nd by auto
  have "map_of (zip (slots db3 y) pvs) =
      adopt ob (desc db x) (map_of (zip (L @ ?V @ ?C) (X @ W @ Y))) (map_of (zip (?U @ ?C) (N @ Z)))"
    unfolding s3 pvs
    by (rule adopt_zip [OF lens Ld disj(1-3) disj(4) [OF f(1,2) uv(1)] disj(4) [OF f(1,3) uv(2)]
          disj(4) [OF f(2,3) dist]])
  then show "map_of (zip (slots db3 y) pvs) = adopt ob (desc db x) (ptab db y) (ptab db q)"
    using split sy sq y(2) by (simp add: ptab_def propvals_of_def)
qed

lemma moved_props_ok:
  assumes m: "moved db db3 x q" and ok: "props_ok db" and x: "dbpriv_find_object db x = Some xo"
    and cf: "clash_free db x q"
    and as: "chain_from o_parent db q = us @ ws" "chain_from o_parent db (o_parent xo) = vs @ ws"
      "set us \<inter> set (vs @ ws) = {}"
  defines "f \<equiv> rebuilt db x q (length (slots_along db vs)) (length (slots_along db us))"
  shows "props_ok (patch db3 (desc db x) f)"
    and "valid db y \<Longrightarrow> ptab (patch db3 (desc db x) f) y =
      (if y \<in> desc db x then adopt (the (dbpriv_find_object db y)) (desc db x) (ptab db y) (ptab db q)
       else ptab db y)"
proof -
  have i: "inherit_ok db" using m by (simp add: moved_def)
  have out: "slots db3 y = slots db y" if "valid db y" "y \<notin> desc db x" for y
    using moved_slots_out [OF m] that by blast
  have obj: "props_ok_at (patch db3 (desc db x) f) y ob'"
    if y': "dbpriv_find_object (patch db3 (desc db x) f) y = Some ob'" for y ob'
  proof -
    have "valid db y" using y' moved_valid [OF m] by (metis validI valid_patch)
    then obtain ob where y: "dbpriv_find_object db y = Some ob" by (rule validE)
    from moved_find [OF m y] obtain ob3 where y3: "dbpriv_find_object db3 y = Some ob3" "tree_core ob3 = tree_core ob" .
    note old = props_okD [OF ok y, unfolded props_ok_at_def] and tc = tree_core_fields [OF y3(2)]
    have ob': "ob' = ob3\<lparr>o_propval := if y \<in> desc db x then f y (o_propval ob) else o_propval ob\<rparr>"
      using y' find_patch_ex [OF y3(1), of "desc db x" f] tc(2) by simp
    show ?thesis
    proof (cases "y \<in> desc db x")
      case True
      have "cur_length ob \<le> slot_off db x (cur_length xo) y"
        using own_slots_before [OF i y, of x "cur_length xo"] slot_off_self [OF i validI [OF x]] x y by (cases "y = x") auto
      then have "take (cur_length ob) (f y (o_propval ob)) = take (cur_length ob) (o_propval ob)"
        using slots_desc_length [OF i ok x True y] by (simp add: f_def rebuilt_def x Let_def min_absorb1)
      with True old tc moved_names [OF m ok x cf True] moved_table(2) [OF m ok x as True y] show ?thesis
        by (simp add: props_ok_at_def ob' f_def cur_length_def)
    next
      case False
      with old tc out [OF validI [OF y] False] show ?thesis
        by (simp add: props_ok_at_def ob' cur_length_def)
    qed
  qed
  show "props_ok (patch db3 (desc db x) f)" using obj by (simp add: props_ok_def)
  assume v: "valid db y"
  then obtain ob where y: "dbpriv_find_object db y = Some ob" by (rule validE)
  from moved_find [OF m y] obtain ob3 where y3: "dbpriv_find_object db3 y = Some ob3" "tree_core ob3 = tree_core ob" .
  have "propvals_of (patch db3 (desc db x) f) y = (if y \<in> desc db x then f y (o_propval ob) else o_propval ob)"
    using find_patch_ex [OF y3(1), of "desc db x" f] tree_core_fields(2) [OF y3(2)] by (simp add: propvals_of_def)
  then show "ptab (patch db3 (desc db x) f) y =
      (if y \<in> desc db x then adopt (the (dbpriv_find_object db y)) (desc db x) (ptab db y) (ptab db q)
       else ptab db y)"
    using moved_table(1) [OF m ok x as _ y] out [OF v] y
    by (simp add: ptab_def f_def) (simp add: propvals_of_def)
qed

lemma children_patch: "children_are (patch db V f) y cs \<longleftrightarrow> children_are db y cs"
  using patch_find_rel [of o_child db V f y]
  by (cases "dbpriv_find_object db y") (auto simp: kids_are_def find_patch)

section \<open>Changing the parent\<close>

definition parent_rest :: "object \<Rightarrow> object" where
  "parent_rest ob = (tree_core ob)\<lparr>o_propval := []\<rparr>"

definition db_childless :: "db \<Rightarrow> objid \<Rightarrow> bool" where
  "db_childless db x = (case dbpriv_find_object db x of
     None \<Rightarrow> True | Some ob \<Rightarrow> o_child ob = NOTHING \<and> o_verbdefs ob = [])"

lemma db_change_parent_refused:
  assumes "inherit_ok db" "props_ok db" "valid db x" "q = NOTHING \<or> valid db q" "\<not> clash_free db x q"
  shows "db_change_parent db x q = Some (db, False)"
  using assms by (simp add: db_change_parent_def check_properties_spec)

lemma db_change_parent_ok:
  assumes ok: "inherit_ok db" "props_ok db" and x: "valid db x" and q: "q = NOTHING \<or> valid db q" "q \<notin> desc db x"
    and cf: "clash_free db x q"
  shows "\<exists>db'. db_change_parent db x q = Some (db', True) \<and> inherit_ok db' \<and> props_ok db'
      \<and> keeps parent_rest db db'
      \<and> db' = (if db_childless db x then db else db_priv_affected_callable_verb_lookup db)\<lparr>objects := objects db'\<rparr>
      \<and> db_object_parent db' x = Some q
      \<and> (\<forall>y cs. children_are db y cs \<longrightarrow>
            children_are db' y (removeAll x cs @ (if y = q then [x] else [])))
      \<and> (\<forall>y. valid db y \<longrightarrow> ptab db' y =
            (if y \<in> desc db x
             then adopt (the (dbpriv_find_object db y)) (desc db x) (ptab db y) (ptab db q)
             else ptab db y))"
proof -
  from x obtain xo where xo: "dbpriv_find_object db x = Some xo" by (rule validE)
  define db0 where "db0 = (if o_child xo = NOTHING \<and> o_verbdefs xo = [] then db
      else db_priv_affected_callable_verb_lookup db)"
  have f0: "dbpriv_find_object db0 = dbpriv_find_object db" by (simp add: db0_def)
  note s0 = same_objects [OF f0]
  have ok0: "inherit_ok db0" "props_ok db0" and xo0: "dbpriv_find_object db0 x = Some xo" and q0: "q \<notin> desc db0 x"
    using ok xo q f0 s0 by simp_all
  have qv: "q = NOTHING \<or> valid db0 q" using q(1) s0(1) by simp
  then have "\<exists>as. chain o_parent db0 q as" using tree_ok_ancestors [OF ok0(1)] chain.simps(1) by blast
  then obtain as where as: "chain o_parent db0 q as" ..
  then have "x \<notin> set as" using q0 by (auto simp: desc_def)
  from inherit.move_spec [OF ok0(1) xo0 as this] obtain db1 db2 db3 N x3 where
    st: "(if o_parent xo \<noteq> NOTHING then LL_REMOVE o_child o_child_update o_sibling o_sibling_update (o_parent xo) x db0
          else Some db0) = Some db1"
      "(if q \<noteq> NOTHING then LL_APPEND o_child o_child_update o_sibling o_sibling_update q x db1 else Some db1) = Some db2"
      "modify_obj db2 x (o_parent_update (\<lambda>_. q)) = Some db3"
    and fr: "link_frame o_child o_sibling o_parent tree_core {o_parent xo, q} N {x} db0 db3"
    and ok3: "inherit_ok db3" and x3: "dbpriv_find_object db3 x = Some x3" "o_parent x3 = q"
    and kids: "\<And>y cs. children_are db0 y cs \<Longrightarrow> children_are db3 y (removeAll x cs @ (if y = q then [x] else []))"
    by blast
  have m: "moved db0 db3 x q"
    by (rule movedI [OF ok0(1) ok3 fr x3 q0 qv])
  obtain us vs ws where sp: "chain_from o_parent db0 q = us @ ws" "chain_from o_parent db0 (o_parent xo) = vs @ ws"
    "set us \<inter> set (vs @ ws) = {}" and
    fx: "dbpriv_fix_properties_after_chparent db3 x (o_parent xo) =
       Some (patch db3 (desc db0 x) (rebuilt db0 x q (length (slots_along db0 vs)) (length (slots_along db0 us))))"
    (is "_ = Some ?db'")
    by (rule fix_properties_patch [OF m ok0(2) xo0])
  have cf0: "clash_free db0 x q" using cf
    by (simp add: clash_free_def s0(3,7) defines_prop_def propdefs_of_def f0)
  have "dbpriv_check_properties_for_chparent db x q = Some True"
    using check_properties_spec [OF ok x q(1)] cf by simp
  then have run: "db_change_parent db x q = Some (?db', True)"
    by (simp only: db_change_parent_def xo bind.bind_lunit not_True_eq_False if_False Let_def db0_def [symmetric] st fx)
  note res = moved_props_ok [OF m ok0(2) xo0 cf0 sp]
  have "inherit_ok ?db'" using same_tree_ok [OF same_tree_patch] ok3 by blast
  moreover have "db_object_parent ?db' x = Some q"
    using find_patch_ex [OF x3(1)] x3(2) by (auto simp: db_object_parent_def)
  moreover have "children_are ?db' y (removeAll x cs @ (if y = q then [x] else []))" if "children_are db y cs" for y cs
    using kids [of y cs] that s0(4) by (simp add: children_patch)
  moreover have "ptab ?db' y = (if y \<in> desc db x
      then adopt (the (dbpriv_find_object db y)) (desc db x) (ptab db y) (ptab db q) else ptab db y)" if "valid db y" for y
    using res(2) [of y] that by (simp add: s0(1,7,9) f0)
  moreover have "keeps parent_rest db ?db'"
  proof (rule keeps_trans [OF keeps_same [OF f0]], rule keeps_trans [OF keeps_frame [OF fr]])
    show "keeps parent_rest db3 ?db'" by (rule keeps_patch) (simp add: parent_rest_def tree_core_def)
  qed (simp add: parent_rest_def)
  moreover have "?db' = (if db_childless db x then db else db_priv_affected_callable_verb_lookup db)\<lparr>objects := objects ?db'\<rparr>"
  proof -
    have "db0 = (if db_childless db x then db else db_priv_affected_callable_verb_lookup db)"
      by (simp add: db0_def db_childless_def xo)
    moreover have d3: "db3 = db0\<lparr>objects := objects db3\<rparr>" using fr by (simp only: link_frame_def)
    have "db3\<lparr>objects := m\<rparr> = db0\<lparr>objects := m\<rparr>" for m by (subst d3) simp
    ultimately show ?thesis using patch_rest [of db3 "desc db0 x"] by simp
  qed
  ultimately show ?thesis using run res(1) by blast
qed

end
