(* ===== verification/DbOk.thy ===== *)
theory DbOk
  imports ChParent
begin

text \<open>
  The invariant of the object database, and the operations of
  \<^verbatim>\<open>db_objects.c\<close> that keep it: creation, destruction, attributes, the list of
  users, and the two ways of moving an object.
\<close>

section \<open>The invariant\<close>

definition users_ok :: "db \<Rightarrow> bool" where
  "users_ok db \<longleftrightarrow> distinct (all_users db) \<and> set (all_users db) = TYPE_OBJ ` {x. is_user db x}"

definition db_ok :: "db \<Rightarrow> bool" where
  "db_ok db \<longleftrightarrow> 0 \<le> num_objects db \<and> num_objects db \<le> max_objects db \<and> inherit_ok db \<and> place_ok db \<and> props_ok db \<and> users_ok db"

lemma db_okD:
  assumes "db_ok db"
  shows "0 \<le> num_objects db" "num_objects db \<le> max_objects db" "inherit_ok db" "place_ok db" "props_ok db" "users_ok db"
  using assms by (simp_all add: db_ok_def)

section \<open>Frames\<close>

definition place_links :: "object \<Rightarrow> objid \<times> objid \<times> objid" where
  "place_links ob = (o_contents ob, o_next ob, o_location ob)"

definition prop_data :: "object \<Rightarrow> objid \<times> proplist \<times> pval list" where
  "prop_data ob = (o_id ob, o_propdefs ob, o_propval ob)"

lemma keeps_place: "keeps place_links db db' \<Longrightarrow> place_ok db' \<longleftrightarrow> place_ok db"
proof -
  assume k: "keeps place_links db db'"
  have "keeps o_contents db db'" "keeps o_next db db'" "keeps o_location db db'"
    by (rule keeps_via [OF k, of _ fst], simp add: place_links_def,
        rule keeps_via [OF k, of _ "fst \<circ> snd"], simp add: place_links_def,
        rule keeps_via [OF k, of _ "snd \<circ> snd"], simp add: place_links_def)
  then show ?thesis by (intro tree_ok_fields) (simp_all add: keeps_def)
qed

lemma keeps_tree: "keeps tree_links db db' \<longleftrightarrow> same_tree db db'"
  by (simp add: keeps_def same_tree_def)

lemma keeps_props:
  assumes t: "keeps tree_links db db'" and d: "keeps prop_data db db'"
  shows "slots db' y = slots db y" "ptab db' y = ptab db y" "props_ok db' \<longleftrightarrow> props_ok db"
proof -
  have data: "propdefs_of db' z = propdefs_of db z" "propvals_of db' z = propvals_of db z" for z
    using d [unfolded keeps_def, rule_format, of z]
    by (cases "dbpriv_find_object db z"; cases "dbpriv_find_object db' z";
        simp add: propdefs_of_def propvals_of_def prop_data_def)+
  show sl: "slots db' z = slots db z" for z
    by (rule slots_cong) (use t data in \<open>simp_all add: keeps_tree\<close>)
  show "ptab db' y = ptab db y" by (simp add: ptab_def sl data)
  have at: "props_ok_at db' z ob' = props_ok_at db z ob" if "prop_data ob' = prop_data ob" for z ob ob'
    using that by (simp add: props_ok_at_def sl prop_data_def cur_length_def)
  have "(\<forall>ob'. dbpriv_find_object db' z = Some ob' \<longrightarrow> props_ok_at db' z ob') \<longleftrightarrow>
      (\<forall>ob. dbpriv_find_object db z = Some ob \<longrightarrow> props_ok_at db z ob)" for z
  proof (cases "dbpriv_find_object db z"; cases "dbpriv_find_object db' z")
    fix a b assume "dbpriv_find_object db z = Some a" "dbpriv_find_object db' z = Some b"
    with d [unfolded keeps_def, rule_format, of z] at [of b a z] show ?thesis by simp
  qed (use d [unfolded keeps_def, rule_format, of z] in simp_all)
  then show "props_ok db' \<longleftrightarrow> props_ok db" unfolding props_ok_def by simp
qed

lemma keeps_is_user: "keeps o_flags db db' \<Longrightarrow> is_user db' x = is_user db x"
proof -
  assume k: "keeps o_flags db db'"
  then have "map_option o_flags (dbpriv_find_object db' x) = map_option o_flags (dbpriv_find_object db x)"
    by (simp add: keeps_def)
  then show ?thesis
    by (cases "dbpriv_find_object db x"; cases "dbpriv_find_object db' x")
       (simp_all add: is_user_def valid_def db_object_has_flag_def)
qed

lemma keeps_users:
  "keeps o_flags db db' \<Longrightarrow> all_users db' = all_users db \<Longrightarrow> users_ok db' \<longleftrightarrow> users_ok db"
  by (simp add: users_ok_def keeps_is_user)

lemma db_ok_keeps:
  assumes "db_ok db" "keeps tree_links db db'" "keeps place_links db db'" "keeps prop_data db db'"
    "keeps o_flags db db'" "all_users db' = all_users db" "num_objects db' = num_objects db"
    "max_objects db' = max_objects db"
  shows "db_ok db'"
  using assms same_tree_ok [of db db'] keeps_place keeps_props(3) keeps_users
  by (simp add: db_ok_def keeps_tree)

section \<open>The list of users\<close>

lemma obj_key_inj: "inj_on (val_key False) (range TYPE_OBJ)"
  by (auto simp: inj_on_def)

lemma obj_list_keys:
  assumes "set us = TYPE_OBJ ` X"
  shows "list_all user_value us" "distinct us \<longleftrightarrow> distinct (map (val_key False) us)"
    "val_key False ` set us = KNum 1 ` X"
proof -
  show "list_all user_value us" using assms by (auto simp: list_all_iff)
  have "inj_on (val_key False) (set us)" using obj_key_inj assms by (auto simp: inj_on_def)
  then show "distinct us \<longleftrightarrow> distinct (map (val_key False) us)" by (simp add: distinct_map)
  show "val_key False ` set us = KNum 1 ` X" by (simp add: assms image_image)
qed

lemma keys_back:
  assumes "list_all user_value ys" "val_key False ` set ys = KNum 1 ` X" "distinct (map (val_key False) ys)"
  shows "set ys = TYPE_OBJ ` X" "distinct ys"
proof -
  have "v \<in> TYPE_OBJ ` X" if "v \<in> set ys" for v
  proof -
    have "val_key False v \<in> val_key False ` set ys" using that by (rule imageI)
    then have "val_key False v \<in> KNum 1 ` X" unfolding assms(2) .
    moreover have "user_value v" using that assms(1) by (auto simp: list_all_iff)
    ultimately show ?thesis by (cases v rule: var.exhaust) auto
  qed
  moreover have "TYPE_OBJ n \<in> set ys" if "n \<in> X" for n
  proof -
    have "KNum 1 n \<in> val_key False ` set ys" unfolding assms(2) using that by (rule imageI)
    then obtain v where v: "v \<in> set ys" "val_key False v = KNum 1 n" by (metis imageE)
    moreover have "user_value v" using v(1) assms(1) by (auto simp: list_all_iff)
    ultimately show ?thesis by (cases v rule: var.exhaust) auto
  qed
  ultimately show "set ys = TYPE_OBJ ` X" by blast
  show "distinct ys" using assms(3) by (simp add: distinct_map)
qed

lemma setadd_obj:
  assumes "set us = TYPE_OBJ ` X" "distinct us"
  shows "\<exists>ys. setadd us (TYPE_OBJ x) = Some ys \<and> set ys = TYPE_OBJ ` insert x X \<and> distinct ys"
proof -
  note k = obj_list_keys [OF assms(1)]
  from moo_set.add_spec [OF _ k(1), of "TYPE_OBJ x"] obtain ys where
    ys: "setadd us (TYPE_OBJ x) = Some ys" "list_all user_value ys"
    "val_key False ` set ys = KNum 1 ` insert x X" "distinct (map (val_key False) ys)"
    using k(2,3) assms(2) by auto
  from keys_back [OF ys(2-4)] ys(1) show ?thesis by blast
qed

lemma setremove_obj:
  assumes "set us = TYPE_OBJ ` X" "distinct us"
  shows "\<exists>ys. setremove us (TYPE_OBJ x) = Some ys \<and> set ys = TYPE_OBJ ` (X - {x}) \<and> distinct ys"
proof -
  note k = obj_list_keys [OF assms(1)]
  from moo_set.remove_spec [OF _ k(1), of "TYPE_OBJ x"] obtain ys where
    ys: "setremove us (TYPE_OBJ x) = Some ys" "list_all user_value ys"
    "val_key False ` set ys = KNum 1 ` X - {KNum 1 x}" "distinct (map (val_key False) ys)"
    using k(2,3) assms(2) by auto
  have "KNum 1 ` X - {KNum 1 x} = KNum 1 ` (X - {x})" by (auto simp: inj_image_mem_iff)
  with keys_back [of ys "X - {x}"] ys show ?thesis by auto
qed

lemma has_flag_bit:
  "db_object_has_flag db x f = map_option (\<lambda>ob. bit (o_flags ob) f) (dbpriv_find_object db x)"
  unfolding db_object_has_flag_def bit_iff_and_push_bit_not_eq_0 ..

lemma is_user_bit:
  "dbpriv_find_object db x = Some ob \<Longrightarrow> is_user db x \<longleftrightarrow> bit (o_flags ob) FLAG_USER"
  by (simp add: is_user_def valid_def has_flag_bit)

lemma flag_bits:
  fixes w :: "16 word"
  shows "bit (or w (push_bit f 1)) g \<longleftrightarrow> (f = g \<and> f < 16) \<or> bit w g"
    and "bit (and w (not (push_bit f 1))) g \<longleftrightarrow> f \<noteq> g \<and> bit w g"
  by (auto simp: bit_simps dest: bit_imp_le_length)

section \<open>Attributes\<close>

lemma db_set_object_name_ok:
  assumes "db_ok db" "valid db x"
  shows "\<exists>db'. db_set_object_name db x s = Some db' \<and> db_ok db' \<and> db_object_name db' x = Some s"
proof -
  from assms(2) obtain ob where ob: "dbpriv_find_object db x = Some ob" by (rule validE)
  have "db_ok (db\<lparr>objects := (objects db)(x \<mapsto> ob\<lparr>o_name := s\<rparr>)\<rparr>)"
    by (rule db_ok_keeps [OF assms(1)]) (simp_all add: keeps_put [OF ob] tree_links_def place_links_def prop_data_def)
  with ob show ?thesis by (simp add: db_set_object_name_def modify_obj_Some db_object_name_def)
qed

lemma db_set_object_owner_ok:
  assumes "db_ok db" "valid db x"
  shows "\<exists>db'. db_set_object_owner db x ow = Some db' \<and> db_ok db' \<and> db_object_owner db' x = Some ow"
proof -
  from assms(2) obtain ob where ob: "dbpriv_find_object db x = Some ob" by (rule validE)
  have "db_ok (db\<lparr>objects := (objects db)(x \<mapsto> ob\<lparr>o_owner := ow\<rparr>)\<rparr>)"
    by (rule db_ok_keeps [OF assms(1)]) (simp_all add: keeps_put [OF ob] tree_links_def place_links_def prop_data_def)
  with ob show ?thesis by (simp add: db_set_object_owner_def modify_obj_Some db_object_owner_def)
qed

text \<open>A change of the flags of one object, together with the list of users.\<close>

lemma find_all_users:
  "dbpriv_find_object db x = Some ob \<Longrightarrow>
   dbpriv_find_object (db\<lparr>objects := (objects db)(x \<mapsto> ob'), all_users := us\<rparr>) y =
     (if y = x then Some ob' else dbpriv_find_object db y)"
  using find_range [of db x ob] by (auto simp: dbpriv_find_object_def)

lemma flags_ok:
  assumes ok: "db_ok db" and ob: "dbpriv_find_object db x = Some ob"
    and us: "distinct us"
      "set us = TYPE_OBJ ` {y. if y = x then bit w FLAG_USER else is_user db y}"
  shows "db_ok (db\<lparr>objects := (objects db)(x \<mapsto> ob\<lparr>o_flags := w\<rparr>), all_users := us\<rparr>)" (is "db_ok ?db'")
proof -
  note f = find_all_users [OF ob]
  have "keeps tree_links db ?db'" "keeps place_links db ?db'" "keeps prop_data db ?db'"
    using ob by (simp_all add: keeps_def f tree_links_def place_links_def prop_data_def)
  moreover have "is_user ?db' y \<longleftrightarrow> (if y = x then bit w FLAG_USER else is_user db y)" for y
    using ob by (simp add: is_user_def valid_def has_flag_bit f)
  ultimately show ?thesis using ok us same_tree_ok [of db ?db'] keeps_place [of db ?db'] keeps_props(3) [of db ?db']
    by (simp add: db_ok_def users_ok_def keeps_tree)
qed

lemma db_set_object_flag_ok:
  assumes ok: "db_ok db" and x: "valid db x" and f: "f < 16"
  shows "\<exists>db'. db_set_object_flag db x f = Some db' \<and> db_ok db'
      \<and> (\<forall>y g. db_object_has_flag db' y g =
            (if y = x \<and> g = f then Some True else db_object_has_flag db y g))"
proof -
  from x obtain ob where ob: "dbpriv_find_object db x = Some ob" by (rule validE)
  let ?w = "or (o_flags ob) (push_bit f 1)"
  have us: "distinct (all_users db)" "set (all_users db) = TYPE_OBJ ` {y. is_user db y}"
    using ok by (simp_all add: db_ok_def users_ok_def)
  have xu: "is_user db x \<longleftrightarrow> bit (o_flags ob) FLAG_USER"
    by (rule is_user_bit [OF ob])
  obtain ys where ys: "(if f = FLAG_USER then setadd (all_users db) (TYPE_OBJ x) else Some (all_users db)) = Some ys"
    "distinct ys" "set ys = TYPE_OBJ ` {y. if y = x then bit ?w FLAG_USER else is_user db y}"
  proof (cases "f = FLAG_USER")
    case True
    moreover from setadd_obj [OF us(2,1), of x] obtain ys where
      "setadd (all_users db) (TYPE_OBJ x) = Some ys" "set ys = TYPE_OBJ ` insert x {y. is_user db y}" "distinct ys" by blast
    moreover have "{y. if y = x then bit ?w FLAG_USER else is_user db y} = insert x {y. is_user db y}"
      using True f by (auto simp: flag_bits simp del: push_bit_of_1)
    ultimately show thesis using that by simp
  next
    case False
    have "{y. if y = x then bit ?w FLAG_USER else is_user db y} = {y. is_user db y}"
      using False xu by (auto simp: flag_bits simp del: push_bit_of_1)
    with us False that show thesis by simp
  qed
  define db' where "db' = db\<lparr>objects := (objects db)(x \<mapsto> ob\<lparr>o_flags := ?w\<rparr>), all_users := ys\<rparr>"
  have "db_set_object_flag db x f = Some db'"
    using ys(1) by (cases "f = FLAG_USER") (auto simp: db_set_object_flag_def modify_obj_Some [OF ob] db'_def)
  moreover have "db_ok db'" unfolding db'_def by (rule flags_ok [OF ok ob ys(2,3)])
  moreover have "db_object_has_flag db' y g = (if y = x \<and> g = f then Some True else db_object_has_flag db y g)" for y g
    using ob f by (auto simp: db'_def has_flag_bit find_all_users flag_bits simp del: push_bit_of_1)
  ultimately show ?thesis by blast
qed

lemma db_clear_object_flag_ok:
  assumes ok: "db_ok db" and x: "valid db x"
  shows "\<exists>db'. db_clear_object_flag db x f = Some db' \<and> db_ok db'
      \<and> (\<forall>y g. db_object_has_flag db' y g =
            (if y = x \<and> g = f then Some False else db_object_has_flag db y g))"
proof -
  from x obtain ob where ob: "dbpriv_find_object db x = Some ob" by (rule validE)
  let ?w = "and (o_flags ob) (not (push_bit f 1))"
  have us: "distinct (all_users db)" "set (all_users db) = TYPE_OBJ ` {y. is_user db y}"
    using ok by (simp_all add: db_ok_def users_ok_def)
  have xu: "is_user db x \<longleftrightarrow> bit (o_flags ob) FLAG_USER"
    by (rule is_user_bit [OF ob])
  obtain ys where ys: "(if f = FLAG_USER then setremove (all_users db) (TYPE_OBJ x) else Some (all_users db)) = Some ys"
    "distinct ys" "set ys = TYPE_OBJ ` {y. if y = x then bit ?w FLAG_USER else is_user db y}"
  proof (cases "f = FLAG_USER")
    case True
    moreover from setremove_obj [OF us(2,1), of x] obtain ys where
      "setremove (all_users db) (TYPE_OBJ x) = Some ys" "set ys = TYPE_OBJ ` ({y. is_user db y} - {x})" "distinct ys" by blast
    moreover have "{y. if y = x then bit ?w FLAG_USER else is_user db y} = {y. is_user db y} - {x}"
      using True by (auto simp: flag_bits simp del: push_bit_of_1)
    ultimately show thesis using that by simp
  next
    case False
    have "{y. if y = x then bit ?w FLAG_USER else is_user db y} = {y. is_user db y}"
      using False xu by (auto simp: flag_bits simp del: push_bit_of_1)
    with us False that show thesis by simp
  qed
  define db' where "db' = db\<lparr>objects := (objects db)(x \<mapsto> ob\<lparr>o_flags := ?w\<rparr>), all_users := ys\<rparr>"
  have "db_clear_object_flag db x f = Some db'"
    using ys(1) by (cases "f = FLAG_USER") (auto simp: db_clear_object_flag_def modify_obj_Some [OF ob] db'_def)
  moreover have "db_ok db'" unfolding db'_def by (rule flags_ok [OF ok ob ys(2,3)])
  moreover have "db_object_has_flag db' y g = (if y = x \<and> g = f then Some False else db_object_has_flag db y g)" for y g
    using ob by (auto simp: db'_def has_flag_bit find_all_users flag_bits simp del: push_bit_of_1)
  ultimately show ?thesis by blast
qed

section \<open>Creation and destruction\<close>

text \<open>
  An isolated object is one that no list contains and that has no list of its
  own.  The hierarchies do not see whether it is there.
\<close>

lemma chain_add:
  assumes "\<And>y ob. dbpriv_find_object db y = Some ob \<Longrightarrow> dbpriv_find_object db' y = Some ob"
  shows "chain nx db c xs \<Longrightarrow> chain nx db' c xs"
  by (erule chain_cong [rotated]) (use assms in blast)

lemma tree_ok_add:
  assumes ok: "tree_ok first nx up db" and n: "\<not> valid db n" "n \<noteq> NOTHING"
    and f: "\<And>y. dbpriv_find_object db' y = (if y = n then Some ob else dbpriv_find_object db y)"
    and ob: "first ob = NOTHING" "up ob = NOTHING"
  shows "tree_ok first nx up db'"
  unfolding tree_ok_def
proof (intro allI impI conjI)
  have mono: "dbpriv_find_object db' y = Some o'" if "dbpriv_find_object db y = Some o'" for y o'
    using that n(1) by (auto simp: f valid_def)
  fix x assume "valid db' x"
  then consider "x = n" | "x \<noteq> n" "valid db x" by (auto simp: f valid_def split: if_splits)
  then show "\<exists>as. chain up db' x as"
  proof cases
    case 1
    then have "chain up db' x [n]" using ob by (simp add: f)
    then show ?thesis ..
  next
    case 2
    with ok obtain as where "chain up db x as" by (auto simp: tree_ok_def)
    from chain_add [OF mono this] show ?thesis ..
  qed
  have below: "below up db' y = below up db y" if "y \<noteq> NOTHING" for y
    using that ob n(1) by (auto simp: below_def f valid_def split: if_splits)
  from \<open>valid db' x\<close> have "x \<noteq> NOTHING" by auto
  show "\<exists>cs. kids_are first nx db' x cs \<and> set cs = below up db' x"
  proof (cases "x = n")
    case True
    have "below up db n = {}" using tree_ok_up [OF ok] n by (fastforce simp: below_def)
    with True ob below [OF n(2)] have "kids_are first nx db' x [] \<and> set [] = below up db' x"
      by (simp add: kids_are_def f)
    then show ?thesis ..
  next
    case False
    with \<open>valid db' x\<close> have "valid db x" by (simp add: valid_def f)
    with ok obtain cs where cs: "kids_are first nx db x cs" "set cs = below up db x" by (auto simp: tree_ok_def)
    then have "kids_are first nx db' x cs"
      using chain_add [OF mono] mono by (auto simp: kids_are_def)
    with cs(2) below [OF \<open>x \<noteq> NOTHING\<close>] show ?thesis by auto
  qed
qed

lemma tree_ok_del:
  assumes ok: "tree_ok first nx up db" and n: "dbpriv_find_object db n = Some ob"
    and f: "\<And>y. dbpriv_find_object db' y = (if y = n then None else dbpriv_find_object db y)"
    and ob: "first ob = NOTHING" "up ob = NOTHING"
  shows "tree_ok first nx up db'"
  unfolding tree_ok_def
proof (intro allI impI conjI)
  have "kids_are first nx db n []" using n ob by (simp add: kids_are_def)
  from tree_ok_kids [OF ok this] have bn: "below up db n = {}" by simp
  fix x assume "valid db' x"
  then have x: "x \<noteq> n" "valid db x" by (auto simp: f valid_def split: if_splits)
  have keep: "\<exists>ob'. dbpriv_find_object db' z = Some ob' \<and> nxt ob' = nxt o'"
    if "z \<noteq> n" "dbpriv_find_object db z = Some o'" for z o' and nxt :: "object \<Rightarrow> objid"
    using that by (simp add: f)
  have up: "n \<notin> set as" if "chain up db y as" "y \<noteq> n" for y as
    using that
  proof (induction as arbitrary: y)
    case (Cons a as)
    from Cons.prems(1) obtain o' where a: "y = a" "dbpriv_find_object db a = Some o'" "chain up db (up o') as"
      by (rule chain_ConsE)
    have "up o' \<noteq> n" using bn a(2) by (auto simp: below_def)
    from Cons.IH [OF a(3) this] a(1) Cons.prems(2) show ?case by simp
  qed simp
  from ok x(2) obtain as where as: "chain up db x as" by (auto simp: tree_ok_def)
  have "chain up db' x as" by (rule chain_cong [OF _ as], rule keep) (use up [OF as x(1)] in auto)
  then show "\<exists>as. chain up db' x as" ..
  from ok x(2) obtain cs where cs: "kids_are first nx db x cs" "set cs = below up db x" by (auto simp: tree_ok_def)
  have "x \<noteq> NOTHING" using x(2) by auto
  then have ncs: "n \<notin> below up db x" "below up db' x = below up db x"
    using n ob by (auto simp: below_def f)
  from cs(1) obtain xo where xo: "dbpriv_find_object db x = Some xo" "chain nx db (first xo) cs" by (auto simp: kids_are_def)
  have "chain nx db' (first xo) cs" by (rule chain_cong [OF _ xo(2)], rule keep) (use ncs cs(2) in auto)
  with xo(1) x(1) have "kids_are first nx db' x cs" by (simp add: kids_are_def f)
  with cs(2) ncs show "\<exists>cs. kids_are first nx db' x cs \<and> set cs = below up db' x" by auto
qed

text \<open>The layout of the other objects is not touched either.\<close>

lemma slots_same_chain:
  assumes "inherit_ok db" "inherit_ok db'" "valid db x"
    and f: "\<And>y. y \<in> set (chain_from o_parent db x) \<Longrightarrow> dbpriv_find_object db' y = dbpriv_find_object db y"
  shows "slots db' x = slots db x" "ptab db' x = ptab db x"
proof -
  note ch = chain_chain_from [OF assms(1,3)]
  have "chain o_parent db' x (chain_from o_parent db x)"
    by (rule chain_cong [OF _ ch]) (use f in auto)
  then have cf: "chain_from o_parent db' x = chain_from o_parent db x" by (rule chain_from_eq)
  show s: "slots db' x = slots db x"
    unfolding slots_def cf by (rule slots_along_cong) (simp add: propdefs_of_def f)
  have "x \<in> set (chain_from o_parent db x)" using ch assms(3) by (cases "chain_from o_parent db x") auto
  then show "ptab db' x = ptab db x" by (simp add: ptab_def s propvals_of_def f)
qed

lemma ensure_new_object_room:
  "0 \<le> num_objects db \<Longrightarrow> num_objects db \<le> max_objects db \<Longrightarrow>
   num_objects (ensure_new_object db) = num_objects db \<and> num_objects db < max_objects (ensure_new_object db)
   \<and> objects (ensure_new_object db) = objects db \<and> all_users (ensure_new_object db) = all_users db"
  by (auto simp: ensure_new_object_def Let_def)

lemma db_create_object_ok:
  assumes ok: "db_ok db"
  shows "\<exists>db' ob. db_create_object junk db = Some (db', num_objects db) \<and> db_ok db'
      \<and> \<not> valid db (num_objects db)
      \<and> (\<forall>y. dbpriv_find_object db' y = (if y = num_objects db then Some ob else dbpriv_find_object db y))
      \<and> o_parent ob = NOTHING \<and> o_location ob = NOTHING \<and> o_flags ob = 0 \<and> o_name ob = []
      \<and> o_verbdefs ob = [] \<and> o_propval ob = [] \<and> num_objects db < max_objects db'
      \<and> (\<forall>y. valid db y \<longrightarrow> ptab db' y = ptab db y)"
proof -
  let ?n = "num_objects db"
  note D = db_okD [OF ok] and room = ensure_new_object_room [OF db_okD(1,2) [OF ok]]
  define ob where "ob = junk\<lparr>o_id := ?n, o_name := [], o_flags := 0,
     o_parent := NOTHING, o_child := NOTHING, o_sibling := NOTHING,
     o_location := NOTHING, o_contents := NOTHING, o_next := NOTHING, o_propval := [],
     o_propdefs := \<lparr>pl_max_length = 0, pl_l = []\<rparr>, o_verbdefs := []\<rparr>"
  define db' where "db' = (ensure_new_object db)\<lparr>objects := (objects db)(?n \<mapsto> ob), num_objects := ?n + 1\<rparr>"
  have nv: "\<not> valid db ?n" "?n \<noteq> NOTHING" using D(1) by (auto simp: valid_def dbpriv_find_object_def NOTHING_def)
  have f: "dbpriv_find_object db' y = (if y = ?n then Some ob else dbpriv_find_object db y)" for y
    using D(1) by (auto simp: db'_def dbpriv_find_object_def)
  have run: "db_create_object junk db = Some (db', ?n)"
    using room D(1)
    by (simp add: db_create_object_def dbpriv_new_object_def Let_def modify_obj_def dbpriv_find_object_def db'_def ob_def)
  have tr: "inherit_ok db'" "place_ok db'"
    by (rule tree_ok_add [OF _ nv f], use D in \<open>simp_all add: ob_def\<close>)+
  have old: "slots db' y = slots db y" "ptab db' y = ptab db y" if "valid db y" for y
    using slots_same_chain [OF D(3) tr(1) that] chain_valid [OF chain_chain_from [OF D(3) that]] nv(1) f by metis+
  have sn: "slots db' ?n = []" using slots_step [OF tr(1), of ?n ob] f by (simp add: ob_def)
  have "props_ok_at db' y o'" if y: "dbpriv_find_object db' y = Some o'" for y o'
  proof (cases "y = ?n")
    case True
    then show ?thesis using y f sn by (auto simp: props_ok_at_def ob_def cur_length_def)
  next
    case False
    with y f have "dbpriv_find_object db y = Some o'" by simp
    with props_okD [OF D(5) this] old(1) [OF validI [OF this]] show ?thesis by (simp add: props_ok_at_def)
  qed
  then have "props_ok db'" by (simp add: props_ok_def)
  moreover have "is_user db' y \<longleftrightarrow> is_user db y" for y
    using nv(1) by (auto simp: is_user_def valid_def has_flag_bit f ob_def)
  then have "users_ok db'" using D(6) room by (simp add: users_ok_def db'_def)
  ultimately have "db_ok db'" using tr D room by (simp add: db_ok_def) (simp add: db'_def)
  with run f nv old(2) show ?thesis
    using room by (intro exI [of _ db'] exI [of _ ob]) (simp add: ob_def, simp add: db'_def)
qed

lemma db_destroy_object_ok:
  assumes ok: "db_ok db" and n: "dbpriv_find_object db n = Some ob"
    and alone: "o_location ob = NOTHING" "o_contents ob = NOTHING" "o_parent ob = NOTHING" "o_child ob = NOTHING"
  shows "\<exists>db'. db_destroy_object db n = Some db' \<and> db_ok db' \<and> \<not> valid db' n
      \<and> (\<forall>y. y \<noteq> n \<longrightarrow> dbpriv_find_object db' y = dbpriv_find_object db y)
      \<and> (\<forall>y. y \<noteq> n \<longrightarrow> valid db y \<longrightarrow> ptab db' y = ptab db y)"
proof -
  note D = db_okD [OF ok]
  let ?db0 = "db_priv_affected_callable_verb_lookup db"
  have us: "distinct (all_users db)" "set (all_users db) = TYPE_OBJ ` {y. is_user db y}"
    using D(6) by (simp_all add: users_ok_def)
  have u0: "is_user ?db0 = is_user db"
    by (simp add: fun_eq_iff is_user_def valid_def db_object_has_flag_def)
  obtain ys where ys: "(if is_user db n then setremove (all_users db) (TYPE_OBJ n) else Some (all_users db)) = Some ys"
    "distinct ys" "set ys = TYPE_OBJ ` ({y. is_user db y} - {n})"
  proof (cases "is_user db n")
    case True
    with setremove_obj [OF us(2,1), of n] that show thesis by auto
  next
    case False
    then have "{y. is_user db y} - {n} = {y. is_user db y}" by auto
    with us False that show thesis by simp
  qed
  define db' where "db' = ?db0\<lparr>all_users := ys, objects := (objects db)(n := None)\<rparr>"
  have f: "dbpriv_find_object db' y = (if y = n then None else dbpriv_find_object db y)" for y
    by (auto simp: db'_def dbpriv_find_object_def)
  have "length (slots db n) = cur_length ob"
    using slots_step [OF D(3) n] alone by (simp add: cur_length_def)
  then have "cur_length ob \<le> length (o_propval ob)"
    using props_okD [OF D(5) n] by (simp add: props_ok_at_def)
  then have run: "db_destroy_object db n = Some db'"
    using ys(1) n alone u0
    by (cases "is_user db n") (auto simp: db_destroy_object_def Let_def db'_def)
  have tr: "inherit_ok db'" "place_ok db'"
    by (rule tree_ok_del [OF _ n f], use D alone in simp_all)+
  have bn: "below o_parent db n = {}"
  proof -
    have "children_are db n []" using n alone by (simp add: kids_are_def)
    from tree_ok_kids [OF D(3) this] show ?thesis by simp
  qed
  have nd: "desc db n = {n}" using desc_insert [OF D(3) validI [OF n]] bn by simp
  have old: "slots db' y = slots db y" "ptab db' y = ptab db y" if "valid db y" "y \<noteq> n" for y
  proof -
    have "n \<notin> set (chain_from o_parent db y)" using desc_iff [OF D(3) that(1), of n] nd that(2) by simp
    then show "slots db' y = slots db y" "ptab db' y = ptab db y"
      using slots_same_chain [OF D(3) tr(1) that(1)] f by metis+
  qed
  have "props_ok db'"
    unfolding props_ok_def
  proof (intro allI impI)
    fix y o' assume "dbpriv_find_object db' y = Some o'"
    then have y: "y \<noteq> n" "dbpriv_find_object db y = Some o'" by (auto simp: f split: if_splits)
    with props_okD [OF D(5) y(2)] old(1) [OF validI [OF y(2)]] show "props_ok_at db' y o'"
      by (simp add: props_ok_at_def)
  qed
  moreover have "{y. is_user db' y} = {y. is_user db y} - {n}"
    by (auto simp: is_user_def valid_def has_flag_bit f split: if_splits)
  then have "users_ok db'" using ys(2,3) by (simp add: users_ok_def) (simp add: db'_def)
  ultimately have "db_ok db'" using tr D by (simp add: db_ok_def) (simp add: db'_def)
  with run f old(2) show ?thesis by (intro exI [of _ db']) (auto simp: valid_def)
qed

section \<open>Moving an object\<close>

definition inside :: "db \<Rightarrow> objid \<Rightarrow> objid set" where
  "inside db x = {y. \<exists>as. chain o_location db y as \<and> x \<in> set as}"

lemma loc_core_fields:
  assumes "loc_core ob' = loc_core ob"
  shows "tree_links ob' = tree_links ob" "prop_data ob' = prop_data ob" "o_flags ob' = o_flags ob"
    "o_verbdefs ob' = o_verbdefs ob" "o_owner ob' = o_owner ob" "o_name ob' = o_name ob"
  using assms [THEN arg_cong, of tree_links] assms [THEN arg_cong, of prop_data] assms [THEN arg_cong, of o_flags]
    assms [THEN arg_cong, of o_verbdefs] assms [THEN arg_cong, of o_owner] assms [THEN arg_cong, of o_name]
  by (simp_all add: loc_core_def tree_links_def prop_data_def)

lemma rest_fields:
  assumes "db' = db\<lparr>objects := m\<rparr>"
  shows "num_objects db' = num_objects db" "max_objects db' = max_objects db" "all_users db' = all_users db"
    "vc_table db' = vc_table db"
  using assms by simp_all

lemma place_step_unfold:
  assumes ok: "place_ok db" and x: "dbpriv_find_object db x = Some xo" and l: "l = NOTHING \<or> valid db l"
    and 1: "(if o_location xo \<noteq> NOTHING then LL_REMOVE o_contents o_contents_update o_next o_next_update (o_location xo) x db
          else Some db) = Some db1"
    and 2: "(if l \<noteq> NOTHING then LL_APPEND o_contents o_contents_update o_next o_next_update l x db1 else Some db1) = Some db2"
    and v: "\<And>y. valid db1 y = valid db y"
  shows "db_change_location db x l = modify_obj db2 x (o_location_update (\<lambda>_. l))"
proof -
  have "valid db (o_location xo) \<longleftrightarrow> o_location xo \<noteq> NOTHING" using tree_ok_up [OF ok x] by auto
  moreover have "valid db1 l \<longleftrightarrow> l \<noteq> NOTHING" using l v by auto
  ultimately show ?thesis using 1 2 by (simp only: db_change_location_def x bind.bind_lunit Let_def)
qed

lemma db_change_location_ok:
  assumes ok: "db_ok db" and x: "valid db x" and l: "l = NOTHING \<or> valid db l" "l \<notin> inside db x"
  shows "\<exists>db'. db_change_location db x l = Some db' \<and> db_ok db'
      \<and> db_object_location db' x = Some l
      \<and> (\<forall>y cs. contents_are db y cs \<longrightarrow>
            contents_are db' y (removeAll x cs @ (if y = l then [x] else [])))
      \<and> (\<forall>y. y \<noteq> x \<longrightarrow> db_object_location db' y = db_object_location db y)
      \<and> keeps loc_core db db' \<and> db' = db\<lparr>objects := objects db'\<rparr>
      \<and> (\<forall>y. ptab db' y = ptab db y)"
proof -
  note D = db_okD [OF ok]
  from x obtain xo where xo: "dbpriv_find_object db x = Some xo" by (rule validE)
  have "\<exists>as. chain o_location db l as" using l(1) tree_ok_ancestors [OF D(4)] chain.simps(1) by blast
  then obtain as where as: "chain o_location db l as" ..
  then have "x \<notin> set as" using l(2) by (auto simp: inside_def)
  from place.move_spec [OF D(4) xo as this] obtain db1 db2 db3 N x3 where
    st: "(if o_location xo \<noteq> NOTHING then LL_REMOVE o_contents o_contents_update o_next o_next_update (o_location xo) x db
          else Some db) = Some db1"
      "(if l \<noteq> NOTHING then LL_APPEND o_contents o_contents_update o_next o_next_update l x db1 else Some db1) = Some db2"
      "modify_obj db2 x (o_location_update (\<lambda>_. l)) = Some db3"
    and fr: "link_frame o_contents o_next o_location loc_core {o_location xo, l} N {x} db db3"
    and ok3: "place_ok db3" and x3: "dbpriv_find_object db3 x = Some x3" "o_location x3 = l"
    and kids: "\<And>y cs. contents_are db y cs \<Longrightarrow> contents_are db3 y (removeAll x cs @ (if y = l then [x] else []))"
    by blast
  have v1: "valid db1 y = valid db y" for y
  proof (cases "o_location xo = NOTHING")
    case False
    from place.detach_spec [OF D(4) xo] st(1) obtain P N' where
      "link_frame o_contents o_next o_location loc_core P N' {} db db1" by auto
    then show ?thesis by (rule link_frame_valid)
  qed (use st(1) in simp)
  have run: "db_change_location db x l = Some db3"
    using place_step_unfold [OF D(4) xo l(1) st(1,2) v1] st(3) by simp
  have k: "keeps tree_links db db3" "keeps prop_data db db3" "keeps o_flags db db3" "keeps loc_core db db3"
    by (rule keeps_frame [OF fr], (erule loc_core_fields | assumption))+
  have rest: "db3 = db\<lparr>objects := objects db3\<rparr>" using fr by (simp only: link_frame_def)
  have "db_ok db3"
    using D ok3 k same_tree_ok [of db db3] keeps_props(3) [OF k(1,2)] keeps_users [OF k(3)]
    by (simp add: db_ok_def keeps_tree rest_fields [OF rest])
  moreover have "db_object_location db3 y = db_object_location db y" if "y \<noteq> x" for y
  proof (cases "dbpriv_find_object db y")
    case None
    with link_frame_valid [OF fr, of y] show ?thesis by (simp add: db_object_location_def valid_def)
  next
    case (Some ob)
    from link_frame_find [OF fr Some] that Some show ?thesis
      by (metis db_object_location_def option.simps(9) singletonD)
  qed
  moreover have "db_object_location db3 x = Some l" using x3 by (simp add: db_object_location_def)
  ultimately show ?thesis using run kids k(4) rest keeps_props(2) [OF k(1,2)] by blast
qed

section \<open>Operations on properties keep the invariant\<close>

lemma db_ok_only_props:
  assumes "db_ok db" "only_props db db'" "inherit_ok db'" "props_ok db'"
  shows "db_ok db'"
proof -
  have k: "keeps prop_rest db db'" and rest: "db' = db\<lparr>objects := objects db'\<rparr>"
    using assms(2) by (simp_all add: only_props_def)
  have "keeps place_links db db'" "keeps o_flags db db'"
    by (rule keeps_via [OF k, of _ place_links], simp add: place_links_def prop_rest_def,
        rule keeps_via [OF k, of _ o_flags], simp add: prop_rest_def)
  with assms keeps_place keeps_users show ?thesis
    by (simp add: db_ok_def rest_fields [OF rest])
qed

lemma db_ok_parent_rest:
  assumes "db_ok db" "keeps parent_rest db db'" "inherit_ok db'" "props_ok db'"
    and rest: "db' = d\<lparr>objects := m\<rparr>" "d = db \<or> d = db_priv_affected_callable_verb_lookup db"
  shows "db_ok db'"
proof -
  have "keeps place_links db db'" "keeps o_flags db db'"
    by (rule keeps_via [OF assms(2), of _ place_links], simp add: place_links_def parent_rest_def tree_core_def,
        rule keeps_via [OF assms(2), of _ o_flags], simp add: parent_rest_def tree_core_def)
  moreover have "num_objects d = num_objects db" "max_objects d = max_objects db" "all_users d = all_users db"
    using rest(2) by auto
  ultimately show ?thesis using assms(1,3,4) keeps_place keeps_users
    by (simp add: db_ok_def rest_fields [OF rest(1)])
qed

lemma map_of_zip_update:
  assumes "distinct ks" "length ks = length vs" "n < length ks"
  shows "map_of (zip ks (vs[n := v])) = (map_of (zip ks vs))(ks ! n \<mapsto> v)"
proof -
  have "zip ks (vs[n := v]) = zip (ks[n := ks ! n]) (vs[n := v])" by simp
  also have "\<dots> = (zip ks vs)[n := (ks ! n, v)]" by (simp only: zip_update)
  also have "\<dots> = insert_at n (ks ! n, v) (delete_at n (zip ks vs))"
    using assms by (simp add: list_update_delete_insert)
  finally have z: "zip ks (vs[n := v]) = insert_at n (ks ! n, v) (delete_at n (zip ks vs))" .
  have "map fst (delete_at n (zip ks vs)) = delete_at n ks" using assms(2) by (simp add: map_delete_at)
  then have "ks ! n \<notin> fst ` set (delete_at n (zip ks vs))"
    using notin_delete_at [OF assms(1,3)] by (metis list.set_map)
  with z assms show ?thesis by (simp add: map_of_insert_at map_of_delete_at)
qed

lemma modify_slot_ok:
  assumes ok: "db_ok db" and x: "dbpriv_find_object db x = Some ob" and n: "n < length (slots db x)"
    and own: "n < cur_length ob \<Longrightarrow> pv_var (f (o_propval ob ! n)) \<noteq> TYPE_CLEAR"
  shows "\<exists>db'. modify_slot db x n f = Some db' \<and> db_ok db'
      \<and> db' = db\<lparr>objects := objects db'\<rparr> \<and> keeps (\<lambda>ob. ob\<lparr>o_propval := []\<rparr>) db db'
      \<and> (\<forall>y. ptab db' y = (if y = x then (ptab db x)(slots db x ! n \<mapsto> f (o_propval ob ! n)) else ptab db y))"
proof -
  note D = db_okD [OF ok] and pok = props_okD [OF db_okD(5) [OF ok] x, unfolded props_ok_at_def]
  define db' where "db' = db\<lparr>objects := (objects db)(x \<mapsto> ob\<lparr>o_propval := (o_propval ob)[n := f (o_propval ob ! n)]\<rparr>)\<rparr>"
  have run: "modify_slot db x n f = Some db'"
    using x n pok by (simp add: modify_slot_def get_slot_def nth_opt_def modify_obj_Some db'_def)
  have fnd: "dbpriv_find_object db' y = (if y = x then Some (ob\<lparr>o_propval := (o_propval ob)[n := f (o_propval ob ! n)]\<rparr>)
      else dbpriv_find_object db y)" for y using x by (simp add: db'_def)
  have kr: "keeps (\<lambda>ob. ob\<lparr>o_propval := []\<rparr>) db db'" unfolding db'_def by (rule keeps_put [OF x]) simp
  have kt: "keeps tree_links db db'" and kd: "keeps o_propdefs db db'" and kf: "keeps prop_rest db db'"
    unfolding db'_def by (rule keeps_put [OF x], simp add: tree_links_def prop_rest_def)+
  then have st: "same_tree db db'" by (simp add: keeps_tree)
  have pd: "propdefs_of db' z = propdefs_of db z" for z using x by (simp add: propdefs_of_def fnd)
  have sl: "slots db' y = slots db y" for y by (rule slots_cong [OF st]) (rule pd)
  have "props_ok_at db' y o'" if y: "dbpriv_find_object db' y = Some o'" for y o'
  proof (cases "y = x")
    case True
    have "list_all (\<lambda>pv. pv_var pv \<noteq> TYPE_CLEAR) (take (cur_length ob) ((o_propval ob)[n := f (o_propval ob ! n)]))"
      using pok own n by (auto simp: list_all_length nth_list_update)
    with True y pok sl show ?thesis by (auto simp: fnd props_ok_at_def cur_length_def)
  next
    case False
    with y props_okD [OF D(5)] sl show ?thesis by (simp add: fnd props_ok_at_def)
  qed
  then have "props_ok db'" by (simp add: props_ok_def)
  moreover have "inherit_ok db'" using same_tree_ok [OF st] D(3) by simp
  moreover have "only_props db db'" using kf by (simp add: only_props_def db'_def)
  ultimately have "db_ok db'" using db_ok_only_props [OF ok] by blast
  moreover have "ptab db' y = (if y = x then (ptab db x)(slots db x ! n \<mapsto> f (o_propval ob ! n)) else ptab db y)" for y
    using x pok n by (auto simp: ptab_def sl propvals_of_def fnd map_of_zip_update distinct_map)
  ultimately show ?thesis using run kr by (intro exI [of _ db']) (simp add: db'_def)
qed

section \<open>Reading\<close>

lemma one_slot_of_name:
  assumes "props_ok db" "valid db x" and n: "n < length (slots db x)" "slot_name (slots db x ! n) = nm"
  shows "{s \<in> set (slots db x). slot_name s = nm} = {slots db x ! n}"
proof -
  from assms(2) obtain ob where "dbpriv_find_object db x = Some ob" by (rule validE)
  with assms(1) have "distinct (map slot_name (slots db x))" by (simp add: props_ok_def props_ok_at_def)
  then have "inj_on slot_name (set (slots db x))" by (simp add: distinct_map)
  moreover have "slots db x ! n \<in> set (slots db x)" using n(1) by simp
  ultimately show ?thesis using n(2) by (auto dest: inj_onD)
qed

lemma contents_value:
  assumes "contents_are db x cs"
  shows "get_bi_value db BP_CONTENTS x = Some (TYPE_LIST (map TYPE_OBJ cs))"
proof -
  from assms obtain ob where ob: "dbpriv_find_object db x = Some ob" "chain o_next db (o_contents ob) cs"
    by (auto simp: kids_are_def)
  have "fold_until add_to_list cs acc = Some (acc @ map TYPE_OBJ cs, False)" for acc
    by (induction cs arbitrary: acc) (simp_all add: add_to_list_def)
  with ob show ?thesis
    by (simp add: db_count_contents_def db_for_all_contents_def count_loop_chain for_all_loop_chain assert_that_def)
qed

lemma get_bi_value_total:
  assumes "db_ok db" "valid db x"
  shows "\<exists>v. get_bi_value db bi x = Some v"
proof (cases "bi = BP_CONTENTS")
  case True
  from assms obtain cs where "contents_are db x cs" unfolding db_ok_def tree_ok_def by blast
  with True contents_value show ?thesis by blast
next
  case False
  from assms(2) obtain ob where "dbpriv_find_object db x = Some ob" by (rule validE)
  with False show ?thesis
    by (cases bi) (simp_all add: db_object_name_def db_object_owner_def db_object_has_flag_def db_object_location_def)
qed

end
