(* ===== verification/Commands.thy ===== *)
theory Commands
  imports DbVerbs DbOk
begin

text \<open>
  Matching object names (\<^verbatim>\<open>match.c\<close>) and parsing a player's command into a verb,
  a direct object, a preposition and an indirect object (\<^verbatim>\<open>parse_command\<close> of
  \<^verbatim>\<open>parse_cmd.c\<close>).
\<close>

section \<open>Matching\<close>

definition aliases :: "db \<Rightarrow> objid \<Rightarrow> var list option" where
  "aliases db oid =
     do { (h, value) \<leftarrow> db_find_property True db oid ''aliases'';
          Some (if h = No_prop then []
                else case value of Some (TYPE_LIST vs) \<Rightarrow> vs | _ \<Rightarrow> []) }"

record match_data =
  md_exact :: objid
  md_partial :: objid

text \<open>The loop over the object's name and its aliases; the second result is the return value.\<close>

fun match_names :: "string \<Rightarrow> objid \<Rightarrow> match_data \<Rightarrow> string list \<Rightarrow> match_data \<times> bool" where
  "match_names nm oid d [] = (d, False)"
| "match_names nm oid d (s # ss) =
     (if mystrncasecmp s nm (length nm) = 0
      then if length s \<le> length nm
           then if md_exact d = NOTHING \<or> md_exact d = oid
                then match_names nm oid (d\<lparr>md_exact := oid\<rparr>) ss
                else (d, True)
           else if md_partial d = FAILED_MATCH \<or> md_partial d = oid
                then match_names nm oid (d\<lparr>md_partial := oid\<rparr>) ss
                else match_names nm oid (d\<lparr>md_partial := AMBIGUOUS\<rparr>) ss
      else match_names nm oid d ss)"

fun strings_of :: "var list \<Rightarrow> string list" where
  "strings_of [] = []"
| "strings_of (TYPE_STR s # vs) = s # strings_of vs"
| "strings_of (v # vs) = strings_of vs"

definition match_proc :: "db \<Rightarrow> string \<Rightarrow> match_data \<Rightarrow> objid \<Rightarrow> (match_data \<times> bool) option" where
  "match_proc db nm d oid =
     do { names \<leftarrow> aliases db oid;
          name \<leftarrow> db_object_name db oid;
          Some (match_names nm oid d (name # strings_of names)) }"

fun match_steps :: "db \<Rightarrow> string \<Rightarrow> match_data \<Rightarrow> objid list \<Rightarrow> (match_data \<times> bool) option" where
  "match_steps db nm d [] = Some (d, False)"
| "match_steps db nm d (oid # oids) =
     (if \<not> valid db oid then match_steps db nm d oids
      else do { (d1, stop) \<leftarrow> db_for_all_contents db oid (match_proc db nm) d;
                if stop then Some (d1, True) else match_steps db nm d1 oids })"

definition match_contents :: "db \<Rightarrow> objid \<Rightarrow> string \<Rightarrow> objid option" where
  "match_contents db player nm =
     (if \<not> valid db player then Some FAILED_MATCH
      else do { loc \<leftarrow> db_object_location db player;
                (d, stop) \<leftarrow> match_steps db nm \<lparr>md_exact = NOTHING, md_partial = FAILED_MATCH\<rparr> [player, loc];
                Some (if stop then AMBIGUOUS
                      else if md_exact d \<noteq> NOTHING then md_exact d else md_partial d) })"

definition match_object :: "db \<Rightarrow> objid \<Rightarrow> string \<Rightarrow> objid option" where
  "match_object db player nm =
     (if nm = [] then Some NOTHING
      else if hd nm = CHR ''#''
      then (case strtol (tl nm) of (r, p) \<Rightarrow>
              Some (if p \<noteq> [] \<or> \<not> valid db r then FAILED_MATCH else r))
      else if \<not> valid db player then Some FAILED_MATCH
      else if mystrcasecmp nm ''me'' = 0 then Some player
      else if mystrcasecmp nm ''here'' = 0 then db_object_location db player
      else match_contents db player nm)"

section \<open>Commands\<close>

record parsed_command =
  pc_verb :: string
  pc_argstr :: string
  pc_args :: "var list"
  pc_dobjstr :: string
  pc_dobj :: objid
  pc_prepstr :: string
  pc_prep :: int
  pc_iobjstr :: string
  pc_iobj :: objid

fun skip_word :: "bool \<Rightarrow> string \<Rightarrow> string" where
  "skip_word in_quotes [] = []"
| "skip_word in_quotes (c # argstr) =
     (if \<not> in_quotes \<and> c = CHR '' '' then c # argstr
      else if c = QUOTE then skip_word (\<not> in_quotes) argstr
      else if c = BACKSLASH
      then (case argstr of [] \<Rightarrow> [] | _ # rest \<Rightarrow> skip_word in_quotes rest)
      else skip_word in_quotes argstr)"

text \<open>The line that is split into words, and the argument string.\<close>

definition command_line :: "string \<Rightarrow> string \<times> string" where
  "command_line command0 =
     (let command = skip_spaces command0;
          speak = (\<lambda>verb. (verb @ '' '' @ tl command, tl command))
      in if command \<noteq> [] \<and> hd command = QUOTE then speak ''say''
         else if command \<noteq> [] \<and> hd command = CHR '':'' then speak ''emote''
         else if command \<noteq> [] \<and> hd command = CHR '';'' then speak ''eval''
         else (command, skip_spaces (skip_word False command)))"

text \<open>The preposition among the arguments, and the range of words it takes.\<close>

definition prep_span :: "string list \<Rightarrow> int \<times> nat \<times> nat" where
  "prep_span argv =
     (let argc = length argv
      in if argc > 1
         then case db_find_prep False (tl argv) of (prep, first, final) \<Rightarrow>
                if prep = PREP_NONE then (PREP_NONE, argc, argc) else (prep, first + 1, final + 1)
         else (PREP_NONE, argc, argc))"

definition parse_argv :: "db \<Rightarrow> objid \<Rightarrow> string \<Rightarrow> string list \<Rightarrow> parsed_command option" where
  "parse_argv db user argstr argv =
     (case prep_span argv of (prep, pstart, pend) \<Rightarrow>
        let prepstr = (if prep \<noteq> PREP_NONE
                       then build_string (take (pend - pstart + 1) (drop pstart argv)) else []);
            iobjstr = (if prep \<noteq> PREP_NONE then build_string (drop (pend + 1) argv) else []);
            dlen = pstart - 1;
            dobjstr = (if dlen = 0 then [] else build_string (take dlen (tl argv)))
        in do { iobj \<leftarrow> (if prep \<noteq> PREP_NONE then match_object db user iobjstr else Some NOTHING);
                dobj \<leftarrow> (if dlen = 0 then Some NOTHING else match_object db user dobjstr);
                Some \<lparr>pc_verb = hd argv, pc_argstr = argstr, pc_args = map TYPE_STR (tl argv),
                      pc_dobjstr = dobjstr, pc_dobj = dobj, pc_prepstr = prepstr, pc_prep = prep,
                      pc_iobjstr = iobjstr, pc_iobj = iobj\<rparr> })"

definition parse_command :: "db \<Rightarrow> string \<Rightarrow> objid \<Rightarrow> parsed_command option option" where
  "parse_command db command user =
     (case command_line command of (buf, argstr) \<Rightarrow>
        if parse_into_words buf = [] then Some None
        else map_option Some (parse_argv db user argstr (parse_into_words buf)))"

section \<open>What a match returns\<close>

lemma mystrncasecmp_clean:
  "nul_free t \<Longrightarrow> mystrncasecmp s t (length t) = 0 \<longleftrightarrow> prefix (fold_case t) (fold_case s)"
proof (induction t arbitrary: s)
  case (Cons d t)
  then show ?case by (cases s) auto
qed simp

definition exact_name :: "string \<Rightarrow> string \<Rightarrow> bool" where
  "exact_name nm s \<longleftrightarrow> fold_case s = fold_case nm"

definition partial_name :: "string \<Rightarrow> string \<Rightarrow> bool" where
  "partial_name nm s \<longleftrightarrow> strict_prefix (fold_case nm) (fold_case s)"

lemma name_tests:
  assumes "nul_free nm"
  shows "mystrncasecmp s nm (length nm) = 0 \<and> length s \<le> length nm \<longleftrightarrow> exact_name nm s"
    "mystrncasecmp s nm (length nm) = 0 \<and> \<not> length s \<le> length nm \<longleftrightarrow> partial_name nm s"
proof -
  have both: "(mystrncasecmp s nm (length nm) = 0 \<and> length s \<le> length nm \<longleftrightarrow> exact_name nm s)
    \<and> (mystrncasecmp s nm (length nm) = 0 \<and> \<not> length s \<le> length nm \<longleftrightarrow> partial_name nm s)"
  proof (cases "mystrncasecmp s nm (length nm) = 0")
    case True
    then obtain zs where zs: "fold_case s = fold_case nm @ zs" by (auto simp: mystrncasecmp_clean [OF assms] prefix_def)
    from arg_cong [OF zs, of length] have "length s = length nm + length zs" by simp
    with True zs show ?thesis by (auto simp: exact_name_def partial_name_def strict_prefix_def)
  next
    case False
    then have "\<not> prefix (fold_case nm) (fold_case s)" by (simp add: mystrncasecmp_clean [OF assms])
    with False show ?thesis by (auto simp: exact_name_def partial_name_def strict_prefix_def)
  qed
  then show "mystrncasecmp s nm (length nm) = 0 \<and> length s \<le> length nm \<longleftrightarrow> exact_name nm s" ..
  from both show "mystrncasecmp s nm (length nm) = 0 \<and> \<not> length s \<le> length nm \<longleftrightarrow> partial_name nm s" ..
qed

text \<open>
  The state of the search as a function of the objects seen so far that match
  exactly (\<open>E\<close>) and in part (\<open>P\<close>).
\<close>

definition sole :: "objid \<Rightarrow> objid set \<Rightarrow> objid" where
  "sole none X = (if X = {} then none else if \<exists>x. X = {x} then the_elem X else AMBIGUOUS)"

definition tracks :: "match_data \<Rightarrow> objid set \<Rightarrow> objid set \<Rightarrow> bool" where
  "tracks d E P \<longleftrightarrow> finite E \<and> card E \<le> 1 \<and> md_exact d = sole NOTHING E \<and> md_partial d = sole FAILED_MATCH P"

definition known :: "objid set \<Rightarrow> bool" where
  "known X \<longleftrightarrow> NOTHING \<notin> X \<and> AMBIGUOUS \<notin> X \<and> FAILED_MATCH \<notin> X"

lemma specials [simp]: "NOTHING \<noteq> FAILED_MATCH" "FAILED_MATCH \<noteq> AMBIGUOUS" "AMBIGUOUS \<noteq> FAILED_MATCH" "NOTHING \<noteq> AMBIGUOUS"
  "AMBIGUOUS \<noteq> NOTHING" "FAILED_MATCH \<noteq> NOTHING"
  by (simp_all add: NOTHING_def FAILED_MATCH_def AMBIGUOUS_def)

lemma sole_insert:
  assumes "known (insert x X)" "none = NOTHING \<or> none = FAILED_MATCH"
  shows "sole none (insert x X) = (if sole none X = none \<or> sole none X = x then x else AMBIGUOUS)"
proof (cases "X = {} \<or> X = {x}")
  case True
  then show ?thesis by (auto simp: sole_def)
next
  case False
  then obtain y where y: "y \<in> X" "y \<noteq> x" by blast
  then have "\<not> (\<exists>z. insert x X = {z})" by blast
  moreover have "sole none X \<noteq> none \<and> sole none X \<noteq> x"
    using y assms by (auto simp: sole_def known_def)
  ultimately show ?thesis by (simp add: sole_def)
qed

lemma card_le_1: "finite X \<Longrightarrow> card X \<le> 1 \<longleftrightarrow> X = {} \<or> (\<exists>y. X = {y})"
  using card_1_singleton_iff [of X] card_0_eq [of X] by (simp only: One_nat_def le_Suc_eq le_zero_eq)

lemma match_names_spec:
  assumes nm: "nul_free nm" and t: "tracks d E P" and k: "known (insert oid (E \<union> P))"
  shows "\<exists>d'. match_names nm oid d ss =
      (d', \<not> card (E \<union> {x. x = oid \<and> (\<exists>s \<in> set ss. exact_name nm s)}) \<le> 1)
    \<and> (card (E \<union> {x. x = oid \<and> (\<exists>s \<in> set ss. exact_name nm s)}) \<le> 1 \<longrightarrow>
        tracks d' (E \<union> {x. x = oid \<and> (\<exists>s \<in> set ss. exact_name nm s)})
                  (P \<union> {x. x = oid \<and> (\<exists>s \<in> set ss. partial_name nm s)}))"
  using t k
proof (induction ss arbitrary: d E P)
  case Nil
  then show ?case by (simp add: tracks_def)
next
  case (Cons s ss)
  note nt = name_tests [OF nm, of s]
  consider (ex) "exact_name nm s" | (pa) "partial_name nm s" | (no) "\<not> exact_name nm s" "\<not> partial_name nm s" by blast
  then show ?case
  proof cases
    case no
    with nt have "mystrncasecmp s nm (length nm) \<noteq> 0" by blast
    then have "match_names nm oid d (s # ss) = match_names nm oid d ss" by simp
    with Cons.IH [OF Cons.prems] no show ?thesis by simp
  next
    case pa
    with nt have e: "mystrncasecmp s nm (length nm) = 0" "\<not> length s \<le> length nm" "\<not> exact_name nm s" by blast+
    define d1 where "d1 = d\<lparr>md_partial := sole FAILED_MATCH (insert oid P)\<rparr>"
    have "match_names nm oid d (s # ss) = match_names nm oid d1 ss"
      using e Cons.prems sole_insert [of oid P FAILED_MATCH] by (auto simp: tracks_def d1_def known_def)
    moreover have "tracks d1 E (insert oid P)" using Cons.prems(1) by (simp add: tracks_def d1_def)
    moreover have "known (insert oid (E \<union> insert oid P))" using Cons.prems(2) by simp
    moreover have "P \<union> {x. x = oid \<and> (\<exists>s \<in> set (s # ss). partial_name nm s)} =
        insert oid P \<union> {x. x = oid \<and> (\<exists>s \<in> set ss. partial_name nm s)}" using pa by auto
    ultimately show ?thesis using Cons.IH [of d1 E "insert oid P"] e(3) by simp
  next
    case ex
    with nt have e: "mystrncasecmp s nm (length nm) = 0" "length s \<le> length nm" "\<not> partial_name nm s" by blast+
    have all: "E \<union> {x. x = oid \<and> (\<exists>s \<in> set (s # ss). exact_name nm s)} = insert oid E" using ex by auto
    show ?thesis
    proof (cases "card (insert oid E) \<le> 1")
      case True
      define d1 where "d1 = d\<lparr>md_exact := oid\<rparr>"
      have E: "E = {} \<or> E = {oid}"
        using True Cons.prems(1) card_le_1 [of "insert oid E"] by (auto simp: tracks_def)
      then have "match_names nm oid d (s # ss) = match_names nm oid d1 ss"
        using e Cons.prems(1) by (auto simp: tracks_def d1_def sole_def)
      moreover have E1: "insert oid E = {oid}" using E by blast
      moreover have "tracks d1 (insert oid E) P" using Cons.prems(1) unfolding E1 by (simp add: tracks_def d1_def sole_def)
      moreover have "known (insert oid (insert oid E \<union> P))" using Cons.prems(2) by simp
      moreover have "insert oid E \<union> {x. x = oid \<and> (\<exists>s \<in> set ss. exact_name nm s)} = insert oid E" by auto
      ultimately show ?thesis using Cons.IH [of d1 "insert oid E" P] all e(3) True by simp
    next
      case False
      with Cons.prems(1) have "E \<noteq> {} \<and> E \<noteq> {oid}" by auto
      with Cons.prems(1) obtain y where y: "E = {y}" "y \<noteq> oid"
        using card_le_1 [of E] by (auto simp: tracks_def)
      with Cons.prems have "md_exact d \<noteq> NOTHING" "md_exact d \<noteq> oid" by (auto simp: tracks_def sole_def known_def)
      with e False show ?thesis unfolding all by simp
    qed
  qed
qed

definition names_of :: "db \<Rightarrow> objid \<Rightarrow> string list" where
  "names_of db x = the (db_object_name db x) # strings_of (the (aliases db x))"

definition exact_in :: "db \<Rightarrow> string \<Rightarrow> objid list \<Rightarrow> objid set" where
  "exact_in db nm xs = {x \<in> set xs. \<exists>s \<in> set (names_of db x). exact_name nm s}"

definition partial_in :: "db \<Rightarrow> string \<Rightarrow> objid list \<Rightarrow> objid set" where
  "partial_in db nm xs = {x \<in> set xs. \<exists>s \<in> set (names_of db x). partial_name nm s}"

lemma aliases_name: "find_builtin ''aliases'' = None" "nul_free ''aliases''"
  by code_simp+

lemma aliases_total:
  assumes "db_ok db" "valid db x"
  shows "\<exists>vs. aliases db x = Some vs"
proof -
  note D = db_okD [OF assms(1)]
  show ?thesis
  proof (cases "fold_case ''aliases'' \<in> slot_name ` set (slots db x)")
    case True
    from db_find_property_present [OF D(3,5) aliases_name(2) assms(2) aliases_name(1) True, of True]
    show ?thesis by (auto simp: aliases_def)
  next
    case False
    from db_find_property_absent [OF D(3,5) aliases_name(2) assms(2) aliases_name(1) False, of True]
    show ?thesis by (simp add: aliases_def)
  qed
qed

lemma match_proc_names:
  assumes "db_ok db" "valid db x"
  shows "match_proc db nm d x = Some (match_names nm x d (names_of db x))"
proof -
  from aliases_total [OF assms] obtain vs where "aliases db x = Some vs" ..
  moreover from assms(2) obtain ob where "dbpriv_find_object db x = Some ob" by (rule validE)
  ultimately show ?thesis by (simp add: match_proc_def names_of_def db_object_name_def)
qed

lemma known_valid: "(\<And>x. x \<in> X \<Longrightarrow> valid db x) \<Longrightarrow> known X"
  unfolding known_def valid_def dbpriv_find_object_def NOTHING_def AMBIGUOUS_def FAILED_MATCH_def
  by force

lemma in_Cons:
  "exact_in db nm (x # xs) = {y. y = x \<and> (\<exists>s \<in> set (names_of db x). exact_name nm s)} \<union> exact_in db nm xs"
  "partial_in db nm (x # xs) = {y. y = x \<and> (\<exists>s \<in> set (names_of db x). partial_name nm s)} \<union> partial_in db nm xs"
  by (auto simp: exact_in_def partial_in_def)

lemma fold_match:
  assumes ok: "db_ok db" and nm: "nul_free nm"
    and v: "\<And>x. x \<in> set xs \<union> E \<union> P \<Longrightarrow> valid db x" and t: "tracks d E P"
  shows "\<exists>d'. fold_until (match_proc db nm) xs d = Some (d', \<not> card (E \<union> exact_in db nm xs) \<le> 1)
    \<and> (card (E \<union> exact_in db nm xs) \<le> 1 \<longrightarrow> tracks d' (E \<union> exact_in db nm xs) (P \<union> partial_in db nm xs))"
  using v t
proof (induction xs arbitrary: d E P)
  case Nil
  then show ?case by (simp add: exact_in_def partial_in_def tracks_def)
next
  case (Cons x xs)
  let ?E = "E \<union> {y. y = x \<and> (\<exists>s \<in> set (names_of db x). exact_name nm s)}"
  let ?P = "P \<union> {y. y = x \<and> (\<exists>s \<in> set (names_of db x). partial_name nm s)}"
  have sets: "E \<union> exact_in db nm (x # xs) = ?E \<union> exact_in db nm xs" "P \<union> partial_in db nm (x # xs) = ?P \<union> partial_in db nm xs"
    by (simp_all only: in_Cons Un_assoc)
  have "known (insert x (E \<union> P))" by (rule known_valid) (use Cons.prems(1) in auto)
  from match_names_spec [OF nm Cons.prems(2) this, of "names_of db x"] obtain d1 where
    d1: "match_names nm x d (names_of db x) = (d1, \<not> card ?E \<le> 1)" "card ?E \<le> 1 \<longrightarrow> tracks d1 ?E ?P" by blast
  have run: "match_proc db nm d x = Some (d1, \<not> card ?E \<le> 1)"
    using match_proc_names [OF ok, of x nm d] Cons.prems(1) d1(1) by simp
  have fin: "finite (?E \<union> exact_in db nm xs)"
    using Cons.prems(2) by (simp add: tracks_def exact_in_def)
  show ?case
  proof (cases "card ?E \<le> 1")
    case True
    have "\<And>y. y \<in> set xs \<union> ?E \<union> ?P \<Longrightarrow> valid db y" using Cons.prems(1) by auto
    from Cons.IH [OF this mp [OF d1(2) True]] run True show ?thesis unfolding sets by simp
  next
    case False
    have "card ?E \<le> card (?E \<union> exact_in db nm xs)" by (rule card_mono [OF fin]) simp
    with False run show ?thesis unfolding sets by (simp del: Un_assoc)
  qed
qed

text \<open>What the search finds among a list of objects.\<close>

definition best_match :: "db \<Rightarrow> string \<Rightarrow> objid list \<Rightarrow> objid" where
  "best_match db nm xs =
     (if exact_in db nm xs = {} then sole FAILED_MATCH (partial_in db nm xs) else sole NOTHING (exact_in db nm xs))"

lemma in_append:
  "exact_in db nm (xs @ ys) = exact_in db nm xs \<union> exact_in db nm ys"
  "partial_in db nm (xs @ ys) = partial_in db nm xs \<union> partial_in db nm ys"
  by (auto simp: exact_in_def partial_in_def)

definition contents_list :: "db \<Rightarrow> objid \<Rightarrow> objid list" where
  "contents_list db x = (case dbpriv_find_object db x of None \<Rightarrow> [] | Some ob \<Rightarrow> chain_from o_next db (o_contents ob))"

lemma contents_list_eq: "contents_are db x cs \<Longrightarrow> contents_list db x = cs"
  by (auto simp: kids_are_def contents_list_def chain_from_eq)

lemma contents_list_chain:
  assumes "db_ok db" "valid db x"
  shows "contents_are db x (contents_list db x)"
  using tree_ok_kids_ex [OF db_okD(4) [OF assms(1)] assms(2)] contents_list_eq by blast

lemma for_all_contents_list:
  assumes "db_ok db" "valid db x"
  shows "db_for_all_contents db x f d = fold_until f (contents_list db x) d"
    "y \<in> set (contents_list db x) \<Longrightarrow> valid db y"
  using contents_list_chain [OF assms]
  by (auto simp: kids_are_def db_for_all_contents_def for_all_loop_chain dest: chain_valid)

lemma contents_list_valid:
  assumes "db_ok db" "y \<in> set (contents_list db x)"
  shows "valid db y"
proof (cases "valid db x")
  case True
  with for_all_contents_list(2) [OF assms(1)] assms(2) show ?thesis by blast
next
  case False
  then have "contents_list db x = []" by (simp add: contents_list_def valid_def)
  with assms(2) show ?thesis by simp
qed

lemma match_steps_spec:
  assumes ok: "db_ok db" and nm: "nul_free nm"
    and v: "\<And>x. x \<in> E \<union> P \<Longrightarrow> valid db x" and t: "tracks d E P"
  shows "\<exists>d'. match_steps db nm d xs
      = Some (d', \<not> card (E \<union> exact_in db nm (concat (map (contents_list db) xs))) \<le> 1)
    \<and> (card (E \<union> exact_in db nm (concat (map (contents_list db) xs))) \<le> 1 \<longrightarrow>
        tracks d' (E \<union> exact_in db nm (concat (map (contents_list db) xs)))
                  (P \<union> partial_in db nm (concat (map (contents_list db) xs))))"
  using v t
proof (induction xs arbitrary: d E P)
  case Nil
  then show ?case by (simp add: exact_in_def partial_in_def tracks_def)
next
  case (Cons x xs)
  let ?cs = "contents_list db x" and ?rest = "concat (map (contents_list db) xs)"
  have sets: "E \<union> exact_in db nm (concat (map (contents_list db) (x # xs))) = E \<union> exact_in db nm ?cs \<union> exact_in db nm ?rest"
    "P \<union> partial_in db nm (concat (map (contents_list db) (x # xs))) = P \<union> partial_in db nm ?cs \<union> partial_in db nm ?rest"
    by (simp_all add: in_append Un_assoc)
  show ?case
  proof (cases "valid db x")
    case False
    then have "?cs = []" by (simp add: contents_list_def valid_def)
    with False Cons.IH [OF Cons.prems] show ?thesis by simp
  next
    case True
    note fl = for_all_contents_list [OF ok True]
    have "\<And>y. y \<in> set ?cs \<union> E \<union> P \<Longrightarrow> valid db y" using Cons.prems(1) fl(2) by blast
    from fold_match [OF ok nm this Cons.prems(2)] obtain d1 where
      d1: "fold_until (match_proc db nm) ?cs d = Some (d1, \<not> card (E \<union> exact_in db nm ?cs) \<le> 1)"
        "card (E \<union> exact_in db nm ?cs) \<le> 1 \<longrightarrow> tracks d1 (E \<union> exact_in db nm ?cs) (P \<union> partial_in db nm ?cs)" by blast
    have fin: "finite (E \<union> exact_in db nm ?cs \<union> exact_in db nm ?rest)"
      using Cons.prems(2) by (simp add: tracks_def exact_in_def)
    show ?thesis
    proof (cases "card (E \<union> exact_in db nm ?cs) \<le> 1")
      case one: True
      have "\<And>y. y \<in> (E \<union> exact_in db nm ?cs) \<union> (P \<union> partial_in db nm ?cs) \<Longrightarrow> valid db y"
        using Cons.prems(1) fl(2) by (auto simp: exact_in_def partial_in_def)
      from Cons.IH [OF this mp [OF d1(2) one]] show ?thesis
        unfolding sets using True one d1(1) by (simp add: fl(1))
    next
      case False
      have "card (E \<union> exact_in db nm ?cs) \<le> card (E \<union> exact_in db nm ?cs \<union> exact_in db nm ?rest)"
        by (rule card_mono [OF fin]) simp
      with False True d1(1) show ?thesis unfolding sets by (simp add: fl(1))
    qed
  qed
qed

lemma match_contents_spec:
  assumes ok: "db_ok db" and p: "dbpriv_find_object db player = Some ob" and nm: "nul_free nm"
  shows "match_contents db player nm
    = Some (best_match db nm (contents_list db player @ contents_list db (o_location ob)))"
proof -
  let ?xs = "[player, o_location ob]" and ?d = "\<lparr>md_exact = NOTHING, md_partial = FAILED_MATCH\<rparr>"
  let ?os = "contents_list db player @ contents_list db (o_location ob)"
  have "tracks ?d {} {}" by (simp add: tracks_def sole_def)
  from match_steps_spec [OF ok nm _ this, of ?xs] obtain d where
    d: "match_steps db nm ?d ?xs = Some (d, \<not> card (exact_in db nm ?os) \<le> 1)"
      "card (exact_in db nm ?os) \<le> 1 \<longrightarrow> tracks d (exact_in db nm ?os) (partial_in db nm ?os)" by auto
  have run: "match_contents db player nm = Some (if \<not> card (exact_in db nm ?os) \<le> 1 then AMBIGUOUS
      else if md_exact d \<noteq> NOTHING then md_exact d else md_partial d)"
    using p by (simp add: match_contents_def db_object_location_def valid_def d(1) del: match_steps.simps)
  have fin: "finite (exact_in db nm ?os)" by (simp add: exact_in_def)
  have val: "x \<in> exact_in db nm ?os \<Longrightarrow> valid db x" for x
    by (auto simp: exact_in_def dest: contents_list_valid [OF ok])
  show ?thesis
  proof (cases "card (exact_in db nm ?os) \<le> 1")
    case True
    with fin consider "exact_in db nm ?os = {}" | y where "exact_in db nm ?os = {y}" using card_le_1 by blast
    then show ?thesis
    proof cases
      case 1
      with run d(2) True show ?thesis by (simp add: best_match_def tracks_def) (simp add: sole_def)
    next
      case (2 y)
      with val have "y \<noteq> NOTHING" by auto
      with 2 run d(2) True show ?thesis by (simp add: best_match_def tracks_def) (simp add: sole_def)
    qed
  next
    case False
    with fin have "exact_in db nm ?os \<noteq> {}" "\<not> (\<exists>y. exact_in db nm ?os = {y})" using card_le_1 by blast+
    with False run show ?thesis by (simp add: best_match_def sole_def)
  qed
qed

section \<open>What a command means\<close>

lemma snd_scan_word:
  "snd (scan_word q (c # s)) =
     (if \<not> q \<and> c = CHR '' '' then c # s
      else if c = QUOTE then snd (scan_word (\<not> q) s)
      else if c = BACKSLASH then (case s of [] \<Rightarrow> [] | _ # r \<Rightarrow> snd (scan_word q r))
      else snd (scan_word q s))"
  by (simp split: prod.splits list.splits)

lemma skip_word_scan: "skip_word q s = snd (scan_word q s)"
proof (induction q s rule: skip_word.induct)
  case (2 q c s)
  then show ?case unfolding skip_word.simps snd_scan_word
    by (auto simp del: scan_word.simps skip_word.simps split: list.split)
qed simp

lemma parse_skip: "parse_into_words (skip_spaces s) = parse_into_words s"
proof -
  have "skip_spaces (skip_spaces s) = skip_spaces s" by (simp add: skip_spaces_def dropWhile_idem)
  then show ?thesis by (subst (1 2) parse_into_words.simps) simp
qed

lemma parse_space: "parse_into_words (CHR '' '' # s) = parse_into_words s"
  by (subst (1 2) parse_into_words.simps) (simp add: skip_spaces_def)

definition plain_word :: "string \<Rightarrow> bool" where
  "plain_word v \<longleftrightarrow> v \<noteq> [] \<and> list_all (\<lambda>c. c \<noteq> CHR '' '' \<and> c \<noteq> QUOTE \<and> c \<noteq> BACKSLASH) v"

lemma scan_plain:
  "list_all (\<lambda>c. c \<noteq> CHR '' '' \<and> c \<noteq> QUOTE \<and> c \<noteq> BACKSLASH) v \<Longrightarrow>
   scan_word False (v @ CHR '' '' # s) = (v, CHR '' '' # s)"
  by (induction v) simp_all

lemma parse_plain: "plain_word v \<Longrightarrow> parse_into_words (v @ CHR '' '' # s) = v # parse_into_words s"
proof -
  assume v: "plain_word v"
  then obtain c u where c: "v = c # u" "c \<noteq> CHR '' ''" by (cases v) (auto simp: plain_word_def)
  have "skip_spaces (v @ CHR '' '' # s) = c # (u @ CHR '' '' # s)" using c by (simp add: skip_spaces_def)
  moreover have "scan_word False (c # (u @ CHR '' '' # s)) = (v, CHR '' '' # s)"
    using scan_plain [of v s] v c by (simp add: plain_word_def del: scan_word.simps)
  ultimately show ?thesis using parse_step parse_space by metis
qed

lemma specials_plain: "plain_word ''say''" "plain_word ''emote''" "plain_word ''eval''"
  by code_simp+

text \<open>The words of the line are the verb and the words of the argument string.\<close>

lemma command_line_cases:
  assumes "command_line c = (buf, argstr)"
  obtains (special) v where "plain_word v" "buf = v @ CHR '' '' # argstr"
  | (plain) "buf = skip_spaces c" "argstr = skip_spaces (skip_word False (skip_spaces c))"
proof -
  let ?c = "skip_spaces c"
  define speak where "speak = (\<lambda>verb. (verb @ '' '' @ tl ?c, tl ?c))"
  have sp: thesis if "speak v = (buf, argstr)" "plain_word v" for v
    using that by (intro special [of v]) (auto simp add: speak_def)
  have eq: "(if ?c \<noteq> [] \<and> hd ?c = QUOTE then speak ''say''
       else if ?c \<noteq> [] \<and> hd ?c = CHR '':'' then speak ''emote''
       else if ?c \<noteq> [] \<and> hd ?c = CHR '';'' then speak ''eval''
       else (?c, skip_spaces (skip_word False ?c))) = (buf, argstr)"
    using assms unfolding command_line_def Let_def speak_def .
  then consider "speak ''say'' = (buf, argstr)" | "speak ''emote'' = (buf, argstr)" | "speak ''eval'' = (buf, argstr)"
    | "(?c, skip_spaces (skip_word False ?c)) = (buf, argstr)" by (simp only: split: if_split_asm)
  then show thesis
  proof cases
    case 1 from sp [OF 1 specials_plain(1)] show thesis .
  next
    case 2 from sp [OF 2 specials_plain(2)] show thesis .
  next
    case 3 from sp [OF 3 specials_plain(3)] show thesis .
  next
    case 4 then show thesis by (intro plain) auto
  qed
qed

lemma command_line_words:
  assumes "command_line c = (buf, argstr)" "parse_into_words buf \<noteq> []"
  shows "tl (parse_into_words buf) = parse_into_words argstr"
proof -
  let ?c = "skip_spaces c"
  from assms(1) show ?thesis
  proof (cases rule: command_line_cases)
    case (special v)
    from parse_plain [OF special(1), of argstr] special(2) show ?thesis by simp
  next
    case plain
    show ?thesis
    proof (cases ?c)
      case Nil
      with plain assms(2) show ?thesis by (subst (asm) parse_into_words.simps) (simp add: skip_spaces_def)
    next
      case (Cons d t)
      obtain w r where wr: "scan_word False (d # t) = (w, r)" by fastforce
      have "skip_spaces ?c = d # t" using Cons by (metis dropWhile_idem skip_spaces_def)
      from parse_step [OF this wr] plain wr Cons show ?thesis
        by (simp add: parse_skip skip_word_scan del: scan_word.simps skip_word.simps)
    qed
  qed
qed

lemma prep_entries_ok: "list_all (\<lambda>(j, alias). j < 15 \<and> 1 \<le> length alias \<and> length alias \<le> MAXPPHRASE) prep_entries"
  by code_simp

lemma prep_atD:
  assumes "prep_at exact argv i = Some (j, phr)"
  shows "j < 15" "1 \<le> length phr" "phrase_at argv i phr" "i + length phr \<le> length argv \<or> length argv < i"
    "(j, phr) \<in> set prep_entries"
proof -
  from assms have "(j, phr) \<in> set prep_entries" and p: "phrase_at argv i phr"
    unfolding prep_at_def find_Some_iff by (metis (no_types, lifting) case_prod_conv nth_mem)+
  then show "j < 15" "1 \<le> length phr" "phrase_at argv i phr" "(j, phr) \<in> set prep_entries"
    using prep_entries_ok by (auto simp: list_all_iff)
  from p have "length (take (length phr) (drop i argv)) = length phr"
    unfolding phrase_at_def by (rule list_all2_lengthD)
  then show "i + length phr \<le> length argv \<or> length argv < i" by auto
qed

lemma find_prep_cases:
  obtains (none) "db_find_prep False ws = (PREP_NONE, 0, 0)" "\<And>i. i < length ws \<Longrightarrow> prep_at False ws i = None"
  | (found) i j phr where "db_find_prep False ws = (int j, i, i + length phr - 1)" "i < length ws"
      "prep_at False ws i = Some (j, phr)" "\<And>i'. i' < i \<Longrightarrow> prep_at False ws i' = None"
proof (cases "List.find (\<lambda>i. prep_at False ws i \<noteq> None) [0..<length ws]")
  case None
  then have "db_find_prep False ws = (PREP_NONE, 0, 0)" by (simp add: db_find_prep_def)
  moreover from None have "prep_at False ws i = None" if "i < length ws" for i
    using that by (simp del: not_None_eq add: find_None_iff)
  ultimately show thesis by (rule none)
next
  case (Some i)
  then have i: "i < length ws" "prep_at False ws i \<noteq> None" "\<And>i'. i' < i \<Longrightarrow> prep_at False ws i' = None"
    by (auto simp del: not_None_eq simp: find_Some_iff)
  from i(2) obtain j phr where ja: "prep_at False ws i = Some (j, phr)" by auto
  with Some have "db_find_prep False ws = (int j, i, i + length phr - 1)" by (simp add: db_find_prep_def)
  then show thesis by (rule found) (fact i(1), fact ja, fact i(3))
qed

text \<open>Every match returns.\<close>

lemma fold_until_total:
  "(\<And>x d. x \<in> set xs \<Longrightarrow> \<exists>r. f d x = Some r) \<Longrightarrow> \<exists>r. fold_until f xs d = Some r"
proof (induction xs arbitrary: d)
  case Nil
  show ?case by (intro exI [of _ "(d, False)"]) simp
next
  case (Cons x xs)
  from Cons.prems [of x d] obtain d1 b where "f d x = Some (d1, b)" by auto
  with Cons.IH [of d1] Cons.prems show ?case by (cases b) auto
qed

lemma match_steps_total:
  assumes ok: "db_ok db"
  shows "\<exists>r. match_steps db nm d xs = Some r"
proof (induction xs arbitrary: d)
  case Nil
  show ?case by (intro exI [of _ "(d, False)"]) simp
next
  case (Cons x xs)
  show ?case
  proof (cases "valid db x")
    case True
    have "\<exists>r. fold_until (match_proc db nm) (contents_list db x) d = Some r"
    proof (rule fold_until_total)
      fix y d assume "y \<in> set (contents_list db x)"
      from match_proc_names [OF ok contents_list_valid [OF ok this]] show "\<exists>r. match_proc db nm d y = Some r" by blast
    qed
    then obtain d1 b where "fold_until (match_proc db nm) (contents_list db x) d = Some (d1, b)" by auto
    with True Cons.IH [of d1] show ?thesis
      by (cases b) (auto simp: for_all_contents_list(1) [OF ok True])
  qed (use Cons.IH in simp)
qed

lemma match_object_total:
  assumes ok: "db_ok db"
  shows "\<exists>r. match_object db user nm = Some r"
proof (cases "valid db user")
  case True
  then obtain ob where ob: "dbpriv_find_object db user = Some ob" by (rule validE)
  from match_steps_total [OF ok, of nm "\<lparr>md_exact = NOTHING, md_partial = FAILED_MATCH\<rparr>" "[user, o_location ob]"]
  obtain d stop where
    "match_steps db nm \<lparr>md_exact = NOTHING, md_partial = FAILED_MATCH\<rparr> [user, o_location ob] = Some (d, stop)"
    by (metis surj_pair)
  then have "\<exists>r. match_contents db user nm = Some r"
    using ob by (simp add: match_contents_def db_object_location_def del: match_steps.simps)
  with ob show ?thesis by (auto simp: match_object_def db_object_location_def split: prod.split)
qed (auto simp: match_object_def split: prod.split)

text \<open>The words after the verb fall into direct object, preposition and indirect object.\<close>

definition command_parts :: "string list \<Rightarrow> string list \<Rightarrow> int \<Rightarrow> string list \<Rightarrow> string list \<Rightarrow> bool" where
  "command_parts ws ds prep ps rs \<longleftrightarrow>
     ws = ds @ ps @ rs
   \<and> (\<forall>i < length ds. prep_at False ws i = None)
   \<and> (if prep = PREP_NONE then ps = [] \<and> rs = []
      else \<exists>phr. prep_at False ws (length ds) = Some (nat prep, phr) \<and> 0 \<le> prep \<and> length ps = length phr)"

lemma parse_argv_spec:
  assumes ok: "db_ok db"
  shows "\<exists>pc ds ps rs. parse_argv db user argstr (v # ws) = Some pc
      \<and> pc_verb pc = v \<and> pc_argstr pc = argstr \<and> pc_args pc = map TYPE_STR ws
      \<and> command_parts ws ds (pc_prep pc) ps rs
      \<and> pc_dobjstr pc = build_string ds \<and> pc_prepstr pc = build_string ps \<and> pc_iobjstr pc = build_string rs
      \<and> match_object db user (pc_dobjstr pc) = Some (pc_dobj pc)
      \<and> match_object db user (pc_iobjstr pc) = Some (pc_iobj pc)"
proof -
  have empty: "match_object db user [] = Some NOTHING" by (simp add: match_object_def)
  show ?thesis
  proof (cases rule: find_prep_cases [of ws])
    case none
    obtain dobj where dobj: "match_object db user (build_string ws) = Some dobj" using match_object_total [OF ok] by blast
    have sp: "prep_span (v # ws) = (PREP_NONE, Suc (length ws), Suc (length ws))"
      using none(1) by (simp add: prep_span_def)
    have parts: "command_parts ws ws PREP_NONE [] []" using none(2) by (simp add: command_parts_def)
    have "parse_argv db user argstr (v # ws) = Some \<lparr>pc_verb = v, pc_argstr = argstr, pc_args = map TYPE_STR ws,
            pc_dobjstr = build_string ws, pc_dobj = dobj, pc_prepstr = build_string [], pc_prep = PREP_NONE,
            pc_iobjstr = build_string [], pc_iobj = NOTHING\<rparr>"
      unfolding parse_argv_def sp using dobj empty by (cases "ws = []") (simp_all add: Let_def)
    with parts dobj empty show ?thesis by fastforce
  next
    case (found i j phr)
    note pa = prep_atD [OF found(3)]
    let ?n = "length phr"
    define ds where "ds = take i ws"
    define ps where "ps = take ?n (drop i ws)"
    define rs where "rs = drop (i + ?n) ws"
    have len: "i + ?n \<le> length ws" using pa(4) found(2) by simp
    obtain dobj where dobj: "match_object db user (build_string ds) = Some dobj" using match_object_total [OF ok] by blast
    obtain iobj where iobj: "match_object db user (build_string rs) = Some iobj" using match_object_total [OF ok] by blast
    from pa(2) obtain m where m: "?n = Suc m" by (cases phr) auto
    have pn: "int j \<noteq> PREP_NONE" by (simp add: PREP_NONE_def)
    have sp: "prep_span (v # ws) = (int j, i + 1, i + ?n)"
      using found(1,2) pn pa(2) by (auto simp: prep_span_def)
    have parts: "command_parts ws ds (int j) ps rs"
      unfolding command_parts_def
    proof (intro conjI)
      show "ws = ds @ ps @ rs" unfolding ds_def ps_def rs_def
        by (metis append_take_drop_id drop_drop add.commute)
      show "\<forall>i < length ds. prep_at False ws i = None" using found(4) by (simp add: ds_def)
      show "if int j = PREP_NONE then ps = [] \<and> rs = []
        else \<exists>phr. prep_at False ws (length ds) = Some (nat (int j), phr) \<and> 0 \<le> int j \<and> length ps = length phr"
        using pn found(2,3) len by (simp add: ds_def ps_def)
    qed
    have "parse_argv db user argstr (v # ws) = Some \<lparr>pc_verb = v, pc_argstr = argstr, pc_args = map TYPE_STR ws,
            pc_dobjstr = build_string ds, pc_dobj = dobj, pc_prepstr = build_string ps, pc_prep = int j,
            pc_iobjstr = build_string rs, pc_iobj = iobj\<rparr>"
      unfolding parse_argv_def sp using pn iobj dobj empty
      by (cases "i = 0") (simp_all add: Let_def ds_def ps_def rs_def m)
    with parts dobj iobj show ?thesis by fastforce
  qed
qed

lemma parse_command_spec:
  assumes ok: "db_ok db" and c: "command_line c = (buf, argstr)"
  shows "if parse_into_words buf = [] then parse_command db c user = Some None
    else \<exists>pc ds ps rs. parse_command db c user = Some (Some pc)
      \<and> pc_verb pc = hd (parse_into_words buf) \<and> pc_argstr pc = argstr
      \<and> pc_args pc = map TYPE_STR (parse_into_words argstr)
      \<and> command_parts (parse_into_words argstr) ds (pc_prep pc) ps rs
      \<and> pc_dobjstr pc = build_string ds \<and> pc_prepstr pc = build_string ps \<and> pc_iobjstr pc = build_string rs
      \<and> match_object db user (pc_dobjstr pc) = Some (pc_dobj pc)
      \<and> match_object db user (pc_iobjstr pc) = Some (pc_iobj pc)"
proof (cases "parse_into_words buf = []")
  case True
  with c show ?thesis by (simp add: parse_command_def)
next
  case False
  have "parse_into_words buf = hd (parse_into_words buf) # parse_into_words argstr"
    using command_line_words [OF c False] False by (metis list.collapse)
  then have "parse_command db c user =
      map_option Some (parse_argv db user argstr (hd (parse_into_words buf) # parse_into_words argstr))"
    using c False by (simp add: parse_command_def)
  with parse_argv_spec [OF ok, of user argstr "hd (parse_into_words buf)" "parse_into_words argstr"] False
  show ?thesis by auto
qed

end
