(* ===== verification/VerbCache.thy ===== *)
theory VerbCache
  imports DbVerbs DbOk
begin

text \<open>
  The cache of verb lookups answers as the walk over the ancestors would.
  \<open>lookup_callable\<close> is that walk as a function of the objects alone.  An entry is
  keyed by the first ancestor that has verbs, so that all verbless objects
  below it share the entry; \<open>cache_ok\<close> says that each entry, negative ones included, is
  in its bucket and holds what the walk finds from its key.
\<close>

section \<open>The walk over the ancestors\<close>

primrec walk_in :: "(object \<Rightarrow> verb_handle option) \<Rightarrow> db \<Rightarrow> objid list \<Rightarrow> verb_handle option" where
  "walk_in here db [] = None"
| "walk_in here db (a # as) =
     (case here (the (dbpriv_find_object db a)) of None \<Rightarrow> walk_in here db as | Some h \<Rightarrow> Some h)"

lemma verb_walk_chain:
  "chain o_parent db c as \<Longrightarrow> verb_walk here db (dbpriv_find_object db c) = Some (walk_in here db as)"
proof (induction as arbitrary: c)
  case Nil
  then show ?case by (simp add: verb_walk.simps)
next
  case (Cons a as)
  then obtain ob where ob: "c = a" "dbpriv_find_object db a = Some ob" and ch: "chain o_parent db (o_parent ob) as"
    by auto
  from Cons.IH [OF ch] ob show ?case by (subst verb_walk.simps) (auto split: option.splits)
qed

lemma walk_in_append:
  "(\<And>a. a \<in> set as \<Longrightarrow> here (the (dbpriv_find_object db a)) = None) \<Longrightarrow>
   walk_in here db (as @ bs) = walk_in here db bs"
  by (induction as) auto

lemma walk_in_cong:
  "(\<And>a. a \<in> set as \<Longrightarrow> here (the (dbpriv_find_object db a)) = here' (the (dbpriv_find_object db' a))) \<Longrightarrow>
   walk_in here db as = walk_in here' db' as"
  by (induction as) (auto split: option.splits)

definition lookup_callable :: "db \<Rightarrow> objid \<Rightarrow> string \<Rightarrow> verb_handle option" where
  "lookup_callable db x w = walk_in (callable_here (\<lambda>_ _. False) w) db (chain_from o_parent db x)"

lemma lookup_callable_chain:
  "chain o_parent db x as \<Longrightarrow> lookup_callable db x w = walk_in (callable_here (\<lambda>_ _. False) w) db as"
  by (simp add: lookup_callable_def chain_from_eq)

lemma lookup_NOTHING [simp]: "lookup_callable db NOTHING w = None"
  using lookup_callable_chain [of db NOTHING "[]"] by simp

lemma callable_here_verbless: "o_verbdefs ob = [] \<Longrightarrow> callable_here al w ob = None"
  by (simp add: callable_here_def find_verbdef_by_name_def)

text \<open>Where the search for the key of the cache stops.\<close>

lemma first_with_verbs_chain:
  assumes "chain o_parent db c as"
  shows "(first_with_verbs db (dbpriv_find_object db c) = Some None
          \<and> (\<forall>a \<in> set as. o_verbdefs (the (dbpriv_find_object db a)) = []))
     \<or> (\<exists>xs b bs ob. as = xs @ b # bs \<and> (\<forall>a \<in> set xs. o_verbdefs (the (dbpriv_find_object db a)) = [])
          \<and> dbpriv_find_object db b = Some ob \<and> o_verbdefs ob \<noteq> [] \<and> chain o_parent db b (b # bs)
          \<and> first_with_verbs db (dbpriv_find_object db c) = Some (Some ob))"
  using assms
proof (induction as arbitrary: c)
  case Nil
  then show ?case by (simp add: first_with_verbs.simps)
next
  case (Cons a as)
  then obtain ob where ob: "c = a" "dbpriv_find_object db a = Some ob" and ch: "chain o_parent db (o_parent ob) as"
    by auto
  show ?case
  proof (cases "o_verbdefs ob = []")
    case False
    with ob Cons.prems have "first_with_verbs db (dbpriv_find_object db c) = Some (Some ob)"
      by (simp add: first_with_verbs.simps)
    with ob Cons.prems False show ?thesis
      by (intro disjI2 exI [of _ "[]"] exI [of _ a] exI [of _ as] exI [of _ ob]) simp
  next
    case True
    with ob have eq: "first_with_verbs db (dbpriv_find_object db c) =
        first_with_verbs db (dbpriv_find_object db (o_parent ob))"
      by (subst first_with_verbs.simps) simp
    from Cons.IH [OF ch] show ?thesis
    proof
      assume "first_with_verbs db (dbpriv_find_object db (o_parent ob)) = Some None
          \<and> (\<forall>a \<in> set as. o_verbdefs (the (dbpriv_find_object db a)) = [])"
      with eq True ob show ?thesis by simp
    next
      assume "\<exists>xs b bs ob'. as = xs @ b # bs \<and> (\<forall>a \<in> set xs. o_verbdefs (the (dbpriv_find_object db a)) = [])
          \<and> dbpriv_find_object db b = Some ob' \<and> o_verbdefs ob' \<noteq> [] \<and> chain o_parent db b (b # bs)
          \<and> first_with_verbs db (dbpriv_find_object db (o_parent ob)) = Some (Some ob')"
      then obtain xs b bs ob' where "as = xs @ b # bs" "\<forall>a \<in> set xs. o_verbdefs (the (dbpriv_find_object db a)) = []"
        "dbpriv_find_object db b = Some ob'" "o_verbdefs ob' \<noteq> []" "chain o_parent db b (b # bs)"
        "first_with_verbs db (dbpriv_find_object db (o_parent ob)) = Some (Some ob')" by blast
      with eq True ob show ?thesis
        by (intro disjI2 exI [of _ "a # xs"] exI [of _ b] exI [of _ bs] exI [of _ ob']) simp
    qed
  qed
qed

text \<open>
  The key of the lookup from \<open>x\<close>: the first ancestor with verbs, or \<^verbatim>\<open>NOTHING\<close>.
\<close>

definition is_key :: "db \<Rightarrow> objid \<Rightarrow> bool" where
  "is_key db k \<longleftrightarrow> k = NOTHING \<or> (\<exists>ob. dbpriv_find_object db k = Some ob \<and> o_verbdefs ob \<noteq> [])"

lemma cache_key:
  assumes "inherit_ok db" "valid db x"
  obtains key ks where "is_key db key" "chain o_parent db key ks"
    "first_with_verbs db (dbpriv_find_object db x) = Some (dbpriv_find_object db key)"
    "\<And>w. lookup_callable db x w = lookup_callable db key w"
proof -
  from assms obtain as where as: "chain o_parent db x as" unfolding tree_ok_def by blast
  have skip: "walk_in (callable_here (\<lambda>_ _. False) w) db (ys @ zs) = walk_in (callable_here (\<lambda>_ _. False) w) db zs"
    if "\<forall>a \<in> set ys. o_verbdefs (the (dbpriv_find_object db a)) = []" for ys zs w
    by (rule walk_in_append) (simp add: callable_here_verbless that)
  from first_with_verbs_chain [OF as] show thesis
  proof (elim disjE conjE exE)
    assume f: "first_with_verbs db (dbpriv_find_object db x) = Some None"
      and n: "\<forall>a \<in> set as. o_verbdefs (the (dbpriv_find_object db a)) = []"
    have "lookup_callable db x w = None" for w
      using skip [OF n, of w "[]"] by (simp add: lookup_callable_chain [OF as])
    with f show thesis by (intro that [of NOTHING "[]"]) (simp_all add: is_key_def)
  next
    fix xs b bs ob
    assume e: "as = xs @ b # bs" and n: "\<forall>a \<in> set xs. o_verbdefs (the (dbpriv_find_object db a)) = []"
      and b: "dbpriv_find_object db b = Some ob" "o_verbdefs ob \<noteq> []" and ch: "chain o_parent db b (b # bs)"
      and f: "first_with_verbs db (dbpriv_find_object db x) = Some (Some ob)"
    have "lookup_callable db x w = lookup_callable db b w" for w
      using skip [OF n, of w "b # bs"] e by (simp add: lookup_callable_chain [OF as] lookup_callable_chain [OF ch])
    with f b ch show thesis by (intro that [of b "b # bs"]) (simp_all add: is_key_def)
  qed
qed

section \<open>What a lookup depends on\<close>

definition verb_sig :: "object \<Rightarrow> objid \<times> objid \<times> (string \<times> 16 word) list" where
  "verb_sig ob = (o_id ob, o_parent ob, map (\<lambda>v. (vd_name v, vd_perms v)) (o_verbdefs ob))"

lemma find_verb_from_sig:
  "map (\<lambda>v. (vd_name v, vd_perms v)) vs = map (\<lambda>v. (vd_name v, vd_perms v)) us \<Longrightarrow>
   find_verb_from al w c n vs = find_verb_from al w c n us"
proof (induction vs arbitrary: n us)
  case (Cons v vs)
  then obtain u us' where "us = u # us'" "vd_name v = vd_name u" "vd_perms v = vd_perms u"
    "map (\<lambda>v. (vd_name v, vd_perms v)) vs = map (\<lambda>v. (vd_name v, vd_perms v)) us'" by (cases us) auto
  with Cons.IH [of us'] show ?case by auto
qed simp

lemma callable_here_sig: "verb_sig ob' = verb_sig ob \<Longrightarrow> callable_here al w ob' = callable_here al w ob"
  unfolding verb_sig_def callable_here_def find_verbdef_by_name_def
  by (simp add: find_verb_from_sig [of "o_verbdefs ob'" "o_verbdefs ob"])

lemma lookup_on_chain:
  assumes ch: "chain o_parent db x as"
    and same: "\<And>a. a \<in> set as \<Longrightarrow>
      map_option verb_sig (dbpriv_find_object db' a) = map_option verb_sig (dbpriv_find_object db a)"
  shows "lookup_callable db' x w = lookup_callable db x w" "chain o_parent db' x as"
proof -
  have each: "\<exists>ob'. dbpriv_find_object db' a = Some ob' \<and> verb_sig ob' = verb_sig ob"
    if "a \<in> set as" "dbpriv_find_object db a = Some ob" for a ob
    using same [OF that(1)] that(2) by auto
  show ch': "chain o_parent db' x as"
    by (rule chain_cong [OF _ ch]) (use each in \<open>fastforce simp: verb_sig_def\<close>)
  have "callable_here al w (the (dbpriv_find_object db a)) = callable_here al w (the (dbpriv_find_object db' a))"
    if a: "a \<in> set as" for a al
  proof -
    from chain_valid [OF ch a] obtain ob where ob: "dbpriv_find_object db a = Some ob" by (rule validE)
    from each [OF a ob] obtain ob' where "dbpriv_find_object db' a = Some ob'" "verb_sig ob' = verb_sig ob" by blast
    with ob callable_here_sig [of ob' ob] show ?thesis by simp
  qed
  then show "lookup_callable db' x w = lookup_callable db x w"
    unfolding lookup_callable_chain [OF ch] lookup_callable_chain [OF ch'] by (intro walk_in_cong) simp
qed

text \<open>Names are compared without case, so an entry serves every spelling.\<close>

lemma find_verb_from_fold:
  assumes "fold_case w = fold_case w'"
  shows "find_verb_from (\<lambda>_. False) w c n vs = find_verb_from (\<lambda>_. False) w' c n vs"
  by (induction vs arbitrary: n) (auto simp add: verbcasecmp_def verb_loop_fold [OF assms])

lemma lookup_fold: "fold_case w = fold_case w' \<Longrightarrow> lookup_callable db x w = lookup_callable db x w'"
  unfolding lookup_callable_def callable_here_def find_verbdef_by_name_def
  by (simp add: find_verb_from_fold [of w w'])

text \<open>
  A lookup with a string that is itself the name of a verb stops there; that
  agrees with the comparison of the characters if the name accepts itself.
\<close>

definition harmless :: "(objid \<Rightarrow> nat \<Rightarrow> bool) \<Rightarrow> db \<Rightarrow> string \<Rightarrow> bool" where
  "harmless al db w \<longleftrightarrow>
     (\<forall>a ob i. dbpriv_find_object db a = Some ob \<longrightarrow> i < length (o_verbdefs ob) \<longrightarrow> al a i \<longrightarrow>
        verb_loop (vd_name (o_verbdefs ob ! i)) w)"

lemma find_verb_from_harmless:
  "(\<And>i. i < length vs \<Longrightarrow> al (n + i) \<Longrightarrow> verb_loop (vd_name (vs ! i)) w) \<Longrightarrow>
   find_verb_from al w c n vs = find_verb_from (\<lambda>_. False) w c n vs"
proof (induction vs arbitrary: n)
  case (Cons v vs)
  have "find_verb_from al w c (Suc n) vs = find_verb_from (\<lambda>_. False) w c (Suc n) vs"
  proof (rule Cons.IH)
    fix i assume "i < length vs" "al (Suc n + i)"
    with Cons.prems [of "Suc i"] show "verb_loop (vd_name (vs ! i)) w" by simp
  qed
  moreover have "verbcasecmp (al n) (vd_name v) w = verbcasecmp False (vd_name v) w"
    using Cons.prems [of 0] by (auto simp: verbcasecmp_def)
  ultimately show ?case by auto
qed simp

lemma callable_here_harmless:
  assumes "harmless al db w" "dbpriv_find_object db a = Some ob" "o_id ob = a"
  shows "callable_here al w ob = callable_here (\<lambda>_ _. False) w ob"
proof -
  have "find_verb_from (al a) w True 0 (o_verbdefs ob) = find_verb_from (\<lambda>_. False) w True 0 (o_verbdefs ob)"
    by (rule find_verb_from_harmless) (use assms in \<open>simp add: harmless_def\<close>)
  with assms(3) show ?thesis by (simp add: callable_here_def find_verbdef_by_name_def)
qed

section \<open>The cache\<close>

definition entry_ok :: "db \<Rightarrow> nat \<Rightarrow> nat \<Rightarrow> vc_entry \<Rightarrow> bool" where
  "entry_ok db n b e \<longleftrightarrow>
     vc_hash e = vc_hash_of (vc_verbname e) (vc_oid_key e) \<and> unat (vc_hash_of (vc_verbname e) (vc_oid_key e)) mod n = b
   \<and> nul_free (vc_verbname e) \<and> is_key db (vc_oid_key e)
   \<and> vc_h e = lookup_callable db (vc_oid_key e) (vc_verbname e)"

definition table_ok :: "db \<Rightarrow> vc_entry list list \<Rightarrow> bool" where
  "table_ok db t \<longleftrightarrow> t \<noteq> [] \<and> (\<forall>b < length t. \<forall>e \<in> set (t ! b). entry_ok db (length t) b e)"

definition cache_ok :: "db \<Rightarrow> bool" where
  "cache_ok db \<longleftrightarrow> (case vc_table db of None \<Rightarrow> True | Some t \<Rightarrow> table_ok db t)"

lemma table_ok_update:
  assumes "table_ok db t" "b < length t" "entry_ok db (length t) b e"
  shows "table_ok db (t[b := e # t ! b])"
  using assms unfolding table_ok_def by (auto simp: nth_list_update)

lemma cache_cong:
  assumes "cache_ok db" "vc_table db' = vc_table db"
    and "\<And>k. is_key db k \<Longrightarrow> is_key db' k"
    and "\<And>k w. is_key db k \<Longrightarrow> lookup_callable db' k w = lookup_callable db k w"
  shows "cache_ok db'"
proof (cases "vc_table db")
  case (Some t)
  with assms(1) have "table_ok db t" by (simp add: cache_ok_def)
  moreover have "entry_ok db' n b e" if "entry_ok db n b e" for n b e
    using that assms(3,4) [of "vc_oid_key e"] by (simp add: entry_ok_def)
  ultimately have "table_ok db' t" by (simp add: table_ok_def)
  with Some assms(2) show ?thesis by (simp add: cache_ok_def)
qed (simp add: cache_ok_def assms(2))

lemma cache_cleared:
  assumes "cache_ok db" "vc_table db' = vc_table (db_priv_affected_callable_verb_lookup db)"
  shows "cache_ok db'"
  using assms
  by (cases "vc_table db") (auto simp: cache_ok_def table_ok_def db_priv_affected_callable_verb_lookup_def)

lemma table_ok_hit:
  assumes t: "table_ok db t" and b: "b < length t" and w: "nul_free w"
    and f: "List.find (vc_hit (vc_hash_of w k) k w) (t ! b) = Some e"
  shows "vc_h e = lookup_callable db k w"
proof -
  from f have e: "e \<in> set (t ! b)" "vc_hit (vc_hash_of w k) k w e"
    by (auto simp: find_Some_iff)
  with t b have ok: "entry_ok db (length t) b e" by (simp add: table_ok_def)
  from e(2) ok w have "fold_case w = fold_case (vc_verbname e)" "k = vc_oid_key e"
    by (simp_all add: vc_hit_def entry_ok_def mystrcasecmp_0_iff)
  with ok lookup_fold [of w "vc_verbname e"] show ?thesis by (simp add: entry_ok_def)
qed

section \<open>A lookup through the cache\<close>

definition only_cache :: "db \<Rightarrow> db \<Rightarrow> bool" where
  "only_cache db db' \<longleftrightarrow>
     objects db' = objects db \<and> num_objects db' = num_objects db \<and> max_objects db' = max_objects db
   \<and> all_users db' = all_users db \<and> db_verb_generation db' = db_verb_generation db"

lemma only_cache_find: "only_cache db db' \<Longrightarrow> dbpriv_find_object db' = dbpriv_find_object db"
  by (simp add: fun_eq_iff only_cache_def dbpriv_find_object_def)

lemma lookup_same_objects:
  assumes "dbpriv_find_object db' = dbpriv_find_object db"
  shows "lookup_callable db' = lookup_callable db" "is_key db' = is_key db" "table_ok db' = table_ok db"
proof -
  have w: "walk_in here db' as = walk_in here db as" for here as by (rule walk_in_cong) (simp add: assms)
  show l: "lookup_callable db' = lookup_callable db"
    by (simp add: fun_eq_iff lookup_callable_def same_objects(3) [OF assms] w)
  show k: "is_key db' = is_key db" by (simp add: fun_eq_iff is_key_def assms)
  show "table_ok db' = table_ok db" by (simp add: fun_eq_iff table_ok_def entry_ok_def l k)
qed

lemma walk_harmless:
  assumes ok: "props_ok db" and al: "harmless al db w" and ch: "chain o_parent db k ks"
  shows "verb_walk (callable_here al w) db (dbpriv_find_object db k) = Some (lookup_callable db k w)"
proof -
  have "walk_in (callable_here al w) db ks = walk_in (callable_here (\<lambda>_ _. False) w) db ks"
  proof (rule walk_in_cong)
    fix a assume "a \<in> set ks"
    from chain_valid [OF ch this] obtain ob where ob: "dbpriv_find_object db a = Some ob" by (rule validE)
    with ok have "o_id ob = a" by (simp add: props_ok_def props_ok_at_def)
    with ob callable_here_harmless [OF al ob] show
      "callable_here al w (the (dbpriv_find_object db a)) = callable_here (\<lambda>_ _. False) w (the (dbpriv_find_object db a))"
      by simp
  qed
  with verb_walk_chain [OF ch] lookup_callable_chain [OF ch] show ?thesis by simp
qed

lemma key_id:
  assumes "props_ok db" "is_key db k"
  shows "(case dbpriv_find_object db k of None \<Rightarrow> NOTHING | Some ob \<Rightarrow> o_id ob) = k"
  using assms by (auto simp: is_key_def props_ok_def props_ok_at_def)

definition cached :: "db \<Rightarrow> objid \<Rightarrow> string \<Rightarrow> bool" where
  "cached db k w \<longleftrightarrow> (\<exists>t. vc_table db = Some t \<and>
     List.find (vc_hit (vc_hash_of w k) k w) (t ! (unat (vc_hash_of w k) mod length t)) \<noteq> None)"

lemma find_callable_table:
  assumes ok: "db_ok db" and t: "vc_table db = Some t" "table_ok db t"
    and x: "valid db x" and w: "nul_free w" and al: "harmless al db w"
  shows "\<exists>db'. db_find_callable_verb al db x w = Some (db', lookup_callable db x w) \<and> cache_ok db'
      \<and> only_cache db db'
      \<and> (\<exists>k. is_key db k \<and> cached db' k w \<and> first_with_verbs db (dbpriv_find_object db x) = Some (dbpriv_find_object db k)
           \<and> verbcache_miss db' = verbcache_miss db + (if cached db k w then 0 else 1))"
proof -
  note D = db_okD [OF ok]
  from D(3) x obtain k ks where k: "is_key db k" "chain o_parent db k ks"
    and f: "first_with_verbs db (dbpriv_find_object db x) = Some (dbpriv_find_object db k)"
    and lk: "\<And>w. lookup_callable db x w = lookup_callable db k w" by (rule cache_key) blast
  let ?h = "vc_hash_of w k" and ?b = "unat (vc_hash_of w k) mod length t"
  note id = key_id [OF D(5) k(1)]
  have b: "?b < length t" and ne: "t \<noteq> []" using t(2) by (simp_all add: table_ok_def)
  show ?thesis
  proof (cases "List.find (vc_hit ?h k w) (t ! ?b)")
    case (Some e)
    define db' where "db' = (if vc_h e \<noteq> None then db\<lparr>verbcache_hit := verbcache_hit db + 1\<rparr>
                             else db\<lparr>verbcache_neg_hit := verbcache_neg_hit db + 1\<rparr>)"
    have r: "db_find_callable_verb al db x w = Some (db', vc_h e)"
      using t(1) f id ne Some by (simp add: db_find_callable_verb_def Let_def assert_that_def db'_def)
    have he: "vc_h e = lookup_callable db x w" using table_ok_hit [OF t(2) b w Some] lk by simp
    have oc: "only_cache db db'" by (simp add: only_cache_def db'_def)
    have "cached db k w" using Some t(1) by (simp add: cached_def)
    moreover have v: "vc_table db' = vc_table db" "verbcache_miss db' = verbcache_miss db" by (simp_all add: db'_def)
    moreover have "cached db' k w" using calculation by (simp add: cached_def)
    moreover have "cache_ok db'"
      using v t lookup_same_objects(3) [OF only_cache_find [OF oc]] by (simp add: cache_ok_def)
    ultimately show ?thesis using r he oc k(1) f by auto
  next
    case None
    let ?e = "\<lparr>vc_hash = ?h, vc_oid_key = k, vc_verbname = w, vc_h = lookup_callable db k w\<rparr>"
    define db1 where "db1 = db\<lparr>verbcache_miss := verbcache_miss db + 1\<rparr>"
    define db' where "db' = db1\<lparr>vc_table := Some (t[?b := ?e # t ! ?b])\<rparr>"
    have f1: "dbpriv_find_object db1 = dbpriv_find_object db" by (simp add: db1_def)
    have "verb_walk (callable_here al w) db1 (dbpriv_find_object db1 k) = Some (lookup_callable db1 k w)"
      by (rule walk_harmless [of _ _ _ _ ks])
        (use D(5) al k(2) in \<open>simp_all add: same_objects [OF f1] harmless_def f1\<close>)
    then have "verb_walk (callable_here al w) db1 (dbpriv_find_object db k) = Some (lookup_callable db k w)"
      by (simp add: f1 lookup_same_objects(1) [OF f1])
    then have r: "db_find_callable_verb al db x w = Some (db', lookup_callable db x w)"
      using t(1) f id ne None by (simp add: db_find_callable_verb_def Let_def assert_that_def db'_def db1_def lk)
    have oc: "only_cache db db'" by (simp add: only_cache_def db'_def db1_def)
    have "entry_ok db (length t) ?b ?e" using k(1) w by (simp add: entry_ok_def)
    then have "table_ok db' (t[?b := ?e # t ! ?b])"
      using table_ok_update [OF t(2) b] lookup_same_objects(3) [OF only_cache_find [OF oc]] by simp
    then have "cache_ok db'" by (simp add: cache_ok_def db'_def)
    moreover have "cached db' k w" using b by (simp add: cached_def db'_def vc_hit_def)
    moreover have "\<not> cached db k w" using None t(1) by (simp add: cached_def)
    moreover have "verbcache_miss db' = verbcache_miss db + 1" by (simp add: db'_def db1_def)
    ultimately show ?thesis using r oc k(1) f by auto
  qed
qed

end
