(* ===== verification/CacheOps.thy ===== *)
theory CacheOps
  imports VerbCache
begin

text \<open>
  Every operation keeps the verb cache right: either it empties the cache, or
  it leaves alone what the lookups from the keys of the cache depend on.
\<close>

section \<open>Frames\<close>

lemma cache_keeps:
  assumes ok: "inherit_ok db" and c: "cache_ok db" and v: "vc_table db' = vc_table db"
    and k: "keeps verb_sig db db'"
  shows "cache_ok db'"
proof (rule cache_cong [OF c v])
  have at: "map_option verb_sig (dbpriv_find_object db' a) = map_option verb_sig (dbpriv_find_object db a)" for a
    using k by (simp add: keeps_def)
  fix y assume y: "is_key db y"
  show "is_key db' y"
  proof (cases "y = NOTHING")
    case False
    with y obtain ob where ob: "dbpriv_find_object db y = Some ob" "o_verbdefs ob \<noteq> []" by (auto simp: is_key_def)
    with at [of y] obtain ob' where "dbpriv_find_object db' y = Some ob'" "verb_sig ob' = verb_sig ob" by auto
    with ob show ?thesis by (auto simp: is_key_def verb_sig_def)
  qed (simp add: is_key_def)
  fix w show "lookup_callable db' y w = lookup_callable db y w"
  proof (cases "y = NOTHING")
    case False
    with y have "valid db y" by (auto simp: is_key_def valid_def)
    with ok obtain as where "chain o_parent db y as" unfolding tree_ok_def by blast
    then show ?thesis by (rule lookup_on_chain) (rule at)
  qed simp
qed

definition frame_data :: "object \<Rightarrow> (objid \<times> objid \<times> objid) \<times> (objid \<times> objid \<times> objid) \<times> (objid \<times> proplist \<times> pval list) \<times> 16 word" where
  "frame_data ob = (tree_links ob, place_links ob, prop_data ob, o_flags ob)"

lemma db_ok_frame:
  assumes "db_ok db" "keeps frame_data db db'"
    and "all_users db' = all_users db" "num_objects db' = num_objects db" "max_objects db' = max_objects db"
  shows "db_ok db'"
proof (rule db_ok_keeps [OF assms(1)])
  show "keeps tree_links db db'" by (rule keeps_via [OF assms(2), of _ fst]) (simp add: frame_data_def)
  show "keeps place_links db db'" by (rule keeps_via [OF assms(2), of _ "fst \<circ> snd"]) (simp add: frame_data_def)
  show "keeps prop_data db db'" by (rule keeps_via [OF assms(2), of _ "fst \<circ> snd \<circ> snd"]) (simp add: frame_data_def)
  show "keeps o_flags db db'" by (rule keeps_via [OF assms(2), of _ "snd \<circ> snd \<circ> snd"]) (simp add: frame_data_def)
qed (use assms in simp_all)

lemma db_ok_same:
  assumes "db_ok db" "dbpriv_find_object db' = dbpriv_find_object db"
    and "all_users db' = all_users db" "num_objects db' = num_objects db" "max_objects db' = max_objects db"
  shows "db_ok db'"
  using assms(1) keeps_same [OF assms(2)] assms(3-5) by (rule db_ok_frame)

lemma db_ok_affected: "db_ok db \<Longrightarrow> db_ok (db_priv_affected_callable_verb_lookup db)"
  by (erule db_ok_same) simp_all

lemma modify_keeps:
  assumes "modify_obj db x f = Some db'" "\<And>ob. g (f ob) = g ob"
  shows "keeps g db db'"
  using modify_objD [OF assms(1)] assms(2) by (auto simp: keeps_def)

lemma db_ok_modify:
  assumes "db_ok db" "modify_obj db x f = Some db'" "\<And>ob. frame_data (f ob) = frame_data ob"
  shows "db_ok db'"
proof -
  have "keeps frame_data db db'" using assms(2,3) by (rule modify_keeps)
  with modify_objD [OF assms(2)] show ?thesis by (auto intro: db_ok_frame [OF assms(1)])
qed

lemma cache_modify:
  assumes "db_ok db" "cache_ok db" "modify_obj db x f = Some db'" "\<And>ob. verb_sig (f ob) = verb_sig ob"
  shows "cache_ok db'"
proof -
  have "keeps verb_sig db db'" using assms(3,4) by (rule modify_keeps)
  with modify_objD [OF assms(3)] show ?thesis by (auto intro: cache_keeps [OF db_okD(3) [OF assms(1)] assms(2)])
qed

text \<open>Both invariants; \<open>moo_ok\<close> is what every reachable database satisfies.\<close>

definition moo_ok :: "db \<Rightarrow> bool" where
  "moo_ok db \<longleftrightarrow> db_ok db \<and> cache_ok db"

lemma moo_okI: "db_ok db \<Longrightarrow> cache_ok db \<Longrightarrow> moo_ok db"
  by (simp add: moo_ok_def)

lemma moo_okD: assumes "moo_ok db" shows "db_ok db" "cache_ok db"
  using assms by (simp_all add: moo_ok_def)

lemma moo_ok_modify:
  assumes "moo_ok db" "modify_obj db x f = Some db'"
    and "\<And>ob. frame_data (f ob) = frame_data ob" "\<And>ob. verb_sig (f ob) = verb_sig ob"
  shows "moo_ok db'"
proof (rule moo_okI)
  show "db_ok db'" using moo_okD(1) [OF assms(1)] assms(2,3) by (rule db_ok_modify)
  show "cache_ok db'" using moo_okD [OF assms(1)] assms(2,4) by (rule cache_modify)
qed

lemma moo_ok_cleared:
  assumes "moo_ok db" "modify_obj (db_priv_affected_callable_verb_lookup db) x f = Some db'"
    and "\<And>ob. frame_data (f ob) = frame_data ob"
  shows "moo_ok db'"
proof (rule moo_okI)
  show "db_ok db'" using db_ok_affected [OF moo_okD(1) [OF assms(1)]] assms(2,3) by (rule db_ok_modify)
  from assms(2) have "vc_table db' = vc_table (db_priv_affected_callable_verb_lookup db)"
    by (auto dest: modify_objD)
  then show "cache_ok db'" by (rule cache_cleared [OF moo_okD(2) [OF assms(1)]])
qed

lemma frame_verbdefs: "frame_data (ob\<lparr>o_verbdefs := vs\<rparr>) = frame_data ob"
  by (simp add: frame_data_def tree_links_def place_links_def prop_data_def)

section \<open>Verbs\<close>

lemma modify_verbD:
  assumes "modify_verb db h f = Some db'"
  shows "\<exists>v. verbdef_of db h = Some v
    \<and> modify_obj db (vh_definer h) (\<lambda>ob. ob\<lparr>o_verbdefs := (o_verbdefs ob)[vh_index h := f v]\<rparr>) = Some db'"
  using assms by (auto simp: modify_verb_def bind_eq_Some_conv)

lemma moo_ok_verb_cleared:
  "moo_ok db \<Longrightarrow> modify_verb (db_priv_affected_callable_verb_lookup db) h f = Some db' \<Longrightarrow> moo_ok db'"
  by (auto dest!: modify_verbD elim!: moo_ok_cleared simp: frame_verbdefs)

lemma verb_sig_update:
  assumes "vd_name (f v) = vd_name v" "vd_perms (f v) = vd_perms v" "n < length (o_verbdefs ob)" "o_verbdefs ob ! n = v"
  shows "verb_sig (ob\<lparr>o_verbdefs := (o_verbdefs ob)[n := f v]\<rparr>) = verb_sig ob"
  using assms by (auto simp: verb_sig_def map_update list_update_same_conv)

lemma moo_ok_verb_quiet:
  assumes ok: "moo_ok db" and m: "modify_verb db h f = Some db'"
    and f: "\<And>v. vd_name (f v) = vd_name v" "\<And>v. vd_perms (f v) = vd_perms v"
  shows "moo_ok db'"
proof -
  from modify_verbD [OF m] obtain v where v: "verbdef_of db h = Some v"
    and m': "modify_obj db (vh_definer h) (\<lambda>ob. ob\<lparr>o_verbdefs := (o_verbdefs ob)[vh_index h := f v]\<rparr>) = Some db'"
    by blast
  from v obtain ob where ob: "dbpriv_find_object db (vh_definer h) = Some ob"
    "vh_index h < length (o_verbdefs ob)" "o_verbdefs ob ! vh_index h = v"
    by (auto simp: verbdef_of_def nth_opt_def bind_eq_Some_conv split: if_splits)
  from m' ob(1) have db': "db' = db\<lparr>objects := (objects db)(vh_definer h \<mapsto> ob\<lparr>o_verbdefs := (o_verbdefs ob)[vh_index h := f v]\<rparr>)\<rparr>"
    by (simp add: modify_obj_Some)
  have "keeps verb_sig db db'"
    unfolding db' by (rule keeps_put [OF ob(1)], rule verb_sig_update [of f v, OF f(1) [of v] f(2) [of v] ob(2,3)])
  then have "cache_ok db'"
    by (intro cache_keeps [OF db_okD(3) [OF moo_okD(1) [OF ok]] moo_okD(2) [OF ok]]) (simp_all add: db')
  moreover have "db_ok db'" by (rule db_ok_modify [OF moo_okD(1) [OF ok] m']) (rule frame_verbdefs)
  ultimately show ?thesis by (simp add: moo_ok_def)
qed

lemma verb_ops_ok:
  assumes "moo_ok db"
  shows "db_add_verb db x names ow fl dobj prep iobj = Some (db', n) \<Longrightarrow> moo_ok db'"
    "db_delete_verb db vh = Some db' \<Longrightarrow> moo_ok db'"
    "db_set_verb_names db vh names = Some db' \<Longrightarrow> moo_ok db'"
    "db_set_verb_flags db vh fl = Some db' \<Longrightarrow> moo_ok db'"
    "db_set_verb_arg_specs db vh dobj prep iobj = Some db' \<Longrightarrow> moo_ok db'"
    "db_set_verb_owner db vh ow = Some db' \<Longrightarrow> moo_ok db'"
    "db_set_verb_program db vh prog = Some db' \<Longrightarrow> moo_ok db'"
proof -
  note cl = moo_ok_cleared [OF assms _ frame_verbdefs]
  show "moo_ok db'" if "db_add_verb db x names ow fl dobj prep iobj = Some (db', n)"
    using that by (auto simp: db_add_verb_def Let_def bind_eq_Some_conv intro: cl)
  show "moo_ok db'" if "db_delete_verb db vh = Some db'"
    using that by (auto simp: db_delete_verb_def Let_def bind_eq_Some_conv intro: cl)
  show "moo_ok db'" if "db_set_verb_names db vh names = Some db'"
    using that by (auto simp: db_set_verb_names_def Let_def bind_eq_Some_conv intro: moo_ok_verb_cleared [OF assms])
  show "moo_ok db'" if "db_set_verb_flags db vh fl = Some db'"
    using that by (auto simp: db_set_verb_flags_def Let_def bind_eq_Some_conv intro: moo_ok_verb_cleared [OF assms])
  show "moo_ok db'" if "db_set_verb_arg_specs db vh dobj prep iobj = Some db'"
    using that by (auto simp: db_set_verb_arg_specs_def Let_def bind_eq_Some_conv intro: moo_ok_verb_cleared [OF assms])
  show "moo_ok db'" if "db_set_verb_owner db vh ow = Some db'"
    using that by (auto simp: db_set_verb_owner_def bind_eq_Some_conv elim: moo_ok_verb_quiet [OF assms])
  show "moo_ok db'" if "db_set_verb_program db vh prog = Some db'"
    using that by (auto simp: db_set_verb_program_def bind_eq_Some_conv elim: moo_ok_verb_quiet [OF assms])
qed

section \<open>Objects and properties\<close>

lemma moo_ok_only_props:
  assumes ok: "moo_ok db" and p: "only_props db db'" and i: "inherit_ok db'" "props_ok db'"
  shows "moo_ok db'"
proof (rule moo_okI)
  show "db_ok db'" using moo_okD(1) [OF ok] p i by (rule db_ok_only_props)
  have "keeps verb_sig db db'"
    by (rule keeps_via [of prop_rest _ _ _ verb_sig]) (use p in \<open>simp_all add: only_props_def prop_rest_def verb_sig_def\<close>)
  moreover have "vc_table db' = vc_table db"
    using p unfolding only_props_def by (metis db.select_convs(5) db.surjective db.update_convs(1))
  ultimately show "cache_ok db'" using cache_keeps [OF db_okD(3) [OF moo_okD(1) [OF ok]] moo_okD(2) [OF ok]] by blast
qed

lemma moo_ok_change_location:
  assumes ok: "moo_ok db" and a: "valid db x" "l = NOTHING \<or> valid db l" "l \<notin> inside db x"
    and r: "db_change_location db x l = Some db'"
  shows "moo_ok db'"
proof -
  from db_change_location_ok [OF moo_okD(1) [OF ok] a] r
  have d: "db_ok db'" "keeps loc_core db db'" "db' = db\<lparr>objects := objects db'\<rparr>" by auto
  have "keeps verb_sig db db'"
    by (rule keeps_via [of loc_core _ _ _ verb_sig]) (use d in \<open>simp_all add: loc_core_def verb_sig_def\<close>)
  moreover have "vc_table db' = vc_table db" by (subst d(3)) simp
  ultimately have "cache_ok db'" using cache_keeps [OF db_okD(3) [OF moo_okD(1) [OF ok]] moo_okD(2) [OF ok]] by blast
  with d(1) show ?thesis by (rule moo_okI)
qed

lemma moo_ok_create:
  assumes ok: "moo_ok db" and r: "db_create_object junk db = Some (db', n)"
  shows "moo_ok db'"
proof -
  from db_create_object_ok [OF moo_okD(1) [OF ok], of junk] r obtain ob where
    d: "db_ok db'" "n = num_objects db" "\<not> valid db n"
      "\<forall>y. dbpriv_find_object db' y = (if y = n then Some ob else dbpriv_find_object db y)" by auto
  have v: "vc_table db' = vc_table db"
    using r by (auto simp: db_create_object_def dbpriv_new_object_def ensure_new_object_def Let_def
        modify_obj_def bind_eq_Some_conv split: prod.splits)
  have find: "dbpriv_find_object db' y = dbpriv_find_object db y" if "valid db y" for y
    using d(3,4) that by auto
  have "cache_ok db'"
  proof (rule cache_cong [OF moo_okD(2) [OF ok] v])
    fix k assume k: "is_key db k"
    then have kv: "k = NOTHING \<or> valid db k" by (auto simp: is_key_def valid_def)
    with k find show "is_key db' k" by (auto simp: is_key_def)
    fix w show "lookup_callable db' k w = lookup_callable db k w"
    proof (cases "k = NOTHING")
      case False
      with kv tree_ok_ancestors [OF db_okD(3) [OF moo_okD(1) [OF ok]]] obtain as where as: "chain o_parent db k as" by blast
      show ?thesis by (rule lookup_on_chain [OF as]) (simp add: find [OF chain_valid [OF as]])
    qed simp
  qed
  with d(1) show ?thesis by (rule moo_okI)
qed

lemma moo_ok_destroy:
  assumes ok: "moo_ok db" and r: "db_destroy_object db x = Some db'"
  shows "moo_ok db'"
proof (rule moo_okI)
  from r obtain ob where ob: "dbpriv_find_object db x = Some ob"
    and al: "o_location ob = NOTHING" "o_contents ob = NOTHING" "o_parent ob = NOTHING" "o_child ob = NOTHING"
    by (auto simp: db_destroy_object_def Let_def bind_eq_Some_conv assert_that_def split: if_splits)
  from db_destroy_object_ok [OF moo_okD(1) [OF ok] ob al] r show "db_ok db'" by auto
  have "vc_table db' = vc_table (db_priv_affected_callable_verb_lookup db)"
    using r by (auto simp: db_destroy_object_def Let_def bind_eq_Some_conv split: if_splits)
  then show "cache_ok db'" by (rule cache_cleared [OF moo_okD(2) [OF ok]])
qed

lemma moo_ok_users:
  assumes "moo_ok db" "modify_obj db x f = Some db1" "\<And>ob. verb_sig (f ob) = verb_sig ob"
    "db' = db1\<lparr>all_users := us\<rparr>" "db_ok db'"
  shows "moo_ok db'"
proof (rule moo_okI [OF assms(5)])
  have c1: "cache_ok db1" using moo_okD [OF assms(1)] assms(2,3) by (rule cache_modify)
  have f: "dbpriv_find_object db' = dbpriv_find_object db1" by (simp add: assms(4))
  have "vc_table db' = vc_table db1" by (simp add: assms(4))
  with c1 show "cache_ok db'" unfolding cache_ok_def lookup_same_objects(3) [OF f] by simp
qed

lemma moo_ok_flags:
  assumes ok: "moo_ok db" and x: "valid db x" and f: "f < 16"
    and r: "db_set_object_flag db x f = Some db' \<or> db_clear_object_flag db x f = Some db'"
  shows "moo_ok db'"
proof -
  have d: "db_ok db'"
    using r db_set_object_flag_ok [OF moo_okD(1) [OF ok] x f] db_clear_object_flag_ok [OF moo_okD(1) [OF ok] x, of f]
    by auto
  from r obtain g db1 us where m: "modify_obj db x (\<lambda>ob. ob\<lparr>o_flags := g ob\<rparr>) = Some db1" "db' = db1\<lparr>all_users := us\<rparr>"
  proof
    assume "db_set_object_flag db x f = Some db'"
    then obtain db1 where "modify_obj db x (\<lambda>ob. ob\<lparr>o_flags := o_flags ob OR push_bit f 1\<rparr>) = Some db1"
      "db' = db1\<lparr>all_users := all_users db'\<rparr>"
      by (auto simp: db_set_object_flag_def bind_eq_Some_conv split: if_splits)
    then show thesis by (rule that)
  next
    assume "db_clear_object_flag db x f = Some db'"
    then obtain db1 where "modify_obj db x (\<lambda>ob. ob\<lparr>o_flags := o_flags ob AND NOT (push_bit f 1)\<rparr>) = Some db1"
      "db' = db1\<lparr>all_users := all_users db'\<rparr>"
      by (auto simp: db_clear_object_flag_def bind_eq_Some_conv split: if_splits)
    then show thesis by (rule that)
  qed
  show ?thesis by (rule moo_ok_users [OF ok m(1) _ m(2) d]) (simp add: verb_sig_def)
qed

section \<open>A new parent\<close>

lemma other_parents:
  assumes ok: "inherit_ok db" "inherit_ok db'" and v: "\<And>z. valid db' z = valid db z"
    and kids: "\<And>z cs. children_are db z cs \<Longrightarrow> children_are db' z (removeAll x cs @ (if z = q then [x] else []))"
    and y: "y \<noteq> x" "dbpriv_find_object db y = Some o1" "dbpriv_find_object db' y = Some o2"
  shows "o_parent o2 = o_parent o1"
proof -
  have iff: "o_parent o2 = p \<longleftrightarrow> o_parent o1 = p" if p: "valid db p" for p
  proof -
    from tree_ok_kids_ex [OF ok(1) p] obtain cs where cs: "children_are db p cs" ..
    have e: "set cs = below o_parent db p" "set (removeAll x cs @ (if p = q then [x] else [])) = below o_parent db' p"
      by (rule tree_ok_kids [OF ok(1) cs]) (rule tree_ok_kids [OF ok(2) kids [OF cs]])
    have "y \<in> set (removeAll x cs @ (if p = q then [x] else [])) \<longleftrightarrow> y \<in> set cs"
      using y(1) by (cases "p = q") simp_all
    then have "y \<in> below o_parent db' p \<longleftrightarrow> y \<in> below o_parent db p" by (simp only: e)
    with y(2,3) show ?thesis by (simp add: below_def)
  qed
  have up: "o_parent o1 = NOTHING \<or> valid db (o_parent o1)" "o_parent o2 = NOTHING \<or> valid db (o_parent o2)"
    using tree_ok_up [OF ok(1) y(2)] tree_ok_up [OF ok(2) y(3)] v by simp_all
  show ?thesis
  proof (cases "valid db (o_parent o1)")
    case False
    with up iff [of "o_parent o2"] show ?thesis by auto
  qed (simp add: iff)
qed

lemma moved_sig:
  assumes ok: "inherit_ok db" "inherit_ok db'" and r: "keeps parent_rest db db'"
    and kids: "\<And>z cs. children_are db z cs \<Longrightarrow> children_are db' z (removeAll x cs @ (if z = q then [x] else []))"
    and y: "y \<noteq> x"
  shows "map_option verb_sig (dbpriv_find_object db' y) = map_option verb_sig (dbpriv_find_object db y)"
proof (cases "dbpriv_find_object db y")
  case None
  with r [unfolded keeps_def, rule_format, of y] show ?thesis by simp
next
  case (Some o1)
  with r [unfolded keeps_def, rule_format, of y] obtain o2 where o2: "dbpriv_find_object db' y = Some o2"
    and e: "parent_rest o2 = parent_rest o1" by auto
  have "o_parent o2 = o_parent o1"
    by (rule other_parents [OF ok keeps_valid [OF r] kids y Some o2])
  moreover have "o_id o2 = o_id o1" "o_verbdefs o2 = o_verbdefs o1"
    using arg_cong [OF e, of o_id] arg_cong [OF e, of o_verbdefs] by (simp_all add: parent_rest_def tree_core_def)
  ultimately show ?thesis by (simp add: Some o2 verb_sig_def)
qed

lemma childless_off_chain:
  assumes ok: "inherit_ok db" and x: "dbpriv_find_object db x = Some xo" "o_child xo = NOTHING"
    and ch: "chain o_parent db k as" and k: "k \<noteq> x"
  shows "x \<notin> set as"
proof
  assume "x \<in> set as"
  then obtain us vs where as: "as = us @ x # vs" by (meson split_list)
  with ch k have "us \<noteq> []" by auto
  then obtain us' c where us: "us = us' @ [c]" by (cases us rule: rev_cases) auto
  with as ch have "chain o_parent db c (c # x # vs)" using chain_suffix_self [of o_parent db k us' c "x # vs"] by simp
  then obtain co where "dbpriv_find_object db c = Some co" "o_parent co = x" by auto
  then have "c \<in> below o_parent db x" by (simp add: below_def)
  moreover have "children_are db x []" using x by (simp add: kids_are_def)
  ultimately show False using tree_ok_kids [OF ok, of x "[]"] by simp
qed

lemma moo_ok_change_parent:
  assumes ok: "moo_ok db" and a: "valid db x" "q = NOTHING \<or> valid db q" "q \<notin> desc db x"
    and r: "db_change_parent db x q = Some (db', b)"
  shows "moo_ok db'"
proof (cases "clash_free db x q")
  case False
  note D = db_okD [OF moo_okD(1) [OF ok]]
  from db_change_parent_refused [OF D(3,5) a(1,2) False] r ok show ?thesis by simp
next
  case True
  note D = db_okD [OF moo_okD(1) [OF ok]]
  from db_change_parent_ok [OF D(3,5) a True] r have
    d: "inherit_ok db'" "props_ok db'" "keeps parent_rest db db'"
      "db' = (if db_childless db x then db else db_priv_affected_callable_verb_lookup db)\<lparr>objects := objects db'\<rparr>"
      "\<And>y cs. children_are db y cs \<Longrightarrow> children_are db' y (removeAll x cs @ (if y = q then [x] else []))" by auto
  have okd: "db_ok db'" by (rule db_ok_parent_rest [OF moo_okD(1) [OF ok] d(3,1,2,4)]) simp
  have "cache_ok db'"
  proof (cases "db_childless db x")
    case False
    have "vc_table db' = vc_table (db_priv_affected_callable_verb_lookup db)" by (subst d(4)) (simp add: False)
    then show ?thesis by (rule cache_cleared [OF moo_okD(2) [OF ok]])
  next
    case ch: True
    have "vc_table db' = vc_table db" by (subst d(4)) (simp add: ch)
    then show ?thesis
    proof (rule cache_cong [OF moo_okD(2) [OF ok]])
      have sig: "map_option verb_sig (dbpriv_find_object db' y) = map_option verb_sig (dbpriv_find_object db y)"
        if "y \<noteq> x" for y using D(3) d(1,3,5) that by (rule moved_sig)
      fix k assume k: "is_key db k"
      from a(1) ch obtain xo where xo: "dbpriv_find_object db x = Some xo" "o_child xo = NOTHING" "o_verbdefs xo = []"
        by (auto elim!: validE simp: db_childless_def)
      with k have kx: "k \<noteq> x" by (auto simp: is_key_def)
      from k sig [OF kx] show "is_key db' k" by (auto simp: is_key_def verb_sig_def)
      fix w show "lookup_callable db' k w = lookup_callable db k w"
      proof (cases "k = NOTHING")
        case False
        with k have "valid db k" by (auto simp: is_key_def valid_def)
        with tree_ok_ancestors [OF D(3)] obtain as where as: "chain o_parent db k as" by blast
        have "x \<notin> set as" by (rule childless_off_chain [OF D(3) xo(1,2) as kx])
        then show ?thesis by (intro lookup_on_chain [OF as] sig) blast
      qed simp
    qed
  qed
  with okd show ?thesis by (rule moo_okI)
qed

end
