(* ===== verification/Reachable.thy ===== *)
theory Reachable
  imports CacheOps
begin

text \<open>
  The operations of the database as a step relation, with the conditions under
  which the rest of the server calls them, and the states reachable from the
  empty database.
\<close>

section \<open>Lookups\<close>

lemma first_with_verbs_same:
  assumes "dbpriv_find_object db' = dbpriv_find_object db" "chain o_parent db x as"
  shows "first_with_verbs db' (dbpriv_find_object db' x) = first_with_verbs db (dbpriv_find_object db x)"
  using assms(2)
proof (induction as arbitrary: x)
  case Nil
  then show ?case by (simp add: assms(1) first_with_verbs.simps)
next
  case (Cons a as)
  then obtain ob where ob: "x = a" "dbpriv_find_object db a = Some ob" and ch: "chain o_parent db (o_parent ob) as" by auto
  from Cons.IH [OF ch] ob show ?case
    by (subst (1 2) first_with_verbs.simps) (simp add: assms(1))
qed

lemma find_callable_ok:
  assumes ok: "moo_ok db" and x: "valid db x" and w: "nul_free w" and al: "harmless al db w"
  shows "\<exists>db'. db_find_callable_verb al db x w = Some (db', lookup_callable db x w) \<and> moo_ok db' \<and> only_cache db db'
      \<and> (\<exists>k. is_key db k \<and> cached db' k w
           \<and> first_with_verbs db (dbpriv_find_object db x) = Some (dbpriv_find_object db k))"
proof -
  define db0 where "db0 = (if vc_table db = None then make_vc_table DEFAULT_VC_SIZE db else db)"
  have f: "dbpriv_find_object db0 = dbpriv_find_object db" by (simp add: db0_def make_vc_table_def)
  have oc: "only_cache db db0" by (simp add: only_cache_def db0_def make_vc_table_def)
  obtain t where t: "vc_table db0 = Some t" "table_ok db0 t"
  proof (cases "vc_table db")
    case None
    then have "vc_table db0 = Some (replicate DEFAULT_VC_SIZE [])" by (simp add: db0_def make_vc_table_def)
    moreover have "table_ok db0 (replicate DEFAULT_VC_SIZE [])"
      by (simp add: table_ok_def DEFAULT_VC_SIZE_def)
    ultimately show thesis by (rule that)
  next
    case (Some t)
    with moo_okD(2) [OF ok] have "table_ok db t" by (simp add: cache_ok_def)
    with Some show thesis by (intro that [of t]) (simp_all add: db0_def)
  qed
  have ok0: "db_ok db0" using moo_okD(1) [OF ok] f by (rule db_ok_same) (use oc in \<open>simp_all add: only_cache_def\<close>)
  have "harmless al db0 w" using al by (simp add: harmless_def f)
  from find_callable_table [OF ok0 t _ w this, of x] x obtain db' k where
    r: "db_find_callable_verb al db0 x w = Some (db', lookup_callable db0 x w)" "cache_ok db'" "only_cache db0 db'"
    and k: "is_key db0 k" "cached db' k w" "first_with_verbs db0 (dbpriv_find_object db0 x) = Some (dbpriv_find_object db0 k)"
    by (auto simp: same_objects(1) [OF f])
  from tree_ok_ancestors [OF db_okD(3) [OF moo_okD(1) [OF ok]] x] obtain as where as: "chain o_parent db x as" ..
  have k': "is_key db k" "first_with_verbs db (dbpriv_find_object db x) = Some (dbpriv_find_object db k)"
    using k(1,3) first_with_verbs_same [OF f as] by (simp_all add: lookup_same_objects(2) [OF f] f)
  have "db_find_callable_verb al db x w = db_find_callable_verb al db0 x w"
    by (simp only: db_find_callable_verb_def db0_def [symmetric]) (simp add: t(1))
  moreover have "db_ok db'" using ok0 only_cache_find [OF r(3)] by (rule db_ok_same) (use r(3) in \<open>simp_all add: only_cache_def\<close>)
  moreover have "only_cache db db'" using oc r(3) by (simp add: only_cache_def)
  ultimately show ?thesis using r k(2) k' by (auto simp: lookup_same_objects(1) [OF f] moo_ok_def)
qed

text \<open>A lookup that was just made is answered from the cache, under any spelling.\<close>

lemma find_callable_again:
  assumes ok: "moo_ok db" and x: "valid db x" and w: "nul_free w"
    and al: "harmless al db w" "harmless al' db w"
    and r: "db_find_callable_verb al db x w = Some (db1, h)"
  shows "\<exists>db2. db_find_callable_verb al' db1 x w = Some (db2, h) \<and> verbcache_miss db2 = verbcache_miss db1"
proof -
  from find_callable_ok [OF ok x w al(1)] r obtain k where
    h: "h = lookup_callable db x w" "moo_ok db1" and oc1: "only_cache db db1"
    and k: "is_key db k" "cached db1 k w" "first_with_verbs db (dbpriv_find_object db x) = Some (dbpriv_find_object db k)"
    by auto
  note f1 = only_cache_find [OF oc1]
  from tree_ok_ancestors [OF db_okD(3) [OF moo_okD(1) [OF ok]] x] obtain as where as: "chain o_parent db x as" ..
  obtain t where t: "vc_table db1 = Some t" "table_ok db1 t"
    using k(2) moo_okD(2) [OF h(2)] by (auto simp: cached_def cache_ok_def)
  have "harmless al' db1 w" using al(2) by (simp add: harmless_def f1)
  from find_callable_table [OF moo_okD(1) [OF h(2)] t _ w this, of x] x
  obtain db2 k' where r2: "db_find_callable_verb al' db1 x w = Some (db2, lookup_callable db1 x w)"
    and k': "is_key db1 k'" "first_with_verbs db1 (dbpriv_find_object db1 x) = Some (dbpriv_find_object db1 k')"
      "verbcache_miss db2 = verbcache_miss db1 + (if cached db1 k' w then 0 else 1)"
    by (auto simp: same_objects(1) [OF f1])
  have "dbpriv_find_object db k' = dbpriv_find_object db k"
    using k(3) k'(2) first_with_verbs_same [OF f1 as] by (simp add: f1)
  then have "k' = k"
    using key_id [OF db_okD(5) [OF moo_okD(1) [OF ok]] k(1)] key_id [OF db_okD(5) [OF moo_okD(1) [OF ok]], of k'] k'(1)
    by (simp add: lookup_same_objects(2) [OF f1])
  with k' k(2) r2 h(1) show ?thesis by (simp add: lookup_same_objects(1) [OF f1])
qed

section \<open>Slots\<close>

lemma found_slot:
  assumes ok: "db_ok db" and x: "valid db x" "nul_free name"
    and r: "db_find_property want db x name = Some (Prop_slot d y n, v)"
  shows "y = x \<and> n < length (slots db x) \<and> d = fst (slots db x ! n) \<and> slot_name (slots db x ! n) = fold_case name"
proof -
  note D = db_okD [OF ok]
  have b: "find_builtin name = None" using r by (auto simp: db_find_property_def bind_eq_Some_conv split: option.splits if_splits)
  show ?thesis
  proof (cases "fold_case name \<in> slot_name ` set (slots db x)")
    case True
    from db_find_property_present [OF D(3,5) x(2,1) b True, of want] r show ?thesis by auto
  next
    case False
    from db_find_property_absent [OF D(3,5) x(2,1) b False] r show ?thesis by simp
  qed
qed

lemma own_slot:
  assumes "inherit_ok db" "dbpriv_find_object db x = Some ob" "n < cur_length ob"
  shows "fst (slots db x ! n) = x"
  using assms by (simp add: slots_step nth_append cur_length_def)

lemma moo_ok_slot:
  assumes ok: "moo_ok db" and x: "valid db x" "nul_free name"
    and f: "db_find_property want db x name = Some (Prop_slot d y n, v)"
    and g: "\<And>pv. pv_var (g pv) = TYPE_CLEAR \<Longrightarrow> pv_var pv \<noteq> TYPE_CLEAR \<Longrightarrow> d \<noteq> x"
    and r: "modify_slot db y n g = Some db'"
  shows "moo_ok db'"
proof -
  note okd = moo_okD(1) [OF ok]
  note D = db_okD [OF okd]
  from found_slot [OF okd x f] have y: "y = x" and n: "n < length (slots db x)" and d: "d = fst (slots db x ! n)" by auto
  from x(1) obtain ob where ob: "dbpriv_find_object db x = Some ob" by (rule validE)
  have "pv_var (g (o_propval ob ! n)) \<noteq> TYPE_CLEAR" if own: "n < cur_length ob"
  proof
    assume "pv_var (g (o_propval ob ! n)) = TYPE_CLEAR"
    moreover have "pv_var (o_propval ob ! n) \<noteq> TYPE_CLEAR"
    proof -
      from D(5) ob have "list_all (\<lambda>pv. pv_var pv \<noteq> TYPE_CLEAR) (take (cur_length ob) (o_propval ob))"
        "length (o_propval ob) = length (slots db x)" by (simp_all add: props_ok_def props_ok_at_def)
      with own n show ?thesis by (auto simp: list_all_length)
    qed
    ultimately have "d \<noteq> x" by (rule g)
    with own_slot [OF D(3) ob own] d show False by simp
  qed
  from modify_slot_ok [where f = g, OF okd ob n this] r y have
    m: "db_ok db'" "db' = db\<lparr>objects := objects db'\<rparr>" "keeps (\<lambda>ob. ob\<lparr>o_propval := []\<rparr>) db db'" by auto
  have "keeps verb_sig db db'"
    by (rule keeps_via [OF m(3), of _ verb_sig]) (simp add: verb_sig_def)
  moreover have "vc_table db' = vc_table db" by (subst m(2)) simp
  ultimately have "cache_ok db'" using cache_keeps [OF D(3) moo_okD(2) [OF ok]] by blast
  with m(1) show ?thesis by (rule moo_okI)
qed

section \<open>Giving up numbers\<close>

lemma reset_last_used_find:
  "db_reset_last_used_objid db = Some db' \<Longrightarrow>
   dbpriv_find_object db' = dbpriv_find_object db \<and> all_users db' = all_users db \<and> max_objects db' = max_objects db
   \<and> vc_table db' = vc_table db \<and> 0 \<le> num_objects db' \<and> num_objects db' \<le> num_objects db"
proof (induction db rule: db_reset_last_used_objid.induct)
  case (1 db)
  from "1.prems" have pos: "0 < num_objects db" by (subst (asm) db_reset_last_used_objid.simps) (auto split: if_splits)
  let ?d = "db\<lparr>num_objects := num_objects db - 1\<rparr>"
  show ?case
  proof (cases "objects db (num_objects db - 1) = None")
    case True
    with "1.prems" pos have "db_reset_last_used_objid ?d = Some db'"
      by (subst (asm) db_reset_last_used_objid.simps) simp
    moreover have "dbpriv_find_object ?d = dbpriv_find_object db"
    proof
      fix y show "dbpriv_find_object ?d y = dbpriv_find_object db y"
        using True by (cases "y = num_objects db - 1") (auto simp: dbpriv_find_object_def)
    qed
    ultimately show ?thesis using "1.IH" pos True by simp
  next
    case False
    with "1.prems" pos show ?thesis by (subst (asm) db_reset_last_used_objid.simps) simp
  qed
qed

lemma moo_ok_same:
  assumes ok: "moo_ok db" and f: "dbpriv_find_object db' = dbpriv_find_object db"
    and r: "all_users db' = all_users db" "0 \<le> num_objects db'" "num_objects db' \<le> max_objects db'" "vc_table db' = vc_table db"
  shows "moo_ok db'"
proof (rule moo_okI)
  have u: "is_user db' = is_user db" by (simp add: fun_eq_iff is_user_def db_object_has_flag_def valid_def f)
  from moo_okD(1) [OF ok] r(2,3) show "db_ok db'"
    unfolding db_ok_def users_ok_def same_objects(6,10) [OF f] u r(1) by simp
  from moo_okD(2) [OF ok] show "cache_ok db'" unfolding cache_ok_def r(4) lookup_same_objects(3) [OF f] .
qed

lemma moo_ok_reset:
  assumes "moo_ok db" "db_reset_last_used_objid db = Some db'"
  shows "moo_ok db'"
  using reset_last_used_find [OF assms(2)] db_okD(1,2) [OF moo_okD(1) [OF assms(1)]]
  by (intro moo_ok_same [OF assms(1)]) auto

section \<open>Steps\<close>

definition empty_db :: db where
  "empty_db = \<lparr>objects = (\<lambda>_. None), num_objects = 0, max_objects = 0, all_users = [], vc_table = None,
     db_verb_generation = 0, verbcache_hit = 0, verbcache_neg_hit = 0, verbcache_miss = 0\<rparr>"

inductive db_step :: "db \<Rightarrow> db \<Rightarrow> bool" where
  create: "db_create_object junk db = Some (db', n) \<Longrightarrow> db_step db db'"
| destroy: "db_destroy_object db x = Some db' \<Longrightarrow> db_step db db'"
| reset: "db_reset_last_used_objid db = Some db' \<Longrightarrow> db_step db db'"
| name: "db_set_object_name db x s = Some db' \<Longrightarrow> db_step db db'"
| owner: "db_set_object_owner db x ow = Some db' \<Longrightarrow> db_step db db'"
| set_flag: "valid db x \<Longrightarrow> f < 16 \<Longrightarrow> db_set_object_flag db x f = Some db' \<Longrightarrow> db_step db db'"
| clear_flag: "valid db x \<Longrightarrow> f < 16 \<Longrightarrow> db_clear_object_flag db x f = Some db' \<Longrightarrow> db_step db db'"
| parent: "valid db x \<Longrightarrow> q = NOTHING \<or> valid db q \<Longrightarrow> q \<notin> desc db x \<Longrightarrow>
    db_change_parent db x q = Some (db', b) \<Longrightarrow> db_step db db'"
| location: "valid db x \<Longrightarrow> l = NOTHING \<or> valid db l \<Longrightarrow> l \<notin> inside db x \<Longrightarrow>
    db_change_location db x l = Some db' \<Longrightarrow> db_step db db'"
| add_prop: "valid db x \<Longrightarrow> nul_free pname \<Longrightarrow> v \<noteq> TYPE_CLEAR \<Longrightarrow>
    db_add_propdef db x pname v ow fl = Some (db', b) \<Longrightarrow> db_step db db'"
| delete_prop: "valid db x \<Longrightarrow> nul_free pname \<Longrightarrow> db_delete_propdef db x pname = Some (db', b) \<Longrightarrow> db_step db db'"
| rename_prop: "valid db x \<Longrightarrow> nul_free old \<Longrightarrow> nul_free new \<Longrightarrow>
    db_rename_propdef db x old new = Some (db', b) \<Longrightarrow> db_step db db'"
| set_value: "valid db x \<Longrightarrow> nul_free pname \<Longrightarrow> db_find_property want db x pname = Some (Prop_slot d y n, r) \<Longrightarrow>
    (v = TYPE_CLEAR \<Longrightarrow> d \<noteq> x) \<Longrightarrow> db_set_property_value db (Prop_slot d y n) v = Some db' \<Longrightarrow> db_step db db'"
| set_prop_owner: "valid db x \<Longrightarrow> nul_free pname \<Longrightarrow> db_find_property want db x pname = Some (Prop_slot d y n, r) \<Longrightarrow>
    db_set_property_owner db (Prop_slot d y n) ow = Some db' \<Longrightarrow> db_step db db'"
| set_prop_flags: "valid db x \<Longrightarrow> nul_free pname \<Longrightarrow> db_find_property want db x pname = Some (Prop_slot d y n, r) \<Longrightarrow>
    db_set_property_flags db (Prop_slot d y n) fl = Some db' \<Longrightarrow> db_step db db'"
| add_verb: "db_add_verb db x names ow fl dobj prep iobj = Some (db', n) \<Longrightarrow> db_step db db'"
| delete_verb: "db_delete_verb db vh = Some db' \<Longrightarrow> db_step db db'"
| verb_names: "db_set_verb_names db vh names = Some db' \<Longrightarrow> db_step db db'"
| verb_owner: "db_set_verb_owner db vh ow = Some db' \<Longrightarrow> db_step db db'"
| verb_flags: "db_set_verb_flags db vh fl = Some db' \<Longrightarrow> db_step db db'"
| verb_program: "db_set_verb_program db vh prog = Some db' \<Longrightarrow> db_step db db'"
| verb_args: "db_set_verb_arg_specs db vh dobj prep iobj = Some db' \<Longrightarrow> db_step db db'"
| call_verb: "valid db x \<Longrightarrow> nul_free w \<Longrightarrow> harmless al db w \<Longrightarrow>
    db_find_callable_verb al db x w = Some (db', h) \<Longrightarrow> db_step db db'"

inductive reachable :: "db \<Rightarrow> bool" where
  start: "reachable empty_db"
| more: "reachable db \<Longrightarrow> db_step db db' \<Longrightarrow> reachable db'"

lemma empty_moo_ok: "moo_ok empty_db"
proof -
  have v: "\<not> valid empty_db x" for x by (simp add: valid_def dbpriv_find_object_def empty_db_def)
  have "is_user empty_db = (\<lambda>_. False)" by (simp add: fun_eq_iff is_user_def v)
  then have "users_ok empty_db" by (simp add: users_ok_def) (simp add: empty_db_def)
  moreover have "props_ok empty_db" using v by (auto simp: props_ok_def valid_def)
  moreover have "tree_ok first nx up empty_db" for first nx up by (simp add: tree_ok_def v)
  ultimately show ?thesis by (simp add: moo_ok_def db_ok_def cache_ok_def) (simp add: empty_db_def)
qed

lemma moo_ok_name_owner:
  assumes "moo_ok db" "db_set_object_name db x s = Some db' \<or> db_set_object_owner db x ow = Some db'"
  shows "moo_ok db'"
  using assms(2) unfolding db_set_object_name_def db_set_object_owner_def
  by (elim disjE) (erule moo_ok_modify [OF assms(1)],
    simp_all add: frame_data_def tree_links_def place_links_def prop_data_def verb_sig_def)+

lemma moo_ok_propdefs:
  assumes ok: "moo_ok db" and x: "valid db x"
  shows "nul_free pname \<Longrightarrow> v \<noteq> TYPE_CLEAR \<Longrightarrow> db_add_propdef db x pname v ow fl = Some (db', b) \<Longrightarrow> moo_ok db'"
    "nul_free pname \<Longrightarrow> db_delete_propdef db x pname = Some (db', b) \<Longrightarrow> moo_ok db'"
    "nul_free old \<Longrightarrow> nul_free new \<Longrightarrow> db_rename_propdef db x old new = Some (db', b) \<Longrightarrow> moo_ok db'"
proof -
  note D = db_okD [OF moo_okD(1) [OF ok]]
  note fin = moo_ok_only_props [OF ok]
  show "moo_ok db'" if n: "nul_free pname" "v \<noteq> TYPE_CLEAR" and r: "db_add_propdef db x pname v ow fl = Some (db', b)"
  proof (cases "can_define db x pname")
    case True
    from db_add_propdef_ok [OF D(3,5) n(1) x True n(2), of ow fl] r fin [of db'] show ?thesis by auto
  next
    case False
    from db_add_propdef_fail [OF D(3,5) n(1) x False, of v ow fl] r ok show ?thesis by simp
  qed
  show "moo_ok db'" if n: "nul_free pname" and r: "db_delete_propdef db x pname = Some (db', b)"
  proof (cases "defines_prop db x pname")
    case True
    from db_delete_propdef_ok [OF D(3,5) n x True] r fin [of db'] show ?thesis by auto
  next
    case False
    from db_delete_propdef_fail [OF D(5) n x False] r ok show ?thesis by simp
  qed
  show "moo_ok db'" if n: "nul_free old" "nul_free new" and r: "db_rename_propdef db x old new = Some (db', b)"
  proof (cases "defines_prop db x old \<and> (fold_case old = fold_case new \<or> can_define db x new)")
    case True
    then have "defines_prop db x old" "fold_case old = fold_case new \<or> can_define db x new" by simp_all
    from db_rename_propdef_ok [OF D(3,5) n x this] r fin [of db'] show ?thesis by auto
  next
    case False
    from db_rename_propdef_fail [OF D(3,5) n x False] r ok show ?thesis by simp
  qed
qed

lemma step_ok: "db_step db db' \<Longrightarrow> moo_ok db \<Longrightarrow> moo_ok db'"
proof (induction rule: db_step.induct)
  case (set_value db x pname want d y n r v db')
  then have "modify_slot db y n (\<lambda>pv. pv\<lparr>pv_var := v\<rparr>) = Some db'" by simp
  with set_value show ?case by (intro moo_ok_slot [OF set_value.prems set_value(1-3)]) auto
next
  case (set_prop_owner db x pname want d y n r ow db')
  then have "modify_slot db y n (\<lambda>pv. pv\<lparr>pv_owner := ow\<rparr>) = Some db'" by simp
  then show ?case by (intro moo_ok_slot [OF set_prop_owner.prems set_prop_owner(1-3)]) auto
next
  case (set_prop_flags db x pname want d y n r fl db')
  then have "modify_slot db y n (\<lambda>pv. pv\<lparr>pv_perms := fl\<rparr>) = Some db'" by simp
  then show ?case by (intro moo_ok_slot [OF set_prop_flags.prems set_prop_flags(1-3)]) auto
next
  case (call_verb db x w al db' h)
  from find_callable_ok [OF call_verb.prems call_verb(1-3)] call_verb(4) show ?case by auto
next
  case (create junk db db' n) then show ?case using moo_ok_create by blast
next
  case (destroy db x db') then show ?case using moo_ok_destroy by blast
next
  case (reset db db') then show ?case using moo_ok_reset by blast
next
  case (name db x s db') then show ?case using moo_ok_name_owner by blast
next
  case (owner db x ow db') then show ?case using moo_ok_name_owner by blast
next
  case (set_flag db x f db') then show ?case using moo_ok_flags by blast
next
  case (clear_flag db x f db') then show ?case using moo_ok_flags by blast
next
  case (parent db x q db' b) then show ?case using moo_ok_change_parent by blast
next
  case (location db x l db') then show ?case using moo_ok_change_location by blast
next
  case (add_prop db x pname v ow fl db' b) then show ?case using moo_ok_propdefs(1) by blast
next
  case (delete_prop db x pname db' b) then show ?case using moo_ok_propdefs(2) by blast
next
  case (rename_prop db x old new db' b) then show ?case using moo_ok_propdefs(3) by blast
next
  case (add_verb db x names ow fl dobj prep iobj db' n) then show ?case using verb_ops_ok(1) by blast
next
  case (delete_verb db vh db') then show ?case using verb_ops_ok(2) by blast
next
  case (verb_names db vh names db') then show ?case using verb_ops_ok(3) by blast
next
  case (verb_owner db vh ow db') then show ?case using verb_ops_ok(6) by blast
next
  case (verb_flags db vh fl db') then show ?case using verb_ops_ok(4) by blast
next
  case (verb_program db vh prog db') then show ?case using verb_ops_ok(7) by blast
next
  case (verb_args db vh dobj prep iobj db') then show ?case using verb_ops_ok(5) by blast
qed

lemma reachable_moo_ok: "reachable db \<Longrightarrow> moo_ok db"
  by (induction rule: reachable.induct) (use empty_moo_ok step_ok in blast)+

end
