(* ===== verification/Activations.thy ===== *)
theory Activations
  imports Reachable
begin

text \<open>
  Activations of the virtual machine (\<^verbatim>\<open>execute.h\<close>), their environments
  (\<^verbatim>\<open>eval_env.c\<close>) and the call of a verb (\<^verbatim>\<open>call_verb\<close> and \<^verbatim>\<open>call_verb2\<close> of
  \<^verbatim>\<open>execute.c\<close>); and the values that built-in functions return
  (\<^verbatim>\<open>functions.c\<close>).  The array of activations is a list of its whole length, so
  that a fresh activation keeps the fields of the old one that the code does
  not set; the pools of recycled environments and stacks are not modelled.
\<close>

section \<open>Packages\<close>

fun unparse_error :: "error \<Rightarrow> string" where
  "unparse_error E_NONE = ''No error''"
| "unparse_error E_TYPE = ''Type mismatch''"
| "unparse_error E_DIV = ''Division by zero''"
| "unparse_error E_PERM = ''Permission denied''"
| "unparse_error E_PROPNF = ''Property not found''"
| "unparse_error E_VERBNF = ''Verb not found''"
| "unparse_error E_VARNF = ''Variable not found''"
| "unparse_error E_INVIND = ''Invalid indirection''"
| "unparse_error E_RECMOVE = ''Recursive move''"
| "unparse_error E_MAXREC = ''Too many verb calls''"
| "unparse_error E_RANGE = ''Range error''"
| "unparse_error E_ARGS = ''Incorrect number of arguments''"
| "unparse_error E_NACC = ''Move refused by destination''"
| "unparse_error E_INVARG = ''Invalid argument''"
| "unparse_error E_QUOTA = ''Resource limit exceeded''"
| "unparse_error E_FLOAT = ''Floating-point arithmetic error''"

text \<open>What a built-in function that called a verb keeps until the verb returns.\<close>

datatype bi_data = No_data | Move_data (move_what: objid) (move_where: objid) | Obj_data objid
  | Cf_state nat bi_data | Seconds int

datatype abort_reason = ABORT_KILL | ABORT_SECONDS | ABORT_TICKS

text \<open>The functions that a suspending built-in function hands to the task scheduler.\<close>

datatype suspender = enqueue_suspended_task | make_reading_task

datatype package =
    BI_RETURN var
  | BI_RAISE var string var
  | BI_CALL nat bi_data
  | BI_SUSPEND suspender bi_data
  | BI_ABORT abort_reason

definition make_abort_pack :: "abort_reason \<Rightarrow> package" where
  "make_abort_pack reason = BI_ABORT reason"

definition make_raise_pack :: "error \<Rightarrow> string \<Rightarrow> var \<Rightarrow> package" where
  "make_raise_pack err msg value = BI_RAISE (TYPE_ERR err) msg value"

definition make_error_pack :: "error \<Rightarrow> package" where
  "make_error_pack err = make_raise_pack err (unparse_error err) zero_var"

text \<open>The server option \<^verbatim>\<open>SVO_MAX_CONCAT_CATCHABLE\<close> is a parameter.\<close>

definition make_space_pack :: "bool \<Rightarrow> package" where
  "make_space_pack catchable = (if catchable then make_error_pack E_QUOTA else make_abort_pack ABORT_SECONDS)"

definition make_var_pack :: "var \<Rightarrow> package" where
  "make_var_pack v = BI_RETURN v"

definition no_var_pack :: package where
  "no_var_pack = make_var_pack zero_var"

definition make_int_pack :: "num \<Rightarrow> package" where
  "make_int_pack v = BI_RETURN (TYPE_INT v)"

definition make_string_pack :: "string \<Rightarrow> package" where
  "make_string_pack s = BI_RETURN (TYPE_STR s)"

definition make_call_pack :: "nat \<Rightarrow> bi_data \<Rightarrow> package" where
  "make_call_pack pc data = BI_CALL pc data"

definition tail_call_pack :: package where
  "tail_call_pack = make_call_pack 0 No_data"

section \<open>Environments\<close>

definition SLOT_NUM :: nat where "SLOT_NUM = 0"
definition SLOT_OBJ :: nat where "SLOT_OBJ = 1"
definition SLOT_STR :: nat where "SLOT_STR = 2"
definition SLOT_LIST :: nat where "SLOT_LIST = 3"
definition SLOT_ERR :: nat where "SLOT_ERR = 4"
definition SLOT_PLAYER :: nat where "SLOT_PLAYER = 5"
definition SLOT_THIS :: nat where "SLOT_THIS = 6"
definition SLOT_CALLER :: nat where "SLOT_CALLER = 7"
definition SLOT_VERB :: nat where "SLOT_VERB = 8"
definition SLOT_ARGS :: nat where "SLOT_ARGS = 9"
definition SLOT_ARGSTR :: nat where "SLOT_ARGSTR = 10"
definition SLOT_DOBJ :: nat where "SLOT_DOBJ = 11"
definition SLOT_DOBJSTR :: nat where "SLOT_DOBJSTR = 12"
definition SLOT_PREPSTR :: nat where "SLOT_PREPSTR = 13"
definition SLOT_IOBJ :: nat where "SLOT_IOBJ = 14"
definition SLOT_IOBJSTR :: nat where "SLOT_IOBJSTR = 15"
definition SLOT_INT :: nat where "SLOT_INT = 16"
definition SLOT_FLOAT :: nat where "SLOT_FLOAT = 17"

lemmas slot_defs = SLOT_NUM_def SLOT_OBJ_def SLOT_STR_def SLOT_LIST_def SLOT_ERR_def SLOT_PLAYER_def
  SLOT_THIS_def SLOT_CALLER_def SLOT_VERB_def SLOT_ARGS_def SLOT_ARGSTR_def SLOT_DOBJ_def
  SLOT_DOBJSTR_def SLOT_PREPSTR_def SLOT_IOBJ_def SLOT_IOBJSTR_def SLOT_INT_def SLOT_FLOAT_def

definition DBV_Float :: int where "DBV_Float = 3"

definition new_rt_env :: "nat \<Rightarrow> var list" where
  "new_rt_env n = replicate n TYPE_NONE"

text \<open>Assignments to slots, the later ones last; every slot has to exist.\<close>

definition set_slots :: "(nat \<times> var) list \<Rightarrow> var list \<Rightarrow> var list option" where
  "set_slots ss env =
     (if list_all (\<lambda>(i, _). i < length env) ss then Some (fold (\<lambda>(i, v) e. e[i := v]) ss env) else None)"

definition rt_consts :: "int \<Rightarrow> (nat \<times> var) list" where
  "rt_consts version =
     [(SLOT_ERR, TYPE_INT 3), (SLOT_NUM, TYPE_INT 0), (SLOT_STR, TYPE_INT 2), (SLOT_OBJ, TYPE_INT 1),
      (SLOT_LIST, TYPE_INT 4)]
     @ (if version \<ge> DBV_Float then [(SLOT_INT, TYPE_INT 0), (SLOT_FLOAT, TYPE_INT 9)] else [])"

definition fill_in_rt_consts :: "int \<Rightarrow> var list \<Rightarrow> var list option" where
  "fill_in_rt_consts version env = set_slots (rt_consts version) env"

section \<open>Activations\<close>

record activation =
  a_prog :: program
  a_rt_env :: "var list"
  a_rt_stack :: "var list"
  a_rt_stack_size :: nat
  a_pc :: nat
  a_error_pc :: nat
  a_bi_func_pc :: nat
  a_bi_func_id :: nat
  a_bi_func_data :: bi_data
  a_temp :: var
  a_this :: objid
  a_player :: objid
  a_progr :: objid
  a_vloc :: objid
  a_verb :: string
  a_verbname :: string
  a_debug :: bool

record vmstruct =
  activ_stack :: "activation list"
  max_stack_size :: nat
  top_activ_stack :: nat

text \<open>The players that \<^verbatim>\<open>boot_player\<close> was asked to disconnect are kept in \<open>moo_boots\<close>.\<close>

record moo =
  moo_db :: db
  moo_vm :: vmstruct
  moo_boots :: "objid list"

definition push_activation :: "vmstruct \<Rightarrow> vmstruct \<times> bool" where
  "push_activation vm =
     (if top_activ_stack vm < max_stack_size vm - 1
      then (vm\<lparr>top_activ_stack := top_activ_stack vm + 1\<rparr>, True)
      else (vm, False))"

definition RUN_ACTIV :: "vmstruct \<Rightarrow> activation option" where
  "RUN_ACTIV vm = nth_opt (activ_stack vm) (top_activ_stack vm)"

definition CALLER_ACTIV :: "vmstruct \<Rightarrow> activation option" where
  "CALLER_ACTIV vm =
     (if top_activ_stack vm = 0 then None else nth_opt (activ_stack vm) (top_activ_stack vm - 1))"

definition alloc_rt_stack :: "nat \<Rightarrow> activation \<Rightarrow> activation" where
  "alloc_rt_stack n a = a\<lparr>a_rt_stack := [], a_rt_stack_size := n\<rparr>"

text \<open>\<^verbatim>\<open>ENV_COPY\<close>, and the slot \<open>player\<close>: only a wizard can pass on a changed one.\<close>

definition copied_slots :: "nat list" where
  "copied_slots = [SLOT_ARGSTR, SLOT_DOBJ, SLOT_DOBJSTR, SLOT_PREPSTR, SLOT_IOBJ, SLOT_IOBJSTR]"

definition player_slot :: "db \<Rightarrow> activation \<Rightarrow> objid" where
  "player_slot db caller =
     (if is_wizard db (a_progr caller)
      then (case a_rt_env caller ! SLOT_PLAYER of TYPE_OBJ p \<Rightarrow> p | _ \<Rightarrow> a_player caller)
      else a_player caller)"

definition call_env :: "db \<Rightarrow> program \<Rightarrow> activation \<Rightarrow> objid \<Rightarrow> string \<Rightarrow> var list \<Rightarrow> var list option" where
  "call_env db prog caller this vname args =
     do { assert_that (SLOT_IOBJSTR < length (a_rt_env caller));
          env \<leftarrow> fill_in_rt_consts (prog_version prog) (new_rt_env (length (prog_var_names prog)));
          set_slots
            ([(SLOT_THIS, TYPE_OBJ this), (SLOT_CALLER, TYPE_OBJ (a_this caller))]
             @ map (\<lambda>i. (i, a_rt_env caller ! i)) copied_slots
             @ [(SLOT_PLAYER, TYPE_OBJ (player_slot db caller)),
                (SLOT_VERB, TYPE_STR vname), (SLOT_ARGS, TYPE_LIST args)]) env }"

definition call_verb2 ::
  "(objid \<Rightarrow> nat \<Rightarrow> bool) \<Rightarrow> program \<Rightarrow> moo \<Rightarrow> objid \<Rightarrow> string \<Rightarrow> var list \<Rightarrow> bool \<Rightarrow> (moo \<times> error) option" where
  "call_verb2 al null_program m this vname args do_pass =
     do { wh \<leftarrow> (if do_pass
                 then do { run \<leftarrow> RUN_ACTIV (moo_vm m);
                           if valid (moo_db m) (a_vloc run) then db_object_parent (moo_db m) (a_vloc run)
                           else Some NOTHING }
                 else Some this);
          if \<not> valid (moo_db m) wh then Some (m, E_INVIND)
          else do {
            (db1, h) \<leftarrow> db_find_callable_verb al (moo_db m) wh vname;
            if h = None then Some (m\<lparr>moo_db := db1\<rparr>, E_VERBNF)
            else case push_activation (moo_vm m) of (vm1, ok) \<Rightarrow>
              if \<not> ok then Some (m\<lparr>moo_db := db1\<rparr>, E_MAXREC)
              else do {
                program \<leftarrow> db_verb_program null_program db1 h;
                owner \<leftarrow> db_verb_owner db1 h;
                definer \<leftarrow> db_verb_definer h;
                names \<leftarrow> db_verb_names db1 h;
                flags \<leftarrow> db_verb_flags db1 h;
                caller \<leftarrow> CALLER_ACTIV vm1;
                old \<leftarrow> RUN_ACTIV vm1;
                env \<leftarrow> call_env db1 program caller this vname args;
                let new = alloc_rt_stack (bc_max_stack (prog_main_vector program))
                  (old\<lparr>a_prog := program, a_this := this, a_progr := owner, a_vloc := definer,
                      a_verb := vname, a_verbname := names, a_debug := (flags AND VF_DEBUG \<noteq> 0),
                      a_pc := 0, a_error_pc := 0, a_bi_func_pc := 0, a_temp := TYPE_NONE,
                      a_rt_env := env, a_player := player_slot db1 caller\<rparr>);
                Some (m\<lparr>moo_db := db1,
                        moo_vm := vm1\<lparr>activ_stack := (activ_stack vm1)[top_activ_stack vm1 := new]\<rparr>\<rparr>,
                      E_NONE) } } }"

text \<open>
  \<^verbatim>\<open>call_verb\<close> copies the name, so that it is the name of no verb.
\<close>

definition call_verb :: "program \<Rightarrow> moo \<Rightarrow> objid \<Rightarrow> string \<Rightarrow> var list \<Rightarrow> bool \<Rightarrow> (moo \<times> error) option" where
  "call_verb null_program m this vname args do_pass =
     call_verb2 (\<lambda>_ _. False) null_program m this vname args do_pass"

section \<open>What a verb call does\<close>

definition program_ok :: "program \<Rightarrow> bool" where
  "program_ok p \<longleftrightarrow> SLOT_IOBJSTR < length (prog_var_names p)
     \<and> (prog_version p \<ge> DBV_Float \<longrightarrow> SLOT_FLOAT < length (prog_var_names p))"

definition programs_ok :: "db \<Rightarrow> bool" where
  "programs_ok db \<longleftrightarrow>
     (\<forall>x ob. dbpriv_find_object db x = Some ob \<longrightarrow>
        list_all (\<lambda>v. case vd_program v of None \<Rightarrow> True | Some p \<Rightarrow> program_ok p) (o_verbdefs ob))"

definition vm_ok :: "vmstruct \<Rightarrow> bool" where
  "vm_ok vm \<longleftrightarrow> top_activ_stack vm < max_stack_size vm \<and> length (activ_stack vm) = max_stack_size vm
     \<and> list_all (\<lambda>a. SLOT_IOBJSTR < length (a_rt_env a)) (take (Suc (top_activ_stack vm)) (activ_stack vm))"

lemma set_slots_Some:
  assumes "list_all (\<lambda>(i, _). i < length env) ss"
  shows "\<exists>e. set_slots ss env = Some e \<and> length e = length env"
proof -
  have "length (fold (\<lambda>(i, v) e. e[i := v]) ss env) = length env"
    by (induction ss arbitrary: env) (auto split: prod.splits)
  with assms show ?thesis by (simp add: set_slots_def)
qed

lemma call_env_total:
  assumes "program_ok p" "SLOT_IOBJSTR < length (a_rt_env caller)"
  shows "\<exists>env. call_env db p caller this w args = Some env \<and> length env = length (prog_var_names p)"
proof -
  let ?n = "length (prog_var_names p)"
  have "list_all (\<lambda>(i, _). i < length (new_rt_env ?n)) (rt_consts (prog_version p))"
    using assms(1) by (auto simp: rt_consts_def program_ok_def new_rt_env_def slot_defs)
  then obtain e where e: "fill_in_rt_consts (prog_version p) (new_rt_env ?n) = Some e" "length e = ?n"
    using set_slots_Some [of "new_rt_env ?n"] by (auto simp: fill_in_rt_consts_def new_rt_env_def)
  have "list_all (\<lambda>(i, _). i < length e)
     ([(SLOT_THIS, TYPE_OBJ this), (SLOT_CALLER, TYPE_OBJ (a_this caller))]
      @ map (\<lambda>i. (i, a_rt_env caller ! i)) copied_slots
      @ [(SLOT_PLAYER, TYPE_OBJ (player_slot db caller)), (SLOT_VERB, TYPE_STR w), (SLOT_ARGS, TYPE_LIST args)])"
    using assms(1) e(2) by (auto simp: copied_slots_def program_ok_def slot_defs)
  from set_slots_Some [OF this] e assms(2) show ?thesis by (simp add: call_env_def assert_that_def)
qed

lemma find_verb_from_bound: "find_verb_from al w c n vs = Some i \<Longrightarrow> n \<le> i \<and> i < n + length vs"
  by (induction vs arbitrary: n) (fastforce split: if_splits)+

lemma lookup_valid:
  assumes ok: "db_ok db" and x: "valid db x" and l: "lookup_callable db x w = Some h"
  obtains ob v where "dbpriv_find_object db (vh_definer h) = Some ob" "verbdef_of db h = Some v" "v \<in> set (o_verbdefs ob)"
proof -
  note D = db_okD [OF ok]
  from tree_ok_ancestors [OF D(3) x] obtain as where as: "chain o_parent db x as" ..
  have "\<exists>a \<in> set as. callable_here (\<lambda>_ _. False) w (the (dbpriv_find_object db a)) = Some h"
    using l unfolding lookup_callable_chain [OF as] by (induction as) (auto split: option.splits)
  then obtain a where a: "a \<in> set as" "callable_here (\<lambda>_ _. False) w (the (dbpriv_find_object db a)) = Some h" ..
  from chain_valid [OF as a(1)] obtain ob where ob: "dbpriv_find_object db a = Some ob" by (rule validE)
  with D(5) have "o_id ob = a" by (simp add: props_ok_def props_ok_at_def)
  with a(2) ob obtain i where i: "h = handle_of a i" "i < length (o_verbdefs ob)"
    by (auto simp: callable_here_def find_verbdef_by_name_def dest: find_verb_from_bound)
  then show thesis using ob by (intro that [of ob "o_verbdefs ob ! i"]) (simp_all add: handle_of_def verbdef_of_def nth_opt_def)
qed

lemma programs_ok_same:
  "dbpriv_find_object db' = dbpriv_find_object db \<Longrightarrow> programs_ok db' = programs_ok db"
  by (simp add: programs_ok_def)

lemma verbdef_of_same:
  "dbpriv_find_object db' = dbpriv_find_object db \<Longrightarrow> verbdef_of db' = verbdef_of db"
  by (simp add: fun_eq_iff verbdef_of_def)

lemma is_wizard_same: "dbpriv_find_object db' = dbpriv_find_object db \<Longrightarrow> is_wizard db' = is_wizard db"
  by (simp add: fun_eq_iff is_wizard_def valid_def db_object_has_flag_def)

definition call_result :: "moo \<Rightarrow> objid \<Rightarrow> string \<Rightarrow> error" where
  "call_result m this w =
     (if \<not> valid (moo_db m) this then E_INVIND
      else if lookup_callable (moo_db m) this w = None then E_VERBNF
      else if \<not> Suc (top_activ_stack (moo_vm m)) < max_stack_size (moo_vm m) then E_MAXREC
      else E_NONE)"

text \<open>The new activation runs with the permissions of the verb's owner.\<close>

definition called :: "moo \<Rightarrow> moo \<Rightarrow> objid \<Rightarrow> string \<Rightarrow> bool" where
  "called m m' this w \<longleftrightarrow>
     top_activ_stack (moo_vm m') = Suc (top_activ_stack (moo_vm m))
   \<and> take (Suc (top_activ_stack (moo_vm m))) (activ_stack (moo_vm m'))
       = take (Suc (top_activ_stack (moo_vm m))) (activ_stack (moo_vm m))
   \<and> (\<exists>h v a caller. lookup_callable (moo_db m) this w = Some h \<and> verbdef_of (moo_db m) h = Some v
        \<and> RUN_ACTIV (moo_vm m) = Some caller \<and> RUN_ACTIV (moo_vm m') = Some a
        \<and> a_progr a = vd_owner v \<and> a_vloc a = vh_definer h \<and> a_this a = this \<and> a_verb a = w
        \<and> a_player a = player_slot (moo_db m) caller \<and> a_pc a = 0 \<and> a_rt_stack a = [])"

lemma call_verb2_spec:
  assumes ok: "moo_ok (moo_db m)" "vm_ok (moo_vm m)" "programs_ok (moo_db m)" "program_ok null_program"
    and w: "nul_free w" "harmless al (moo_db m) w"
  shows "\<exists>m'. call_verb2 al null_program m this w args False = Some (m', call_result m this w)
      \<and> moo_ok (moo_db m') \<and> vm_ok (moo_vm m') \<and> only_cache (moo_db m) (moo_db m')
      \<and> (if call_result m this w = E_NONE then called m m' this w else moo_vm m' = moo_vm m)"
proof (cases "valid (moo_db m) this")
  case False
  with ok show ?thesis by (simp add: call_verb2_def call_result_def only_cache_def)
next
  case v: True
  let ?db = "moo_db m" and ?vm = "moo_vm m"
  from find_callable_ok [OF ok(1) v w] obtain db1 where
    f: "db_find_callable_verb al ?db this w = Some (db1, lookup_callable ?db this w)" "moo_ok db1" and oc: "only_cache ?db db1"
    by blast
  note same = only_cache_find [OF oc]
  show ?thesis
  proof (cases "lookup_callable ?db this w")
    case None
    with f oc v ok(2) show ?thesis by (simp add: call_verb2_def call_result_def)
  next
    case (Some h)
    show ?thesis
    proof (cases "Suc (top_activ_stack ?vm) < max_stack_size ?vm")
      case False
      with Some f oc v ok(2) show ?thesis by (simp add: call_verb2_def call_result_def push_activation_def less_diff_conv)
    next
      case True
      define vm1 where "vm1 = ?vm\<lparr>top_activ_stack := Suc (top_activ_stack ?vm)\<rparr>"
      have push: "push_activation ?vm = (vm1, True)" using True by (simp add: push_activation_def vm1_def less_diff_conv)
      from lookup_valid [OF moo_okD(1) [OF ok(1)] v Some] obtain ob vd where
        ob: "dbpriv_find_object ?db (vh_definer h) = Some ob" "verbdef_of ?db h = Some vd" "vd \<in> set (o_verbdefs ob)" .
      define p where "p = (case vd_program vd of None \<Rightarrow> null_program | Some p \<Rightarrow> p)"
      have p: "program_ok p"
        using ok(3,4) ob(1,3) by (auto simp: p_def programs_ok_def list_all_iff split: option.splits)
      define caller where "caller = activ_stack ?vm ! top_activ_stack ?vm"
      define old where "old = activ_stack ?vm ! Suc (top_activ_stack ?vm)"
      have tops: "top_activ_stack ?vm < length (activ_stack ?vm)" "Suc (top_activ_stack ?vm) < length (activ_stack ?vm)"
        using True ok(2) by (simp_all add: vm_ok_def)
      have acts: "RUN_ACTIV ?vm = Some caller" "CALLER_ACTIV vm1 = Some caller" "RUN_ACTIV vm1 = Some old"
        using tops by (simp_all add: RUN_ACTIV_def CALLER_ACTIV_def vm1_def nth_opt_def caller_def old_def)
      have "SLOT_IOBJSTR < length (a_rt_env caller)"
        using ok(2) tops by (auto simp: vm_ok_def list_all_length caller_def)
      from call_env_total [OF p this, of db1 this w args] obtain env where
        env: "call_env db1 p caller this w args = Some env" "length env = length (prog_var_names p)" by blast
      define new where "new = alloc_rt_stack (bc_max_stack (prog_main_vector p))
         (old\<lparr>a_prog := p, a_this := this, a_progr := vd_owner vd, a_vloc := vh_definer h,
             a_verb := w, a_verbname := vd_name vd, a_debug := ((vd_perms vd AND PERMMASK) AND VF_DEBUG \<noteq> 0),
             a_pc := 0, a_error_pc := 0, a_bi_func_pc := 0, a_temp := TYPE_NONE,
             a_rt_env := env, a_player := player_slot db1 caller\<rparr>)"
      define m' where "m' = m\<lparr>moo_db := db1,
        moo_vm := vm1\<lparr>activ_stack := (activ_stack vm1)[top_activ_stack vm1 := new]\<rparr>\<rparr>"
      have res: "call_result m this w = E_NONE" using v Some True by (simp add: call_result_def)
      have vd1: "verbdef_of db1 h = Some vd" using ob(2) verbdef_of_same [OF same] by simp
      have run: "call_verb2 al null_program m this w args False = Some (m', E_NONE)"
        using v f(1) Some push acts(2,3) env(1) vd1
        by (simp add: call_verb2_def db_verb_program_def db_verb_owner_def db_verb_definer_def db_verb_names_def
            db_verb_flags_def p_def [symmetric] m'_def new_def)
      have "called m m' this w"
        using Some ob(2) acts(1) tops
        by (simp add: called_def m'_def vm1_def RUN_ACTIV_def nth_opt_def new_def alloc_rt_stack_def player_slot_def
            is_wizard_same [OF same])
      moreover have "vm_ok (moo_vm m')"
      proof -
        have "SLOT_IOBJSTR < length (a_rt_env new)" using p env(2) by (simp add: new_def alloc_rt_stack_def program_ok_def)
        with ok(2) True tops show ?thesis
          by (auto simp: vm_ok_def m'_def vm1_def list_all_length nth_list_update less_Suc_eq)
      qed
      ultimately show ?thesis using run res f(2) oc by (simp add: m'_def)
    qed
  qed
qed

end
