(* ===== verification/BfObjects.thy ===== *)
theory BfObjects
  imports Activations
begin

text \<open>
  The built-in functions on objects (\<^verbatim>\<open>objects.c\<close>) and the ownership quota
  (\<^verbatim>\<open>quota.c\<close>).  A function that calls a verb returns \<^term>\<open>BI_CALL\<close> with the number
  of the case at which it goes on when the verb has returned; between the two
  the verb may have changed the database in any way.
\<close>

section \<open>Quota\<close>

definition quota_name :: string where "quota_name = ''ownership_quota''"

definition decr_quota :: "db \<Rightarrow> objid \<Rightarrow> (db \<times> bool) option" where
  "decr_quota db player =
     (if \<not> valid db player then Some (db, True)
      else do { (h, v) \<leftarrow> db_find_property True db player quota_name;
                if h = No_prop then Some (db, True)
                else case v of
                  Some (TYPE_INT n) \<Rightarrow>
                    if n \<le> 0 then Some (db, False)
                    else do { db1 \<leftarrow> db_set_property_value db h (TYPE_INT (n - 1)); Some (db1, True) }
                | _ \<Rightarrow> Some (db, True) })"

text \<open>The increment is not defined at the largest number.\<close>

definition incr_quota :: "db \<Rightarrow> objid \<Rightarrow> db option" where
  "incr_quota db player =
     (if \<not> valid db player then Some db
      else do { (h, v) \<leftarrow> db_find_property True db player quota_name;
                if h = No_prop then Some db
                else case v of
                  Some (TYPE_INT n) \<Rightarrow>
                    do { assert_that (n < NUM_MAX); db_set_property_value db h (TYPE_INT (n + 1)) }
                | _ \<Rightarrow> Some db })"

section \<open>Moving\<close>

definition controls :: "db \<Rightarrow> objid \<Rightarrow> objid \<Rightarrow> bool option" where
  "controls db who what =
     (if is_wizard db who then Some True else map_option (\<lambda>ow. who = ow) (db_object_owner db what))"

definition make_arglist :: "objid \<Rightarrow> var list" where
  "make_arglist what = [TYPE_OBJ what]"

text \<open>The search for \<open>what\<close> among the places around \<open>oid\<close>.\<close>

partial_function (option) on_location_chain :: "db \<Rightarrow> objid \<Rightarrow> objid \<Rightarrow> bool option" where
  "on_location_chain db what oid =
     (if oid = NOTHING then Some False
      else if oid = what then Some True
      else do { l \<leftarrow> db_object_location db oid; on_location_chain db what l })"

definition move_entered :: "program \<Rightarrow> moo \<Rightarrow> objid \<Rightarrow> objid \<Rightarrow> (moo \<times> package) option" where
  "move_entered np m what wh =
     (if valid (moo_db m) wh \<and> valid (moo_db m) what \<and> db_object_location (moo_db m) what = Some wh
      then do { (m1, e) \<leftarrow> call_verb np m wh ''enterfunc'' (make_arglist what) False;
                Some (m1, if e = E_NONE then make_call_pack 4 (Move_data what wh)
                          else if e = E_MAXREC then make_error_pack e
                          else no_var_pack) }
      else Some (m, no_var_pack))"

definition move_decided :: "program \<Rightarrow> moo \<Rightarrow> objid \<Rightarrow> objid \<Rightarrow> objid \<Rightarrow> bool \<Rightarrow> (moo \<times> package) option" where
  "move_decided np m what wh progr accepts =
     (if \<not> is_wizard (moo_db m) progr \<and> \<not> accepts then Some (m, make_error_pack E_NACC)
      else if \<not> valid (moo_db m) what \<or> wh \<noteq> NOTHING \<and> \<not> valid (moo_db m) wh then Some (m, no_var_pack)
      else do {
        oldloc \<leftarrow> db_object_location (moo_db m) what;
        if oldloc = wh then Some (m, no_var_pack)
        else do {
          rec \<leftarrow> on_location_chain (moo_db m) what wh;
          if rec then Some (m, make_error_pack E_RECMOVE)
          else do {
            db1 \<leftarrow> db_change_location (moo_db m) what wh;
            (m2, e) \<leftarrow> call_verb np (m\<lparr>moo_db := db1\<rparr>) oldloc ''exitfunc'' (make_arglist what) False;
            if e = E_NONE then Some (m2, make_call_pack 3 (Move_data what wh))
            else if e = E_MAXREC then Some (m2, make_error_pack e)
            else move_entered np m2 what wh } } })"

definition do_move :: "program \<Rightarrow> moo \<Rightarrow> var \<Rightarrow> nat \<Rightarrow> objid \<Rightarrow> objid \<Rightarrow> objid \<Rightarrow> (moo \<times> package) option" where
  "do_move np m arglist next what wh progr =
     (if next = 1 then
        if \<not> valid (moo_db m) what \<or> \<not> valid (moo_db m) wh \<and> wh \<noteq> NOTHING
        then Some (m, make_error_pack E_INVARG)
        else do {
          ctl \<leftarrow> controls (moo_db m) progr what;
          if \<not> ctl then Some (m, make_error_pack E_PERM)
          else if wh = NOTHING then move_decided np m what wh progr True
          else do {
            (m1, e) \<leftarrow> call_verb np m wh ''accept'' (make_arglist what) False;
            if e = E_NONE then Some (m1, make_call_pack 2 (Move_data what wh))
            else if e = E_VERBNF then move_decided np m1 what wh progr False
            else Some (m1, make_error_pack e) } }
      else if next = 2 then move_decided np m what wh progr (is_true arglist)
      else if next = 3 then move_entered np m what wh
      else if next = 4 then Some (m, no_var_pack)
      else None)"

definition bf_move :: "program \<Rightarrow> moo \<Rightarrow> var \<Rightarrow> nat \<Rightarrow> bi_data \<Rightarrow> objid \<Rightarrow> (moo \<times> package) option" where
  "bf_move np m arglist next data progr =
     (case (if next = 1
            then case arglist of TYPE_LIST (TYPE_OBJ what # TYPE_OBJ wh # _) \<Rightarrow> Move_data what wh | _ \<Rightarrow> No_data
            else data) of
        Move_data what wh \<Rightarrow> do_move np m arglist next what wh progr
      | _ \<Rightarrow> None)"

section \<open>Creating and changing objects\<close>

definition may_create :: "db \<Rightarrow> objid \<Rightarrow> objid \<Rightarrow> objid \<Rightarrow> bool option" where
  "may_create db parent owner progr =
     do { fertile \<leftarrow> (if valid db parent then db_object_allows db parent progr FLAG_FERTILE
                      else Some (parent = NOTHING));
          Some (fertile \<and> (owner = progr \<or> is_wizard db progr)) }"

definition bf_create :: "program \<Rightarrow> object \<Rightarrow> moo \<Rightarrow> var \<Rightarrow> nat \<Rightarrow> bi_data \<Rightarrow> objid \<Rightarrow> (moo \<times> package) option" where
  "bf_create np junk m arglist next data progr =
     (if next = 1 then
        (case arglist of
           TYPE_LIST (TYPE_OBJ parent # rest) \<Rightarrow>
             do {
               owner \<leftarrow> (case rest of [] \<Rightarrow> Some progr | TYPE_OBJ ow # _ \<Rightarrow> Some ow | _ \<Rightarrow> None);
               ok \<leftarrow> may_create (moo_db m) parent owner progr;
               if \<not> ok then Some (m, make_error_pack E_PERM)
               else do {
                 (db1, enough) \<leftarrow> (if valid (moo_db m) owner then decr_quota (moo_db m) owner
                                   else Some (moo_db m, True));
                 if \<not> enough then Some (m\<lparr>moo_db := db1\<rparr>, make_error_pack E_QUOTA)
                 else do {
                   (db2, oid) \<leftarrow> db_create_object junk db1;
                   db3 \<leftarrow> db_set_object_name db2 oid [];
                   db4 \<leftarrow> db_set_object_owner db3 oid (if owner = NOTHING then oid else owner);
                   (db5, _) \<leftarrow> db_change_parent db4 oid parent;
                   (m1, e) \<leftarrow> call_verb np (m\<lparr>moo_db := db5\<rparr>) oid ''initialize'' [] False;
                   Some (m1, if e = E_NONE then make_call_pack 2 (Obj_data oid)
                             else if e = E_MAXREC then make_error_pack e
                             else make_var_pack (TYPE_OBJ oid)) } } }
         | _ \<Rightarrow> None)
      else (case data of Obj_data oid \<Rightarrow> Some (m, make_var_pack (TYPE_OBJ oid)) | _ \<Rightarrow> None))"

definition bf_chparent :: "db \<Rightarrow> objid \<Rightarrow> objid \<Rightarrow> objid \<Rightarrow> (db \<times> package) option" where
  "bf_chparent db what parent progr =
     (if \<not> valid db what \<or> \<not> valid db parent \<and> parent \<noteq> NOTHING then Some (db, make_error_pack E_INVARG)
      else do {
        ctl \<leftarrow> controls db progr what;
        fertile \<leftarrow> (if ctl \<and> valid db parent then db_object_allows db parent progr FLAG_FERTILE else Some True);
        if \<not> ctl \<or> \<not> fertile then Some (db, make_error_pack E_PERM)
        else do {
          rec \<leftarrow> on_parent_chain db what parent;
          if rec then Some (db, make_error_pack E_RECMOVE)
          else do { (db1, ok) \<leftarrow> db_change_parent db what parent;
                    Some (db1, if ok then no_var_pack else make_error_pack E_INVARG) } } })"

definition bf_valid :: "db \<Rightarrow> objid \<Rightarrow> package" where
  "bf_valid db oid = make_var_pack (int_of_flag (valid db oid))"

definition bf_max_object :: "db \<Rightarrow> package" where
  "bf_max_object db = make_var_pack (TYPE_OBJ (db_last_used_objid db))"

definition bf_parent :: "db \<Rightarrow> objid \<Rightarrow> package option" where
  "bf_parent db oid =
     (if \<not> valid db oid then Some (make_error_pack E_INVARG)
      else map_option (\<lambda>p. make_var_pack (TYPE_OBJ p)) (db_object_parent db oid))"

definition bf_children :: "db \<Rightarrow> objid \<Rightarrow> package option" where
  "bf_children db oid =
     (if \<not> valid db oid then Some (make_error_pack E_INVARG)
      else do { n \<leftarrow> db_count_children db oid;
                (r, _) \<leftarrow> db_for_all_children db oid add_to_list [];
                assert_that (int (length r) = n);
                Some (make_var_pack (TYPE_LIST r)) })"

section \<open>Recycling\<close>

definition move_to_nothing :: "program \<Rightarrow> moo \<Rightarrow> objid \<Rightarrow> (moo \<times> bool) option" where
  "move_to_nothing np m oid =
     do { oldloc \<leftarrow> db_object_location (moo_db m) oid;
          db1 \<leftarrow> db_change_location (moo_db m) oid NOTHING;
          (m1, e) \<leftarrow> call_verb np (m\<lparr>moo_db := db1\<rparr>) oldloc ''exitfunc'' (make_arglist oid) False;
          Some (m1, e = E_NONE) }"

definition first_proc :: "objid \<Rightarrow> objid \<Rightarrow> (objid \<times> bool) option" where
  "first_proc data oid = Some (oid, True)"

definition get_first :: "((objid \<Rightarrow> objid \<Rightarrow> (objid \<times> bool) option) \<Rightarrow> objid \<Rightarrow> (objid \<times> bool) option) \<Rightarrow> objid option" where
  "get_first for_all = do { (r, _) \<leftarrow> for_all first_proc NOTHING; Some r }"

partial_function (option) drop_contents :: "program \<Rightarrow> objid \<Rightarrow> moo \<Rightarrow> (moo \<times> bool) option" where
  "drop_contents np oid m =
     do { c \<leftarrow> get_first (db_for_all_contents (moo_db m) oid);
          if c = NOTHING then Some (m, False)
          else do { r \<leftarrow> move_to_nothing np m c;
                    if snd r then Some (fst r, True) else drop_contents np oid (fst r) } }"

partial_function (option) drop_children :: "objid \<Rightarrow> db \<Rightarrow> db option" where
  "drop_children oid db =
     do { c \<leftarrow> get_first (db_for_all_children db oid);
          if c = NOTHING then Some db
          else do { p \<leftarrow> db_object_parent db oid;
                    r \<leftarrow> db_change_parent db c p;
                    drop_children oid (fst r) } }"

definition demolish :: "moo \<Rightarrow> objid \<Rightarrow> moo option" where
  "demolish m oid =
     do { db1 \<leftarrow> drop_children oid (moo_db m);
          (db2, _) \<leftarrow> db_change_parent db1 oid NOTHING;
          owner \<leftarrow> db_object_owner db2 oid;
          db3 \<leftarrow> incr_quota db2 owner;
          db4 \<leftarrow> db_destroy_object db3 oid;
          Some (m\<lparr>moo_db := db4\<rparr>) }"

definition recycle_contents :: "program \<Rightarrow> moo \<Rightarrow> objid \<Rightarrow> (moo \<times> package) option" where
  "recycle_contents np m oid =
     (if \<not> valid (moo_db m) oid then Some (m, no_var_pack)
      else do {
        (m1, called) \<leftarrow> drop_contents np oid m;
        if called then Some (m1, make_call_pack 2 (Obj_data oid))
        else do {
          l \<leftarrow> db_object_location (moo_db m1) oid;
          (m2, called) \<leftarrow> (if l \<noteq> NOTHING then move_to_nothing np m1 oid else Some (m1, False));
          if called then Some (m2, make_call_pack 2 (Obj_data oid))
          else do { m3 \<leftarrow> demolish m2 oid; Some (m3, no_var_pack) } } })"

definition bf_recycle :: "program \<Rightarrow> moo \<Rightarrow> var \<Rightarrow> nat \<Rightarrow> bi_data \<Rightarrow> objid \<Rightarrow> (moo \<times> package) option" where
  "bf_recycle np m arglist func_pc data progr =
     (if func_pc = 1 then
        (case arglist of
           TYPE_LIST (TYPE_OBJ oid # _) \<Rightarrow>
             if \<not> valid (moo_db m) oid then Some (m, make_error_pack E_INVARG)
             else do {
               ctl \<leftarrow> controls (moo_db m) progr oid;
               if \<not> ctl then Some (m, make_error_pack E_PERM)
               else do {
                 (m1, e) \<leftarrow> call_verb np m oid ''recycle'' [] False;
                 if e = E_NONE then Some (m1, make_call_pack 2 (Obj_data oid))
                 else recycle_contents np m1 oid } }
         | _ \<Rightarrow> None)
      else if func_pc = 2
      then (case data of Obj_data oid \<Rightarrow> recycle_contents np m oid | _ \<Rightarrow> None)
      else None)"

section \<open>Players\<close>

definition bf_players :: "db \<Rightarrow> package" where
  "bf_players db = make_var_pack (TYPE_LIST (db_all_users db))"

definition bf_is_player :: "db \<Rightarrow> objid \<Rightarrow> package" where
  "bf_is_player db oid =
     (if \<not> valid db oid then make_error_pack E_INVARG else make_var_pack (int_of_flag (is_user db oid)))"

definition bf_set_player_flag :: "moo \<Rightarrow> objid \<Rightarrow> var \<Rightarrow> objid \<Rightarrow> (moo \<times> package) option" where
  "bf_set_player_flag m oid flag progr =
     (if \<not> valid (moo_db m) oid then Some (m, make_error_pack E_INVARG)
      else if \<not> is_wizard (moo_db m) progr then Some (m, make_error_pack E_PERM)
      else if is_true flag
      then do { db1 \<leftarrow> db_set_object_flag (moo_db m) oid FLAG_USER; Some (m\<lparr>moo_db := db1\<rparr>, no_var_pack) }
      else do { db1 \<leftarrow> db_clear_object_flag (moo_db m) oid FLAG_USER;
                Some (m\<lparr>moo_db := db1, moo_boots := moo_boots m @ [oid]\<rparr>, no_var_pack) })"

definition bf_object_bytes :: "db \<Rightarrow> objid \<Rightarrow> objid \<Rightarrow> package option" where
  "bf_object_bytes db oid progr =
     (if \<not> is_wizard db progr then Some (make_error_pack E_PERM)
      else if \<not> valid db oid then Some (make_error_pack E_INVIND)
      else map_option (\<lambda>n. make_var_pack (TYPE_INT n)) (db_object_bytes db oid))"

end
