(* ===== verification/BfMove.thy ===== *)
theory BfMove
  imports BfObjects
begin

text \<open>
  What the built-in functions on objects guarantee: moving and reparenting
  never violate either hierarchy, whatever the verbs they call did to the
  database in between.
\<close>

section \<open>States\<close>

definition state_ok :: "program \<Rightarrow> moo \<Rightarrow> bool" where
  "state_ok np m \<longleftrightarrow> moo_ok (moo_db m) \<and> vm_ok (moo_vm m) \<and> programs_ok (moo_db m) \<and> program_ok np"

lemma state_okD:
  assumes "state_ok np m"
  shows "moo_ok (moo_db m)" "vm_ok (moo_vm m)" "programs_ok (moo_db m)" "program_ok np" "db_ok (moo_db m)"
  using assms moo_okD(1) by (simp_all add: state_ok_def)

lemma programs_ok_keeps:
  assumes "keeps o_verbdefs db db'" "programs_ok db"
  shows "programs_ok db'"
  unfolding programs_ok_def
proof (intro allI impI)
  fix x ob assume "dbpriv_find_object db' x = Some ob"
  with assms(1) [unfolded keeps_def, rule_format, of x] obtain ob0 where
    "dbpriv_find_object db x = Some ob0" "o_verbdefs ob = o_verbdefs ob0" by (cases "dbpriv_find_object db x") auto
  with assms(2) show "list_all (\<lambda>v. case vd_program v of None \<Rightarrow> True | Some p \<Rightarrow> program_ok p) (o_verbdefs ob)"
    by (simp add: programs_ok_def)
qed

lemma state_ok_db:
  assumes "state_ok np m" "moo_ok db" "keeps o_verbdefs (moo_db m) db"
  shows "state_ok np (m\<lparr>moo_db := db\<rparr>)"
  using assms programs_ok_keeps [OF assms(3)] by (simp add: state_ok_def)

lemma keeps_verbdefs_via:
  "keeps loc_core db db' \<Longrightarrow> keeps o_verbdefs db db'"
  "keeps parent_rest db db' \<Longrightarrow> keeps o_verbdefs db db'"
  by (erule keeps_via [where h = o_verbdefs], simp add: loc_core_def parent_rest_def tree_core_def)+

text \<open>A verb call by name changes nothing but the verb cache and, if it succeeds, the activations.\<close>

definition same_objects_as :: "moo \<Rightarrow> moo \<Rightarrow> bool" where
  "same_objects_as m m' \<longleftrightarrow> dbpriv_find_object (moo_db m') = dbpriv_find_object (moo_db m)"

lemma harmless_none: "harmless (\<lambda>_ _. False) db w"
  by (simp add: harmless_def)

lemma call_verb_ok:
  assumes "state_ok np m" "nul_free w"
  obtains m' where "call_verb np m this w args False = Some (m', call_result m this w)" "state_ok np m'"
    "same_objects_as m m'" "call_result m this w \<noteq> E_NONE \<Longrightarrow> moo_vm m' = moo_vm m"
    "call_result m this w = E_NONE \<Longrightarrow> called m m' this w"
proof -
  note S = state_okD [OF assms(1)]
  from call_verb2_spec [OF S(1,2,3,4) assms(2) harmless_none, of this args] obtain m' where
    c: "call_verb2 (\<lambda>_ _. False) np m this w args False = Some (m', call_result m this w)"
      "moo_ok (moo_db m')" "vm_ok (moo_vm m')" "only_cache (moo_db m) (moo_db m')"
      "if call_result m this w = E_NONE then called m m' this w else moo_vm m' = moo_vm m" by blast
  note f = only_cache_find [OF c(4)]
  have "programs_ok (moo_db m')" using S(3) by (simp add: programs_ok_same [OF f])
  with c f S(4) show thesis
    by (intro that [of m']) (simp_all add: call_verb_def state_ok_def same_objects_as_def split: if_splits)
qed

lemma call_result_valid: "valid (moo_db m) this \<Longrightarrow> call_result m this w \<noteq> E_INVIND"
  by (simp add: call_result_def)

lemma call_result_cases:
  obtains "call_result m this w = E_NONE" | "call_result m this w = E_MAXREC"
  | "call_result m this w = E_INVIND" | "call_result m this w = E_VERBNF"
  by (cases "call_result m this w") (auto simp: call_result_def split: if_splits)

lemma verb_name_literals:
  "nul_free ''accept''" "nul_free ''exitfunc''" "nul_free ''enterfunc''" "nul_free ''initialize''"
  "nul_free ''recycle''" "nul_free quota_name"
  by (simp_all add: nul_free_def quota_name_def)

section \<open>Moving\<close>

lemma on_location_chain_spec:
  "chain o_location db p as \<Longrightarrow> a \<noteq> NOTHING \<Longrightarrow> on_location_chain db a p = Some (a \<in> set as)"
proof (induction as arbitrary: p)
  case Nil
  then show ?case by (simp add: on_location_chain.simps)
next
  case (Cons b as)
  from Cons.prems(1) obtain ob where "p = b" "b \<noteq> NOTHING" "dbpriv_find_object db b = Some ob"
    "chain o_location db (o_location ob) as" by (rule chain_ConsE)
  with Cons.IH Cons.prems(2) show ?case
    by (subst on_location_chain.simps) (auto simp: db_object_location_def)
qed

lemma place_chain:
  assumes "db_ok db" "l = NOTHING \<or> valid db l"
  obtains as where "chain o_location db l as"
  using assms tree_ok_ancestors [OF db_okD(4) [OF assms(1)]] by (cases "l = NOTHING") auto

lemma on_location_chain_inside:
  assumes "db_ok db" "l = NOTHING \<or> valid db l" "x \<noteq> NOTHING"
  shows "on_location_chain db x l = Some (l \<in> inside db x)"
proof -
  from assms(1,2) obtain as where as: "chain o_location db l as" by (rule place_chain)
  then have "l \<in> inside db x \<longleftrightarrow> x \<in> set as" unfolding inside_def using chain_unique by blast
  with on_location_chain_spec [OF as assms(3)] show ?thesis by simp
qed

lemma same_objects_rest:
  assumes "same_objects_as m m'"
  shows "db_object_location (moo_db m') = db_object_location (moo_db m)" "valid (moo_db m') = valid (moo_db m)"
    "contents_are (moo_db m') = contents_are (moo_db m)" "keeps f (moo_db m) (moo_db m')"
    "is_wizard (moo_db m') = is_wizard (moo_db m)" "ptab (moo_db m') = ptab (moo_db m)"
proof -
  have f: "dbpriv_find_object (moo_db m') = dbpriv_find_object (moo_db m)" using assms by (simp add: same_objects_as_def)
  show "valid (moo_db m') = valid (moo_db m)" "contents_are (moo_db m') = contents_are (moo_db m)"
    "is_wizard (moo_db m') = is_wizard (moo_db m)" "keeps f (moo_db m) (moo_db m')" "ptab (moo_db m') = ptab (moo_db m)"
    using same_objects [OF f] is_wizard_same [OF f] keeps_same [OF f] by simp_all
  show "db_object_location (moo_db m') = db_object_location (moo_db m)" by (simp add: fun_eq_iff db_object_location_def f)
qed

lemma move_entered_ok:
  assumes ok: "state_ok np m"
  obtains m' p where "move_entered np m what wh = Some (m', p)" "state_ok np m'" "same_objects_as m m'"
    "p \<in> {no_var_pack, make_call_pack 4 (Move_data what wh), make_error_pack E_MAXREC}"
proof (cases "valid (moo_db m) wh \<and> valid (moo_db m) what \<and> db_object_location (moo_db m) what = Some wh")
  case True
  obtain m' where c: "call_verb np m wh ''enterfunc'' (make_arglist what) False = Some (m', call_result m wh ''enterfunc'')"
    "state_ok np m'" "same_objects_as m m'"
    using call_verb_ok [OF ok verb_name_literals(3)] by metis
  with True that show thesis by (cases m wh "''enterfunc''" rule: call_result_cases) (auto simp: move_entered_def)
qed (use ok that in \<open>auto simp: move_entered_def same_objects_as_def\<close>)

text \<open>
  The answer to a move that is not made, once the destination has decided;
  \<^term>\<open>None\<close> if the object is moved.
\<close>

definition move_refusal :: "db \<Rightarrow> objid \<Rightarrow> objid \<Rightarrow> objid \<Rightarrow> bool \<Rightarrow> package option" where
  "move_refusal db what wh progr accepts =
     (if \<not> is_wizard db progr \<and> \<not> accepts then Some (make_error_pack E_NACC)
      else if \<not> valid db what \<or> wh \<noteq> NOTHING \<and> \<not> valid db wh \<or> db_object_location db what = Some wh
      then Some no_var_pack
      else if wh \<in> inside db what then Some (make_error_pack E_RECMOVE)
      else None)"

definition moved_to :: "db \<Rightarrow> db \<Rightarrow> objid \<Rightarrow> objid \<Rightarrow> bool" where
  "moved_to db db' what wh \<longleftrightarrow>
     db_object_location db' what = Some wh
   \<and> (\<forall>y. y \<noteq> what \<longrightarrow> db_object_location db' y = db_object_location db y)
   \<and> (\<forall>y cs. contents_are db y cs \<longrightarrow> contents_are db' y (removeAll what cs @ (if y = wh then [what] else [])))
   \<and> keeps loc_core db db' \<and> (\<forall>y. ptab db' y = ptab db y)"

lemma moved_to_same:
  assumes "moved_to db (moo_db m) what wh" "same_objects_as m m'"
  shows "moved_to db (moo_db m') what wh"
proof -
  have "keeps loc_core db (moo_db m')"
    using assms(1) by (intro keeps_trans [OF _ same_objects_rest(4) [OF assms(2)]]) (simp add: moved_to_def)
  with assms(1) same_objects_rest(1,3,6) [OF assms(2)] show ?thesis by (simp add: moved_to_def)
qed

lemma db_change_location_moves:
  assumes "moo_ok db" "valid db x" "l = NOTHING \<or> valid db l" "l \<notin> inside db x"
  obtains db' where "db_change_location db x l = Some db'" "moo_ok db'" "moved_to db db' x l"
  using db_change_location_ok [OF moo_okD(1) [OF assms(1)] assms(2-)] moo_ok_change_location [OF assms]
  unfolding moved_to_def by metis

lemma move_refused:
  assumes ok: "state_ok np m" and r: "move_refusal (moo_db m) what wh progr accepts = Some p"
  shows "move_decided np m what wh progr accepts = Some (m, p)"
proof (cases "valid (moo_db m) what \<and> (wh = NOTHING \<or> valid (moo_db m) wh)")
  case False
  with r show ?thesis by (auto simp: move_refusal_def move_decided_def split: if_splits)
next
  case True
  then have v: "valid (moo_db m) what" "wh = NOTHING \<or> valid (moo_db m) wh" by auto
  have nn: "what \<noteq> NOTHING" using v(1) not_valid_NOTHING by auto
  from v(1) obtain old where old: "db_object_location (moo_db m) what = Some old"
    by (auto simp: db_object_location_def elim: validE)
  from r v old on_location_chain_inside [OF state_okD(5) [OF ok] v(2) nn] show ?thesis
    by (auto simp: move_refusal_def move_decided_def split: if_splits)
qed

definition move_answers :: "objid \<Rightarrow> objid \<Rightarrow> package set" where
  "move_answers what wh = {no_var_pack, make_call_pack 3 (Move_data what wh), make_call_pack 4 (Move_data what wh),
     make_error_pack E_MAXREC}"

lemma move_done:
  assumes ok: "state_ok np m" and r: "move_refusal (moo_db m) what wh progr accepts = None"
  obtains m' p where "move_decided np m what wh progr accepts = Some (m', p)" "state_ok np m'"
    "moved_to (moo_db m) (moo_db m') what wh" "p \<in> move_answers what wh"
proof -
  let ?db = "moo_db m"
  note S = state_okD [OF ok]
  from r have g: "is_wizard ?db progr \<or> accepts" and v: "valid ?db what" "wh = NOTHING \<or> valid ?db wh"
    and n: "db_object_location ?db what \<noteq> Some wh" "wh \<notin> inside ?db what"
    by (auto simp: move_refusal_def split: if_splits)
  have nn: "what \<noteq> NOTHING" using v(1) not_valid_NOTHING by auto
  from v(1) obtain old where old: "db_object_location ?db what = Some old"
    by (auto simp: db_object_location_def elim: validE)
  from db_change_location_moves [OF S(1) v n(2)] obtain db1 where
    d: "db_change_location ?db what wh = Some db1" "moo_ok db1" "moved_to ?db db1 what wh" .
  let ?m1 = "m\<lparr>moo_db := db1\<rparr>" and ?e = "call_result (m\<lparr>moo_db := db1\<rparr>) old ''exitfunc''"
  have ok1: "state_ok np ?m1"
    using d(3) by (intro state_ok_db [OF ok d(2) keeps_verbdefs_via(1)]) (simp add: moved_to_def)
  obtain m2 where c: "call_verb np ?m1 old ''exitfunc'' (make_arglist what) False = Some (m2, ?e)"
    "state_ok np m2" "same_objects_as ?m1 m2"
    using call_verb_ok [OF ok1 verb_name_literals(2)] by metis
  obtain m3 p3 where e: "move_entered np m2 what wh = Some (m3, p3)" "state_ok np m3" "same_objects_as m2 m3"
    "p3 \<in> {no_var_pack, make_call_pack 4 (Move_data what wh), make_error_pack E_MAXREC}"
    by (rule move_entered_ok [OF c(2)])
  define m' where "m' = (if ?e \<in> {E_NONE, E_MAXREC} then m2 else m3)"
  define p where "p = (if ?e = E_NONE then make_call_pack 3 (Move_data what wh)
    else if ?e = E_MAXREC then make_error_pack E_MAXREC else p3)"
  have "move_decided np m what wh progr accepts = Some (m', p)"
    using g v old n d(1) c(1) e(1) on_location_chain_inside [OF S(5) v(2) nn] by (auto simp: move_decided_def m'_def p_def)
  moreover have "same_objects_as ?m1 m'" using c(3) e(3) by (simp add: m'_def same_objects_as_def)
  then have "moved_to ?db (moo_db m') what wh" using d(3) moved_to_same [of ?db ?m1 what wh m'] by simp
  moreover have "p \<in> move_answers what wh" using e(4) by (auto simp: p_def move_answers_def)
  moreover have "state_ok np m'" using c(2) e(2) by (simp add: m'_def)
  ultimately show thesis by (intro that)
qed

lemma move_decided_total:
  assumes "state_ok np m"
  obtains m' p where "move_decided np m what wh progr accepts = Some (m', p)" "state_ok np m'"
    "case move_refusal (moo_db m) what wh progr accepts of
       Some q \<Rightarrow> p = q \<and> m' = m
     | None \<Rightarrow> p \<in> move_answers what wh \<and> moved_to (moo_db m) (moo_db m') what wh"
proof (cases "move_refusal (moo_db m) what wh progr accepts")
  case None
  with move_done [OF assms None] that show thesis by (metis option.simps(4))
next
  case (Some q)
  with move_refused [OF assms Some] assms that show thesis by simp
qed

lemma controls_total: "valid db x \<Longrightarrow> \<exists>b. controls db who x = Some b"
  by (auto simp: controls_def db_object_owner_def elim: validE)

definition moves_ok :: "program \<Rightarrow> moo \<Rightarrow> moo \<Rightarrow> objid \<Rightarrow> objid \<Rightarrow> bool" where
  "moves_ok np m m' what wh \<longleftrightarrow> state_ok np m' \<and>
     (same_objects_as m m' \<or> wh \<notin> inside (moo_db m) what \<and> moved_to (moo_db m) (moo_db m') what wh)"

lemma move_decided_moves:
  assumes "state_ok np m"
  shows "\<exists>m' p. move_decided np m what wh progr accepts = Some (m', p) \<and> moves_ok np m m' what wh"
proof -
  from move_decided_total [OF assms] obtain m' p where
    "move_decided np m what wh progr accepts = Some (m', p)" "state_ok np m'"
    and r: "case move_refusal (moo_db m) what wh progr accepts of
       Some q \<Rightarrow> p = q \<and> m' = m | None \<Rightarrow> p \<in> move_answers what wh \<and> moved_to (moo_db m) (moo_db m') what wh" .
  moreover have "same_objects_as m m' \<or> wh \<notin> inside (moo_db m) what \<and> moved_to (moo_db m) (moo_db m') what wh"
    using r by (cases "move_refusal (moo_db m) what wh progr accepts")
      (auto simp: same_objects_as_def move_refusal_def split: if_splits)
  ultimately show ?thesis by (auto simp: moves_ok_def)
qed

lemma inside_same: "same_objects_as m m' \<Longrightarrow> inside (moo_db m') = inside (moo_db m)"
  unfolding same_objects_as_def by (drule same_objects_chain [of _ _ o_location]) (simp add: inside_def fun_eq_iff)

lemma moves_ok_before:
  assumes "same_objects_as m m1" "moves_ok np m1 m' what wh"
  shows "moves_ok np m m' what wh"
proof -
  have f: "dbpriv_find_object (moo_db m1) = dbpriv_find_object (moo_db m)" using assms(1) by (simp add: same_objects_as_def)
  have "moved_to (moo_db m1) db x l = moved_to (moo_db m) db x l" for db x l
    using same_objects_rest(1,3,6) [OF assms(1)] by (simp add: moved_to_def keeps_def f)
  with assms(2) inside_same [OF assms(1)] show ?thesis by (auto simp: moves_ok_def same_objects_as_def f)
qed

text \<open>The first case: the checks, and the question to the destination.\<close>

lemma move_asked:
  assumes ok: "state_ok np m" and v: "valid (moo_db m) what" "valid (moo_db m) wh \<or> wh = NOTHING"
    and c: "controls (moo_db m) progr what = Some True"
  shows "\<exists>m' p. do_move np m arglist 1 what wh progr = Some (m', p) \<and> moves_ok np m m' what wh
      \<and> (if wh = NOTHING then move_decided np m what wh progr True = Some (m', p)
         else (case call_result m wh ''accept'' of
             E_NONE \<Rightarrow> p = make_call_pack 2 (Move_data what wh) \<and> called m m' wh ''accept''
           | E_MAXREC \<Rightarrow> p = make_error_pack E_MAXREC
           | _ \<Rightarrow> \<exists>m1. same_objects_as m m1 \<and> move_decided np m1 what wh progr False = Some (m', p)))"
proof (cases "wh = NOTHING")
  case True
  with move_decided_moves [OF ok, of what wh progr True] v c show ?thesis by (auto simp: do_move_def)
next
  case False
  with v(2) have wv: "valid (moo_db m) wh" by simp
  obtain m1 where c1: "call_verb np m wh ''accept'' (make_arglist what) False = Some (m1, call_result m wh ''accept'')"
    "state_ok np m1" "same_objects_as m m1" "call_result m wh ''accept'' = E_NONE \<Longrightarrow> called m m1 wh ''accept''"
    using call_verb_ok [OF ok verb_name_literals(1)] by metis
  from move_decided_moves [OF c1(2), of what wh progr False] obtain m2 p2 where
    d: "move_decided np m1 what wh progr False = Some (m2, p2)" "moves_ok np m1 m2 what wh" by blast
  have mo: "moves_ok np m m1 what wh" "moves_ok np m m2 what wh"
    using c1(2,3) moves_ok_before [OF c1(3) d(2)] by (simp_all add: moves_ok_def)
  from call_result_valid [OF wv, of "''accept''"] show ?thesis
    by (cases m wh "''accept''" rule: call_result_cases) (use False v c c1 d mo in \<open>auto simp: do_move_def\<close>)
qed

text \<open>Whatever the case, a move returns, keeps every invariant, and changes at most one location.\<close>

lemma do_move_moves:
  assumes ok: "state_ok np m" and pc: "pc \<in> {1, 2, 3, 4}"
  shows "\<exists>m' p. do_move np m arglist pc what wh progr = Some (m', p) \<and> moves_ok np m m' what wh"
proof -
  consider "pc = 1" | "pc = 2" | "pc = 3" | "pc = 4" using pc by blast
  then show ?thesis
  proof cases
    case 1
    show ?thesis
    proof (cases "valid (moo_db m) what \<and> (valid (moo_db m) wh \<or> wh = NOTHING)")
      case True
      then have v: "valid (moo_db m) what" "valid (moo_db m) wh \<or> wh = NOTHING" by simp_all
      from controls_total [OF v(1)] obtain b where b: "controls (moo_db m) progr what = Some b" by blast
      show ?thesis
      proof (cases b)
        case True
        with move_asked [OF ok v, of progr arglist] b 1 show ?thesis by auto
      next
        case False
        with b v 1 ok show ?thesis by (auto simp: do_move_def moves_ok_def same_objects_as_def)
      qed
    qed (use 1 ok in \<open>auto simp: do_move_def moves_ok_def same_objects_as_def\<close>)
  next
    case 2
    with move_decided_moves [OF ok] show ?thesis by (simp add: do_move_def)
  next
    case 3
    from ok obtain m' p where "move_entered np m what wh = Some (m', p)" "state_ok np m'" "same_objects_as m m'"
      by (rule move_entered_ok)
    with 3 show ?thesis by (simp add: do_move_def moves_ok_def)
  next
    case 4
    with ok show ?thesis by (simp add: do_move_def moves_ok_def same_objects_as_def)
  qed
qed

end
