(* ===== verification/PropAccess.thy ===== *)
theory PropAccess
  imports Reachable
begin

text \<open>
  Setting the value, owner and flags of a property through its handle, and
  reading it back.
\<close>

definition no_values :: "object \<Rightarrow> object" where
  "no_values ob = ob\<lparr>o_propval := []\<rparr>"

lemma keeps_no_values:
  assumes "keeps no_values db db'"
  shows "keeps o_verbdefs db db'" "keeps tree_links db db'" "keeps place_links db db'" "keeps o_propdefs db db'"
    "keeps o_flags db db'" "keeps o_owner db db'" "keeps verb_sig db db'"
  by (rule keeps_via [OF assms, where h = o_verbdefs] keeps_via [OF assms, where h = tree_links]
      keeps_via [OF assms, where h = place_links] keeps_via [OF assms, where h = o_propdefs]
      keeps_via [OF assms, where h = o_flags] keeps_via [OF assms, where h = o_owner]
      keeps_via [OF assms, where h = verb_sig],
      simp add: no_values_def tree_links_def place_links_def verb_sig_def)+

lemma keepsE:
  assumes "keeps f db db'" "dbpriv_find_object db x = Some ob"
  obtains ob' where "dbpriv_find_object db' x = Some ob'" "f ob' = f ob"
  using assms(1) [unfolded keeps_def, rule_format, of x] assms(2) by (cases "dbpriv_find_object db' x") auto

lemma keeps_slots:
  assumes "keeps no_values db db'"
  shows "slots db' x = slots db x"
proof (rule slots_cong)
  show "same_tree db db'" using keeps_no_values(2) [OF assms] by (simp add: keeps_tree)
  show "propdefs_of db' y = propdefs_of db y" for y
  proof (cases "dbpriv_find_object db y")
    case None
    with keeps_valid [OF assms, of y] show ?thesis by (simp add: propdefs_of_def valid_def)
  next
    case (Some ob)
    from keepsE [OF keeps_no_values(4) [OF assms] Some] show ?thesis using Some by (metis option.case(2) propdefs_of_def)
  qed
qed

lemma slot_found_index:
  assumes ok: "db_ok db" "valid db x" "nul_free name"
    and b: "find_builtin name = None" and n: "n < length (slots db x)" "slot_name (slots db x ! n) = fold_case name"
  obtains v where "prop_value db (slots db x ! n) x v"
    "db_find_property want db x name = Some (Prop_slot (fst (slots db x ! n)) x n, if want then Some v else None)"
proof -
  note D = db_okD [OF ok(1)]
  have "slots db x ! n \<in> set (slots db x)" using n(1) by simp
  with n(2) have "fold_case name \<in> slot_name ` set (slots db x)" by (metis image_eqI)
  from db_find_property_present [OF D(3,5) ok(3,2) b this, of want] obtain k v where
    k: "k < length (slots db x)" "slot_name (slots db x ! k) = fold_case name" "prop_value db (slots db x ! k) x v"
      "db_find_property want db x name = Some (Prop_slot (fst (slots db x ! k)) x k, if want then Some v else None)" by blast
  from ok(2) obtain ob where "dbpriv_find_object db x = Some ob" by (rule validE)
  with D(5) have "distinct (map slot_name (slots db x))" by (simp add: props_ok_def props_ok_at_def)
  with n k(1,2) have "k = n" by (metis distinct_conv_nth length_map nth_map)
  with k that show thesis by simp
qed

lemma found_not_builtin:
  "db_find_property want db x name = Some (Prop_slot d y n, r) \<Longrightarrow> find_builtin name = None"
  by (auto simp: db_find_property_def bind_eq_Some_conv split: option.splits if_splits)

text \<open>A change of the slot that was found.\<close>

lemma modify_found:
  assumes ok: "moo_ok db" and x: "valid db x" "nul_free name"
    and f: "db_find_property want db x name = Some (Prop_slot d y n, r)"
    and g: "\<And>pv. pv_var (g pv) = TYPE_CLEAR \<Longrightarrow> pv_var pv \<noteq> TYPE_CLEAR \<Longrightarrow> d \<noteq> x"
  obtains db' pv where "modify_slot db y n g = Some db'" "moo_ok db'" "keeps no_values db db'"
    "get_slot db y n = Some pv" "ptab db x (slots db x ! n) = Some pv"
    "ptab db' x = (ptab db x)(slots db x ! n \<mapsto> g pv)" "\<And>z. z \<noteq> x \<Longrightarrow> ptab db' z = ptab db z"
    "get_slot db' y n = Some (g pv)"
proof -
  note okd = moo_okD(1) [OF ok]
  note D = db_okD [OF okd]
  from found_slot [OF okd x f] have y: "y = x" and n: "n < length (slots db x)" and d: "d = fst (slots db x ! n)" by auto
  from x(1) obtain ob where ob: "dbpriv_find_object db x = Some ob" by (rule validE)
  note pok = props_okD [OF D(5) ob, unfolded props_ok_at_def]
  have own: "pv_var (g (o_propval ob ! n)) \<noteq> TYPE_CLEAR" if c: "n < cur_length ob"
  proof
    assume "pv_var (g (o_propval ob ! n)) = TYPE_CLEAR"
    moreover have "pv_var (o_propval ob ! n) \<noteq> TYPE_CLEAR" using pok c n by (auto simp: list_all_length)
    ultimately have "d \<noteq> x" by (rule g)
    with own_slot [OF D(3) ob c] d show False by simp
  qed
  from modify_slot_ok [where f = g, OF okd ob n own] obtain db' where
    m: "modify_slot db x n g = Some db'" "keeps (\<lambda>ob. ob\<lparr>o_propval := []\<rparr>) db db'"
      "\<forall>z. ptab db' z = (if z = x then (ptab db x)(slots db x ! n \<mapsto> g (o_propval ob ! n)) else ptab db z)" by blast
  have ok': "moo_ok db'" by (rule moo_ok_slot [OF ok x f g]) (use m(1) y in simp_all)
  have len: "n < length (o_propval ob)" using pok n by simp
  then have gs: "get_slot db x n = Some (o_propval ob ! n)" by (simp add: get_slot_def ob nth_opt_def)
  have "distinct (slots db x)" using pok by (simp add: distinct_map)
  then have "ptab db x (slots db x ! n) = Some (o_propval ob ! n)"
    using n pok by (simp add: ptab_def propvals_of_def ob map_of_zip_nth)
  moreover have "get_slot db' x n = Some (g (o_propval ob ! n))"
    using m(1) gs ob len by (auto simp: modify_slot_def modify_obj_Some get_slot_def nth_opt_def)
  ultimately show thesis using m ok' gs y by (intro that [of db' "o_propval ob ! n"]) (simp_all add: no_values_def [abs_def])
qed

lemma set_value_ok:
  assumes ok: "moo_ok db" and x: "valid db x" "nul_free name"
    and f: "db_find_property want db x name = Some (Prop_slot d y n, r)" and v: "v \<noteq> TYPE_CLEAR"
  obtains db' where "db_set_property_value db (Prop_slot d y n) v = Some db'" "moo_ok db'" "keeps no_values db db'"
    "db_find_property True db' x name = Some (Prop_slot d y n, Some v)" "\<And>z. z \<noteq> x \<Longrightarrow> ptab db' z = ptab db z"
proof -
  from found_slot [OF moo_okD(1) [OF ok] x f] have s: "y = x" "n < length (slots db x)" "d = fst (slots db x ! n)"
    "slot_name (slots db x ! n) = fold_case name" by auto
  obtain db' pv where m: "modify_slot db y n (\<lambda>pv. pv\<lparr>pv_var := v\<rparr>) = Some db'" "moo_ok db'" "keeps no_values db db'"
    "ptab db' x = (ptab db x)(slots db x ! n \<mapsto> pv\<lparr>pv_var := v\<rparr>)" "\<And>z. z \<noteq> x \<Longrightarrow> ptab db' z = ptab db z"
    by (rule modify_found [OF ok x f, of "\<lambda>pv. pv\<lparr>pv_var := v\<rparr>"]) (use v in auto)
  note sl = keeps_slots [OF m(3), of x]
  have x': "valid db' x" using x(1) keeps_valid [OF m(3)] by simp
  obtain v' where p: "prop_value db' (slots db x ! n) x v'" and
    f': "db_find_property True db' x name = Some (Prop_slot d x n, Some v')"
    using slot_found_index [OF moo_okD(1) [OF m(2)] x' x(2) found_not_builtin [OF f], of n True] s sl by metis
  have "prop_value db' (slots db x ! n) x (pv_var (pv\<lparr>pv_var := v\<rparr>))" by (rule prop_value.own) (use m(4) v in simp_all)
  with p have "v' = v" using prop_value_unique by fastforce
  with m f' s(1) show thesis by (intro that [of db']) simp_all
qed

end
