(* ===== verification/BfRecycle.thy ===== *)
theory BfRecycle
  imports BfMove PropAccess
begin

text \<open>
  The ownership quota, and what \<^verbatim>\<open>chparent()\<close>, \<^verbatim>\<open>create()\<close> and \<^verbatim>\<open>recycle()\<close>
  guarantee.
\<close>

section \<open>Quota\<close>

definition quota_of :: "db \<Rightarrow> objid \<Rightarrow> num option" where
  "quota_of db p =
     (if valid db p
      then (case db_find_property True db p quota_name of
              Some (Prop_slot _ _ _, Some (TYPE_INT n)) \<Rightarrow> Some n
            | _ \<Rightarrow> None)
      else None)"

lemma quota_not_builtin: "find_builtin quota_name = None"
  by code_simp

lemma quota_lookup:
  assumes ok: "db_ok db" and p: "valid db p"
  obtains "db_find_property True db p quota_name = Some (No_prop, None)"
  | d n v where "db_find_property True db p quota_name = Some (Prop_slot d p n, Some v)"
proof (cases "fold_case quota_name \<in> slot_name ` set (slots db p)")
  case True
  from db_find_property_present [OF db_okD(3,5) [OF ok] verb_name_literals(6) p quota_not_builtin True, of True] that(2)
  show thesis by auto
next
  case False
  from db_find_property_absent [OF db_okD(3,5) [OF ok] verb_name_literals(6) p quota_not_builtin False] that(1)
  show thesis by simp
qed

text \<open>Setting the quota to another number.\<close>

lemma set_quota:
  assumes ok: "moo_ok db" and p: "valid db p"
    and f: "db_find_property True db p quota_name = Some (Prop_slot d p n, r)"
  obtains db' where "db_set_property_value db (Prop_slot d p n) (TYPE_INT k) = Some db'" "moo_ok db'"
    "keeps no_values db db'" "quota_of db' p = Some k"
proof -
  obtain db' where s: "db_set_property_value db (Prop_slot d p n) (TYPE_INT k) = Some db'" "moo_ok db'"
    "keeps no_values db db'" "db_find_property True db' p quota_name = Some (Prop_slot d p n, Some (TYPE_INT k))"
    by (rule set_value_ok [OF ok p verb_name_literals(6) f, of "TYPE_INT k"]) simp_all
  moreover have "quota_of db' p = Some k" using s(4) keeps_valid [OF s(3), of p] p by (simp add: quota_of_def)
  ultimately show thesis by (intro that)
qed

lemma decr_quota_ok:
  assumes ok: "moo_ok db"
  obtains db' b where "decr_quota db p = Some (db', b)" "moo_ok db'" "keeps no_values db db'"
    "b \<longleftrightarrow> (case quota_of db p of Some n \<Rightarrow> 0 < n | None \<Rightarrow> True)" "\<not> b \<Longrightarrow> db' = db"
    "quota_of db' p = map_option (\<lambda>n. if 0 < n then n - 1 else n) (quota_of db p)"
proof (cases "valid db p")
  case False
  with ok show thesis by (intro that [of db True]) (simp_all add: decr_quota_def quota_of_def)
next
  case True
  show thesis
  proof (cases rule: quota_lookup [OF moo_okD(1) [OF ok] True])
    case 1
    with True ok show thesis by (intro that [of db True]) (simp_all add: decr_quota_def quota_of_def)
  next
    case (2 d n v)
    show thesis
    proof (cases "\<exists>k. v = TYPE_INT k \<and> 0 < k")
      case T: True
      then obtain k where k: "v = TYPE_INT k" "0 < k" by blast
      obtain db' where "db_set_property_value db (Prop_slot d p n) (TYPE_INT (k - 1)) = Some db'" "moo_ok db'"
        "keeps no_values db db'" "quota_of db' p = Some (k - 1)" by (rule set_quota [OF ok True 2])
      with k True 2 show thesis by (intro that [of db' True]) (simp_all add: decr_quota_def quota_of_def)
    next
      case False
      with True 2 ok show thesis
        by (cases v) (auto intro!: that [of db] simp: decr_quota_def quota_of_def)
    qed
  qed
qed

lemma incr_quota_ok:
  assumes ok: "moo_ok db" and top: "\<And>n. quota_of db p = Some n \<Longrightarrow> n < NUM_MAX"
  obtains db' where "incr_quota db p = Some db'" "moo_ok db'" "keeps no_values db db'"
    "quota_of db' p = map_option (\<lambda>n. n + 1) (quota_of db p)"
proof (cases "valid db p")
  case False
  with ok show thesis by (intro that [of db]) (simp_all add: incr_quota_def quota_of_def)
next
  case True
  show thesis
  proof (cases rule: quota_lookup [OF moo_okD(1) [OF ok] True])
    case 1
    with True ok show thesis by (intro that [of db]) (simp_all add: incr_quota_def quota_of_def)
  next
    case (2 d n v)
    show thesis
    proof (cases "\<exists>k. v = TYPE_INT k")
      case T: True
      then obtain k where k: "v = TYPE_INT k" by blast
      obtain db' where "db_set_property_value db (Prop_slot d p n) (TYPE_INT (k + 1)) = Some db'" "moo_ok db'"
        "keeps no_values db db'" "quota_of db' p = Some (k + 1)" by (rule set_quota [OF ok True 2])
      with k True 2 top [of k] show thesis by (intro that [of db']) (simp_all add: incr_quota_def quota_of_def)
    next
      case False
      with True 2 ok show thesis
        by (cases v) (auto intro!: that [of db] simp: incr_quota_def quota_of_def)
    qed
  qed
qed

section \<open>Changing the parent\<close>

lemma inherit_chain:
  assumes "db_ok db" "p = NOTHING \<or> valid db p"
  obtains as where "chain o_parent db p as"
  using assms tree_ok_ancestors [OF db_okD(3) [OF assms(1)]] by (cases "p = NOTHING") auto

lemma on_parent_chain_desc:
  assumes "db_ok db" "p = NOTHING \<or> valid db p" "x \<noteq> NOTHING"
  shows "on_parent_chain db x p = Some (p \<in> desc db x)"
proof -
  from assms(1,2) obtain as where as: "chain o_parent db p as" by (rule inherit_chain)
  then have "p \<in> desc db x \<longleftrightarrow> x \<in> set as" unfolding desc_def using chain_unique by blast
  with on_parent_chain_spec [OF as assms(3)] show ?thesis by simp
qed

lemma allows_total: "valid db x \<Longrightarrow> \<exists>b. db_object_allows db x who f = Some b"
  by (erule validE) (auto simp: db_object_allows_def db_object_owner_def db_object_has_flag_def)

definition may_chparent :: "db \<Rightarrow> objid \<Rightarrow> objid \<Rightarrow> objid \<Rightarrow> bool" where
  "may_chparent db what parent progr \<longleftrightarrow> controls db progr what = Some True
     \<and> (parent = NOTHING \<or> db_object_allows db parent progr FLAG_FERTILE = Some True)"

definition chparent_refusal :: "db \<Rightarrow> objid \<Rightarrow> objid \<Rightarrow> objid \<Rightarrow> error option" where
  "chparent_refusal db what parent progr =
     (if \<not> valid db what \<or> \<not> valid db parent \<and> parent \<noteq> NOTHING then Some E_INVARG
      else if \<not> may_chparent db what parent progr then Some E_PERM
      else if parent \<in> desc db what then Some E_RECMOVE
      else if \<not> clash_free db what parent then Some E_INVARG
      else None)"

definition reparented :: "db \<Rightarrow> db \<Rightarrow> objid \<Rightarrow> objid \<Rightarrow> bool" where
  "reparented db db' x q \<longleftrightarrow> keeps parent_rest db db' \<and> db_object_parent db' x = Some q
   \<and> (\<forall>y cs. children_are db y cs \<longrightarrow> children_are db' y (removeAll x cs @ (if y = q then [x] else [])))
   \<and> (\<forall>y. valid db y \<longrightarrow> ptab db' y =
        (if y \<in> desc db x
         then adopt (the (dbpriv_find_object db y)) (desc db x) (ptab db y) (ptab db q)
         else ptab db y))"

lemma db_change_parent_moves:
  assumes "moo_ok db" "valid db x" "q = NOTHING \<or> valid db q" "q \<notin> desc db x" "clash_free db x q"
  obtains db' where "db_change_parent db x q = Some (db', True)" "moo_ok db'" "reparented db db' x q"
  using db_change_parent_ok [OF db_okD(3,5) [OF moo_okD(1) [OF assms(1)]] assms(2-5)]
    moo_ok_change_parent [OF assms(1-4)] that unfolding reparented_def by blast

lemma bf_chparent_ok:
  assumes ok: "moo_ok db"
  shows "case chparent_refusal db what parent progr of
           Some e \<Rightarrow> bf_chparent db what parent progr = Some (db, make_error_pack e)
         | None \<Rightarrow> \<exists>db'. bf_chparent db what parent progr = Some (db', no_var_pack) \<and> moo_ok db'
              \<and> reparented db db' what parent"
proof (cases "valid db what \<and> (parent = NOTHING \<or> valid db parent)")
  case False
  then show ?thesis by (auto simp: chparent_refusal_def bf_chparent_def)
next
  case True
  then have v: "valid db what" "parent = NOTHING \<or> valid db parent" by simp_all
  have nn: "what \<noteq> NOTHING" using v(1) not_valid_NOTHING by auto
  from controls_total [OF v(1)] obtain b where b: "controls db progr what = Some b" by blast
  have "\<exists>f. (if b \<and> valid db parent then db_object_allows db parent progr FLAG_FERTILE else Some True) = Some f
      \<and> (may_chparent db what parent progr \<longleftrightarrow> b \<and> f)"
    using v(2) not_valid_NOTHING allows_total [of db parent progr FLAG_FERTILE] b by (auto simp: may_chparent_def)
  then obtain f where f: "(if b \<and> valid db parent then db_object_allows db parent progr FLAG_FERTILE else Some True) = Some f"
    "may_chparent db what parent progr \<longleftrightarrow> b \<and> f" by blast
  note chk = on_parent_chain_desc [OF moo_okD(1) [OF ok] v(2) nn]
  show ?thesis
  proof (cases "b \<and> f \<and> parent \<notin> desc db what")
    case False
    with v b f chk show ?thesis by (auto simp: chparent_refusal_def bf_chparent_def)
  next
    case go: True
    then have nd: "parent \<notin> desc db what" by simp
    show ?thesis
    proof (cases "clash_free db what parent")
      case False
      from db_change_parent_refused [OF db_okD(3,5) [OF moo_okD(1) [OF ok]] v False] go False v b f chk show ?thesis
        by (auto simp: chparent_refusal_def bf_chparent_def)
    next
      case True
      from db_change_parent_moves [OF ok v nd True] obtain db' where
        "db_change_parent db what parent = Some (db', True)" "moo_ok db'" "reparented db db' what parent" .
      with go True v b f chk show ?thesis by (auto simp: chparent_refusal_def bf_chparent_def)
    qed
  qed
qed

section \<open>Taking an object out of the hierarchies\<close>

lemma get_first_kids:
  assumes "chain nx db c cs"
  shows "for_all_loop nx db first_proc c NOTHING = Some (case cs of [] \<Rightarrow> (NOTHING, False) | c # _ \<Rightarrow> (c, True))"
  using assms by (subst for_all_loop_chain) (auto simp: first_proc_def split: list.splits)

lemma get_first_children:
  "children_are db x cs \<Longrightarrow> get_first (db_for_all_children db x) = Some (case cs of [] \<Rightarrow> NOTHING | c # _ \<Rightarrow> c)"
  by (cases cs) (auto simp: kids_are_def get_first_def db_for_all_children_def simp del: chain.simps dest!: get_first_kids)

lemma get_first_contents:
  "contents_are db x cs \<Longrightarrow> get_first (db_for_all_contents db x) = Some (case cs of [] \<Rightarrow> NOTHING | c # _ \<Rightarrow> c)"
  by (cases cs) (auto simp: kids_are_def get_first_def db_for_all_contents_def simp del: chain.simps dest!: get_first_kids)

lemma NOTHING_outside: "NOTHING \<notin> inside db x" "NOTHING \<notin> desc db x"
  by (auto simp: inside_def desc_def)

lemma clash_free_NOTHING: "clash_free db x NOTHING"
  by (simp add: clash_free_def chain_from_eq [where xs = "[]"])

text \<open>A name that an ancestor defines is not defined again below.\<close>

lemma defined_above:
  assumes ok: "inherit_ok db" "props_ok db" and y: "dbpriv_find_object db y = Some yo"
    and a: "a \<in> set (chain_from o_parent db (o_parent yo))" "defines_prop db a nm"
  shows "\<not> defines_prop db y nm"
proof
  assume "defines_prop db y nm"
  then have "fold_case nm \<in> slot_name ` set (map (Pair y) (pl_l (o_propdefs yo)))"
    using y by (force simp: defines_prop_def propdefs_of_def slot_name_def)
  moreover have "fold_case nm \<in> slot_name ` set (slots db (o_parent yo))" using a slot_names by blast
  moreover have "distinct (map slot_name (map (Pair y) (pl_l (o_propdefs yo)) @ slots db (o_parent yo)))"
    using props_okD [OF ok(2) y] slots_step [OF ok(1) y] by (simp add: props_ok_at_def)
  ultimately show False by auto
qed

text \<open>So an object can always be given to its grandparent.\<close>

lemma clash_free_grandparent:
  assumes ok: "inherit_ok db" "props_ok db" and c: "dbpriv_find_object db c = Some co"
    and p: "dbpriv_find_object db (o_parent co) = Some po"
  shows "clash_free db c (o_parent po)"
  unfolding clash_free_def
proof (intro ballI)
  fix a pd y assume a: "a \<in> set (chain_from o_parent db (o_parent po))" and pd: "pd \<in> set (propdefs_of db a)" and y: "y \<in> desc db c"
  from y obtain as where as: "chain o_parent db y as" "c \<in> set as" by (auto simp: desc_def)
  then obtain us vs where s: "as = us @ c # vs" "chain o_parent db c (c # vs)" by (metis chain_tail_of)
  from desc_valid [OF y] obtain yo where yo: "dbpriv_find_object db y = Some yo" by (auto elim: validE)
  from as(1) yo obtain bs where bs: "as = y # bs" "chain o_parent db (o_parent yo) bs"
    by (cases as) (auto dest: find_not_NOTHING)
  from s(2) c have "chain o_parent db (o_parent co) vs" by auto
  with p obtain ws where ws: "vs = o_parent co # ws" "chain o_parent db (o_parent po) ws"
    by (cases vs) (auto dest: find_not_NOTHING)
  have "set ws \<subseteq> set bs" using s(1) bs(1) ws(1) by (cases us) auto
  with a ws(2) bs(2) have "a \<in> set (chain_from o_parent db (o_parent yo))" by (auto simp: chain_from_eq)
  moreover have "defines_prop db a (pd_name pd)" using pd by (auto simp: defines_prop_def)
  ultimately show "\<not> defines_prop db y (pd_name pd)" by (rule defined_above [OF ok yo])
qed

text \<open>No slot of the quota holds the largest number, which could not be incremented.\<close>

definition quotas_low :: "db \<Rightarrow> bool" where
  "quotas_low db \<longleftrightarrow> (\<forall>y s pv n. ptab db y s = Some pv \<longrightarrow> slot_name s = fold_case quota_name \<longrightarrow>
     pv_var pv = TYPE_INT n \<longrightarrow> n < NUM_MAX)"

lemma prop_value_stored: "prop_value db s x v \<Longrightarrow> \<exists>y pv. ptab db y s = Some pv \<and> pv_var pv = v"
  by (induction rule: prop_value.induct) auto

lemma low_quota:
  assumes ok: "db_ok db" and low: "quotas_low db" and q: "quota_of db p = Some n"
  shows "n < NUM_MAX"
proof -
  from q obtain d x k where v: "valid db p" and f: "db_find_property True db p quota_name = Some (Prop_slot d x k, Some (TYPE_INT n))"
    by (auto simp: quota_of_def split: if_splits option.splits db_prop_handle.splits var.splits)
  note s = found_slot [OF ok v verb_name_literals(6) f]
  obtain w where w: "prop_value db (slots db p ! k) p w" "db_find_property True db p quota_name = Some (Prop_slot d p k, Some w)"
    using slot_found_index [OF ok v verb_name_literals(6) quota_not_builtin, of k True] s by auto
  with f have "prop_value db (slots db p ! k) p (TYPE_INT n)" by simp
  from prop_value_stored [OF this] obtain y pv where "ptab db y (slots db p ! k) = Some pv" "pv_var pv = TYPE_INT n" by blast
  with low s show ?thesis unfolding quotas_low_def by blast
qed

lemma ptab_invalid: "\<not> valid db y \<Longrightarrow> ptab db y s = None"
  by (simp add: ptab_def propvals_of_def valid_def)

lemma quotas_low_reparented:
  assumes "reparented db db' x q" "quotas_low db"
  shows "quotas_low db'"
  unfolding quotas_low_def
proof (intro allI impI)
  fix y s pv n assume a: "ptab db' y s = Some pv" "slot_name s = fold_case quota_name" "pv_var pv = TYPE_INT n"
  have "valid db y"
    using a(1) ptab_invalid [of db' y s] keeps_valid [of parent_rest db db'] assms(1) by (auto simp: reparented_def)
  with assms(1) a(1,3) have "ptab db y s = Some pv"
    by (auto simp: reparented_def adopt_def fresh_slot_def chowned_def split: if_splits option.splits)
  with assms(2) a show "n < NUM_MAX" unfolding quotas_low_def by blast
qed

lemma reparented_others:
  assumes ok: "moo_ok db" "moo_ok db'" and r: "reparented db db' x q" and y: "y \<noteq> x"
  shows "db_object_parent db' y = db_object_parent db y"
proof (cases "dbpriv_find_object db y")
  case None
  with keeps_valid [of parent_rest db db' y] r show ?thesis by (auto simp: reparented_def db_object_parent_def valid_def)
next
  case (Some o1)
  have k: "keeps parent_rest db db'" using r by (simp add: reparented_def)
  from keepsE [OF k Some] obtain o2 where o2: "dbpriv_find_object db' y = Some o2" by blast
  have "o_parent o2 = o_parent o1"
    by (rule other_parents [OF db_okD(3) [OF moo_okD(1) [OF ok(1)]] db_okD(3) [OF moo_okD(1) [OF ok(2)]] keeps_valid [OF k] _ y Some o2, of q])
      (use r in \<open>simp add: reparented_def\<close>)
  with Some o2 show ?thesis by (simp add: db_object_parent_def)
qed

text \<open>One child is handed on.\<close>

lemma hand_on_child:
  assumes ok: "moo_ok db" and x: "dbpriv_find_object db x = Some xo" and cs: "children_are db x (c # cs)"
  obtains db' where "db_change_parent db c (o_parent xo) = Some (db', True)" "moo_ok db'"
    "reparented db db' c (o_parent xo)" "children_are db' x cs" "c \<noteq> x"
proof -
  note D = db_okD [OF moo_okD(1) [OF ok]]
  have "c \<in> below o_parent db x" using tree_ok_kids [OF D(3) cs] by auto
  then obtain co where co: "dbpriv_find_object db c = Some co" "o_parent co = x" by (auto simp: below_def)
  let ?p = "o_parent xo"
  have cv: "valid db c" and xv: "valid db x" using co x by (auto simp: valid_def)
  have pv: "?p = NOTHING \<or> valid db ?p" using tree_ok_up [OF D(3) x] by auto
  have nx: "?p \<noteq> x" "?p \<notin> desc db x" using desc_not_up [OF x] desc_self [OF D(3) xv] by auto
  have nd: "?p \<notin> desc db c" using desc_up [OF co(1), of ?p] co(2) xv nx(2) by auto
  have "c \<noteq> x" using desc_not_up [OF co(1)] desc_self [OF D(3) xv] co(2) by auto
  moreover have "clash_free db c ?p" using clash_free_grandparent [OF D(3,5) co(1)] co(2) x by simp
  from db_change_parent_moves [OF ok cv pv nd this] obtain db' where
    r: "db_change_parent db c ?p = Some (db', True)" "moo_ok db'" "reparented db db' c ?p" .
  moreover have "removeAll c (c # cs) = cs" using kids_are_distinct [OF cs] by simp
  then have "children_are db' x cs" using r(3) cs nx(1) unfolding reparented_def by (metis append_Nil2)
  ultimately show thesis by (rule that [rotated -1])
qed

lemma drop_children_ok:
  assumes "moo_ok db" "children_are db x cs" "db_object_parent db x = Some p" "quotas_low db"
  shows "\<exists>db'. drop_children x db = Some db' \<and> moo_ok db' \<and> keeps parent_rest db db' \<and> quotas_low db'
      \<and> children_are db' x [] \<and> db_object_parent db' x = Some p
      \<and> (\<forall>y. db_object_parent db' y = (if y \<in> set cs then Some p else db_object_parent db y))"
  using assms
proof (induction cs arbitrary: db)
  case Nil
  then show ?case by (subst drop_children.simps) (simp add: get_first_children)
next
  case (Cons c cs)
  from Cons.prems(3) obtain xo where xo: "dbpriv_find_object db x = Some xo" "o_parent xo = p"
    by (auto simp: db_object_parent_def)
  obtain db1 where r: "db_change_parent db c p = Some (db1, True)" "moo_ok db1" "reparented db db1 c p"
    "children_are db1 x cs" "c \<noteq> x" using hand_on_child [OF Cons.prems(1) xo(1) Cons.prems(2)] xo(2) by metis
  have cn: "c \<noteq> NOTHING" using Cons.prems(2) by (auto simp: kids_are_def dest: find_not_NOTHING)
  note others = reparented_others [OF Cons.prems(1) r(2,3)]
  have p1: "db_object_parent db1 x = Some p" using others [of x] r(5) Cons.prems(3) by auto
  from Cons.IH [OF r(2,4) p1 quotas_low_reparented [OF r(3) Cons.prems(4)]] obtain db' where
    d: "drop_children x db1 = Some db'" "moo_ok db'" "keeps parent_rest db1 db'" "quotas_low db'" "children_are db' x []"
      "db_object_parent db' x = Some p" "\<forall>y. db_object_parent db' y = (if y \<in> set cs then Some p else db_object_parent db1 y)"
    by blast
  have "drop_children x db = Some db'"
    using get_first_children [OF Cons.prems(2)] cn Cons.prems(3) r(1) d(1) by (subst drop_children.simps) simp
  moreover have "keeps parent_rest db db'" using r(3) keeps_trans [OF _ d(3)] by (simp add: reparented_def)
  moreover have "db_object_parent db' y = (if y \<in> set (c # cs) then Some p else db_object_parent db y)" for y
    using d(7) others [of y] r(3) by (auto simp: reparented_def)
  ultimately show ?case using d by blast
qed

definition place_of :: "object \<Rightarrow> objid \<times> objid" where
  "place_of ob = (o_location ob, o_contents ob)"

lemma keeps_place_of:
  "keeps parent_rest db db' \<Longrightarrow> keeps place_of db db'"
  "keeps no_values db db' \<Longrightarrow> keeps place_of db db'"
  by (erule keeps_via [where h = place_of], simp add: place_of_def parent_rest_def tree_core_def no_values_def)+

lemma no_values_parent:
  assumes "keeps no_values db db'"
  shows "db_object_parent db' y = db_object_parent db y"
proof -
  have "keeps o_parent db db'" by (rule keeps_via [OF assms, where h = o_parent]) (simp add: no_values_def)
  then show ?thesis by (simp add: keeps_def db_object_parent_def)
qed

lemma programs_ok_sub:
  assumes "programs_ok db" "\<And>y ob. dbpriv_find_object db' y = Some ob \<Longrightarrow> dbpriv_find_object db y = Some ob"
  shows "programs_ok db'"
  using assms unfolding programs_ok_def by blast

text \<open>The children go to the parent of the object, and it leaves the hierarchy.\<close>

lemma detach_ok:
  assumes ok: "moo_ok db" "quotas_low db" and x: "dbpriv_find_object db x = Some xo"
  obtains db1 db2 where "drop_children x db = Some db1" "db_change_parent db1 x NOTHING = Some (db2, True)"
    "moo_ok db2" "quotas_low db2" "keeps parent_rest db db2" "children_are db2 x []" "db_object_parent db2 x = Some NOTHING"
    "\<And>y. y \<noteq> x \<Longrightarrow> db_object_parent db2 y =
       (if db_object_parent db y = Some x then Some (o_parent xo) else db_object_parent db y)"
proof -
  note i = db_okD(3) [OF moo_okD(1) [OF ok(1)]]
  have xv: "valid db x" using x by (simp add: valid_def)
  from tree_ok_kids_ex [OF i xv] obtain cs where cs: "children_are db x cs" ..
  have par: "db_object_parent db x = Some (o_parent xo)" using x by (simp add: db_object_parent_def)
  from drop_children_ok [OF ok(1) cs par ok(2)] obtain db1 where
    d1: "drop_children x db = Some db1" "moo_ok db1" "keeps parent_rest db db1" "quotas_low db1" "children_are db1 x []"
      "\<forall>y. db_object_parent db1 y = (if y \<in> set cs then Some (o_parent xo) else db_object_parent db y)" by blast
  have xv1: "valid db1 x" using keeps_valid [OF d1(3)] xv by simp
  obtain db2 where d2: "db_change_parent db1 x NOTHING = Some (db2, True)" "moo_ok db2" "reparented db1 db2 x NOTHING"
    by (rule db_change_parent_moves [OF d1(2) xv1 _ NOTHING_outside(2) clash_free_NOTHING]) simp
  have k2: "keeps parent_rest db db2" using keeps_trans [OF d1(3)] d2(3) by (simp add: reparented_def)
  have xn: "x \<noteq> NOTHING" using xv not_valid_NOTHING by auto
  from d2(3) d1(5) xn have ch2: "children_are db2 x []" unfolding reparented_def by fastforce
  have "db_object_parent db2 y = (if db_object_parent db y = Some x then Some (o_parent xo) else db_object_parent db y)"
    if y: "y \<noteq> x" for y
  proof -
    have "y \<in> set cs \<longleftrightarrow> db_object_parent db y = Some x"
      using tree_ok_kids [OF i cs] by (auto simp: below_def db_object_parent_def)
    then show ?thesis using reparented_others [OF d1(2) d2(2,3) y] d1(6) by simp
  qed
  with that [OF d1(1) d2(1,2) quotas_low_reparented [OF d2(3) d1(4)] k2 ch2] d2(3) show thesis
    by (simp add: reparented_def)
qed

text \<open>
  The end of an object that has no contents and no location: after that its
  owner gets the quota back, and it is destroyed.
\<close>

lemma demolish_ok:
  assumes ok: "state_ok np m" "quotas_low (moo_db m)" and x: "dbpriv_find_object (moo_db m) x = Some xo"
    and alone: "o_location xo = NOTHING" "o_contents xo = NOTHING"
  obtains m' where "demolish m x = Some m'" "state_ok np m'" "moo_vm m' = moo_vm m" "\<not> valid (moo_db m') x"
    "\<And>y. y \<noteq> x \<Longrightarrow> db_object_parent (moo_db m') y =
       (if db_object_parent (moo_db m) y = Some x then Some (o_parent xo) else db_object_parent (moo_db m) y)"
proof -
  let ?db = "moo_db m"
  note S = state_okD [OF ok(1)]
  obtain db1 db2 where d: "drop_children x ?db = Some db1" "db_change_parent db1 x NOTHING = Some (db2, True)"
    "moo_ok db2" "quotas_low db2" "keeps parent_rest ?db db2" "children_are db2 x []" "db_object_parent db2 x = Some NOTHING"
    and kids: "\<And>y. y \<noteq> x \<Longrightarrow> db_object_parent db2 y =
       (if db_object_parent ?db y = Some x then Some (o_parent xo) else db_object_parent ?db y)"
    by (rule detach_ok [OF S(1) ok(2) x]) metis
  from keepsE [OF d(5) x] obtain x2 where x2: "dbpriv_find_object db2 x = Some x2" .
  then have ow: "db_object_owner db2 x = Some (o_owner x2)" by (simp add: db_object_owner_def)
  obtain db3 where d3: "incr_quota db2 (o_owner x2) = Some db3" "moo_ok db3" "keeps no_values db2 db3"
    by (rule incr_quota_ok [OF d(3), of "o_owner x2"]) (use low_quota [OF moo_okD(1) [OF d(3)] d(4)] in blast)+
  have k3: "keeps place_of ?db db3" by (rule keeps_trans [OF keeps_place_of(1) [OF d(5)] keeps_place_of(2) [OF d3(3)]])
  from keepsE [OF k3 x] obtain x3 where x3: "dbpriv_find_object db3 x = Some x3" "place_of x3 = place_of xo" .
  from keepsE [OF keeps_no_values(2) [OF d3(3)] x2] x3(1) have tl: "tree_links x3 = tree_links x2" by auto
  have "o_parent x2 = NOTHING" "o_child x2 = NOTHING" using d(6,7) x2 by (auto simp: db_object_parent_def kids_are_def)
  with tl x3(2) alone have al: "o_location x3 = NOTHING" "o_contents x3 = NOTHING" "o_parent x3 = NOTHING" "o_child x3 = NOTHING"
    by (simp_all add: tree_links_def place_of_def)
  from db_destroy_object_ok [OF moo_okD(1) [OF d3(2)] x3(1) al] obtain db4 where
    d4: "db_destroy_object db3 x = Some db4" "\<not> valid db4 x" "\<forall>y. y \<noteq> x \<longrightarrow> dbpriv_find_object db4 y = dbpriv_find_object db3 y"
    by blast
  have run: "demolish m x = Some (m\<lparr>moo_db := db4\<rparr>)" using d(1,2) d3(1) d4(1) ow by (simp add: demolish_def)
  have "programs_ok db3"
    using programs_ok_keeps [OF keeps_trans [OF keeps_verbdefs_via(2) [OF d(5)] keeps_no_values(1) [OF d3(3)]] S(3)] .
  moreover have "dbpriv_find_object db3 y = Some ob" if "dbpriv_find_object db4 y = Some ob" for y ob
    using d4(2,3) that by (cases "y = x") (auto simp: valid_def)
  ultimately have "programs_ok db4" by (rule programs_ok_sub)
  then have "state_ok np (m\<lparr>moo_db := db4\<rparr>)"
    using ok(1) moo_ok_destroy [OF d3(2) d4(1)] by (simp add: state_ok_def)
  moreover have "db_object_parent db4 y = db_object_parent db2 y" if "y \<noteq> x" for y
    using d4(3) that no_values_parent [OF d3(3), of y] by (simp add: db_object_parent_def)
  ultimately show thesis using run d4(2) kids by (intro that [of "m\<lparr>moo_db := db4\<rparr>"]) simp_all
qed

section \<open>Recycling\<close>

lemma quotas_low_same: "ptab db' = ptab db \<Longrightarrow> quotas_low db' = quotas_low db"
  by (simp add: quotas_low_def)

lemma move_to_nothing_ok:
  assumes ok: "state_ok np m" and c: "valid (moo_db m) c"
  obtains m' b where "move_to_nothing np m c = Some (m', b)" "state_ok np m'" "moved_to (moo_db m) (moo_db m') c NOTHING"
    "\<not> b \<Longrightarrow> moo_vm m' = moo_vm m" "b \<Longrightarrow> top_activ_stack (moo_vm m') = Suc (top_activ_stack (moo_vm m))"
proof -
  note S = state_okD [OF ok]
  from c obtain old where old: "db_object_location (moo_db m) c = Some old" by (auto simp: db_object_location_def elim: validE)
  obtain db1 where d: "db_change_location (moo_db m) c NOTHING = Some db1" "moo_ok db1" "moved_to (moo_db m) db1 c NOTHING"
    by (rule db_change_location_moves [OF S(1) c _ NOTHING_outside(1)]) simp
  let ?m1 = "m\<lparr>moo_db := db1\<rparr>" and ?e = "call_result (m\<lparr>moo_db := db1\<rparr>) old ''exitfunc''"
  have ok1: "state_ok np ?m1"
    using d(3) by (intro state_ok_db [OF ok d(2) keeps_verbdefs_via(1)]) (simp add: moved_to_def)
  obtain m2 where c2: "call_verb np ?m1 old ''exitfunc'' (make_arglist c) False = Some (m2, ?e)"
    "state_ok np m2" "same_objects_as ?m1 m2" "?e \<noteq> E_NONE \<Longrightarrow> moo_vm m2 = moo_vm ?m1" "?e = E_NONE \<Longrightarrow> called ?m1 m2 old ''exitfunc''"
    using call_verb_ok [OF ok1 verb_name_literals(2)] by metis
  have "move_to_nothing np m c = Some (m2, ?e = E_NONE)" using old d(1) c2(1) by (simp add: move_to_nothing_def)
  moreover have "moved_to (moo_db m) (moo_db m2) c NOTHING" using moved_to_same [OF _ c2(3)] d(3) by simp
  ultimately show thesis using c2(2,4,5) by (intro that [of m2 "?e = E_NONE"]) (simp_all add: called_def)
qed

lemma moved_to_contents:
  assumes "moved_to db db' c NOTHING" "contents_are db x (c # cs)"
  shows "contents_are db' x cs"
proof -
  have "x \<noteq> NOTHING" using assms(2) by (auto simp: kids_are_def dest: find_not_NOTHING)
  moreover have "removeAll c (c # cs) = cs" using kids_are_distinct [OF assms(2)] by simp
  ultimately show ?thesis using assms unfolding moved_to_def by (metis append_Nil2)
qed

lemma drop_contents_ok:
  assumes "state_ok np m" "contents_are (moo_db m) x cs" "quotas_low (moo_db m)"
  shows "\<exists>m' b. drop_contents np x m = Some (m', b) \<and> state_ok np m' \<and> quotas_low (moo_db m')
      \<and> keeps loc_core (moo_db m) (moo_db m')
      \<and> (if b then top_activ_stack (moo_vm m') = Suc (top_activ_stack (moo_vm m))
         else moo_vm m' = moo_vm m \<and> contents_are (moo_db m') x [])"
  using assms
proof (induction cs arbitrary: m)
  case Nil
  then show ?case
    by (intro exI [of _ m] exI [of _ False]) (subst drop_contents.simps, simp add: get_first_contents)
next
  case (Cons c cs)
  from Cons.prems(2) have cv: "valid (moo_db m) c" and cn: "c \<noteq> NOTHING"
    by (auto simp: kids_are_def valid_def dest: find_not_NOTHING)
  obtain m1 b where r: "move_to_nothing np m c = Some (m1, b)" "state_ok np m1" "moved_to (moo_db m) (moo_db m1) c NOTHING"
    "\<not> b \<Longrightarrow> moo_vm m1 = moo_vm m" "b \<Longrightarrow> top_activ_stack (moo_vm m1) = Suc (top_activ_stack (moo_vm m))"
    using move_to_nothing_ok [OF Cons.prems(1) cv] by metis
  have low: "quotas_low (moo_db m1)" using Cons.prems(3) r(3) by (simp add: quotas_low_def moved_to_def)
  have k: "keeps loc_core (moo_db m) (moo_db m1)" using r(3) by (simp add: moved_to_def)
  have step: "drop_contents np x m = (if b then Some (m1, True) else drop_contents np x m1)"
    using get_first_contents [OF Cons.prems(2)] cn r(1) by (subst drop_contents.simps) simp
  show ?case
  proof (cases b)
    case True
    with step r k low show ?thesis by auto
  next
    case False
    from Cons.IH [OF r(2) moved_to_contents [OF r(3) Cons.prems(2)] low] obtain m' b' where
      "drop_contents np x m1 = Some (m', b')" "state_ok np m'" "quotas_low (moo_db m')" "keeps loc_core (moo_db m1) (moo_db m')"
      "if b' then top_activ_stack (moo_vm m') = Suc (top_activ_stack (moo_vm m1))
       else moo_vm m' = moo_vm m1 \<and> contents_are (moo_db m') x []" by blast
    with step False r(4) keeps_trans [OF k] show ?thesis by (intro exI [of _ m'] exI [of _ b']) auto
  qed
qed

text \<open>
  Recycling either calls a verb, to be asked again when that has returned, or
  destroys the object; its children are then the children of its parent.
\<close>

definition recycle_goes :: "program \<Rightarrow> moo \<Rightarrow> moo \<Rightarrow> package \<Rightarrow> objid \<Rightarrow> bool" where
  "recycle_goes np m m' p x \<longleftrightarrow> state_ok np m' \<and>
     (p = make_call_pack 2 (Obj_data x) \<and> valid (moo_db m') x
        \<and> top_activ_stack (moo_vm m') = Suc (top_activ_stack (moo_vm m))
        \<and> (\<forall>y. db_object_parent (moo_db m') y = db_object_parent (moo_db m) y)
      \<or> p = no_var_pack \<and> \<not> valid (moo_db m') x \<and> moo_vm m' = moo_vm m
        \<and> (\<forall>y. y \<noteq> x \<longrightarrow> db_object_parent (moo_db m') y =
             (if db_object_parent (moo_db m) y = Some x then db_object_parent (moo_db m) x
              else db_object_parent (moo_db m) y)))"

lemma loc_core_parent:
  assumes "keeps loc_core db db'"
  shows "db_object_parent db' y = db_object_parent db y"
proof -
  have "keeps o_parent db db'" by (rule keeps_via [OF assms, where h = o_parent]) (simp add: loc_core_def)
  then show ?thesis by (simp add: keeps_def db_object_parent_def)
qed

lemma empty_place:
  assumes "dbpriv_find_object db x = Some xo" "contents_are db x []" "db_object_location db x = Some NOTHING"
  shows "o_location xo = NOTHING" "o_contents xo = NOTHING"
  using assms by (auto simp: kids_are_def db_object_location_def)

text \<open>The step between: an object without contents leaves its location.\<close>

lemma leave_location_ok:
  assumes ok: "state_ok np m" "quotas_low (moo_db m)" and c: "contents_are (moo_db m) x []"
    and l: "db_object_location (moo_db m) x = Some l"
  obtains m' b where "(if l \<noteq> NOTHING then move_to_nothing np m x else Some (m, False)) = Some (m', b)"
    "state_ok np m'" "quotas_low (moo_db m')" "keeps loc_core (moo_db m) (moo_db m')" "contents_are (moo_db m') x []"
    "db_object_location (moo_db m') x = Some NOTHING"
    "if b then top_activ_stack (moo_vm m') = Suc (top_activ_stack (moo_vm m)) else moo_vm m' = moo_vm m"
proof (cases "l = NOTHING")
  case True
  with ok c l show thesis by (intro that [of m False]) simp_all
next
  case False
  have x: "valid (moo_db m) x" using l by (auto simp: valid_def db_object_location_def)
  obtain m2 b2 where t: "move_to_nothing np m x = Some (m2, b2)" "state_ok np m2" "moved_to (moo_db m) (moo_db m2) x NOTHING"
    "\<not> b2 \<Longrightarrow> moo_vm m2 = moo_vm m" "b2 \<Longrightarrow> top_activ_stack (moo_vm m2) = Suc (top_activ_stack (moo_vm m))"
    using move_to_nothing_ok [OF ok(1) x] by metis
  have "x \<noteq> NOTHING" using x not_valid_NOTHING by auto
  with t(3) c have "contents_are (moo_db m2) x []" unfolding moved_to_def by fastforce
  moreover have "quotas_low (moo_db m2)" using ok(2) t(3) by (simp add: quotas_low_def moved_to_def)
  ultimately show thesis using False t by (intro that [of m2 b2]) (simp_all add: moved_to_def)
qed

lemma recycle_contents_ok:
  assumes ok: "state_ok np m" "quotas_low (moo_db m)" and x: "valid (moo_db m) x"
  shows "\<exists>m' p. recycle_contents np m x = Some (m', p) \<and> recycle_goes np m m' p x"
proof -
  note S = state_okD [OF ok(1)]
  from tree_ok_kids_ex [OF db_okD(4) [OF S(5)] x] obtain cs where "contents_are (moo_db m) x cs" ..
  from drop_contents_ok [OF ok(1) this ok(2)] obtain m1 b where
    r: "drop_contents np x m = Some (m1, b)" "state_ok np m1" "quotas_low (moo_db m1)" "keeps loc_core (moo_db m) (moo_db m1)"
    and b: "if b then top_activ_stack (moo_vm m1) = Suc (top_activ_stack (moo_vm m))
         else moo_vm m1 = moo_vm m \<and> contents_are (moo_db m1) x []" by blast
  have x1: "valid (moo_db m1) x" using keeps_valid [OF r(4)] x by simp
  note par1 = loc_core_parent [OF r(4)]
  show ?thesis
  proof (cases b)
    case True
    with x r(1,2) x1 b par1 show ?thesis by (simp add: recycle_contents_def recycle_goes_def)
  next
    case False
    with b have c1: "contents_are (moo_db m1) x []" and vm1: "moo_vm m1 = moo_vm m" by simp_all
    from x1 obtain l where l: "db_object_location (moo_db m1) x = Some l" by (auto simp: db_object_location_def elim: validE)
    obtain m2 b2 where t: "(if l \<noteq> NOTHING then move_to_nothing np m1 x else Some (m1, False)) = Some (m2, b2)"
       "state_ok np m2" "quotas_low (moo_db m2)" "keeps loc_core (moo_db m1) (moo_db m2)" "contents_are (moo_db m2) x []"
       "db_object_location (moo_db m2) x = Some NOTHING"
       "if b2 then top_activ_stack (moo_vm m2) = Suc (top_activ_stack (moo_vm m1)) else moo_vm m2 = moo_vm m1"
      by (rule leave_location_ok [OF r(2,3) c1 l])
    have x2: "valid (moo_db m2) x" using keeps_valid [OF t(4)] x1 by simp
    then obtain xo where xo: "dbpriv_find_object (moo_db m2) x = Some xo" by (rule validE)
    have par2: "db_object_parent (moo_db m2) y = db_object_parent (moo_db m) y" for y
      using loc_core_parent [OF t(4)] par1 by simp
    obtain m3 where d: "demolish m2 x = Some m3" "state_ok np m3" "moo_vm m3 = moo_vm m2" "\<not> valid (moo_db m3) x"
      "\<And>y. y \<noteq> x \<Longrightarrow> db_object_parent (moo_db m3) y =
         (if db_object_parent (moo_db m2) y = Some x then Some (o_parent xo) else db_object_parent (moo_db m2) y)"
      using demolish_ok [OF t(2,3) xo empty_place [OF xo t(5,6)]] by metis
    have "Some (o_parent xo) = db_object_parent (moo_db m) x" using xo par2 [of x] by (simp add: db_object_parent_def)
    with x r(1) False l t(1,2,7) x2 vm1 par2 d show ?thesis
      by (cases b2) (simp_all add: recycle_contents_def recycle_goes_def)
  qed
qed

lemma recycle_goes_after:
  assumes "same_objects_as m m1" "moo_vm m1 = moo_vm m" "recycle_goes np m1 m' p x"
  shows "recycle_goes np m m' p x"
proof -
  have p: "db_object_parent (moo_db m1) = db_object_parent (moo_db m)"
    using assms(1) by (simp add: same_objects_as_def db_object_parent_def fun_eq_iff)
  from assms(3) show ?thesis unfolding recycle_goes_def assms(2) p .
qed

lemma bf_recycle_ok:
  assumes ok: "state_ok np m" "quotas_low (moo_db m)" and x: "valid (moo_db m) x"
    and c: "controls (moo_db m) progr x = Some True"
  shows "\<exists>m' p. bf_recycle np m (TYPE_LIST (TYPE_OBJ x # rest)) 1 data progr = Some (m', p) \<and> recycle_goes np m m' p x"
proof -
  let ?e = "call_result m x ''recycle''"
  obtain m1 where c1: "call_verb np m x ''recycle'' [] False = Some (m1, ?e)" "state_ok np m1" "same_objects_as m m1"
    "?e \<noteq> E_NONE \<Longrightarrow> moo_vm m1 = moo_vm m" "?e = E_NONE \<Longrightarrow> called m m1 x ''recycle''"
    using call_verb_ok [OF ok(1) verb_name_literals(5)] by metis
  have x1: "valid (moo_db m1) x" using same_objects_rest(2) [OF c1(3)] x by simp
  show ?thesis
  proof (cases "?e = E_NONE")
    case True
    have "db_object_parent (moo_db m1) = db_object_parent (moo_db m)"
      using c1(3) by (simp add: same_objects_as_def db_object_parent_def fun_eq_iff)
    with True c1 x x1 c show ?thesis by (simp add: bf_recycle_def recycle_goes_def called_def)
  next
    case False
    have "quotas_low (moo_db m1)" using ok(2) quotas_low_same [OF same_objects_rest(6) [OF c1(3)]] by simp
    from recycle_contents_ok [OF c1(2) this x1] obtain m' p where
      "recycle_contents np m1 x = Some (m', p)" "recycle_goes np m1 m' p x" by blast
    with False c1(1) x c recycle_goes_after [OF c1(3) c1(4) [OF False]] show ?thesis by (auto simp: bf_recycle_def)
  qed
qed

section \<open>Creating\<close>

definition created :: "moo \<Rightarrow> moo \<Rightarrow> objid \<Rightarrow> objid \<Rightarrow> objid \<Rightarrow> bool" where
  "created m m' x parent owner \<longleftrightarrow> \<not> valid (moo_db m) x \<and> valid (moo_db m') x
   \<and> db_object_parent (moo_db m') x = Some parent \<and> db_object_name (moo_db m') x = Some []
   \<and> db_object_owner (moo_db m') x = Some (if owner = NOTHING then x else owner)
   \<and> db_object_location (moo_db m') x = Some NOTHING
   \<and> (\<forall>y. y \<noteq> x \<longrightarrow> valid (moo_db m') y = valid (moo_db m) y
        \<and> db_object_parent (moo_db m') y = db_object_parent (moo_db m) y)"

lemma create_blank:
  assumes "db_create_object junk db = Some (db', n)" "dbpriv_find_object db' n = Some ob"
  shows "o_child ob = NOTHING" "pl_l (o_propdefs ob) = []"
proof -
  have "objects db' n = Some ob" using assms(2) by (auto simp: dbpriv_find_object_def split: if_splits)
  with assms(1) show "o_child ob = NOTHING" "pl_l (o_propdefs ob) = []"
    by (auto simp: db_create_object_def dbpriv_new_object_def Let_def modify_obj_def bind_eq_Some_conv)
qed

lemma childless_fresh:
  assumes ok: "inherit_ok db" and n: "dbpriv_find_object db n = Some ob" "o_child ob = NOTHING" "pl_l (o_propdefs ob) = []"
    and q: "q \<noteq> n"
  shows "q \<notin> desc db n" "clash_free db n q"
proof -
  have only: "y = n" if "y \<in> desc db n" for y
    using that childless_off_chain [OF ok n(1,2)] unfolding desc_def by blast
  then show "q \<notin> desc db n" using q by blast
  have "\<not> defines_prop db n nm" for nm using n by (simp add: defines_prop_def propdefs_of_def)
  then show "clash_free db n q" unfolding clash_free_def using only by blast
qed

text \<open>A new object with its name, owner and parent.\<close>

lemma new_object_ok:
  assumes ok: "moo_ok db" "programs_ok db" and par: "parent = NOTHING \<or> valid db parent"
  obtains n db1 db2 db3 db' where "db_create_object junk db = Some (db1, n)" "db_set_object_name db1 n [] = Some db2"
    "db_set_object_owner db2 n (if owner = NOTHING then n else owner) = Some db3" "db_change_parent db3 n parent = Some (db', True)"
    "moo_ok db'" "programs_ok db'" "\<not> valid db n" "n = num_objects db"
    "\<And>m. created (m\<lparr>moo_db := db\<rparr>) (m\<lparr>moo_db := db'\<rparr>) n parent owner"
proof -
  from db_create_object_ok [OF moo_okD(1) [OF ok(1)], of junk] obtain db1 ob n where
    c: "db_create_object junk db = Some (db1, n)" "\<not> valid db n" "n = num_objects db"
    "\<forall>y. dbpriv_find_object db1 y = (if y = n then Some ob else dbpriv_find_object db y)"
    "o_parent ob = NOTHING" "o_location ob = NOTHING" "o_verbdefs ob = []" by metis
  have ok1: "moo_ok db1" by (rule moo_ok_create [OF ok(1) c(1)])
  have f1: "dbpriv_find_object db1 n = Some ob" using c(4) by simp
  note blank = create_blank [OF c(1) f1]
  let ?ow = "if owner = NOTHING then n else owner"
  define o2 where "o2 = ob\<lparr>o_name := []\<rparr>"
  define db2 where "db2 = db1\<lparr>objects := (objects db1)(n \<mapsto> o2)\<rparr>"
  define o3 where "o3 = o2\<lparr>o_owner := ?ow\<rparr>"
  define db3 where "db3 = db2\<lparr>objects := (objects db2)(n \<mapsto> o3)\<rparr>"
  have s2: "db_set_object_name db1 n [] = Some db2" using f1 by (simp add: db_set_object_name_def modify_obj_Some db2_def o2_def)
  have f2: "dbpriv_find_object db2 y = (if y = n then Some o2 else dbpriv_find_object db y)" for y
    using f1 c(4) by (auto simp: db2_def)
  have s3: "db_set_object_owner db2 n ?ow = Some db3"
    using f2 [of n] by (simp add: db_set_object_owner_def modify_obj_Some db3_def o3_def)
  have f3: "dbpriv_find_object db3 y = (if y = n then Some o3 else dbpriv_find_object db y)" for y
    using f2 by (auto simp: db3_def)
  have ok3: "moo_ok db3" using moo_ok_name_owner [OF moo_ok_name_owner [OF ok1 disjI1 [OF s2]] disjI2 [OF s3]] .
  have q: "parent \<noteq> n" using par c(2,3) db_okD(1) [OF moo_okD(1) [OF ok(1)]] by (auto simp: NOTHING_def)
  have fr: "parent \<notin> desc db3 n" "clash_free db3 n parent"
    by (rule childless_fresh [OF db_okD(3) [OF moo_okD(1) [OF ok3]], of n o3];
        use f3 [of n] blank q in \<open>simp add: o3_def o2_def\<close>)+
  have v3: "valid db3 n" "parent = NOTHING \<or> valid db3 parent" using par f3 by (auto simp: valid_def)
  from db_change_parent_moves [OF ok3 v3 fr] obtain db' where
    d: "db_change_parent db3 n parent = Some (db', True)" "moo_ok db'" "reparented db3 db' n parent" .
  have k: "keeps parent_rest db3 db'" using d(3) by (simp add: reparented_def)
  have f3n: "dbpriv_find_object db3 n = Some o3" using f3 by simp
  from keepsE [OF k f3n] obtain o' where o': "dbpriv_find_object db' n = Some o'" "parent_rest o' = parent_rest o3" .
  have at: "o_name o' = []" "o_owner o' = ?ow" "o_location o' = NOTHING"
    using arg_cong [OF o'(2), of o_name] arg_cong [OF o'(2), of o_owner] arg_cong [OF o'(2), of o_location] c(6)
    by (simp_all add: parent_rest_def tree_core_def o3_def o2_def)
  have "programs_ok db3" using ok(2) f3 c(7) by (auto simp: programs_ok_def o3_def o2_def)
  then have "programs_ok db'" by (rule programs_ok_keeps [OF keeps_verbdefs_via(2) [OF k]])
  moreover have "created (m\<lparr>moo_db := db\<rparr>) (m\<lparr>moo_db := db'\<rparr>) n parent owner" for m
  proof -
    have "valid db' y = valid db y \<and> db_object_parent db' y = db_object_parent db y" if "y \<noteq> n" for y
      using that reparented_others [OF ok3 d(2,3) that] keeps_valid [OF k, of y] f3 [of y]
      by (simp add: valid_def db_object_parent_def)
    with at o'(1) c(2) d(3) show ?thesis
      by (simp add: created_def valid_def db_object_name_def db_object_owner_def db_object_location_def reparented_def)
  qed
  ultimately show thesis using c(1-3) s2 s3 d(1,2) by (intro that)
qed

end
