(* ===== verification/BfCreate.thy ===== *)
theory BfCreate
  imports BfRecycle
begin

text \<open>What \<^verbatim>\<open>create()\<close> guarantees.\<close>

definition create_refusal :: "db \<Rightarrow> objid \<Rightarrow> objid \<Rightarrow> objid \<Rightarrow> error option" where
  "create_refusal db parent owner progr =
     (if may_create db parent owner progr \<noteq> Some True then Some E_PERM
      else if valid db owner \<and> (case quota_of db owner of Some n \<Rightarrow> n \<le> 0 | None \<Rightarrow> False) then Some E_QUOTA
      else None)"

lemma may_create_total: "\<exists>b. may_create db parent owner progr = Some b"
  using allows_total [of db parent progr FLAG_FERTILE] by (auto simp: may_create_def)

lemma may_create_parent:
  "may_create db parent owner progr = Some True \<Longrightarrow> parent = NOTHING \<or> valid db parent"
  by (auto simp: may_create_def split: if_splits)

definition create_args :: "objid \<Rightarrow> objid option \<Rightarrow> var" where
  "create_args parent owner = TYPE_LIST (TYPE_OBJ parent # (case owner of None \<Rightarrow> [] | Some w \<Rightarrow> [TYPE_OBJ w]))"

definition the_owner :: "objid option \<Rightarrow> objid \<Rightarrow> objid" where
  "the_owner ow progr = (case ow of None \<Rightarrow> progr | Some w \<Rightarrow> w)"

lemma bf_create_unfold:
  "bf_create np junk m (create_args parent ow) 1 data progr =
     do { ok \<leftarrow> may_create (moo_db m) parent (the_owner ow progr) progr;
          if \<not> ok then Some (m, make_error_pack E_PERM)
          else do {
            (db1, enough) \<leftarrow> (if valid (moo_db m) (the_owner ow progr) then decr_quota (moo_db m) (the_owner ow progr)
                              else Some (moo_db m, True));
            if \<not> enough then Some (m\<lparr>moo_db := db1\<rparr>, make_error_pack E_QUOTA)
            else do {
              (db2, oid) \<leftarrow> db_create_object junk db1;
              db3 \<leftarrow> db_set_object_name db2 oid [];
              db4 \<leftarrow> db_set_object_owner db3 oid (if the_owner ow progr = NOTHING then oid else the_owner ow progr);
              (db5, _) \<leftarrow> db_change_parent db4 oid parent;
              (m1, e) \<leftarrow> call_verb np (m\<lparr>moo_db := db5\<rparr>) oid ''initialize'' [] False;
              Some (m1, if e = E_NONE then make_call_pack 2 (Obj_data oid)
                        else if e = E_MAXREC then make_error_pack e
                        else make_var_pack (TYPE_OBJ oid)) } } }"
proof -
  have "(case (case ow of None \<Rightarrow> [] | Some w \<Rightarrow> [TYPE_OBJ w]) of
      [] \<Rightarrow> Some progr | TYPE_OBJ w # _ \<Rightarrow> Some w | _ \<Rightarrow> None) = Some (the_owner ow progr)"
    by (cases ow) (simp_all add: the_owner_def)
  then show ?thesis by (simp add: bf_create_def create_args_def)
qed

lemma modify_obj_count: "modify_obj db x f = Some db' \<Longrightarrow> num_objects db' = num_objects db"
  by (auto simp: modify_obj_def bind_eq_Some_conv)

lemma quota_keeps_count:
  assumes "decr_quota db p = Some (db', b)" "db_ok db"
  shows "num_objects db' = num_objects db"
proof (cases "valid db p")
  case True
  show ?thesis
    by (cases rule: quota_lookup [OF assms(2) True]) (use True assms(1) in \<open>auto simp: decr_quota_def modify_slot_def
        bind_eq_Some_conv dest: modify_obj_count split: if_splits var.splits\<close>)
qed (use assms(1) in \<open>simp add: decr_quota_def\<close>)

lemma quota_step:
  assumes ok: "moo_ok db"
  obtains db1 b where "(if valid db owner then decr_quota db owner else Some (db, True)) = Some (db1, b)"
    "moo_ok db1" "keeps no_values db db1" "\<not> b \<Longrightarrow> db1 = db"
    "\<not> b \<longleftrightarrow> valid db owner \<and> (case quota_of db owner of Some n \<Rightarrow> n \<le> 0 | None \<Rightarrow> False)"
    "valid db owner \<Longrightarrow> quota_of db1 owner = map_option (\<lambda>n. if 0 < n then n - 1 else n) (quota_of db owner)"
proof (cases "valid db owner")
  case True
  obtain db1 b where "decr_quota db owner = Some (db1, b)" "moo_ok db1" "keeps no_values db db1"
    "b \<longleftrightarrow> (case quota_of db owner of Some n \<Rightarrow> 0 < n | None \<Rightarrow> True)" "b \<or> db1 = db"
    "quota_of db1 owner = map_option (\<lambda>n. if 0 < n then n - 1 else n) (quota_of db owner)"
    by (rule decr_quota_ok [OF ok, of owner]) blast
  with True show thesis by (intro that [of db1 b]) (auto split: option.splits)
next
  case False
  with ok show thesis by (intro that [of db True]) simp_all
qed

lemma created_values:
  assumes "created m1 m2 x parent owner" "keeps no_values (moo_db m) (moo_db m1)"
  shows "created m m2 x parent owner"
  using assms(1) keeps_valid [OF assms(2)] no_values_parent [OF assms(2)] by (simp add: created_def)

lemma created_same:
  assumes "created m m1 x parent owner" "same_objects_as m1 m2"
  shows "created m m2 x parent owner"
proof -
  have f: "dbpriv_find_object (moo_db m2) = dbpriv_find_object (moo_db m1)" using assms(2) by (simp add: same_objects_as_def)
  show ?thesis using assms(1) unfolding created_def valid_def db_object_parent_def db_object_name_def
      db_object_owner_def db_object_location_def f .
qed

lemma bf_create_ok:
  assumes ok: "state_ok np m" and owner: "owner = the_owner ow progr"
  shows "case create_refusal (moo_db m) parent owner progr of
     Some e \<Rightarrow> bf_create np junk m (create_args parent ow) 1 data progr = Some (m, make_error_pack e)
   | None \<Rightarrow> \<exists>m' x p. bf_create np junk m (create_args parent ow) 1 data progr = Some (m', p)
        \<and> state_ok np m' \<and> x = num_objects (moo_db m) \<and> created m m' x parent owner
        \<and> p \<in> {make_call_pack 2 (Obj_data x), make_error_pack E_MAXREC, make_var_pack (TYPE_OBJ x)}"
proof -
  note S = state_okD [OF ok]
  obtain b where b: "may_create (moo_db m) parent owner progr = Some b" using may_create_total by blast
  obtain db1 e where q: "(if valid (moo_db m) owner then decr_quota (moo_db m) owner else Some (moo_db m, True)) = Some (db1, e)"
    "moo_ok db1" "keeps no_values (moo_db m) db1" "e \<or> db1 = moo_db m"
    "\<not> e \<longleftrightarrow> valid (moo_db m) owner \<and> (case quota_of (moo_db m) owner of Some n \<Rightarrow> n \<le> 0 | None \<Rightarrow> False)"
    by (rule quota_step [OF S(1), of owner]) blast
  note unf = bf_create_unfold [of np junk m parent ow data progr, folded owner]
  show ?thesis
  proof (cases "b \<and> e")
    case False
    have "create_refusal (moo_db m) parent owner progr = Some (if \<not> b then E_PERM else E_QUOTA)"
      using False b q(5) by (auto simp: create_refusal_def)
    moreover have "bf_create np junk m (create_args parent ow) 1 data progr
        = Some (m, make_error_pack (if \<not> b then E_PERM else E_QUOTA))"
      unfolding unf using False b q(1,4) by (cases b) simp_all
    ultimately show ?thesis by simp
  next
    case True
    then have be: b e by simp_all
    have p1: "parent = NOTHING \<or> valid db1 parent"
      using may_create_parent [of "moo_db m" parent owner progr] b be keeps_valid [OF q(3)] by simp
    have pr1: "programs_ok db1" by (rule programs_ok_keeps [OF keeps_no_values(1) [OF q(3)] S(3)])
    obtain n db2 db3 db4 db5 where d: "db_create_object junk db1 = Some (db2, n)" "db_set_object_name db2 n [] = Some db3"
      "db_set_object_owner db3 n (if owner = NOTHING then n else owner) = Some db4" "db_change_parent db4 n parent = Some (db5, True)"
      "moo_ok db5" "programs_ok db5" "n = num_objects db1" "created (m\<lparr>moo_db := db1\<rparr>) (m\<lparr>moo_db := db5\<rparr>) n parent owner"
      by (rule new_object_ok [OF q(2) pr1 p1, of junk owner]) metis
    have ok5: "state_ok np (m\<lparr>moo_db := db5\<rparr>)" using ok d(5,6) by (simp add: state_ok_def)
    let ?e = "call_result (m\<lparr>moo_db := db5\<rparr>) n ''initialize''"
    obtain m6 where c: "call_verb np (m\<lparr>moo_db := db5\<rparr>) n ''initialize'' [] False = Some (m6, ?e)" "state_ok np m6"
      "same_objects_as (m\<lparr>moo_db := db5\<rparr>) m6" using call_verb_ok [OF ok5 verb_name_literals(4)] by metis
    have "created m (m\<lparr>moo_db := db5\<rparr>) n parent owner" by (rule created_values [OF d(8)]) (use q(3) in simp)
    from created_same [OF this c(3)] have cr: "created m m6 n parent owner" .
    have n: "n = num_objects (moo_db m)" using d(7) q(1) S(5) by (auto dest: quota_keeps_count split: if_splits)
    have "create_refusal (moo_db m) parent owner progr = None" using b q(5) be by (auto simp: create_refusal_def)
    moreover have "bf_create np junk m (create_args parent ow) 1 data progr = Some (m6,
        if ?e = E_NONE then make_call_pack 2 (Obj_data n) else if ?e = E_MAXREC then make_error_pack ?e
        else make_var_pack (TYPE_OBJ n))" unfolding unf using b be q(1) d(1-4) c(1) by simp
    ultimately show ?thesis using cr c(2) n by auto
  qed
qed

end
