(* ===== verification/Example.thy ===== *)
theory Example
  imports DbOk
begin

text \<open>
  A small database on which the hypotheses of the statements about the
  database hold: \<open>#0\<close> defines the property \<open>size\<close> and the verb \<open>l*ook\<close>; \<open>#1\<close>, a player and wizard, and
  \<open>#2\<close>, a room with the verb \<open>open\<close>, are its children, \<open>#1\<close> is in \<open>#2\<close>, and \<open>#3\<close> stands alone.
\<close>

definition sample_pval :: "var \<Rightarrow> objid \<Rightarrow> pval" where
  "sample_pval v ow = \<lparr>pv_var = v, pv_owner = ow, pv_perms = 5\<rparr>"

definition sample_object :: object where
  "sample_object = \<lparr>o_id = 3, o_owner = 1, o_location = NOTHING, o_contents = NOTHING, o_next = NOTHING,
     o_parent = NOTHING, o_child = NOTHING, o_sibling = NOTHING, o_name = ''thing'', o_flags = 0,
     o_verbdefs = [], o_propdefs = \<lparr>pl_max_length = 0, pl_l = []\<rparr>, o_propval = []\<rparr>"

definition sample0 :: object where
  "sample0 = sample_object\<lparr>o_id := 0, o_child := 1, o_name := ''root'',
     o_verbdefs := [\<lparr>vd_name = ''l*ook'', vd_program = None, vd_owner = 1, vd_perms = 0x0D, vd_prep = -1\<rparr>],
     o_propdefs := \<lparr>pl_max_length = 8, pl_l = [dbpriv_new_propdef ''size'']\<rparr>,
     o_propval := [sample_pval (TYPE_INT 7) 1]\<rparr>"

definition sample1 :: object where
  "sample1 = sample_object\<lparr>o_id := 1, o_parent := 0, o_sibling := 2, o_location := 2, o_name := ''wizard'',
     o_flags := 7, o_propval := [sample_pval TYPE_CLEAR 1]\<rparr>"

definition sample2 :: object where
  "sample2 = sample_object\<lparr>o_id := 2, o_parent := 0, o_contents := 1, o_name := ''room'',
     o_verbdefs := [\<lparr>vd_name = ''open'', vd_program = None, vd_owner = 1, vd_perms = 0x0D, vd_prep = -1\<rparr>],
     o_propval := [sample_pval (TYPE_STR ''big'') 1]\<rparr>"

definition sample_db :: db where
  "sample_db = \<lparr>objects = [0 \<mapsto> sample0, 1 \<mapsto> sample1, 2 \<mapsto> sample2, 3 \<mapsto> sample_object],
     num_objects = 4, max_objects = 100, all_users = [TYPE_OBJ 1], vc_table = None,
     db_verb_generation = 0, verbcache_hit = 0, verbcache_neg_hit = 0, verbcache_miss = 0\<rparr>"

lemma sample_find:
  "dbpriv_find_object sample_db y =
     (if y = 0 then Some sample0 else if y = 1 then Some sample1 else if y = 2 then Some sample2
      else if y = 3 then Some sample_object else None)"
  by (simp add: dbpriv_find_object_def sample_db_def)

lemma sample_valid: "valid sample_db y \<longleftrightarrow> y = 0 \<or> y = 1 \<or> y = 2 \<or> y = 3"
  by (simp add: valid_def sample_find)

lemmas sample_objects = sample0_def sample1_def sample2_def sample_object_def NOTHING_def

definition sample_line :: "objid \<Rightarrow> objid list" where
  "sample_line x = (if x = 1 then [1, 0] else if x = 2 then [2, 0] else [x])"

definition sample_path :: "objid \<Rightarrow> objid list" where
  "sample_path x = (if x = 1 then [1, 2] else [x])"

lemma sample_lines: "valid sample_db x \<Longrightarrow> chain o_parent sample_db x (sample_line x)"
  and sample_paths: "valid sample_db x \<Longrightarrow> chain o_location sample_db x (sample_path x)"
  by (auto simp: sample_valid sample_line_def sample_path_def sample_find sample_objects)

lemma tree_okI:
  assumes "\<And>x. valid db x \<Longrightarrow> chain up db x (A x)" "\<And>x. valid db x \<Longrightarrow> kids_are first nx db x (K x)"
    "\<And>x. valid db x \<Longrightarrow> set (K x) = below up db x"
  shows "tree_ok first nx up db"
  unfolding tree_ok_def using assms by blast

lemma sample_inherit_ok: "inherit_ok sample_db"
proof (rule tree_okI)
  fix x assume x: "valid sample_db x"
  then show "chain o_parent sample_db x (sample_line x)" by (rule sample_lines)
  show "kids_are o_child o_sibling sample_db x (if x = 0 then [1, 2] else [])"
    using x by (auto simp: sample_valid kids_are_def sample_find sample_objects)
  show "set (if x = 0 then [1, 2] else []) = below o_parent sample_db x"
    using x by (auto simp: sample_valid below_def sample_find sample_objects)
qed

lemma sample_place_ok: "place_ok sample_db"
proof (rule tree_okI)
  fix x assume x: "valid sample_db x"
  then show "chain o_location sample_db x (sample_path x)" by (rule sample_paths)
  show "kids_are o_contents o_next sample_db x (if x = 2 then [1] else [])"
    using x by (auto simp: sample_valid kids_are_def sample_find sample_objects)
  show "set (if x = 2 then [1] else []) = below o_location sample_db x"
    using x by (auto simp: sample_valid below_def sample_find sample_objects)
qed

lemma sample_slots:
  "valid sample_db y \<Longrightarrow> slots sample_db y = (if y = 3 then [] else [(0, dbpriv_new_propdef ''size'')])"
  using sample_lines [THEN chain_from_eq, of y]
  by (auto simp: sample_valid slots_def sample_line_def propdefs_of_def sample_find sample_objects)

lemma sample_builtin: "find_builtin ''size'' = None" "nul_free ''size''"
  by code_simp+

lemma sample_props_ok: "props_ok sample_db"
  using sample_slots [of 0] sample_slots [of 1] sample_slots [of 2] sample_slots [of 3] sample_builtin
  by (auto simp: sample_valid props_ok_def props_ok_at_def sample_find sample_objects pd_ok_def dbpriv_new_propdef_def
      cur_length_def sample_pval_def split: if_splits)

lemma sample_is_user: "is_user sample_db y \<longleftrightarrow> y = 1"
  by (auto simp: is_user_def db_object_has_flag_def sample_valid sample_find sample_objects FLAG_USER_def)

lemma sample_users_ok: "users_ok sample_db"
  by (simp add: users_ok_def sample_is_user) (simp add: sample_db_def)

lemma sample_ok: "db_ok sample_db"
  using sample_inherit_ok sample_place_ok sample_props_ok sample_users_ok
  by (simp add: db_ok_def) (simp add: sample_db_def)

lemma below_lines:
  assumes "\<And>x. valid db x \<Longrightarrow> chain up db x (A x)"
  shows "{y. \<exists>as. chain up db y as \<and> x \<in> set as} = {y. valid db y \<and> x \<in> set (A y)}"
proof -
  have "(\<exists>as. chain up db y as \<and> x \<in> set as) \<longleftrightarrow> valid db y \<and> x \<in> set (A y)" for y
  proof
    assume "\<exists>as. chain up db y as \<and> x \<in> set as"
    then obtain as where as: "chain up db y as" "x \<in> set as" by blast
    then have v: "valid db y" by (cases as) (auto simp: valid_def)
    with assms chain_unique as show "valid db y \<and> x \<in> set (A y)" by metis
  qed (use assms in blast)
  then show ?thesis by blast
qed

lemma sample_desc: "desc sample_db x = {y. valid sample_db y \<and> x \<in> set (sample_line y)}"
  unfolding desc_def by (rule below_lines) (rule sample_lines)

lemma sample_inside: "inside sample_db x = {y. valid sample_db y \<and> x \<in> set (sample_path y)}"
  unfolding inside_def by (rule below_lines) (rule sample_paths)

lemma sample_desc_eqs:
  "desc sample_db 0 = {0, 1, 2}" "desc sample_db 1 = {1}" "desc sample_db 2 = {2}" "desc sample_db 3 = {3}"
  by (auto simp: sample_desc sample_valid sample_line_def split: if_splits)

lemma sample_ancestors: "valid sample_db x \<Longrightarrow> chain_from o_parent sample_db x = sample_line x"
  using sample_lines chain_from_eq by blast

lemma sample_defines:
  "defines_prop sample_db x name \<longleftrightarrow> x = 0 \<and> fold_case name = fold_case ''size''"
  by (auto simp: defines_prop_def propdefs_of_def sample_find sample_objects dbpriv_new_propdef_def)

lemma sample_names:
  "find_builtin ''hue'' = None" "nul_free ''hue''" "fold_case ''hue'' \<noteq> fold_case ''size''"
  "nul_free ''SIZE''" "fold_case ''SIZE'' = fold_case ''size''" "find_builtin ''SIZE'' = None"
  by code_simp+

lemma sample_can_define: "can_define sample_db 0 ''hue''"
  using sample_names by (simp add: can_define_def sample_valid sample_defines)

end
