(* ===== verification/ExampleMoo.thy ===== *)
theory ExampleMoo
  imports BfCreate Example
begin

text \<open>A running server on the small database: one activation of a verb of the wizard \<open>#1\<close>.\<close>

definition sample_program :: program where
  "sample_program = \<lparr>prog_version = 4, prog_first_lineno = 1,
     prog_main_vector = \<lparr>bc_numbytes_label = 1, bc_numbytes_literal = 1, bc_numbytes_fork = 1,
       bc_numbytes_var_name = 1, bc_numbytes_stack = 1, bc_vector = [], bc_max_stack = 1\<rparr>,
     prog_literals = [], prog_fork_vectors = [], prog_var_names = replicate 18 ''v''\<rparr>"

definition sample_activ :: activation where
  "sample_activ = \<lparr>a_prog = sample_program, a_rt_env = replicate 18 TYPE_NONE, a_rt_stack = [], a_rt_stack_size = 1,
     a_pc = 0, a_error_pc = 0, a_bi_func_pc = 0, a_bi_func_id = 0, a_bi_func_data = No_data, a_temp = TYPE_NONE,
     a_this = 2, a_player = 1, a_progr = 1, a_vloc = 2, a_verb = ''open'', a_verbname = ''open'', a_debug = True\<rparr>"

definition sample_moo :: moo where
  "sample_moo = \<lparr>moo_db = sample_db,
     moo_vm = \<lparr>activ_stack = replicate 50 sample_activ, max_stack_size = 50, top_activ_stack = 0\<rparr>,
     moo_boots = []\<rparr>"

lemma sample_program_ok: "program_ok sample_program"
  by (simp add: program_ok_def sample_program_def SLOT_IOBJSTR_def SLOT_FLOAT_def)

lemma sample_cache_ok: "cache_ok sample_db"
  by (simp add: cache_ok_def sample_db_def)

lemma sample_moo_ok: "moo_ok sample_db"
  by (rule moo_okI [OF sample_ok sample_cache_ok])

lemma sample_programs_ok: "programs_ok sample_db"
  by (auto simp: programs_ok_def sample_find sample_objects)

lemma sample_vm_ok: "vm_ok (moo_vm sample_moo)"
  by (simp add: vm_ok_def sample_moo_def sample_activ_def SLOT_IOBJSTR_def)

lemma sample_moo_db [simp]: "moo_db sample_moo = sample_db"
  by (simp add: sample_moo_def)

lemma sample_state_ok: "state_ok sample_program sample_moo"
  using sample_moo_ok sample_vm_ok sample_programs_ok sample_program_ok by (simp add: state_ok_def)

lemma sample_is_wizard: "is_wizard sample_db x \<longleftrightarrow> x = 1"
  by (auto simp: is_wizard_def sample_valid db_object_has_flag_def sample_find sample_objects FLAG_WIZARD_def)

lemma sample_controls: "controls sample_db 1 x = Some True" "controls sample_db 2 3 = Some False"
  by (simp_all add: controls_def sample_is_wizard db_object_owner_def sample_find sample_object_def)

lemma sample_quotas: "quotas_low sample_db"
proof -
  have q: "slot_name (0, dbpriv_new_propdef ''size'') \<noteq> fold_case quota_name" by code_simp
  have "slot_name s \<noteq> fold_case quota_name" if "ptab sample_db y s = Some pv" for y s pv
  proof (cases "valid sample_db y")
    case True
    have "s \<in> set (slots sample_db y)" using that by (auto simp: ptab_def dest!: map_of_SomeD set_zip_leftD)
    with sample_slots [OF True] q show ?thesis by (auto split: if_splits)
  qed (use that ptab_invalid [of sample_db y s] in simp)
  then show ?thesis by (auto simp: quotas_low_def)
qed

end
