(* ===== verification/BfProperty.thy ===== *)
theory BfProperty
  imports BfRecycle
begin

text \<open>
  The built-in functions on properties (\<^verbatim>\<open>property.c\<close>).  The argument lists have
  the shape and types under which the functions are registered, so the
  definitions take the arguments one by one.
\<close>

unbundle bit_operations_syntax

section \<open>Property information\<close>

definition add_prop_to_list :: "var list \<Rightarrow> string \<Rightarrow> (var list \<times> bool) option" where
  "add_prop_to_list d prop_name = Some (d @ [TYPE_STR prop_name], False)"

definition bf_properties :: "db \<Rightarrow> objid \<Rightarrow> objid \<Rightarrow> package option" where
  "bf_properties db oid progr =
     (if \<not> valid db oid then Some (make_error_pack E_INVARG)
      else do {
        r \<leftarrow> db_object_allows db oid progr FLAG_READ;
        if \<not> r then Some (make_error_pack E_PERM)
        else do {
          n \<leftarrow> db_count_propdefs db oid;
          (l, _) \<leftarrow> db_for_all_propdefs db oid add_prop_to_list [];
          assert_that (length l = n);
          Some (make_var_pack (TYPE_LIST l)) } })"

definition prop_perms :: "16 word \<Rightarrow> string" where
  "prop_perms flags =
     (if flags AND PF_READ \<noteq> 0 then ''r'' else []) @ (if flags AND PF_WRITE \<noteq> 0 then ''w'' else [])
     @ (if flags AND PF_CHOWN \<noteq> 0 then ''c'' else [])"

definition bf_prop_info :: "db \<Rightarrow> objid \<Rightarrow> string \<Rightarrow> objid \<Rightarrow> package option" where
  "bf_prop_info db oid pname progr =
     (if \<not> valid db oid then Some (make_error_pack E_INVARG)
      else do {
        (h, _) \<leftarrow> db_find_property False db oid pname;
        (case h of
           Prop_slot d y n \<Rightarrow>
             do { r \<leftarrow> db_property_allows db h progr PF_READ;
                  if \<not> r then Some (make_error_pack E_PERM)
                  else do { ow \<leftarrow> db_property_owner db h;
                            flags \<leftarrow> db_property_flags db h;
                            Some (make_var_pack (TYPE_LIST [TYPE_OBJ ow, TYPE_STR (prop_perms flags)])) } }
         | _ \<Rightarrow> Some (make_error_pack E_PROPNF)) })"

definition prop_flag :: "char \<Rightarrow> 16 word option" where
  "prop_flag c =
     (if c = CHR ''r'' \<or> c = CHR ''R'' then Some PF_READ
      else if c = CHR ''w'' \<or> c = CHR ''W'' then Some PF_WRITE
      else if c = CHR ''c'' \<or> c = CHR ''C'' then Some PF_CHOWN
      else None)"

fun parse_flags :: "(char \<Rightarrow> 16 word option) \<Rightarrow> 16 word \<Rightarrow> string \<Rightarrow> 16 word option" where
  "parse_flags fl flags [] = Some flags"
| "parse_flags fl flags (c # s) =
     (case fl c of None \<Rightarrow> None | Some b \<Rightarrow> parse_flags fl (flags OR b) s)"

text \<open>The owner, the flags and, if there is one, the new name; or the error.\<close>

definition validate_prop_info :: "db \<Rightarrow> var \<Rightarrow> error + (objid \<times> 16 word \<times> string option)" where
  "validate_prop_info db v =
     (let check = (\<lambda>ow perms name.
        if \<not> valid db ow then Inl E_INVARG
        else case parse_flags prop_flag 0 perms of
               None \<Rightarrow> Inl E_INVARG
             | Some flags \<Rightarrow> Inr (ow, flags, name))
      in case v of
           TYPE_LIST [TYPE_OBJ ow, TYPE_STR perms] \<Rightarrow> check ow perms None
         | TYPE_LIST [TYPE_OBJ ow, TYPE_STR perms, TYPE_STR name] \<Rightarrow> check ow perms (Some name)
         | _ \<Rightarrow> Inl E_TYPE)"

definition set_prop_info :: "db \<Rightarrow> objid \<Rightarrow> string \<Rightarrow> var \<Rightarrow> objid \<Rightarrow> (db \<times> error) option" where
  "set_prop_info db oid pname info progr =
     (if \<not> valid db oid then Some (db, E_INVARG)
      else case validate_prop_info db info of
        Inl e \<Rightarrow> Some (db, e)
      | Inr (nowner, nflags, new_name) \<Rightarrow>
          do {
            (h, _) \<leftarrow> db_find_property False db oid pname;
            (case h of
               Prop_slot d y n \<Rightarrow>
                 do {
                   w \<leftarrow> db_property_allows db h progr PF_WRITE;
                   ow \<leftarrow> db_property_owner db h;
                   if \<not> w \<or> \<not> is_wizard db progr \<and> ow \<noteq> nowner then Some (db, E_PERM)
                   else case new_name of
                     None \<Rightarrow>
                       do { db1 \<leftarrow> db_set_property_owner db h nowner;
                            db2 \<leftarrow> db_set_property_flags db1 h nflags;
                            Some (db2, E_NONE) }
                   | Some name \<Rightarrow>
                       do { (db0, done) \<leftarrow> db_rename_propdef db oid pname name;
                            if \<not> done then Some (db0, E_INVARG)
                            else do { (h', _) \<leftarrow> db_find_property False db0 oid name;
                                      db1 \<leftarrow> db_set_property_owner db0 h' nowner;
                                      db2 \<leftarrow> db_set_property_flags db1 h' nflags;
                                      Some (db2, E_NONE) } } }
             | _ \<Rightarrow> Some (db, E_PROPNF)) })"

text \<open>The end that most of the functions share.\<close>

definition error_result :: "db \<times> error \<Rightarrow> db \<times> package" where
  "error_result r = (fst r, if snd r = E_NONE then no_var_pack else make_error_pack (snd r))"

definition bf_set_prop_info :: "db \<Rightarrow> objid \<Rightarrow> string \<Rightarrow> var \<Rightarrow> objid \<Rightarrow> (db \<times> package) option" where
  "bf_set_prop_info db oid pname info progr = map_option error_result (set_prop_info db oid pname info progr)"

section \<open>Defining and clearing\<close>

definition bf_add_prop :: "db \<Rightarrow> objid \<Rightarrow> string \<Rightarrow> var \<Rightarrow> var \<Rightarrow> objid \<Rightarrow> (db \<times> package) option" where
  "bf_add_prop db oid pname value info progr = map_option error_result
     (case validate_prop_info db info of
        Inl e \<Rightarrow> Some (db, e)
      | Inr (owner, flags, new_name) \<Rightarrow>
          if new_name \<noteq> None then Some (db, E_TYPE)
          else if \<not> valid db oid then Some (db, E_INVARG)
          else do {
            w \<leftarrow> db_object_allows db oid progr FLAG_WRITE;
            if \<not> w \<or> progr \<noteq> owner \<and> \<not> is_wizard db progr then Some (db, E_PERM)
            else do { (db1, added) \<leftarrow> db_add_propdef db oid pname value owner flags;
                      Some (db1, if added then E_NONE else E_INVARG) } })"

definition bf_delete_prop :: "db \<Rightarrow> objid \<Rightarrow> string \<Rightarrow> objid \<Rightarrow> (db \<times> package) option" where
  "bf_delete_prop db oid pname progr = map_option error_result
     (if \<not> valid db oid then Some (db, E_INVARG)
      else do {
        w \<leftarrow> db_object_allows db oid progr FLAG_WRITE;
        if \<not> w then Some (db, E_PERM)
        else do { (db1, deleted) \<leftarrow> db_delete_propdef db oid pname;
                  Some (db1, if deleted then E_NONE else E_PROPNF) } })"

definition bf_clear_prop :: "db \<Rightarrow> objid \<Rightarrow> string \<Rightarrow> objid \<Rightarrow> (db \<times> package) option" where
  "bf_clear_prop db oid pname progr = map_option error_result
     (if \<not> valid db oid then Some (db, E_INVARG)
      else do {
        (h, _) \<leftarrow> db_find_property False db oid pname;
        (case h of
           No_prop \<Rightarrow> Some (db, E_PROPNF)
         | Builtin bi y \<Rightarrow> Some (db, E_PERM)
         | Prop_slot d y n \<Rightarrow>
             do { ow \<leftarrow> db_property_owner db h;
                  if progr \<noteq> ow \<and> \<not> is_wizard db progr then Some (db, E_PERM)
                  else if d = oid then Some (db, E_INVARG)
                  else do { db1 \<leftarrow> db_set_property_value db h TYPE_CLEAR; Some (db1, E_NONE) } }) })"

definition bf_is_clear_prop :: "db \<Rightarrow> objid \<Rightarrow> string \<Rightarrow> objid \<Rightarrow> package option" where
  "bf_is_clear_prop db oid pname progr =
     (if \<not> valid db oid then Some (make_error_pack E_INVARG)
      else do {
        (h, _) \<leftarrow> db_find_property False db oid pname;
        (case h of
           No_prop \<Rightarrow> Some (make_error_pack E_PROPNF)
         | Builtin bi y \<Rightarrow> Some (make_var_pack (TYPE_INT 0))
         | Prop_slot d y n \<Rightarrow>
             do { r \<leftarrow> db_property_allows db h progr PF_READ;
                  if \<not> r then Some (make_error_pack E_PERM)
                  else do { v \<leftarrow> db_property_value db h; Some (make_var_pack (int_of_flag (v = TYPE_CLEAR))) } }) })"

section \<open>What they guarantee\<close>

lemma find_handle:
  assumes ok: "db_ok db" and x: "valid db x" "nul_free name"
  obtains "find_builtin name \<noteq> None" "\<exists>bi. db_find_property False db x name = Some (Builtin bi x, None)"
  | "find_builtin name = None" "db_find_property False db x name = Some (No_prop, None)"
    "fold_case name \<notin> slot_name ` set (slots db x)"
  | d n pv where "find_builtin name = None" "db_find_property False db x name = Some (Prop_slot d x n, None)"
    "fold_case name \<in> slot_name ` set (slots db x)"
    "get_slot db x n = Some pv" "d = fst (slots db x ! n)" "ptab db x (slots db x ! n) = Some pv"
    "n < length (slots db x)" "slot_name (slots db x ! n) = fold_case name"
proof (cases "find_builtin name")
  case (Some bi)
  with db_find_property_builtin that(1) show thesis by blast
next
  case None
  note D = db_okD [OF ok]
  show thesis
  proof (cases "fold_case name \<in> slot_name ` set (slots db x)")
    case True
    from db_find_property_present [OF D(3,5) x(2,1) None True, of False] obtain n where
      n: "n < length (slots db x)" "slot_name (slots db x ! n) = fold_case name"
      "db_find_property False db x name = Some (Prop_slot (fst (slots db x ! n)) x n, None)" by auto
    from x(1) obtain ob where ob: "dbpriv_find_object db x = Some ob" by (rule validE)
    note pok = props_okD [OF D(5) ob, unfolded props_ok_at_def]
    have "get_slot db x n = Some (o_propval ob ! n)" using pok n(1) by (simp add: get_slot_def ob nth_opt_def)
    moreover have "distinct (slots db x)" using pok by (simp add: distinct_map)
    then have "ptab db x (slots db x ! n) = Some (o_propval ob ! n)"
      using n pok by (simp add: ptab_def propvals_of_def ob map_of_zip_nth)
    ultimately show thesis using that(3) None True n by blast
  next
    case False
    with db_find_property_absent [OF D(3,5) x(2,1) None False] None that(2) show thesis by blast
  qed
qed

text \<open>Setting owner and flags of a property that was found.\<close>

lemma set_owner_flags_ok:
  assumes ok: "moo_ok db" and x: "valid db x" "nul_free name"
    and f: "db_find_property False db x name = Some (Prop_slot d x n, None)"
  obtains db1 db2 pv where "db_set_property_owner db (Prop_slot d x n) ow = Some db1"
    "db_set_property_flags db1 (Prop_slot d x n) fl = Some db2" "moo_ok db2" "keeps no_values db db2"
    "get_slot db x n = Some pv" "db_find_property False db2 x name = Some (Prop_slot d x n, None)"
    "ptab db2 x = (ptab db x)(slots db x ! n \<mapsto> pv\<lparr>pv_owner := ow, pv_perms := fl\<rparr>)"
    "\<forall>z. z \<noteq> x \<longrightarrow> ptab db2 z = ptab db z"
proof -
  obtain db1 pv where m1: "modify_slot db x n (\<lambda>pv. pv\<lparr>pv_owner := ow\<rparr>) = Some db1" "moo_ok db1" "keeps no_values db db1"
    "get_slot db x n = Some pv" "ptab db1 x = (ptab db x)(slots db x ! n \<mapsto> pv\<lparr>pv_owner := ow\<rparr>)"
    "\<And>z. z \<noteq> x \<Longrightarrow> ptab db1 z = ptab db z" "get_slot db1 x n = Some (pv\<lparr>pv_owner := ow\<rparr>)"
    by (rule modify_found [OF ok x f, of "\<lambda>pv. pv\<lparr>pv_owner := ow\<rparr>"]) auto
  from found_slot [OF moo_okD(1) [OF ok] x f] have s: "n < length (slots db x)" "d = fst (slots db x ! n)"
    "slot_name (slots db x ! n) = fold_case name" by auto
  have again: "db_find_property False db' x name = Some (Prop_slot d x n, None)"
    if k: "keeps no_values db db'" and o': "moo_ok db'" for db'
  proof -
    have x': "valid db' x" using x(1) keeps_valid [OF k] by simp
    show ?thesis
      using slot_found_index [OF moo_okD(1) [OF o'] x' x(2) found_not_builtin [OF f], of n False] s keeps_slots [OF k, of x]
      by auto
  qed
  have x1: "valid db1 x" using x(1) keeps_valid [OF m1(3)] by simp
  obtain db2 pv' where m2: "modify_slot db1 x n (\<lambda>pv. pv\<lparr>pv_perms := fl\<rparr>) = Some db2" "moo_ok db2" "keeps no_values db1 db2"
    "get_slot db1 x n = Some pv'" "ptab db2 x = (ptab db1 x)(slots db1 x ! n \<mapsto> pv'\<lparr>pv_perms := fl\<rparr>)"
    "\<And>z. z \<noteq> x \<Longrightarrow> ptab db2 z = ptab db1 z"
    by (rule modify_found [OF m1(2) x1 x(2) again [OF m1(3,2)], of "\<lambda>pv. pv\<lparr>pv_perms := fl\<rparr>"]) auto
  have "pv' = pv\<lparr>pv_owner := ow\<rparr>" using m1(7) m2(4) by simp
  then have p2: "ptab db2 x = (ptab db x)(slots db x ! n \<mapsto> pv\<lparr>pv_owner := ow, pv_perms := fl\<rparr>)"
    using m2(5) m1(5) keeps_slots [OF m1(3), of x] by simp
  have k2: "keeps no_values db db2" by (rule keeps_trans [OF m1(3) m2(3)])
  show thesis
    by (rule that [of db1 db2 pv]) (use m1 m2 p2 k2 again [OF k2 m2(2)] in simp_all)
qed

text \<open>When \<^verbatim>\<open>set_property_info()\<close> refuses, and what it does otherwise.\<close>

definition may_set_info :: "db \<Rightarrow> pval \<Rightarrow> objid \<Rightarrow> objid \<Rightarrow> bool" where
  "may_set_info db pv ow progr \<longleftrightarrow>
     (pv_perms pv AND PF_WRITE \<noteq> 0 \<or> progr = pv_owner pv \<or> is_wizard db progr) \<and> (is_wizard db progr \<or> pv_owner pv = ow)"

definition renamable :: "db \<Rightarrow> objid \<Rightarrow> string \<Rightarrow> string \<Rightarrow> bool" where
  "renamable db x old new \<longleftrightarrow> defines_prop db x old \<and> (fold_case old = fold_case new \<or> can_define db x new)"

definition info_refusal :: "db \<Rightarrow> objid \<Rightarrow> string \<Rightarrow> var \<Rightarrow> objid \<Rightarrow> error option" where
  "info_refusal db x pname info progr =
     (if \<not> valid db x then Some E_INVARG
      else case validate_prop_info db info of
        Inl e \<Rightarrow> Some e
      | Inr (ow, fl, new) \<Rightarrow>
          (case db_find_property False db x pname of
             Some (Prop_slot d y n, _) \<Rightarrow>
               if \<not> may_set_info db (the (get_slot db x n)) ow progr then Some E_PERM
               else if (case new of None \<Rightarrow> False | Some nm \<Rightarrow> \<not> renamable db x pname nm) then Some E_INVARG
               else None
           | _ \<Rightarrow> Some E_PROPNF))"

definition info_set :: "db \<Rightarrow> db \<Rightarrow> objid \<Rightarrow> string \<Rightarrow> string option \<Rightarrow> objid \<Rightarrow> 16 word \<Rightarrow> bool" where
  "info_set db db' x pname new ow fl \<longleftrightarrow>
     (\<exists>db0 d n pv. (case new of None \<Rightarrow> db0 = db | Some nm \<Rightarrow> db_rename_propdef db x pname nm = Some (db0, True))
      \<and> db_find_property False db' x (case new of None \<Rightarrow> pname | Some nm \<Rightarrow> nm) = Some (Prop_slot d x n, None)
      \<and> get_slot db0 x n = Some pv
      \<and> ptab db' x = (ptab db0 x)(slots db0 x ! n \<mapsto> pv\<lparr>pv_owner := ow, pv_perms := fl\<rparr>)
      \<and> (\<forall>z. z \<noteq> x \<longrightarrow> ptab db' z = ptab db0 z))"

lemma allows_slot:
  assumes "get_slot db x n = Some pv"
  shows "db_property_allows db (Prop_slot d x n) progr f
    = Some (pv_perms pv AND f \<noteq> 0 \<or> progr = pv_owner pv \<or> is_wizard db progr)"
  using assms by (simp add: db_property_allows_def)

lemma ptab_slot: "ptab db x s = Some pv \<Longrightarrow> s \<in> set (slots db x)"
  by (auto simp: ptab_def dest!: map_of_SomeD set_zip_leftD)

lemma renamed_handle:
  assumes ok: "moo_ok db" and x: "valid db x" "nul_free old" "nul_free new" and r: "renamable db x old new"
  obtains db0 d n where "db_rename_propdef db x old new = Some (db0, True)" "moo_ok db0" "keeps o_verbdefs db db0"
    "valid db0 x" "db_find_property False db0 x new = Some (Prop_slot d x n, None)"
proof -
  note D = db_okD [OF moo_okD(1) [OF ok]]
  from r have c: "defines_prop db x old" "fold_case old = fold_case new \<or> can_define db x new" by (simp_all add: renamable_def)
  from db_rename_propdef_ok [OF D(3,5) x(2,3,1) c] obtain db0 pd where
    d: "db_rename_propdef db x old new = Some (db0, True)" "only_props db db0" "pd \<in> set (propdefs_of db x)"
      "\<forall>y. valid db y \<longrightarrow> ptab db0 y = (if y \<in> desc db x
         then (ptab db y)((x, pd) := None, (x, dbpriv_new_propdef new) := ptab db y (x, pd)) else ptab db y)" by blast
  have ok0: "moo_ok db0" by (rule moo_ok_propdefs(3) [OF ok x d(1)])
  have k: "keeps o_verbdefs db db0"
    using d(2) by (auto simp: only_props_def prop_rest_def intro: keeps_via [where h = o_verbdefs])
  have v: "valid db0 x" using keeps_valid [OF k] x(1) by simp
  from x(1) obtain ob where ob: "dbpriv_find_object db x = Some ob" by (rule validE)
  have "(x, pd) \<in> set (slots db x)" using d(3) slots_step [OF D(3) ob] ob by (simp add: propdefs_of_def)
  then obtain i where i: "i < length (slots db x)" "slots db x ! i = (x, pd)" by (auto simp: in_set_conv_nth)
  have "ptab db x (x, pd) \<noteq> None"
    using i props_okD [OF D(5) ob, unfolded props_ok_at_def] by (simp add: ptab_def propvals_of_def ob map_of_zip_is_None del: not_None_eq) (metis nth_mem)
  moreover have "ptab db0 x (x, dbpriv_new_propdef new) = ptab db x (x, pd)"
    using d(4) x(1) desc_self [OF D(3) x(1)] by simp
  ultimately have mem0: "(x, dbpriv_new_propdef new) \<in> set (slots db0 x)"
    using ptab_slot [of db0 x "(x, dbpriv_new_propdef new)"] by (cases "ptab db x (x, pd)") auto
  from mem0 have mem: "fold_case new \<in> slot_name ` set (slots db0 x)"
    by (rule rev_image_eqI) (simp add: slot_name_def dbpriv_new_propdef_def)
  show thesis
  proof (cases rule: find_handle [OF moo_okD(1) [OF ok0] v x(3)])
    case 1
    from slots_pd_ok [OF db_okD(3,5) [OF moo_okD(1) [OF ok0]], of x] v mem0
    have "find_builtin new = None" by (auto simp: list_all_iff pd_ok_def dbpriv_new_propdef_def)
    with 1 show thesis by simp
  next
    case 2
    with mem show thesis by simp
  next
    case (3 e n pv)
    with that d(1) ok0 k v show thesis by blast
  qed
qed

text \<open>With permission: without and with a new name.\<close>

definition info_done :: "db \<Rightarrow> objid \<Rightarrow> string \<Rightarrow> var \<Rightarrow> objid \<Rightarrow> bool" where
  "info_done db x pname info progr \<longleftrightarrow>
     (\<exists>db' ow fl new. set_prop_info db x pname info progr = Some (db', E_NONE) \<and> moo_ok db' \<and> keeps o_verbdefs db db'
        \<and> validate_prop_info db info = Inr (ow, fl, new) \<and> info_set db db' x pname new ow fl)"

lemma info_doneI:
  assumes "set_prop_info db x pname info progr = Some (db', E_NONE)" "moo_ok db'" "keeps o_verbdefs db db'"
    "validate_prop_info db info = Inr (ow, fl, new)" "info_set db db' x pname new ow fl"
  shows "info_done db x pname info progr"
  unfolding info_done_def using assms by blast

lemma set_info_plain:
  assumes ok: "moo_ok db" and n: "nul_free pname" and v: "valid db x" and i: "validate_prop_info db info = Inr (ow, fl, None)"
    and f: "db_find_property False db x pname = Some (Prop_slot d x k, None)" and g: "get_slot db x k = Some pv"
    and may: "may_set_info db pv ow progr"
  shows "info_done db x pname info progr"
proof -
  obtain db1 db2 pv2 where s: "db_set_property_owner db (Prop_slot d x k) ow = Some db1"
    "db_set_property_flags db1 (Prop_slot d x k) fl = Some db2" "moo_ok db2" "keeps no_values db db2"
    "get_slot db x k = Some pv2" "db_find_property False db2 x pname = Some (Prop_slot d x k, None)"
    "ptab db2 x = (ptab db x)(slots db x ! k \<mapsto> pv2\<lparr>pv_owner := ow, pv_perms := fl\<rparr>)"
    "\<forall>z. z \<noteq> x \<longrightarrow> ptab db2 z = ptab db z" by (rule set_owner_flags_ok [OF ok v n f])
  have "set_prop_info db x pname info progr = Some (db2, E_NONE)"
    using v i f g may allows_slot [OF g, of d progr PF_WRITE] s(1,2) by (auto simp: set_prop_info_def may_set_info_def)
  moreover have "info_set db db2 x pname None ow fl"
    unfolding info_set_def using s(5-8) by (intro exI [of _ db] exI [of _ d] exI [of _ k] exI [of _ pv2]) simp
  ultimately show ?thesis using s(3) keeps_no_values(1) [OF s(4)] i by (intro info_doneI)
qed

lemma set_info_renamed:
  assumes ok: "moo_ok db" and n: "nul_free pname" "nul_free nm" and v: "valid db x"
    and i: "validate_prop_info db info = Inr (ow, fl, Some nm)"
    and f: "db_find_property False db x pname = Some (Prop_slot d x k, None)" and g: "get_slot db x k = Some pv"
    and may: "may_set_info db pv ow progr" and rn: "renamable db x pname nm"
  shows "info_done db x pname info progr"
proof -
  obtain db0 d' k' where r: "db_rename_propdef db x pname nm = Some (db0, True)" "moo_ok db0"
    "keeps o_verbdefs db db0" "valid db0 x" "db_find_property False db0 x nm = Some (Prop_slot d' x k', None)"
    by (rule renamed_handle [OF ok v n rn])
  obtain db1 db2 pv2 where s: "db_set_property_owner db0 (Prop_slot d' x k') ow = Some db1"
    "db_set_property_flags db1 (Prop_slot d' x k') fl = Some db2" "moo_ok db2" "keeps no_values db0 db2"
    "get_slot db0 x k' = Some pv2" "db_find_property False db2 x nm = Some (Prop_slot d' x k', None)"
    "ptab db2 x = (ptab db0 x)(slots db0 x ! k' \<mapsto> pv2\<lparr>pv_owner := ow, pv_perms := fl\<rparr>)"
    "\<forall>z. z \<noteq> x \<longrightarrow> ptab db2 z = ptab db0 z" by (rule set_owner_flags_ok [OF r(2,4) n(2) r(5)])
  have "set_prop_info db x pname info progr = Some (db2, E_NONE)"
    using v i f g may allows_slot [OF g, of d progr PF_WRITE] r(1,5) s(1,2) by (auto simp: set_prop_info_def may_set_info_def)
  moreover have "info_set db db2 x pname (Some nm) ow fl"
    unfolding info_set_def using r(1) s(5-8)
    by (intro exI [of _ db0] exI [of _ d'] exI [of _ k'] exI [of _ pv2]) simp
  ultimately show ?thesis using s(3) keeps_trans [OF r(3) keeps_no_values(1) [OF s(4)]] i by (intro info_doneI)
qed

lemma set_prop_info_ok:
  assumes ok: "moo_ok db" and n: "nul_free pname" "\<And>ow fl nm. validate_prop_info db info = Inr (ow, fl, Some nm) \<Longrightarrow> nul_free nm"
  shows "case info_refusal db x pname info progr of
           Some e \<Rightarrow> set_prop_info db x pname info progr = Some (db, e)
         | None \<Rightarrow> info_done db x pname info progr"
proof (cases "valid db x \<and> (\<exists>r. validate_prop_info db info = Inr r)")
  case False
  then show ?thesis by (cases "validate_prop_info db info") (auto simp: info_refusal_def set_prop_info_def)
next
  case True
  then obtain ow fl new where v: "valid db x" and i: "validate_prop_info db info = Inr (ow, fl, new)" by auto
  show ?thesis
  proof (cases rule: find_handle [OF moo_okD(1) [OF ok] v n(1)])
    case (3 d k pv)
    note f = 3(2) and g = 3(4)
    consider (perm) "\<not> may_set_info db pv ow progr" | (plain) "may_set_info db pv ow progr" "new = None"
      | (fail) nm where "may_set_info db pv ow progr" "new = Some nm" "\<not> renamable db x pname nm"
      | (name) nm where "may_set_info db pv ow progr" "new = Some nm" "renamable db x pname nm" by (cases new) auto
    then show ?thesis
    proof cases
      case perm
      with v i f g allows_slot [OF g, of d progr PF_WRITE] show ?thesis
        by (auto simp: info_refusal_def set_prop_info_def may_set_info_def)
    next
      case plain
      from set_info_plain [OF ok n(1) v i [unfolded plain(2)] f g plain(1)] plain v i f g show ?thesis
        by (simp add: info_refusal_def)
    next
      case (fail nm)
      then have "db_rename_propdef db x pname nm = Some (db, False)"
        using db_rename_propdef_fail [OF db_okD(3,5) [OF moo_okD(1) [OF ok]] n(1) n(2) [OF i [unfolded fail(2)]] v]
        by (simp add: renamable_def)
      with fail v i f g allows_slot [OF g, of d progr PF_WRITE] show ?thesis
        by (auto simp: info_refusal_def set_prop_info_def may_set_info_def)
    next
      case (name nm)
      from set_info_renamed [OF ok n(1) n(2) [OF i [unfolded name(2)]] v i [unfolded name(2)] f g name(1,3)] name v i f g
      show ?thesis by (simp add: info_refusal_def)
    qed
  qed (use v i in \<open>auto simp: info_refusal_def set_prop_info_def\<close>)
qed

section \<open>Adding, deleting, clearing\<close>

definition add_refusal :: "db \<Rightarrow> objid \<Rightarrow> string \<Rightarrow> var \<Rightarrow> objid \<Rightarrow> error option" where
  "add_refusal db x pname info progr =
     (case validate_prop_info db info of
        Inl e \<Rightarrow> Some e
      | Inr (ow, fl, new) \<Rightarrow>
          if new \<noteq> None then Some E_TYPE
          else if \<not> valid db x then Some E_INVARG
          else if db_object_allows db x progr FLAG_WRITE \<noteq> Some True \<or> progr \<noteq> ow \<and> \<not> is_wizard db progr then Some E_PERM
          else if \<not> can_define db x pname then Some E_INVARG
          else None)"

lemma validate_prop_error: "validate_prop_info db info = Inl e \<Longrightarrow> e = E_TYPE \<or> e = E_INVARG"
  by (auto simp: validate_prop_info_def Let_def split: var.splits list.splits if_splits option.splits)

lemma bf_add_prop_ok:
  assumes ok: "moo_ok db" and n: "nul_free pname" and val: "value \<noteq> TYPE_CLEAR"
  shows "case add_refusal db x pname info progr of
           Some e \<Rightarrow> bf_add_prop db x pname value info progr = Some (db, make_error_pack e)
         | None \<Rightarrow> \<exists>db' ow fl. validate_prop_info db info = Inr (ow, fl, None)
              \<and> bf_add_prop db x pname value info progr = Some (db', no_var_pack) \<and> moo_ok db'
              \<and> db_add_propdef db x pname value ow fl = Some (db', True)"
proof (cases "validate_prop_info db info")
  case (Inl e)
  with validate_prop_error [OF Inl] show ?thesis by (auto simp: add_refusal_def bf_add_prop_def error_result_def)
next
  case (Inr r)
  obtain ow fl new where r: "r = (ow, fl, new)" by (cases r)
  show ?thesis
  proof (cases "new = None \<and> valid db x")
    case False
    with Inr r show ?thesis by (auto simp: add_refusal_def bf_add_prop_def error_result_def)
  next
    case True
    then have v: "valid db x" by simp
    from allows_total [OF v] obtain b where b: "db_object_allows db x progr FLAG_WRITE = Some b" by blast
    show ?thesis
    proof (cases "b \<and> (progr = ow \<or> is_wizard db progr)")
      case False
      with True Inr r b show ?thesis by (auto simp: add_refusal_def bf_add_prop_def error_result_def)
    next
      case go: True
      note D = db_okD [OF moo_okD(1) [OF ok]]
      show ?thesis
      proof (cases "can_define db x pname")
        case False
        with db_add_propdef_fail [OF D(3,5) n v False] go True Inr r b show ?thesis
          by (auto simp: add_refusal_def bf_add_prop_def error_result_def)
      next
        case can: True
        from db_add_propdef_ok [OF D(3,5) n v can val, of ow fl] obtain db' where
          d: "db_add_propdef db x pname value ow fl = Some (db', True)" by blast
        have "moo_ok db'" by (rule moo_ok_propdefs(1) [OF ok v n val d])
        with d can go True Inr r b show ?thesis by (auto simp: add_refusal_def bf_add_prop_def error_result_def)
      qed
    qed
  qed
qed

definition delete_refusal :: "db \<Rightarrow> objid \<Rightarrow> string \<Rightarrow> objid \<Rightarrow> error option" where
  "delete_refusal db x pname progr =
     (if \<not> valid db x then Some E_INVARG
      else if db_object_allows db x progr FLAG_WRITE \<noteq> Some True then Some E_PERM
      else if \<not> defines_prop db x pname then Some E_PROPNF
      else None)"

lemma bf_delete_prop_ok:
  assumes ok: "moo_ok db" and n: "nul_free pname"
  shows "case delete_refusal db x pname progr of
           Some e \<Rightarrow> bf_delete_prop db x pname progr = Some (db, make_error_pack e)
         | None \<Rightarrow> \<exists>db'. bf_delete_prop db x pname progr = Some (db', no_var_pack) \<and> moo_ok db'
              \<and> db_delete_propdef db x pname = Some (db', True)"
proof (cases "valid db x")
  case False
  then show ?thesis by (simp add: delete_refusal_def bf_delete_prop_def error_result_def)
next
  case v: True
  from allows_total [OF v] obtain b where b: "db_object_allows db x progr FLAG_WRITE = Some b" by blast
  note D = db_okD [OF moo_okD(1) [OF ok]]
  show ?thesis
  proof (cases "defines_prop db x pname")
    case False
    with db_delete_propdef_fail [OF D(5) n v False] v b show ?thesis
      by (auto simp: delete_refusal_def bf_delete_prop_def error_result_def)
  next
    case True
    from db_delete_propdef_ok [OF D(3,5) n v True] obtain db' where d: "db_delete_propdef db x pname = Some (db', True)" by blast
    have "moo_ok db'" by (rule moo_ok_propdefs(2) [OF ok v n d])
    with d True v b show ?thesis by (auto simp: delete_refusal_def bf_delete_prop_def error_result_def)
  qed
qed

lemma keeps_wizard:
  assumes "keeps o_flags db db'"
  shows "is_wizard db' x = is_wizard db x"
proof -
  have "db_object_has_flag db' x f = db_object_has_flag db x f" for f
    using assms [unfolded keeps_def, rule_format, of x]
    by (cases "dbpriv_find_object db x"; cases "dbpriv_find_object db' x") (auto simp: db_object_has_flag_def)
  with keeps_valid [OF assms] show ?thesis by (simp add: is_wizard_def)
qed

definition clear_refusal :: "db \<Rightarrow> objid \<Rightarrow> string \<Rightarrow> objid \<Rightarrow> error option" where
  "clear_refusal db x pname progr =
     (if \<not> valid db x then Some E_INVARG
      else case db_find_property False db x pname of
        Some (Prop_slot d y n, _) \<Rightarrow>
          if progr \<noteq> pv_owner (the (get_slot db x n)) \<and> \<not> is_wizard db progr then Some E_PERM
          else if defines_prop db x pname then Some E_INVARG
          else None
      | Some (Builtin bi y, _) \<Rightarrow> Some E_PERM
      | _ \<Rightarrow> Some E_PROPNF)"

text \<open>The handle's definer is the object itself exactly if the object defines the property.\<close>

lemma definer_defines:
  assumes ok: "db_ok db" and v: "valid db x" and n: "n < length (slots db x)" "slot_name (slots db x ! n) = fold_case pname"
  shows "fst (slots db x ! n) = x \<longleftrightarrow> defines_prop db x pname"
proof
  note D = db_okD [OF ok]
  from v obtain ob where ob: "dbpriv_find_object db x = Some ob" by (rule validE)
  have mem: "slots db x ! n \<in> set (slots db x)" using n(1) by simp
  show "defines_prop db x pname" if "fst (slots db x ! n) = x"
  proof -
    from mem have "snd (slots db x ! n) \<in> set (propdefs_of db (fst (slots db x ! n)))"
      unfolding slots_def by (blast dest: slots_along_mem)
    with that n(2) show ?thesis by (auto simp: defines_prop_def slot_name_def)
  qed
  show "fst (slots db x ! n) = x" if "defines_prop db x pname"
  proof -
    from that obtain pd where pd: "pd \<in> set (propdefs_of db x)" "fold_case (pd_name pd) = fold_case pname"
      by (auto simp: defines_prop_def)
    then have "(x, pd) \<in> set (slots db x)" using slots_step [OF D(3) ob] ob by (simp add: propdefs_of_def)
    moreover have "slot_name (x, pd) = fold_case pname" using pd(2) by (simp add: slot_name_def)
    ultimately have "(x, pd) = slots db x ! n" using one_slot_of_name [OF D(5) v n] by blast
    then show ?thesis by (metis fst_conv)
  qed
qed

lemma bf_clear_prop_ok:
  assumes ok: "moo_ok db" and n: "nul_free pname"
  shows "case clear_refusal db x pname progr of
           Some e \<Rightarrow> bf_clear_prop db x pname progr = Some (db, make_error_pack e)
         | None \<Rightarrow> \<exists>db' s pv. bf_clear_prop db x pname progr = Some (db', no_var_pack) \<and> moo_ok db'
              \<and> slot_name s = fold_case pname \<and> ptab db x s = Some pv
              \<and> ptab db' x = (ptab db x)(s \<mapsto> pv\<lparr>pv_var := TYPE_CLEAR\<rparr>) \<and> (\<forall>z. z \<noteq> x \<longrightarrow> ptab db' z = ptab db z)
              \<and> bf_is_clear_prop db' x pname progr = Some (make_var_pack (TYPE_INT 1))"
proof (cases "valid db x")
  case False
  then show ?thesis by (simp add: clear_refusal_def bf_clear_prop_def error_result_def)
next
  case v: True
  show ?thesis
  proof (cases rule: find_handle [OF moo_okD(1) [OF ok] v n])
    case (3 d k pv)
    note f = 3(2) and g = 3(4)
    have def: "d = x \<longleftrightarrow> defines_prop db x pname" using definer_defines [OF moo_okD(1) [OF ok] v 3(7,8)] 3(5) by simp
    show ?thesis
    proof (cases "(progr = pv_owner pv \<or> is_wizard db progr) \<and> d \<noteq> x")
      case False
      with v f g def show ?thesis by (auto simp: clear_refusal_def bf_clear_prop_def error_result_def)
    next
      case True
      obtain db' pv' where m: "modify_slot db x k (\<lambda>pv. pv\<lparr>pv_var := TYPE_CLEAR\<rparr>) = Some db'" "moo_ok db'" "keeps no_values db db'"
        "get_slot db x k = Some pv'" "ptab db' x = (ptab db x)(slots db x ! k \<mapsto> pv'\<lparr>pv_var := TYPE_CLEAR\<rparr>)"
        "\<And>z. z \<noteq> x \<Longrightarrow> ptab db' z = ptab db z" "get_slot db' x k = Some (pv'\<lparr>pv_var := TYPE_CLEAR\<rparr>)"
        by (rule modify_found [OF ok v n f, of "\<lambda>pv. pv\<lparr>pv_var := TYPE_CLEAR\<rparr>"]) (use True in auto)
      have v': "valid db' x" using v keeps_valid [OF m(3)] by simp
      have f': "db_find_property False db' x pname = Some (Prop_slot d x k, None)"
        using slot_found_index [OF moo_okD(1) [OF m(2)] v' n 3(1), of k False] 3(5,7,8) keeps_slots [OF m(3), of x] by auto
      have w: "is_wizard db' progr = is_wizard db progr" by (rule keeps_wizard [OF keeps_no_values(5) [OF m(3)]])
      have "bf_is_clear_prop db' x pname progr = Some (make_var_pack (TYPE_INT 1))"
        using v' f' m(7) True g m(4) w allows_slot [OF m(7), of d progr PF_READ]
        by (auto simp: bf_is_clear_prop_def int_of_flag_def)
      moreover have "clear_refusal db x pname progr = None" using v f g def True by (auto simp: clear_refusal_def)
      moreover have "bf_clear_prop db x pname progr = Some (db', no_var_pack)"
        using v f g True m(1) by (auto simp: bf_clear_prop_def error_result_def)
      moreover have "pv' = pv" using m(4) g by simp
      ultimately show ?thesis using m(2,5,6) 3(6,8)
        by (simp only: option.case) (intro exI [of _ db'] exI [of _ "slots db x ! k"] exI [of _ pv], simp)
    qed
  qed (use v in \<open>auto simp: clear_refusal_def bf_clear_prop_def error_result_def\<close>)
qed

end
