(* ===== verification/BfVerbs.thy ===== *)
theory BfVerbs
  imports BfProperty
begin

text \<open>
  The built-in functions on verbs (\<^verbatim>\<open>verbs.c\<close>).  The compiler and the decompiler
  (\<^verbatim>\<open>parse_list_as_program\<close>, \<^verbatim>\<open>unparse_program\<close>) are parameters of the two functions
  that use them; \<open>numeric\<close> is the server option
  \<^verbatim>\<open>support_numeric_verbname_strings\<close>.
\<close>

unbundle bit_operations_syntax

section \<open>Validation\<close>

definition bf_verbs :: "db \<Rightarrow> objid \<Rightarrow> objid \<Rightarrow> package option" where
  "bf_verbs db oid progr =
     (if \<not> valid db oid then Some (make_error_pack E_INVARG)
      else do {
        r \<leftarrow> db_object_allows db oid progr FLAG_READ;
        if \<not> r then Some (make_error_pack E_PERM)
        else do {
          n \<leftarrow> db_count_verbs db oid;
          (l, _) \<leftarrow> db_for_all_verbs db oid add_prop_to_list [];
          assert_that (length l = n);
          Some (make_var_pack (TYPE_LIST l)) } })"

definition verb_flag :: "char \<Rightarrow> 16 word option" where
  "verb_flag c =
     (if c = CHR ''r'' \<or> c = CHR ''R'' then Some VF_READ
      else if c = CHR ''w'' \<or> c = CHR ''W'' then Some VF_WRITE
      else if c = CHR ''x'' \<or> c = CHR ''X'' then Some VF_EXEC
      else if c = CHR ''d'' \<or> c = CHR ''D'' then Some VF_DEBUG
      else None)"

definition validate_verb_info :: "db \<Rightarrow> var \<Rightarrow> error + (objid \<times> 16 word \<times> string)" where
  "validate_verb_info db v =
     (case v of
        TYPE_LIST [TYPE_OBJ ow, TYPE_STR perms, TYPE_STR names] \<Rightarrow>
          if \<not> valid db ow then Inl E_INVARG
          else (case parse_flags verb_flag 0 perms of
                  None \<Rightarrow> Inl E_INVARG
                | Some flags \<Rightarrow>
                    let ns = dropWhile (\<lambda>c. c = CHR '' '') names
                    in if ns = [] then Inl E_INVARG else Inr (ow, flags, ns))
      | _ \<Rightarrow> Inl E_TYPE)"

definition match_arg_spec :: "string \<Rightarrow> db_arg_spec option" where
  "match_arg_spec s =
     (if mystrcasecmp s ''none'' = 0 then Some ASPEC_NONE
      else if mystrcasecmp s ''any'' = 0 then Some ASPEC_ANY
      else if mystrcasecmp s ''this'' = 0 then Some ASPEC_THIS
      else None)"

definition match_prep_spec :: "string \<Rightarrow> int option" where
  "match_prep_spec s =
     (if mystrcasecmp s ''none'' = 0 then Some PREP_NONE
      else if mystrcasecmp s ''any'' = 0 then Some PREP_ANY
      else if db_match_prep s \<noteq> PREP_NONE then Some (db_match_prep s)
      else None)"

definition validate_verb_args :: "var \<Rightarrow> error + (db_arg_spec \<times> int \<times> db_arg_spec)" where
  "validate_verb_args v =
     (case v of
        TYPE_LIST [TYPE_STR d, TYPE_STR p, TYPE_STR i] \<Rightarrow>
          (case (match_arg_spec d, match_prep_spec p, match_arg_spec i) of
             (Some dobj, Some prep, Some iobj) \<Rightarrow> Inr (dobj, prep, iobj)
           | _ \<Rightarrow> Inl E_INVARG)
      | _ \<Rightarrow> Inl E_TYPE)"

definition validate_verb_descriptor :: "var \<Rightarrow> error" where
  "validate_verb_descriptor vdesc =
     (case vdesc of
        TYPE_STR _ \<Rightarrow> E_NONE
      | TYPE_INT n \<Rightarrow> if n \<le> 0 then E_INVARG else E_NONE
      | _ \<Rightarrow> E_TYPE)"

text \<open>
  The number of a verb is passed as an \<^verbatim>\<open>unsigned\<close>, so only its last 32 bits
  count.
\<close>

definition find_described_verb :: "(nat \<Rightarrow> bool) \<Rightarrow> bool \<Rightarrow> db \<Rightarrow> objid \<Rightarrow> var \<Rightarrow> verb_handle option option" where
  "find_described_verb al numeric db oid vdesc =
     (case vdesc of
        TYPE_INT n \<Rightarrow> db_find_indexed_verb db oid (nat (n mod 2 ^ 32))
      | TYPE_STR s \<Rightarrow> db_find_defined_verb al db oid s numeric
      | _ \<Rightarrow> None)"

section \<open>Adding and deleting\<close>

definition bf_add_verb :: "db \<Rightarrow> objid \<Rightarrow> var \<Rightarrow> var \<Rightarrow> objid \<Rightarrow> (db \<times> package) option" where
  "bf_add_verb db oid info args progr =
     (case validate_verb_info db info of
        Inl e \<Rightarrow> Some (db, make_error_pack e)
      | Inr (owner, flags, names) \<Rightarrow>
          (case validate_verb_args args of
             Inl e \<Rightarrow> Some (db, make_error_pack e)
           | Inr (dobj, prep, iobj) \<Rightarrow>
               if \<not> valid db oid then Some (db, make_error_pack E_INVARG)
               else do {
                 w \<leftarrow> db_object_allows db oid progr FLAG_WRITE;
                 if \<not> w \<or> progr \<noteq> owner \<and> \<not> is_wizard db progr then Some (db, make_error_pack E_PERM)
                 else do { (db1, n) \<leftarrow> db_add_verb db oid names owner flags dobj prep iobj;
                           Some (db1, make_var_pack (TYPE_INT (int n))) } }))"

definition bf_delete_verb :: "(nat \<Rightarrow> bool) \<Rightarrow> bool \<Rightarrow> db \<Rightarrow> objid \<Rightarrow> var \<Rightarrow> objid \<Rightarrow> (db \<times> package) option" where
  "bf_delete_verb al numeric db oid vdesc progr = map_option error_result
     (if validate_verb_descriptor vdesc \<noteq> E_NONE then Some (db, validate_verb_descriptor vdesc)
      else if \<not> valid db oid then Some (db, E_INVARG)
      else do {
        w \<leftarrow> db_object_allows db oid progr FLAG_WRITE;
        if \<not> w then Some (db, E_PERM)
        else do { h \<leftarrow> find_described_verb al numeric db oid vdesc;
                  if h \<noteq> None then do { db1 \<leftarrow> db_delete_verb db h; Some (db1, E_NONE) }
                  else Some (db, E_VERBNF) } })"

section \<open>Information\<close>

definition verb_perms :: "16 word \<Rightarrow> string" where
  "verb_perms flags =
     (if flags AND VF_READ \<noteq> 0 then ''r'' else []) @ (if flags AND VF_WRITE \<noteq> 0 then ''w'' else [])
     @ (if flags AND VF_EXEC \<noteq> 0 then ''x'' else []) @ (if flags AND VF_DEBUG \<noteq> 0 then ''d'' else [])"

text \<open>The checks that the functions on one verb begin with.\<close>

definition with_verb ::
  "(nat \<Rightarrow> bool) \<Rightarrow> bool \<Rightarrow> db \<Rightarrow> objid \<Rightarrow> var \<Rightarrow> objid \<Rightarrow> 16 word \<Rightarrow>
   (verb_handle option \<Rightarrow> (db \<times> package) option) \<Rightarrow> (db \<times> package) option" where
  "with_verb al numeric db oid vdesc progr flag f =
     do { h \<leftarrow> find_described_verb al numeric db oid vdesc;
          if h = None then Some (db, make_error_pack E_VERBNF)
          else do { a \<leftarrow> db_verb_allows db h progr flag;
                    if \<not> a then Some (db, make_error_pack E_PERM) else f h } }"

definition described :: "db \<Rightarrow> objid \<Rightarrow> var \<Rightarrow> (db \<times> package) option \<Rightarrow> (db \<times> package) option" where
  "described db oid vdesc r =
     (if validate_verb_descriptor vdesc \<noteq> E_NONE then Some (db, make_error_pack (validate_verb_descriptor vdesc))
      else if \<not> valid db oid then Some (db, make_error_pack E_INVARG)
      else r)"

definition bf_verb_info :: "(nat \<Rightarrow> bool) \<Rightarrow> bool \<Rightarrow> db \<Rightarrow> objid \<Rightarrow> var \<Rightarrow> objid \<Rightarrow> (db \<times> package) option" where
  "bf_verb_info al numeric db oid vdesc progr = described db oid vdesc
     (with_verb al numeric db oid vdesc progr VF_READ
        (\<lambda>h. do { ow \<leftarrow> db_verb_owner db h; flags \<leftarrow> db_verb_flags db h; names \<leftarrow> db_verb_names db h;
                  Some (db, make_var_pack (TYPE_LIST [TYPE_OBJ ow, TYPE_STR (verb_perms flags), TYPE_STR names])) }))"

definition bf_set_verb_info ::
  "(nat \<Rightarrow> bool) \<Rightarrow> bool \<Rightarrow> db \<Rightarrow> objid \<Rightarrow> var \<Rightarrow> var \<Rightarrow> objid \<Rightarrow> (db \<times> package) option" where
  "bf_set_verb_info al numeric db oid vdesc info progr = described db oid vdesc
     (case validate_verb_info db info of
        Inl e \<Rightarrow> Some (db, make_error_pack e)
      | Inr (nowner, nflags, nnames) \<Rightarrow>
          do { h \<leftarrow> find_described_verb al numeric db oid vdesc;
               if h = None then Some (db, make_error_pack E_VERBNF)
               else do {
                 w \<leftarrow> db_verb_allows db h progr VF_WRITE;
                 ow \<leftarrow> db_verb_owner db h;
                 if \<not> w \<or> \<not> is_wizard db progr \<and> ow \<noteq> nowner then Some (db, make_error_pack E_PERM)
                 else do { db1 \<leftarrow> db_set_verb_owner db h nowner;
                           db2 \<leftarrow> db_set_verb_flags db1 h nflags;
                           db3 \<leftarrow> db_set_verb_names db2 h nnames;
                           Some (db3, no_var_pack) } } })"

definition unparse_arg_spec :: "db_arg_spec \<Rightarrow> string option" where
  "unparse_arg_spec spec =
     (if spec = ASPEC_NONE then Some ''none''
      else if spec = ASPEC_ANY then Some ''any''
      else if spec = ASPEC_THIS then Some ''this''
      else None)"

definition bf_verb_args :: "(nat \<Rightarrow> bool) \<Rightarrow> bool \<Rightarrow> db \<Rightarrow> objid \<Rightarrow> var \<Rightarrow> objid \<Rightarrow> (db \<times> package) option" where
  "bf_verb_args al numeric db oid vdesc progr = described db oid vdesc
     (with_verb al numeric db oid vdesc progr VF_READ
        (\<lambda>h. do { (dobj, prep, iobj) \<leftarrow> db_verb_arg_specs db h;
                  d \<leftarrow> unparse_arg_spec dobj; p \<leftarrow> db_unparse_prep prep; i \<leftarrow> unparse_arg_spec iobj;
                  Some (db, make_var_pack (TYPE_LIST [TYPE_STR d, TYPE_STR p, TYPE_STR i])) }))"

definition bf_set_verb_args ::
  "(nat \<Rightarrow> bool) \<Rightarrow> bool \<Rightarrow> db \<Rightarrow> objid \<Rightarrow> var \<Rightarrow> var \<Rightarrow> objid \<Rightarrow> (db \<times> package) option" where
  "bf_set_verb_args al numeric db oid vdesc args progr = described db oid vdesc
     (case validate_verb_args args of
        Inl e \<Rightarrow> Some (db, make_error_pack e)
      | Inr (dobj, prep, iobj) \<Rightarrow>
          with_verb al numeric db oid vdesc progr VF_WRITE
            (\<lambda>h. do { db1 \<leftarrow> db_set_verb_arg_specs db h dobj prep iobj; Some (db1, no_var_pack) }))"

section \<open>Code\<close>

definition bf_verb_code ::
  "(program \<Rightarrow> bool \<Rightarrow> bool \<Rightarrow> string list) \<Rightarrow> program \<Rightarrow> (nat \<Rightarrow> bool) \<Rightarrow> bool \<Rightarrow> db \<Rightarrow>
   objid \<Rightarrow> var \<Rightarrow> var list \<Rightarrow> objid \<Rightarrow> (db \<times> package) option" where
  "bf_verb_code unparse_program null_program al numeric db oid vdesc rest progr =
     (let parens = (rest \<noteq> [] \<and> is_true (hd rest));
          indent = (length rest < 2 \<or> is_true (rest ! 1))
      in described db oid vdesc
           (with_verb al numeric db oid vdesc progr VF_READ
              (\<lambda>h. do { p \<leftarrow> db_verb_program null_program db h;
                        Some (db, make_var_pack (TYPE_LIST (map TYPE_STR (unparse_program p parens indent)))) })))"

text \<open>\<open>parse\<close> gives the program, if there is one, and the list of error messages; \<open>timed_out\<close> is \<^verbatim>\<open>task_timed_out\<close>.\<close>

definition bf_set_verb_code ::
  "(string list \<Rightarrow> program option \<times> var list) \<Rightarrow> bool \<Rightarrow> (nat \<Rightarrow> bool) \<Rightarrow> bool \<Rightarrow> db \<Rightarrow>
   objid \<Rightarrow> var \<Rightarrow> var list \<Rightarrow> objid \<Rightarrow> (db \<times> package) option" where
  "bf_set_verb_code parse timed_out al numeric db oid vdesc code progr =
     (if \<not> list_all (\<lambda>v. case v of TYPE_STR _ \<Rightarrow> True | _ \<Rightarrow> False) code then Some (db, make_error_pack E_TYPE)
      else described db oid vdesc
        (do { h \<leftarrow> find_described_verb al numeric db oid vdesc;
              if h = None then Some (db, make_error_pack E_VERBNF)
              else do {
                w \<leftarrow> (if is_programmer db progr then db_verb_allows db h progr VF_WRITE else Some False);
                if \<not> w then Some (db, make_error_pack E_PERM)
                else (case parse (map (\<lambda>v. case v of TYPE_STR s \<Rightarrow> s | _ \<Rightarrow> []) code) of
                        (prog, errors) \<Rightarrow>
                          do { db1 \<leftarrow> (case prog of
                                        Some p \<Rightarrow> if timed_out then Some db else db_set_verb_program db h p
                                      | None \<Rightarrow> Some db);
                               Some (db1, make_var_pack (TYPE_LIST errors)) }) } }))"

section \<open>Flags and specifiers\<close>

definition small_words :: "16 word list" where
  "small_words = [0, 1, 2, 3, 4, 5, 6, 7, 8, 9, 10, 11, 12, 13, 14, 15]"

lemma small_words_all: "fl \<in> set small_words \<longleftrightarrow> fl AND PERMMASK = fl"
proof
  assume "fl AND PERMMASK = fl"
  then have "take_bit 4 fl = fl" by (simp add: PERMMASK_def take_bit_eq_mask mask_eq_exp_minus_1)
  then have "unat fl = take_bit 4 (unat fl)" by (metis unsigned_take_bit_eq)
  then have "unat fl < 16" using take_bit_nat_less_exp [of 4 "unat fl"] by simp
  then have "unat fl \<in> set [0..<16]" by simp
  then have "word_of_nat (unat fl) \<in> (word_of_nat :: nat \<Rightarrow> 16 word) ` set [0..<16]" by blast
  then show "fl \<in> set small_words" by (simp add: upt_rec small_words_def)
qed (auto simp: small_words_def PERMMASK_def)

lemma perms_parse: "fl AND PERMMASK = fl \<Longrightarrow> parse_flags verb_flag 0 (verb_perms fl) = Some fl"
proof -
  have "list_all (\<lambda>fl. parse_flags verb_flag 0 (verb_perms fl) = Some fl) small_words" by code_simp
  then show "fl AND PERMMASK = fl \<Longrightarrow> ?thesis" by (simp add: list_all_iff small_words_all)
qed

definition specs :: "db_arg_spec list" where "specs = [ASPEC_NONE, ASPEC_ANY, ASPEC_THIS]"

lemma perms_of_parts:
  assumes "fl AND PERMMASK = fl" "d \<in> set specs" "i \<in> set specs"
  shows "perms_of fl d i AND PERMMASK = fl" "dobj_of (perms_of fl d i) = d" "iobj_of (perms_of fl d i) = i"
proof -
  have "list_all (\<lambda>fl. list_all (\<lambda>d. list_all (\<lambda>i. perms_of fl d i AND PERMMASK = fl
     \<and> dobj_of (perms_of fl d i) = d \<and> iobj_of (perms_of fl d i) = i) specs) specs) small_words" by code_simp
  with assms show "perms_of fl d i AND PERMMASK = fl" "dobj_of (perms_of fl d i) = d" "iobj_of (perms_of fl d i) = i"
    by (simp_all add: list_all_iff small_words_all)
qed

lemma parse_flags_small:
  "(\<And>c b. fl c = Some b \<Longrightarrow> b AND m = b) \<Longrightarrow> acc AND m = acc \<Longrightarrow> parse_flags fl acc s = Some r \<Longrightarrow> r AND m = r"
proof (induction s arbitrary: acc)
  case (Cons c s)
  then obtain b where b: "fl c = Some b" "parse_flags fl (acc OR b) s = Some r" by (auto split: option.splits)
  have "(acc OR b) AND m = acc OR b" using Cons.prems(1) [OF b(1)] Cons.prems(2) by (simp add: and.commute bit.conj_disj_distrib)
  with Cons.prems(1) b(2) show ?case using Cons.IH by blast
qed simp

lemma verb_flag_small: "verb_flag c = Some b \<Longrightarrow> b AND PERMMASK = b"
  by (auto simp: verb_flag_def VF_READ_def VF_WRITE_def VF_EXEC_def VF_DEBUG_def PERMMASK_def split: if_splits)

lemma validate_verb_infoD:
  assumes "validate_verb_info db info = Inr (ow, fl, names)"
  shows "fl AND PERMMASK = fl" "valid db ow" "names \<noteq> []"
proof -
  from assms obtain perms ns where "parse_flags verb_flag 0 perms = Some fl" "valid db ow" "names = dropWhile (\<lambda>c. c = CHR '' '') ns" "names \<noteq> []"
    by (auto simp: validate_verb_info_def Let_def split: var.splits list.splits if_splits option.splits)
  with parse_flags_small [of verb_flag PERMMASK 0 perms fl, OF verb_flag_small] show "fl AND PERMMASK = fl" "valid db ow" "names \<noteq> []" by auto
qed

lemma validate_verb_argsD:
  assumes "validate_verb_args args = Inr (d, p, i)"
  shows "d \<in> set specs" "i \<in> set specs"
  using assms by (auto simp: validate_verb_args_def match_arg_spec_def specs_def split: var.splits list.splits if_splits option.splits)

lemma specs_unparse: "d \<in> set specs \<Longrightarrow> \<exists>t. unparse_arg_spec d = Some t \<and> match_arg_spec t = Some d"
proof -
  have "match_arg_spec ''none'' = Some ASPEC_NONE" "match_arg_spec ''any'' = Some ASPEC_ANY" "match_arg_spec ''this'' = Some ASPEC_THIS"
    by code_simp+
  then show "d \<in> set specs \<Longrightarrow> ?thesis"
    by (auto simp: specs_def unparse_arg_spec_def ASPEC_NONE_def ASPEC_ANY_def ASPEC_THIS_def)
qed

section \<open>Reading back\<close>

lemma by_number:
  assumes ok: "db_ok db" and ob: "dbpriv_find_object db x = Some ob" and n: "n < length (o_verbdefs ob)" "Suc n < 2 ^ 32"
  shows "find_described_verb al num db x (TYPE_INT (int (Suc n))) = Some (Some (handle_of x n))"
    "validate_verb_descriptor (TYPE_INT (int (Suc n))) = E_NONE"
    "verbdef_of db (handle_of x n) = Some (o_verbdefs ob ! n)"
proof -
  have "int (Suc n) mod 2 ^ 32 = int (Suc n)" using n(2) by (intro mod_pos_pos_trivial) simp_all
  then have "nat (int (Suc n) mod 2 ^ 32) = Suc n" by simp
  moreover have "o_id ob = x" using props_okD [OF db_okD(5) [OF ok] ob] by (simp add: props_ok_at_def)
  ultimately show "find_described_verb al num db x (TYPE_INT (int (Suc n))) = Some (Some (handle_of x n))"
    using n(1) ob by (simp add: find_described_verb_def db_find_indexed_verb_def del: of_nat_Suc)
qed (use n ob in \<open>simp_all add: validate_verb_descriptor_def verbdef_of_def handle_of_def nth_opt_def\<close>)

definition info_list :: "objid \<Rightarrow> 16 word \<Rightarrow> string \<Rightarrow> var" where
  "info_list ow fl names = TYPE_LIST [TYPE_OBJ ow, TYPE_STR (verb_perms fl), TYPE_STR names]"

text \<open>What the two reading functions give for a verb with given fields.\<close>

lemma read_verb:
  assumes ok: "db_ok db" and ob: "dbpriv_find_object db x = Some ob" and n: "n < length (o_verbdefs ob)" "Suc n < 2 ^ 32"
    and v: "o_verbdefs ob ! n = v" and r: "progr = vd_owner v \<or> is_wizard db progr"
  shows "bf_verb_info al num db x (TYPE_INT (int (Suc n))) progr
      = Some (db, make_var_pack (info_list (vd_owner v) (vd_perms v AND PERMMASK) (vd_name v)))"
    "unparse_arg_spec (dobj_of (vd_perms v)) = Some d \<Longrightarrow> db_unparse_prep (vd_prep v) = p \<Longrightarrow>
     unparse_arg_spec (iobj_of (vd_perms v)) = Some i \<Longrightarrow>
     bf_verb_args al num db x (TYPE_INT (int (Suc n))) progr
      = map_option (\<lambda>p. (db, make_var_pack (TYPE_LIST [TYPE_STR d, TYPE_STR p, TYPE_STR i]))) p"
proof -
  note b = by_number [OF ok ob n] and xv = validI [OF ob]
  have a: "db_verb_allows db (Some (handle_of x n)) progr VF_READ = Some True"
    using b(3) v r by (simp add: db_verb_allows_def db_verb_flags_def db_verb_owner_def)
  show "bf_verb_info al num db x (TYPE_INT (int (Suc n))) progr
      = Some (db, make_var_pack (info_list (vd_owner v) (vd_perms v AND PERMMASK) (vd_name v)))"
    using b v a xv
    by (simp add: bf_verb_info_def described_def with_verb_def db_verb_owner_def db_verb_flags_def db_verb_names_def info_list_def
        del: of_nat_Suc)
  show "bf_verb_args al num db x (TYPE_INT (int (Suc n))) progr
      = map_option (\<lambda>p. (db, make_var_pack (TYPE_LIST [TYPE_STR d, TYPE_STR p, TYPE_STR i]))) p"
    if "unparse_arg_spec (dobj_of (vd_perms v)) = Some d" "db_unparse_prep (vd_prep v) = p"
      "unparse_arg_spec (iobj_of (vd_perms v)) = Some i"
    using b v a xv that
    by (cases p) (simp_all add: bf_verb_args_def described_def with_verb_def db_verb_arg_specs_def del: of_nat_Suc)
qed

lemma add_verb_ok:
  assumes ok: "moo_ok db" and i: "validate_verb_info db info = Inr (ow, fl, names)"
    and a: "validate_verb_args args = Inr (dobj, prep, iobj)"
    and x: "dbpriv_find_object db x = Some ob" and w: "db_object_allows db x progr FLAG_WRITE = Some True"
    and p: "progr = ow \<or> is_wizard db progr" and n: "Suc (length (o_verbdefs ob)) < 2 ^ 32"
  shows "\<exists>db' d t. bf_add_verb db x info args progr
        = Some (db', make_var_pack (TYPE_INT (int (Suc (length (o_verbdefs ob)))))) \<and> moo_ok db'
      \<and> bf_verb_info al num db' x (TYPE_INT (int (Suc (length (o_verbdefs ob))))) progr
          = Some (db', make_var_pack (info_list ow fl names))
      \<and> unparse_arg_spec dobj = Some d \<and> unparse_arg_spec iobj = Some t
      \<and> bf_verb_args al num db' x (TYPE_INT (int (Suc (length (o_verbdefs ob))))) progr
          = map_option (\<lambda>s. (db', make_var_pack (TYPE_LIST [TYPE_STR d, TYPE_STR s, TYPE_STR t]))) (db_unparse_prep (int16 prep))"
proof -
  let ?k = "length (o_verbdefs ob)"
  note vi = validate_verb_infoD [OF i] and va = validate_verb_argsD [OF a]
  define v where "v = \<lparr>vd_name = names, vd_program = None, vd_owner = ow, vd_perms = perms_of fl dobj iobj, vd_prep = int16 prep\<rparr>"
  define ob' where "ob' = ob\<lparr>o_verbdefs := o_verbdefs ob @ [v]\<rparr>"
  define db0 where "db0 = db_priv_affected_callable_verb_lookup db"
  define db' where "db' = db0\<lparr>objects := (objects db0)(x \<mapsto> ob')\<rparr>"
  have f0: "dbpriv_find_object db0 x = Some ob" using x by (simp add: db0_def)
  have run: "db_add_verb db x names ow fl dobj prep iobj = Some (db', Suc ?k)"
    using f0 by (simp add: db_add_verb_def Let_def db0_def [symmetric] modify_obj_Some v_def [symmetric] ob'_def [symmetric] db'_def)
  have ok': "moo_ok db'" by (rule verb_ops_ok(1) [OF ok run])
  have f': "dbpriv_find_object db' x = Some ob'" using f0 by (simp add: db'_def)
  have k: "?k < length (o_verbdefs ob')" "o_verbdefs ob' ! ?k = v" by (simp_all add: ob'_def nth_append)
  have wiz: "is_wizard db' progr = is_wizard db progr"
  proof (rule keeps_wizard)
    have "keeps o_flags db0 db'" unfolding db'_def by (rule keeps_put [OF f0]) (simp add: ob'_def)
    moreover have "keeps o_flags db db0" by (rule keeps_same) (simp add: db0_def)
    ultimately show "keeps o_flags db db'" using keeps_trans by blast
  qed
  have rd: "progr = vd_owner v \<or> is_wizard db' progr" using p wiz by (simp add: v_def)
  obtain d t where dt: "unparse_arg_spec dobj = Some d" "unparse_arg_spec iobj = Some t" using specs_unparse va by metis
  note pp = perms_of_parts [OF vi(1) va]
  have "bf_add_verb db x info args progr = Some (db', make_var_pack (TYPE_INT (int (Suc ?k))))"
    using i a w p run validI [OF x] by (auto simp: bf_add_verb_def)
  moreover have "bf_verb_info al num db' x (TYPE_INT (int (Suc ?k))) progr = Some (db', make_var_pack (info_list ow fl names))"
    using read_verb(1) [OF moo_okD(1) [OF ok'] f' k(1) n k(2) rd] pp(1) by (simp add: v_def)
  moreover have "bf_verb_args al num db' x (TYPE_INT (int (Suc ?k))) progr
      = map_option (\<lambda>s. (db', make_var_pack (TYPE_LIST [TYPE_STR d, TYPE_STR s, TYPE_STR t]))) (db_unparse_prep (int16 prep))"
    by (rule read_verb(2) [OF moo_okD(1) [OF ok'] f' k(1) n k(2) rd]) (use pp dt in \<open>simp_all add: v_def\<close>)
  ultimately show ?thesis using ok' dt by blast
qed

section \<open>Whose permissions a verb runs with\<close>

text \<open>
  A verb runs with the permissions of its owner.  \<open>owners_from\<close>: every verb after
  the call belongs to the programmer or to an owner of a verb of the same object before.
\<close>

definition owners_from :: "objid \<Rightarrow> db \<Rightarrow> db \<Rightarrow> bool" where
  "owners_from progr db db' \<longleftrightarrow>
     (\<forall>x ob'. dbpriv_find_object db' x = Some ob' \<longrightarrow>
        (\<forall>v' \<in> set (o_verbdefs ob'). vd_owner v' = progr \<or>
           (\<exists>ob v. dbpriv_find_object db x = Some ob \<and> v \<in> set (o_verbdefs ob) \<and> vd_owner v = vd_owner v')))"

lemma owners_from_refl [simp]: "owners_from progr db db"
  by (auto simp: owners_from_def)

lemma owners_from_trans: "owners_from p db db1 \<Longrightarrow> owners_from p db1 db2 \<Longrightarrow> owners_from p db db2"
  unfolding owners_from_def by metis

lemma owners_from_same: "dbpriv_find_object db' = dbpriv_find_object db \<Longrightarrow> owners_from p db db'"
  by (auto simp: owners_from_def)

lemma owners_from_put:
  assumes ob: "dbpriv_find_object db x = Some ob"
    and o': "\<And>v'. v' \<in> set (o_verbdefs ob') \<Longrightarrow> vd_owner v' = p \<or> (\<exists>v \<in> set (o_verbdefs ob). vd_owner v = vd_owner v')"
  shows "owners_from p db (db\<lparr>objects := (objects db)(x \<mapsto> ob')\<rparr>)"
  unfolding owners_from_def
proof (intro allI impI ballI)
  fix y oy v' assume a: "dbpriv_find_object (db\<lparr>objects := (objects db)(x \<mapsto> ob')\<rparr>) y = Some oy" "v' \<in> set (o_verbdefs oy)"
  show "vd_owner v' = p \<or> (\<exists>ob v. dbpriv_find_object db y = Some ob \<and> v \<in> set (o_verbdefs ob) \<and> vd_owner v = vd_owner v')"
  proof (cases "y = x")
    case True
    with a ob have "oy = ob'" by simp
    with a(2) o' ob True show ?thesis by auto
  next
    case False
    with a ob show ?thesis by auto
  qed
qed

lemma owners_from_modify_verb:
  assumes m: "modify_verb db h f = Some db'" and f: "\<And>v. verbdef_of db h = Some v \<Longrightarrow> vd_owner (f v) = vd_owner v \<or> vd_owner (f v) = p"
  shows "owners_from p db db'"
proof -
  from m obtain v ob where v: "verbdef_of db h = Some v" and ob: "dbpriv_find_object db (vh_definer h) = Some ob"
    and db': "db' = db\<lparr>objects := (objects db)(vh_definer h \<mapsto> ob\<lparr>o_verbdefs := (o_verbdefs ob)[vh_index h := f v]\<rparr>)\<rparr>"
    by (auto simp: modify_verb_def modify_obj_def bind_eq_Some_conv)
  from v ob have i: "vh_index h < length (o_verbdefs ob)" "o_verbdefs ob ! vh_index h = v"
    by (auto simp: verbdef_of_def nth_opt_def split: if_splits)
  show ?thesis unfolding db'
  proof (rule owners_from_put [OF ob])
    fix v' assume "v' \<in> set (o_verbdefs (ob\<lparr>o_verbdefs := (o_verbdefs ob)[vh_index h := f v]\<rparr>))"
    then consider "v' = f v" | "v' \<in> set (o_verbdefs ob)" using set_update_subset_insert by force
    then show "vd_owner v' = p \<or> (\<exists>v \<in> set (o_verbdefs ob). vd_owner v = vd_owner v')"
    proof cases
      case 1
      with f [OF v] i show ?thesis by (metis nth_mem)
    qed blast
  qed
qed

lemma affected_owners: "owners_from p db (db_priv_affected_callable_verb_lookup db)"
  by (rule owners_from_same) simp

lemma owners_from_ops:
  "db_set_verb_flags db vh fl = Some db' \<Longrightarrow> owners_from p db db'"
  "db_set_verb_names db vh ns = Some db' \<Longrightarrow> owners_from p db db'"
  "db_set_verb_arg_specs db vh d pr i = Some db' \<Longrightarrow> owners_from p db db'"
  "db_set_verb_program db vh prog = Some db' \<Longrightarrow> owners_from p db db'"
  by (auto simp: db_set_verb_flags_def db_set_verb_names_def db_set_verb_arg_specs_def db_set_verb_program_def Let_def bind_eq_Some_conv
      intro: owners_from_trans [OF affected_owners owners_from_modify_verb] owners_from_modify_verb)

lemma owners_from_modify:
  assumes "modify_obj db x f = Some db'"
    and "\<And>ob v'. dbpriv_find_object db x = Some ob \<Longrightarrow> v' \<in> set (o_verbdefs (f ob)) \<Longrightarrow>
       vd_owner v' = p \<or> (\<exists>v \<in> set (o_verbdefs ob). vd_owner v = vd_owner v')"
  shows "owners_from p db db'"
  using assms by (auto simp: modify_obj_def bind_eq_Some_conv intro!: owners_from_put)

lemma owners_from_add:
  assumes "db_add_verb db x names ow fl dobj prep iobj = Some (db', n)" "ow = p"
  shows "owners_from p db db'"
proof -
  let ?db0 = "db_priv_affected_callable_verb_lookup db"
  let ?v = "\<lparr>vd_name = names, vd_program = None, vd_owner = p, vd_perms = perms_of fl dobj iobj, vd_prep = int16 prep\<rparr>"
  from assms have m: "modify_obj ?db0 x (\<lambda>ob. ob\<lparr>o_verbdefs := o_verbdefs ob @ [?v]\<rparr>) = Some db'"
    by (auto simp: db_add_verb_def Let_def bind_eq_Some_conv)
  show ?thesis by (rule owners_from_trans [OF affected_owners owners_from_modify [OF m]]) auto
qed

lemma owners_from_delete:
  assumes "db_delete_verb db vh = Some db'"
  shows "owners_from p db db'"
proof -
  let ?db0 = "db_priv_affected_callable_verb_lookup db"
  from assms obtain h where h: "vh = Some h" by (cases vh) (auto simp: db_delete_verb_def Let_def)
  from assms have m: "modify_obj ?db0 (vh_definer h)
      (\<lambda>ob. ob\<lparr>o_verbdefs := take (vh_index h) (o_verbdefs ob) @ drop (Suc (vh_index h)) (o_verbdefs ob)\<rparr>) = Some db'"
    by (auto simp: db_delete_verb_def Let_def bind_eq_Some_conv h)
  show ?thesis
    by (rule owners_from_trans [OF affected_owners owners_from_modify [OF m]]) (auto dest: in_set_takeD in_set_dropD)
qed

lemma bf_verb_owners:
  assumes "\<not> is_wizard db progr"
  shows "bf_add_verb db x info args progr = Some (db', r) \<Longrightarrow> owners_from progr db db'"
    "bf_delete_verb al num db x vdesc progr = Some (db', r) \<Longrightarrow> owners_from progr db db'"
    "bf_set_verb_info al num db x vdesc info progr = Some (db', r) \<Longrightarrow> owners_from progr db db'"
    "bf_set_verb_args al num db x vdesc args progr = Some (db', r) \<Longrightarrow> owners_from progr db db'"
    "bf_set_verb_code parse to al num db x vdesc code progr = Some (db', r) \<Longrightarrow> owners_from progr db db'"
proof -
  show "owners_from progr db db'" if "bf_add_verb db x info args progr = Some (db', r)"
    using that assms by (auto simp: bf_add_verb_def bind_eq_Some_conv split: sum.splits prod.splits if_splits intro: owners_from_add)
  show "owners_from progr db db'" if "bf_delete_verb al num db x vdesc progr = Some (db', r)"
    using that by (auto simp: bf_delete_verb_def error_result_def bind_eq_Some_conv split: if_splits intro: owners_from_delete)
  show "owners_from progr db db'" if "bf_set_verb_args al num db x vdesc args progr = Some (db', r)"
    using that by (auto simp: bf_set_verb_args_def described_def with_verb_def bind_eq_Some_conv
        split: sum.splits prod.splits if_splits intro: owners_from_ops)
  show "owners_from progr db db'" if r: "bf_set_verb_code parse to al num db x vdesc code progr = Some (db', r)"
  proof -
    obtain pr er where pe: "parse (map (\<lambda>v. case v of TYPE_STR s \<Rightarrow> s | _ \<Rightarrow> []) code) = (pr, er)" using prod.exhaust by blast
    from r show ?thesis unfolding bf_set_verb_code_def described_def pe
      by (cases pr) (auto simp: bind_eq_Some_conv split: if_splits intro: owners_from_ops)
  qed
  show "owners_from progr db db'" if r: "bf_set_verb_info al num db x vdesc info progr = Some (db', r)"
  proof (cases "db' = db")
    case False
    with r assms obtain h ow db1 db2 fl ns where h: "db_verb_owner db (Some h) = Some ow" "db_set_verb_owner db (Some h) ow = Some db1"
      "db_set_verb_flags db1 (Some h) fl = Some db2" "db_set_verb_names db2 (Some h) ns = Some db'"
      by (auto simp: bf_set_verb_info_def described_def bind_eq_Some_conv split: sum.splits prod.splits if_splits)
    have "owners_from progr db db1"
      using h(1,2) by (auto simp: db_set_verb_owner_def db_verb_owner_def intro!: owners_from_modify_verb)
    from owners_from_trans [OF this owners_from_trans [OF owners_from_ops(1) [OF h(3)] owners_from_ops(2) [OF h(4)]]]
    show ?thesis .
  qed simp
qed

end
