(* ===== verification/RandomNumbers.thy ===== *)
theory RandomNumbers
  imports Activations
begin

text \<open>
  \<^verbatim>\<open>random()\<close> of \<^verbatim>\<open>numbers.c\<close>: the generator of the C library delivers numbers below \<open>RANGE\<close>, here
  given as the list of the draws to come, from which an
  integer between 1 and any 64-bit number is made.  The multiplication modulo a number exists
  twice, with integers of double width and, for compilers without them, in halves; the unsigned type
  \<^verbatim>\<open>URNum\<close> is a number with its wrap-around written out.
\<close>

section \<open>Multiplication modulo a number\<close>

definition u64 :: "nat \<Rightarrow> nat" where "u64 n = n mod 2 ^ 64"

definition evil :: "nat list" where
  "evil = [63, 5,62, 4,24,10,61, 3,32,15,23, 9,45,29,60, 2,
           12,34,31,14,52,50,22, 8,48,37,44,28,41,20,59, 1,
           6, 25,11,33,16,46,30,13,35,53,51,49,38,42,21, 7,
           26,17,47,36,54,39,43,27,18,55,40,19,56,57,58, 0]"

definition smear :: "nat \<Rightarrow> nat" where
  "smear v = fold (\<lambda>k v. v OR v div 2 ^ k) [1, 2, 4, 8, 16, 32] v"

definition rlg2 :: "nat \<Rightarrow> nat" where
  "rlg2 v = evil ! (u64 (smear v * 0x03F566ED27179461) div 2 ^ 58)"

text \<open>With a type of 128 bits.\<close>

definition muladdmod :: "nat \<Rightarrow> nat \<Rightarrow> nat \<Rightarrow> nat \<Rightarrow> nat" where
  "muladdmod a b c m = (a * b + c) mod m"

text \<open>In halves.\<close>

definition LO :: "nat \<Rightarrow> nat" where "LO x = x mod 2 ^ 32"

definition HI :: "nat \<Rightarrow> nat" where "HI x = x div 2 ^ 32"

partial_function (option) reduce_hi :: "nat \<Rightarrow> nat \<Rightarrow> nat \<Rightarrow> nat \<Rightarrow> nat option" where
  "reduce_hi m hi d_sh sh =
     (let hi = u64 (hi * 2 ^ d_sh) mod m
      in if hi = 0 then Some 0
         else let d_sh = rlg2 hi
              in if d_sh \<ge> sh then Some (u64 (hi * 2 ^ sh) mod m) else reduce_hi m hi d_sh (sh - d_sh))"

definition muladdmod_halves :: "nat \<Rightarrow> nat \<Rightarrow> nat \<Rightarrow> nat \<Rightarrow> nat option" where
  "muladdmod_halves a b c m =
     (let lo = u64 (LO a * LO b + LO c);
          mi1 = u64 (HI a * LO b + HI c + HI lo);
          mi2 = u64 (LO a * HI b + LO mi1);
          hi = u64 (HI a * HI b + HI mi1 + HI mi2);
          lo = u64 (LO lo + u64 (LO mi2 * 2 ^ 32)) mod m
      in case (if hi \<noteq> 0 then reduce_hi m hi (rlg2 hi) (64 - rlg2 hi) else Some hi) of
           None \<Rightarrow> None
         | Some hi \<Rightarrow> Some (u64 (lo + hi) mod m))"

section \<open>Random numbers\<close>

definition RANGE :: nat where "RANGE = 2 ^ 31"

text \<open>
  One draw after the other: \<open>None\<close> is that the draws are used up.  A draw first goes through the condition of
  the inner loop, which extends the number, then through the two tests of the outer loop.
\<close>

fun random_loop :: "nat \<Rightarrow> nat \<Rightarrow> nat \<Rightarrow> nat list \<Rightarrow> num option" where
  "random_loop num rnd e [] = None"
| "random_loop num rnd e (rnd_next # draws) =
     (let range_l = RANGE mod num
      in if e < num div RANGE \<or> e = num div RANGE \<and> num mod RANGE \<noteq> 0 then
           random_loop num (u64 (u64 (rnd * RANGE) + rnd_next)) (u64 (e * RANGE)) draws
         else if rnd > num div RANGE then Some (1 + int (muladdmod rnd range_l rnd_next num))
         else let rnd = u64 (u64 (rnd * RANGE) + rnd_next); e = muladdmod e range_l 0 num
              in if rnd \<ge> e then Some (1 + int (rnd mod num)) else random_loop num rnd e draws)"

definition bf_random :: "num option \<Rightarrow> nat list \<Rightarrow> package option" where
  "bf_random arg draws =
     (let num = (case arg of Some n \<Rightarrow> n | None \<Rightarrow> NUM_MAX)
      in if num \<le> 0 then Some (make_error_pack E_INVARG)
         else map_option (\<lambda>n. make_var_pack (TYPE_INT n)) (random_loop (nat num) 0 1 draws))"

section \<open>The position of the highest bit\<close>

lemma ex_below_double: "(\<exists>j < 2 * k. P j) \<longleftrightarrow> (\<exists>j < k. P j) \<or> (\<exists>j < k. P (k + j))" for k :: nat
proof
  assume "\<exists>j < 2 * k. P j"
  then obtain j where "j < 2 * k" "P j" by blast
  then show "(\<exists>j < k. P j) \<or> (\<exists>j < k. P (k + j))"
    by (cases "j < k") (auto intro: exI [of _ "j - k"])
next
  assume "(\<exists>j < k. P j) \<or> (\<exists>j < k. P (k + j))"
  then show "\<exists>j < 2 * k. P j"
  proof
    assume "\<exists>j < k. P j"
    then obtain j where "j < k" "P j" by blast
    then have "j < 2 * k \<and> P j" by simp
    then show ?thesis by blast
  next
    assume "\<exists>j < k. P (k + j)"
    then obtain j where "j < k" "P (k + j)" by blast
    then have "k + j < 2 * k \<and> P (k + j)" by simp
    then show ?thesis by blast
  qed
qed

lemma smear_step:
  fixes v w :: nat
  assumes "\<And>i. bit w i \<longleftrightarrow> (\<exists>j < k. bit v (i + j))"
  shows "bit (w OR w div 2 ^ k) i \<longleftrightarrow> (\<exists>j < 2 * k. bit v (i + j))"
proof -
  have "bit (w OR w div 2 ^ k) i \<longleftrightarrow> bit w i \<or> bit w (k + i)"
    by (simp add: bit_or_iff bit_drop_bit_eq flip: drop_bit_eq_div)
  also have "\<dots> \<longleftrightarrow> (\<exists>j < k. bit v (i + j)) \<or> (\<exists>j < k. bit v (i + (k + j)))"
    by (simp add: assms add.commute add.left_commute)
  finally show ?thesis by (simp only: ex_below_double)
qed

lemma smear_bit: "bit (smear v) i \<longleftrightarrow> (\<exists>j < 64. bit v (i + j))"
proof -
  have "bit v i \<longleftrightarrow> (\<exists>j < 1. bit v (i + j))" for i by simp
  from smear_step [OF smear_step [OF smear_step [OF smear_step [OF smear_step [OF smear_step [OF this]]]]]]
  show ?thesis by (simp add: smear_def)
qed

lemma smear_mask:
  assumes "2 ^ h \<le> v" "v < 2 ^ Suc h" "h < 64"
  shows "smear v = 2 ^ Suc h - 1"
proof -
  have "v div 2 ^ h = 1" using assms(1,2) by (intro div_nat_eqI) auto
  then have top: "bit v h" by (simp add: bit_iff_odd)
  have above: "\<not> bit v n" if "h < n" for n
  proof -
    have "v < 2 ^ n" using assms(2) that by (metis Suc_leI order_less_le_trans one_le_numeral power_increasing)
    then show ?thesis by (simp add: bit_iff_odd)
  qed
  have "bit (smear v) i \<longleftrightarrow> i < Suc h" for i
  proof (cases "i \<le> h")
    case True
    then have "h - i < 64 \<and> bit v (i + (h - i))" using top assms(3) by simp
    then show ?thesis using True unfolding smear_bit by auto
  qed (use above in \<open>auto simp: smear_bit\<close>)
  then have "smear v = mask (Suc h)" by (intro bit_eqI) (simp add: bit_mask_iff)
  then show ?thesis by (simp add: mask_eq_exp_minus_1)
qed

lemma below_64: "[0..<64] =
    [0, 1, 2, 3, 4, 5, 6, 7, 8, 9, 10, 11, 12, 13, 14, 15, 16, 17, 18, 19, 20, 21, 22, 23, 24, 25,
     26, 27, 28, 29, 30, 31, 32, 33, 34, 35, 36, 37, 38, 39, 40, 41, 42, 43, 44, 45, 46, 47, 48, 49,
     50, 51, 52, 53, 54, 55, 56, 57, 58, 59, 60, 61, 62, 63]"
  by code_simp

lemma evil_table: "list_all (\<lambda>h. evil ! (u64 ((2 ^ Suc h - 1) * 0x03F566ED27179461) div 2 ^ 58) = 63 - h)
    [0, 1, 2, 3, 4, 5, 6, 7, 8, 9, 10, 11, 12, 13, 14, 15, 16, 17, 18, 19, 20, 21, 22, 23, 24, 25,
     26, 27, 28, 29, 30, 31, 32, 33, 34, 35, 36, 37, 38, 39, 40, 41, 42, 43, 44, 45, 46, 47, 48, 49,
     50, 51, 52, 53, 54, 55, 56, 57, 58, 59, 60, 61, 62, 63]"
  by (simp add: evil_def u64_def)

lemma rlg2_highest:
  assumes "2 ^ h \<le> v" "v < 2 ^ Suc h" "h < 64"
  shows "rlg2 v = 63 - h"
proof -
  have "h \<in> set [0..<64]" using assms(3) by simp
  then show ?thesis
    using evil_table unfolding rlg2_def smear_mask [OF assms] below_64 [symmetric] list_all_iff by blast
qed

section \<open>Equivalence of the two multiplications\<close>

lemma u64_small [simp]: "n < 2 ^ 64 \<Longrightarrow> u64 n = n" by (simp add: u64_def)

lemma reduce_hi_ok:
  assumes m: "0 < m" "m \<le> 2 ^ 63"
  shows "hi * 2 ^ d < 2 ^ 64 \<Longrightarrow> 0 < sh \<Longrightarrow> reduce_hi m hi d sh = Some (hi * 2 ^ (d + sh) mod m)"
proof (induction sh arbitrary: hi d rule: less_induct)
  case (less sh)
  let ?r = "hi * 2 ^ d mod m"
  have goal: "hi * 2 ^ (d + sh) mod m = ?r * 2 ^ sh mod m"
    by (simp add: power_add mod_mult_left_eq flip: mult.assoc)
  have start: "u64 (hi * 2 ^ d) mod m = ?r" using less.prems(1) by simp
  show ?case
  proof (cases "?r = 0")
    case True
    then show ?thesis using goal by (subst reduce_hi.simps) (simp only: start Let_def if_True simp_thms mult_0 mod_0)
  next
    case False
    then obtain h where h: "2 ^ h \<le> ?r" "?r < 2 ^ Suc h" using ex_highest by blast
    have "?r < 2 ^ 63" using m by (meson mod_less_divisor order_less_le_trans)
    with h(1) have "(2 :: nat) ^ h < 2 ^ 63" by simp
    then have "h < 63" by (rule power_less_imp_less_exp [rotated]) simp
    with h have d: "rlg2 ?r = 63 - h" by (intro rlg2_highest) auto
    have shift: "?r * 2 ^ k < 2 ^ 64" if "k \<le> 63 - h" for k
    proof -
      have "?r * 2 ^ k < 2 ^ Suc h * 2 ^ k" using h(2) by simp
      also have "\<dots> = 2 ^ (Suc h + k)" by (rule power_add [symmetric])
      also have "\<dots> \<le> 2 ^ 64" using that \<open>h < 63\<close> by (intro power_increasing) auto
      finally show ?thesis .
    qed
    note unfold = reduce_hi.simps [of m hi d sh] start Let_def if_False if_True d
    show ?thesis
    proof (cases "63 - h \<ge> sh")
      case True
      then show ?thesis unfolding unfold using False shift [OF True] goal by simp
    next
      case big: False
      have "reduce_hi m ?r (63 - h) (sh - (63 - h)) = Some (?r * 2 ^ (63 - h + (sh - (63 - h))) mod m)"
        by (rule less.IH) (use big \<open>h < 63\<close> shift in auto)
      moreover have "63 - h + (sh - (63 - h)) = sh" using big by simp
      ultimately show ?thesis unfolding unfold using False big goal by simp
    qed
  qed
qed

lemma halves: "x = HI x * 2 ^ 32 + LO x" "LO x < 2 ^ 32"
  by (simp_all add: HI_def LO_def)

lemma half_product: "a < 2 ^ 32 \<Longrightarrow> b < 2 ^ 32 \<Longrightarrow> c < 2 ^ 32 \<Longrightarrow> d < 2 ^ 32 \<Longrightarrow> a * b + c + d < (2 ^ 64 :: nat)"
proof -
  assume "a < 2 ^ 32" "b < 2 ^ 32" "c < 2 ^ 32" "d < (2 :: nat) ^ 32"
  then have le: "a \<le> 2 ^ 32 - 1" "b \<le> 2 ^ 32 - 1" "c \<le> 2 ^ 32 - 1" "d \<le> 2 ^ 32 - 1" by simp_all
  have "a * b \<le> (2 ^ 32 - 1) * (2 ^ 32 - 1)" using le(1,2) by (rule mult_le_mono)
  then show ?thesis using le(3,4) by simp
qed

lemma HI_less: "x < 2 ^ 64 \<Longrightarrow> HI x < 2 ^ 32"
  unfolding HI_def by (rule less_mult_imp_div_less) simp

lemma halves_product:
  assumes "a < 2 ^ 64" "b < 2 ^ 64" "c < 2 ^ 64"
  defines "lo \<equiv> LO a * LO b + LO c"
  defines "mi1 \<equiv> HI a * LO b + HI c + HI lo"
  defines "mi2 \<equiv> LO a * HI b + LO mi1"
  defines "hi \<equiv> HI a * HI b + HI mi1 + HI mi2"
  shows "lo < 2 ^ 64" "mi1 < 2 ^ 64" "mi2 < 2 ^ 64" "hi < 2 ^ 64"
    "a * b + c = hi * 2 ^ 64 + (LO lo + LO mi2 * 2 ^ 32)"
proof -
  note h = HI_less [OF assms(1)] HI_less [OF assms(2)] HI_less [OF assms(3)]
  show lo: "lo < 2 ^ 64" unfolding lo_def using half_product [of "LO a" "LO b" "LO c" 0] halves(2) by simp
  show mi1: "mi1 < 2 ^ 64" unfolding mi1_def using half_product h halves(2) HI_less [OF lo] by blast
  show mi2: "mi2 < 2 ^ 64" unfolding mi2_def using half_product [of "LO a" "HI b" "LO mi1" 0] h halves(2) by simp
  show "hi < 2 ^ 64" unfolding hi_def using half_product h HI_less [OF mi1] HI_less [OF mi2] by blast
  have "hi * 2 ^ 64 + (LO lo + LO mi2 * 2 ^ 32)
      = HI a * HI b * 2 ^ 64 + HI mi1 * 2 ^ 64 + (HI mi2 * 2 ^ 32 + LO mi2) * 2 ^ 32 + LO lo"
    unfolding hi_def by (simp add: algebra_simps)
  also have "\<dots> = HI a * HI b * 2 ^ 64 + (HI mi1 * 2 ^ 32 + LO mi1) * 2 ^ 32 + LO a * HI b * 2 ^ 32 + LO lo"
    unfolding halves(1) [of mi2, symmetric] unfolding mi2_def by (simp add: algebra_simps)
  also have "\<dots> = HI a * HI b * 2 ^ 64 + (HI a * LO b + HI c) * 2 ^ 32 + LO a * HI b * 2 ^ 32 + (HI lo * 2 ^ 32 + LO lo)"
    unfolding halves(1) [of mi1, symmetric] unfolding mi1_def by (simp add: algebra_simps)
  also have "\<dots> = (HI a * 2 ^ 32 + LO a) * (HI b * 2 ^ 32 + LO b) + (HI c * 2 ^ 32 + LO c)"
    unfolding halves(1) [of lo, symmetric] unfolding lo_def by (simp add: algebra_simps)
  finally show "a * b + c = hi * 2 ^ 64 + (LO lo + LO mi2 * 2 ^ 32)"
    unfolding halves(1) [symmetric] by simp
qed

lemma muladdmod_halves_split:
  assumes "a < 2 ^ 64" "b < 2 ^ 64" "c < 2 ^ 64"
  obtains hi l where "hi < 2 ^ 64" "a * b + c = hi * 2 ^ 64 + l"
    "muladdmod_halves a b c m =
       (case (if hi \<noteq> 0 then reduce_hi m hi (rlg2 hi) (64 - rlg2 hi) else Some hi) of
          None \<Rightarrow> None | Some h \<Rightarrow> Some (u64 (l mod m + h) mod m))"
proof -
  note p = halves_product [OF assms]
  have l: "LO x * 2 ^ 32 < 2 ^ 64" "LO y + LO x * 2 ^ 32 < 2 ^ 64" for x y
    using halves(2) [of x] halves(2) [of y] by simp_all
  show thesis
    by (rule that [OF p(4,5)])
      (simp only: muladdmod_halves_def Let_def u64_small [OF p(1)] u64_small [OF p(2)] u64_small [OF p(3)]
        u64_small [OF p(4)] u64_small [OF l(1)] u64_small [OF l(2)])
qed

lemma muladdmod_halves_ok:
  assumes "a < 2 ^ 64" "b < 2 ^ 64" "c < 2 ^ 64" "0 < m" "m \<le> 2 ^ 63"
  shows "muladdmod_halves a b c m = Some (muladdmod a b c m)"
proof -
  from muladdmod_halves_split [OF assms(1-3)] obtain hi l where p: "hi < 2 ^ 64" "a * b + c = hi * 2 ^ 64 + l"
    "muladdmod_halves a b c m =
       (case (if hi \<noteq> 0 then reduce_hi m hi (rlg2 hi) (64 - rlg2 hi) else Some hi) of
          None \<Rightarrow> None | Some h \<Rightarrow> Some (u64 (l mod m + h) mod m))" by blast
  have r: "(if hi \<noteq> 0 then reduce_hi m hi (rlg2 hi) (64 - rlg2 hi) else Some hi) = Some (hi * 2 ^ 64 mod m)"
  proof (cases "hi = 0")
    case False
    then obtain h where h: "2 ^ h \<le> hi" "hi < 2 ^ Suc h" using ex_highest by blast
    with p(1) have "(2 :: nat) ^ h < 2 ^ 64" by simp
    then have "h < 64" by (rule power_less_imp_less_exp [rotated]) simp
    with h have s: "rlg2 hi = 63 - h" by (intro rlg2_highest)
    have "hi * 2 ^ (63 - h) < 2 ^ Suc h * 2 ^ (63 - h)" using h(2) by simp
    also have "\<dots> = 2 ^ (Suc h + (63 - h))" by (rule power_add [symmetric])
    finally have "hi * 2 ^ (63 - h) < 2 ^ 64" using \<open>h < 64\<close> by simp
    then show ?thesis using False \<open>h < 64\<close> by (simp add: reduce_hi_ok [OF assms(4,5)] s)
  qed simp
  have "l mod m < m" "hi * 2 ^ 64 mod m < m" using assms(4) by simp_all
  then have "l mod m + hi * 2 ^ 64 mod m < m + m" by (rule add_strict_mono)
  also have "\<dots> \<le> 2 ^ 64" using assms(5) by simp
  finally have "l mod m + hi * 2 ^ 64 mod m < 2 ^ 64" .
  then show ?thesis
    unfolding p(3) r muladdmod_def p(2) by (simp add: mod_add_eq add.commute)
qed

section \<open>Uniformity\<close>

definition draws :: "nat \<Rightarrow> nat list set" where
  "draws n = {ds. length ds = n \<and> set ds \<subseteq> {..<RANGE}}"

text \<open>The number made of a draw, and what a decision does with it.\<close>

definition decide :: "nat \<Rightarrow> nat \<Rightarrow> nat \<Rightarrow> nat list \<Rightarrow> num option" where
  "decide num E w ds =
     (if E < num then random_loop num w E ds
      else if E mod num \<le> w then Some (1 + int (w mod num)) else random_loop num w (E mod num) ds)"

lemma RANGE_pos: "0 < RANGE" by (simp add: RANGE_def)

lemmas range_div = less_eq_div_iff_mult_less_eq [OF RANGE_pos, symmetric]

lemma extend_iff: "e < num div RANGE \<or> e = num div RANGE \<and> num mod RANGE \<noteq> 0 \<longleftrightarrow> e * RANGE < num"
proof
  assume "e < num div RANGE \<or> e = num div RANGE \<and> num mod RANGE \<noteq> 0"
  then show "e * RANGE < num"
  proof
    assume "e < num div RANGE"
    then have "Suc e * RANGE \<le> num" by (simp only: range_div Suc_le_eq)
    then show ?thesis using RANGE_pos by simp
  next
    assume e: "e = num div RANGE \<and> num mod RANGE \<noteq> 0"
    have "e * RANGE + num mod RANGE = num" using e by simp
    then show ?thesis using e by linarith
  qed
next
  assume l: "e * RANGE < num"
  then have "e * RANGE \<le> num" by simp
  then have "e \<le> num div RANGE" by (simp only: range_div)
  moreover have "num mod RANGE \<noteq> 0" if "e = num div RANGE"
    using l that div_mult_mod_eq [of num RANGE] by (metis add_0_right less_irrefl)
  ultimately show "e < num div RANGE \<or> e = num div RANGE \<and> num mod RANGE \<noteq> 0" by linarith
qed

lemma random_loop_Cons:
  "random_loop num rnd e (x # ds) =
     (if e * RANGE < num then random_loop num (u64 (u64 (rnd * RANGE) + x)) (u64 (e * RANGE)) ds
      else if rnd > num div RANGE then Some (1 + int (muladdmod rnd (RANGE mod num) x num))
      else if u64 (u64 (rnd * RANGE) + x) \<ge> muladdmod e (RANGE mod num) 0 num
      then Some (1 + int (u64 (u64 (rnd * RANGE) + x) mod num))
      else random_loop num (u64 (u64 (rnd * RANGE) + x)) (muladdmod e (RANGE mod num) 0 num) ds)"
  by (simp only: random_loop.simps extend_iff Let_def)

lemma scaled_mod: "muladdmod k (RANGE mod num) y num = (k * RANGE + y) mod num"
  unfolding muladdmod_def by (metis mod_add_left_eq mod_mult_right_eq)

lemma random_step:
  assumes "0 < num" "num < 2 ^ 63" "e \<le> num" "r < e" "x < RANGE"
  shows "random_loop num r e (x # ds) = decide num (e * RANGE) (r * RANGE + x) ds"
proof (cases "e * RANGE < num")
  case True
  have "r * RANGE + x < Suc r * RANGE" using assms(5) by simp
  also have "\<dots> \<le> e * RANGE" using assms(4) by (intro mult_le_mono1) simp
  finally have "r * RANGE + x < e * RANGE" .
  then show ?thesis using True assms(2) by (simp add: random_loop_Cons decide_def del: random_loop.simps)
next
  case False
  have lt: "e * RANGE mod num < num" using assms(1) by simp
  show ?thesis
  proof (cases "r > num div RANGE")
    case True
    then have "num < r * RANGE" using RANGE_pos by (simp add: div_less_iff_less_mult)
    then show ?thesis using False True lt by (simp add: random_loop_Cons decide_def scaled_mod del: random_loop.simps)
  next
    case small: False
    then have "r * RANGE \<le> num" by (simp add: range_div not_less)
    then have "r * RANGE + x < 2 ^ 64" using assms(2,5) by (simp add: RANGE_def)
    then show ?thesis using False small by (simp add: random_loop_Cons decide_def scaled_mod del: random_loop.simps)
  qed
qed

text \<open>The ways to get a result with property \<open>Q\<close> from \<open>n\<close> draws, starting from any number below \<open>e\<close>.\<close>

definition ways :: "nat \<Rightarrow> nat \<Rightarrow> nat \<Rightarrow> (num option \<Rightarrow> bool) \<Rightarrow> (nat \<times> nat list) set" where
  "ways num e n Q = {(r, ds). r < e \<and> ds \<in> draws n \<and> Q (random_loop num r e ds)}"

lemma draws_list: "draws n = {ds. set ds \<subseteq> {..<RANGE} \<and> length ds = n}" by (auto simp: draws_def)

lemma finite_draws [simp]: "finite (draws n)" unfolding draws_list by (rule finite_lists_length_eq) simp

lemma card_draws: "card (draws n) = RANGE ^ n" unfolding draws_list by (simp add: card_lists_length_eq)

lemma finite_ways [simp]: "finite (ways num e n Q)"
  by (rule finite_subset [of _ "{..<e} \<times> draws n"]) (auto simp: ways_def)

lemma card_ways_le: "card (ways num e n Q) \<le> e * RANGE ^ n"
proof -
  have "card (ways num e n Q) \<le> card ({..<e} \<times> draws n)" by (rule card_mono) (auto simp: ways_def)
  then show ?thesis by (simp add: card_cartesian_product card_draws)
qed

lemma card_ways_Suc:
  assumes "0 < num" "num < 2 ^ 63" "e \<le> num"
  shows "card (ways num e (Suc n) Q) = card {(w, ds). w < e * RANGE \<and> ds \<in> draws n \<and> Q (decide num (e * RANGE) w ds)}"
    (is "card ?A = card ?B")
proof -
  have below: "r * RANGE + x < e * RANGE" if "r < e" "x < RANGE" for r x
  proof -
    have "r * RANGE + x < Suc r * RANGE" using that(2) by simp
    also have "\<dots> \<le> e * RANGE" using that(1) by (intro mult_le_mono1) simp
    finally show ?thesis .
  qed
  have parts: "w div RANGE < e" "w mod RANGE < RANGE" if "w < e * RANGE" for w
    using that RANGE_pos by (auto intro: less_mult_imp_div_less)
  have "bij_betw (\<lambda>(r, ds). (r * RANGE + hd ds, tl ds)) ?A ?B"
  proof (rule bij_betw_byWitness [where f' = "\<lambda>(w, ds). (w div RANGE, w mod RANGE # ds)"])
    show "\<forall>p\<in>?A. (case case p of (r, ds) \<Rightarrow> (r * RANGE + hd ds, tl ds) of (w, ds) \<Rightarrow> (w div RANGE, w mod RANGE # ds)) = p"
      by (auto simp: ways_def draws_def length_Suc_conv)
    show "\<forall>p\<in>?B. (case case p of (w, ds) \<Rightarrow> (w div RANGE, w mod RANGE # ds) of (r, ds) \<Rightarrow> (r * RANGE + hd ds, tl ds)) = p"
      by auto
    show "(\<lambda>(r, ds). (r * RANGE + hd ds, tl ds)) ` ?A \<subseteq> ?B"
      by (auto simp: ways_def draws_def length_Suc_conv random_step [OF assms] below simp del: random_loop.simps)
    show "(\<lambda>(w, ds). (w div RANGE, w mod RANGE # ds)) ` ?B \<subseteq> ?A"
      by (auto simp: ways_def draws_def random_step [OF assms] parts simp del: random_loop.simps)
  qed
  then show ?thesis by (rule bij_betw_same_card)
qed

lemma one_in_block:
  fixes m :: nat
  assumes "0 < m" "u < m"
  shows "card {w. a \<le> w \<and> w < a + m \<and> w mod m = u} = (1 :: nat)"
proof -
  have inj: "inj_on (\<lambda>w. w mod m) {a..<a + m}"
  proof (rule linorder_inj_onI)
    fix x y assume "x < y" "x \<in> {a..<a + m}" "y \<in> {a..<a + m}"
    then have "0 < y - x" "y - x < m" by auto
    then have "\<not> m dvd y - x" by (auto dest: dvd_imp_le)
    then show "x mod m \<noteq> y mod m" using \<open>x < y\<close> by (metis mod_eq_dvd_iff_nat nat_less_le)
  qed auto
  have "(\<lambda>w. w mod m) ` {a..<a + m} = {..<m}"
    by (rule card_subset_eq) (use assms in \<open>auto simp: card_image [OF inj]\<close>)
  with assms(2) obtain w where w: "w \<in> {a..<a + m}" "w mod m = u" by (metis imageE lessThan_iff)
  have "{w. a \<le> w \<and> w < a + m \<and> w mod m = u} = {w}"
    using w inj_onD [OF inj] by auto
  then show ?thesis by simp
qed

lemma many_in_blocks:
  fixes m :: nat
  assumes "0 < m" "u < m"
  shows "card {w. a \<le> w \<and> w < a + k * m \<and> w mod m = u} = (k :: nat)"
proof (induction k)
  case (Suc k)
  let ?S = "\<lambda>b c. {w. b \<le> w \<and> w < c \<and> w mod m = u}"
  have "?S a (a + Suc k * m) = ?S a (a + k * m) \<union> ?S (a + k * m) (a + k * m + m)" by auto
  moreover have "card (?S a (a + k * m) \<union> ?S (a + k * m) (a + k * m + m)) = k + 1"
    by (subst card_Un_disjoint) (auto simp: Suc.IH one_in_block [OF assms])
  ultimately show ?case by simp
qed simp

lemma card_decision:
  assumes "0 < num" "num \<le> E" "v \<in> {1..int num}"
  shows "card {(w, ds). w < E \<and> ds \<in> draws n \<and> decide num E w ds = Some v}
    = E div num * RANGE ^ n + card (ways num (E mod num) n (\<lambda>x. x = Some v))"
proof -
  define W where "W = {w. E mod num \<le> w \<and> w < E \<and> w mod num = nat (v - 1)}"
  have E: "E = E mod num + E div num * num" by simp
  have "card W = E div num"
    unfolding W_def by (subst (2) E, rule many_in_blocks) (use assms in auto)
  moreover have "{(w, ds). w < E \<and> ds \<in> draws n \<and> decide num E w ds = Some v}
      = W \<times> draws n \<union> ways num (E mod num) n (\<lambda>x. x = Some v)"
  proof -
    have lt: "w < E" if "w < E mod num" for w using that assms(1,2) by (meson mod_less_divisor less_trans order_less_le_trans)
    show ?thesis using assms lt unfolding W_def ways_def decide_def by (auto split: if_splits)
  qed
  moreover have "finite W" unfolding W_def by simp
  moreover have "(W \<times> draws n) \<inter> ways num (E mod num) n (\<lambda>x. x = Some v) = {}"
    unfolding W_def ways_def by auto
  ultimately show ?thesis by (simp add: card_Un_disjoint card_cartesian_product card_draws)
qed

lemma ways_uniform:
  assumes "0 < num" "num < 2 ^ 63" "v \<in> {1..int num}" "v' \<in> {1..int num}"
  shows "e \<le> num \<Longrightarrow> card (ways num e n (\<lambda>x. x = Some v)) = card (ways num e n (\<lambda>x. x = Some v'))"
proof (induction n arbitrary: e)
  case 0
  have "ways num e 0 (\<lambda>x. x = Some z) = {}" for z by (auto simp: ways_def draws_def)
  then show ?case by simp
next
  case (Suc n)
  show ?case
  proof (cases "e * RANGE < num")
    case True
    then show ?thesis
      using Suc.IH [of "e * RANGE"] unfolding card_ways_Suc [OF assms(1,2) Suc.prems]
      by (simp add: decide_def ways_def)
  next
    case False
    then have "num \<le> e * RANGE" by simp
    note d = card_decision [OF assms(1) this]
    show ?thesis
      using Suc.IH [of "e * RANGE mod num"] assms(1)
      unfolding card_ways_Suc [OF assms(1,2) Suc.prems] d [OF assms(3)] d [OF assms(4)] by simp
  qed
qed

lemma random_loop_range:
  assumes "0 < num" "num < 2 ^ 63"
  shows "e \<le> num \<Longrightarrow> r < e \<Longrightarrow> set ds \<subseteq> {..<RANGE} \<Longrightarrow> random_loop num r e ds = Some v \<Longrightarrow> v \<in> {1..int num}"
proof (induction ds arbitrary: r e)
  case (Cons x ds)
  have lt: "r * RANGE + x < e * RANGE"
  proof -
    have "r * RANGE + x < Suc r * RANGE" using Cons.prems(3) by simp
    also have "\<dots> \<le> e * RANGE" using Cons.prems(2) by (intro mult_le_mono1) simp
    finally show ?thesis .
  qed
  from Cons.prems have "decide num (e * RANGE) (r * RANGE + x) ds = Some v"
    by (simp add: random_step [OF assms] del: random_loop.simps)
  with Cons.prems(3) lt assms(1) show ?case
    using Cons.IH [of "e * RANGE" "r * RANGE + x"] Cons.IH [of "e * RANGE mod num" "r * RANGE + x"]
    unfolding decide_def by (auto split: if_splits simp: less_imp_le Suc_leI simp flip: of_nat_Suc)
qed simp

text \<open>With enough draws for one decision, more than half of the sequences of draws give a result.\<close>

lemma ways_decide:
  assumes "0 < num" "num < 2 ^ 63"
  shows "e \<le> num \<Longrightarrow> 0 < e \<Longrightarrow> num \<le> e * RANGE ^ n \<Longrightarrow> 0 < n \<Longrightarrow> 2 * card (ways num e n (\<lambda>x. x = None)) < e * RANGE ^ n"
proof (induction n arbitrary: e)
  case (Suc n)
  show ?case
  proof (cases "e * RANGE < num")
    case True
    then have "n \<noteq> 0" using Suc.prems(3) by (auto intro!: gr0I)
    moreover have "num \<le> e * RANGE * RANGE ^ n" using Suc.prems(3) by (simp add: mult.assoc)
    ultimately have "2 * card (ways num (e * RANGE) n (\<lambda>x. x = None)) < e * RANGE * RANGE ^ n"
      using Suc.IH [of "e * RANGE"] True Suc.prems(2) RANGE_pos by simp
    then show ?thesis using True unfolding card_ways_Suc [OF assms Suc.prems(1)]
      by (simp add: decide_def ways_def mult.assoc)
  next
    case False
    let ?E = "e * RANGE"
    have "{(w, ds). w < ?E \<and> ds \<in> draws n \<and> decide num ?E w ds = None} = ways num (?E mod num) n (\<lambda>x. x = None)"
      using False assms(1) unfolding ways_def decide_def
      by (auto split: if_splits dest: less_trans [OF _ mod_less_divisor] intro: less_le_trans)
    then have le: "card (ways num e (Suc n) (\<lambda>x. x = None)) \<le> ?E mod num * RANGE ^ n"
      unfolding card_ways_Suc [OF assms Suc.prems(1)] using card_ways_le by simp
    have "2 * (?E mod num) < ?E"
    proof -
      have "?E mod num < num" "num \<le> ?E" using assms(1) False by simp_all
      then have "?E mod num \<le> ?E - num" by (metis le_mod_geq mod_less_eq_dividend)
      then show ?thesis using \<open>?E mod num < num\<close> \<open>num \<le> ?E\<close> by linarith
    qed
    moreover have "0 < RANGE ^ n" using RANGE_pos by simp
    ultimately have "2 * (?E mod num) * RANGE ^ n < ?E * RANGE ^ n" by (simp only: mult_less_cancel2 simp_thms)
    with le have "2 * card (ways num e (Suc n) (\<lambda>x. x = None)) < ?E * RANGE ^ n" by linarith
    then show ?thesis by (simp add: mult.assoc)
  qed
qed simp

definition random_results :: "num \<Rightarrow> nat \<Rightarrow> package option \<Rightarrow> nat list set" where
  "random_results num n r = {ds \<in> draws n. bf_random (Some num) ds = r}"

lemma card_ways_one: "card (ways num 1 n Q) = card {ds \<in> draws n. Q (random_loop num 0 1 ds)}"
proof -
  have "ways num 1 n Q = Pair 0 ` {ds \<in> draws n. Q (random_loop num 0 1 ds)}" by (auto simp: ways_def)
  then show ?thesis by (simp add: card_image inj_on_def)
qed

lemma card_random_results:
  "0 < num \<Longrightarrow> card (random_results num n (Some (make_var_pack (TYPE_INT v)))) = card (ways (nat num) 1 n (\<lambda>x. x = Some v))"
  "0 < num \<Longrightarrow> card (random_results num n None) = card (ways (nat num) 1 n (\<lambda>x. x = None))"
  unfolding card_ways_one random_results_def
  by (auto intro!: arg_cong [of _ _ card] simp: bf_random_def make_var_pack_def split: option.splits)

end
