(* ===== verification/Utf.thy ===== *)
theory Utf
  imports CStrings
begin

text \<open>
  UTF-8 in C strings (\<^verbatim>\<open>utf.c\<close>, \<^verbatim>\<open>utf.h\<close>): reading and writing one
  character and the translation between positions counted in characters and in bytes.  A
  reader returns the character and the number of bytes it advanced; at the end of the string it
  reads the terminating NUL and advances over it.
\<close>

section \<open>Reading and writing characters\<close>

definition INVALID_RUNE :: nat where "INVALID_RUNE = 0xfffd"

definition is_utf8_cont_byte :: "char \<Rightarrow> bool" where
  "is_utf8_cont_byte b \<longleftrightarrow> (of_char b :: nat) div 64 = 2"

text \<open>The macro \<^verbatim>\<open>GET_CONT\<close>, repeated: \<open>k\<close> bytes are still expected, \<open>n\<close> have been read.\<close>

fun get_conts :: "nat \<Rightarrow> nat \<Rightarrow> string \<Rightarrow> nat \<Rightarrow> nat option \<times> nat" where
  "get_conts 0 v s n = (Some v, n)"
| "get_conts (Suc k) v [] n = (None, n)"
| "get_conts (Suc k) v (b # s) n =
     (let c = (of_char b + 128) mod 256
      in if c > 0x3f then (None, n) else get_conts k (v * 64 + c) s (Suc n))"

definition rune :: "(nat \<Rightarrow> bool) \<Rightarrow> nat option \<times> nat \<Rightarrow> nat \<times> nat" where
  "rune bad r = (case fst r of None \<Rightarrow> INVALID_RUNE | Some v \<Rightarrow> if bad v then INVALID_RUNE else v, snd r)"

definition get_utf :: "string \<Rightarrow> nat \<times> nat" where
  "get_utf s =
     (case s of
        [] \<Rightarrow> (0, 1)
      | b # t \<Rightarrow>
          let c = of_char b
          in if c \<le> 0x7f then (c, 1)
             else if c \<le> 0xbf then (INVALID_RUNE, 1)
             else if c \<le> 0xdf then rune (\<lambda>v. v \<le> 0x7f) (get_conts 1 (c mod 32) t 1)
             else if c \<le> 0xef then
               rune (\<lambda>v. v \<le> 0x7ff \<or> v \<ge> 0xd800 \<and> v \<le> 0xdfff) (get_conts 2 (c mod 16) t 1)
             else if c \<le> 0xf7 then
               rune (\<lambda>v. v \<le> 0xffff \<or> v > 0x10ffff) (get_conts 3 (c mod 8) t 1)
             else (INVALID_RUNE, 1))"

text \<open>\<open>None\<close> is the return value -1: nothing has been written.\<close>

definition put_utf :: "nat \<Rightarrow> string option" where
  "put_utf v =
     (if v \<le> 0x7f then Some [char_of v]
      else if v \<le> 0x7ff then Some [char_of (0xc0 + v div 64), char_of (0x80 + v mod 64)]
      else if v \<le> 0xffff then
        if 0xd800 \<le> v \<and> v \<le> 0xdfff then None
        else Some [char_of (0xe0 + v div 4096), char_of (0x80 + v div 64 mod 64), char_of (0x80 + v mod 64)]
      else if v \<le> 0x10ffff then
        Some [char_of (0xf0 + v div 262144), char_of (0x80 + v div 4096 mod 64),
              char_of (0x80 + v div 64 mod 64), char_of (0x80 + v mod 64)]
      else None)"

definition clearance_utf :: "char \<Rightarrow> nat" where
  "clearance_utf b =
     (let c = (of_char b :: nat)
      in if c \<le> 0x7f then 1 else if c \<le> 0xbf then 1 else if c \<le> 0xdf then 2
         else if c \<le> 0xef then 3 else if c \<le> 0xf7 then 4 else 1)"

definition char_size :: "nat \<Rightarrow> nat" where
  "char_size c = 1 + (if c > 0x7f then 1 else 0) + (if c > 0x77f then 1 else 0) + (if c > 0xffff then 1 else 0)"

text \<open>
  \<^verbatim>\<open>get_utf_call\<close> reads bytes from a client; the input is the list of the bytes to come and reading
  past its end is EOF, -1.  The byte is a signed number here, so the test of the
  continuation byte lets every number below 128 pass.
\<close>

definition c_getch :: "int list \<Rightarrow> int \<times> int list" where
  "c_getch inp = (case inp of [] \<Rightarrow> (-1, []) | c # cs \<Rightarrow> (c, cs))"

fun call_conts :: "nat \<Rightarrow> int \<Rightarrow> int list \<Rightarrow> (int + int) \<times> int list" where
  "call_conts 0 v inp = (Inr v, inp)"
| "call_conts (Suc k) v inp =
     (let (cc, inp') = c_getch inp; c = cc - 0x80
      in if c > 0x3f then (Inl cc, inp') else call_conts k (v * 64 + c) inp')"

definition call_rune :: "(int \<Rightarrow> bool) \<Rightarrow> (int + int) \<times> int list \<Rightarrow> int \<times> int list \<times> int" where
  "call_rune bad r =
     (case fst r of
        Inl cc \<Rightarrow> (int INVALID_RUNE, snd r, cc)
      | Inr v \<Rightarrow> (if bad v then int INVALID_RUNE else v, snd r, -1))"

definition get_utf_call :: "int list \<Rightarrow> int \<Rightarrow> int \<times> int list \<times> int" where
  "get_utf_call inp state =
     (let (c, inp) = (if state \<noteq> -1 then (state, inp) else c_getch inp)
      in if state = -1 \<and> c = -1 then (-1, inp, state)
         else if c \<le> 0x7f then (c, inp, -1)
         else if c \<le> 0xbf then (int INVALID_RUNE, inp, -1)
         else if c \<le> 0xdf then call_rune (\<lambda>v. v \<le> 0x7f) (call_conts 1 (c mod 32) inp)
         else if c \<le> 0xef then
           call_rune (\<lambda>v. v \<le> 0x7ff \<or> v \<ge> 0xd800 \<and> v \<le> 0xdfff) (call_conts 2 (c mod 16) inp)
         else if c \<le> 0xf7 then
           call_rune (\<lambda>v. v \<le> 0xffff \<or> v > 0x10ffff) (call_conts 3 (c mod 8) inp)
         else (int INVALID_RUNE, inp, -1))"

lemma get_conts_bounds: "n \<le> snd (get_conts k v s n)" "snd (get_conts k v s n) \<le> n + k"
  by (induction k v s n rule: get_conts.induct) (auto simp: Let_def)

lemma get_utf_pos: "1 \<le> snd (get_utf s)"
  using get_conts_bounds(1)[of 1] by (auto simp: get_utf_def Let_def rune_def split: list.splits)

lemma get_utf_Nil [simp]: "get_utf [] = (0, 1)" by (simp add: get_utf_def)

lemma get_utf_shrinks: "0 < fst (get_utf s) \<Longrightarrow> length s - snd (get_utf s) < length s"
  using get_utf_pos [of s] by (cases s) auto

lemma get_utf_advances: "s \<noteq> [] \<Longrightarrow> length s - snd (get_utf s) < length s"
  using get_utf_pos [of s] by (cases s) auto

section \<open>Positions\<close>

text \<open>\<open>pos\<close> is \<^verbatim>\<open>s - s0\<close>.\<close>

function byte_index_loop :: "string \<Rightarrow> nat \<Rightarrow> int \<Rightarrow> int" where
  "byte_index_loop s pos ci =
     (let (v, n) = get_utf s; ci' = ci - 1
      in if v \<noteq> 0 \<and> ci' > 1 then byte_index_loop (drop n s) (pos + n) ci' else int (pos + n) + ci')"
  by pat_completeness auto
termination
  by (relation "measure (\<lambda>(s, _). length s)") (auto dest: arg_cong [of _ _ fst] intro: get_utf_shrinks simp: prod_eq_iff)

definition utf_byte_index :: "string \<Rightarrow> num \<Rightarrow> num" where
  "utf_byte_index s0 ci = (if ci \<le> 1 then ci else byte_index_loop s0 0 ci)"

text \<open>
  \<^verbatim>\<open>utf_byte_range\<close> visits the two positions in ascending order; \<open>cis\<close> are those not yet done,
  \<open>cn\<close> is the number of the character at \<open>pos\<close>.
\<close>

function byte_range_loop :: "string \<Rightarrow> nat \<Rightarrow> int \<Rightarrow> int list \<Rightarrow> int list" where
  "byte_range_loop s pos cn cis =
     (let hits = takeWhile (\<lambda>c. c = cn) cis; rest = dropWhile (\<lambda>c. c = cn) cis;
          done = map (\<lambda>_. int pos + 1) hits
      in if rest = [] then done
         else let (v, n) = get_utf s
              in done @ (if v \<noteq> 0 then byte_range_loop (drop n s) (pos + n) (cn + 1) rest
                         else map (\<lambda>c. c + (int (pos + n) - (cn + 1) + 1)) rest))"
  by pat_completeness auto
termination
  by (relation "measure (\<lambda>(s, _). length s)") (auto dest: arg_cong [of _ _ fst] intro: get_utf_shrinks simp: prod_eq_iff)

definition utf_byte_range :: "string \<Rightarrow> num \<times> num \<Rightarrow> num \<times> num" where
  "utf_byte_range s0 cis =
     (let (a, b) = cis; sw = a > b; order = (if sw then [b, a] else [a, b]);
          low = takeWhile (\<lambda>c. c \<le> 0) order; rest = dropWhile (\<lambda>c. c \<le> 0) order;
          r = low @ (if rest = [] then [] else byte_range_loop s0 0 1 rest)
      in if sw then (r ! 1, r ! 0) else (r ! 0, r ! 1))"

text \<open>
  \<^verbatim>\<open>utf_char_index\<close> walks backwards over whole characters; \<open>p\<close> is the number of bytes before
  the pointer.  Reading outside the string is \<open>None\<close>, as is the panic.
\<close>

fun char_start :: "string \<Rightarrow> nat \<Rightarrow> nat option" where
  "char_start s0 0 = None"
| "char_start s0 (Suc q) =
     (if q > length s0 then None
      else if q < length s0 \<and> is_utf8_cont_byte (s0 ! q) then char_start s0 q else Some q)"

lemma char_start_less: "char_start s0 p = Some q \<Longrightarrow> q < p"
  by (induction s0 p rule: char_start.induct) (auto split: if_splits)

function char_index_loop :: "string \<Rightarrow> nat \<Rightarrow> int \<Rightarrow> int option" where
  "char_index_loop s0 p ci =
     (if p = 0 then Some ci
      else case char_start s0 p of None \<Rightarrow> None | Some q \<Rightarrow> char_index_loop s0 q (ci + 1))"
  by pat_completeness auto
termination by (relation "measure (\<lambda>(_, p, _). p)") (auto dest: char_start_less)

definition utf_char_index :: "string \<Rightarrow> num \<Rightarrow> num option" where
  "utf_char_index s0 bi =
     (if s0 \<noteq> [] \<and> is_utf8_cont_byte (hd s0) then None else char_index_loop s0 (nat (bi - 1)) 1)"

function memo_strlen_utf :: "string \<Rightarrow> nat" where
  "memo_strlen_utf s = (let (v, n) = get_utf s in if v \<noteq> 0 then Suc (memo_strlen_utf (drop n s)) else 0)"
  by pat_completeness auto
termination
  by (relation "measure length") (auto dest: arg_cong [of _ _ fst] intro: get_utf_shrinks simp: prod_eq_iff)

declare byte_index_loop.simps [simp del] byte_range_loop.simps [simp del] char_index_loop.simps [simp del]
  memo_strlen_utf.simps [simp del]

section \<open>Round trips\<close>

lemma get_conts_Suc_char:
  assumes "a < 64"
  shows "get_conts (Suc k) v (char_of (0x80 + a :: nat) # s) n = get_conts k (v * 64 + a) s (Suc n)"
  using assms by (simp add: of_char_of Let_def)

lemma div_step: "v div (m * 64) * 64 + v div m mod 64 = v div (m :: nat)"
  by (simp add: div_mult2_eq)

lemma head_byte:
  assumes "a < m" "0 < m" "h mod m = 0" "h + m \<le> 256"
  shows "of_char (char_of (h + a) :: char) = h + a" "(h + a) mod m = (a :: nat)"
proof -
  show "of_char (char_of (h + a) :: char) = h + a" using assms by (simp add: of_char_of)
  have "(h + a) mod m = (h mod m + a) mod m" by (rule mod_add_left_eq [symmetric])
  then show "(h + a) mod m = a" using assms by simp
qed

lemma get_utf_lead:
  "a < 32 \<Longrightarrow> get_utf (char_of (0xc0 + a) # t) = rune (\<lambda>v. v \<le> 0x7f) (get_conts (Suc 0) a t 1)"
  "a < 16 \<Longrightarrow> get_utf (char_of (0xe0 + a) # t)
     = rune (\<lambda>v. v \<le> 0x7ff \<or> v \<ge> 0xd800 \<and> v \<le> 0xdfff) (get_conts (Suc (Suc 0)) a t 1)"
  "a < 8 \<Longrightarrow> get_utf (char_of (0xf0 + a) # t)
     = rune (\<lambda>v. v \<le> 0xffff \<or> v > 0x10ffff) (get_conts (Suc (Suc (Suc 0))) a t 1)"
  using head_byte [of a 32 "0xc0"] head_byte [of a 16 "0xe0"] head_byte [of a 8 "0xf0"]
  by (simp_all add: get_utf_def Let_def numeral_2_eq_2 numeral_3_eq_3)

lemma put_utf_cases:
  assumes "put_utf v = Some bs"
  obtains (1) "v \<le> 0x7f" "bs = [char_of v]"
  | (2) "0x7f < v" "v \<le> 0x7ff" "bs = [char_of (0xc0 + v div 64), char_of (0x80 + v mod 64)]"
  | (3) "0x7ff < v" "v \<le> 0xffff" "\<not> (0xd800 \<le> v \<and> v \<le> 0xdfff)"
      "bs = [char_of (0xe0 + v div 4096), char_of (0x80 + v div 64 mod 64), char_of (0x80 + v mod 64)]"
  | (4) "0xffff < v" "v \<le> 0x10ffff" "bs = [char_of (0xf0 + v div 262144), char_of (0x80 + v div 4096 mod 64),
              char_of (0x80 + v div 64 mod 64), char_of (0x80 + v mod 64)]"
  using assms unfolding put_utf_def by (auto split: if_splits)

lemma get_put_utf:
  assumes "put_utf v = Some bs"
  shows "get_utf (bs @ t) = (v, length bs)"
proof -
  have d: "v div 64 * 64 + v mod 64 = v" "v div 4096 * 64 + v div 64 mod 64 = v div 64"
    "v div 262144 * 64 + v div 4096 mod 64 = v div 4096"
    using div_step [of v 64] div_step [of v 4096] by simp_all
  have m: "v mod 64 < 64" "v div 64 mod 64 < 64" "v div 4096 mod 64 < 64" by simp_all
  from assms show ?thesis
  proof (cases rule: put_utf_cases)
    case 1 then show ?thesis by (simp add: of_char_of get_utf_def)
  next
    case 2
    then have "v div 64 < 32" by auto
    with 2 show ?thesis
      by (simp only: append.simps get_utf_lead get_conts_Suc_char m d get_conts.simps(1)) (simp add: rune_def)
  next
    case 3
    then have "v div 4096 < 16" by auto
    with 3 show ?thesis
      by (simp only: append.simps get_utf_lead get_conts_Suc_char m d get_conts.simps(1)) (auto simp: rune_def)
  next
    case 4
    then have "v div 262144 < 8" by auto
    with 4 show ?thesis
      by (simp only: append.simps get_utf_lead get_conts_Suc_char m d get_conts.simps(1)) (simp add: rune_def)
  qed
qed

lemma put_utf_shape:
  assumes "put_utf v = Some bs"
  obtains c cs where "bs = c # cs" "\<not> is_utf8_cont_byte c" "\<forall>x\<in>set cs. is_utf8_cont_byte x"
    "length bs = clearance_utf c"
proof -
  have tail: "is_utf8_cont_byte (char_of (0x80 + a :: nat))" if "a < 64" for a
    using that by (simp add: is_utf8_cont_byte_def of_char_of)
  have lead: "\<not> is_utf8_cont_byte (char_of (h + a :: nat))" if "h + a < 256" "0xc0 \<le> h \<or> h + a < 128" for h a
  proof -
    from that(2) have "h + a < 128 \<or> 192 \<le> h + a" by auto
    then have "(h + a) div 64 \<noteq> 2" by linarith
    with that show ?thesis by (simp add: is_utf8_cont_byte_def of_char_of)
  qed
  have size: "clearance_utf (char_of (h + a :: nat)) = (if h + a \<le> 0x7f then 1 else if h + a \<le> 0xbf then 1
      else if h + a \<le> 0xdf then 2 else if h + a \<le> 0xef then 3 else if h + a \<le> 0xf7 then 4 else 1)"
    if "h + a < 256" for h a using that by (simp add: clearance_utf_def of_char_of)
  from assms show thesis
  proof (cases rule: put_utf_cases)
    case 1 then show thesis using that [of "char_of v" "[]"] lead [of 0 v] size [of 0 v] by simp
  next
    case 2
    then have h: "v div 64 < 32" by auto
    show thesis using that [OF 2(3) lead] h tail size [of "0xc0" "v div 64"] 2(3) by simp
  next
    case 3
    then have h: "v div 4096 < 16" by auto
    show thesis using that [OF 3(4) lead] h tail size [of "0xe0" "v div 4096"] 3(4) by simp
  next
    case 4
    then have h: "v div 262144 < 8" by auto
    show thesis using that [OF 4(3) lead] h tail size [of "0xf0" "v div 262144"] 4(3) by simp
  qed
qed

definition encode :: "nat list \<Rightarrow> string" where
  "encode vs = concat (map (\<lambda>v. the (put_utf v)) vs)"

definition runes :: "nat list \<Rightarrow> bool" where
  "runes vs \<longleftrightarrow> (\<forall>v\<in>set vs. v \<noteq> 0 \<and> put_utf v \<noteq> None)"

lemma encode_simps [simp]:
  "encode [] = []" "encode (v # vs) = the (put_utf v) @ encode vs" "encode (vs @ ws) = encode vs @ encode ws"
  by (simp_all add: encode_def)

lemma runes_Cons [simp]: "runes (v # vs) \<longleftrightarrow> v \<noteq> 0 \<and> (\<exists>bs. put_utf v = Some bs) \<and> runes vs"
  by (auto simp: runes_def)

lemma runes_Nil [simp]: "runes []" by (simp add: runes_def)

text \<open>The number of bytes before character number \<open>k\<close>, counted from 0; beyond the end characters are bytes.\<close>

definition bytes_before :: "nat list \<Rightarrow> nat \<Rightarrow> nat" where
  "bytes_before vs k = length (encode (take k vs)) + (k - length vs)"

lemma memo_strlen_encode: "runes vs \<Longrightarrow> memo_strlen_utf (encode vs) = length vs"
proof (induction vs)
  case (Cons v vs)
  then show ?case by (subst memo_strlen_utf.simps) (auto simp: get_put_utf)
qed (simp add: memo_strlen_utf.simps)

lemma byte_index_loop_encode:
  "runes vs \<Longrightarrow> byte_index_loop (encode vs) pos (int k + 2) = int pos + int (bytes_before vs (Suc k)) + 1"
proof (induction vs arbitrary: pos k)
  case Nil
  show ?case by (simp add: byte_index_loop.simps bytes_before_def)
next
  case (Cons v vs)
  then obtain bs where bs: "put_utf v = Some bs" "v \<noteq> 0" "runes vs" by auto
  show ?case
  proof (cases k)
    case 0 then show ?thesis using bs by (simp add: byte_index_loop.simps get_put_utf bytes_before_def)
  next
    case (Suc k')
    with Cons.IH [OF bs(3), of "pos + length bs" k'] bs show ?thesis
      by (subst byte_index_loop.simps) (simp add: get_put_utf bytes_before_def add.commute)
  qed
qed

lemma byte_index_encode: "runes vs \<Longrightarrow> utf_byte_index (encode vs) (int k + 1) = int (bytes_before vs k) + 1"
  using byte_index_loop_encode [of vs 0 "k - 1"]
  by (cases k) (auto simp: utf_byte_index_def bytes_before_def add.commute)

lemma char_start_over:
  "\<not> is_utf8_cont_byte c \<Longrightarrow> \<forall>x\<in>set cs. is_utf8_cont_byte x
    \<Longrightarrow> char_start (pre @ c # cs @ post) (Suc (length pre + length cs)) = Some (length pre)"
proof (induction cs arbitrary: post rule: rev_induct)
  case (snoc x cs)
  from snoc.IH [of "x # post"] snoc.prems show ?case by (simp add: nth_append)
qed simp

lemma char_start_encode:
  assumes "runes vs" "k \<le> length vs"
  shows "char_start (encode vs) (bytes_before vs (Suc k)) = Some (bytes_before vs k)"
proof (cases "k < length vs")
  case True
  then have "vs ! k \<in> set vs" by simp
  with assms(1) obtain bs where "put_utf (vs ! k) = Some bs" unfolding runes_def by auto
  moreover from put_utf_shape [OF this] obtain c cs where
    "bs = c # cs" "\<not> is_utf8_cont_byte c" "\<forall>x\<in>set cs. is_utf8_cont_byte x" by metis
  moreover have "encode vs = encode (take k vs) @ the (put_utf (vs ! k)) @ encode (drop (Suc k) vs)"
    using id_take_nth_drop [OF True] by (metis encode_simps(2,3))
  ultimately show ?thesis
    using char_start_over [of c cs "encode (take k vs)" "encode (drop (Suc k) vs)"] True
    by (simp add: bytes_before_def take_Suc_conv_app_nth)
next
  case False
  with assms have "k = length vs" by simp
  then show ?thesis by (simp add: bytes_before_def)
qed

lemma char_index_encode:
  "runes vs \<Longrightarrow> k \<le> length vs + 1 \<Longrightarrow> char_index_loop (encode vs) (bytes_before vs k) ci = Some (ci + int k)"
proof (induction k arbitrary: ci)
  case 0
  show ?case by (simp add: bytes_before_def char_index_loop.simps)
next
  case (Suc k)
  then have "char_start (encode vs) (bytes_before vs (Suc k)) = Some (bytes_before vs k)"
    by (intro char_start_encode) auto
  moreover from char_start_less [OF this] have "bytes_before vs (Suc k) \<noteq> 0" by simp
  ultimately show ?case using Suc by (subst char_index_loop.simps) (simp add: add.commute add.left_commute)
qed

lemma first_no_cont: "runes vs \<Longrightarrow> \<not> (encode vs \<noteq> [] \<and> is_utf8_cont_byte (hd (encode vs)))"
proof (cases vs)
  case (Cons v ws)
  assume "runes vs"
  with Cons obtain bs where "put_utf v = Some bs" by auto
  from put_utf_shape [OF this] this Cons show ?thesis by (metis append_Cons encode_simps(2) list.sel(1) option.sel)
qed simp

section \<open>Translating two positions at once\<close>

definition index_from :: "string \<Rightarrow> nat \<Rightarrow> int \<Rightarrow> int" where
  "index_from s pos j = (if j = 0 then int pos + 1 else byte_index_loop s pos (j + 1))"

lemma above_first:
  "sorted cis \<Longrightarrow> \<forall>c\<in>set cis. cn \<le> c \<Longrightarrow> c \<in> set (dropWhile (\<lambda>c. c = cn) cis) \<Longrightarrow> cn < (c :: int)"
  by (induction cis) (force split: if_splits)+

lemma byte_range_loop_index:
  "sorted cis \<Longrightarrow> \<forall>c\<in>set cis. cn \<le> c \<Longrightarrow> byte_range_loop s pos cn cis = map (\<lambda>c. index_from s pos (c - cn)) cis"
proof (induction s pos cn cis rule: byte_range_loop.induct)
  case (1 s pos cn cis)
  let ?hits = "takeWhile (\<lambda>c. c = cn) cis" and ?rest = "dropWhile (\<lambda>c. c = cn) cis"
  obtain v n where g: "get_utf s = (v, n)" by fastforce
  have split: "cis = ?hits @ ?rest" by simp
  have h: "map (\<lambda>_. int pos + 1) ?hits = map (\<lambda>c. index_from s pos (c - cn)) ?hits"
    by (auto simp: index_from_def dest: set_takeWhileD)
  have srt: "sorted ?rest" using "1.prems"(1) by (rule sorted_dropWhile)
  have big: "cn + 1 \<le> c" if "c \<in> set ?rest" for c
    using above_first [OF "1.prems" that] by simp
  show ?case
  proof (cases "?rest = []")
    case True
    then have "?hits = cis" using split by (metis append_Nil2)
    then show ?thesis using h True by (subst byte_range_loop.simps) (simp only: Let_def if_True simp_thms)
  next
    case False
    have r: "(if v \<noteq> 0 then byte_range_loop (drop n s) (pos + n) (cn + 1) ?rest
          else map (\<lambda>c. c + (int (pos + n) - (cn + 1) + 1)) ?rest) = map (\<lambda>c. index_from s pos (c - cn)) ?rest"
    proof (cases "v = 0")
      case True
      then show ?thesis using big g by (auto simp: index_from_def byte_index_loop.simps [of s] dest!: big)
    next
      case v: False
      have "index_from (drop n s) (pos + n) (c - (cn + 1)) = index_from s pos (c - cn)" if "c \<in> set ?rest" for c
        using big [OF that] g v by (auto simp: index_from_def byte_index_loop.simps [of s])
      with v "1.IH" [OF refl refl refl False g [symmetric] refl v srt] big show ?thesis by simp
    qed
    have "byte_range_loop s pos cn cis = map (\<lambda>_. int pos + 1) ?hits @ (if v \<noteq> 0 then byte_range_loop (drop n s) (pos + n) (cn + 1) ?rest
          else map (\<lambda>c. c + (int (pos + n) - (cn + 1) + 1)) ?rest)"
      using False by (subst byte_range_loop.simps) (simp only: Let_def g prod.case if_False)
    also have "\<dots> = map (\<lambda>c. index_from s pos (c - cn)) (?hits @ ?rest)" unfolding h r by (rule map_append [symmetric])
    finally show ?thesis by (simp only: takeWhile_dropWhile_id)
  qed
qed

lemma index_from_start: "1 \<le> c \<Longrightarrow> index_from s 0 (c - 1) = utf_byte_index s c"
  by (auto simp: index_from_def utf_byte_index_def)

lemma byte_range_pair: "utf_byte_range s (a, b) = (utf_byte_index s a, utf_byte_index s b)"
proof -
  have r: "takeWhile (\<lambda>c. c \<le> 0) cis @ (if dropWhile (\<lambda>c. c \<le> 0) cis = [] then [] else byte_range_loop s 0 1 (dropWhile (\<lambda>c. c \<le> 0) cis))
      = map (utf_byte_index s) cis" if "sorted cis" for cis
  proof -
    let ?low = "takeWhile (\<lambda>c. c \<le> 0) cis" and ?rest = "dropWhile (\<lambda>c. c \<le> 0) cis"
    have pos: "1 \<le> c" if "c \<in> set ?rest" for c
      using \<open>sorted cis\<close> that by (induction cis) (force split: if_splits)+
    have "map (utf_byte_index s) ?low = map id ?low"
      by (rule map_cong) (auto simp: utf_byte_index_def dest: set_takeWhileD)
    moreover have "byte_range_loop s 0 1 ?rest = map (utf_byte_index s) ?rest" if "?rest \<noteq> []"
      using byte_range_loop_index [OF sorted_dropWhile [OF \<open>sorted cis\<close>], of _ 1 s 0] pos by (auto simp: index_from_start)
    moreover have "map (utf_byte_index s) cis = map (utf_byte_index s) ?low @ map (utf_byte_index s) ?rest"
      unfolding map_append [symmetric] by simp
    ultimately show ?thesis by auto
  qed
  show ?thesis
    using r [of "[a, b]"] r [of "[b, a]"] unfolding utf_byte_range_def Let_def by (cases "a > b") auto
qed

section \<open>Reading source text\<close>

definition byte :: "char \<Rightarrow> int" where "byte c = int (of_char c)"

lemma byte_char: "h + a < 256 \<Longrightarrow> byte (char_of (h + a :: nat)) = int h + int a"
  by (simp add: byte_def of_char_of)

lemma call_conts_char:
  "a < 64 \<Longrightarrow> call_conts (Suc k) v (byte (char_of (0x80 + a :: nat)) # t) = call_conts k (v * 64 + int a) t"
  by (simp add: byte_char c_getch_def)

lemma get_utf_call_lead:
  "a < 32 \<Longrightarrow> get_utf_call (byte (char_of (0xc0 + a :: nat)) # t) (-1)
     = call_rune (\<lambda>v. v \<le> 0x7f) (call_conts (Suc 0) (int a) t)"
  "a < 16 \<Longrightarrow> get_utf_call (byte (char_of (0xe0 + a :: nat)) # t) (-1)
     = call_rune (\<lambda>v. v \<le> 0x7ff \<or> v \<ge> 0xd800 \<and> v \<le> 0xdfff) (call_conts (Suc (Suc 0)) (int a) t)"
  "a < 8 \<Longrightarrow> get_utf_call (byte (char_of (0xf0 + a :: nat)) # t) (-1)
     = call_rune (\<lambda>v. v \<le> 0xffff \<or> v > 0x10ffff) (call_conts (Suc (Suc (Suc 0))) (int a) t)"
proof -
  have m: "(h + int a) mod m = int a" if "a < n" "m = int n" "h mod m = 0" for h m n
    using that by (metis mod_add_left_eq add_0 of_nat_less_iff of_nat_0_le_iff mod_pos_pos_trivial)
  { assume a: "a < 32" then show "get_utf_call (byte (char_of (0xc0 + a :: nat)) # t) (-1)
     = call_rune (\<lambda>v. v \<le> 0x7f) (call_conts (Suc 0) (int a) t)"
      using m [of 32 32 "0xc0"] by (simp add: get_utf_call_def c_getch_def byte_char) }
  { assume a: "a < 16" then show "get_utf_call (byte (char_of (0xe0 + a :: nat)) # t) (-1)
     = call_rune (\<lambda>v. v \<le> 0x7ff \<or> v \<ge> 0xd800 \<and> v \<le> 0xdfff) (call_conts (Suc (Suc 0)) (int a) t)"
      using m [of 16 16 "0xe0"] by (simp add: get_utf_call_def c_getch_def byte_char numeral_2_eq_2) }
  { assume a: "a < 8" then show "get_utf_call (byte (char_of (0xf0 + a :: nat)) # t) (-1)
     = call_rune (\<lambda>v. v \<le> 0xffff \<or> v > 0x10ffff) (call_conts (Suc (Suc (Suc 0))) (int a) t)"
      using m [of 8 8 "0xf0"] by (simp add: get_utf_call_def c_getch_def byte_char numeral_3_eq_3) }
qed

lemma rune_digits:
  "int (v div 64) * 64 + int (v mod 64) = int v" "int (v div 4096) * 64 + int (v div 64 mod 64) = int (v div 64)"
  "int (v div 262144) * 64 + int (v div 4096 mod 64) = int (v div 4096)"
proof -
  have i: "int a * 64 + int b = int (a * 64 + b)" for a b by simp
  have d: "v div 64 * 64 + v mod 64 = v" "v div 4096 * 64 + v div 64 mod 64 = v div 64"
    "v div 262144 * 64 + v div 4096 mod 64 = v div 4096"
    using div_step [of v 64] div_step [of v 4096] by simp_all
  show "int (v div 64) * 64 + int (v mod 64) = int v" "int (v div 4096) * 64 + int (v div 64 mod 64) = int (v div 64)"
    "int (v div 262144) * 64 + int (v div 4096 mod 64) = int (v div 4096)"
    unfolding i d by (rule refl)+
qed

lemma get_utf_call_reads:
  assumes "put_utf v = Some bs"
  shows "get_utf_call (map byte bs @ t) (-1) = (int v, t, -1)"
proof -
  have m: "v mod 64 < 64" "v div 64 mod 64 < 64" "v div 4096 mod 64 < 64" by simp_all
  note S = list.map append.simps get_utf_call_lead call_conts_char m rune_digits call_conts.simps(1)
  from assms show ?thesis
  proof (cases rule: put_utf_cases)
    case 1 then show ?thesis using byte_char [of 0 v] by (simp add: get_utf_call_def c_getch_def)
  next
    case 2
    then have "v div 64 < 32" by auto
    with 2 show ?thesis by (simp only: S) (simp add: call_rune_def)
  next
    case 3
    then have "v div 4096 < 16" by auto
    with 3 show ?thesis by (simp only: S) (auto simp: call_rune_def)
  next
    case 4
    then have "v div 262144 < 8" by auto
    with 4 show ?thesis by (simp only: S) (simp add: call_rune_def)
  qed
qed

text \<open>
  A lead byte swallows a following ASCII character: \<^verbatim>\<open>C3 41\<close> is read as U+0081 and the
  letter is lost, where \<^verbatim>\<open>get_utf\<close> reports an invalid character and goes on with the letter.
\<close>

lemma get_utf_call_swallows:
  "get_utf_call [0xc3, 0x41, 0x42] (-1) = (0x81, [0x42], -1)" "get_utf [CHR 0xc3, CHR 0x41, CHR 0x42] = (INVALID_RUNE, 1)"
  by (simp_all add: get_utf_call_def c_getch_def call_rune_def get_utf_def rune_def)

end
