(* ===== verification/Numbers.thy ===== *)
theory Numbers
  imports Activations Utf
begin

text \<open>
  Numbers (\<^verbatim>\<open>numbers.c\<close>): arithmetic on integers, which wraps around at 64 bits, and
  on floating-point numbers, conversions, the parser of numeric literals, and the generation
  of random integers.  A floating-point number is its IEEE 754 binary64 pattern; every finite one
  is a whole multiple of \<open>2\<close> to the power \<open>-1074\<close>, so that sums, products,
  quotients and comparisons are computed exactly on integers and then
  rounded to nearest even.  The functions of the C library that the standard does not
  determine (\<^verbatim>\<open>pow\<close>, \<^verbatim>\<open>sin\<close> and so on) are parameters.
\<close>

section \<open>Floating-point arithmetic of the C language\<close>

definition fl_neg :: "flnum \<Rightarrow> bool" where "fl_neg w \<longleftrightarrow> bit w 63"

definition fl_bits :: "flnum \<Rightarrow> nat" where "fl_bits w = unat (fl_magnitude w)"

definition fl_make :: "bool \<Rightarrow> nat \<Rightarrow> flnum" where
  "fl_make neg m = (if neg then 2 ^ 63 else 0) + of_nat m"

definition fl_inf_bits :: nat where "fl_inf_bits = 2047 * 2 ^ 52"

definition fl_nan :: flnum where "fl_nan = 0x7FF8000000000000"

definition fl_is_inf :: "flnum \<Rightarrow> bool" where "fl_is_inf w \<longleftrightarrow> fl_bits w = fl_inf_bits"

text \<open>The magnitude in units of \<open>2\<close> to the \<open>-1074\<close>, and the signed value.\<close>

definition fl_units :: "flnum \<Rightarrow> nat" where
  "fl_units w =
     (let e = fl_bits w div 2 ^ 52; f = fl_bits w mod 2 ^ 52
      in if e = 0 then f else (2 ^ 52 + f) * 2 ^ (e - 1))"

definition fl_value :: "flnum \<Rightarrow> int" where
  "fl_value w = (if fl_neg w then - int (fl_units w) else int (fl_units w))"

fun bit_length :: "nat \<Rightarrow> nat" where
  "bit_length n = (if n = 0 then 0 else Suc (bit_length (n div 2)))"

declare bit_length.simps [simp del]

text \<open>The number nearest to \<open>p / q\<close> units, ties to even; too large a number is infinite.\<close>

definition fl_round :: "bool \<Rightarrow> nat \<Rightarrow> nat \<Rightarrow> flnum" where
  "fl_round neg p q =
     (let s = bit_length (p div q) - 53; d = q * 2 ^ s; m = p div d; r = p mod d;
          m' = (if 2 * r > d \<or> 2 * r = d \<and> odd m then Suc m else m)
      in fl_make neg (min (s * 2 ^ 52 + m') fl_inf_bits))"

definition one_unit :: nat where "one_unit = 2 ^ 1074"

definition fl_of_int :: "int \<Rightarrow> flnum" where
  "fl_of_int n = fl_round (n < 0) (nat \<bar>n\<bar> * one_unit) 1"

definition fl_negate :: "flnum \<Rightarrow> flnum" where "fl_negate a = fl_make (\<not> fl_neg a) (fl_bits a)"

definition fl_add :: "flnum \<Rightarrow> flnum \<Rightarrow> flnum" where
  "fl_add a b =
     (if fl_is_nan a \<or> fl_is_nan b then fl_nan
      else if fl_is_inf a then (if fl_is_inf b \<and> fl_neg a \<noteq> fl_neg b then fl_nan else a)
      else if fl_is_inf b then b
      else let u = fl_value a + fl_value b
           in if u = 0 then fl_make (fl_neg a \<and> fl_neg b) 0 else fl_round (u < 0) (nat \<bar>u\<bar>) 1)"

definition fl_sub :: "flnum \<Rightarrow> flnum \<Rightarrow> flnum" where
  "fl_sub a b = (if fl_is_nan b then fl_nan else fl_add a (fl_negate b))"

definition fl_mul :: "flnum \<Rightarrow> flnum \<Rightarrow> flnum" where
  "fl_mul a b =
     (let neg = (fl_neg a \<noteq> fl_neg b)
      in if fl_is_nan a \<or> fl_is_nan b then fl_nan
         else if fl_is_inf a \<or> fl_is_inf b then
           (if fl_is_zero a \<or> fl_is_zero b then fl_nan else fl_make neg fl_inf_bits)
         else fl_round neg (fl_units a * fl_units b) one_unit)"

definition fl_div :: "flnum \<Rightarrow> flnum \<Rightarrow> flnum" where
  "fl_div a b =
     (let neg = (fl_neg a \<noteq> fl_neg b)
      in if fl_is_nan a \<or> fl_is_nan b then fl_nan
         else if fl_is_inf a then (if fl_is_inf b then fl_nan else fl_make neg fl_inf_bits)
         else if fl_is_inf b then fl_make neg 0
         else if fl_is_zero b then (if fl_is_zero a then fl_nan else fl_make neg fl_inf_bits)
         else fl_round neg (fl_units a * one_unit) (fl_units b))"

definition fl_fmod :: "flnum \<Rightarrow> flnum \<Rightarrow> flnum" where
  "fl_fmod a b =
     (if fl_is_nan a \<or> fl_is_nan b \<or> fl_is_inf a \<or> fl_is_zero b then fl_nan
      else if fl_is_inf b then a
      else fl_round (fl_neg a) (fl_units a mod fl_units b) 1)"

text \<open>The order of the patterns is the order of the numbers, infinite ones included.\<close>

definition fl_order :: "flnum \<Rightarrow> int" where
  "fl_order w = (if fl_neg w then - int (fl_bits w) else int (fl_bits w))"

definition fl_less :: "flnum \<Rightarrow> flnum \<Rightarrow> bool" where
  "fl_less a b \<longleftrightarrow> \<not> fl_is_nan a \<and> \<not> fl_is_nan b \<and> fl_order a < fl_order b"

definition fl_le :: "flnum \<Rightarrow> flnum \<Rightarrow> bool" where
  "fl_le a b \<longleftrightarrow> \<not> fl_is_nan a \<and> \<not> fl_is_nan b \<and> fl_order a \<le> fl_order b"

definition fl_whole :: "bool \<Rightarrow> int \<Rightarrow> flnum" where
  "fl_whole neg k = (if k = 0 then fl_make neg 0 else fl_of_int k)"

definition fl_floor :: "flnum \<Rightarrow> flnum" where
  "fl_floor d = (if fl_is_nan d \<or> fl_is_inf d then d else fl_whole (fl_neg d) (fl_value d div int one_unit))"

definition fl_ceil :: "flnum \<Rightarrow> flnum" where
  "fl_ceil d = (if fl_is_nan d \<or> fl_is_inf d then d else fl_whole (fl_neg d) (- (- fl_value d div int one_unit)))"

definition fl_fabs :: "flnum \<Rightarrow> flnum" where "fl_fabs d = fl_magnitude d"

text \<open>The cast of a number in range to an integer drops the fraction.\<close>

definition fl_to_int :: "flnum \<Rightarrow> int" where
  "fl_to_int d = (if fl_neg d then - int (fl_units d div one_unit) else int (fl_units d div one_unit))"

definition HUGE_VAL :: flnum where "HUGE_VAL = fl_make False fl_inf_bits"

definition IS_REAL :: "flnum \<Rightarrow> bool" where
  "IS_REAL x \<longleftrightarrow> fl_less (fl_negate HUGE_VAL) x \<and> fl_less x HUGE_VAL"

text \<open>Signed arithmetic wraps around, as on the two's complement machines the code is written for.\<close>

definition wrap_num :: "int \<Rightarrow> num" where
  "wrap_num n = (n + 2 ^ 63) mod 2 ^ 64 - 2 ^ 63"

definition inrange_for_float_to_int :: "flnum \<Rightarrow> bool" where
  "inrange_for_float_to_int d \<longleftrightarrow> fl_le (fl_of_int NUM_MIN) (fl_ceil d) \<and> fl_less d (fl_negate (fl_of_int NUM_MIN))"

section \<open>Literals\<close>

text \<open>The flags of \<^verbatim>\<open>parse_number\<close>.\<close>

record pn_flags =
  FLOAT_OK :: bool
  REQ_FLOAT :: bool
  REQ_INT :: bool
  NONNEG :: bool
  OCTOTHORPE :: bool
  LDSPACE :: bool
  TRSPACE :: bool
  OCTOSPACE :: bool
  MUST_EOF :: bool

definition PN_NONE :: pn_flags where
  "PN_NONE = \<lparr>FLOAT_OK = False, REQ_FLOAT = False, REQ_INT = False, NONNEG = False, OCTOTHORPE = False,
     LDSPACE = False, TRSPACE = False, OCTOSPACE = False, MUST_EOF = False\<rparr>"

text \<open>The state of the loop: the flags \<^verbatim>\<open>F_*\<close>, the type of the result and the collected text.\<close>

record pn_state =
  F_MINUS :: bool
  F_DOT :: bool
  F_EXP :: bool
  F_DIGIT :: bool
  F_XSIGN :: bool
  is_float :: bool
  ns :: string

definition pn_start :: "pn_flags \<Rightarrow> pn_state" where
  "pn_start fl = \<lparr>F_MINUS = False, F_DOT = False, F_EXP = False, F_DIGIT = False, F_XSIGN = False,
     is_float = False, ns = (if NONNEG fl then ''-'' else [])\<rparr>"

definition add_ns :: "nat \<Rightarrow> pn_state \<Rightarrow> pn_state" where
  "add_ns c st = st\<lparr>ns := ns st @ [char_of c]\<rparr>"

text \<open>
  One character of the loop; \<open>None\<close> is \<^verbatim>\<open>goto badchar\<close>.  If characters can be pushed back, a
  dot followed by a dot starts another token.
\<close>

definition pn_char :: "pn_flags \<Rightarrow> bool \<Rightarrow> nat \<Rightarrow> nat list \<Rightarrow> pn_state \<Rightarrow> pn_state option" where
  "pn_char fl ungetch c rest st =
     (if c = of_char CHR ''+'' then
        (if \<not> F_EXP st \<or> F_XSIGN st then None else Some (add_ns c (st\<lparr>F_XSIGN := True\<rparr>)))
      else if c = of_char CHR ''-'' then
        (if F_XSIGN st then None else Some (add_ns c (st\<lparr>F_MINUS := True, F_XSIGN := True\<rparr>)))
      else if c = of_char CHR ''.'' then
        (if F_DOT st \<or> F_EXP st \<or> \<not> FLOAT_OK fl then None
         else if ungetch \<and> rest \<noteq> [] \<and> hd rest = of_char CHR ''.'' then None
         else Some (add_ns c (st\<lparr>is_float := True, F_DOT := True, F_XSIGN := True\<rparr>)))
      else if c = of_char CHR ''e'' \<or> c = of_char CHR ''E'' then
        (if \<not> F_DIGIT st \<or> F_EXP st \<or> \<not> FLOAT_OK fl then None
         else Some (add_ns c (st\<lparr>is_float := True, F_EXP := True, F_DIGIT := False, F_XSIGN := False\<rparr>)))
      else if 48 \<le> c \<and> c \<le> 57 then Some (add_ns c (st\<lparr>F_DIGIT := True, F_XSIGN := True\<rparr>))
      else None)"

text \<open>The loop ends at the end of the input (\<open>True\<close>) or at a bad character, with the input from there on.\<close>

definition pn_space :: "(nat \<Rightarrow> bool) \<Rightarrow> bool \<Rightarrow> nat list \<Rightarrow> nat list" where
  "pn_space my_isspace allowed cs = (if allowed then dropWhile my_isspace cs else cs)"

definition pn_other :: "nat \<Rightarrow> bool" where
  "pn_other c \<longleftrightarrow> \<not> (48 \<le> c \<and> c \<le> 57) \<and> c \<notin> of_char ` {CHR ''+'', CHR ''-'', CHR ''.'', CHR ''e'', CHR ''E''}"

fun pn_loop :: "(nat \<Rightarrow> bool) \<Rightarrow> pn_flags \<Rightarrow> bool \<Rightarrow> pn_state \<Rightarrow> nat list \<Rightarrow> pn_state \<times> bool \<times> nat list" where
  "pn_loop my_isspace fl ungetch st [] = (st, True, [])"
| "pn_loop my_isspace fl ungetch st (c # cs) =
     (case pn_char fl ungetch c cs st of
        Some st' \<Rightarrow> pn_loop my_isspace fl ungetch st' cs
      | None \<Rightarrow>
          let r = (if pn_other c then pn_space my_isspace (TRSPACE fl) (c # cs) else c # cs)
          in (st, r = [], r))"

definition pn_octothorpe :: "(nat \<Rightarrow> bool) \<Rightarrow> pn_flags \<Rightarrow> nat list \<Rightarrow> nat list" where
  "pn_octothorpe my_isspace fl cs =
     (if OCTOTHORPE fl \<and> cs \<noteq> [] \<and> hd cs = of_char CHR ''#'' then pn_space my_isspace (OCTOSPACE fl) (tl cs) else cs)"

text \<open>
  \<^verbatim>\<open>strtoimax\<close> and \<^verbatim>\<open>strtod\<close> on what the loop collects, which has neither white space nor a plus
  sign in front: the value and what is left over.  The integer is not clamped, so that a result out of
  range is the \<^verbatim>\<open>ERANGE\<close> of the library.
\<close>

definition c_sign :: "string \<Rightarrow> bool \<times> string" where
  "c_sign s = (case s of [] \<Rightarrow> (False, []) | c # t \<Rightarrow> if c = CHR ''-'' then (True, t) else (False, s))"

definition strtoimax :: "string \<Rightarrow> int \<times> string" where
  "strtoimax s =
     (let (neg, u) = c_sign s; ds = takeWhile isdigit u
      in if ds = [] then (0, s) else (if neg then - digits_val ds else digits_val ds, dropWhile isdigit u))"

definition c_exponent :: "string \<Rightarrow> int \<times> string" where
  "c_exponent s =
     (case s of
        [] \<Rightarrow> (0, s)
      | c # t \<Rightarrow>
          if c = CHR ''e'' \<or> c = CHR ''E'' then
            let (neg, u) = (if t \<noteq> [] \<and> hd t = CHR ''+'' then (False, tl t) else c_sign t);
                ds = takeWhile isdigit u
            in if ds = [] then (0, s) else (if neg then - digits_val ds else digits_val ds, dropWhile isdigit u)
          else (0, s))"

definition strtod :: "string \<Rightarrow> flnum \<times> string" where
  "strtod s =
     (let (neg, u) = c_sign s; ds = takeWhile isdigit u; r = dropWhile isdigit u;
          (fs, r') = (if r \<noteq> [] \<and> hd r = CHR ''.'' then (takeWhile isdigit (tl r), dropWhile isdigit (tl r)) else ([], r))
      in if ds = [] \<and> fs = [] then (0, s)
         else let (e, r'') = c_exponent r'; e' = e - int (length fs); m = nat (digits_val (ds @ fs))
              in (fl_round neg (m * 10 ^ nat e' * one_unit) (10 ^ nat (- e')), r''))"

text \<open>What is made of the collected text once it has a digit.\<close>

definition have_digits :: "pn_flags \<Rightarrow> pn_state \<Rightarrow> var" where
  "have_digits fl st =
     (if \<not> is_float st \<and> \<not> REQ_FLOAT fl then
        let (i, p) = strtoimax (ns st)
        in if i < NUM_MIN \<or> i > NUM_MAX then TYPE_ERR E_RANGE
           else if p \<noteq> [] then TYPE_ERR E_INVARG
           else TYPE_INT (if NONNEG fl then wrap_num (- i) else i)
      else
        let (d, p) = strtod (if NONNEG fl then tl (ns st) else ns st)
        in if p \<noteq> [] then TYPE_ERR E_INVARG
           else if \<not> IS_REAL d then TYPE_ERR E_FLOAT
           else if REQ_INT fl then
             if \<not> inrange_for_float_to_int d then TYPE_ERR E_FLOAT else TYPE_INT (fl_to_int d)
           else TYPE_FLOAT d)"

text \<open>The value and the rest of the input; what was pushed back is part of the rest.\<close>

definition parse_number :: "(nat \<Rightarrow> bool) \<Rightarrow> pn_flags \<Rightarrow> bool \<Rightarrow> nat list \<Rightarrow> var \<times> nat list" where
  "parse_number my_isspace fl ungetch cs =
     (let cs1 = pn_octothorpe my_isspace fl (pn_space my_isspace (LDSPACE fl) cs);
          (st, eof, rest) = pn_loop my_isspace fl ungetch (pn_start fl) cs1
      in if \<not> eof \<and> MUST_EOF fl then (TYPE_ERR E_INVARG, rest)
         else if F_DIGIT st then (have_digits fl st, rest)
         else if F_EXP st \<or> \<not> ungetch then (TYPE_ERR E_INVARG, rest)
         else (TYPE_ERR E_NONE,
               (if F_MINUS st then [of_char CHR ''-''] else []) @ (if F_DOT st then [of_char CHR ''.''] else []) @ rest))"

text \<open>What \<^verbatim>\<open>snp_getch\<close> reads until the end of the string.\<close>

function snp_chars :: "string \<Rightarrow> nat list" where
  "snp_chars s = (if s = [] then [] else let (c, n) = get_utf s in c # snp_chars (drop n s))"
  by pat_completeness auto
termination
  by (relation "measure length") (auto intro: get_utf_advances simp: prod_eq_iff)

declare snp_chars.simps [simp del]

definition parse_number_from_string :: "(nat \<Rightarrow> bool) \<Rightarrow> string \<Rightarrow> pn_flags \<Rightarrow> var" where
  "parse_number_from_string my_isspace str fl =
     fst (parse_number my_isspace (fl\<lparr>MUST_EOF := True\<rparr>) False (snp_chars str))"

definition PN_SPACE :: pn_flags where
  "PN_SPACE = PN_NONE\<lparr>LDSPACE := True, TRSPACE := True, OCTOSPACE := True\<rparr>"

section \<open>Conversions\<close>

text \<open>The number of an error in the enumeration.\<close>

fun err_num :: "error \<Rightarrow> num" where
  "err_num E_NONE = 0" | "err_num E_TYPE = 1" | "err_num E_DIV = 2" | "err_num E_PERM = 3"
| "err_num E_PROPNF = 4" | "err_num E_VERBNF = 5" | "err_num E_VARNF = 6" | "err_num E_INVIND = 7"
| "err_num E_RECMOVE = 8" | "err_num E_MAXREC = 9" | "err_num E_RANGE = 10" | "err_num E_ARGS = 11"
| "err_num E_NACC = 12" | "err_num E_INVARG = 13" | "err_num E_QUOTA = 14" | "err_num E_FLOAT = 15"

text \<open>The outer \<open>None\<close> is a panic.\<close>

definition become_integer :: "(nat \<Rightarrow> bool) \<Rightarrow> var \<Rightarrow> bool \<Rightarrow> (error + num) option" where
  "become_integer my_isspace v called_from_tonum =
     (case v of
        TYPE_INT n \<Rightarrow> Some (Inr n)
      | TYPE_STR s \<Rightarrow>
          (case parse_number_from_string my_isspace s
                  (if called_from_tonum then PN_SPACE\<lparr>REQ_INT := True, FLOAT_OK := True\<rparr>
                   else PN_SPACE\<lparr>REQ_INT := True, OCTOTHORPE := True\<rparr>) of
             TYPE_ERR e \<Rightarrow> if e = E_NONE then None else Some (Inr 0)
           | TYPE_INT n \<Rightarrow> Some (Inr n)
           | _ \<Rightarrow> None)
      | TYPE_OBJ n \<Rightarrow> Some (Inr n)
      | TYPE_ERR e \<Rightarrow> Some (Inr (err_num e))
      | TYPE_FLOAT d \<Rightarrow>
          if \<not> (IS_REAL d \<and> inrange_for_float_to_int d) then Some (Inl E_FLOAT) else Some (Inr (fl_to_int d))
      | TYPE_LIST l \<Rightarrow> Some (Inl E_TYPE)
      | _ \<Rightarrow> None)"

definition become_float :: "(nat \<Rightarrow> bool) \<Rightarrow> var \<Rightarrow> (error + flnum) option" where
  "become_float my_isspace v =
     (case v of
        TYPE_INT n \<Rightarrow> Some (Inr (fl_of_int n))
      | TYPE_STR s \<Rightarrow>
          (case parse_number_from_string my_isspace s (PN_SPACE\<lparr>FLOAT_OK := True, REQ_FLOAT := True\<rparr>) of
             TYPE_ERR e \<Rightarrow> if e = E_NONE \<or> e = E_RANGE then None else if e = E_FLOAT then Some (Inl E_INVARG) else Some (Inl e)
           | TYPE_FLOAT d \<Rightarrow> Some (Inr d)
           | _ \<Rightarrow> None)
      | TYPE_OBJ n \<Rightarrow> Some (Inr (fl_of_int n))
      | TYPE_ERR e \<Rightarrow> Some (Inr (fl_of_int (err_num e)))
      | TYPE_FLOAT d \<Rightarrow> Some (Inr d)
      | TYPE_LIST l \<Rightarrow> Some (Inl E_TYPE)
      | _ \<Rightarrow> None)"

section \<open>Operators\<close>

text \<open>Both operands are numbers; other types are not looked at by the callers.\<close>

definition numeric_lt_or_eq :: "bool \<Rightarrow> var \<Rightarrow> var \<Rightarrow> var" where
  "numeric_lt_or_eq neg a b =
     (let answer = (\<lambda>t. TYPE_INT (if t \<noteq> neg then 1 else 0))
      in case (a, b) of
           (TYPE_INT m, TYPE_INT n) \<Rightarrow> answer (m \<le> n)
         | (TYPE_FLOAT d, TYPE_FLOAT e) \<Rightarrow> answer (fl_le d e)
         | _ \<Rightarrow> TYPE_ERR E_TYPE)"

definition real_or_error :: "flnum \<Rightarrow> var" where
  "real_or_error d = (if \<not> IS_REAL d then TYPE_ERR E_FLOAT else TYPE_FLOAT d)"

definition simple_binary :: "(int \<Rightarrow> int \<Rightarrow> int) \<Rightarrow> (flnum \<Rightarrow> flnum \<Rightarrow> flnum) \<Rightarrow> var \<Rightarrow> var \<Rightarrow> var" where
  "simple_binary iop fop a b =
     (case (a, b) of
        (TYPE_INT m, TYPE_INT n) \<Rightarrow> TYPE_INT (wrap_num (iop m n))
      | (TYPE_FLOAT d, TYPE_FLOAT e) \<Rightarrow> real_or_error (fop d e)
      | _ \<Rightarrow> TYPE_ERR E_TYPE)"

definition do_add :: "var \<Rightarrow> var \<Rightarrow> var" where "do_add = simple_binary (+) fl_add"

definition do_subtract :: "var \<Rightarrow> var \<Rightarrow> var" where "do_subtract = simple_binary (-) fl_sub"

definition do_multiply :: "var \<Rightarrow> var \<Rightarrow> var" where "do_multiply = simple_binary (*) fl_mul"

text \<open>
  Division truncates towards zero.  The quotient of the least integer and -1 does not exist: the behaviour of the operator is
  undefined (on the usual processors the division traps and ends the server), \<open>None\<close>.
\<close>

definition c_quotient :: "int \<Rightarrow> int \<Rightarrow> int" where "c_quotient a b = sgn a * sgn b * (\<bar>a\<bar> div \<bar>b\<bar>)"

definition c_remainder :: "int \<Rightarrow> int \<Rightarrow> int" where "c_remainder a b = sgn a * (\<bar>a\<bar> mod \<bar>b\<bar>)"

definition division_op :: "(int \<Rightarrow> int \<Rightarrow> int) \<Rightarrow> (flnum \<Rightarrow> flnum \<Rightarrow> flnum) \<Rightarrow> var \<Rightarrow> var \<Rightarrow> var option" where
  "division_op iop fop a b =
     (case (a, b) of
        (TYPE_INT m, TYPE_INT n) \<Rightarrow>
          if n \<noteq> 0 then (if m = NUM_MIN \<and> n = -1 then None else Some (TYPE_INT (iop m n))) else Some (TYPE_ERR E_DIV)
      | (TYPE_FLOAT d, TYPE_FLOAT e) \<Rightarrow>
          if fl_nonzero e then Some (real_or_error (fop d e)) else Some (TYPE_ERR E_DIV)
      | _ \<Rightarrow> Some (TYPE_ERR E_TYPE))"

definition do_divide :: "var \<Rightarrow> var \<Rightarrow> var option" where "do_divide = division_op c_quotient fl_div"

definition do_modulus :: "var \<Rightarrow> var \<Rightarrow> var option" where "do_modulus = division_op c_remainder fl_fmod"

text \<open>The loop of \<^verbatim>\<open>do_power\<close>; the exponent is not negative, so the shift halves it.\<close>

function power_loop :: "num \<Rightarrow> num \<Rightarrow> num \<Rightarrow> num" where
  "power_loop a b r =
     (if b \<le> 0 then r else power_loop (wrap_num (a * a)) (b div 2) (if odd b then wrap_num (r * a) else r))"
  by pat_completeness auto
termination by (relation "measure (\<lambda>(_, b, _). nat b)") auto

declare power_loop.simps [simp del]

text \<open>\<open>pow\<close> is the function of the C library, with whether it sets \<^verbatim>\<open>errno\<close>.\<close>

definition do_power :: "(flnum \<Rightarrow> flnum \<Rightarrow> flnum \<times> bool) \<Rightarrow> var \<Rightarrow> var \<Rightarrow> var" where
  "do_power pow lhs rhs =
     (case lhs of
        TYPE_INT a \<Rightarrow>
          (case rhs of
             TYPE_INT b \<Rightarrow>
               if b < 0 then
                 if a = -1 then TYPE_INT (if odd b then 1 else -1)
                 else if a = 0 then TYPE_ERR E_DIV
                 else if a = 1 then TYPE_INT 1 else TYPE_INT 0
               else TYPE_INT (power_loop a b 1)
           | _ \<Rightarrow> TYPE_ERR E_TYPE)
      | TYPE_FLOAT d \<Rightarrow>
          (let power = (\<lambda>e. let (p, errno) = pow d e in if errno \<or> \<not> IS_REAL p then TYPE_ERR E_FLOAT else TYPE_FLOAT p)
           in case rhs of
                TYPE_INT b \<Rightarrow> power (fl_of_int b)
              | TYPE_FLOAT e \<Rightarrow> power e
              | _ \<Rightarrow> TYPE_ERR E_TYPE)
      | _ \<Rightarrow> TYPE_ERR E_TYPE)"

section \<open>Built-in functions\<close>

definition make_float_pack :: "flnum \<Rightarrow> package" where
  "make_float_pack v = BI_RETURN (TYPE_FLOAT v)"

definition bf_toint :: "(nat \<Rightarrow> bool) \<Rightarrow> var \<Rightarrow> package option" where
  "bf_toint my_isspace v =
     map_option (\<lambda>r. case r of Inl e \<Rightarrow> make_error_pack e | Inr n \<Rightarrow> make_int_pack n) (become_integer my_isspace v True)"

definition bf_tofloat :: "(nat \<Rightarrow> bool) \<Rightarrow> var \<Rightarrow> package option" where
  "bf_tofloat my_isspace v =
     map_option (\<lambda>r. case r of Inl e \<Rightarrow> make_error_pack e | Inr d \<Rightarrow> make_float_pack d) (become_float my_isspace v)"

text \<open>
  The loop of \<^verbatim>\<open>bf_min\<close> and \<^verbatim>\<open>bf_max\<close>, with the comparison that replaces the result;
  the registered type makes every argument a number.
\<close>

fun extreme_int :: "(int \<Rightarrow> int \<Rightarrow> bool) \<Rightarrow> num \<Rightarrow> bool \<Rightarrow> var list \<Rightarrow> num \<times> bool" where
  "extreme_int better r bad [] = (r, bad)"
| "extreme_int better r bad (TYPE_INT n # vs) = extreme_int better (if better n r then n else r) bad vs"
| "extreme_int better r bad (_ # vs) = extreme_int better r True vs"

fun extreme_float :: "(flnum \<Rightarrow> flnum \<Rightarrow> bool) \<Rightarrow> flnum \<Rightarrow> bool \<Rightarrow> var list \<Rightarrow> flnum \<times> bool" where
  "extreme_float better r bad [] = (r, bad)"
| "extreme_float better r bad (TYPE_FLOAT d # vs) = extreme_float better (if better d r then d else r) bad vs"
| "extreme_float better r bad (_ # vs) = extreme_float better r True vs"

definition bf_extreme :: "(int \<Rightarrow> int \<Rightarrow> bool) \<Rightarrow> (flnum \<Rightarrow> flnum \<Rightarrow> bool) \<Rightarrow> var list \<Rightarrow> package option" where
  "bf_extreme ibetter fbetter args =
     (case args of
        TYPE_INT n # vs \<Rightarrow>
          (let (r, bad) = extreme_int ibetter n False vs
           in Some (if bad then make_error_pack E_TYPE else make_var_pack (TYPE_INT r)))
      | TYPE_FLOAT d # vs \<Rightarrow>
          (let (r, bad) = extreme_float fbetter d False vs
           in Some (if bad then make_error_pack E_TYPE else make_var_pack (TYPE_FLOAT r)))
      | _ \<Rightarrow> None)"

definition bf_min :: "var list \<Rightarrow> package option" where "bf_min = bf_extreme (<) fl_less"

definition bf_max :: "var list \<Rightarrow> package option" where "bf_max = bf_extreme (>) (\<lambda>a b. fl_less b a)"

definition bf_abs :: "var \<Rightarrow> package option" where
  "bf_abs r =
     (case r of
        TYPE_INT n \<Rightarrow> Some (make_int_pack (if n < 0 then wrap_num (- n) else n))
      | TYPE_FLOAT d \<Rightarrow> Some (make_float_pack (fl_fabs d))
      | _ \<Rightarrow> None)"

datatype errno = ENOERR | EDOM | ERANGE

text \<open>The macro \<^verbatim>\<open>MATH_FUNC\<close> and the functions written out after its pattern.\<close>

definition math_result :: "flnum \<times> errno \<Rightarrow> package" where
  "math_result r =
     (let (d, errno) = r
      in if errno = EDOM then make_error_pack E_INVARG
         else if errno \<noteq> ENOERR \<or> \<not> IS_REAL d then make_error_pack E_FLOAT
         else make_float_pack d)"

definition math_func :: "(flnum \<Rightarrow> flnum \<times> errno) \<Rightarrow> flnum \<Rightarrow> package" where
  "math_func f d = math_result (f d)"

definition bf_trunc :: "flnum \<Rightarrow> package" where
  "bf_trunc d = math_result (if fl_less d 0 then fl_ceil d else fl_floor d, ENOERR)"

definition bf_atan :: "(flnum \<Rightarrow> flnum \<times> errno) \<Rightarrow> (flnum \<Rightarrow> flnum \<Rightarrow> flnum \<times> errno) \<Rightarrow> flnum \<Rightarrow> flnum option \<Rightarrow> package" where
  "bf_atan atan atan2 d e = math_result (case e of Some y \<Rightarrow> atan2 d y | None \<Rightarrow> atan d)"

text \<open>The Bessel functions; the order is converted to a 32-bit \<^verbatim>\<open>int\<close>.\<close>

definition bf_j :: "(flnum \<Rightarrow> flnum \<times> errno) \<Rightarrow> (flnum \<Rightarrow> flnum \<times> errno) \<Rightarrow> (int \<Rightarrow> flnum \<Rightarrow> flnum \<times> errno) \<Rightarrow> num \<Rightarrow> flnum \<Rightarrow> package" where
  "bf_j j0 j1 jn n d = math_result (if n = 0 then j0 d else if n = 1 then j1 d else jn (int32 n) d)"

definition bf_y :: "(flnum \<Rightarrow> flnum \<times> errno) \<Rightarrow> (flnum \<Rightarrow> flnum \<times> errno) \<Rightarrow> (int \<Rightarrow> flnum \<Rightarrow> flnum \<times> errno) \<Rightarrow> num \<Rightarrow> flnum \<Rightarrow> package" where
  "bf_y y0 y1 yn n d = math_result (if n = 0 then y0 d else if n = 1 then y1 d else yn (int32 n) d)"

text \<open>\<open>clock\<close> is the time in seconds; \<open>usec\<close> the microseconds.\<close>

definition bf_time :: "num \<Rightarrow> package" where "bf_time clock = make_int_pack clock"

definition bf_ftime :: "num \<Rightarrow> num \<Rightarrow> package" where
  "bf_ftime sec usec = make_float_pack (fl_add (fl_of_int sec) (fl_div (fl_of_int usec) (fl_of_int (10 ^ 6))))"

end
