(* ===== verification/NumberLaws.thy ===== *)
theory NumberLaws
  imports Numbers
begin

text \<open>
  Laws of \<^verbatim>\<open>numbers.c\<close>: integer arithmetic is exact up to the wrap-around, the order of the bit patterns is
  the order of the floating-point values, rounding is exact on representable values, and so the
  test before the conversion of a floating-point number to an integer is exact.
\<close>

section \<open>Integers\<close>

lemma wrap_num_mod: "wrap_num n mod 2 ^ 64 = n mod 2 ^ 64"
  unfolding wrap_num_def by (simp add: mod_diff_left_eq)

lemma wrap_num_range: "wrap_num n \<in> {NUM_MIN..NUM_MAX}"
proof -
  have "0 \<le> (n + 2 ^ 63) mod 2 ^ 64" "(n + 2 ^ 63) mod 2 ^ 64 < (2 :: int) ^ 64" by simp_all
  then show ?thesis by (simp add: wrap_num_def NUM_MIN_def NUM_MAX_def)
qed

lemma wrap_num_cong: "m mod 2 ^ 64 = n mod 2 ^ 64 \<Longrightarrow> wrap_num m = wrap_num n"
  unfolding wrap_num_def by (metis mod_add_left_eq)

lemma wrap_num_id: "n \<in> {NUM_MIN..NUM_MAX} \<Longrightarrow> wrap_num n = n"
  by (simp add: wrap_num_def NUM_MIN_def NUM_MAX_def)

lemma wrap_num_mult: "wrap_num (wrap_num a * b) = wrap_num (a * b)"
proof (rule wrap_num_cong)
  have "wrap_num a * b mod 2 ^ 64 = wrap_num a mod 2 ^ 64 * b mod 2 ^ 64" by (rule mod_mult_left_eq [symmetric])
  also have "\<dots> = a * b mod 2 ^ 64" unfolding wrap_num_mod by (rule mod_mult_left_eq)
  finally show "wrap_num a * b mod 2 ^ 64 = a * b mod 2 ^ 64" .
qed

lemma wrap_num_power: "wrap_num (b * wrap_num a ^ k) = wrap_num (b * a ^ k)"
proof (induction k arbitrary: b)
  case (Suc k)
  have "wrap_num (b * wrap_num a ^ Suc k) = wrap_num (wrap_num a * (b * wrap_num a ^ k))" by (simp add: ac_simps)
  also have "\<dots> = wrap_num (a * b * wrap_num a ^ k)" by (simp add: wrap_num_mult mult.assoc)
  also have "\<dots> = wrap_num (b * a ^ Suc k)" unfolding Suc.IH by (simp add: ac_simps)
  finally show ?case .
qed simp

lemma power_loop_ok:
  "0 \<le> b \<Longrightarrow> power_loop a b (wrap_num r) = wrap_num (r * a ^ nat b)"
proof (induction "nat b" arbitrary: a b r rule: less_induct)
  case less
  show ?case
  proof (cases "b = 0")
    case True then show ?thesis by (simp add: power_loop.simps)
  next
    case False
    with less.prems have b: "\<not> b \<le> 0" "0 \<le> b div 2" "nat (b div 2) < nat b" by auto
    define r' where "r' = (if odd b then r * a else r)"
    have "(if odd b then wrap_num (wrap_num r * a) else wrap_num r) = wrap_num r'"
      unfolding r'_def by (simp add: wrap_num_mult)
    then have "power_loop a b (wrap_num r) = power_loop (wrap_num (a * a)) (b div 2) (wrap_num r')"
      using b(1) by (subst power_loop.simps) (simp only: if_False)
    also have "\<dots> = wrap_num (r' * wrap_num (a * a) ^ nat (b div 2))" using b by (intro less.hyps)
    also have "\<dots> = wrap_num (r' * (a * a) ^ nat (b div 2))" by (rule wrap_num_power)
    also have "r' * (a * a) ^ nat (b div 2) = r * a ^ nat b"
    proof -
      obtain k where k: "b = 2 * int k \<or> b = 2 * int k + 1" proof (rule that)
        have "int (nat (b div 2)) = b div 2" using b(2) by simp
        then show "b = 2 * int (nat (b div 2)) \<or> b = 2 * int (nat (b div 2)) + 1" by linarith
      qed
      have "a ^ (2 * k) = (a * a) ^ k" by (simp add: power_mult power2_eq_square)
      with k show ?thesis unfolding r'_def by (auto simp: nat_add_distrib nat_mult_distrib ac_simps)
    qed
    finally show ?thesis .
  qed
qed

lemma c_quotient_remainder: "b \<noteq> 0 \<Longrightarrow> a = c_quotient a b * b + c_remainder a b \<and> \<bar>c_remainder a b\<bar> < \<bar>b\<bar>
    \<and> (c_remainder a b = 0 \<or> sgn (c_remainder a b) = sgn a)"
proof -
  assume b: "b \<noteq> 0"
  have "a = sgn a * (\<bar>a\<bar> div \<bar>b\<bar> * \<bar>b\<bar> + \<bar>a\<bar> mod \<bar>b\<bar>)" by (simp add: sgn_mult_abs)
  also have "\<dots> = c_quotient a b * b + c_remainder a b"
    unfolding c_quotient_def c_remainder_def by (simp add: algebra_simps abs_sgn [of b])
  finally have "a = c_quotient a b * b + c_remainder a b" .
  moreover define m where "m = \<bar>a\<bar> mod \<bar>b\<bar>"
  have "0 \<le> m" "m < \<bar>b\<bar>" using b unfolding m_def by simp_all
  then have "\<bar>sgn a * m\<bar> < \<bar>b\<bar>" "sgn a * m = 0 \<or> sgn (sgn a * m) = sgn a"
    by (auto simp: abs_mult sgn_mult sgn_if)
  ultimately show ?thesis unfolding c_remainder_def m_def by blast
qed

text \<open>
  With a negative exponent the powers of -1 have the wrong sign: the power -1 is 1, the quotient of 1 and -1 is not.
\<close>

lemma power_negative_sign:
  "do_power pow (TYPE_INT (-1)) (TYPE_INT (-1)) = TYPE_INT 1" "do_divide (TYPE_INT 1) (TYPE_INT (-1)) = Some (TYPE_INT (-1))"
  by (simp_all add: do_power_def do_divide_def division_op_def c_quotient_def NUM_MIN_def)

section \<open>Patterns and values of floating-point numbers\<close>

definition units :: "nat \<Rightarrow> nat" where
  "units m = (if m div 2 ^ 52 = 0 then m mod 2 ^ 52 else (2 ^ 52 + m mod 2 ^ 52) * 2 ^ (m div 2 ^ 52 - 1))"

lemma fl_units_bits: "fl_units w = units (fl_bits w)"
  by (simp add: fl_units_def units_def Let_def)

lemma units_split: "f < 2 ^ 52 \<Longrightarrow> units (e * 2 ^ 52 + f) = (if e = 0 then f else (2 ^ 52 + f) * 2 ^ (e - 1))"
  by (simp add: units_def)

lemma bits_split: obtains e f where "m = e * 2 ^ 52 + f" "f < (2 :: nat) ^ 52"
  by (rule that [of "m div 2 ^ 52" "m mod 2 ^ 52"]) simp_all

lemma units_Suc: "units m < units (Suc m)"
proof -
  obtain e f where m: "m = e * 2 ^ 52 + f" "f < 2 ^ 52" by (rule bits_split)
  show ?thesis
  proof (cases "Suc f < 2 ^ 52")
    case True
    then have "Suc m = e * 2 ^ 52 + Suc f" using m by simp
    then show ?thesis using m units_split [OF m(2), of e] units_split [OF True, of e] by simp
  next
    case False
    then have f: "Suc f = 2 ^ 52" using m(2) by simp
    then have "Suc m = Suc e * 2 ^ 52 + 0" using m(1) by simp
    then have "units (Suc m) = 2 ^ 52 * 2 ^ e" using units_split [of 0 "Suc e"] by (simp only: if_False nat.simps) simp
    moreover have "units m < 2 ^ 52 * 2 ^ e"
    proof (cases e)
      case (Suc k)
      have "2 ^ 52 + f < 2 ^ 53" using m(2) by simp
      then have "(2 ^ 52 + f) * 2 ^ k < 2 ^ 53 * 2 ^ k" by simp
      then show ?thesis using m(1) units_split [OF m(2), of e] Suc by simp
    qed (use m units_split [OF m(2), of e] in simp)
    ultimately show ?thesis by simp
  qed
qed

lemma units_less_iff [simp]: "units m < units n \<longleftrightarrow> m < n"
proof -
  have "strict_mono units" unfolding strict_mono_Suc_iff using units_Suc by blast
  then show ?thesis by (rule strict_mono_less)
qed

lemma units_eq_iff [simp]: "units m = units n \<longleftrightarrow> m = n"
  by (metis units_less_iff nat_neq_iff)

lemma units_le_iff [simp]: "units m \<le> units n \<longleftrightarrow> m \<le> n"
  using units_less_iff [of n m] by (simp only: not_less [symmetric])

lemma units_0 [simp]: "units 0 = 0" by (simp add: units_def)

text \<open>The order of the patterns is the order of the values.\<close>

lemma fl_value_units: "fl_value w = (if fl_neg w then - int (units (fl_bits w)) else int (units (fl_bits w)))"
  by (simp add: fl_value_def fl_units_bits)

lemma fl_order_le_iff: "fl_order a \<le> fl_order b \<longleftrightarrow> fl_value a \<le> fl_value b"
proof -
  have p: "units m = 0 \<longleftrightarrow> m = 0" for m using units_eq_iff [of m 0] by simp
  have z: "int m \<le> - int n \<longleftrightarrow> m = 0 \<and> n = 0" for m n by auto
  show ?thesis
    unfolding fl_order_def fl_value_units by (simp add: z p)
qed

lemma bit_length_interval: "2 ^ k \<le> n \<Longrightarrow> n < 2 ^ Suc k \<Longrightarrow> bit_length n = Suc k"
proof (induction k arbitrary: n)
  case 0
  then have "n = 1" by simp
  then show ?case by (simp add: bit_length.simps)
next
  case (Suc k)
  then have "2 ^ k \<le> n div 2" "n div 2 < 2 ^ Suc k" "n \<noteq> 0" by auto
  with Suc.IH [of "n div 2"] show ?case by (subst bit_length.simps) simp
qed

lemma bit_length_le: "n < 2 ^ k \<Longrightarrow> bit_length n \<le> k"
proof (induction k arbitrary: n)
  case 0 then show ?case by (simp add: bit_length.simps)
next
  case (Suc k)
  then have "n div 2 < 2 ^ k" by auto
  with Suc.IH [of "n div 2"] show ?case by (subst bit_length.simps) simp
qed

lemma fl_round_exact:
  assumes "m \<le> fl_inf_bits"
  shows "fl_round neg (units m) 1 = fl_make neg m"
proof -
  obtain e f where m: "m = e * 2 ^ 52 + f" "f < 2 ^ 52" by (rule bits_split)
  show ?thesis
  proof (cases e)
    case 0
    then have u: "units m = m" "m < 2 ^ 52" using m units_split [OF m(2), of e] by simp_all
    then have "bit_length m \<le> 53" using bit_length_le [of m 53] by simp
    then show ?thesis using assms u(1) by (simp add: fl_round_def Let_def)
  next
    case (Suc k)
    then have u: "units m = (2 ^ 52 + f) * 2 ^ k" using m units_split [OF m(2), of e] by simp
    have "bit_length (units m) = Suc (52 + k)"
      by (rule bit_length_interval) (use m(2) in \<open>simp_all add: u power_add\<close>)
    then have s: "bit_length ((2 ^ 52 + f) * 2 ^ k) - 53 = k" unfolding u by simp
    have d: "(2 ^ 52 + f) * 2 ^ k div (1 * 2 ^ k) = 2 ^ 52 + f" "(2 ^ 52 + f) * 2 ^ k mod (1 * 2 ^ k) = 0"
      by simp_all
    have "k * 2 ^ 52 + (2 ^ 52 + f) = m" using m Suc by simp
    then show ?thesis using assms unfolding fl_round_def u div_by_1 Let_def s d by (simp add: min_def)
  qed
qed

lemma fl_make_unat: "m < 2 ^ 63 \<Longrightarrow> unat (fl_make neg m) = (if neg then 2 ^ 63 + m else m)"
proof -
  assume m: "m < 2 ^ 63"
  have "fl_make neg m = of_nat (if neg then 2 ^ 63 + m else m)" by (simp add: fl_make_def)
  then show ?thesis using m by (simp only: unat_of_nat) simp
qed

lemma fl_bits_unat: "fl_bits w = unat w mod 2 ^ 63"
proof -
  have "fl_magnitude w = take_bit 63 w" unfolding fl_magnitude_def by (simp add: take_bit_eq_mask mask_eq_exp_minus_1)
  then show ?thesis by (simp add: fl_bits_def take_bit_eq_mod unat_mod_distrib)
qed

lemma fl_neg_unat: "fl_neg w \<longleftrightarrow> 2 ^ 63 \<le> unat w"
proof -
  have lt: "unat w < 2 ^ 64" using unsigned_less [of w] by simp
  have "fl_neg w \<longleftrightarrow> odd (unat w div 2 ^ 63)" proof -
    have "bit w 63 \<longleftrightarrow> bit (unat w) 63" by (simp add: bit_unsigned_iff)
    then show ?thesis by (simp add: fl_neg_def bit_iff_odd [of "unat w"])
  qed
  also have "\<dots> \<longleftrightarrow> 2 ^ 63 \<le> unat w"
  proof (cases "2 ^ 63 \<le> unat w")
    case True
    with lt have "unat w div 2 ^ 63 = 1" by (intro div_nat_eqI) auto
    with True show ?thesis by simp
  qed simp
  finally show ?thesis .
qed

lemma fl_make_bits [simp]:
  assumes "m < 2 ^ 63"
  shows "fl_bits (fl_make neg m) = m" "fl_neg (fl_make neg m) = neg"
  using assms by (simp_all add: fl_bits_unat fl_neg_unat fl_make_unat)

lemma fl_value_make: "m < 2 ^ 63 \<Longrightarrow> fl_value (fl_make neg m) = (if neg then - int (units m) else int (units m))"
  by (simp add: fl_value_units)

text \<open>Whole numbers of at most 53 bits are representable.\<close>

lemma whole_units_scaled:
  assumes "2 ^ t \<le> k" "k < 2 ^ Suc t" "t \<le> 52"
  shows "units ((1023 + t) * 2 ^ 52 + (k * 2 ^ (52 - t) - 2 ^ 52)) = k * one_unit"
proof -
  define f where "f = k * 2 ^ (52 - t) - 2 ^ 52"
  have "2 ^ t * 2 ^ (52 - t) \<le> k * 2 ^ (52 - t)" "k * 2 ^ (52 - t) < 2 ^ Suc t * 2 ^ (52 - t)" using assms(1,2) by simp_all
  moreover have "(2 :: nat) ^ t * 2 ^ (52 - t) = 2 ^ 52" "(2 :: nat) ^ Suc t * 2 ^ (52 - t) = 2 * 2 ^ 52"
    using assms(3) by (simp_all flip: power_add)
  ultimately have f: "f < 2 ^ 52" "2 ^ 52 + f = k * 2 ^ (52 - t)" unfolding f_def by linarith+
  have "units ((1023 + t) * 2 ^ 52 + f) = k * 2 ^ (52 - t) * 2 ^ (1022 + t)"
    using units_split [OF f(1), of "1023 + t"] f(2) by simp
  also have "\<dots> = k * 2 ^ (52 - t + (1022 + t))" by (simp only: power_add mult.assoc)
  also have "52 - t + (1022 + t) = 1074" using assms(3) by simp
  finally show ?thesis unfolding f_def one_unit_def .
qed

lemma whole_units:
  assumes "k < 2 ^ 53"
  shows "\<exists>m < fl_inf_bits. units m = k * one_unit"
proof (cases "k = 0")
  case True
  then show ?thesis by (intro exI [of _ 0]) (simp add: fl_inf_bits_def)
next
  case False
  then obtain t where t: "2 ^ t \<le> k" "k < 2 ^ Suc t" using ex_highest by blast
  with assms have "(2 :: nat) ^ t < 2 ^ 53" by simp
  then have "t < 53" by (rule power_less_imp_less_exp [rotated]) simp
  then have t52: "t \<le> 52" by simp
  have "k * 2 ^ (52 - t) < 2 ^ Suc t * 2 ^ (52 - t)" using t(2) by simp
  also have "\<dots> = 2 * 2 ^ 52" using t52 by (simp flip: power_add)
  finally have "k * 2 ^ (52 - t) - 2 ^ 52 < 2 ^ 52" by simp
  then have "(1023 + t) * 2 ^ 52 + (k * 2 ^ (52 - t) - 2 ^ 52) < fl_inf_bits"
    using t52 by (simp add: fl_inf_bits_def)
  with whole_units_scaled [OF t t52] show ?thesis by blast
qed

section \<open>Conversion to integers\<close>

lemma fl_is_nan_bits: "fl_is_nan w \<longleftrightarrow> fl_inf_bits < fl_bits w"
  by (simp add: fl_is_nan_def fl_bits_def fl_inf_bits_def word_less_nat_alt)

lemma IS_REAL_bits: "IS_REAL w \<longleftrightarrow> fl_bits w < fl_inf_bits"
proof -
  have i: "fl_inf_bits < 2 ^ 63" by (simp add: fl_inf_bits_def)
  have "\<not> fl_is_nan HUGE_VAL" "\<not> fl_is_nan (fl_negate HUGE_VAL)" "fl_order HUGE_VAL = int fl_inf_bits"
    "fl_order (fl_negate HUGE_VAL) = - int fl_inf_bits"
    using i by (simp_all add: fl_is_nan_bits HUGE_VAL_def fl_negate_def fl_order_def)
  then show ?thesis unfolding IS_REAL_def fl_less_def by (auto simp: fl_is_nan_bits fl_order_def)
qed

lemma fl_of_int_exact:
  assumes "units m = nat \<bar>k\<bar> * one_unit" "m < fl_inf_bits"
  shows "fl_value (fl_of_int k) = k * int one_unit" "IS_REAL (fl_of_int k)"
proof -
  have m: "m < 2 ^ 63" using assms(2) by (simp add: fl_inf_bits_def)
  have r: "fl_of_int k = fl_make (k < 0) m"
    unfolding fl_of_int_def assms(1) [symmetric] using assms(2) by (intro fl_round_exact) simp
  show "IS_REAL (fl_of_int k)" using m assms(2) by (simp add: r IS_REAL_bits)
  have "int (units m) = \<bar>k\<bar> * int one_unit" using assms(1) by simp
  then show "fl_value (fl_of_int k) = k * int one_unit" using m by (simp add: r fl_value_make)
qed

lemma one_unit_pos: "0 < one_unit" by (simp add: one_unit_def)

lemma large_is_whole:
  assumes "2 ^ 52 * one_unit \<le> units m"
  shows "one_unit dvd units m"
proof -
  obtain e f where m: "m = e * 2 ^ 52 + f" "f < 2 ^ 52" by (rule bits_split)
  have "1074 < e"
  proof (rule ccontr)
    assume "\<not> 1074 < e"
    then have "units m < 2 ^ 53 * 2 ^ 1073"
    proof (cases "e = 0")
      case False
      have "(2 ^ 52 + f) * 2 ^ (e - 1) < 2 ^ 53 * 2 ^ (e - 1)" using m(2) by simp
      also have "\<dots> \<le> 2 ^ 53 * 2 ^ 1073" using \<open>\<not> 1074 < e\<close> by (intro mult_le_mono2 power_increasing) auto
      finally show ?thesis using False m(1) units_split [OF m(2), of e] by simp
    qed (use m units_split [OF m(2), of e] in simp)
    also have "\<dots> = 2 ^ 52 * one_unit" unfolding one_unit_def power_add [symmetric] by simp
    finally show False using assms by simp
  qed
  then have "units m = (2 ^ 52 + f) * 2 ^ (e - 1)" using m units_split [OF m(2), of e] by simp
  moreover have "one_unit dvd 2 ^ (e - 1)" unfolding one_unit_def using \<open>1074 < e\<close> by (intro le_imp_power_dvd) simp
  ultimately show ?thesis by simp
qed

lemma whole_representable:
  assumes "IS_REAL d" "\<bar>k * int one_unit - fl_value d\<bar> < int one_unit"
    "int one_unit dvd fl_value d \<Longrightarrow> fl_value d = k * int one_unit"
  shows "\<exists>m < fl_inf_bits. units m = nat \<bar>k\<bar> * one_unit"
proof (cases "nat \<bar>k\<bar> < 2 ^ 53")
  case False
  let ?U = "int one_unit"
  have a: "\<bar>fl_value d\<bar> = int (units (fl_bits d))" by (simp add: fl_value_units)
  have "2 ^ 53 * ?U \<le> \<bar>k\<bar> * ?U" using False by (intro mult_right_mono) auto
  moreover have "\<bar>k\<bar> * ?U - ?U < \<bar>fl_value d\<bar>" using assms(2) abs_mult [of k ?U] by simp
  moreover have "(2 :: int) ^ 53 * ?U - ?U \<ge> 2 ^ 52 * ?U" by simp
  ultimately have "2 ^ 52 * ?U \<le> int (units (fl_bits d))" unfolding a by linarith
  then have "2 ^ 52 * one_unit \<le> units (fl_bits d)" by (simp flip: of_nat_mult)
  from large_is_whole [OF this] have "?U dvd fl_value d" using a by (metis dvd_abs_iff of_nat_dvd_iff)
  from assms(3) [OF this] have "int (units (fl_bits d)) = int (nat \<bar>k\<bar> * one_unit)" using a by (simp add: abs_mult)
  then have "units (fl_bits d) = nat \<bar>k\<bar> * one_unit" by (simp only: of_nat_eq_iff)
  with assms(1) show ?thesis unfolding IS_REAL_bits by blast
qed (rule whole_units)

lemma ceiling_div:
  fixes v U :: int
  assumes "0 < U" and k: "k = - (- v div U)"
  shows "v \<le> k * U" "k * U < v + U" "U dvd v \<Longrightarrow> v = k * U"
proof -
  have "- v div U * U + - v mod U = - v" by (rule div_mult_mod_eq)
  moreover have "k * U = - (- v div U * U)" unfolding k by simp
  ultimately have e: "k * U = v + - v mod U" by linarith
  moreover have "0 \<le> - v mod U" "- v mod U < U" using assms(1) by simp_all
  ultimately show "v \<le> k * U" "k * U < v + U" by linarith+
  show "v = k * U" if "U dvd v" using e that by (simp add: mod_eq_0_iff_dvd)
qed

lemma floor_div_less:
  fixes v U m :: int
  assumes "0 < U"
  shows "v div U < m \<longleftrightarrow> v < m * U"
proof -
  have v: "v = v div U * U + v mod U" "0 \<le> v mod U" "v mod U < U" using assms by simp_all
  have "v < m * U" if "v div U < m"
  proof -
    have "(v div U + 1) * U \<le> m * U" using that assms by (intro mult_right_mono) auto
    then have "v div U * U + U \<le> m * U" by (simp add: distrib_right)
    then show ?thesis using v by linarith
  qed
  moreover have "v div U < m" if "v < m * U"
  proof -
    have "v div U * U < m * U" using v that by linarith
    then show ?thesis using assms by simp
  qed
  ultimately show ?thesis by blast
qed

lemma fl_ceil_value:
  assumes "IS_REAL d"
  defines "k \<equiv> - (- fl_value d div int one_unit)"
  shows "fl_value (fl_ceil d) = k * int one_unit" "\<not> fl_is_nan (fl_ceil d)"
proof -
  have U: "0 < int one_unit" using one_unit_pos by simp
  note c = ceiling_div [OF U, of k "fl_value d", OF meta_eq_to_obj_eq [OF k_def]]
  have "\<bar>k * int one_unit - fl_value d\<bar> < int one_unit" using c(1,2) by linarith
  from whole_representable [OF assms(1) this c(3)] obtain m where m: "m < fl_inf_bits" "units m = nat \<bar>k\<bar> * one_unit" by blast
  have e: "fl_ceil d = fl_whole (fl_neg d) k"
    using assms(1) unfolding fl_ceil_def k_def IS_REAL_bits by (simp add: fl_is_nan_bits fl_is_inf_def)
  have z: "fl_value (fl_make b 0) = 0" "\<not> fl_is_nan (fl_make b 0)" for b
    by (simp_all add: fl_value_make fl_is_nan_bits)
  show "fl_value (fl_ceil d) = k * int one_unit" "\<not> fl_is_nan (fl_ceil d)"
    using z fl_of_int_exact [OF m(2,1)] unfolding e fl_whole_def IS_REAL_bits fl_is_nan_bits by auto
qed

lemma NUM_MIN_units: "units (1086 * 2 ^ 52 + 0) = nat \<bar>NUM_MIN\<bar> * one_unit"
proof -
  have "units (1086 * 2 ^ 52 + 0) = 2 ^ 52 * 2 ^ 1085" using units_split [of 0 1086] by simp
  also have "\<dots> = 2 ^ 63 * one_unit" unfolding one_unit_def power_add [symmetric] by simp
  finally show ?thesis by (simp add: NUM_MIN_def)
qed

lemma NUM_MIN_float:
  "fl_value (fl_of_int NUM_MIN) = NUM_MIN * int one_unit" "\<not> fl_is_nan (fl_of_int NUM_MIN)"
  "fl_value (fl_negate (fl_of_int NUM_MIN)) = - NUM_MIN * int one_unit" "\<not> fl_is_nan (fl_negate (fl_of_int NUM_MIN))"
proof -
  have m: "1086 * 2 ^ 52 + 0 < fl_inf_bits" by (simp add: fl_inf_bits_def)
  note f = fl_of_int_exact [OF NUM_MIN_units m]
  have b: "fl_bits (fl_of_int NUM_MIN) < 2 ^ 63" using f(2) by (simp add: IS_REAL_bits fl_inf_bits_def)
  show "fl_value (fl_of_int NUM_MIN) = NUM_MIN * int one_unit" by (rule f(1))
  then show "fl_value (fl_negate (fl_of_int NUM_MIN)) = - NUM_MIN * int one_unit"
    using b unfolding fl_negate_def by (auto simp: fl_value_units)
  show "\<not> fl_is_nan (fl_of_int NUM_MIN)" "\<not> fl_is_nan (fl_negate (fl_of_int NUM_MIN))"
    using f(2) b unfolding fl_negate_def by (simp_all add: IS_REAL_bits fl_is_nan_bits)
qed

lemma fl_to_int_quotient: "fl_to_int d = c_quotient (fl_value d) (int one_unit)"
proof -
  have "\<bar>int (fl_units d)\<bar> div \<bar>int one_unit\<bar> = int (fl_units d div one_unit)" by (simp add: zdiv_int)
  moreover have "sgn (int one_unit) = 1" using one_unit_pos by simp
  ultimately show ?thesis
    unfolding fl_to_int_def fl_value_def c_quotient_def by (cases "fl_units d = 0") auto
qed

lemma inrange_exact:
  assumes "IS_REAL d"
  shows "inrange_for_float_to_int d \<longleftrightarrow> c_quotient (fl_value d) (int one_unit) \<in> {NUM_MIN..NUM_MAX}"
proof -
  let ?U = "int one_unit" and ?v = "fl_value d"
  define k where "k = - (- ?v div ?U)"
  have U: "0 < ?U" using one_unit_pos by simp
  have d: "\<not> fl_is_nan d" using assms by (simp add: IS_REAL_bits fl_is_nan_bits)
  have less: "fl_order d < fl_order (fl_negate (fl_of_int NUM_MIN)) \<longleftrightarrow> ?v < - NUM_MIN * ?U"
    using fl_order_le_iff [of "fl_negate (fl_of_int NUM_MIN)" d] unfolding NUM_MIN_float(3) by linarith
  have "inrange_for_float_to_int d \<longleftrightarrow> NUM_MIN * ?U \<le> k * ?U \<and> ?v < - NUM_MIN * ?U"
    unfolding inrange_for_float_to_int_def fl_le_def fl_less_def fl_order_le_iff less
    by (simp add: NUM_MIN_float fl_ceil_value [OF assms] d k_def)
  also have "\<dots> \<longleftrightarrow> NUM_MIN \<le> k \<and> ?v < - NUM_MIN * ?U" using U by simp
  also have "\<dots> \<longleftrightarrow> c_quotient ?v ?U \<in> {NUM_MIN..NUM_MAX}"
  proof (cases "?v < 0")
    case True
    then have "c_quotient ?v ?U = k" using U by (simp add: c_quotient_def k_def)
    moreover have "k \<le> 0" using True U unfolding k_def by (simp add: pos_imp_zdiv_nonneg_iff)
    moreover have "?v < - NUM_MIN * ?U" using True U by (simp add: NUM_MIN_def order.strict_trans2)
    ultimately show ?thesis by (simp add: NUM_MAX_def)
  next
    case False
    then have q: "c_quotient ?v ?U = ?v div ?U" using U by (auto simp: c_quotient_def sgn_if)
    have "0 \<le> ?v div ?U" using False U by (simp add: pos_imp_zdiv_nonneg_iff)
    moreover have "0 \<le> k * ?U" using ceiling_div(1) [OF U k_def] False by linarith
    then have "0 \<le> k" using U by (simp add: zero_le_mult_iff)
    moreover have "?v div ?U < - NUM_MIN \<longleftrightarrow> ?v < - NUM_MIN * ?U" using U by (rule floor_div_less)
    ultimately show ?thesis unfolding q by (auto simp: NUM_MIN_def NUM_MAX_def)
  qed
  finally show ?thesis .
qed

lemma become_integer_float:
  assumes "IS_REAL d"
  defines "n \<equiv> c_quotient (fl_value d) (int one_unit)"
  shows "become_integer my_isspace (TYPE_FLOAT d) b =
    Some (if n \<in> {NUM_MIN..NUM_MAX} then Inr n else Inl E_FLOAT)"
  using assms(1) by (simp add: become_integer_def inrange_exact fl_to_int_quotient n_def)

lemma become_integer_whole:
  assumes "\<bar>n\<bar> < 2 ^ 53"
  shows "become_integer my_isspace (TYPE_FLOAT (fl_of_int n)) b = Some (Inr n)"
proof -
  from assms have "nat \<bar>n\<bar> < 2 ^ 53" by (simp add: nat_less_iff)
  from whole_units [OF this] obtain m where m: "m < fl_inf_bits" "units m = nat \<bar>n\<bar> * one_unit" by blast
  note f = fl_of_int_exact [OF m(2,1)]
  have "c_quotient (n * int one_unit) (int one_unit) = n"
    using one_unit_pos by (simp add: c_quotient_def abs_mult sgn_mult sgn_mult_abs)
  moreover have "n \<in> {NUM_MIN..NUM_MAX}" using assms by (simp add: NUM_MIN_def NUM_MAX_def) linarith
  ultimately show ?thesis using become_integer_float [OF f(2)] unfolding f(1) by simp
qed

section \<open>Printing and parsing integers\<close>

text \<open>The decimal notation that \<^verbatim>\<open>printf\<close> gives an integer.\<close>

fun digits_of :: "nat \<Rightarrow> string" where
  "digits_of n = (if n < 10 then [char_of (48 + n)] else digits_of (n div 10) @ [char_of (48 + n mod 10)])"

declare digits_of.simps [simp del]

definition num_string :: "num \<Rightarrow> string" where
  "num_string n = (if n < 0 then CHR ''-'' # digits_of (nat (- n)) else digits_of (nat n))"

lemma digit_char: "n < 10 \<Longrightarrow> of_char (char_of (48 + n :: nat) :: char) = 48 + n" by (simp add: of_char_of)

lemma digit_val_char: "n < 10 \<Longrightarrow> digit_val (char_of (48 + n :: nat)) = int n"
proof -
  assume "n < 10"
  have "(of_char (char_of (48 + n :: nat) :: char) :: int) = int (of_char (char_of (48 + n) :: char))"
    by (rule of_nat_of_char [symmetric])
  also have "\<dots> = 48 + int n" unfolding digit_char [OF \<open>n < 10\<close>] by simp
  finally show ?thesis by (simp add: digit_val_def)
qed

lemma digits_of_ok: "digits_of n \<noteq> [] \<and> list_all isdigit (digits_of n) \<and> digits_val (digits_of n) = int n"
proof (induction n rule: digits_of.induct)
  case (1 n)
  show ?case
  proof (cases "n < 10")
    case True
    then show ?thesis using digit_char [OF True]
      by (subst (1 2 3) digits_of.simps) (simp add: isdigit_def digits_val_def digit_val_char)
  next
    case False
    have m: "n mod 10 < 10" by simp
    then have "isdigit (char_of (48 + n mod 10))" using digit_char [OF m] by (simp add: isdigit_def)
    moreover have "10 * int (n div 10) + int (n mod 10) = int n" by presburger
    ultimately show ?thesis using "1.IH" [OF False] False
      by (subst (1 2 3) digits_of.simps) (simp add: digits_val_def digit_val_char [OF m])
  qed
qed

lemma isdigit_num: "isdigit c \<longleftrightarrow> 48 \<le> (of_char c :: nat) \<and> (of_char c :: nat) \<le> 57"
  by (simp add: isdigit_def)

lemma snp_chars_ascii: "list_all (\<lambda>c. (of_char c :: nat) \<le> 0x7f) s \<Longrightarrow> snp_chars s = map of_char s"
proof (induction s)
  case (Cons c s)
  then show ?case by (subst snp_chars.simps) (simp add: get_utf_def)
qed (simp add: snp_chars.simps)

lemma pn_char_digit: "isdigit c \<Longrightarrow> pn_char fl u (of_char c) cs st = Some (add_ns (of_char c) (st\<lparr>F_DIGIT := True, F_XSIGN := True\<rparr>))"
  by (simp add: pn_char_def isdigit_num)

lemma minus_char: "(char_of (45 :: nat) :: char) = CHR ''-''" by code_simp

lemma pn_loop_digits:
  "list_all isdigit ds \<Longrightarrow> pn_loop my_isspace fl u st (map of_char ds) =
     (if ds = [] then st else st\<lparr>F_DIGIT := True, F_XSIGN := True, ns := ns st @ ds\<rparr>, True, [])"
  by (induction ds arbitrary: st) (simp_all add: pn_char_digit add_ns_def char_of_char)

lemma strtoimax_num_string: "strtoimax (num_string n) = (n, [])"
proof -
  have t: "takeWhile isdigit ds = ds" "dropWhile isdigit ds = []" if "list_all isdigit ds" for ds
    using that by (induction ds) auto
  have sign: "c_sign ds = (False, ds)" if "list_all isdigit ds" for ds
    using that by (cases ds) (auto simp: c_sign_def isdigit_num)
  define ds where "ds = digits_of (nat \<bar>n\<bar>)"
  have d: "ds \<noteq> []" "list_all isdigit ds" "digits_val ds = \<bar>n\<bar>" using digits_of_ok [of "nat \<bar>n\<bar>"] by (simp_all add: ds_def)
  have n: "num_string n = (if n < 0 then CHR ''-'' # ds else ds)" by (simp add: num_string_def ds_def)
  show ?thesis
    using d sign [OF d(2)] unfolding strtoimax_def n by (simp add: t [OF d(2)] c_sign_def [of "_ # _"])
qed

lemma parse_printed:
  assumes sp: "\<And>c. my_isspace c \<Longrightarrow> c \<noteq> 45 \<and> \<not> (48 \<le> c \<and> c \<le> 57)"
    and fl: "\<not> NONNEG fl" "\<not> REQ_FLOAT fl" and n: "n \<in> {NUM_MIN..NUM_MAX}"
  shows "parse_number_from_string my_isspace (num_string n) fl = TYPE_INT n"
proof -
  let ?fl = "fl\<lparr>MUST_EOF := True\<rparr>" and ?s = "num_string n"
  note d = digits_of_ok [of "nat n"] digits_of_ok [of "nat (- n)"]
  have ascii: "list_all (\<lambda>c. (of_char c :: nat) \<le> 0x7f) ?s"
    using d by (auto simp: num_string_def list_all_iff isdigit_num)
  have first: "?s \<noteq> []" "isdigit (hd ?s) \<or> hd ?s = CHR ''-''"
    using d by (auto simp: num_string_def list_all_iff)
  then have front: "pn_space my_isspace b (map of_char ?s) = map of_char ?s" for b
    using sp [of "of_char (hd ?s)"] by (cases ?s) (auto simp: pn_space_def isdigit_num)
  have octo: "pn_octothorpe my_isspace ?fl (map of_char ?s) = map of_char ?s"
    using first by (cases ?s) (auto simp: pn_octothorpe_def isdigit_num)
  obtain st where st: "pn_loop my_isspace ?fl False (pn_start ?fl) (map of_char ?s) = (st, True, [])"
    "F_DIGIT st" "\<not> is_float st" "ns st = ?s"
  proof -
    have "\<exists>st. pn_loop my_isspace ?fl False (pn_start ?fl) (map of_char ?s) = (st, True, []) \<and> F_DIGIT st \<and> \<not> is_float st \<and> ns st = ?s"
      using d fl by (auto simp: num_string_def pn_loop_digits pn_start_def pn_char_def add_ns_def minus_char)
    with that show thesis by blast
  qed
  have "have_digits ?fl st = TYPE_INT n"
    using st(3,4) fl n by (auto simp: have_digits_def strtoimax_num_string)
  then show ?thesis
    using st(1,2) by (simp add: parse_number_from_string_def parse_number_def snp_chars_ascii [OF ascii] front octo)
qed

lemma become_integer_printed:
  assumes "\<And>c. my_isspace c \<Longrightarrow> c \<noteq> 45 \<and> \<not> (48 \<le> c \<and> c \<le> 57)" "n \<in> {NUM_MIN..NUM_MAX}"
  shows "become_integer my_isspace (TYPE_STR (num_string n)) b = Some (Inr n)"
proof -
  have "parse_number_from_string my_isspace (num_string n)
      (if b then PN_SPACE\<lparr>REQ_INT := True, FLOAT_OK := True\<rparr> else PN_SPACE\<lparr>REQ_INT := True, OCTOTHORPE := True\<rparr>) = TYPE_INT n"
    by (rule parse_printed [OF assms(1)]) (use assms(2) in \<open>auto simp: PN_SPACE_def PN_NONE_def\<close>)
  then show ?thesis by (simp add: become_integer_def)
qed

end
