(* ===== verification/VmInstr.thy ===== *)
theory VmInstr
  imports Numbers
begin

text \<open>
  The instructions of the virtual machine (\<^verbatim>\<open>run\<close> in \<^verbatim>\<open>execute.c\<close>, \<^verbatim>\<open>opcode.h\<close>), as far as they
  work on the running activation and the database.  The local variables of \<^verbatim>\<open>run\<close> (the
  program counter, the position of the instruction for error messages, the top of the stack) are kept in the activation, where
  the code stores them before it calls anything that looks at them.  The run-time stack is a list with
  its top first; leaving it at either end, or the byte code, an
  environment or a table, is undefined: \<open>None\<close>.  An instruction that does more has its effect
  described by a value of type \<open>effect\<close>, which the interpreter loop then carries out.
\<close>

section \<open>Opcodes\<close>

datatype opcode =
    OP_IF | OP_WHILE | OP_EIF | OP_FORK | OP_FORK_WITH_ID | OP_FOR_LIST | OP_FOR_RANGE
  | OP_INDEXSET | OP_PUSH_GET_PROP | OP_GET_PROP | OP_CALL_VERB | OP_PUT_PROP
  | OP_BI_FUNC_CALL | OP_IF_QUES | OP_REF | OP_RANGE_REF
  | OP_MAKE_SINGLETON_LIST | OP_CHECK_LIST_FOR_SPLICE
  | OP_MULT | OP_DIV | OP_MOD | OP_ADD | OP_MINUS
  | OP_EQ | OP_NE | OP_LT | OP_LE | OP_GT | OP_GE | OP_IN
  | OP_AND | OP_OR | OP_UNARY_MINUS | OP_NOT
  | OP_PUT nat | OP_G_PUT | OP_PUSH nat | OP_G_PUSH
  | OP_IMM | OP_MAKE_EMPTY_LIST | OP_LIST_ADD_TAIL | OP_LIST_APPEND | OP_PUSH_REF | OP_PUT_TEMP | OP_PUSH_TEMP
  | OP_JUMP | OP_RETURN | OP_RETURN0 | OP_DONE | OP_POP | OP_EXTENDED
  | OPTIM_NUM num

datatype extended_opcode =
    EOP_RANGESET | EOP_LENGTH | EOP_PUSH_LABEL | EOP_END_CATCH | EOP_END_EXCEPT | EOP_END_FINALLY | EOP_CONTINUE
  | EOP_CATCH | EOP_TRY_EXCEPT | EOP_TRY_FINALLY | EOP_WHILE_ID | EOP_EXIT | EOP_EXIT_ID | EOP_SCATTER | EOP_EXP
  | EOP_BITAND | EOP_BITXOR | EOP_BITOR | EOP_SHL | EOP_SHR | EOP_LSHR | EOP_COMPLEMENT

definition NUM_READY_VARS :: nat where "NUM_READY_VARS = 32"

definition ticking_ops :: "opcode list" where
  "ticking_ops =
     [OP_IF, OP_WHILE, OP_EIF, OP_FORK, OP_FORK_WITH_ID, OP_FOR_LIST, OP_FOR_RANGE,
      OP_INDEXSET, OP_PUSH_GET_PROP, OP_GET_PROP, OP_CALL_VERB, OP_PUT_PROP, OP_BI_FUNC_CALL, OP_IF_QUES, OP_REF, OP_RANGE_REF,
      OP_MAKE_SINGLETON_LIST, OP_CHECK_LIST_FOR_SPLICE, OP_MULT, OP_DIV, OP_MOD, OP_ADD, OP_MINUS,
      OP_EQ, OP_NE, OP_LT, OP_LE, OP_GT, OP_GE, OP_IN, OP_AND, OP_OR, OP_UNARY_MINUS, OP_NOT]
     @ map OP_PUT [0..<NUM_READY_VARS] @ [OP_G_PUT]"

definition opcodes :: "opcode list" where
  "opcodes = ticking_ops @ map OP_PUSH [0..<NUM_READY_VARS]
     @ [OP_G_PUSH, OP_IMM, OP_MAKE_EMPTY_LIST, OP_LIST_ADD_TAIL, OP_LIST_APPEND, OP_PUSH_REF, OP_PUT_TEMP, OP_PUSH_TEMP,
        OP_JUMP, OP_RETURN, OP_RETURN0, OP_DONE, OP_POP, OP_EXTENDED]"

definition OPTIM_NUM_START :: nat where "OPTIM_NUM_START = length opcodes"

definition OPTIM_NUM_LOW :: int where "OPTIM_NUM_LOW = -10"

definition opcode_of :: "8 word \<Rightarrow> opcode" where
  "opcode_of b =
     (let o' = unat b
      in if o' \<ge> OPTIM_NUM_START then OPTIM_NUM (int o' - int OPTIM_NUM_START + OPTIM_NUM_LOW) else opcodes ! o')"

definition COUNT_TICK :: "8 word \<Rightarrow> bool" where "COUNT_TICK b \<longleftrightarrow> unat b < length ticking_ops"

definition extended_opcodes :: "extended_opcode list" where
  "extended_opcodes =
     [EOP_RANGESET, EOP_LENGTH, EOP_PUSH_LABEL, EOP_END_CATCH, EOP_END_EXCEPT, EOP_END_FINALLY, EOP_CONTINUE,
      EOP_CATCH, EOP_TRY_EXCEPT, EOP_TRY_FINALLY, EOP_WHILE_ID, EOP_EXIT, EOP_EXIT_ID, EOP_SCATTER, EOP_EXP,
      EOP_BITAND, EOP_BITXOR, EOP_BITOR, EOP_SHL, EOP_SHR, EOP_LSHR, EOP_COMPLEMENT]"

definition COUNT_EOP_TICK :: "8 word \<Rightarrow> bool" where "COUNT_EOP_TICK b \<longleftrightarrow> unat b \<ge> 7"

section \<open>The activation as a machine\<close>

definition RT_STACK_QUICKSIZE :: nat where "RT_STACK_QUICKSIZE = 15"

definition PUSH :: "var \<Rightarrow> activation \<Rightarrow> activation option" where
  "PUSH v a =
     (if length (a_rt_stack a) < max (a_rt_stack_size a) RT_STACK_QUICKSIZE
      then Some (a\<lparr>a_rt_stack := v # a_rt_stack a\<rparr>) else None)"

definition POP :: "activation \<Rightarrow> (var \<times> activation) option" where
  "POP a = (case a_rt_stack a of [] \<Rightarrow> None | v # vs \<Rightarrow> Some (v, a\<lparr>a_rt_stack := vs\<rparr>))"

definition TOP_RT_VALUE :: "activation \<Rightarrow> var option" where
  "TOP_RT_VALUE a = nth_opt (a_rt_stack a) 0"

definition NEXT_TOP_RT_VALUE :: "activation \<Rightarrow> var option" where
  "NEXT_TOP_RT_VALUE a = nth_opt (a_rt_stack a) 1"

definition fetch :: "bytecodes \<Rightarrow> nat \<Rightarrow> 8 word option" where
  "fetch bc pc = nth_opt (bc_vector bc) pc"

definition READ_BYTES :: "bytecodes \<Rightarrow> nat \<Rightarrow> activation \<Rightarrow> (nat \<times> activation) option" where
  "READ_BYTES bc nb a =
     do { let pc = a_pc a + nb;
          b1 \<leftarrow> fetch bc (pc - 1);
          n \<leftarrow> (if nb = 1 then Some (unat b1)
                else if nb = 2 then do { b2 \<leftarrow> fetch bc (pc - 2); Some (unat b2 * 2 ^ 8 + unat b1) }
                else do { b2 \<leftarrow> fetch bc (pc - 2); b3 \<leftarrow> fetch bc (pc - 3); b4 \<leftarrow> fetch bc (pc - 4);
                          Some (unat b4 * 2 ^ 24 + unat b3 * 2 ^ 16 + unat b2 * 2 ^ 8 + unat b1) });
          Some (n, a\<lparr>a_pc := pc\<rparr>) }"

definition SKIP_BYTES :: "nat \<Rightarrow> activation \<Rightarrow> activation" where
  "SKIP_BYTES nb a = a\<lparr>a_pc := a_pc a + nb\<rparr>"

definition JUMP :: "nat \<Rightarrow> activation \<Rightarrow> activation" where "JUMP label a = a\<lparr>a_pc := label\<rparr>"

definition set_env :: "nat \<Rightarrow> var \<Rightarrow> activation \<Rightarrow> activation option" where
  "set_env i v a = (if i < length (a_rt_env a) then Some (a\<lparr>a_rt_env := (a_rt_env a)[i := v]\<rparr>) else None)"

text \<open>
  What an instruction asks for.  An error is raised in the given state if the verb has the debug bit; otherwise the
  instruction goes on, with the second state.  \<open>Quota_error\<close> is \<^verbatim>\<open>PUSH_ERROR_UNLESS_QUOTA\<close>.
\<close>

datatype finally_reason = FIN_FALL_THRU | FIN_RAISE | FIN_UNCAUGHT | FIN_RETURN | FIN_ABORT | FIN_EXIT

datatype effect =
    Next activation
  | Error error activation "activation option"
  | Quota_error error activation "activation option"
  | Store db activation
  | Fork_task nat num "nat option" activation
  | Call_verb objid string "var list" activation
  | Call_bi nat var activation
  | Return var activation
  | Unwind finally_reason var activation

definition RAISE_ERROR :: "error \<Rightarrow> activation \<Rightarrow> activation \<Rightarrow> effect" where
  "RAISE_ERROR e a a' = Error e a (Some a')"

definition PUSH_ERROR :: "error \<Rightarrow> activation \<Rightarrow> effect" where
  "PUSH_ERROR e a = Error e a (PUSH (TYPE_ERR e) a)"

definition PUSH_ERROR_UNLESS_QUOTA :: "error \<Rightarrow> activation \<Rightarrow> effect" where
  "PUSH_ERROR_UNLESS_QUOTA e a = Quota_error e a (PUSH (TYPE_ERR e) a)"

definition PUSHED :: "var \<Rightarrow> activation \<Rightarrow> effect option" where
  "PUSHED v a = map_option Next (PUSH v a)"

text \<open>The result of an operator is pushed; an error among the results is raised.\<close>

definition push_result :: "var \<Rightarrow> activation \<Rightarrow> effect option" where
  "push_result ans a = (case ans of TYPE_ERR e \<Rightarrow> Some (PUSH_ERROR e a) | _ \<Rightarrow> PUSHED ans a)"

section \<open>Tests, jumps and loops\<close>

definition do_test :: "bytecodes \<Rightarrow> activation \<Rightarrow> effect option" where
  "do_test bc a =
     do { (cond, a) \<leftarrow> POP a;
          if \<not> is_true cond then do { (lab, a) \<leftarrow> READ_BYTES bc (bc_numbytes_label bc) a; Some (Next (JUMP lab a)) }
          else Some (Next (SKIP_BYTES (bc_numbytes_label bc) a)) }"

definition op_jump :: "bytecodes \<Rightarrow> activation \<Rightarrow> effect option" where
  "op_jump bc a = do { (lab, a) \<leftarrow> READ_BYTES bc (bc_numbytes_label bc) a; Some (Next (JUMP lab a)) }"

definition pop_two :: "activation \<Rightarrow> activation option" where
  "pop_two a = do { (_, a) \<leftarrow> POP a; (_, a) \<leftarrow> POP a; Some a }"

definition op_for_list :: "bytecodes \<Rightarrow> activation \<Rightarrow> effect option" where
  "op_for_list bc a =
     do { (ident, a) \<leftarrow> READ_BYTES bc (bc_numbytes_var_name bc) a;
          (lab, a) \<leftarrow> READ_BYTES bc (bc_numbytes_label bc) a;
          count \<leftarrow> TOP_RT_VALUE a;
          list \<leftarrow> NEXT_TOP_RT_VALUE a;
          out \<leftarrow> pop_two a;
          (case list of
             TYPE_LIST xs \<Rightarrow>
               (case count of
                  TYPE_INT n \<Rightarrow>
                    if n > int (length xs) then Some (Next (JUMP lab out))
                    else if n < 1 then None
                    else do { a1 \<leftarrow> set_env ident (xs ! nat (n - 1)) a;
                              Some (Next (a1\<lparr>a_rt_stack := TYPE_INT (wrap_num (n + 1)) # TYPE_LIST xs # a_rt_stack out\<rparr>)) }
                | _ \<Rightarrow> None)
           | _ \<Rightarrow> Some (RAISE_ERROR E_TYPE a (JUMP lab out))) }"

text \<open>
  At the largest number the upper bound goes down instead of the lower one going up.  The other arguments of \<open>range_step\<close>
  rebuild the values, of type integer or object.
\<close>

definition range_step :: "(int \<Rightarrow> var) \<Rightarrow> nat \<Rightarrow> nat \<Rightarrow> int \<Rightarrow> int \<Rightarrow> activation \<Rightarrow> activation \<Rightarrow> effect option" where
  "range_step mk ident lab from to a out =
     (if from > to then Some (Next (JUMP lab out))
      else do { a1 \<leftarrow> set_env ident (mk from) a;
                Some (Next (a1\<lparr>a_rt_stack :=
                  (if from < NUM_MAX then mk to # mk (from + 1) # a_rt_stack out
                   else mk (to - 1) # mk from # a_rt_stack out)\<rparr>)) })"

definition op_for_range :: "bytecodes \<Rightarrow> activation \<Rightarrow> effect option" where
  "op_for_range bc a =
     do { (ident, a) \<leftarrow> READ_BYTES bc (bc_numbytes_var_name bc) a;
          (lab, a) \<leftarrow> READ_BYTES bc (bc_numbytes_label bc) a;
          to \<leftarrow> TOP_RT_VALUE a;
          from \<leftarrow> NEXT_TOP_RT_VALUE a;
          out \<leftarrow> pop_two a;
          (case (from, to) of
             (TYPE_INT m, TYPE_INT n) \<Rightarrow> range_step TYPE_INT ident lab m n a out
           | (TYPE_OBJ m, TYPE_OBJ n) \<Rightarrow> range_step TYPE_OBJ ident lab m n a out
           | _ \<Rightarrow> Some (RAISE_ERROR E_TYPE a (JUMP lab out))) }"

section \<open>Constants, variables and lists\<close>

definition op_pop :: "activation \<Rightarrow> effect option" where
  "op_pop a = do { (_, a) \<leftarrow> POP a; Some (Next a) }"

definition op_imm :: "bytecodes \<Rightarrow> activation \<Rightarrow> effect option" where
  "op_imm bc a =
     do { b \<leftarrow> fetch bc (a_pc a + bc_numbytes_literal bc);
          if opcode_of b = OP_POP then Some (Next (a\<lparr>a_pc := a_pc a + bc_numbytes_literal bc + 1\<rparr>))
          else do { (slot, a) \<leftarrow> READ_BYTES bc (bc_numbytes_literal bc) a;
                    v \<leftarrow> nth_opt (prog_literals (a_prog a)) slot;
                    PUSHED v a } }"

definition push_var :: "nat \<Rightarrow> activation \<Rightarrow> effect option" where
  "push_var i a =
     do { v \<leftarrow> nth_opt (a_rt_env a) i;
          if v = TYPE_NONE then Some (PUSH_ERROR E_VARNF a) else PUSHED v a }"

definition op_put :: "bytecodes \<Rightarrow> nat \<Rightarrow> activation \<Rightarrow> effect option" where
  "op_put bc i a =
     do { b \<leftarrow> fetch bc (a_pc a);
          if opcode_of b = OP_POP
          then do { (v, a) \<leftarrow> POP a; a \<leftarrow> set_env i v a; Some (Next (SKIP_BYTES 1 a)) }
          else do { v \<leftarrow> TOP_RT_VALUE a; a \<leftarrow> set_env i v a; Some (Next a) } }"

definition put_top :: "bytecodes \<Rightarrow> activation \<Rightarrow> activation option" where
  "put_top bc a =
     do { (ident, a) \<leftarrow> READ_BYTES bc (bc_numbytes_var_name bc) a;
          v \<leftarrow> TOP_RT_VALUE a;
          set_env ident v a }"

definition op_g_push :: "bytecodes \<Rightarrow> activation \<Rightarrow> effect option" where
  "op_g_push bc a = do { (ident, a) \<leftarrow> READ_BYTES bc (bc_numbytes_var_name bc) a; push_var ident a }"

definition op_put_temp :: "activation \<Rightarrow> effect option" where
  "op_put_temp a = do { v \<leftarrow> TOP_RT_VALUE a; Some (Next (a\<lparr>a_temp := v\<rparr>)) }"

definition op_push_temp :: "activation \<Rightarrow> effect option" where
  "op_push_temp a = do { a1 \<leftarrow> PUSH (a_temp a) a; Some (Next (a1\<lparr>a_temp := TYPE_NONE\<rparr>)) }"

text \<open>\<open>max_list\<close> is the server option that limits the length of lists.\<close>

definition op_list_add_tail :: "int \<Rightarrow> activation \<Rightarrow> effect option" where
  "op_list_add_tail max_list a =
     do { (tail, a) \<leftarrow> POP a;
          (list, a) \<leftarrow> POP a;
          (case list of
             TYPE_LIST xs \<Rightarrow>
               if max_list \<le> int (length xs) then Some (PUSH_ERROR_UNLESS_QUOTA E_QUOTA a)
               else do { ys \<leftarrow> listappend xs tail; PUSHED (TYPE_LIST ys) a }
           | _ \<Rightarrow> Some (PUSH_ERROR_UNLESS_QUOTA E_TYPE a)) }"

definition op_list_append :: "int \<Rightarrow> activation \<Rightarrow> effect option" where
  "op_list_append max_list a =
     do { (tail, a) \<leftarrow> POP a;
          (list, a) \<leftarrow> POP a;
          (case (tail, list) of
             (TYPE_LIST ys, TYPE_LIST xs) \<Rightarrow>
               if max_list < int (length xs) + int (length ys) then Some (PUSH_ERROR_UNLESS_QUOTA E_QUOTA a)
               else PUSHED (TYPE_LIST (listconcat xs ys)) a
           | _ \<Rightarrow> Some (PUSH_ERROR_UNLESS_QUOTA E_TYPE a)) }"

definition op_make_singleton_list :: "activation \<Rightarrow> effect option" where
  "op_make_singleton_list a = do { (v, a) \<leftarrow> POP a; PUSHED (TYPE_LIST [v]) a }"

definition is_list :: "var \<Rightarrow> bool" where "is_list v \<longleftrightarrow> (case v of TYPE_LIST _ \<Rightarrow> True | _ \<Rightarrow> False)"

definition op_check_list_for_splice :: "activation \<Rightarrow> effect option" where
  "op_check_list_for_splice a =
     do { v \<leftarrow> TOP_RT_VALUE a;
          if is_list v then Some (Next a) else do { (_, a) \<leftarrow> POP a; Some (PUSH_ERROR E_TYPE a) } }"

section \<open>Indexing\<close>

definition list_or_string :: "var \<Rightarrow> bool" where
  "list_or_string v \<longleftrightarrow> (case v of TYPE_LIST _ \<Rightarrow> True | TYPE_STR _ \<Rightarrow> True | _ \<Rightarrow> False)"

text \<open>The cast to the unsigned type \<^verbatim>\<open>UNum\<close>.\<close>

definition unum :: "int \<Rightarrow> int" where "unum n = n mod 2 ^ 64"

definition first_byte :: "string \<Rightarrow> char" where "first_byte s = (case s of [] \<Rightarrow> CHR 0x00 | c # _ \<Rightarrow> c)"

definition op_indexset :: "activation \<Rightarrow> effect option" where
  "op_indexset a =
     do { (v, a) \<leftarrow> POP a;
          (index, a) \<leftarrow> POP a;
          (list, a) \<leftarrow> POP a;
          (case (index, list) of
             (TYPE_INT i, TYPE_LIST xs) \<Rightarrow>
               if i < 1 \<or> i > int (length xs) then Some (PUSH_ERROR E_RANGE a)
               else do { ys \<leftarrow> listset xs v i; PUSHED (TYPE_LIST ys) a }
           | (TYPE_INT i, TYPE_STR s) \<Rightarrow>
               if i < 1 then Some (PUSH_ERROR E_RANGE a)
               else let (bfrom, bafter) = utf_byte_range s (i, wrap_num (i + 1))
                    in (case v of
                          TYPE_STR c \<Rightarrow>
                            if unum bfrom > int (length s) then Some (PUSH_ERROR E_RANGE a)
                            else if length c \<noteq> clearance_utf (first_byte c) then Some (PUSH_ERROR E_INVARG a)
                            else do { t \<leftarrow> strrangeset s bfrom bafter c; PUSHED (TYPE_STR t) a }
                        | _ \<Rightarrow> Some (PUSH_ERROR E_TYPE a))
           | _ \<Rightarrow> Some (PUSH_ERROR E_TYPE a)) }"

definition op_ref :: "activation \<Rightarrow> effect option" where
  "op_ref a =
     do { (index, a) \<leftarrow> POP a;
          (list, a) \<leftarrow> POP a;
          (case (index, list) of
             (TYPE_INT i, TYPE_LIST xs) \<Rightarrow>
               if i < 1 \<or> i > int (length xs) then Some (PUSH_ERROR E_RANGE a) else PUSHED (xs ! nat (i - 1)) a
           | (TYPE_INT i, TYPE_STR s) \<Rightarrow>
               if i < 1 then Some (PUSH_ERROR E_RANGE a)
               else let b = utf_byte_index s i
                    in if unum b > int (length s) then Some (PUSH_ERROR E_RANGE a)
                       else do { c \<leftarrow> nth_opt s (nat (b - 1));
                                 t \<leftarrow> substr s b (b + int (clearance_utf c));
                                 PUSHED (TYPE_STR t) a }
           | _ \<Rightarrow> Some (PUSH_ERROR E_TYPE a)) }"

definition op_push_ref :: "activation \<Rightarrow> effect option" where
  "op_push_ref a =
     do { index \<leftarrow> TOP_RT_VALUE a;
          list \<leftarrow> NEXT_TOP_RT_VALUE a;
          (case (index, list) of
             (TYPE_INT i, TYPE_LIST xs) \<Rightarrow>
               if i \<le> 0 \<or> i > int (length xs) then Some (PUSH_ERROR E_RANGE a) else PUSHED (xs ! nat (i - 1)) a
           | _ \<Rightarrow> Some (PUSH_ERROR E_TYPE a)) }"

definition rangeref_fails :: "int \<Rightarrow> int \<Rightarrow> int \<Rightarrow> bool" where
  "rangeref_fails len from after \<longleftrightarrow> \<not> (from \<ge> after \<or> 1 \<le> from \<and> after \<le> len + 1)"

definition op_range_ref :: "activation \<Rightarrow> effect option" where
  "op_range_ref a =
     do { (to, a) \<leftarrow> POP a;
          (from, a) \<leftarrow> POP a;
          (base, a) \<leftarrow> POP a;
          (case (from, to, base) of
             (TYPE_INT m, TYPE_INT n, TYPE_LIST xs) \<Rightarrow>
               if rangeref_fails (int (length xs)) m (wrap_num (n + 1)) then Some (PUSH_ERROR E_RANGE a)
               else do { ys \<leftarrow> sublist xs m (wrap_num (n + 1)); PUSHED (TYPE_LIST ys) a }
           | (TYPE_INT m, TYPE_INT n, TYPE_STR s) \<Rightarrow>
               let (bfrom, bafter) = utf_byte_range s (m, wrap_num (n + 1))
               in if rangeref_fails (int (length s)) bfrom bafter then Some (PUSH_ERROR E_RANGE a)
                  else do { t \<leftarrow> substr s bfrom bafter; PUSHED (TYPE_STR t) a }
           | _ \<Rightarrow> Some (PUSH_ERROR E_TYPE a)) }"

definition rangeset_error :: "int \<Rightarrow> int \<Rightarrow> int \<Rightarrow> int \<Rightarrow> int \<Rightarrow> error" where
  "rangeset_error max_size blen ilen from after =
     (if \<not> (1 \<le> after \<and> (from \<le> 0 \<or> from \<le> blen + 1)) then E_RANGE
      else if max_size < (if from > 1 then from - 1 else 0) + ilen + (if blen \<ge> after then blen - after + 1 else 0)
      then E_QUOTA else E_NONE)"

definition eop_rangeset :: "int \<Rightarrow> int \<Rightarrow> activation \<Rightarrow> effect option" where
  "eop_rangeset max_list max_string a =
     do { (v, a) \<leftarrow> POP a;
          (to, a) \<leftarrow> POP a;
          (from, a) \<leftarrow> POP a;
          (base, a) \<leftarrow> POP a;
          (case (from, to, base, v) of
             (TYPE_INT m, TYPE_INT n, TYPE_LIST xs, TYPE_LIST ys) \<Rightarrow>
               let e = rangeset_error max_list (int (length xs)) (int (length ys)) m (wrap_num (n + 1))
               in if e = E_NONE then do { zs \<leftarrow> listrangeset xs m (wrap_num (n + 1)) ys; PUSHED (TYPE_LIST zs) a }
                  else Some (PUSH_ERROR_UNLESS_QUOTA e a)
           | (TYPE_INT m, TYPE_INT n, TYPE_STR s, TYPE_STR t) \<Rightarrow>
               let (bfrom, bafter) = utf_byte_range s (m, wrap_num (n + 1));
                   e = rangeset_error max_string (int (length s)) (int (length t)) bfrom bafter
               in if e = E_NONE then do { u \<leftarrow> strrangeset s bfrom bafter t; PUSHED (TYPE_STR u) a }
                  else Some (PUSH_ERROR_UNLESS_QUOTA e a)
           | _ \<Rightarrow> Some (PUSH_ERROR_UNLESS_QUOTA E_TYPE a)) }"

definition eop_length :: "bytecodes \<Rightarrow> activation \<Rightarrow> effect option" where
  "eop_length bc a =
     do { (i, a) \<leftarrow> READ_BYTES bc (bc_numbytes_stack bc) a;
          item \<leftarrow> nth_opt (rev (a_rt_stack a)) i;
          (case item of
             TYPE_STR s \<Rightarrow> PUSHED (TYPE_INT (wrap_num (int (memo_strlen_utf s)))) a
           | TYPE_LIST xs \<Rightarrow> PUSHED (TYPE_INT (wrap_num (int (length xs)))) a
           | _ \<Rightarrow> Some (PUSH_ERROR E_TYPE a)) }"

section \<open>Operators\<close>

definition truth :: "bool \<Rightarrow> var" where "truth b = TYPE_INT (if b then 1 else 0)"

definition op_equality :: "bool \<Rightarrow> activation \<Rightarrow> effect option" where
  "op_equality negate a =
     do { (rhs, a) \<leftarrow> POP a;
          (lhs, a) \<leftarrow> POP a;
          eq \<leftarrow> equality rhs lhs False;
          PUSHED (truth (eq \<noteq> negate)) a }"

definition int_or_float :: "var \<Rightarrow> bool" where
  "int_or_float v \<longleftrightarrow> (case v of TYPE_INT _ \<Rightarrow> True | TYPE_FLOAT _ \<Rightarrow> True | _ \<Rightarrow> False)"

definition comparison :: "bool \<Rightarrow> var \<Rightarrow> var \<Rightarrow> var option" where
  "comparison negate a b =
     (if int_or_float a \<and> int_or_float b then Some (numeric_lt_or_eq negate a b)
      else if var_type a \<noteq> var_type b \<or> is_list b then Some (TYPE_ERR E_TYPE)
      else case (a, b) of
             (TYPE_OBJ m, TYPE_OBJ n) \<Rightarrow> Some (truth ((m \<le> n) \<noteq> negate))
           | (TYPE_ERR d, TYPE_ERR e) \<Rightarrow> Some (truth ((err_num d \<le> err_num e) \<noteq> negate))
           | (TYPE_STR s, TYPE_STR t) \<Rightarrow> Some (truth ((mystrcasecmp s t \<le> 0) \<noteq> negate))
           | _ \<Rightarrow> None)"

text \<open>For \<^verbatim>\<open>OP_LT\<close> and \<^verbatim>\<open>OP_GE\<close> the operands are popped the other way round.\<close>

definition op_compare :: "bool \<Rightarrow> bool \<Rightarrow> activation \<Rightarrow> effect option" where
  "op_compare swapped negate a =
     do { (y, a) \<leftarrow> POP a;
          (x, a) \<leftarrow> POP a;
          ans \<leftarrow> (if swapped then comparison negate y x else comparison negate x y);
          push_result ans a }"

definition op_in :: "activation \<Rightarrow> effect option" where
  "op_in a =
     do { (rhs, a) \<leftarrow> POP a;
          (lhs, a) \<leftarrow> POP a;
          (case rhs of
             TYPE_LIST xs \<Rightarrow> do { i \<leftarrow> ismember lhs xs False; PUSHED (TYPE_INT (wrap_num i)) a }
           | _ \<Rightarrow> Some (PUSH_ERROR E_TYPE a)) }"

definition op_arith :: "(var \<Rightarrow> var \<Rightarrow> var option) \<Rightarrow> activation \<Rightarrow> effect option" where
  "op_arith f a =
     do { (rhs, a) \<leftarrow> POP a;
          (lhs, a) \<leftarrow> POP a;
          ans \<leftarrow> (if int_or_float lhs \<and> int_or_float rhs then f lhs rhs else Some (TYPE_ERR E_TYPE));
          push_result ans a }"

definition op_add :: "int \<Rightarrow> activation \<Rightarrow> effect option" where
  "op_add max_string a =
     do { (rhs, a) \<leftarrow> POP a;
          (lhs, a) \<leftarrow> POP a;
          let ans = (if int_or_float lhs \<and> int_or_float rhs then do_add lhs rhs
                     else case (lhs, rhs) of
                       (TYPE_STR s, TYPE_STR t) \<Rightarrow>
                         if max_string < int (length s) + int (length t) then TYPE_ERR E_QUOTA else TYPE_STR (s @ t)
                     | _ \<Rightarrow> TYPE_ERR E_TYPE);
          (case ans of TYPE_ERR e \<Rightarrow> Some (PUSH_ERROR_UNLESS_QUOTA e a) | _ \<Rightarrow> PUSHED ans a) }"

definition op_and_or :: "bytecodes \<Rightarrow> bool \<Rightarrow> activation \<Rightarrow> effect option" where
  "op_and_or bc stop_at a =
     do { (lab, a) \<leftarrow> READ_BYTES bc (bc_numbytes_label bc) a;
          lhs \<leftarrow> TOP_RT_VALUE a;
          if is_true lhs = stop_at then Some (Next (JUMP lab a))
          else do { (_, a) \<leftarrow> POP a; Some (Next a) } }"

definition op_not :: "activation \<Rightarrow> effect option" where
  "op_not a = do { (v, a) \<leftarrow> POP a; PUSHED (truth (\<not> is_true v)) a }"

definition op_unary_minus :: "activation \<Rightarrow> effect option" where
  "op_unary_minus a =
     do { (v, a) \<leftarrow> POP a;
          (case v of
             TYPE_INT n \<Rightarrow> PUSHED (TYPE_INT (wrap_num (- n))) a
           | TYPE_FLOAT d \<Rightarrow> PUSHED (TYPE_FLOAT (fl_negate d)) a
           | _ \<Rightarrow> Some (PUSH_ERROR E_TYPE a)) }"

definition eop_exp :: "(flnum \<Rightarrow> flnum \<Rightarrow> flnum \<times> bool) \<Rightarrow> activation \<Rightarrow> effect option" where
  "eop_exp pow a =
     do { (rhs, a) \<leftarrow> POP a;
          (lhs, a) \<leftarrow> POP a;
          push_result (do_power pow lhs rhs) a }"

definition eop_bitwise :: "(int \<Rightarrow> int \<Rightarrow> int) \<Rightarrow> activation \<Rightarrow> effect option" where
  "eop_bitwise f a =
     do { (rhs, a) \<leftarrow> POP a;
          (lhs, a) \<leftarrow> POP a;
          push_result (case (lhs, rhs) of (TYPE_INT m, TYPE_INT n) \<Rightarrow> TYPE_INT (f m n) | _ \<Rightarrow> TYPE_ERR E_TYPE) a }"

text \<open>
  The shift macros.  \<^verbatim>\<open>HIGHONES(0)\<close> shifts a 64-bit word by 64, which is undefined.
\<close>

definition HIGHONES :: "num \<Rightarrow> num option" where
  "HIGHONES c = (if c = 0 then None else Some (wrap_num (push_bit (nat (64 - c)) (2 ^ 64 - 1))))"

definition LOGSHIFTR :: "num \<Rightarrow> num \<Rightarrow> num option" where
  "LOGSHIFTR x c = do { h \<leftarrow> HIGHONES c; Some (wrap_num (drop_bit (nat c) (unum x)) AND NOT h) }"

definition SHIFTR :: "num \<Rightarrow> num \<Rightarrow> num option" where
  "SHIFTR x c = do { l \<leftarrow> LOGSHIFTR x c; h \<leftarrow> (if x < 0 then HIGHONES c else Some 0); Some (l XOR h) }"

definition SHIFTL :: "num \<Rightarrow> num \<Rightarrow> num option" where
  "SHIFTL x c = Some (wrap_num (push_bit (nat c) x))"

definition eop_shift :: "(num \<Rightarrow> num \<Rightarrow> num option) \<Rightarrow> activation \<Rightarrow> effect option" where
  "eop_shift f a =
     do { (rhs, a) \<leftarrow> POP a;
          (lhs, a) \<leftarrow> POP a;
          ans \<leftarrow> (case (lhs, rhs) of
                    (TYPE_INT m, TYPE_INT n) \<Rightarrow>
                      if n < 0 \<or> unum n \<ge> 64 then Some (TYPE_ERR E_INVARG) else map_option TYPE_INT (f m n)
                  | _ \<Rightarrow> Some (TYPE_ERR E_TYPE));
          push_result ans a }"

definition eop_complement :: "activation \<Rightarrow> effect option" where
  "eop_complement a =
     do { (v, a) \<leftarrow> POP a;
          (case v of TYPE_INT n \<Rightarrow> PUSHED (TYPE_INT (NOT n)) a | _ \<Rightarrow> Some (PUSH_ERROR E_TYPE a)) }"

section \<open>Properties\<close>

text \<open>\<open>protects\<close> are the server options that protect built-in properties.\<close>

definition bi_prop_protected :: "(bi_prop \<Rightarrow> bool) \<Rightarrow> db \<Rightarrow> bi_prop \<Rightarrow> objid \<Rightarrow> bool" where
  "bi_prop_protected protects db prop progr \<longleftrightarrow> \<not> is_wizard db progr \<and> protects prop"

definition get_prop :: "(bi_prop \<Rightarrow> bool) \<Rightarrow> db \<Rightarrow> var \<Rightarrow> var \<Rightarrow> activation \<Rightarrow> effect option" where
  "get_prop protects db obj propname a =
     (case (propname, obj) of
        (TYPE_STR pname, TYPE_OBJ x) \<Rightarrow>
          if \<not> valid db x then Some (PUSH_ERROR E_INVIND a)
          else do { (h, v) \<leftarrow> db_find_property True db x pname;
                    (case h of
                       No_prop \<Rightarrow> Some (PUSH_ERROR E_PROPNF a)
                     | Builtin bi _ \<Rightarrow>
                         if bi_prop_protected protects db bi (a_progr a) then Some (PUSH_ERROR E_PERM a)
                         else do { v \<leftarrow> v; PUSHED v a }
                     | Prop_slot _ _ _ \<Rightarrow>
                         do { allowed \<leftarrow> db_property_allows db h (a_progr a) PF_READ;
                              if \<not> allowed then Some (PUSH_ERROR E_PERM a) else do { v \<leftarrow> v; PUSHED v a } }) }
      | _ \<Rightarrow> Some (PUSH_ERROR E_TYPE a))"

definition op_get_prop :: "(bi_prop \<Rightarrow> bool) \<Rightarrow> db \<Rightarrow> activation \<Rightarrow> effect option" where
  "op_get_prop protects db a =
     do { (propname, a) \<leftarrow> POP a; (obj, a) \<leftarrow> POP a; get_prop protects db obj propname a }"

definition op_push_get_prop :: "(bi_prop \<Rightarrow> bool) \<Rightarrow> db \<Rightarrow> activation \<Rightarrow> effect option" where
  "op_push_get_prop protects db a =
     do { propname \<leftarrow> TOP_RT_VALUE a; obj \<leftarrow> NEXT_TOP_RT_VALUE a; get_prop protects db obj propname a }"

definition put_prop_error :: "(bi_prop \<Rightarrow> bool) \<Rightarrow> db \<Rightarrow> objid \<Rightarrow> db_prop_handle \<Rightarrow> objid \<Rightarrow> var \<Rightarrow> error option" where
  "put_prop_error protects db progr h x rhs =
     (case h of
        No_prop \<Rightarrow> Some E_PROPNF
      | Prop_slot _ _ _ \<Rightarrow>
          do { allowed \<leftarrow> db_property_allows db h progr PF_WRITE; Some (if allowed then E_NONE else E_PERM) }
      | Builtin bi _ \<Rightarrow>
          do { ow \<leftarrow> db_object_owner db x;
               Some
                 (if bi = BP_NAME then
                    (case rhs of
                       TYPE_STR _ \<Rightarrow>
                         if \<not> is_wizard db progr \<and> (is_user db x \<or> bi_prop_protected protects db bi progr \<or> progr \<noteq> ow)
                         then E_PERM else E_NONE
                     | _ \<Rightarrow> E_TYPE)
                  else if bi = BP_OWNER then
                    (case rhs of TYPE_OBJ _ \<Rightarrow> if \<not> is_wizard db progr then E_PERM else E_NONE | _ \<Rightarrow> E_TYPE)
                  else if bi = BP_PROGRAMMER \<or> bi = BP_WIZARD then (if \<not> is_wizard db progr then E_PERM else E_NONE)
                  else if bi = BP_R \<or> bi = BP_W \<or> bi = BP_F then
                    (if \<not> is_wizard db progr \<and> (bi_prop_protected protects db bi progr \<or> progr \<noteq> ow) then E_PERM else E_NONE)
                  else E_PERM) })"

definition op_put_prop :: "(bi_prop \<Rightarrow> bool) \<Rightarrow> db \<Rightarrow> activation \<Rightarrow> effect option" where
  "op_put_prop protects db a =
     do { (rhs, a) \<leftarrow> POP a;
          (propname, a) \<leftarrow> POP a;
          (obj, a) \<leftarrow> POP a;
          (case (obj, propname) of
             (TYPE_OBJ x, TYPE_STR pname) \<Rightarrow>
               if \<not> valid db x then Some (PUSH_ERROR E_INVIND a)
               else do { (h, _) \<leftarrow> db_find_property False db x pname;
                         err \<leftarrow> put_prop_error protects db (a_progr a) h x rhs;
                         if err = E_NONE
                         then do { db' \<leftarrow> db_set_property_value db h rhs; a \<leftarrow> PUSH rhs a; Some (Store db' a) }
                         else Some (PUSH_ERROR err a) }
           | _ \<Rightarrow> Some (PUSH_ERROR E_TYPE a)) }"

section \<open>Forks, calls and returns\<close>

definition op_fork :: "bytecodes \<Rightarrow> bool \<Rightarrow> activation \<Rightarrow> effect option" where
  "op_fork bc with_id a =
     do { (time, a) \<leftarrow> POP a;
          (f_index, a) \<leftarrow> READ_BYTES bc (bc_numbytes_fork bc) a;
          (ident, a) \<leftarrow> (if with_id then map_option (\<lambda>(i, a). (Some i, a)) (READ_BYTES bc (bc_numbytes_var_name bc) a)
                         else Some (None, a));
          (case time of
             TYPE_INT n \<Rightarrow> if n < 0 then Some (RAISE_ERROR E_INVARG a a) else Some (Fork_task f_index n ident a)
           | _ \<Rightarrow> Some (RAISE_ERROR E_TYPE a a)) }"

definition op_call_verb :: "db \<Rightarrow> activation \<Rightarrow> effect option" where
  "op_call_verb db a =
     do { (args, a) \<leftarrow> POP a;
          (verb, a) \<leftarrow> POP a;
          (obj, a) \<leftarrow> POP a;
          (case (args, verb, obj) of
             (TYPE_LIST xs, TYPE_STR vname, TYPE_OBJ x) \<Rightarrow>
               if \<not> valid db x then Some (PUSH_ERROR E_INVIND a) else Some (Call_verb x vname xs a)
           | _ \<Rightarrow> Some (PUSH_ERROR E_TYPE a)) }"

definition op_return :: "activation \<Rightarrow> effect option" where
  "op_return a = do { (v, a) \<leftarrow> POP a; Some (Return v a) }"

definition op_bi_func_call :: "bytecodes \<Rightarrow> activation \<Rightarrow> effect option" where
  "op_bi_func_call bc a =
     do { (func_id, a) \<leftarrow> READ_BYTES bc 1 a;
          (args, a) \<leftarrow> POP a;
          Some (if is_list args then Call_bi func_id args a else PUSH_ERROR E_TYPE a) }"

section \<open>Scattering assignment\<close>

text \<open>
  The loop over the variables \<open>i\<close> to \<open>nargs\<close>; \<open>offset\<close>, \<open>nopt_avail\<close> and \<open>where\<close> are as in the code.  The result is
  the activation and the label of the first default that has to be computed, 0 if there is none.
\<close>

function scatter_loop ::
  "bytecodes \<Rightarrow> var list \<Rightarrow> int \<Rightarrow> int \<Rightarrow> int \<Rightarrow> int \<Rightarrow> int \<Rightarrow> int \<Rightarrow> nat \<Rightarrow> activation \<Rightarrow> (activation \<times> nat) option" where
  "scatter_loop bc xs nargs rest nrest i offset nopt_avail wh a =
     (if i > nargs then Some (a, wh)
      else do {
        (ident, a) \<leftarrow> READ_BYTES bc (bc_numbytes_var_name bc) a;
        (label, a) \<leftarrow> READ_BYTES bc (bc_numbytes_label bc) a;
        if i = rest then
          do { ys \<leftarrow> sublist xs i (i + nrest - 1);
               a \<leftarrow> set_env ident (TYPE_LIST ys) a;
               scatter_loop bc xs nargs rest nrest (i + 1) (offset + (nrest - 1)) nopt_avail wh a }
        else if label = 0 then
          do { assert_that (1 \<le> i + offset);
               v \<leftarrow> nth_opt xs (nat (i + offset - 1));
               a \<leftarrow> set_env ident v a;
               scatter_loop bc xs nargs rest nrest (i + 1) offset nopt_avail wh a }
        else if nopt_avail > 0 then
          do { assert_that (1 \<le> i + offset);
               v \<leftarrow> nth_opt xs (nat (i + offset - 1));
               a \<leftarrow> set_env ident v a;
               scatter_loop bc xs nargs rest nrest (i + 1) offset (nopt_avail - 1) wh a }
        else scatter_loop bc xs nargs rest nrest (i + 1) (offset - 1) nopt_avail
               (if wh = 0 \<and> label \<noteq> 1 then label else wh) a })"
  by pat_completeness auto
termination by (relation "measure (\<lambda>(_, _, nargs, _, _, i, _). nat (nargs + 1 - i))") auto

declare scatter_loop.simps [simp del]

definition jump_done :: "bytecodes \<Rightarrow> nat \<Rightarrow> activation \<Rightarrow> activation option" where
  "jump_done bc wh a =
     do { (done, a) \<leftarrow> READ_BYTES bc (bc_numbytes_label bc) a; Some (JUMP (if wh = 0 then done else wh) a) }"

definition scatter_error :: "var \<Rightarrow> int \<Rightarrow> int \<Rightarrow> bool \<Rightarrow> error" where
  "scatter_error v nargs nreq have_rest =
     (case v of
        TYPE_LIST xs \<Rightarrow> if int (length xs) < nreq \<or> \<not> have_rest \<and> int (length xs) > nargs then E_ARGS else E_NONE
      | _ \<Rightarrow> E_TYPE)"

definition eop_scatter :: "bytecodes \<Rightarrow> activation \<Rightarrow> effect option" where
  "eop_scatter bc a =
     do { (nargs, a) \<leftarrow> READ_BYTES bc 1 a;
          (nreq, a) \<leftarrow> READ_BYTES bc 1 a;
          (rest, a) \<leftarrow> READ_BYTES bc 1 a;
          v \<leftarrow> TOP_RT_VALUE a;
          let have_rest = (rest \<le> nargs);
          let e = scatter_error v (int nargs) (int nreq) have_rest;
          if e \<noteq> E_NONE then
            do { (_, a) \<leftarrow> POP a;
                 Some (Error e a (do { b \<leftarrow> PUSH (TYPE_ERR e) a;
                   jump_done bc 0 (SKIP_BYTES (nargs * (bc_numbytes_var_name bc + bc_numbytes_label bc)) b) })) }
          else case v of
            TYPE_LIST xs \<Rightarrow>
              do { let len = int (length xs);
                   let nrest = (if have_rest \<and> len \<ge> int nargs then len - int nargs + 1 else 0);
                   (a, wh) \<leftarrow> scatter_loop bc xs (int nargs) (int rest) nrest 1 0 (len - int nreq) 0 a;
                   a \<leftarrow> jump_done bc wh a;
                   Some (Next a) }
          | _ \<Rightarrow> None }"

section \<open>Handlers and exits\<close>

definition eop_push_label :: "bytecodes \<Rightarrow> (num \<Rightarrow> var) \<Rightarrow> activation \<Rightarrow> effect option" where
  "eop_push_label bc mk a = do { (lab, a) \<leftarrow> READ_BYTES bc (bc_numbytes_label bc) a; PUSHED (mk (int lab)) a }"

definition eop_try_except :: "bytecodes \<Rightarrow> bool \<Rightarrow> activation \<Rightarrow> effect option" where
  "eop_try_except bc one a =
     do { (n, a) \<leftarrow> (if one then Some (1, a) else READ_BYTES bc 1 a); PUSHED (TYPE_CATCH (int n)) a }"

definition drop_handlers :: "activation \<Rightarrow> activation option" where
  "drop_handlers a =
     do { (marker, a) \<leftarrow> POP a;
          (case marker of
             TYPE_CATCH n \<Rightarrow>
               if 2 * nat n \<le> length (a_rt_stack a) then Some (a\<lparr>a_rt_stack := drop (2 * nat n) (a_rt_stack a)\<rparr>) else None
           | _ \<Rightarrow> None) }"

definition eop_end_catch :: "bytecodes \<Rightarrow> activation \<Rightarrow> effect option" where
  "eop_end_catch bc a =
     do { (v, a) \<leftarrow> POP a;
          a \<leftarrow> drop_handlers a;
          a \<leftarrow> PUSH v a;
          op_jump bc a }"

definition eop_end_except :: "bytecodes \<Rightarrow> activation \<Rightarrow> effect option" where
  "eop_end_except bc a = do { a \<leftarrow> drop_handlers a; op_jump bc a }"

fun fin_num :: "finally_reason \<Rightarrow> num" where
  "fin_num FIN_FALL_THRU = 0" | "fin_num FIN_RAISE = 1" | "fin_num FIN_UNCAUGHT = 2"
| "fin_num FIN_RETURN = 3" | "fin_num FIN_ABORT = 4" | "fin_num FIN_EXIT = 5"

definition eop_end_finally :: "activation \<Rightarrow> effect option" where
  "eop_end_finally a =
     do { (v, a) \<leftarrow> POP a;
          (case v of
             TYPE_FINALLY _ \<Rightarrow> do { a \<leftarrow> PUSH (TYPE_INT (fin_num FIN_FALL_THRU)) a; PUSHED zero_var a }
           | _ \<Rightarrow> None) }"

definition eop_continue :: "activation \<Rightarrow> effect option" where
  "eop_continue a =
     do { (v, a) \<leftarrow> POP a;
          (why, a) \<leftarrow> POP a;
          (case why of
             TYPE_INT n \<Rightarrow>
               if n = fin_num FIN_FALL_THRU then Some (Next a)
               else if n = fin_num FIN_EXIT then Some (Unwind FIN_EXIT v a)
               else if n = fin_num FIN_RAISE then Some (Unwind FIN_RAISE v a)
               else if n = fin_num FIN_RETURN then Some (Unwind FIN_RETURN v a)
               else if n = fin_num FIN_UNCAUGHT then Some (Unwind FIN_UNCAUGHT v a)
               else None
           | _ \<Rightarrow> None) }"

definition eop_while_id :: "bytecodes \<Rightarrow> activation \<Rightarrow> effect option" where
  "eop_while_id bc a = do { a \<leftarrow> put_top bc a; do_test bc a }"

definition eop_exit :: "bytecodes \<Rightarrow> activation \<Rightarrow> effect option" where
  "eop_exit bc a =
     do { (depth, a) \<leftarrow> READ_BYTES bc (bc_numbytes_stack bc) a;
          (lab, a) \<leftarrow> READ_BYTES bc (bc_numbytes_label bc) a;
          Some (Unwind FIN_EXIT (TYPE_LIST [TYPE_INT (int depth), TYPE_INT (int lab)]) a) }"

section \<open>One instruction\<close>

text \<open>The server options that the instructions read, and the library function \<^verbatim>\<open>pow\<close>.\<close>

record options =
  opt_max_list_concat :: int
  opt_max_string_concat :: int
  opt_catchable :: bool
  opt_protects :: "bi_prop \<Rightarrow> bool"
  opt_pow :: "flnum \<Rightarrow> flnum \<Rightarrow> flnum \<times> bool"

definition exec_extended :: "options \<Rightarrow> bytecodes \<Rightarrow> extended_opcode \<Rightarrow> activation \<Rightarrow> effect option" where
  "exec_extended opts bc eop a =
     (case eop of
        EOP_RANGESET \<Rightarrow> eop_rangeset (opt_max_list_concat opts) (opt_max_string_concat opts) a
      | EOP_LENGTH \<Rightarrow> eop_length bc a
      | EOP_PUSH_LABEL \<Rightarrow> eop_push_label bc TYPE_INT a
      | EOP_TRY_FINALLY \<Rightarrow> eop_push_label bc TYPE_FINALLY a
      | EOP_CATCH \<Rightarrow> eop_try_except bc True a
      | EOP_TRY_EXCEPT \<Rightarrow> eop_try_except bc False a
      | EOP_END_CATCH \<Rightarrow> eop_end_catch bc a
      | EOP_END_EXCEPT \<Rightarrow> eop_end_except bc a
      | EOP_END_FINALLY \<Rightarrow> eop_end_finally a
      | EOP_CONTINUE \<Rightarrow> eop_continue a
      | EOP_WHILE_ID \<Rightarrow> eop_while_id bc a
      | EOP_EXIT_ID \<Rightarrow> eop_exit bc (SKIP_BYTES (bc_numbytes_var_name bc) a)
      | EOP_EXIT \<Rightarrow> eop_exit bc a
      | EOP_SCATTER \<Rightarrow> eop_scatter bc a
      | EOP_EXP \<Rightarrow> eop_exp (opt_pow opts) a
      | EOP_BITAND \<Rightarrow> eop_bitwise (AND) a
      | EOP_BITXOR \<Rightarrow> eop_bitwise (XOR) a
      | EOP_BITOR \<Rightarrow> eop_bitwise (OR) a
      | EOP_SHL \<Rightarrow> eop_shift SHIFTL a
      | EOP_SHR \<Rightarrow> eop_shift SHIFTR a
      | EOP_LSHR \<Rightarrow> eop_shift LOGSHIFTR a
      | EOP_COMPLEMENT \<Rightarrow> eop_complement a)"

definition exec :: "options \<Rightarrow> db \<Rightarrow> bytecodes \<Rightarrow> opcode \<Rightarrow> activation \<Rightarrow> effect option" where
  "exec opts db bc op a =
     (case op of
        OP_IF_QUES \<Rightarrow> do_test bc a | OP_IF \<Rightarrow> do_test bc a | OP_WHILE \<Rightarrow> do_test bc a | OP_EIF \<Rightarrow> do_test bc a
      | OP_JUMP \<Rightarrow> op_jump bc a
      | OP_FOR_LIST \<Rightarrow> op_for_list bc a
      | OP_FOR_RANGE \<Rightarrow> op_for_range bc a
      | OP_POP \<Rightarrow> op_pop a
      | OP_IMM \<Rightarrow> op_imm bc a
      | OP_MAKE_EMPTY_LIST \<Rightarrow> PUSHED (TYPE_LIST []) a
      | OP_LIST_ADD_TAIL \<Rightarrow> op_list_add_tail (opt_max_list_concat opts) a
      | OP_LIST_APPEND \<Rightarrow> op_list_append (opt_max_list_concat opts) a
      | OP_INDEXSET \<Rightarrow> op_indexset a
      | OP_MAKE_SINGLETON_LIST \<Rightarrow> op_make_singleton_list a
      | OP_CHECK_LIST_FOR_SPLICE \<Rightarrow> op_check_list_for_splice a
      | OP_PUT_TEMP \<Rightarrow> op_put_temp a
      | OP_PUSH_TEMP \<Rightarrow> op_push_temp a
      | OP_EQ \<Rightarrow> op_equality False a | OP_NE \<Rightarrow> op_equality True a
      | OP_LE \<Rightarrow> op_compare False False a | OP_GT \<Rightarrow> op_compare False True a
      | OP_LT \<Rightarrow> op_compare True True a | OP_GE \<Rightarrow> op_compare True False a
      | OP_IN \<Rightarrow> op_in a
      | OP_MULT \<Rightarrow> op_arith (\<lambda>x y. Some (do_multiply x y)) a
      | OP_MINUS \<Rightarrow> op_arith (\<lambda>x y. Some (do_subtract x y)) a
      | OP_DIV \<Rightarrow> op_arith do_divide a
      | OP_MOD \<Rightarrow> op_arith do_modulus a
      | OP_ADD \<Rightarrow> op_add (opt_max_string_concat opts) a
      | OP_AND \<Rightarrow> op_and_or bc False a | OP_OR \<Rightarrow> op_and_or bc True a
      | OP_NOT \<Rightarrow> op_not a
      | OP_UNARY_MINUS \<Rightarrow> op_unary_minus a
      | OP_REF \<Rightarrow> op_ref a
      | OP_PUSH_REF \<Rightarrow> op_push_ref a
      | OP_RANGE_REF \<Rightarrow> op_range_ref a
      | OP_G_PUT \<Rightarrow> map_option Next (put_top bc a)
      | OP_G_PUSH \<Rightarrow> op_g_push bc a
      | OP_GET_PROP \<Rightarrow> op_get_prop (opt_protects opts) db a
      | OP_PUSH_GET_PROP \<Rightarrow> op_push_get_prop (opt_protects opts) db a
      | OP_PUT_PROP \<Rightarrow> op_put_prop (opt_protects opts) db a
      | OP_FORK \<Rightarrow> op_fork bc False a | OP_FORK_WITH_ID \<Rightarrow> op_fork bc True a
      | OP_CALL_VERB \<Rightarrow> op_call_verb db a
      | OP_RETURN \<Rightarrow> op_return a
      | OP_RETURN0 \<Rightarrow> Some (Return zero_var a) | OP_DONE \<Rightarrow> Some (Return zero_var a)
      | OP_BI_FUNC_CALL \<Rightarrow> op_bi_func_call bc a
      | OP_EXTENDED \<Rightarrow>
          do { b \<leftarrow> fetch bc (a_pc a);
               eop \<leftarrow> nth_opt extended_opcodes (unat b);
               exec_extended opts bc eop (SKIP_BYTES 1 a) }
      | OP_PUSH i \<Rightarrow> push_var i a
      | OP_PUT i \<Rightarrow> op_put bc i a
      | OPTIM_NUM n \<Rightarrow> PUSHED (TYPE_INT n) a)"

end
