(* ===== verification/VmUnwind.thy ===== *)
theory VmUnwind
  imports VmInstr NumberLaws
begin

text \<open>
  Raising errors and unwinding the stacks (\<^verbatim>\<open>unwind_stack\<close>, \<^verbatim>\<open>find_handler_activ\<close>, \<^verbatim>\<open>raise_error\<close>,
  \<^verbatim>\<open>abort_task\<close> and the lists they make, in \<^verbatim>\<open>execute.c\<close>) and the call of a built-in
  function (\<^verbatim>\<open>call_bi_func\<close> of \<^verbatim>\<open>functions.c\<close>).  The table of built-in functions, the task
  queues and the translation of positions in the byte code to line numbers are parameters.
\<close>

section \<open>The state of the interpreter\<close>

datatype outcome = OUTCOME_DONE | OUTCOME_ABORTED | OUTCOME_BLOCKED

text \<open>\<open>in_handler\<close> is the verb and the arguments that \<^verbatim>\<open>save_handler_info\<close> keeps.\<close>

record 'w interp =
  in_moo :: moo
  in_root_vector :: int
  in_ticks :: int
  in_handler :: "(string \<times> var) option"
  in_tasks :: 'w
  in_notified :: "(objid \<times> string) list"

record 'w bft_entry =
  bf_name :: string
  bf_minargs :: int
  bf_maxargs :: int
  bf_prototype :: "int list"
  bf_protected :: bool
  bf_func :: "'w interp \<Rightarrow> var \<Rightarrow> nat \<Rightarrow> bi_data \<Rightarrow> objid \<Rightarrow> ('w interp \<times> package) option"

text \<open>
  What surrounds the interpreter: \<open>sv_suspend\<close> and \<open>sv_fork\<close> enter a task into the queues, of type \<open>'w\<close>;
  \<open>sv_blank\<close> is what fresh memory holds; the limits are server options.
\<close>

record 'w services =
  sv_options :: options
  sv_null_program :: program
  sv_aliased :: "objid \<Rightarrow> nat \<Rightarrow> bool"
  sv_bf_table :: "'w bft_entry list"
  sv_line_number :: "program \<Rightarrow> int \<Rightarrow> nat \<Rightarrow> num"
  sv_suspend :: "suspender \<Rightarrow> bi_data \<Rightarrow> vmstruct \<Rightarrow> int \<Rightarrow> db \<Rightarrow> 'w \<Rightarrow> ('w \<times> error) option"
  sv_max_stack_depth :: nat
  sv_fg_ticks :: int
  sv_bg_ticks :: int
  sv_blank :: activation
  sv_fork :: "activation \<Rightarrow> nat \<Rightarrow> num \<Rightarrow> nat option \<Rightarrow> db \<Rightarrow> 'w \<Rightarrow> ('w \<times> num option) option"

definition MAIN_VECTOR :: int where "MAIN_VECTOR = -1"

abbreviation in_vm :: "'w interp \<Rightarrow> vmstruct" where "in_vm s \<equiv> moo_vm (in_moo s)"

definition set_vm :: "vmstruct \<Rightarrow> 'w interp \<Rightarrow> 'w interp" where
  "set_vm vm s = s\<lparr>in_moo := (in_moo s)\<lparr>moo_vm := vm\<rparr>\<rparr>"

definition set_run :: "activation \<Rightarrow> 'w interp \<Rightarrow> 'w interp" where
  "set_run a s = set_vm ((in_vm s)\<lparr>activ_stack := (activ_stack (in_vm s))[top_activ_stack (in_vm s) := a]\<rparr>) s"

section \<open>Built-in functions\<close>


definition TYPE_ANY :: int where "TYPE_ANY = -1"

definition TYPE_NUMERIC :: int where "TYPE_NUMERIC = -2"

definition type_fits :: "int \<Rightarrow> var \<Rightarrow> bool" where
  "type_fits proto v \<longleftrightarrow> proto = TYPE_ANY \<or> proto = TYPE_NUMERIC \<and> int_or_float v \<or> proto = var_type v"

text \<open>The checks before the first entry: \<open>None\<close> if the function may be called.\<close>

definition bad_arguments :: "'w bft_entry \<Rightarrow> var list \<Rightarrow> error option" where
  "bad_arguments f args =
     (let n = int (length args);
          m = (if bf_maxargs f = -1 then bf_minargs f else n)
      in if n < bf_minargs f \<or> bf_maxargs f \<noteq> -1 \<and> n > bf_maxargs f then Some E_ARGS
         else if \<not> list_all (\<lambda>(p, v). type_fits p v) (zip (take (nat m) (bf_prototype f)) args) then Some E_TYPE
         else None)"

definition call_bi_func ::
  "'w services \<Rightarrow> 'w interp \<Rightarrow> nat \<Rightarrow> var \<Rightarrow> nat \<Rightarrow> objid \<Rightarrow> bi_data \<Rightarrow> ('w interp \<times> package) option" where
  "call_bi_func sv s n arglist func_pc progr vdata =
     (if n \<ge> length (sv_bf_table sv) then Some (s, no_var_pack)
      else let f = sv_bf_table sv ! n
           in if func_pc = 1 then
                (case arglist of
                   TYPE_LIST args \<Rightarrow>
                     do { run \<leftarrow> RUN_ACTIV (in_vm s);
                          (m, e) \<leftarrow> (if a_this run \<noteq> SYSTEM_OBJECT \<and> bf_protected f
                                     then map_option (\<lambda>(m, e). (m, Some e))
                                       (call_verb2 (sv_aliased sv) (sv_null_program sv) (in_moo s) SYSTEM_OBJECT (''bf_'' @ bf_name f) args False)
                                     else Some (in_moo s, None));
                          let s = s\<lparr>in_moo := m\<rparr>;
                          if e = Some E_NONE then Some (s, tail_call_pack)
                          else if e \<noteq> None \<and> (e = Some E_MAXREC \<or> \<not> is_wizard (moo_db m) progr)
                          then Some (s, make_error_pack (if e = Some E_MAXREC then E_MAXREC else E_PERM))
                          else case bad_arguments f args of
                            Some e \<Rightarrow> Some (s, make_error_pack e)
                          | None \<Rightarrow> bf_func f s arglist func_pc vdata progr }
                 | _ \<Rightarrow> None)
              else bf_func f s arglist func_pc vdata progr)"

definition name_func_by_num :: "'w services \<Rightarrow> nat \<Rightarrow> string" where
  "name_func_by_num sv n = (if n < length (sv_bf_table sv) then bf_name (sv_bf_table sv ! n) else ''no such function'')"

section \<open>Lists of the stack\<close>

definition line_of :: "'w services \<Rightarrow> activation \<Rightarrow> nat \<Rightarrow> int \<Rightarrow> num" where
  "line_of sv a i root = sv_line_number sv (a_prog a) (if i = 0 then root else MAIN_VECTOR) (a_error_pc a)"

text \<open>The entries for the activation number \<open>i\<close>, the innermost first.\<close>

definition stack_entries :: "'w services \<Rightarrow> activation list \<Rightarrow> nat \<Rightarrow> nat \<Rightarrow> bool \<Rightarrow> int \<Rightarrow> bool \<Rightarrow> nat \<Rightarrow> var list" where
  "stack_entries sv stack start end' include_end root lines i =
     (let a = stack ! i
      in (if include_end \<or> i \<noteq> end'
          then [TYPE_LIST ([TYPE_OBJ (a_this a), TYPE_STR (a_verb a), TYPE_OBJ (a_progr a), TYPE_OBJ (a_vloc a), TYPE_OBJ (a_player a)]
                  @ (if lines then [TYPE_INT (line_of sv a i root)] else []))] else [])
       @ (if i \<noteq> start \<and> a_bi_func_pc a \<noteq> 0
          then [TYPE_LIST ([TYPE_OBJ NOTHING, TYPE_STR (name_func_by_num sv (a_bi_func_id a)), TYPE_OBJ NOTHING, TYPE_OBJ NOTHING,
                  TYPE_OBJ (a_player a)] @ (if lines then [TYPE_INT (int (a_bi_func_pc a))] else []))] else []))"

definition make_stack_list :: "'w services \<Rightarrow> activation list \<Rightarrow> nat \<Rightarrow> nat \<Rightarrow> bool \<Rightarrow> int \<Rightarrow> bool \<Rightarrow> var" where
  "make_stack_list sv stack start end' include_end root lines =
     TYPE_LIST (concat (map (stack_entries sv stack start end' include_end root lines) (rev [start..<Suc end'])))"

definition frame_line :: "'w services \<Rightarrow> activation \<Rightarrow> nat \<Rightarrow> int \<Rightarrow> string" where
  "frame_line sv a i root =
     ''#'' @ num_string (a_vloc a) @ '':'' @ a_verbname a
     @ (if a_vloc a \<noteq> a_this a then '' (this == #'' @ num_string (a_this a) @ '')'' else [])
     @ '', line '' @ num_string (line_of sv a i root)"

text \<open>The lines for the activations from number \<open>i\<close> down.\<close>

fun backtrace_lines :: "'w services \<Rightarrow> activation list \<Rightarrow> nat \<Rightarrow> int \<Rightarrow> nat \<Rightarrow> string \<Rightarrow> string \<Rightarrow> string list" where
  "backtrace_lines sv stack hot root 0 intro_text msg =
     [intro_text @ frame_line sv (stack ! 0) 0 root @ (if hot = 0 then '':  '' @ msg else [])]"
| "backtrace_lines sv stack hot root (Suc i) intro_text msg =
     [intro_text @ frame_line sv (stack ! Suc i) (Suc i) root @ (if Suc i = hot then '':  '' @ msg else [])]
     @ (if a_bi_func_pc (stack ! Suc i) \<noteq> 0
        then [''... called from built-in function '' @ name_func_by_num sv (a_bi_func_id (stack ! Suc i)) @ ''()''] else [])
     @ backtrace_lines sv stack hot root i ''... called from '' msg"

definition error_backtrace_list :: "'w services \<Rightarrow> 'w interp \<Rightarrow> string \<Rightarrow> var" where
  "error_backtrace_list sv s msg =
     TYPE_LIST (map TYPE_STR
       (backtrace_lines sv (activ_stack (in_vm s)) (top_activ_stack (in_vm s)) (in_root_vector s) (top_activ_stack (in_vm s)) [] msg
        @ [''(End of traceback)'']))"

section \<open>Handlers\<close>

text \<open>
  The handlers of a \<^verbatim>\<open>TYPE_CATCH\<close> marker as they lie in memory, pairs of the codes and the position; the position of the
  first one that takes the code.  Anything but a list of codes takes every code.
\<close>

fun first_handler :: "var \<Rightarrow> var list \<Rightarrow> num option option" where
  "first_handler code [] = Some None"
| "first_handler code [_] = None"
| "first_handler code (codes # pos # hs) =
     do { takes \<leftarrow> (case codes of TYPE_LIST cs \<Rightarrow> map_option (\<lambda>i. i \<noteq> 0) (ismember code cs False) | _ \<Rightarrow> Some True);
          if takes then (case pos of TYPE_INT n \<Rightarrow> Some (Some n) | _ \<Rightarrow> None)
          else first_handler code hs }"

text \<open>\<open>vs\<close> is the rest of the stack below a marker; its handlers in the order of memory.\<close>

definition handlers_below :: "num \<Rightarrow> var list \<Rightarrow> var list option" where
  "handlers_below n vs = (if 2 * nat n \<le> length vs then Some (rev (take (2 * nat n) vs)) else None)"

text \<open>
  The inner loop of \<^verbatim>\<open>unwind_stack\<close>: pops the stack down to the height \<open>goal\<close>; whether a handler was found.
\<close>

function unwind_rt :: "finally_reason \<Rightarrow> var \<Rightarrow> var \<Rightarrow> nat \<Rightarrow> activation \<Rightarrow> (activation \<times> bool) option" where
  "unwind_rt why val code goal a =
     (if length (a_rt_stack a) \<le> goal then Some (a, False)
      else do {
        (v, a1) \<leftarrow> POP a;
        (case v of
           TYPE_FINALLY n \<Rightarrow>
             if why \<noteq> FIN_ABORT then
               do { a2 \<leftarrow> PUSH (TYPE_INT (fin_num why)) (a1\<lparr>a_pc := nat n\<rparr>);
                    a3 \<leftarrow> PUSH val a2;
                    Some (a3, True) }
             else unwind_rt why val code goal a1
         | TYPE_CATCH n \<Rightarrow>
             if why = FIN_RAISE then
               do { hs \<leftarrow> handlers_below n (a_rt_stack a1);
                    h \<leftarrow> first_handler code hs;
                    let a2 = a1\<lparr>a_rt_stack := drop (2 * nat n) (a_rt_stack a1)\<rparr>;
                    (case h of
                       Some pc \<Rightarrow> do { a3 \<leftarrow> PUSH val (a2\<lparr>a_pc := nat pc\<rparr>); Some (a3, True) }
                     | None \<Rightarrow> unwind_rt why val code goal a2) }
             else unwind_rt why val code goal a1
         | _ \<Rightarrow> unwind_rt why val code goal a1) })"
  by pat_completeness auto
termination
  by (relation "measure (\<lambda>(_, _, _, _, a). length (a_rt_stack a))")
    (auto simp: POP_def split: list.splits)

declare unwind_rt.simps [simp del]

text \<open>The scan of one activation by \<^verbatim>\<open>find_handler_activ\<close>.\<close>

function frame_handles :: "var \<Rightarrow> var list \<Rightarrow> bool option" where
  "frame_handles code [] = Some False"
| "frame_handles code (v # vs) =
     (case v of
        TYPE_CATCH n \<Rightarrow>
          do { hs \<leftarrow> handlers_below n vs;
               h \<leftarrow> first_handler code hs;
               if h \<noteq> None then Some True else frame_handles code (drop (2 * nat n) vs) }
      | _ \<Rightarrow> frame_handles code vs)"
  by pat_completeness auto
termination by (relation "measure (\<lambda>(_, vs). length vs)") auto

text \<open>The number of the hottest activation with a handler, among the first \<open>n\<close>; \<open>None\<close> inside is -1.\<close>

fun find_handler_from :: "var \<Rightarrow> activation list \<Rightarrow> nat \<Rightarrow> nat option option" where
  "find_handler_from code stack 0 = Some None"
| "find_handler_from code stack (Suc i) =
     do { a \<leftarrow> nth_opt stack i;
          h \<leftarrow> frame_handles code (a_rt_stack a);
          if h then Some (Some i) else find_handler_from code stack i }"

definition find_handler_activ :: "vmstruct \<Rightarrow> var \<Rightarrow> nat option option" where
  "find_handler_activ vm code = find_handler_from code (activ_stack vm) (Suc (top_activ_stack vm))"

section \<open>Unwinding\<close>

text \<open>
  A built-in function that waited for a verb when the stack is unwound by an error or an abort: it is resumed with zero, whatever it
  calls returns at once, and what it returns or raises is dropped.  It gets the permissions found in \<open>place\<close>, the place of the
  activation that has just been left, which a call made by the function overwrites.
\<close>

definition pop_activ :: "'w interp \<Rightarrow> 'w interp" where
  "pop_activ s = set_vm ((in_vm s)\<lparr>top_activ_stack := top_activ_stack (in_vm s) - 1\<rparr>) s"

partial_function (option) squelch ::
  "'w services \<Rightarrow> nat \<Rightarrow> nat \<Rightarrow> nat \<Rightarrow> bi_data \<Rightarrow> 'w interp \<Rightarrow> 'w interp option" where
  "squelch sv place func_id func_pc data s =
     do { a \<leftarrow> nth_opt (activ_stack (in_vm s)) place;
          (s, p) \<leftarrow> call_bi_func sv s func_id zero_var func_pc (a_progr a) data;
          (case p of
             BI_CALL pc data \<Rightarrow> if pc \<noteq> 0 then squelch sv place func_id pc data (pop_activ s) else Some (pop_activ s)
           | _ \<Rightarrow> Some s) }"

text \<open>How far one activation is unwound: an exit keeps the given height of the stack.\<close>

definition unwind_goal :: "finally_reason \<Rightarrow> var \<Rightarrow> nat option" where
  "unwind_goal why val =
     (if why = FIN_EXIT
      then (case val of TYPE_LIST [TYPE_INT depth, _] \<Rightarrow> Some (nat depth) | _ \<Rightarrow> None)
      else Some 0)"

definition raised_code :: "finally_reason \<Rightarrow> var \<Rightarrow> var option" where
  "raised_code why val =
     (if why = FIN_RAISE then (case val of TYPE_LIST (c # _) \<Rightarrow> Some c | _ \<Rightarrow> None) else Some zero_var)"

definition exit_label :: "var \<Rightarrow> nat option" where
  "exit_label val = (case val of TYPE_LIST [_, TYPE_INT lab] \<Rightarrow> Some (nat lab) | _ \<Rightarrow> None)"

text \<open>
  \<^verbatim>\<open>unwind_stack\<close> for every reason but a return.  The built-in function is resumed with the permissions of the
  activation that has just been left.  The second result is \<^verbatim>\<open>*outcome\<close> if the interpreter has to stop.
\<close>

partial_function (option) unwind_stack ::
  "'w services \<Rightarrow> finally_reason \<Rightarrow> var \<Rightarrow> 'w interp \<Rightarrow> ('w interp \<times> outcome option) option" where
  "unwind_stack sv why val s =
     do { code \<leftarrow> raised_code why val;
          goal \<leftarrow> unwind_goal why val;
          a \<leftarrow> RUN_ACTIV (in_vm s);
          (a, found) \<leftarrow> unwind_rt why val code goal a;
          if found then Some (set_run a s, None)
          else if why = FIN_EXIT then do { lab \<leftarrow> exit_label val; Some (set_run (a\<lparr>a_pc := lab\<rparr>) s, None) }
          else if top_activ_stack (in_vm s) = 0 then Some (s, Some OUTCOME_ABORTED)
          else if a_bi_func_pc a = 0 then unwind_stack sv why val (pop_activ s)
          else do { s \<leftarrow> squelch sv (top_activ_stack (in_vm s)) (a_bi_func_id a) (a_bi_func_pc a) (a_bi_func_data a) (pop_activ s);
                    unwind_stack sv why val s } }"

definition save_handler_info :: "string \<Rightarrow> var \<Rightarrow> 'w interp \<Rightarrow> 'w interp" where
  "save_handler_info vname args s = s\<lparr>in_handler := Some (vname, args)\<rparr>"

definition whole_stack_list :: "'w services \<Rightarrow> 'w interp \<Rightarrow> nat \<Rightarrow> var" where
  "whole_stack_list sv s from =
     make_stack_list sv (activ_stack (in_vm s)) from (top_activ_stack (in_vm s)) True (in_root_vector s) True"

definition raise_error :: "'w services \<Rightarrow> var \<Rightarrow> string \<Rightarrow> var \<Rightarrow> 'w interp \<Rightarrow> ('w interp \<times> outcome option) option" where
  "raise_error sv code msg val s =
     do { handler \<leftarrow> find_handler_activ (in_vm s) code;
          (case handler of
             Some h \<Rightarrow> unwind_stack sv FIN_RAISE (TYPE_LIST [code, TYPE_STR msg, val, whole_stack_list sv s h]) s
           | None \<Rightarrow>
               unwind_stack sv FIN_UNCAUGHT zero_var
                 (save_handler_info ''handle_uncaught_error''
                    (TYPE_LIST [code, TYPE_STR msg, val, whole_stack_list sv s 0, error_backtrace_list sv s msg]) s)) }"

definition abort_task :: "'w services \<Rightarrow> abort_reason \<Rightarrow> 'w interp \<Rightarrow> 'w interp option" where
  "abort_task sv reason s =
     (let save = (\<lambda>htag msg. save_handler_info ''handle_task_timeout''
                    (TYPE_LIST [TYPE_STR htag, whole_stack_list sv s 0, error_backtrace_list sv s msg]) s);
          s1 = (case reason of
                  ABORT_TICKS \<Rightarrow> save ''ticks'' ''Task ran out of ticks''
                | ABORT_SECONDS \<Rightarrow> save ''seconds'' ''Task ran out of seconds''
                | ABORT_KILL \<Rightarrow> s)
      in map_option fst (unwind_stack sv FIN_ABORT zero_var s1))"

definition suspend_task :: "'w services \<Rightarrow> suspender \<Rightarrow> bi_data \<Rightarrow> 'w interp \<Rightarrow> ('w interp \<times> error) option" where
  "suspend_task sv proc data s =
     do { let vm = in_vm s;
          let the_vm = vm\<lparr>activ_stack := take (Suc (top_activ_stack vm)) (activ_stack vm)\<rparr>;
          (w, e) \<leftarrow> sv_suspend sv proc data the_vm (in_root_vector s) (moo_db (in_moo s)) (in_tasks s);
          Some (s\<lparr>in_tasks := w\<rparr>, e) }"

text \<open>
  \<^verbatim>\<open>unwind_stack\<close> for a return: the value goes to the calling activation, through a built-in function if
  one called the verb.  If the suspension of that function fails the code reads the error as a list: undefined.
\<close>

definition unwind_return :: "'w services \<Rightarrow> var \<Rightarrow> 'w interp \<Rightarrow> ('w interp \<times> outcome option) option" where
  "unwind_return sv val s =
     do { a \<leftarrow> RUN_ACTIV (in_vm s);
          (a, found) \<leftarrow> unwind_rt FIN_RETURN val zero_var 0 a;
          if found then Some (set_run a s, None)
          else if top_activ_stack (in_vm s) = 0 then Some (s, Some OUTCOME_DONE)
          else let s = pop_activ s in do {
            b \<leftarrow> RUN_ACTIV (in_vm s);
            if a_bi_func_pc a = 0 then do { b \<leftarrow> PUSH val b; Some (set_run b s, None) }
            else do {
              (s, p) \<leftarrow> call_bi_func sv s (a_bi_func_id a) val (a_bi_func_pc a) (a_progr b) (a_bi_func_data a);
              b \<leftarrow> RUN_ACTIV (in_vm s);
              (case p of
                 BI_RETURN v \<Rightarrow> do { b \<leftarrow> PUSH v b; Some (set_run b s, None) }
               | BI_RAISE code msg v \<Rightarrow>
                   if a_debug b then raise_error sv code msg v s
                   else do { b \<leftarrow> PUSH code b; Some (set_run b s, None) }
               | BI_SUSPEND proc data \<Rightarrow>
                   do { (s, e) \<leftarrow> suspend_task sv proc data s;
                        if e = E_NONE then Some (s, Some OUTCOME_BLOCKED) else None }
               | BI_CALL pc data \<Rightarrow>
                   Some (set_run (b\<lparr>a_bi_func_id := a_bi_func_id a, a_bi_func_pc := pc, a_bi_func_data := data\<rparr>) s, None)
               | BI_ABORT why \<Rightarrow> do { s \<leftarrow> abort_task sv why s; Some (s, Some OUTCOME_ABORTED) }) } } }"

end
