(* ===== verification/VmValues.thy ===== *)
theory VmValues
  imports VmUnwind
begin

text \<open>
  The values the virtual machine computes with: integers and object numbers of 64 bits, strings without a zero byte, real
  floating-point numbers, and never the mark of a clear property.  Every instruction keeps them so.
\<close>

section \<open>Values\<close>

definition in_num :: "int \<Rightarrow> bool" where "in_num n \<longleftrightarrow> NUM_MIN \<le> n \<and> n \<le> NUM_MAX"

fun good_value :: "var \<Rightarrow> bool" where
  "good_value (TYPE_INT n) = in_num n"
| "good_value (TYPE_OBJ n) = in_num n"
| "good_value (TYPE_STR s) = nul_free s"
| "good_value (TYPE_ERR e) = True"
| "good_value (TYPE_LIST xs) = list_all good_value xs"
| "good_value TYPE_CLEAR = False"
| "good_value TYPE_NONE = True"
| "good_value (TYPE_CATCH n) = in_num n"
| "good_value (TYPE_FINALLY n) = in_num n"
| "good_value (TYPE_FLOAT d) = IS_REAL d"

named_theorems good \<open>results of primitives are good values\<close>

lemma in_num_wrap [good, simp]: "in_num (wrap_num n)" using wrap_num_range [of n] by (simp add: in_num_def)

lemma in_num_small: "\<bar>n\<bar> < 2 ^ 63 \<Longrightarrow> in_num n" unfolding in_num_def NUM_MIN_def NUM_MAX_def by linarith

lemma in_num_consts [simp]: "in_num 0" "in_num 1" "in_num (-1)" by (simp_all add: in_num_def NUM_MIN_def NUM_MAX_def)

lemma good_zero [good, simp]: "good_value zero_var" by (simp add: zero_var_def)

lemma good_truth [good, simp]: "good_value (truth b)" by (simp add: truth_def)

subsection \<open>Bits\<close>

lemma in_num_bits: "in_num n \<longleftrightarrow> (\<forall>k. bit n k = bit n (min 63 k))"
proof -
  have "in_num n \<longleftrightarrow> signed_take_bit 63 n = n"
    unfolding signed_take_bit_int_eq_self_iff by (auto simp: in_num_def NUM_MIN_def NUM_MAX_def)
  then show ?thesis by (auto simp: bit_eq_iff bit_signed_take_bit_iff min.commute)
qed

lemma in_num_bitwise [good]:
  "in_num m \<Longrightarrow> in_num n \<Longrightarrow> in_num (m AND n)" "in_num m \<Longrightarrow> in_num n \<Longrightarrow> in_num (m OR n)"
  "in_num m \<Longrightarrow> in_num n \<Longrightarrow> in_num (m XOR n)"
  unfolding in_num_bits by (auto simp: bit_and_iff bit_or_iff bit_xor_iff)

lemma in_num_NOT [good]: "in_num m \<Longrightarrow> in_num (NOT m)"
  unfolding in_num_def NUM_MIN_def NUM_MAX_def not_int_def by linarith

lemma HIGHONES_good [good]: "HIGHONES c = Some h \<Longrightarrow> in_num h"
  by (auto simp: HIGHONES_def split: if_splits)

lemma LOGSHIFTR_good [good]: "LOGSHIFTR x c = Some r \<Longrightarrow> in_num r"
  by (auto simp: LOGSHIFTR_def bind_eq_Some_conv intro!: in_num_bitwise(1) in_num_NOT dest: HIGHONES_good)

lemma shift_good [good]: "SHIFTR x c = Some r \<Longrightarrow> in_num r" "SHIFTL x c = Some r \<Longrightarrow> in_num r"
  by (auto simp: SHIFTR_def SHIFTL_def bind_eq_Some_conv intro!: in_num_bitwise(3) dest: LOGSHIFTR_good HIGHONES_good split: if_splits)

subsection \<open>Numbers\<close>

lemma negate_real [good]: "IS_REAL d \<Longrightarrow> IS_REAL (fl_negate d)"
  by (simp add: IS_REAL_bits fl_negate_def fl_inf_bits_def)

lemma real_or_error_good [good, simp]: "good_value (real_or_error d)" by (simp add: real_or_error_def)

lemma arithmetic_good [good, simp]:
  "good_value (do_add x y)" "good_value (do_subtract x y)" "good_value (do_multiply x y)"
  by (auto simp: do_add_def do_subtract_def do_multiply_def simple_binary_def split: var.splits)

lemma c_remainder_bound: "b \<noteq> 0 \<Longrightarrow> \<bar>c_remainder a b\<bar> < \<bar>b\<bar>"
  using c_quotient_remainder [of b a] by simp

lemma quotient_good:
  assumes "in_num a" "b \<noteq> 0" "\<not> (a = NUM_MIN \<and> b = -1)"
  shows "in_num (c_quotient a b)"
proof (cases "\<bar>b\<bar> = 1")
  case True
  with assms show ?thesis by (auto simp: in_num_def NUM_MIN_def NUM_MAX_def c_quotient_def abs_if sgn_if split: if_splits)
next
  case False
  then have "2 \<le> \<bar>b\<bar>" using assms(2) by linarith
  then have "\<bar>a\<bar> div \<bar>b\<bar> \<le> \<bar>a\<bar> div 2" by (intro zdiv_mono2) auto
  moreover have "\<bar>a\<bar> \<le> 2 ^ 63" using assms(1) by (auto simp: in_num_def NUM_MIN_def NUM_MAX_def)
  then have "\<bar>a\<bar> div 2 \<le> 2 ^ 63 div 2" by (rule zdiv_mono1) simp
  then have "\<bar>a\<bar> div 2 < 2 ^ 63" by simp
  ultimately have "\<bar>a\<bar> div \<bar>b\<bar> < 2 ^ 63" by linarith
  moreover have "\<bar>c_quotient a b\<bar> \<le> \<bar>\<bar>a\<bar> div \<bar>b\<bar>\<bar>" by (auto simp: c_quotient_def abs_mult sgn_if)
  moreover have "0 \<le> \<bar>a\<bar> div \<bar>b\<bar>" using \<open>2 \<le> \<bar>b\<bar>\<close> by (simp add: pos_imp_zdiv_nonneg_iff)
  ultimately show ?thesis by (intro in_num_small) linarith
qed

lemma division_good [good]:
  "do_divide x y = Some r \<Longrightarrow> good_value x \<Longrightarrow> good_value r"
  "do_modulus x y = Some r \<Longrightarrow> good_value y \<Longrightarrow> good_value r"
proof -
  show "do_divide x y = Some r \<Longrightarrow> good_value x \<Longrightarrow> good_value r"
    by (auto simp: do_divide_def division_op_def intro: quotient_good split: var.splits if_splits)
  have "in_num (c_remainder a b)" if "b \<noteq> 0" "in_num b" for a b
  proof (rule in_num_small)
    have "\<bar>b\<bar> \<le> 2 ^ 63" using that(2) by (auto simp: in_num_def NUM_MIN_def NUM_MAX_def)
    with c_remainder_bound [OF that(1), of a] show "\<bar>c_remainder a b\<bar> < 2 ^ 63" by linarith
  qed
  then show "do_modulus x y = Some r \<Longrightarrow> good_value y \<Longrightarrow> good_value r"
    by (auto simp: do_modulus_def division_op_def split: var.splits if_splits)
qed

lemma power_good [good, simp]: "good_value (do_power pow x y)"
proof -
  have "in_num (power_loop a b 1)" if "0 \<le> b" for a b
  proof -
    have "wrap_num 1 = 1" by (rule wrap_num_id) (simp add: NUM_MIN_def NUM_MAX_def)
    then have "power_loop a b 1 = wrap_num (a ^ nat b)" using power_loop_ok [of b a 1] that by simp
    then show ?thesis by simp
  qed
  then show ?thesis by (auto simp: do_power_def Let_def split: var.splits prod.splits)
qed

lemma comparison_good [good]: "comparison neg x y = Some r \<Longrightarrow> good_value r"
  by (auto simp: comparison_def numeric_lt_or_eq_def split: var.splits if_splits)

subsection \<open>Lists and strings\<close>

lemma list_all_take_drop [good, intro]: "list_all P xs \<Longrightarrow> list_all P (take n xs)" "list_all P xs \<Longrightarrow> list_all P (drop n xs)"
  by (auto simp: list_all_iff dest: in_set_takeD in_set_dropD)

lemma list_all_update [intro]: "list_all P xs \<Longrightarrow> P x \<Longrightarrow> list_all P (xs[i := x])"
  by (auto simp: list_all_iff dest: set_update_subset_insert [THEN subsetD])

lemma nth_good: "list_all P xs \<Longrightarrow> nth_opt xs i = Some x \<Longrightarrow> P x"
  by (auto simp: nth_opt_def list_all_length split: if_splits)

lemma nul_free_all: "nul_free s \<longleftrightarrow> list_all (\<lambda>c. c \<noteq> CHR 0x00) s"
  by (induction s) auto

lemma rangeset_all: "rangeset xs i j ys = Some zs \<Longrightarrow> list_all P xs \<Longrightarrow> list_all P ys \<Longrightarrow> list_all P zs"
  by (auto simp: rangeset_def Let_def split: if_splits)

lemma subrange_all: "subrange xs i j = Some zs \<Longrightarrow> list_all P xs \<Longrightarrow> list_all P zs"
  by (auto simp: subrange_def split: if_splits)

lemma lists_good [good]:
  "listset xs v i = Some ys \<Longrightarrow> list_all P xs \<Longrightarrow> P v \<Longrightarrow> list_all P ys"
  "listappend xs v = Some ys \<Longrightarrow> list_all P xs \<Longrightarrow> P v \<Longrightarrow> list_all P ys"
  "listrangeset xs i j zs = Some ys \<Longrightarrow> list_all P xs \<Longrightarrow> list_all P zs \<Longrightarrow> list_all P ys"
  "sublist xs i j = Some ys \<Longrightarrow> list_all P xs \<Longrightarrow> list_all P ys"
  by (auto simp: listset_def listappend_def doinsert_def listrangeset_def sublist_def intro: rangeset_all subrange_all split: if_splits)

lemma strings_good [good]:
  "strrangeset s i j t = Some u \<Longrightarrow> nul_free s \<Longrightarrow> nul_free t \<Longrightarrow> nul_free u"
  "substr s i j = Some u \<Longrightarrow> nul_free s \<Longrightarrow> nul_free u"
  unfolding nul_free_all by (auto simp: strrangeset_def substr_def intro: rangeset_all subrange_all)

section \<open>Activations\<close>

definition act_ok :: "activation \<Rightarrow> bool" where
  "act_ok a \<longleftrightarrow> list_all good_value (a_rt_stack a) \<and> list_all good_value (a_rt_env a) \<and> good_value (a_temp a)
     \<and> list_all good_value (prog_literals (a_prog a)) \<and> SLOT_IOBJSTR < length (a_rt_env a)
     \<and> in_num (a_this a) \<and> in_num (a_progr a) \<and> in_num (a_vloc a) \<and> in_num (a_player a)
     \<and> nul_free (a_verb a) \<and> nul_free (a_verbname a)"

definition values_ok :: "db \<Rightarrow> bool" where
  "values_ok db \<longleftrightarrow>
     (\<forall>x ob. dbpriv_find_object db x = Some ob \<longrightarrow>
        nul_free (o_name ob) \<and> in_num (o_owner ob) \<and> in_num (o_location ob) \<and> in_num (o_contents ob) \<and> in_num (o_next ob)
        \<and> list_all (\<lambda>pv. pv_var pv = TYPE_CLEAR \<or> good_value (pv_var pv)) (o_propval ob))"

fun effect_ok :: "effect \<Rightarrow> bool" where
  "effect_ok (Next a) = act_ok a"
| "effect_ok (Error e a b) = (act_ok a \<and> pred_option act_ok b)"
| "effect_ok (Quota_error e a b) = (act_ok a \<and> pred_option act_ok b)"
| "effect_ok (Store db a) = (act_ok a \<and> values_ok db \<and> moo_ok db)"
| "effect_ok (Fork_task f n ident a) = (in_num n \<and> act_ok a)"
| "effect_ok (Call_verb x vname args a) = (in_num x \<and> nul_free vname \<and> list_all good_value args \<and> act_ok a)"
| "effect_ok (Call_bi n args a) = (good_value args \<and> act_ok a)"
| "effect_ok (Return v a) = (good_value v \<and> act_ok a)"
| "effect_ok (Unwind why v a) = (good_value v \<and> act_ok a)"

text \<open>What the steps on the run-time stack do to a good activation.\<close>

lemma POP_ok: "POP a = Some (v, b) \<Longrightarrow> act_ok a \<Longrightarrow> good_value v \<and> act_ok b"
  by (auto simp: POP_def act_ok_def split: list.splits)

lemma PUSH_ok: "PUSH v a = Some b \<Longrightarrow> act_ok a \<Longrightarrow> good_value v \<Longrightarrow> act_ok b"
  by (auto simp: PUSH_def act_ok_def split: if_splits)

lemma top_ok:
  "TOP_RT_VALUE a = Some v \<Longrightarrow> act_ok a \<Longrightarrow> good_value v" "NEXT_TOP_RT_VALUE a = Some v \<Longrightarrow> act_ok a \<Longrightarrow> good_value v"
  by (auto simp: TOP_RT_VALUE_def NEXT_TOP_RT_VALUE_def act_ok_def intro: nth_good)

lemma READ_BYTES_ok:
  assumes r: "READ_BYTES bc n a = Some (k, b)" and a: "act_ok a"
  shows "act_ok b \<and> in_num (int k)"
proof -
  have u: "unat x \<le> 255" for x :: "8 word" using unsigned_less [of x, where 'a = nat] by simp
  have "unat w * 2 ^ 24 + unat x * 2 ^ 16 + unat y * 2 ^ 8 + unat z < 2 ^ 32" for w x y z :: "8 word"
    using u [of w] u [of x] u [of y] u [of z] by simp
  moreover have "unat y * 2 ^ 8 + unat z < 2 ^ 32" "unat z < 2 ^ 32" for y z :: "8 word"
    using u [of y] u [of z] by simp_all
  ultimately have "k < 2 ^ 32"
    using r unfolding READ_BYTES_def Let_def by (auto simp: bind_eq_Some_conv split: if_splits)
  moreover have "act_ok b" using r a by (auto simp: READ_BYTES_def Let_def bind_eq_Some_conv act_ok_def split: if_splits)
  ultimately show ?thesis by (auto intro: in_num_small)
qed

lemma SKIP_JUMP_ok [simp]: "act_ok (SKIP_BYTES n a) = act_ok a" "act_ok (JUMP l a) = act_ok a"
  "act_ok (a\<lparr>a_pc := n\<rparr>) = act_ok a" "act_ok (a\<lparr>a_error_pc := n\<rparr>) = act_ok a"
  by (simp_all add: SKIP_BYTES_def JUMP_def act_ok_def)

lemma set_env_ok: "set_env i v a = Some b \<Longrightarrow> act_ok a \<Longrightarrow> good_value v \<Longrightarrow> act_ok b"
  by (auto simp: set_env_def act_ok_def split: if_splits)

lemma PUSH_ERROR_ok [simp]:
  "act_ok a \<Longrightarrow> effect_ok (PUSH_ERROR e a)" "act_ok a \<Longrightarrow> effect_ok (PUSH_ERROR_UNLESS_QUOTA e a)"
  "act_ok a \<Longrightarrow> act_ok b \<Longrightarrow> effect_ok (RAISE_ERROR e a b)"
  by (auto simp: PUSH_ERROR_def PUSH_ERROR_UNLESS_QUOTA_def RAISE_ERROR_def option.pred_set dest: PUSH_ok)

lemma PUSHED_ok: "PUSHED v a = Some eff \<Longrightarrow> act_ok a \<Longrightarrow> good_value v \<Longrightarrow> effect_ok eff"
  by (auto simp: PUSHED_def dest: PUSH_ok)

lemma push_result_ok: "push_result v a = Some eff \<Longrightarrow> act_ok a \<Longrightarrow> good_value v \<Longrightarrow> effect_ok eff"
  by (auto simp: push_result_def intro: PUSHED_ok split: var.splits)

text \<open>
  Rules that take a sequence of such steps apart, in the order of the program: whatever it ends with satisfies \<open>P\<close>.
\<close>

named_theorems vc \<open>rules for sequences of steps\<close>

lemma vc_stack [vc]:
  "act_ok a \<Longrightarrow> (\<And>v b. good_value v \<Longrightarrow> act_ok b \<Longrightarrow> pred_option P (f v b)) \<Longrightarrow> pred_option P (POP a \<bind> (\<lambda>(v, b). f v b))"
  "act_ok a \<Longrightarrow> (\<And>k b. in_num (int k) \<Longrightarrow> act_ok b \<Longrightarrow> pred_option P (g k b)) \<Longrightarrow> pred_option P (READ_BYTES bc n a \<bind> (\<lambda>(k, b). g k b))"
  "act_ok a \<Longrightarrow> (\<And>v. good_value v \<Longrightarrow> pred_option P (h v)) \<Longrightarrow> pred_option P (TOP_RT_VALUE a \<bind> h)"
  "act_ok a \<Longrightarrow> (\<And>v. good_value v \<Longrightarrow> pred_option P (h v)) \<Longrightarrow> pred_option P (NEXT_TOP_RT_VALUE a \<bind> h)"
  "act_ok a \<Longrightarrow> good_value w \<Longrightarrow> (\<And>b. act_ok b \<Longrightarrow> pred_option P (k b)) \<Longrightarrow> pred_option P (PUSH w a \<bind> k)"
  "act_ok a \<Longrightarrow> good_value w \<Longrightarrow> (\<And>b. act_ok b \<Longrightarrow> pred_option P (k b)) \<Longrightarrow> pred_option P (set_env i w a \<bind> k)"
  by (auto simp: option.pred_set bind_eq_Some_conv dest: POP_ok READ_BYTES_ok top_ok PUSH_ok set_env_ok)

lemma vc_bind: "(\<And>x. m = Some x \<Longrightarrow> pred_option P (f x)) \<Longrightarrow> pred_option P (m \<bind> f)"
  by (cases m) simp_all

lemma vc_if [vc]: "(b \<Longrightarrow> pred_option P x) \<Longrightarrow> (\<not> b \<Longrightarrow> pred_option P y) \<Longrightarrow> pred_option P (if b then x else y)"
  by simp

lemma vc_var [vc]:
  "(\<And>n. v = TYPE_INT n \<Longrightarrow> pred_option P (f1 n)) \<Longrightarrow> (\<And>n. v = TYPE_OBJ n \<Longrightarrow> pred_option P (f2 n))
   \<Longrightarrow> (\<And>s. v = TYPE_STR s \<Longrightarrow> pred_option P (f3 s)) \<Longrightarrow> (\<And>e. v = TYPE_ERR e \<Longrightarrow> pred_option P (f4 e))
   \<Longrightarrow> (\<And>xs. v = TYPE_LIST xs \<Longrightarrow> pred_option P (f5 xs)) \<Longrightarrow> (v = TYPE_CLEAR \<Longrightarrow> pred_option P f6) \<Longrightarrow> (v = TYPE_NONE \<Longrightarrow> pred_option P f7)
   \<Longrightarrow> (\<And>n. v = TYPE_CATCH n \<Longrightarrow> pred_option P (f8 n)) \<Longrightarrow> (\<And>n. v = TYPE_FINALLY n \<Longrightarrow> pred_option P (f9 n))
   \<Longrightarrow> (\<And>d. v = TYPE_FLOAT d \<Longrightarrow> pred_option P (f10 d)) \<Longrightarrow> pred_option P (case_var f1 f2 f3 f4 f5 f6 f7 f8 f9 f10 v)"
  by (cases v) simp_all

lemma vc_end [vc]:
  "act_ok a \<Longrightarrow> good_value v \<Longrightarrow> pred_option effect_ok (PUSHED v a)"
  "act_ok a \<Longrightarrow> good_value v \<Longrightarrow> pred_option effect_ok (push_result v a)"
  "effect_ok eff \<Longrightarrow> pred_option effect_ok (Some eff)"
  by (auto simp: option.pred_set intro: PUSHED_ok push_result_ok)

section \<open>Instructions\<close>

named_theorems instr_ok \<open>instructions keep activations good\<close>

lemma op_jump_ok [instr_ok]: "act_ok a \<Longrightarrow> pred_option effect_ok (op_jump bc a)"
  unfolding op_jump_def by (intro vc) simp_all

lemma do_test_ok [instr_ok]: "act_ok a \<Longrightarrow> pred_option effect_ok (do_test bc a)"
  unfolding do_test_def by (intro vc) simp_all

lemma op_pop_ok [instr_ok]: "act_ok a \<Longrightarrow> pred_option effect_ok (op_pop a)"
  unfolding op_pop_def by (intro vc) simp_all

lemma pop_two_ok: "pop_two a = Some b \<Longrightarrow> act_ok a \<Longrightarrow> act_ok b"
  by (auto simp: pop_two_def bind_eq_Some_conv dest!: POP_ok)

lemma list_nth_good: "list_all good_value xs \<Longrightarrow> 1 \<le> n \<Longrightarrow> n \<le> int (length xs) \<Longrightarrow> good_value (xs ! nat (n - 1))"
  by (simp add: list_all_length)

lemma act_ok_stack: "act_ok a \<Longrightarrow> act_ok (a\<lparr>a_rt_stack := vs\<rparr>) = list_all good_value vs"
  by (simp add: act_ok_def)

lemma act_ok_stackD: "act_ok a \<Longrightarrow> list_all good_value (a_rt_stack a)"
  by (simp add: act_ok_def)

lemma op_for_list_ok [instr_ok]: "act_ok a \<Longrightarrow> pred_option effect_ok (op_for_list bc a)"
  unfolding op_for_list_def
  by (intro vc vc_bind) (auto simp: act_ok_stack act_ok_stackD list_nth_good dest: pop_two_ok)

lemma range_step_ok: "act_ok a \<Longrightarrow> act_ok out \<Longrightarrow> in_num m \<Longrightarrow> in_num n \<Longrightarrow> (\<And>k. in_num k \<Longrightarrow> good_value (mk k))
   \<Longrightarrow> pred_option effect_ok (range_step mk ident lab m n a out)"
  unfolding range_step_def
  by (intro vc) (auto simp: act_ok_stack act_ok_stackD in_num_def NUM_MIN_def NUM_MAX_def)

lemma op_for_range_ok [instr_ok]: "act_ok a \<Longrightarrow> pred_option effect_ok (op_for_range bc a)"
  unfolding op_for_range_def prod.case
  by (intro vc vc_bind) (auto simp: act_ok_stack act_ok_stackD intro!: range_step_ok dest: pop_two_ok)

lemma op_imm_ok [instr_ok]: "act_ok a \<Longrightarrow> pred_option effect_ok (op_imm bc a)"
proof -
  have lit: "good_value v" if "nth_opt (prog_literals (a_prog b)) k = Some v" "act_ok b" for v k b
    using that by (auto simp: act_ok_def intro: nth_good)
  show "act_ok a \<Longrightarrow> pred_option effect_ok (op_imm bc a)"
    unfolding op_imm_def by (intro vc vc_bind) (auto dest: lit)
qed

lemma push_var_ok [instr_ok]: "act_ok a \<Longrightarrow> pred_option effect_ok (push_var i a)"
  unfolding push_var_def by (intro vc vc_bind) (auto simp: act_ok_def intro: nth_good)

lemma op_put_ok [instr_ok]: "act_ok a \<Longrightarrow> pred_option effect_ok (op_put bc i a)"
  unfolding op_put_def by (intro vc vc_bind) auto

lemma put_top_ok: "act_ok a \<Longrightarrow> pred_option act_ok (put_top bc a)"
  unfolding put_top_def by (intro vc) (auto simp: option.pred_set intro: set_env_ok)

lemma op_g_push_ok [instr_ok]: "act_ok a \<Longrightarrow> pred_option effect_ok (op_g_push bc a)"
  unfolding op_g_push_def by (intro vc push_var_ok) auto

lemma temp_ok [instr_ok]:
  "act_ok a \<Longrightarrow> pred_option effect_ok (op_put_temp a)" "act_ok a \<Longrightarrow> pred_option effect_ok (op_push_temp a)"
  unfolding op_put_temp_def op_push_temp_def by (intro vc; auto simp: act_ok_def)+

lemma list_instr_ok [instr_ok]:
  "act_ok a \<Longrightarrow> pred_option effect_ok (op_list_add_tail mx a)" "act_ok a \<Longrightarrow> pred_option effect_ok (op_list_append mx a)"
  "act_ok a \<Longrightarrow> pred_option effect_ok (op_make_singleton_list a)" "act_ok a \<Longrightarrow> pred_option effect_ok (op_check_list_for_splice a)"
  unfolding op_list_add_tail_def op_list_append_def op_make_singleton_list_def op_check_list_for_splice_def prod.case
  by (intro vc vc_bind; auto simp: listconcat_def intro: good)+

lemma vc_pair: "(\<And>x y. p = (x, y) \<Longrightarrow> pred_option P (f x y)) \<Longrightarrow> pred_option P (case p of (x, y) \<Rightarrow> f x y)"
  by (cases p) simp

lemma index_ok [instr_ok]:
  "act_ok a \<Longrightarrow> pred_option effect_ok (op_indexset a)" "act_ok a \<Longrightarrow> pred_option effect_ok (op_ref a)"
  "act_ok a \<Longrightarrow> pred_option effect_ok (op_push_ref a)"
  unfolding op_indexset_def op_ref_def op_push_ref_def prod.case Let_def
  by (intro vc vc_bind vc_pair; auto intro: good list_nth_good)+

lemma op_range_ref_ok [instr_ok]: "act_ok a \<Longrightarrow> pred_option effect_ok (op_range_ref a)"
  unfolding op_range_ref_def prod.case Let_def by (intro vc vc_bind vc_pair) (auto intro: good)

lemma eop_rangeset_ok [instr_ok]: "act_ok a \<Longrightarrow> pred_option effect_ok (eop_rangeset ml ms a)"
  unfolding eop_rangeset_def prod.case Let_def by (intro vc vc_bind vc_pair) (auto intro: good)

lemma eop_length_ok [instr_ok]: "act_ok a \<Longrightarrow> pred_option effect_ok (eop_length bc a)"
  unfolding eop_length_def by (intro vc vc_bind) auto

lemma operator_ok [instr_ok]:
  "act_ok a \<Longrightarrow> pred_option effect_ok (op_equality neg a)" "act_ok a \<Longrightarrow> pred_option effect_ok (op_compare sw neg a)"
  "act_ok a \<Longrightarrow> pred_option effect_ok (op_in a)" "act_ok a \<Longrightarrow> pred_option effect_ok (op_not a)"
  "act_ok a \<Longrightarrow> pred_option effect_ok (eop_exp pow a)" "act_ok a \<Longrightarrow> pred_option effect_ok (op_and_or bc st a)"
  unfolding op_equality_def op_compare_def op_in_def op_not_def eop_exp_def op_and_or_def
  by (intro vc vc_bind; auto intro: good split: if_splits)+

lemma op_arith_ok:
  assumes f: "\<And>x y r. f x y = Some r \<Longrightarrow> good_value x \<Longrightarrow> good_value y \<Longrightarrow> good_value r"
  shows "act_ok a \<Longrightarrow> pred_option effect_ok (op_arith f a)"
  unfolding op_arith_def by (intro vc vc_bind) (auto split: if_splits dest: f)

lemma op_add_ok [instr_ok]: "act_ok a \<Longrightarrow> pred_option effect_ok (op_add mx a)"
proof -
  have push: "pred_option effect_ok (case v of TYPE_ERR e \<Rightarrow> Some (PUSH_ERROR_UNLESS_QUOTA e b) | _ \<Rightarrow> PUSHED v b)"
    if "act_ok b" "good_value v" for b v
    using that by (intro vc) auto
  have "good_value (if int_or_float l \<and> int_or_float r then do_add l r
     else case (l, r) of (TYPE_STR s, TYPE_STR t) \<Rightarrow> if mx < int (length s) + int (length t) then TYPE_ERR E_QUOTA else TYPE_STR (s @ t)
          | _ \<Rightarrow> TYPE_ERR E_TYPE)" if "good_value l" "good_value r" for l r
    using that by (cases l; cases r) simp_all
  then show "act_ok a \<Longrightarrow> pred_option effect_ok (op_add mx a)"
    unfolding op_add_def Let_def by (intro vc push)
qed

lemma bit_instr_ok [instr_ok]:
  "act_ok a \<Longrightarrow> pred_option effect_ok (op_unary_minus a)" "act_ok a \<Longrightarrow> pred_option effect_ok (eop_complement a)"
  unfolding op_unary_minus_def eop_complement_def by (intro vc; auto intro: good)+

lemma eop_bitwise_ok:
  assumes f: "\<And>m n. in_num m \<Longrightarrow> in_num n \<Longrightarrow> in_num (f m n)"
  shows "act_ok a \<Longrightarrow> pred_option effect_ok (eop_bitwise f a)"
  unfolding eop_bitwise_def prod.case by (intro vc) (auto split: var.splits intro: f)

lemma eop_shift_ok:
  assumes f: "\<And>m n r. f m n = Some r \<Longrightarrow> in_num r"
  shows "act_ok a \<Longrightarrow> pred_option effect_ok (eop_shift f a)"
  unfolding eop_shift_def prod.case by (intro vc vc_bind) (auto split: var.splits if_splits intro: f)

section \<open>Properties\<close>

lemma values_okD:
  assumes "values_ok db" "dbpriv_find_object db x = Some ob"
  shows "nul_free (o_name ob)" "in_num (o_owner ob)" "in_num (o_location ob)" "in_num (o_contents ob)" "in_num (o_next ob)"
    "list_all (\<lambda>pv. pv_var pv = TYPE_CLEAR \<or> good_value (pv_var pv)) (o_propval ob)"
  using assms by (auto simp: values_ok_def)

lemma clear_loop_good:
  assumes "clear_loop db x n = Some v" "values_ok db"
  shows "good_value v"
proof -
  have "values_ok db \<longrightarrow> good_value v"
  proof (rule clear_loop.raw_induct [OF _ assms(1)], intro impI)
    fix f db x n v
    assume IH: "\<And>db x n v. f db x n = Some v \<Longrightarrow> values_ok db \<longrightarrow> good_value v" and ok: "values_ok db"
      and r: "do { ob \<leftarrow> dbpriv_find_object db x; pv \<leftarrow> nth_opt (o_propval ob) n;
        if pv_var pv = TYPE_CLEAR then do { assert_that (cur_length ob \<le> n); f db (o_parent ob) (n - cur_length ob) }
        else Some (pv_var pv) } = Some v"
    then obtain ob pv where ob: "dbpriv_find_object db x = Some ob" "nth_opt (o_propval ob) n = Some pv" by (auto simp: bind_eq_Some_conv)
    have "pv_var pv = TYPE_CLEAR \<or> good_value (pv_var pv)" using nth_good [OF values_okD(6) [OF ok ob(1)] ob(2)] .
    with r ob IH ok show "good_value v" by (auto simp: bind_eq_Some_conv split: if_splits)
  qed
  with assms(2) show ?thesis by simp
qed

lemma contents_good:
  assumes r: "for_all_loop o_next db add_to_list c r = Some y" and ok: "values_ok db" "in_num c" "list_all good_value r"
  shows "list_all good_value (fst y)"
proof -
  have "o_next = (o_next :: object \<Rightarrow> objid) \<longrightarrow> add_to_list = add_to_list \<longrightarrow> values_ok db \<longrightarrow> in_num c \<longrightarrow> list_all good_value r \<longrightarrow> list_all good_value (fst y)"
    by (rule for_all_loop.raw_induct [where P = "\<lambda>nx db func c r y. nx = o_next \<longrightarrow> func = add_to_list \<longrightarrow> values_ok db \<longrightarrow> in_num c
        \<longrightarrow> list_all good_value r \<longrightarrow> list_all good_value (fst y)", OF _ r])
      (fastforce simp: bind_eq_Some_conv add_to_list_def dest: values_okD(5) split: if_splits)
  with ok show ?thesis by simp
qed

lemma get_bi_value_good:
  assumes "get_bi_value db bi x = Some v" "values_ok db"
  shows "good_value v"
  using assms
  by (cases bi) (auto simp: db_object_name_def db_object_owner_def db_object_location_def int_of_flag_def db_for_all_contents_def bind_eq_Some_conv
      intro: values_okD(1-3) dest: contents_good values_okD(4))

lemma find_property_good:
  "db_find_property True db x pname = Some (h, Some v) \<Longrightarrow> values_ok db \<Longrightarrow> good_value v"
  by (auto simp: db_find_property_def bind_eq_Some_conv intro: get_bi_value_good clear_loop_good split: option.splits)

lemma get_prop_ok:
  assumes "act_ok a" "values_ok db"
  shows "pred_option effect_ok (get_prop protects db obj pname a)"
proof -
  have push: "effect_ok eff" if "db_find_property True db x p = Some (h, Some w)" "PUSHED w a = Some eff" for x p h w eff
    using PUSHED_ok [OF that(2) assms(1) find_property_good [OF that(1) assms(2)]] .
  show ?thesis
    unfolding get_prop_def prod.case
    by (intro vc) (use assms(1) in \<open>auto simp: option.pred_set bind_eq_Some_conv intro: push split: db_prop_handle.splits if_splits\<close>)
qed

lemma read_prop_ok [instr_ok]:
  "act_ok a \<Longrightarrow> values_ok db \<Longrightarrow> pred_option effect_ok (op_get_prop protects db a)"
  "act_ok a \<Longrightarrow> values_ok db \<Longrightarrow> pred_option effect_ok (op_push_get_prop protects db a)"
  unfolding op_get_prop_def op_push_get_prop_def by (intro vc get_prop_ok; assumption)+

lemma modify_values_ok:
  assumes "modify_obj db x f = Some db'" "values_ok db"
    "\<And>ob. dbpriv_find_object db x = Some ob \<Longrightarrow> values_ok db \<Longrightarrow>
       nul_free (o_name (f ob)) \<and> in_num (o_owner (f ob)) \<and> in_num (o_location (f ob)) \<and> in_num (o_contents (f ob)) \<and> in_num (o_next (f ob))
       \<and> list_all (\<lambda>pv. pv_var pv = TYPE_CLEAR \<or> good_value (pv_var pv)) (o_propval (f ob))"
  shows "values_ok db'"
  using modify_objD [OF assms(1)] assms(2,3) by (auto simp: values_ok_def split: if_splits)

lemma modify_fields_values_ok:
  "modify_obj db x (\<lambda>ob. ob\<lparr>o_flags := g ob\<rparr>) = Some db' \<Longrightarrow> values_ok db \<Longrightarrow> values_ok db'"
  "modify_obj db x (\<lambda>ob. ob\<lparr>o_name := s\<rparr>) = Some db' \<Longrightarrow> values_ok db \<Longrightarrow> nul_free s \<Longrightarrow> values_ok db'"
  "modify_obj db x (\<lambda>ob. ob\<lparr>o_owner := ow\<rparr>) = Some db' \<Longrightarrow> values_ok db \<Longrightarrow> in_num ow \<Longrightarrow> values_ok db'"
  by (erule modify_values_ok, assumption, auto dest: values_okD)+

lemma values_users: "values_ok (db\<lparr>all_users := us\<rparr>) = values_ok db"
  by (simp add: values_ok_def dbpriv_find_object_def)

lemma set_flag_values_ok:
  assumes "set_flag_by_value db x fl v = Some db'" "values_ok db"
  shows "values_ok db'"
  using assms
  by (auto simp: set_flag_by_value_def db_set_object_flag_def db_clear_object_flag_def bind_eq_Some_conv values_users
      intro: modify_fields_values_ok split: if_splits)

lemma set_value_good:
  assumes r: "db_set_property_value db h v = Some db'" and ok: "values_ok db" "good_value v"
  shows "values_ok db'"
proof (cases h)
  case (Prop_slot d x n)
  with r obtain pv where pv: "modify_obj db x (\<lambda>ob. ob\<lparr>o_propval := (o_propval ob)[n := pv\<lparr>pv_var := v\<rparr>]\<rparr>) = Some db'"
    by (auto simp: modify_slot_def bind_eq_Some_conv)
  show ?thesis by (rule modify_values_ok [OF pv ok(1)]) (use ok(2) values_okD in \<open>auto intro!: list_all_update\<close>)
next
  case (Builtin bi x)
  with r ok show ?thesis
    by (cases bi) (auto simp: db_set_object_name_def db_set_object_owner_def intro: modify_fields_values_ok set_flag_values_ok split: var.splits)
qed (use r in simp)

lemma find_property_handle:
  assumes "db_find_property want db x pname = Some (h, r)"
  shows "(\<exists>bi. h = Builtin bi x) \<or> h = No_prop \<or> (\<exists>d n. h = Prop_slot d x n)"
  using assms by (cases want) (auto simp: db_find_property_def bind_eq_Some_conv split: option.split_asm)

lemma set_value_step:
  assumes f: "db_find_property want db x pname = Some (h, r)" and s: "db_set_property_value db h v = Some db'"
    and x: "valid db x" "nul_free pname" "v \<noteq> TYPE_CLEAR"
  shows "db_step db db'"
proof -
  consider bi where "h = Builtin bi x" | d n where "h = Prop_slot d x n"
    using find_property_handle [OF f] s by force
  then show ?thesis
  proof cases
    case 1
    have fl: "FLAG_PROGRAMMER < 16" "FLAG_WIZARD < 16" "FLAG_READ < 16" "FLAG_WRITE < 16" "FLAG_FERTILE < 16"
      by (simp_all add: FLAG_PROGRAMMER_def FLAG_WIZARD_def FLAG_READ_def FLAG_WRITE_def FLAG_FERTILE_def)
    with s x(1) 1 show ?thesis
      by (cases bi) (auto simp: set_flag_by_value_def split: var.splits if_splits
          intro: db_step.name db_step.owner db_step.set_flag db_step.clear_flag)
  next
    case 2
    with f s x show ?thesis by (auto intro: db_step.set_value)
  qed
qed

lemma op_put_prop_ok [instr_ok]:
  assumes ok: "values_ok db" "moo_ok db"
  shows "act_ok a \<Longrightarrow> pred_option effect_ok (op_put_prop protects db a)"
proof -
  have "values_ok db' \<and> moo_ok db'" if "db_find_property False db x p = Some (h, r)" "db_set_property_value db h v = Some db'"
    "valid db x" "good_value v" "nul_free p" for x p h r v db'
    using that set_value_good [OF that(2) ok(1) that(4)] set_value_step [OF that(1,2,3,5)] step_ok ok(2) by force
  then show "act_ok a \<Longrightarrow> pred_option effect_ok (op_put_prop protects db a)"
    unfolding op_put_prop_def prod.case by (intro vc vc_bind vc_pair) auto
qed

section \<open>Control\<close>

lemma control_ok [instr_ok]:
  "act_ok a \<Longrightarrow> pred_option effect_ok (op_fork bc with_id a)" "act_ok a \<Longrightarrow> pred_option effect_ok (op_call_verb db a)"
  "act_ok a \<Longrightarrow> pred_option effect_ok (op_return a)" "act_ok a \<Longrightarrow> pred_option effect_ok (op_bi_func_call bc a)"
  unfolding op_fork_def op_call_verb_def op_return_def op_bi_func_call_def prod.case
  by (intro vc vc_bind vc_pair; auto split: if_splits dest: READ_BYTES_ok)+

lemma scatter_loop_ok:
  assumes "list_all good_value xs" "act_ok a"
  shows "pred_option (\<lambda>(b, _). act_ok b) (scatter_loop bc xs nargs rest nrest i offset nopt wh a)"
  using assms(2)
proof (induction "nat (nargs + 1 - i)" arbitrary: i offset nopt wh a rule: less_induct)
  case less
  have IH: "pred_option (\<lambda>(b, _). act_ok b) (scatter_loop bc xs nargs rest nrest (i + 1) off n w c)"
    if "\<not> i > nargs" "act_ok c" for off n w c
    by (rule less.hyps) (use that in auto)
  have v: "nth_opt xs k = Some w \<Longrightarrow> good_value w" for k w by (rule nth_good [OF assms(1)])
  show ?case
    apply (subst scatter_loop.simps)
    apply (intro vc vc_bind less.prems IH)
    using less.prems assms(1) by (auto intro: good v)
qed

lemma eop_scatter_ok [instr_ok]: "act_ok a \<Longrightarrow> pred_option effect_ok (eop_scatter bc a)"
proof -
  have j: "act_ok c" if "jump_done bc w b = Some c" "act_ok b" for b c w
    using that by (auto simp: jump_done_def bind_eq_Some_conv dest: READ_BYTES_ok)
  have je: "act_ok c" if "jump_done bc w (SKIP_BYTES n y) = Some c" "PUSH (TYPE_ERR e) b = Some y" "act_ok b" for b c w n y e
    using j [OF that(1)] PUSH_ok [OF that(2,3)] by simp
  have l: "act_ok c" if "scatter_loop bc xs nargs rest nrest i offset nopt wh b = Some (c, w)" "act_ok b" "list_all good_value xs"
    for xs nargs rest nrest i offset nopt wh b c w
    using scatter_loop_ok [OF that(3,2)] that(1) by (fastforce simp: option.pred_set)
  show "act_ok a \<Longrightarrow> pred_option effect_ok (eop_scatter bc a)"
    unfolding eop_scatter_def Let_def
    by (intro vc vc_bind vc_pair) (auto simp: option.pred_set bind_eq_Some_conv dest: j l intro: je)
qed

lemma drop_handlers_ok: "drop_handlers a = Some b \<Longrightarrow> act_ok a \<Longrightarrow> act_ok b"
proof -
  have "pred_option act_ok (drop_handlers a)" if "act_ok a"
    unfolding drop_handlers_def by (intro vc that) (auto simp: act_ok_stack act_ok_stackD list_all_take_drop)
  then show "drop_handlers a = Some b \<Longrightarrow> act_ok a \<Longrightarrow> act_ok b" by (simp add: option.pred_set)
qed

lemma handler_ok [instr_ok]:
  "act_ok a \<Longrightarrow> pred_option effect_ok (eop_try_except bc one a)"
  "act_ok a \<Longrightarrow> pred_option effect_ok (eop_end_finally a)" "act_ok a \<Longrightarrow> pred_option effect_ok (eop_continue a)"
  "act_ok a \<Longrightarrow> pred_option effect_ok (eop_exit bc a)"
  unfolding eop_try_except_def eop_end_finally_def eop_continue_def eop_exit_def
  by (intro vc vc_bind vc_pair; auto split: if_splits dest: READ_BYTES_ok)+

lemma end_handler_ok [instr_ok]:
  "act_ok a \<Longrightarrow> pred_option effect_ok (eop_end_catch bc a)" "act_ok a \<Longrightarrow> pred_option effect_ok (eop_end_except bc a)"
  unfolding eop_end_catch_def eop_end_except_def by (intro vc vc_bind op_jump_ok; auto dest: drop_handlers_ok)+

lemma eop_push_label_ok [instr_ok]:
  "act_ok a \<Longrightarrow> pred_option effect_ok (eop_push_label bc TYPE_INT a)" "act_ok a \<Longrightarrow> pred_option effect_ok (eop_push_label bc TYPE_FINALLY a)"
  unfolding eop_push_label_def by (intro vc; simp)+

lemma eop_while_id_ok [instr_ok]: "act_ok a \<Longrightarrow> pred_option effect_ok (eop_while_id bc a)"
  using put_top_ok [of a bc] unfolding eop_while_id_def by (intro vc_bind do_test_ok) (auto simp: option.pred_set)

lemma exec_extended_ok: "act_ok a \<Longrightarrow> pred_option effect_ok (exec_extended opts bc eop a)"
  unfolding exec_extended_def
  by (cases eop) (simp_all add: instr_ok eop_bitwise_ok eop_shift_ok good)

lemma exec_ok:
  assumes "act_ok a" "values_ok db" "moo_ok db" "\<And>n. op = OPTIM_NUM n \<Longrightarrow> in_num n"
  shows "pred_option effect_ok (exec opts db bc op a)"
proof -
  have arith: "pred_option effect_ok (op_arith (\<lambda>x y. Some (do_multiply x y)) a)" "pred_option effect_ok (op_arith (\<lambda>x y. Some (do_subtract x y)) a)"
    "pred_option effect_ok (op_arith do_divide a)" "pred_option effect_ok (op_arith do_modulus a)"
    by (rule op_arith_ok [OF _ assms(1)]; auto intro: good)+
  have ext: "pred_option effect_ok (do { b \<leftarrow> fetch bc (a_pc a); eop \<leftarrow> nth_opt extended_opcodes (unat b);
      exec_extended opts bc eop (SKIP_BYTES 1 a) })"
    by (intro vc_bind exec_extended_ok) (simp add: assms)
  show ?thesis
    unfolding exec_def using assms arith ext put_top_ok [OF assms(1), of bc]
    by (cases op) (simp_all add: instr_ok vc_end option.pred_map comp_def)
qed

lemma opcode_of_small: "opcode_of b = OPTIM_NUM n \<Longrightarrow> in_num n"
proof -
  assume o: "opcode_of b = OPTIM_NUM n"
  have p: "x \<in> set opcodes \<Longrightarrow> x \<noteq> OPTIM_NUM n" for x by (auto simp: opcodes_def ticking_ops_def)
  have "OPTIM_NUM_START \<le> unat b" using o p [OF nth_mem] by (auto simp: opcode_of_def Let_def OPTIM_NUM_START_def split: if_splits)
  with o have "n = int (unat b) - int OPTIM_NUM_START + OPTIM_NUM_LOW" by (simp add: opcode_of_def Let_def)
  moreover have "unat b < 256" using unsigned_less [of b, where 'a = nat] by simp
  moreover have "int OPTIM_NUM_START \<le> int (unat b)" "int (unat b) < int 256" using calculation \<open>OPTIM_NUM_START \<le> unat b\<close> of_nat_mono of_nat_less_iff by blast+
  ultimately have "- 10 \<le> n" "n < 256" unfolding OPTIM_NUM_LOW_def by linarith+
  then have "\<bar>n\<bar> < 2 ^ 63" by simp
  then show ?thesis by (rule in_num_small)
qed

end
