(* ===== verification/ExampleVm.thy ===== *)
theory ExampleVm
  imports VmValues ExampleMoo
begin

text \<open>Small states of the virtual machine on the small database.\<close>

definition sample_options :: options where
  "sample_options = \<lparr>opt_max_list_concat = 100, opt_max_string_concat = 100, opt_catchable = False, opt_protects = (\<lambda>_. False),
     opt_pow = (\<lambda>a b. (a, False))\<rparr>"

definition adding_activ :: activation where
  "adding_activ = sample_activ\<lparr>a_rt_stack := [TYPE_INT 1, TYPE_INT NUM_MAX]\<rparr>"

end
