(* ===== verification/Vm.thy ===== *)
theory Vm
  imports VmUnwind Commands
begin

text \<open>
  The interpreter loop (\<^verbatim>\<open>run\<close>), the start and the end of a task (\<^verbatim>\<open>run_interpreter\<close>, \<^verbatim>\<open>do_task\<close> and
  their callers, \<^verbatim>\<open>execute.c\<close>).  The loop may run for ever as far as the machine is concerned (it is stopped by the number of
  ticks, which the compiler makes every loop use): it is a partial function.
\<close>

section \<open>One step\<close>

text \<open>A stopped interpreter has set \<^verbatim>\<open>*result\<close> or not.\<close>

datatype 'w result = Running "'w interp" | Stopped "'w interp" outcome "var option"

definition do_raise :: "'w services \<Rightarrow> error \<Rightarrow> activation \<Rightarrow> activation option \<Rightarrow> 'w interp \<Rightarrow> 'w result option" where
  "do_raise sv e a next_state s =
     (if a_debug a
      then do { (s, stop) \<leftarrow> raise_error sv (TYPE_ERR e) (unparse_error e) zero_var (set_run a s);
                Some (if stop = None then Running s else Stopped s OUTCOME_ABORTED None) }
      else do { b \<leftarrow> next_state; Some (Running (set_run b s)) })"

definition do_abort :: "'w services \<Rightarrow> abort_reason \<Rightarrow> 'w interp \<Rightarrow> 'w result option" where
  "do_abort sv reason s = do { s \<leftarrow> abort_task sv reason s; Some (Stopped s OUTCOME_ABORTED None) }"

definition do_fork :: "'w services \<Rightarrow> nat \<Rightarrow> num \<Rightarrow> nat option \<Rightarrow> activation \<Rightarrow> 'w interp \<Rightarrow> 'w result option" where
  "do_fork sv f_index seconds ident a s =
     do { (w, task_id) \<leftarrow> sv_fork sv a f_index (seconds mod 2 ^ 32) ident (moo_db (in_moo s)) (in_tasks s);
          let s = s\<lparr>in_tasks := w\<rparr>;
          (case task_id of
             None \<Rightarrow> do_raise sv E_QUOTA a (Some a) s
           | Some n \<Rightarrow>
               do { a \<leftarrow> (case ident of None \<Rightarrow> Some a | Some i \<Rightarrow> set_env i (TYPE_INT n) a);
                    Some (Running (set_run a s)) }) }"

definition do_call_verb :: "'w services \<Rightarrow> objid \<Rightarrow> string \<Rightarrow> var list \<Rightarrow> activation \<Rightarrow> 'w interp \<Rightarrow> 'w result option" where
  "do_call_verb sv x vname args a s =
     do { let s = set_run a s;
          (m, e) \<leftarrow> call_verb2 (sv_aliased sv) (sv_null_program sv) (in_moo s) x vname args False;
          let s = s\<lparr>in_moo := m\<rparr>;
          if e = E_NONE then Some (Running s) else do_raise sv e a (PUSH (TYPE_ERR e) a) s }"

definition do_call_bi :: "'w services \<Rightarrow> nat \<Rightarrow> var \<Rightarrow> activation \<Rightarrow> 'w interp \<Rightarrow> 'w result option" where
  "do_call_bi sv func_id args a s =
     do { let s = set_run a s;
          (s, p) \<leftarrow> call_bi_func sv s func_id args 1 (a_progr a) No_data;
          b \<leftarrow> RUN_ACTIV (in_vm s);
          (case p of
             BI_RETURN v \<Rightarrow> do { b \<leftarrow> PUSH v b; Some (Running (set_run b s)) }
           | BI_RAISE code msg v \<Rightarrow>
               if a_debug b
               then do { (s, stop) \<leftarrow> raise_error sv code msg v s;
                         Some (if stop = None then Running s else Stopped s OUTCOME_ABORTED None) }
               else do { b \<leftarrow> PUSH code b; Some (Running (set_run b s)) }
           | BI_CALL pc data \<Rightarrow>
               Some (Running (set_run (b\<lparr>a_bi_func_id := func_id, a_bi_func_data := data, a_bi_func_pc := pc\<rparr>) s))
           | BI_SUSPEND proc data \<Rightarrow>
               do { (s, e) \<leftarrow> suspend_task sv proc data s;
                    if e = E_NONE then Some (Stopped s OUTCOME_BLOCKED None) else do_raise sv e b (PUSH (TYPE_ERR e) b) s }
           | BI_ABORT reason \<Rightarrow> do_abort sv reason s) }"

text \<open>
  The value of a return is the result of the interpreter if the instruction returns itself; if it returns through a
  \<^verbatim>\<open>finally\<close> part, the instruction \<^verbatim>\<open>EOP_CONTINUE\<close> ends the interpreter and the result is not set.
\<close>

definition do_return :: "'w services \<Rightarrow> var \<Rightarrow> activation \<Rightarrow> bool \<Rightarrow> 'w interp \<Rightarrow> 'w result option" where
  "do_return sv v a sets_result s =
     do { (s, stop) \<leftarrow> unwind_return sv v (set_run a s);
          Some (case stop of
                  None \<Rightarrow> Running s
                | Some out \<Rightarrow> Stopped s out (if sets_result \<and> out = OUTCOME_DONE then Some v else None)) }"

definition do_unwind :: "'w services \<Rightarrow> finally_reason \<Rightarrow> var \<Rightarrow> activation \<Rightarrow> 'w interp \<Rightarrow> 'w result option" where
  "do_unwind sv why v a s =
     (if why = FIN_RETURN then do_return sv v a False s
      else do { (s, stop) \<leftarrow> unwind_stack sv why v (set_run a s);
                Some (case stop of None \<Rightarrow> Running s | Some out \<Rightarrow> Stopped s out None) })"

definition carry_out :: "'w services \<Rightarrow> effect \<Rightarrow> 'w interp \<Rightarrow> 'w result option" where
  "carry_out sv eff s =
     (case eff of
        Next a \<Rightarrow> Some (Running (set_run a s))
      | Error e a b \<Rightarrow> do_raise sv e a b s
      | Quota_error e a b \<Rightarrow>
          if e = E_QUOTA \<and> \<not> opt_catchable (sv_options sv) then do_abort sv ABORT_SECONDS (set_run a s)
          else do_raise sv e a b s
      | Store db a \<Rightarrow> Some (Running (set_run a (s\<lparr>in_moo := (in_moo s)\<lparr>moo_db := db\<rparr>\<rparr>)))
      | Fork_task f seconds ident a \<Rightarrow> do_fork sv f seconds ident a s
      | Call_verb x vname args a \<Rightarrow> do_call_verb sv x vname args a s
      | Call_bi n args a \<Rightarrow> do_call_bi sv n args a s
      | Return v a \<Rightarrow> do_return sv v a True s
      | Unwind why v a \<Rightarrow> do_unwind sv why v a s)"

definition running_vector :: "'w interp \<Rightarrow> activation \<Rightarrow> bytecodes option" where
  "running_vector s a =
     (if top_activ_stack (in_vm s) \<noteq> 0 \<or> in_root_vector s = MAIN_VECTOR then Some (prog_main_vector (a_prog a))
      else nth_opt (prog_fork_vectors (a_prog a)) (nat (in_root_vector s)))"

definition count_extended :: "bytecodes \<Rightarrow> activation \<Rightarrow> opcode \<Rightarrow> 'w interp \<Rightarrow> 'w interp" where
  "count_extended bc a op s =
     (if op = OP_EXTENDED \<and> (case fetch bc (a_pc a) of Some b \<Rightarrow> COUNT_EOP_TICK b | None \<Rightarrow> False)
      then s\<lparr>in_ticks := in_ticks s - 1\<rparr> else s)"

text \<open>\<open>timed_out\<close> is whether the timer of the task has run out before this instruction.\<close>

definition step :: "'w services \<Rightarrow> bool \<Rightarrow> 'w interp \<Rightarrow> 'w result option" where
  "step sv timed_out s =
     do { a \<leftarrow> RUN_ACTIV (in_vm s);
          bc \<leftarrow> running_vector s a;
          b \<leftarrow> fetch bc (a_pc a);
          let a = a\<lparr>a_error_pc := a_pc a, a_pc := a_pc a + 1\<rparr>;
          let s = (if COUNT_TICK b then s\<lparr>in_ticks := in_ticks s - 1\<rparr> else s);
          if COUNT_TICK b \<and> in_ticks s \<le> 0 then do_abort sv ABORT_TICKS (set_run a s)
          else if COUNT_TICK b \<and> timed_out then do_abort sv ABORT_SECONDS (set_run a s)
          else do { eff \<leftarrow> exec (sv_options sv) (moo_db (in_moo s)) bc (opcode_of b) a;
                    carry_out sv eff (count_extended bc a (opcode_of b) s) } }"

section \<open>Tasks\<close>

partial_function (option) run_loop :: "'w services \<Rightarrow> (nat \<Rightarrow> bool) \<Rightarrow> nat \<Rightarrow> 'w interp \<Rightarrow> ('w interp \<times> outcome \<times> var option) option" where
  "run_loop sv clock n s =
     do { r \<leftarrow> step sv (clock n) s;
          (case r of
             Running s \<Rightarrow> run_loop sv clock (n + 1) s
           | Stopped s out res \<Rightarrow> Some (s, out, res)) }"

definition run :: "'w services \<Rightarrow> (nat \<Rightarrow> bool) \<Rightarrow> error option \<Rightarrow> 'w interp \<Rightarrow> ('w interp \<times> outcome \<times> var option) option" where
  "run sv clock resumption_error s =
     (case resumption_error of
        None \<Rightarrow> run_loop sv clock 0 s
      | Some e \<Rightarrow>
          do { a \<leftarrow> RUN_ACTIV (in_vm s);
               let a = a\<lparr>a_error_pc := a_pc a\<rparr>;
               r \<leftarrow> do_raise sv e a (PUSH (TYPE_ERR e) a) s;
               (case r of
                  Running s \<Rightarrow> run_loop sv clock 0 s
                | Stopped s out res \<Rightarrow> Some (s, out, res)) })"

definition setup_task_execution_limits :: "'w services \<Rightarrow> bool \<Rightarrow> 'w interp \<Rightarrow> 'w interp" where
  "setup_task_execution_limits sv is_fg s =
     (let ticks = (if is_fg then sv_fg_ticks sv else sv_bg_ticks sv)
      in s\<lparr>in_ticks := (if ticks < 100 then 100 else ticks)\<rparr>)"

definition run_limited :: "'w services \<Rightarrow> (nat \<Rightarrow> bool) \<Rightarrow> error option \<Rightarrow> bool \<Rightarrow> 'w interp \<Rightarrow> ('w interp \<times> outcome \<times> var option) option" where
  "run_limited sv clock e is_fg s = run sv clock e ((setup_task_execution_limits sv is_fg s)\<lparr>in_handler := None\<rparr>)"

text \<open>The traceback, the last argument of the handler, is shown to the player; anything but a list of strings is undefined.\<close>

fun string_values :: "var list \<Rightarrow> string list option" where
  "string_values [] = Some []"
| "string_values (TYPE_STR l # vs) = map_option ((#) l) (string_values vs)"
| "string_values _ = None"

definition notify_lines :: "var \<Rightarrow> 'w interp \<Rightarrow> 'w interp option" where
  "notify_lines args s =
     do { a0 \<leftarrow> nth_opt (activ_stack (in_vm s)) 0;
          (case args of
             TYPE_LIST xs \<Rightarrow>
               (case (if xs = [] then TYPE_NONE else last xs) of
                  TYPE_LIST vs \<Rightarrow>
                    do { lines \<leftarrow> string_values vs;
                         Some (s\<lparr>in_notified := in_notified s @ map (Pair (a_player a0)) lines\<rparr>) }
                | _ \<Rightarrow> None)
           | _ \<Rightarrow> None) }"

text \<open>\<^verbatim>\<open>run_interpreter\<close> without \<^verbatim>\<open>do_db_tracebacks\<close>, as it runs for a handler.\<close>

definition run_no_traceback :: "'w services \<Rightarrow> (nat \<Rightarrow> bool) \<Rightarrow> error option \<Rightarrow> bool \<Rightarrow> 'w interp \<Rightarrow> ('w interp \<times> outcome \<times> var option) option" where
  "run_no_traceback sv clock e is_fg s =
     do { (s, out, res) \<leftarrow> run_limited sv clock e is_fg s;
          (case in_handler s of
             Some (_, args) \<Rightarrow> if out = OUTCOME_ABORTED then do { s \<leftarrow> notify_lines args s; Some (s, out, res) } else Some (s, out, res)
           | None \<Rightarrow> Some (s, out, res)) }"

definition check_activ_stack_size :: "'w services \<Rightarrow> nat \<Rightarrow> vmstruct \<Rightarrow> vmstruct" where
  "check_activ_stack_size sv n vm =
     (if max_stack_size vm \<noteq> n then vm\<lparr>activ_stack := replicate n (sv_blank sv), max_stack_size := n\<rparr> else vm)"

definition DEFAULT_MAX_STACK_DEPTH :: nat where "DEFAULT_MAX_STACK_DEPTH = 50"

definition current_max_stack_size :: "'w services \<Rightarrow> nat" where
  "current_max_stack_size sv = max (sv_max_stack_depth sv) DEFAULT_MAX_STACK_DEPTH"

text \<open>The first activation of a new task.\<close>

definition fresh_vm :: "'w services \<Rightarrow> 'w interp \<Rightarrow> 'w interp" where
  "fresh_vm sv s = set_vm ((check_activ_stack_size sv (current_max_stack_size sv) (in_vm s))\<lparr>top_activ_stack := 0\<rparr>) s"

definition vector_of :: "program \<Rightarrow> int \<Rightarrow> bytecodes option" where
  "vector_of prog which =
     (if which = MAIN_VECTOR then Some (prog_main_vector prog) else nth_opt (prog_fork_vectors prog) (nat which))"

definition start_task :: "program \<Rightarrow> int \<Rightarrow> 'w interp \<Rightarrow> 'w interp option" where
  "start_task prog which s =
     do { a \<leftarrow> RUN_ACTIV (in_vm s);
          bc \<leftarrow> vector_of prog which;
          Some ((set_run (alloc_rt_stack (bc_max_stack bc)
              (a\<lparr>a_prog := prog, a_pc := 0, a_error_pc := 0, a_bi_func_pc := 0, a_temp := TYPE_NONE\<rparr>)) s)\<lparr>in_root_vector := which\<rparr>) }"

definition server_env :: "program \<Rightarrow> objid \<Rightarrow> objid \<Rightarrow> string \<Rightarrow> string \<Rightarrow> var \<Rightarrow> var list option" where
  "server_env prog this player verb argstr args =
     do { env \<leftarrow> fill_in_rt_consts (prog_version prog) (new_rt_env (length (prog_var_names prog)));
          set_slots [(SLOT_PLAYER, TYPE_OBJ player), (SLOT_CALLER, TYPE_OBJ (-1)), (SLOT_THIS, TYPE_OBJ this),
            (SLOT_DOBJ, TYPE_OBJ NOTHING), (SLOT_IOBJ, TYPE_OBJ NOTHING), (SLOT_DOBJSTR, TYPE_STR []), (SLOT_IOBJSTR, TYPE_STR []),
            (SLOT_ARGSTR, TYPE_STR argstr), (SLOT_PREPSTR, TYPE_STR []), (SLOT_VERB, TYPE_STR verb), (SLOT_ARGS, args)] env }"

definition server_program_state ::
  "'w services \<Rightarrow> objid \<Rightarrow> string \<Rightarrow> var \<Rightarrow> objid \<Rightarrow> string \<Rightarrow> program \<Rightarrow> objid \<Rightarrow> bool \<Rightarrow> objid \<Rightarrow> string \<Rightarrow> 'w interp \<Rightarrow> 'w interp option" where
  "server_program_state sv this verb args vloc verbname prog progr debug player argstr s =
     do { let s = fresh_vm sv s;
          a \<leftarrow> RUN_ACTIV (in_vm s);
          env \<leftarrow> server_env prog this player verb argstr args;
          start_task prog MAIN_VECTOR
            (set_run (a\<lparr>a_rt_env := env, a_this := this, a_player := player, a_progr := progr, a_vloc := vloc,
               a_verb := verb, a_verbname := verbname, a_debug := debug\<rparr>) s) }"

text \<open>
  The verb of the system object that handles an uncaught error or a timeout: whether it has dealt with it.  If it is done without
  having set its result, the test of the result is undefined.
\<close>

definition run_handler :: "'w services \<Rightarrow> (nat \<Rightarrow> bool) \<Rightarrow> objid \<Rightarrow> string \<Rightarrow> var \<Rightarrow> 'w interp \<Rightarrow> ('w interp \<times> bool) option" where
  "run_handler sv clock player vname args s =
     do { (db, h) \<leftarrow> db_find_callable_verb (\<lambda>_ _. False) (moo_db (in_moo s)) SYSTEM_OBJECT vname;
          let s = s\<lparr>in_moo := (in_moo s)\<lparr>moo_db := db\<rparr>\<rparr>;
          if h = None then Some (s, False)
          else do {
            prog \<leftarrow> db_verb_program (sv_null_program sv) db h;
            owner \<leftarrow> db_verb_owner db h;
            definer \<leftarrow> db_verb_definer h;
            names \<leftarrow> db_verb_names db h;
            flags \<leftarrow> db_verb_flags db h;
            s \<leftarrow> server_program_state sv SYSTEM_OBJECT vname args definer names prog owner (flags AND VF_DEBUG \<noteq> 0) player [] s;
            (s, out, res) \<leftarrow> run_no_traceback sv clock None True s;
            (case out of
               OUTCOME_DONE \<Rightarrow> do { v \<leftarrow> res; Some (s, is_true v) }
             | OUTCOME_BLOCKED \<Rightarrow> Some (s, True)
             | OUTCOME_ABORTED \<Rightarrow> Some (s, False)) } }"

definition run_interpreter ::
  "'w services \<Rightarrow> (nat \<Rightarrow> bool) \<Rightarrow> (nat \<Rightarrow> bool) \<Rightarrow> error option \<Rightarrow> bool \<Rightarrow> bool \<Rightarrow> 'w interp \<Rightarrow> ('w interp \<times> outcome \<times> var option) option" where
  "run_interpreter sv clock clock2 e is_fg do_db_tracebacks s =
     do { (s, out, res) \<leftarrow> run_limited sv clock e is_fg s;
          (case in_handler s of
             Some (vname, args) \<Rightarrow>
               if out = OUTCOME_ABORTED then
                 do { a0 \<leftarrow> nth_opt (activ_stack (in_vm s)) 0;
                      (s, handled) \<leftarrow> (if do_db_tracebacks then run_handler sv clock2 (a_player a0) vname args s else Some (s, False));
                      if handled then Some (s, out, res)
                      else do { s \<leftarrow> notify_lines args s; Some (s, out, res) } }
               else Some (s, out, res)
           | None \<Rightarrow> Some (s, out, res)) }"

definition do_server_program_task ::
  "'w services \<Rightarrow> (nat \<Rightarrow> bool) \<Rightarrow> (nat \<Rightarrow> bool) \<Rightarrow> objid \<Rightarrow> string \<Rightarrow> var \<Rightarrow> objid \<Rightarrow> string \<Rightarrow> program \<Rightarrow> objid \<Rightarrow> bool \<Rightarrow> objid \<Rightarrow> string
     \<Rightarrow> bool \<Rightarrow> 'w interp \<Rightarrow> ('w interp \<times> outcome \<times> var option) option" where
  "do_server_program_task sv clock clock2 this verb args vloc verbname prog progr debug player argstr do_db_tracebacks s =
     do { s \<leftarrow> server_program_state sv this verb args vloc verbname prog progr debug player argstr s;
          run_interpreter sv clock clock2 None True do_db_tracebacks s }"

definition input_env :: "program \<Rightarrow> objid \<Rightarrow> parsed_command \<Rightarrow> objid \<Rightarrow> var list option" where
  "input_env prog user pc this =
     do { env \<leftarrow> fill_in_rt_consts (prog_version prog) (new_rt_env (length (prog_var_names prog)));
          set_slots [(SLOT_PLAYER, TYPE_OBJ user), (SLOT_CALLER, TYPE_OBJ user), (SLOT_THIS, TYPE_OBJ this),
            (SLOT_DOBJ, TYPE_OBJ (pc_dobj pc)), (SLOT_IOBJ, TYPE_OBJ (pc_iobj pc)), (SLOT_DOBJSTR, TYPE_STR (pc_dobjstr pc)),
            (SLOT_IOBJSTR, TYPE_STR (pc_iobjstr pc)), (SLOT_ARGSTR, TYPE_STR (pc_argstr pc)), (SLOT_PREPSTR, TYPE_STR (pc_prepstr pc)),
            (SLOT_VERB, TYPE_STR (pc_verb pc)), (SLOT_ARGS, TYPE_LIST (pc_args pc))] env }"

definition do_input_task ::
  "'w services \<Rightarrow> (nat \<Rightarrow> bool) \<Rightarrow> (nat \<Rightarrow> bool) \<Rightarrow> objid \<Rightarrow> parsed_command \<Rightarrow> objid \<Rightarrow> verb_handle option \<Rightarrow> 'w interp
     \<Rightarrow> ('w interp \<times> outcome \<times> var option) option" where
  "do_input_task sv clock clock2 user pc this vh s =
     do { let db = moo_db (in_moo s);
          prog \<leftarrow> db_verb_program (sv_null_program sv) db vh;
          owner \<leftarrow> db_verb_owner db vh;
          definer \<leftarrow> db_verb_definer vh;
          names \<leftarrow> db_verb_names db vh;
          flags \<leftarrow> db_verb_flags db vh;
          let s = fresh_vm sv s;
          a \<leftarrow> RUN_ACTIV (in_vm s);
          env \<leftarrow> input_env prog user pc this;
          s \<leftarrow> start_task prog MAIN_VECTOR
            (set_run (a\<lparr>a_rt_env := env, a_this := this, a_player := user, a_progr := owner, a_vloc := definer,
               a_verb := pc_verb pc, a_verbname := names, a_debug := (flags AND VF_DEBUG \<noteq> 0)\<rparr>) s);
          run_interpreter sv clock clock2 None True True s }"

definition do_forked_task ::
  "'w services \<Rightarrow> (nat \<Rightarrow> bool) \<Rightarrow> (nat \<Rightarrow> bool) \<Rightarrow> program \<Rightarrow> var list \<Rightarrow> activation \<Rightarrow> int \<Rightarrow> 'w interp \<Rightarrow> ('w interp \<times> outcome \<times> var option) option" where
  "do_forked_task sv clock clock2 prog rt_env a f_id s =
     do { s \<leftarrow> start_task prog f_id (set_run (a\<lparr>a_rt_env := rt_env\<rparr>) (fresh_vm sv s));
          run_interpreter sv clock clock2 None False True s }"

definition resume_from_previous_vm ::
  "'w services \<Rightarrow> (nat \<Rightarrow> bool) \<Rightarrow> (nat \<Rightarrow> bool) \<Rightarrow> vmstruct \<Rightarrow> int \<Rightarrow> var \<Rightarrow> 'w interp \<Rightarrow> ('w interp \<times> outcome \<times> var option) option" where
  "resume_from_previous_vm sv clock clock2 the_vm root v s =
     do { let vm = check_activ_stack_size sv (max_stack_size the_vm) (in_vm s);
          let n = Suc (top_activ_stack the_vm);
          assert_that (n \<le> length (activ_stack the_vm) \<and> n \<le> length (activ_stack vm));
          let s = (set_vm (vm\<lparr>activ_stack := take n (activ_stack the_vm) @ drop n (activ_stack vm),
                              top_activ_stack := top_activ_stack the_vm\<rparr>) s)\<lparr>in_root_vector := root\<rparr>;
          (case v of
             TYPE_ERR e \<Rightarrow> run_interpreter sv clock clock2 (Some e) False True s
           | _ \<Rightarrow>
               do { a \<leftarrow> RUN_ACTIV (in_vm s);
                    a \<leftarrow> PUSH v a;
                    run_interpreter sv clock clock2 None False True (set_run a s) }) }"

definition setup_activ_for_eval :: "program \<Rightarrow> moo \<Rightarrow> (moo \<times> bool) option" where
  "setup_activ_for_eval prog m =
     (case push_activation (moo_vm m) of (vm1, ok) \<Rightarrow>
        if \<not> ok then Some (m, False)
        else do {
          caller \<leftarrow> CALLER_ACTIV vm1;
          old \<leftarrow> RUN_ACTIV vm1;
          env \<leftarrow> fill_in_rt_consts (prog_version prog) (new_rt_env (length (prog_var_names prog)));
          env \<leftarrow> set_slots [(SLOT_PLAYER, TYPE_OBJ (a_player caller)), (SLOT_CALLER, TYPE_OBJ (a_this caller)),
            (SLOT_THIS, TYPE_OBJ NOTHING), (SLOT_DOBJ, TYPE_OBJ NOTHING), (SLOT_IOBJ, TYPE_OBJ NOTHING),
            (SLOT_DOBJSTR, TYPE_STR []), (SLOT_IOBJSTR, TYPE_STR []), (SLOT_ARGSTR, TYPE_STR []), (SLOT_PREPSTR, TYPE_STR []),
            (SLOT_VERB, TYPE_STR []), (SLOT_ARGS, TYPE_LIST [])] env;
          let new = alloc_rt_stack (bc_max_stack (prog_main_vector prog))
            (old\<lparr>a_prog := prog, a_rt_env := env, a_this := NOTHING, a_player := a_player caller, a_progr := a_progr caller,
               a_vloc := NOTHING, a_verb := [], a_verbname := ''Input to EVAL'', a_debug := True, a_pc := 0, a_error_pc := 0,
               a_temp := TYPE_NONE\<rparr>);
          Some (m\<lparr>moo_vm := vm1\<lparr>activ_stack := (activ_stack vm1)[top_activ_stack vm1 := new]\<rparr>\<rparr>, True) })"

end
