(* ===== verification/InputQueue.thy ===== *)
theory InputQueue
  imports Prelude
begin

text \<open>
  The queue of input lines of one connection (\<^verbatim>\<open>tasks.c\<close>): a linked list of task nodes with a second list threaded through it,
  which joins the last nodes of the alternating runs of out-of-band and other lines, so that the first line of either kind is
  found in constant time.  The operations work on the pointers as the code does; the refinement to a plain list follows.
\<close>

section \<open>Nodes, slots and pointers\<close>

datatype task_kind = TASK_INBAND | TASK_OOB | TASK_QUOTED | TASK_BINARY | TASK_FORKED | TASK_SUSPENDED

record input_node =
  t_next :: "nat option"
  t_kind :: task_kind
  t_string :: string
  t_length :: int
  t_next_itail :: "nat option"

text \<open>
  A pointer to a pointer is the address of the field of the queue (\<open>Head\<close>) or of the field of a node, in the list of lines or in the list of run ends.
\<close>

datatype slot_ptr = Head | Field nat

record iqueue =
  in_heap :: "nat \<Rightarrow> input_node option"
  in_fresh :: nat
  first_input :: "nat option"
  last_input :: slot_ptr
  first_itail :: "nat option"
  last_itail :: slot_ptr

definition empty_iqueue :: iqueue where
  "empty_iqueue = \<lparr>in_heap = (\<lambda>_. None), in_fresh = 0, first_input = None, last_input = Head, first_itail = None, last_itail = Head\<rparr>"

fun get_next :: "iqueue \<Rightarrow> slot_ptr \<Rightarrow> nat option option" where
  "get_next q Head = Some (first_input q)"
| "get_next q (Field a) = map_option t_next (in_heap q a)"

fun set_next :: "iqueue \<Rightarrow> slot_ptr \<Rightarrow> nat option \<Rightarrow> iqueue option" where
  "set_next q Head v = Some (q\<lparr>first_input := v\<rparr>)"
| "set_next q (Field a) v = map_option (\<lambda>n. q\<lparr>in_heap := (in_heap q)(a \<mapsto> n\<lparr>t_next := v\<rparr>)\<rparr>) (in_heap q a)"

fun get_itail :: "iqueue \<Rightarrow> slot_ptr \<Rightarrow> nat option option" where
  "get_itail q Head = Some (first_itail q)"
| "get_itail q (Field a) = map_option t_next_itail (in_heap q a)"

fun set_itail :: "iqueue \<Rightarrow> slot_ptr \<Rightarrow> nat option \<Rightarrow> iqueue option" where
  "set_itail q Head v = Some (q\<lparr>first_itail := v\<rparr>)"
| "set_itail q (Field a) v = map_option (\<lambda>n. q\<lparr>in_heap := (in_heap q)(a \<mapsto> n\<lparr>t_next_itail := v\<rparr>)\<rparr>) (in_heap q a)"

section \<open>Operations\<close>

definition OUT_OF_BAND_PREFIX :: string where "OUT_OF_BAND_PREFIX = ''#$#''"

definition OUT_OF_BAND_QUOTE_PREFIX :: string where "OUT_OF_BAND_QUOTE_PREFIX = ''#$\"''"

definition input_kind :: "string \<Rightarrow> bool \<Rightarrow> task_kind" where
  "input_kind input binary =
     (if binary then TASK_BINARY
      else if take (length OUT_OF_BAND_QUOTE_PREFIX) input = OUT_OF_BAND_QUOTE_PREFIX then TASK_QUOTED
      else if take (length OUT_OF_BAND_PREFIX) input = OUT_OF_BAND_PREFIX then TASK_OOB
      else TASK_INBAND)"

definition alloc_node :: "iqueue \<Rightarrow> input_node \<Rightarrow> iqueue \<times> nat" where
  "alloc_node q n = (q\<lparr>in_heap := (in_heap q)(in_fresh q \<mapsto> n), in_fresh := Suc (in_fresh q)\<rparr>, in_fresh q)"

definition link_front :: "iqueue \<Rightarrow> nat \<Rightarrow> nat \<Rightarrow> iqueue option" where
  "link_front q t f =
     do { nf \<leftarrow> in_heap q f;
          nt \<leftarrow> in_heap q t;
          q \<leftarrow> (if (t_kind nf = TASK_OOB) \<noteq> (t_kind nt = TASK_OOB)
               then do { q \<leftarrow> set_itail q (Field t) (first_itail q);
                         let q = q\<lparr>first_itail := Some t\<rparr>;
                         Some (if last_itail q = Head then q\<lparr>last_itail := Field t\<rparr> else q) }
               else Some q);
          q \<leftarrow> set_next q (Field t) (first_input q);
          Some (q\<lparr>first_input := Some t\<rparr>) }"

definition link_rear :: "iqueue \<Rightarrow> nat \<Rightarrow> iqueue option" where
  "link_rear q t =
     do { nt \<leftarrow> in_heap q t;
          q \<leftarrow> (if first_input q = None then Some q
               else do { l \<leftarrow> get_itail q (last_itail q); a \<leftarrow> l; na \<leftarrow> in_heap q a;
                         Some (if (t_kind na = TASK_OOB) \<noteq> (t_kind nt = TASK_OOB) then q\<lparr>last_itail := Field a\<rparr> else q) });
          q \<leftarrow> set_itail q (last_itail q) (Some t);
          q \<leftarrow> set_next q (last_input q) (Some t);
          set_next (q\<lparr>last_input := Field t\<rparr>) (Field t) None }"

definition enqueue_node :: "iqueue \<Rightarrow> string \<Rightarrow> bool \<Rightarrow> bool \<Rightarrow> (iqueue \<times> nat) option" where
  "enqueue_node q input at_front binary =
     (let (q, t) = alloc_node q \<lparr>t_next = None, t_kind = input_kind input binary, t_string = input,
                      t_length = int (length input), t_next_itail = None\<rparr>
      in (case first_input q of
            Some f \<Rightarrow> map_option (\<lambda>q. (q, t)) (if at_front then link_front q t f else link_rear q t)
          | None \<Rightarrow> map_option (\<lambda>q. (q, t)) (link_rear q t)))"

datatype dequeue_how = DQ_FIRST | DQ_OOB | DQ_INBAND

definition how_number :: "dequeue_how \<Rightarrow> int" where
  "how_number how = (case how of DQ_FIRST \<Rightarrow> -1 | DQ_OOB \<Rightarrow> 0 | DQ_INBAND \<Rightarrow> 1)"

definition unlink_itail :: "iqueue \<Rightarrow> nat \<Rightarrow> slot_ptr \<Rightarrow> iqueue option" where
  "unlink_itail q t pitail =
     do { it \<leftarrow> get_itail q pitail;
          if it = Some t
          then do { q \<leftarrow> set_itail q pitail None;
                    nt \<leftarrow> in_heap q t;
                    q \<leftarrow> (case t_next_itail nt of
                           None \<Rightarrow> Some q
                         | Some j \<Rightarrow> set_itail (q\<lparr>first_itail := Some j\<rparr>) (Field t) None);
                    l \<leftarrow> get_itail q (last_itail q);
                    Some (if l = None then q\<lparr>last_itail := Head\<rparr> else q) }
          else Some q }"

definition dequeue_node :: "iqueue \<Rightarrow> dequeue_how \<Rightarrow> (iqueue \<times> nat option) option" where
  "dequeue_node q how =
     (case first_input q of
        None \<Rightarrow> Some (q, None)
      | Some f \<Rightarrow>
          do { nf \<leftarrow> in_heap q f;
               p \<leftarrow> (if how_number how = of_bool (t_kind nf = TASK_OOB) then map_option Field (first_itail q) else Some Head);
               t \<leftarrow> get_next q p;
               (case t of
                  None \<Rightarrow> Some (q, None)
                | Some t \<Rightarrow>
                    do { nt \<leftarrow> in_heap q t;
                         q \<leftarrow> set_next q p (t_next nt);
                         q \<leftarrow> (if t_next nt = None then Some (q\<lparr>last_input := p\<rparr>) else set_next q (Field t) None);
                         q \<leftarrow> unlink_itail q t p;
                         Some (q, Some t) }) })"

section \<open>Linked lists\<close>

text \<open>The first element of a list, or what comes after it.\<close>

definition first_of :: "'a list \<Rightarrow> 'a option \<Rightarrow> 'a option" where "first_of as v = (case as of [] \<Rightarrow> v | a # _ \<Rightarrow> Some a)"

lemma first_of_simps [simp]: "first_of [] v = v" "first_of (a # as) v = Some a" "first_of (as @ bs) v = first_of as (first_of bs v)"
  by (simp_all add: first_of_def split: list.split)

lemma first_of_None [simp]: "first_of as None = None \<longleftrightarrow> as = []"
  by (auto simp: first_of_def split: list.splits)

lemma first_of_Some: "first_of as None = Some a \<longleftrightarrow> (\<exists>bs. as = a # bs)"
  by (auto simp: first_of_def split: list.splits)

fun linked :: "('a \<Rightarrow> 'a option) \<Rightarrow> 'a list \<Rightarrow> 'a option \<Rightarrow> bool" where
  "linked f [] v = True"
| "linked f (a # as) v = (f a = first_of as v \<and> linked f as v)"

lemma linked_append [simp]: "linked f (as @ bs) v \<longleftrightarrow> linked f as (first_of bs v) \<and> linked f bs v"
  by (induction as) auto

lemma linked_cong: "(\<And>a. a \<in> set as \<Longrightarrow> f a = g a) \<Longrightarrow> linked f as v = linked g as v"
  by (induction as) auto

lemma linked_other [simp]: "b \<notin> set as \<Longrightarrow> linked (f(b := x)) as v = linked f as v"
  by (rule linked_cong) auto

lemma linked_put_last: "distinct as \<Longrightarrow> linked f as v \<Longrightarrow> as \<noteq> [] \<Longrightarrow> linked (f(last as := w)) as w"
  by (cases as rule: rev_cases) auto

lemma first_of_any: "as \<noteq> [] \<Longrightarrow> first_of as v = first_of as w"
  by (cases as) auto

definition last_slot :: "nat list \<Rightarrow> slot_ptr" where "last_slot as = (if as = [] then Head else Field (last as))"

lemma last_slot_simps [simp]: "last_slot [] = Head" "last_slot (as @ [a]) = Field a" "last_slot as = Head \<longleftrightarrow> as = []"
  "last_slot (a # b # as) = last_slot (b # as)" "last_slot [a] = Field a"
  by (simp_all add: last_slot_def)

lemma last_slot_append: "last_slot (as @ bs) = (if bs = [] then last_slot as else last_slot bs)"
  by (simp add: last_slot_def)

text \<open>The ends of the maximal runs of elements that agree on a predicate.\<close>

fun run_ends :: "('a \<Rightarrow> bool) \<Rightarrow> 'a list \<Rightarrow> 'a list" where
  "run_ends p [] = []"
| "run_ends p (a # as) = (if as \<noteq> [] \<and> p a = p (hd as) then run_ends p as else a # run_ends p as)"

lemma run_ends_empty [simp]: "run_ends p as = [] \<longleftrightarrow> as = []"
  by (induction as) auto

lemma run_ends_subset: "set (run_ends p as) \<subseteq> set as"
  by (induction as) auto

lemma distinct_run_ends: "distinct as \<Longrightarrow> distinct (run_ends p as)"
  using run_ends_subset by (induction as) fastforce+

lemma last_run_ends: "as \<noteq> [] \<Longrightarrow> last (run_ends p as) = last as"
  by (induction as) (auto simp: last_ConsR)

lemma run_ends_cong: "(\<And>a. a \<in> set as \<Longrightarrow> p a = q a) \<Longrightarrow> run_ends p as = run_ends q as"
  by (induction as) auto

lemma run_ends_snoc:
  "run_ends p (as @ [a]) = (if as = [] then [a] else if p (last as) = p a then butlast (run_ends p as) @ [a] else run_ends p as @ [a])"
  by (induction as) (auto simp: last_ConsR hd_append)

text \<open>The first run: its last element is the first end, and the rest begins with an element of the other kind.\<close>

lemma run_ends_run:
  assumes "r \<noteq> []" "\<And>a. a \<in> set r \<Longrightarrow> p a = k" "bs \<noteq> [] \<Longrightarrow> p (hd bs) \<noteq> k"
  shows "run_ends p (r @ bs) = last r # run_ends p bs"
  using assms by (induction r) (auto simp: hd_append)

lemma run_ends_joined:
  assumes "\<And>a. a \<in> set r \<Longrightarrow> p a = k" "bs \<noteq> []" "p (hd bs) = k"
  shows "run_ends p (r @ bs) = run_ends p bs"
  using assms by (induction r) (auto simp: hd_append)

lemma first_run:
  assumes "as \<noteq> []"
  obtains r bs where "as = r @ bs" "r \<noteq> []" "\<And>a. a \<in> set r \<Longrightarrow> p a = p (hd as)" "bs \<noteq> [] \<Longrightarrow> p (hd bs) \<noteq> p (hd as)"
proof
  let ?P = "\<lambda>a. p a = p (hd as)"
  show "as = takeWhile ?P as @ dropWhile ?P as" by simp
  show "takeWhile ?P as \<noteq> []" using assms by (cases as) auto
  show "p a = p (hd as)" if "a \<in> set (takeWhile ?P as)" for a using set_takeWhileD [OF that] by simp
  show "p (hd (dropWhile ?P as)) \<noteq> p (hd as)" if "dropWhile ?P as \<noteq> []" using hd_dropWhile [OF that] by simp
qed

declare run_ends.simps(2) [simp del]

lemma run_ends_Cons:
  "run_ends p [a] = [a]"
  "as \<noteq> [] \<Longrightarrow> run_ends p (a # as) = (if p a = p (hd as) then run_ends p as else a # run_ends p as)"
  by (auto simp: run_ends.simps)

section \<open>The representation invariant\<close>

definition next_of :: "iqueue \<Rightarrow> nat \<Rightarrow> nat option" where "next_of q a = Option.bind (in_heap q a) t_next"

definition itail_of :: "iqueue \<Rightarrow> nat \<Rightarrow> nat option" where "itail_of q a = Option.bind (in_heap q a) t_next_itail"

definition entry_of :: "iqueue \<Rightarrow> nat \<Rightarrow> (task_kind \<times> string \<times> int) option" where
  "entry_of q a = map_option (\<lambda>n. (t_kind n, t_string n, t_length n)) (in_heap q a)"

definition oob_at :: "iqueue \<Rightarrow> nat \<Rightarrow> bool" where
  "oob_at q a \<longleftrightarrow> (\<exists>n. in_heap q a = Some n \<and> t_kind n = TASK_OOB)"

definition iqueue_ok :: "iqueue \<Rightarrow> nat list \<Rightarrow> bool" where
  "iqueue_ok q as \<longleftrightarrow>
     distinct as \<and> (\<forall>a. in_heap q a \<noteq> None \<longrightarrow> a < in_fresh q) \<and> (\<forall>a \<in> set as. in_heap q a \<noteq> None)
     \<and> first_input q = first_of as None \<and> linked (next_of q) as None \<and> last_input q = last_slot as
     \<and> (let es = run_ends (oob_at q) as
        in first_itail q = first_of es None \<and> linked (itail_of q) es None \<and> last_itail q = last_slot (butlast es))"

lemma iqueue_ok_empty: "iqueue_ok empty_iqueue []"
  by (simp add: iqueue_ok_def empty_iqueue_def)

text \<open>What an assignment through a slot does to the links.\<close>

definition put_next :: "iqueue \<Rightarrow> nat \<Rightarrow> nat option \<Rightarrow> iqueue" where
  "put_next q a v = q\<lparr>in_heap := (in_heap q)(a := map_option (t_next_update (\<lambda>_. v)) (in_heap q a))\<rparr>"

definition put_itail :: "iqueue \<Rightarrow> nat \<Rightarrow> nat option \<Rightarrow> iqueue" where
  "put_itail q a v = q\<lparr>in_heap := (in_heap q)(a := map_option (t_next_itail_update (\<lambda>_. v)) (in_heap q a))\<rparr>"

definition alive :: "iqueue \<Rightarrow> nat \<Rightarrow> bool" where "alive q a \<longleftrightarrow> in_heap q a \<noteq> None"

lemma slot_simps:
  "alive q a \<Longrightarrow> get_next q (Field a) = Some (next_of q a)" "alive q a \<Longrightarrow> get_itail q (Field a) = Some (itail_of q a)"
  "alive q a \<Longrightarrow> set_next q (Field a) v = Some (put_next q a v)" "alive q a \<Longrightarrow> set_itail q (Field a) v = Some (put_itail q a v)"
  by (auto simp: alive_def next_of_def itail_of_def put_next_def put_itail_def)

declare get_next.simps(2) [simp del] get_itail.simps(2) [simp del] set_next.simps(2) [simp del] set_itail.simps(2) [simp del]

lemma alive_heap: "alive q a \<Longrightarrow> \<exists>n. in_heap q a = Some n \<and> t_next n = next_of q a \<and> t_next_itail n = itail_of q a \<and> (t_kind n = TASK_OOB) = oob_at q a
    \<and> entry_of q a = Some (t_kind n, t_string n, t_length n)"
  by (auto simp: alive_def next_of_def itail_of_def oob_at_def entry_of_def)

lemma put_links [simp]:
  "alive q a \<Longrightarrow> next_of (put_next q a v) = (next_of q)(a := v)" "next_of (put_itail q a v) = next_of q"
  "alive q a \<Longrightarrow> itail_of (put_itail q a v) = (itail_of q)(a := v)" "itail_of (put_next q a v) = itail_of q"
  by (auto simp: next_of_def itail_of_def put_next_def put_itail_def alive_def fun_eq_iff bind_map_option comp_def)

lemma put_content [simp]:
  "alive (put_next q a v) = alive q" "alive (put_itail q a v) = alive q" "oob_at (put_next q a v) = oob_at q" "oob_at (put_itail q a v) = oob_at q"
  "entry_of (put_next q a v) = entry_of q" "entry_of (put_itail q a v) = entry_of q"
  by (auto simp: alive_def oob_at_def entry_of_def put_next_def put_itail_def fun_eq_iff option.map_comp comp_def)

lemma put_fields [simp]:
  "in_fresh (put_next q a v) = in_fresh q" "first_input (put_next q a v) = first_input q" "last_input (put_next q a v) = last_input q"
  "first_itail (put_next q a v) = first_itail q" "last_itail (put_next q a v) = last_itail q"
  "in_fresh (put_itail q a v) = in_fresh q" "first_input (put_itail q a v) = first_input q" "last_input (put_itail q a v) = last_input q"
  "first_itail (put_itail q a v) = first_itail q" "last_itail (put_itail q a v) = last_itail q"
  by (simp_all add: put_next_def put_itail_def)

lemma field_links [simp]:
  "next_of (q\<lparr>first_input := x\<rparr>) = next_of q" "next_of (q\<lparr>last_input := y\<rparr>) = next_of q"
  "next_of (q\<lparr>first_itail := x\<rparr>) = next_of q" "next_of (q\<lparr>last_itail := y\<rparr>) = next_of q"
  "itail_of (q\<lparr>first_input := x\<rparr>) = itail_of q" "itail_of (q\<lparr>last_input := y\<rparr>) = itail_of q"
  "itail_of (q\<lparr>first_itail := x\<rparr>) = itail_of q" "itail_of (q\<lparr>last_itail := y\<rparr>) = itail_of q"
  by (auto simp: next_of_def itail_of_def fun_eq_iff)

lemma field_content [simp]:
  "alive (q\<lparr>first_input := x\<rparr>) = alive q" "alive (q\<lparr>last_input := y\<rparr>) = alive q"
  "alive (q\<lparr>first_itail := x\<rparr>) = alive q" "alive (q\<lparr>last_itail := y\<rparr>) = alive q"
  "oob_at (q\<lparr>first_input := x\<rparr>) = oob_at q" "oob_at (q\<lparr>last_input := y\<rparr>) = oob_at q"
  "oob_at (q\<lparr>first_itail := x\<rparr>) = oob_at q" "oob_at (q\<lparr>last_itail := y\<rparr>) = oob_at q"
  "entry_of (q\<lparr>first_input := x\<rparr>) = entry_of q" "entry_of (q\<lparr>last_input := y\<rparr>) = entry_of q"
  "entry_of (q\<lparr>first_itail := x\<rparr>) = entry_of q" "entry_of (q\<lparr>last_itail := y\<rparr>) = entry_of q"
  by (auto simp: alive_def oob_at_def entry_of_def fun_eq_iff)

lemma iqueue_ok_alive:
  "iqueue_ok q as \<longleftrightarrow>
     distinct as \<and> (\<forall>a. alive q a \<longrightarrow> a < in_fresh q) \<and> (\<forall>a \<in> set as. alive q a)
     \<and> first_input q = first_of as None \<and> linked (next_of q) as None \<and> last_input q = last_slot as
     \<and> (let es = run_ends (oob_at q) as
        in first_itail q = first_of es None \<and> linked (itail_of q) es None \<and> last_itail q = last_slot (butlast es))"
  unfolding iqueue_ok_def alive_def by (rule refl)

lemma iqueue_okI:
  assumes "distinct as" "\<And>a. alive q a \<Longrightarrow> a < in_fresh q" "\<And>a. a \<in> set as \<Longrightarrow> alive q a"
    "first_input q = first_of as None" "linked (next_of q) as None" "last_input q = last_slot as"
    "run_ends (oob_at q) as = es" "first_itail q = first_of es None" "linked (itail_of q) es None" "last_itail q = last_slot (butlast es)"
  shows "iqueue_ok q as"
  using assms by (simp add: iqueue_ok_alive)

lemma iqueue_okD:
  assumes "iqueue_ok q as"
  shows "distinct as" "\<And>a. alive q a \<Longrightarrow> a < in_fresh q" "\<And>a. a \<in> set as \<Longrightarrow> alive q a"
    "first_input q = first_of as None" "linked (next_of q) as None" "last_input q = last_slot as"
    "first_itail q = first_of (run_ends (oob_at q) as) None" "linked (itail_of q) (run_ends (oob_at q) as) None"
    "last_itail q = last_slot (butlast (run_ends (oob_at q) as))"
  using assms by (simp_all add: iqueue_ok_alive Let_def)

lemma alloc_content:
  assumes "alloc_node q n = (q', t)" "\<forall>a. alive q a \<longrightarrow> a < in_fresh q"
  shows "\<not> alive q t" "alive q' = (alive q)(t := True)" "next_of q' = (next_of q)(t := t_next n)" "itail_of q' = (itail_of q)(t := t_next_itail n)"
    "oob_at q' = (oob_at q)(t := (t_kind n = TASK_OOB))" "entry_of q' = (entry_of q)(t \<mapsto> (t_kind n, t_string n, t_length n))"
    "in_fresh q' = Suc t" "t = in_fresh q" "first_input q' = first_input q" "last_input q' = last_input q"
    "first_itail q' = first_itail q" "last_itail q' = last_itail q"
  using assms by (auto simp: alloc_node_def alive_def next_of_def itail_of_def oob_at_def entry_of_def fun_eq_iff)

section \<open>Enqueueing\<close>

text \<open>A node that is in no list yet.\<close>

definition loose :: "iqueue \<Rightarrow> nat list \<Rightarrow> nat \<Rightarrow> bool" where
  "loose q as t \<longleftrightarrow> alive q t \<and> t \<notin> set as \<and> next_of q t = None \<and> itail_of q t = None"

lemma link_front_ok:
  assumes ok: "iqueue_ok q as" and t: "loose q as t" and f: "first_input q = Some f"
  shows "\<exists>q'. link_front q t f = Some q' \<and> iqueue_ok q' (t # as) \<and> entry_of q' = entry_of q \<and> alive q' = alive q"
proof -
  note D = ok [unfolded iqueue_ok_alive Let_def] and T = t [unfolded loose_def]
  have fa: "first_of as None = Some f" using D f by simp
  then have as: "as \<noteq> []" "hd as = f" "f \<in> set as" by (auto simp: first_of_Some)
  obtain nf nt where n: "in_heap q f = Some nf" "in_heap q t = Some nt" "(t_kind nf = TASK_OOB) = oob_at q f" "(t_kind nt = TASK_OOB) = oob_at q t"
    using D T as alive_heap [of q f] alive_heap [of q t] by auto
  show ?thesis
  proof (cases "oob_at q f = oob_at q t")
    case True
    have "link_front q t f = Some ((put_next q t (Some f))\<lparr>first_input := Some t\<rparr>)"
      using True n T f by (simp add: link_front_def slot_simps)
    moreover have "iqueue_ok ((put_next q t (Some f))\<lparr>first_input := Some t\<rparr>) (t # as)"
      using D T True as fa by (simp add: iqueue_ok_alive Let_def run_ends_Cons last_slot_def)
    ultimately show ?thesis by simp
  next
    case False
    define E where "E = run_ends (oob_at q) as"
    have e: "t \<notin> set E" "E \<noteq> []" using T as run_ends_subset [of "oob_at q" as] by (auto simp: E_def)
    then obtain x es where es: "E = x # es" by (cases E) auto
    define q1 where "q1 = (put_itail q t (Some x))\<lparr>first_itail := Some t\<rparr>"
    define q2 where "q2 = (if es = [] then q1\<lparr>last_itail := Field t\<rparr> else q1)"
    have h: "first_itail q = Some x" "last_itail q = last_slot (butlast E)" "linked (itail_of q) E None" using D unfolding E_def [symmetric] es by simp_all
    have "link_front q t f = Some ((put_next q2 t (Some f))\<lparr>first_input := Some t\<rparr>)"
      using False n T f h by (simp add: link_front_def slot_simps q1_def q2_def es)
    moreover have "first_itail q2 = Some t" "itail_of q2 = (itail_of q)(t := Some x)" "last_itail q2 = last_slot (butlast (t # E))"
      "entry_of q2 = entry_of q" "alive q2 = alive q" "oob_at q2 = oob_at q" "next_of q2 = next_of q" "in_fresh q2 = in_fresh q" "last_input q2 = last_input q"
      using T h by (simp_all add: q1_def q2_def es last_slot_def)
    moreover from this have "iqueue_ok ((put_next q2 t (Some f))\<lparr>first_input := Some t\<rparr>) (t # as)"
      using D T False as e(1) fa h(3) by (simp add: iqueue_ok_alive Let_def run_ends_Cons last_slot_def E_def [symmetric] es)
    ultimately show ?thesis by simp
  qed
qed

lemma link_rear_ok:
  assumes ok: "iqueue_ok q as" and t: "loose q as t"
  shows "\<exists>q'. link_rear q t = Some q' \<and> iqueue_ok q' (as @ [t]) \<and> entry_of q' = entry_of q \<and> alive q' = alive q"
proof -
  note D = iqueue_okD [OF ok] and T = t [unfolded loose_def]
  obtain nt where nt: "in_heap q t = Some nt" "(t_kind nt = TASK_OOB) = oob_at q t" using T alive_heap [of q t] by auto
  show ?thesis
  proof (cases "as = []")
    case True
    then show ?thesis using D T nt by (auto simp: link_rear_def slot_simps run_ends_Cons intro!: iqueue_okI)
  next
    case False
    define es where "es = butlast (run_ends (oob_at q) as)"
    define l where "l = last as"
    have ends: "run_ends (oob_at q) as = es @ [l]"
      using False last_run_ends [OF False, of "oob_at q"] unfolding es_def l_def by (metis append_butlast_last_id run_ends_empty)
    obtain bs where as: "as = bs @ [l]" using False unfolding l_def by (metis append_butlast_last_id)
    have sub: "set es \<subseteq> set bs" "l \<notin> set es" "l \<noteq> t" "t \<notin> set es" "distinct es" "l \<notin> set bs" "t \<notin> set bs"
      using ends D(1) as T run_ends_subset [of "oob_at q" as] distinct_run_ends [of as "oob_at q"] by auto
    have al: "alive q l" "\<And>a. a \<in> set es \<Longrightarrow> alive q a" "alive q t" using D(3) as sub T by auto
    obtain nl where nl: "in_heap q l = Some nl" "(t_kind nl = TASK_OOB) = oob_at q l" using al alive_heap [of q l] by auto
    have it: "first_itail q = first_of (es @ [l]) None" "linked (itail_of q) (es @ [l]) None" "last_itail q = last_slot es"
      using D(7-9) unfolding ends by (simp_all add: butlast_append)
    have lt: "get_itail q (last_itail q) = Some (Some l)"
      using it al by (cases es rule: rev_cases) (auto simp: slot_simps)
    define q0 where "q0 = (if oob_at q l = oob_at q t then q else q\<lparr>last_itail := Field l\<rparr>)"
    define E where "E = (if oob_at q l = oob_at q t then es else es @ [l])"
    define q1 where "q1 = (case last_slot E of Head \<Rightarrow> q0\<lparr>first_itail := Some t\<rparr> | Field a \<Rightarrow> put_itail q0 a (Some t))"
    have v: "alive q1 = alive q" "entry_of q1 = entry_of q" "oob_at q1 = oob_at q" "next_of q1 = next_of q" "last_input q1 = last_input q"
      "in_fresh q1 = in_fresh q" "first_input q1 = first_input q" "last_itail q1 = last_slot E"
      using it(3) by (auto simp: q0_def q1_def E_def split: slot_ptr.split)
    have E: "distinct E" "t \<notin> set E" "\<And>a. a \<in> set E \<Longrightarrow> alive q a" "\<exists>v. linked (itail_of q) E v"
      using sub it(2) al by (auto simp: E_def split: if_splits)
    have "itail_of q1 = (if E = [] then itail_of q else (itail_of q)(last E := Some t))"
      using E(3) by (simp add: q1_def q0_def last_slot_def)
    then have i1: "linked (itail_of q1) (E @ [t]) None"
      using E T linked_put_last [OF E(1)] by (cases "E = []") auto
    have f1: "first_itail q1 = first_of (E @ [t]) None"
      using it(1) first_of_any [of es] by (auto simp: q1_def q0_def E_def last_slot_def)
    have "set_itail q0 (last_itail q0) (Some t) = Some q1"
      using it(3) E(3) by (auto simp: q1_def q0_def E_def last_slot_def slot_simps)
    moreover have "(if first_input q = None then Some q else do { l \<leftarrow> get_itail q (last_itail q); a \<leftarrow> l; na \<leftarrow> in_heap q a;
        Some (if (t_kind na = TASK_OOB) \<noteq> (t_kind nt = TASK_OOB) then q\<lparr>last_itail := Field a\<rparr> else q) }) = Some q0"
      using False by (simp add: D(4) lt nl nt q0_def)
    moreover have "last_input q1 = Field l" by (simp add: v D(6) as)
    ultimately have "link_rear q t = Some (put_next ((put_next q1 l (Some t))\<lparr>last_input := Field t\<rparr>) t None)"
      using al v(1) by (simp add: link_rear_def nt(1) slot_simps)
    moreover have R: "run_ends (oob_at q) (as @ [t]) = E @ [t]"
      using False by (simp add: run_ends_snoc ends E_def l_def [symmetric])
    have "iqueue_ok (put_next ((put_next q1 l (Some t))\<lparr>last_input := Field t\<rparr>) t None) (as @ [t])"
    proof (rule iqueue_okI)
      show "linked (next_of (put_next (put_next q1 l (Some t)\<lparr>last_input := Field t\<rparr>) t None)) (as @ [t]) None"
        using D(5) al sub by (simp add: v as)
    qed (use D(1-4) T v R i1 f1 al False in \<open>auto simp: as last_slot_def\<close>)
    ultimately show ?thesis using v by simp
  qed
qed

lemma enqueue_node_ok:
  assumes ok: "iqueue_ok q as"
  shows "\<exists>q' t. enqueue_node q input at_front binary = Some (q', t) \<and> t \<notin> set as \<and> iqueue_ok q' (if at_front then t # as else as @ [t])
    \<and> entry_of q' = (entry_of q)(t \<mapsto> (input_kind input binary, input, int (length input)))"
proof -
  define n where "n = \<lparr>t_next = None, t_kind = input_kind input binary, t_string = input, t_length = int (length input), t_next_itail = None\<rparr>"
  obtain q0 t where a: "alloc_node q n = (q0, t)" by fastforce
  note D = iqueue_okD [OF ok]
  have "\<forall>a. alive q a \<longrightarrow> a < in_fresh q" using D(2) by blast
  note A = alloc_content [OF a this]
  have t: "t \<notin> set as" using A(1) D(3) by blast
  then have e: "t \<notin> set (run_ends (oob_at q) as)" using run_ends_subset [of "oob_at q" as] by auto
  have r: "run_ends (oob_at q0) as = run_ends (oob_at q) as" using t by (intro run_ends_cong) (auto simp: A)
  have "iqueue_ok q0 as"
    by (rule iqueue_okI [OF D(1) _ _ _ _ _ r]) (use A D t e in \<open>auto simp: less_Suc_eq\<close>)
  moreover have "loose q0 as t" using t by (simp add: loose_def A n_def)
  ultimately obtain qf qr where "link_rear q0 t = Some qr" "iqueue_ok qr (as @ [t])" "entry_of qr = entry_of q0"
    "first_input q0 = Some f \<Longrightarrow> link_front q0 t f = Some (qf f) \<and> iqueue_ok (qf f) (t # as) \<and> entry_of (qf f) = entry_of q0" for f
    using link_rear_ok [of q0 as t] link_front_ok [of q0 as t] by metis
  moreover have "as = []" if "first_input q0 = None" using that D(4) by (simp add: A)
  ultimately show ?thesis using A(6) t a
    by (cases "first_input q0") (auto simp: enqueue_node_def n_def [symmetric], auto simp: n_def)
qed

section \<open>Dequeueing\<close>

text \<open>The lines a caller asks for.\<close>

definition wanted :: "dequeue_how \<Rightarrow> bool \<Rightarrow> bool" where
  "wanted how oob \<longleftrightarrow> (case how of DQ_FIRST \<Rightarrow> True | DQ_OOB \<Rightarrow> oob | DQ_INBAND \<Rightarrow> \<not> oob)"

lemma how_wanted: "how_number how = of_bool oob \<longleftrightarrow> \<not> wanted how oob"
  by (cases how; cases oob) (simp_all add: how_number_def wanted_def)

text \<open>Two queues that differ in the list of run ends only.\<close>

definition same_lines :: "iqueue \<Rightarrow> iqueue \<Rightarrow> bool" where
  "same_lines q q' \<longleftrightarrow> next_of q' = next_of q \<and> entry_of q' = entry_of q \<and> alive q' = alive q \<and> oob_at q' = oob_at q
     \<and> first_input q' = first_input q \<and> last_input q' = last_input q \<and> in_fresh q' = in_fresh q"

lemma same_lines_simps [simp]:
  "same_lines q q" "same_lines q (put_itail q' a v) = same_lines q q'"
  "same_lines q (q'\<lparr>first_itail := x\<rparr>) = same_lines q q'" "same_lines q (q'\<lparr>last_itail := y\<rparr>) = same_lines q q'"
  by (simp_all add: same_lines_def)

definition itails_ok :: "iqueue \<Rightarrow> nat list \<Rightarrow> bool" where
  "itails_ok q es \<longleftrightarrow> first_itail q = first_of es None \<and> linked (itail_of q) es None \<and> last_itail q = last_slot (butlast es)"

lemma unlink_later:
  assumes "itails_ok q (r @ x # es)" "length r \<le> 1" "x \<noteq> t" "set r \<subseteq> Collect (alive q)"
  shows "unlink_itail q t (last_slot r) = Some q"
  using assms by (cases r) (auto simp: unlink_itail_def itails_ok_def slot_simps)

text \<open>The run that is left alone ends the queue.\<close>

lemma unlink_last:
  assumes i: "itails_ok q (r @ [t])" "length r \<le> 1" and a: "set r \<subseteq> Collect (alive q)" "alive q t" "t \<notin> set r"
  shows "\<exists>q'. unlink_itail q t (last_slot r) = Some q' \<and> itails_ok q' r \<and> same_lines q q'"
proof -
  obtain nt where nt: "in_heap q t = Some nt" "t_next_itail nt = None" using alive_heap [OF a(2)] i by (auto simp: itails_ok_def)
  show ?thesis
  proof (cases r)
    case Nil
    with i nt show ?thesis by (auto simp: unlink_itail_def itails_ok_def)
  next
    case (Cons b r')
    then have r: "r = [b]" "alive q b" "b \<noteq> t" using i(2) a by auto
    then have "in_heap (put_itail q b None) t = Some nt" using nt by (simp add: put_itail_def)
    with i r nt show ?thesis by (auto simp: unlink_itail_def itails_ok_def slot_simps)
  qed
qed

text \<open>The runs on both sides of the line become one.\<close>

lemma unlink_join:
  assumes i: "itails_ok q (r @ t # x # es)" "length r \<le> 1" and a: "set r \<subseteq> Collect (alive q)" "alive q t" "set (x # es) \<subseteq> Collect (alive q)"
    and d: "distinct (r @ t # x # es)"
  shows "\<exists>q'. unlink_itail q t (last_slot r) = Some q' \<and> itails_ok q' (x # es) \<and> same_lines q q'"
proof -
  define q1 where "q1 = (case last_slot r of Head \<Rightarrow> q\<lparr>first_itail := None\<rparr> | Field b \<Rightarrow> put_itail q b None)"
  have p: "get_itail q (last_slot r) = Some (Some t)" "set_itail q (last_slot r) None = Some q1"
    using i a(1) by (cases r; auto simp: itails_ok_def q1_def slot_simps)+
  have q1: "same_lines q q1" "last_itail q1 = last_itail q" "\<And>b. b \<notin> set r \<Longrightarrow> itail_of q1 b = itail_of q b" "alive q1 = alive q"
    using a(1) i(2) by (cases r; simp add: q1_def)+
  define q2 where "q2 = put_itail (q1\<lparr>first_itail := Some x\<rparr>) t None"
  have it: "itail_of q1 t = Some x" "linked (itail_of q) (x # es) None" "last_itail q = last_slot (butlast (r @ t # x # es))"
    using i(1) q1(3) d by (auto simp: itails_ok_def)
  obtain nt where nt: "in_heap q1 t = Some nt" "t_next_itail nt = Some x" using alive_heap [of q1 t] a(2) q1(4) it by auto
  have s2: "same_lines q q2" "alive q2 = alive q" "itail_of q2 t = None" "\<And>b. b \<in> set (x # es) \<Longrightarrow> itail_of q2 b = itail_of q b"
    using q1 d a(2) by (auto simp: q2_def)
  have l2: "linked (itail_of q2) (x # es) None" using it(2) s2(4) by (subst linked_cong [of _ _ "itail_of q"]) auto
  show ?thesis
  proof (cases es rule: rev_cases)
    case Nil
    then have "last_itail q1 = Field t" using it(3) q1(2) by (simp add: butlast_append)
    then have "unlink_itail q t (last_slot r) = Some (q2\<lparr>last_itail := Head\<rparr>)"
      using p nt a(2) q1(4) by (simp add: unlink_itail_def slot_simps q2_def)
    with l2 s2(1) Nil show ?thesis by (auto simp: itails_ok_def q2_def)
  next
    case (snoc ys y)
    define z where "z = last (x # ys)"
    have z: "last_itail q2 = Field z" "z \<in> set (x # es)" using it(3) q1(2) snoc by (auto simp: butlast_append last_slot_def q2_def z_def)
    have "itail_of q2 z = Some y" using l2 snoc unfolding z_def by (cases ys rule: rev_cases) auto
    then have "unlink_itail q t (last_slot r) = Some q2"
      using p nt a(2,3) q1(4) z s2(2) unfolding q2_def by (auto simp add: unlink_itail_def slot_simps)
    with l2 s2(1) z(1) snoc show ?thesis by (auto simp: itails_ok_def q2_def z_def last_slot_def butlast_append)
  qed
qed

text \<open>
  The line after a prefix that is empty or a whole run of the other kind; the ends of that prefix are its last element or nothing.
\<close>

lemma unlink_itail_ok:
  assumes d: "distinct (r @ t # bs)" and k: "\<And>a. a \<in> set r \<Longrightarrow> p a \<noteq> p t" and i: "itails_ok q (run_ends p (r @ t # bs))"
    and a: "\<And>b. b \<in> set (r @ t # bs) \<Longrightarrow> alive q b"
  shows "\<exists>q'. unlink_itail q t (last_slot r) = Some q' \<and> itails_ok q' (run_ends p (r @ bs)) \<and> same_lines q q'"
proof -
  define e where "e = (if r = [] then [] else [last r])"
  have e: "length e \<le> 1" "last_slot e = last_slot r" "set e \<subseteq> set r" by (auto simp: e_def last_slot_def)
  have split: "run_ends p (r @ cs) = e @ run_ends p cs" if "cs = [] \<or> p (hd cs) = p t" for cs
    using that k run_ends_run [of r p "\<not> p t" cs] by (auto simp: e_def)
  have es: "run_ends p (r @ t # bs) = e @ run_ends p (t # bs)" by (rule split) simp
  have sub: "set (run_ends p bs) \<subseteq> set bs" by (rule run_ends_subset)
  have al: "set e \<subseteq> Collect (alive q)" "alive q t" "set (run_ends p bs) \<subseteq> Collect (alive q)" using a e(3) sub by auto
  consider "bs = []" | "bs \<noteq> []" "p t = p (hd bs)" | "bs \<noteq> []" "p t \<noteq> p (hd bs)" by blast
  then show ?thesis
  proof cases
    case 1
    then show ?thesis
      using unlink_last [of q e t] i es e al d split [of "[]"] by (auto simp: run_ends_Cons)
  next
    case 2
    then obtain x xs where "run_ends p bs = x # xs" by (metis list.exhaust run_ends_empty)
    moreover have "run_ends p (t # bs) = run_ends p bs" "run_ends p (r @ bs) = e @ run_ends p bs" using 2 split by (auto simp: run_ends_Cons)
    moreover from calculation have "x \<noteq> t" using d sub by auto
    ultimately show ?thesis
      using unlink_later [of q e x xs t] i es e al(1) by auto
  next
    case 3
    then obtain x xs where x: "run_ends p bs = x # xs" by (metis list.exhaust run_ends_empty)
    have "run_ends p (r @ bs) = run_ends p bs" using 3 k by (intro run_ends_joined [of r p "\<not> p t"]) auto
    moreover have "distinct e" by (simp add: e_def)
    then have "distinct (e @ t # run_ends p bs)" using d e(3) sub distinct_run_ends [of bs p] by auto
    ultimately show ?thesis
      using unlink_join [of q e t x xs] i es e al 3 x by (auto simp: run_ends_Cons)
  qed
qed

lemma dequeue_at:
  assumes ok: "iqueue_ok q (r @ t # bs)" and k: "\<And>a. a \<in> set r \<Longrightarrow> oob_at q a \<noteq> oob_at q t"
  shows "\<exists>nt q1 q2 q'. in_heap q t = Some nt \<and> set_next q (last_slot r) (t_next nt) = Some q1
    \<and> (if t_next nt = None then Some (q1\<lparr>last_input := last_slot r\<rparr>) else set_next q1 (Field t) None) = Some q2
    \<and> unlink_itail q2 t (last_slot r) = Some q' \<and> iqueue_ok q' (r @ bs) \<and> entry_of q' = entry_of q"
proof -
  note D = iqueue_okD [OF ok]
  have al: "alive q a" if "a \<in> set (r @ t # bs)" for a using D(3) that .
  obtain nt where nt: "in_heap q t = Some nt" "t_next nt = first_of bs None" using alive_heap [of q t] al D(5) by auto
  define q1 where "q1 = (case last_slot r of Head \<Rightarrow> q\<lparr>first_input := first_of bs None\<rparr> | Field b \<Rightarrow> put_next q b (first_of bs None))"
  have s1: "set_next q (last_slot r) (t_next nt) = Some q1" using nt al by (auto simp: q1_def last_slot_def slot_simps)
  have c1: "alive q1 = alive q" "entry_of q1 = entry_of q" "oob_at q1 = oob_at q" "in_fresh q1 = in_fresh q" "itail_of q1 = itail_of q"
    "first_itail q1 = first_itail q" "last_itail q1 = last_itail q" "last_input q1 = last_input q" "first_input q1 = first_of (r @ bs) None"
    using D(4) first_of_any [of r] by (auto simp: q1_def last_slot_def)
  have "next_of q1 = (if r = [] then next_of q else (next_of q)(last r := first_of bs None))"
    using al by (simp add: q1_def last_slot_def)
  moreover have "linked (next_of q) r (Some t)" "linked (next_of q) bs None" "distinct r" "r \<noteq> [] \<longrightarrow> last r \<notin> set bs"
    using D(1,5) disjoint_iff [of "set r" "set bs"] by auto
  ultimately have n1: "linked (next_of q1) r (first_of bs None)" "linked (next_of q1) bs None"
    using linked_put_last [of r "next_of q" "Some t"] by auto
  define q2 where "q2 = (if bs = [] then q1\<lparr>last_input := last_slot r\<rparr> else put_next q1 t None)"
  have s2: "(if t_next nt = None then Some (q1\<lparr>last_input := last_slot r\<rparr>) else set_next q1 (Field t) None) = Some q2"
    using nt al c1(1) by (auto simp: q2_def slot_simps)
  have c2: "alive q2 = alive q" "entry_of q2 = entry_of q" "oob_at q2 = oob_at q" "in_fresh q2 = in_fresh q" "itail_of q2 = itail_of q"
    "first_itail q2 = first_itail q" "last_itail q2 = last_itail q" "first_input q2 = first_of (r @ bs) None" "last_input q2 = last_slot (r @ bs)"
    using c1 D(6) by (auto simp: q2_def last_slot_def)
  have n2: "linked (next_of q2) (r @ bs) None" using n1 D(1) al c1(1) by (auto simp: q2_def)
  have "itails_ok q2 (run_ends (oob_at q) (r @ t # bs))" using D(7-9) by (simp add: itails_ok_def c2)
  from unlink_itail_ok [OF D(1) k this] obtain q' where
    "unlink_itail q2 t (last_slot r) = Some q'" "itails_ok q' (run_ends (oob_at q) (r @ bs))" "same_lines q2 q'"
    using al c2(1) by auto
  moreover from this have "iqueue_ok q' (r @ bs)"
    using D(1-3) n2 c2 by (intro iqueue_okI [where es = "run_ends (oob_at q) (r @ bs)"]) (auto simp: itails_ok_def same_lines_def)
  moreover from calculation have "entry_of q' = entry_of q" using c2(2) by (simp add: same_lines_def)
  ultimately show ?thesis using nt(1) s1 s2 by (intro exI conjI)
qed

text \<open>The refinement: the first line of the wanted kind is taken out, and the others stay as they are.\<close>

lemma dequeue_node_ok:
  assumes ok: "iqueue_ok q as"
  shows "(\<forall>a\<in>set as. \<not> wanted how (oob_at q a)) \<and> dequeue_node q how = Some (q, None)
    \<or> (\<exists>r t bs q'. as = r @ t # bs \<and> (\<forall>a\<in>set r. \<not> wanted how (oob_at q a)) \<and> wanted how (oob_at q t)
        \<and> dequeue_node q how = Some (q', Some t) \<and> iqueue_ok q' (r @ bs) \<and> entry_of q' = entry_of q)"
proof (cases as)
  case Nil
  then show ?thesis using iqueue_okD(4) [OF ok] by (simp add: dequeue_node_def)
next
  case (Cons f cs)
  note D = iqueue_okD [OF ok]
  obtain nf where nf: "in_heap q f = Some nf" "(t_kind nf = TASK_OOB) = oob_at q f" using alive_heap [of q f] D(3) Cons by auto
  have fi: "first_input q = Some f" using D(4) Cons by simp
  have hd: "as \<noteq> []" "hd as = f" using Cons by simp_all
  show ?thesis
  proof (cases "wanted how (oob_at q f)")
    case True
    then show ?thesis using dequeue_at [of q "[]" f cs] ok Cons fi nf how_wanted [of how "oob_at q f"]
      by (intro disjI2 exI [of _ "[]"]) (auto simp: dequeue_node_def)
  next
    case False
    obtain r bs where r: "as = r @ bs" "r \<noteq> []" "\<And>a. a \<in> set r \<Longrightarrow> oob_at q a = oob_at q f" "bs \<noteq> [] \<Longrightarrow> oob_at q (hd bs) \<noteq> oob_at q f"
      using first_run [OF hd(1), of "oob_at q"] unfolding hd(2) by metis
    have "first_itail q = Some (last r)" using D(7) run_ends_run [of r "oob_at q" "oob_at q f" bs] r by simp
    moreover have "get_next q (Field (last r)) = Some (first_of bs None)"
      using D(3,5) r(1,2) by (cases r rule: rev_cases) (auto simp: slot_simps)
    moreover have ls: "last_slot r = Field (last r)" using r(2) by (simp add: last_slot_def)
    ultimately have dq: "dequeue_node q how = (case first_of bs None of None \<Rightarrow> Some (q, None) | Some t \<Rightarrow>
        do { nt \<leftarrow> in_heap q t; q1 \<leftarrow> set_next q (last_slot r) (t_next nt);
             q2 \<leftarrow> (if t_next nt = None then Some (q1\<lparr>last_input := last_slot r\<rparr>) else set_next q1 (Field t) None);
             q3 \<leftarrow> unlink_itail q2 t (last_slot r); Some (q3, Some t) })"
      using fi nf False how_wanted [of how "oob_at q f"] unfolding ls
      by (simp add: dequeue_node_def)
    show ?thesis
    proof (cases bs)
      case Nil
      with dq r False show ?thesis by auto
    next
      case b: (Cons t cs)
      have "wanted how (oob_at q t)" using False r(4) b by (cases how) (auto simp: wanted_def)
      moreover have "\<And>a. a \<in> set r \<Longrightarrow> oob_at q a \<noteq> oob_at q t" using r b by auto
      ultimately show ?thesis using dequeue_at [of q r t cs] ok r(1,3) b dq False
        by (intro disjI2 exI [of _ r]) auto
    qed
  qed
qed

section \<open>The queue as a list\<close>

type_synonym input_line = "task_kind \<times> string \<times> int"

fun input_addrs :: "nat \<Rightarrow> iqueue \<Rightarrow> nat option \<Rightarrow> nat list" where
  "input_addrs (Suc fuel) q (Some a) = a # input_addrs fuel q (next_of q a)"
| "input_addrs _ q _ = []"

definition input_lines :: "iqueue \<Rightarrow> input_line list" where
  "input_lines q = map (the \<circ> entry_of q) (input_addrs (in_fresh q) q (first_input q))"

definition iqueue_valid :: "iqueue \<Rightarrow> bool" where "iqueue_valid q \<longleftrightarrow> (\<exists>as. iqueue_ok q as)"

lemma input_addrs_linked: "linked (next_of q) as None \<Longrightarrow> length as \<le> n \<Longrightarrow> input_addrs n q (first_of as None) = as"
proof (induction as arbitrary: n)
  case Nil
  then show ?case by (cases n) auto
next
  case (Cons a as)
  then show ?case by (cases n) auto
qed

lemma input_lines_ok:
  assumes "iqueue_ok q as"
  shows "input_lines q = map (the \<circ> entry_of q) as"
proof -
  note D = iqueue_okD [OF assms]
  have "set as \<subseteq> {..<in_fresh q}" using D(2,3) by auto
  then have "length as \<le> in_fresh q" using D(1) card_mono [of "{..<in_fresh q}" "set as"] by (simp add: distinct_card)
  then show ?thesis using input_addrs_linked [OF D(5)] D(4) by (simp add: input_lines_def)
qed

text \<open>Freeing a node that is in no list.\<close>

definition free_node :: "iqueue \<Rightarrow> nat \<Rightarrow> iqueue" where "free_node q t = q\<lparr>in_heap := (in_heap q)(t := None)\<rparr>"

lemma free_node_ok:
  assumes ok: "iqueue_ok q as" and t: "t \<notin> set as"
  shows "iqueue_ok (free_node q t) as" "input_lines (free_node q t) = input_lines q"
proof -
  note D = iqueue_okD [OF ok]
  have f: "alive (free_node q t) = (alive q)(t := False)" "next_of (free_node q t) = (next_of q)(t := None)"
    "itail_of (free_node q t) = (itail_of q)(t := None)" "oob_at (free_node q t) = (oob_at q)(t := False)"
    "entry_of (free_node q t) = (entry_of q)(t := None)"
    by (auto simp: free_node_def alive_def next_of_def itail_of_def oob_at_def entry_of_def fun_eq_iff)
  have g: "in_fresh (free_node q t) = in_fresh q" "first_input (free_node q t) = first_input q" "last_input (free_node q t) = last_input q"
    "first_itail (free_node q t) = first_itail q" "last_itail (free_node q t) = last_itail q" by (simp_all add: free_node_def)
  have e: "run_ends (oob_at (free_node q t)) as = run_ends (oob_at q) as" unfolding f using t by (intro run_ends_cong) auto
  have "t \<notin> set (run_ends (oob_at q) as)" using run_ends_subset [of "oob_at q" as] t by auto
  then show i: "iqueue_ok (free_node q t) as"
    by (intro iqueue_okI [OF D(1) _ _ _ _ _ e]) (use D t in \<open>auto simp: f g split: if_splits\<close>)
  show "input_lines (free_node q t) = input_lines q"
    using t by (auto simp: input_lines_ok [OF i] input_lines_ok [OF ok] f)
qed

definition enqueue_line :: "iqueue \<Rightarrow> string \<Rightarrow> bool \<Rightarrow> bool \<Rightarrow> iqueue option" where
  "enqueue_line q input at_front binary = map_option fst (enqueue_node q input at_front binary)"

definition dequeue_line :: "iqueue \<Rightarrow> dequeue_how \<Rightarrow> (iqueue \<times> input_line option) option" where
  "dequeue_line q how =
     do { (q, t) \<leftarrow> dequeue_node q how;
          (case t of
             None \<Rightarrow> Some (q, None)
           | Some t \<Rightarrow> do { n \<leftarrow> in_heap q t; Some (free_node q t, Some (t_kind n, t_string n, t_length n)) }) }"

section \<open>The interface\<close>

text \<open>Removing the first element with a property.\<close>

fun take_first :: "('a \<Rightarrow> bool) \<Rightarrow> 'a list \<Rightarrow> 'a option \<times> 'a list" where
  "take_first P [] = (None, [])"
| "take_first P (x # xs) = (if P x then (Some x, xs) else map_prod id ((#) x) (take_first P xs))"

lemma take_first_none: "\<forall>x\<in>set xs. \<not> P x \<Longrightarrow> take_first P xs = (None, xs)"
  by (induction xs) auto

lemma take_first_some: "\<forall>x\<in>set xs. \<not> P x \<Longrightarrow> P y \<Longrightarrow> take_first P (xs @ y # ys) = (Some y, xs @ ys)"
  by (induction xs) auto

lemma take_first_filter: "fst (take_first P xs) = first_of (filter P xs) None" "filter P (snd (take_first P xs)) = tl (filter P xs)"
  by (induction xs) auto

lemma take_first_others: "(\<And>x. P x \<Longrightarrow> \<not> Q x) \<Longrightarrow> filter Q (snd (take_first P xs)) = filter Q xs"
  by (induction xs) auto

lemma take_first_all: "take_first (\<lambda>_. True) xs = (first_of xs None, tl xs)"
  by (cases xs) auto

definition wants :: "dequeue_how \<Rightarrow> input_line \<Rightarrow> bool" where "wants how l = wanted how (fst l = TASK_OOB)"

text \<open>
  What the scheduler relies on: the lines are a list, new ones are put at one of its ends, and a request takes out the first line of its kind.
\<close>

locale input_queue =
  fixes valid_queue :: "'q \<Rightarrow> bool"
    and lines :: "'q \<Rightarrow> input_line list"
    and put_line :: "'q \<Rightarrow> string \<Rightarrow> bool \<Rightarrow> bool \<Rightarrow> 'q option"
    and get_line :: "'q \<Rightarrow> dequeue_how \<Rightarrow> ('q \<times> input_line option) option"
  assumes put_law: "valid_queue q \<Longrightarrow> \<exists>q'. put_line q s front binary = Some q' \<and> valid_queue q'
      \<and> lines q' = (if front then (input_kind s binary, s, int (length s)) # lines q else lines q @ [(input_kind s binary, s, int (length s))])"
    and get_law: "valid_queue q \<Longrightarrow> \<exists>q'. get_line q how = Some (q', fst (take_first (wants how) (lines q))) \<and> valid_queue q'
      \<and> lines q' = snd (take_first (wants how) (lines q))"
begin

text \<open>A sequence of requests and the answers.\<close>

fun get_lines :: "'q \<Rightarrow> dequeue_how list \<Rightarrow> ('q \<times> (dequeue_how \<times> input_line) list) option" where
  "get_lines q [] = Some (q, [])"
| "get_lines q (how # hows) =
     do { (q, l) \<leftarrow> get_line q how;
          (q, ls) \<leftarrow> get_lines q hows;
          Some (q, (case l of None \<Rightarrow> ls | Some l \<Rightarrow> (how, l) # ls)) }"

text \<open>However the requests for the two kinds alternate, each kind of lines arrives in its order and none is lost.\<close>

lemma get_lines_by_kind:
  assumes "valid_queue q" "DQ_FIRST \<notin> set hows"
  shows "\<exists>q' ls. get_lines q hows = Some (q', ls) \<and> valid_queue q'
    \<and> (\<forall>how. how \<noteq> DQ_FIRST \<longrightarrow> map snd (filter (\<lambda>(h, _). h = how) ls) @ filter (wants how) (lines q') = filter (wants how) (lines q)
         \<and> length (filter (\<lambda>(h, _). h = how) ls) = min (count_list hows how) (length (filter (wants how) (lines q))))"
  using assms
proof (induction hows arbitrary: q)
  case (Cons h hows)
  from get_law [OF Cons.prems(1), of h] obtain q1 where q1: "get_line q h = Some (q1, fst (take_first (wants h) (lines q)))" "valid_queue q1"
    "lines q1 = snd (take_first (wants h) (lines q))" by blast
  from Cons.IH [OF q1(2)] Cons.prems(2) obtain q' ls where r: "get_lines q1 hows = Some (q', ls)" "valid_queue q'"
    and k: "\<And>how. how \<noteq> DQ_FIRST \<Longrightarrow> map snd (filter (\<lambda>(h, _). h = how) ls) @ filter (wants how) (lines q') = filter (wants how) (lines q1)"
      "\<And>how. how \<noteq> DQ_FIRST \<Longrightarrow> length (filter (\<lambda>(h, _). h = how) ls) = min (count_list hows how) (length (filter (wants how) (lines q1)))"
    by auto
  define l where "l = fst (take_first (wants h) (lines q))"
  have l: "l = first_of (filter (wants h) (lines q)) None" by (simp add: l_def take_first_filter)
  define ls' where "ls' = (case l of None \<Rightarrow> ls | Some l \<Rightarrow> (h, l) # ls)"
  have e: "get_lines q (h # hows) = Some (q', ls')" using q1(1) r(1) by (simp add: l_def ls'_def)
  have "map snd (filter (\<lambda>(h, _). h = how) ls') @ filter (wants how) (lines q') = filter (wants how) (lines q)
      \<and> length (filter (\<lambda>(h, _). h = how) ls') = min (count_list (h # hows) how) (length (filter (wants how) (lines q)))"
    if how: "how \<noteq> DQ_FIRST" for how
  proof (cases "how = h")
    case True
    then show ?thesis using k [OF how] l by (cases "filter (wants h) (lines q)") (auto simp: ls'_def q1(3) take_first_filter)
  next
    case False
    have "filter (wants how) (lines q1) = filter (wants how) (lines q)"
      unfolding q1(3) using False how Cons.prems(2) by (intro take_first_others) (cases h; cases how; auto simp: wants_def wanted_def)
    with k [OF how] False show ?thesis by (auto simp: ls'_def split: option.split)
  qed
  with e r(2) show ?case by blast
qed simp

end

lemma iqueue_put:
  assumes "iqueue_valid q"
  shows "\<exists>q'. enqueue_line q s front binary = Some q' \<and> iqueue_valid q'
    \<and> input_lines q' = (if front then (input_kind s binary, s, int (length s)) # input_lines q
        else input_lines q @ [(input_kind s binary, s, int (length s))])"
proof -
  from assms obtain as where ok: "iqueue_ok q as" by (auto simp: iqueue_valid_def)
  from enqueue_node_ok [OF ok] obtain q' t where e: "enqueue_node q s front binary = Some (q', t)" "t \<notin> set as"
    "iqueue_ok q' (if front then t # as else as @ [t])" "entry_of q' = (entry_of q)(t \<mapsto> (input_kind s binary, s, int (length s)))"
    by blast
  have "map (the \<circ> entry_of q') as = map (the \<circ> entry_of q) as" using e(2,4) by auto
  with e show ?thesis
    using input_lines_ok [OF e(3)] by (auto simp: enqueue_line_def iqueue_valid_def input_lines_ok [OF ok])
qed

lemma iqueue_get:
  assumes "iqueue_valid q"
  shows "\<exists>q'. dequeue_line q how = Some (q', fst (take_first (wants how) (input_lines q))) \<and> iqueue_valid q'
    \<and> input_lines q' = snd (take_first (wants how) (input_lines q))"
proof -
  from assms obtain as where ok: "iqueue_ok q as" by (auto simp: iqueue_valid_def)
  note L = input_lines_ok [OF ok]
  have w: "wants how (the (entry_of q a)) = wanted how (oob_at q a)" if "a \<in> set as" for a
    using alive_heap [OF iqueue_okD(3) [OF ok that]] by (auto simp: wants_def)
  from dequeue_node_ok [OF ok, of how] consider
      (none) "\<forall>a\<in>set as. \<not> wanted how (oob_at q a)" "dequeue_node q how = Some (q, None)"
    | (some) r t bs q' where "as = r @ t # bs" "\<forall>a\<in>set r. \<not> wanted how (oob_at q a)" "wanted how (oob_at q t)"
        "dequeue_node q how = Some (q', Some t)" "iqueue_ok q' (r @ bs)" "entry_of q' = entry_of q"
    by blast
  then show ?thesis
  proof cases
    case none
    then have "take_first (wants how) (input_lines q) = (None, input_lines q)" using w L by (intro take_first_none) auto
    with none assms show ?thesis by (simp add: dequeue_line_def)
  next
    case some
    have t: "t \<notin> set (r @ bs)" using iqueue_okD(1) [OF ok] some(1) by simp
    note F = free_node_ok [OF some(5) t]
    have "alive q t" using iqueue_okD(3) [OF ok] some(1) by simp
    then obtain n where n: "in_heap q' t = Some n" "entry_of q t = Some (t_kind n, t_string n, t_length n)"
      using some(6) by (metis (no_types, lifting) alive_heap alive_def entry_of_def map_option_eq_Some)
    have "input_lines q = map (the \<circ> entry_of q) r @ (t_kind n, t_string n, t_length n) # map (the \<circ> entry_of q) bs" using L some(1) n(2) by simp
    moreover have "wants how (t_kind n, t_string n, t_length n)" using w [of t] some(1,3) n(2) by simp
    ultimately have "take_first (wants how) (input_lines q)
        = (Some (t_kind n, t_string n, t_length n), map (the \<circ> entry_of q) (r @ bs))"
      using w some(1,2) by (simp add: take_first_some)
    then show ?thesis using some(4,5,6) n(1) F input_lines_ok [OF some(5)] by (auto simp: dequeue_line_def iqueue_valid_def)
  qed
qed

interpretation iq: input_queue iqueue_valid input_lines enqueue_line dequeue_line
  by unfold_locales (rule iqueue_put iqueue_get; assumption)+

end
