(* ===== verification/Tasks.thy ===== *)
theory Tasks
  imports Vm InputQueue
begin

text \<open>
  The task queues (\<^verbatim>\<open>tasks.c\<close>): one queue for every connection and every owner of background tasks, the list of
  active queues in the order of their use of time, the idle queues, and the tasks that wait for their time.  The queue of input lines is the
  pointer structure of theory \<^verbatim>\<open>InputQueue\<close>; the other lists are lists.  Time and random numbers are streams that every
  reading advances.
\<close>

section \<open>State\<close>

record saved_vm =
  vm_task_id :: num
  vm_state :: vmstruct
  vm_root :: int

datatype bg_task =
    Forked_task (ft_id: num) (ft_program: program) (ft_a: activation) (ft_rt_env: "var list") (ft_f_index: int) (ft_start: int)
  | Suspended_task (st_vm: saved_vm) (st_start: int) (st_value: var)

record tqueue =
  tq_player :: objid
  tq_handler :: objid
  tq_connected :: bool
  tq_input :: iqueue
  tq_total_input_length :: int
  tq_last_input_task_id :: num
  tq_input_suspended :: bool
  tq_bg :: "bg_task list"
  tq_usage :: int
  tq_num_bg_tasks :: int
  tq_output_prefix :: "string option"
  tq_output_suffix :: "string option"
  tq_flush_cmd :: "string option"
  tq_program_stream :: "string option"
  tq_program_object :: objid
  tq_program_verb :: string
  tq_hold_input :: bool
  tq_disable_oob :: bool
  tq_reading :: "saved_vm option"
  tq_icmds :: int

text \<open>What the module asks of the network: lines to players, and whether input is taken from a connection.\<close>

datatype server_call = Notify objid string | Suspend_input objid | Resume_input objid

record tasks =
  tk_queues :: "nat \<Rightarrow> tqueue"
  tk_fresh :: nat
  active_tqueues :: "nat list"
  idle_tqueues :: "nat list"
  waiting_tasks :: "bg_task list"
  current_task_id :: num
  tk_clock :: "nat \<Rightarrow> int"
  tk_reads :: nat
  tk_ids :: "nat \<Rightarrow> num"
  tk_drawn :: nat
  tk_output :: "server_call list"

definition INPUT_HIWAT :: int where "INPUT_HIWAT = 65536"

definition INPUT_LOWAT :: int where "INPUT_LOWAT = INPUT_HIWAT div 2"

definition NO_USAGE :: int where "NO_USAGE = -1"

definition set_tq :: "nat \<Rightarrow> (tqueue \<Rightarrow> tqueue) \<Rightarrow> tasks \<Rightarrow> tasks" where
  "set_tq i f s = s\<lparr>tk_queues := (tk_queues s)(i := f (tk_queues s i))\<rparr>"

definition emit :: "server_call list \<Rightarrow> tasks \<Rightarrow> tasks" where
  "emit os s = s\<lparr>tk_output := tk_output s @ os\<rparr>"

definition time0 :: "tasks \<Rightarrow> int \<times> tasks" where
  "time0 s = (tk_clock s (tk_reads s), s\<lparr>tk_reads := Suc (tk_reads s)\<rparr>)"

text \<open>\<open>tk_ids\<close> is the stream of the random numbers other than zero.\<close>

definition new_task_id :: "tasks \<Rightarrow> num \<times> tasks" where
  "new_task_id s = (tk_ids s (tk_drawn s), s\<lparr>tk_drawn := Suc (tk_drawn s)\<rparr>)"

definition top_activ :: "saved_vm \<Rightarrow> activation" where
  "top_activ v = activ_stack (vm_state v) ! top_activ_stack (vm_state v)"

definition progr_of_cur_verb :: "saved_vm \<Rightarrow> objid" where
  "progr_of_cur_verb v = a_progr (top_activ v)"

definition GET_START_TIME :: "bg_task \<Rightarrow> int" where
  "GET_START_TIME t = (case t of Forked_task _ _ _ _ _ n \<Rightarrow> n | Suspended_task _ n _ \<Rightarrow> n)"

definition task_progr :: "bg_task \<Rightarrow> objid" where
  "task_progr t = (case t of Forked_task _ _ a _ _ _ \<Rightarrow> a_progr a | Suspended_task v _ _ \<Rightarrow> progr_of_cur_verb v)"

definition task_ident :: "bg_task \<Rightarrow> num" where
  "task_ident t = (case t of Forked_task i _ _ _ _ _ \<Rightarrow> i | Suspended_task v _ _ \<Rightarrow> vm_task_id v)"

section \<open>Intrinsic commands\<close>

definition ICMD_SUFFIX :: int where "ICMD_SUFFIX = 1"
definition ICMD_OUTPUTSUFFIX :: int where "ICMD_OUTPUTSUFFIX = 2"
definition ICMD_OUTPUTPREFIX :: int where "ICMD_OUTPUTPREFIX = 3"
definition ICMD_PREFIX :: int where "ICMD_PREFIX = 4"
definition ICMD_PROGRAM :: int where "ICMD_PROGRAM = 5"

lemmas icmd_defs = ICMD_SUFFIX_def ICMD_OUTPUTSUFFIX_def ICMD_OUTPUTPREFIX_def ICMD_PREFIX_def ICMD_PROGRAM_def

definition icmd_bit :: "int \<Rightarrow> int" where "icmd_bit i = push_bit (nat i) 1"

definition ICMD_ALL_CMDS :: int where "ICMD_ALL_CMDS = icmd_bit (ICMD_PROGRAM + 1) - 2"

text \<open>The table of the commands: number, name and test.\<close>

definition icmd_table :: "(int \<times> string \<times> (string \<Rightarrow> bool)) list" where
  "icmd_table =
     [(ICMD_PROGRAM, ''.program'', verbcasecmp False ''.pr*ogram''),
      (ICMD_PREFIX, ''PREFIX'', (=) ''PREFIX''), (ICMD_SUFFIX, ''SUFFIX'', (=) ''SUFFIX''),
      (ICMD_OUTPUTPREFIX, ''OUTPUTPREFIX'', (=) ''OUTPUTPREFIX''), (ICMD_OUTPUTSUFFIX, ''OUTPUTSUFFIX'', (=) ''OUTPUTSUFFIX'')]"

definition icmd_hash :: "string \<Rightarrow> int" where
  "icmd_hash verb =
     (let c2 = (if 2 < length verb then of_char (verb ! 2) else 0 :: int);
          c8 = (if 8 < length verb then of_char (verb ! 8) else 0 :: int)
      in ((c2 AND 7) XOR 6) + of_bool (c8 AND 2 = 0))"

definition icmd_index :: "string \<Rightarrow> int" where
  "icmd_index verb =
     (case find (\<lambda>(i, _, matches). i = icmd_hash verb) icmd_table of
        Some (i, _, matches) \<Rightarrow> if matches verb then i else 0
      | None \<Rightarrow> 0)"

definition icmd_list :: "int \<Rightarrow> var" where
  "icmd_list flags = TYPE_LIST (map (\<lambda>(_, name, _). TYPE_STR name) (filter (\<lambda>(i, _). flags AND icmd_bit i \<noteq> 0) icmd_table))"

fun icmd_flags :: "int \<Rightarrow> var list \<Rightarrow> int option" where
  "icmd_flags flags [] = Some flags"
| "icmd_flags flags (TYPE_STR s # vs) =
     (let icmd = icmd_index s in if icmd = 0 then None else icmd_flags (flags OR icmd_bit icmd) vs)"
| "icmd_flags flags (_ # vs) = None"

definition icmd_set_flags :: "tqueue \<Rightarrow> var \<Rightarrow> tqueue option" where
  "icmd_set_flags tq v =
     map_option (\<lambda>flags. tq\<lparr>tq_icmds := flags\<rparr>)
       (case v of
          TYPE_INT n \<Rightarrow> Some (if is_true v then ICMD_ALL_CMDS else 0)
        | TYPE_LIST vs \<Rightarrow> icmd_flags 0 vs
        | _ \<Rightarrow> None)"

section \<open>The lists of queues\<close>

definition deactivate_tqueue :: "nat \<Rightarrow> tasks \<Rightarrow> tasks" where
  "deactivate_tqueue i s = (set_tq i (\<lambda>tq. tq\<lparr>tq_usage := NO_USAGE\<rparr>) s)\<lparr>idle_tqueues := i # idle_tqueues s\<rparr>"

fun insert_tqueue :: "(nat \<Rightarrow> tqueue) \<Rightarrow> nat \<Rightarrow> nat list \<Rightarrow> nat list" where
  "insert_tqueue qs i [] = [i]"
| "insert_tqueue qs i (j # js) = (if tq_usage (qs j) \<le> tq_usage (qs i) then j # insert_tqueue qs i js else i # j # js)"

definition activate_tqueue :: "nat \<Rightarrow> tasks \<Rightarrow> tasks" where
  "activate_tqueue i s = s\<lparr>active_tqueues := insert_tqueue (tk_queues s) i (active_tqueues s)\<rparr>"

text \<open>A queue that is not in use is unlinked from the idle queues; if it is not there the pointer is null.\<close>

definition ensure_usage :: "nat \<Rightarrow> tasks \<Rightarrow> tasks option" where
  "ensure_usage i s =
     (if tq_usage (tk_queues s i) = NO_USAGE
      then if i \<in> set (idle_tqueues s)
           then let u = (case active_tqueues s of [] \<Rightarrow> 0 | j # _ \<Rightarrow> tq_usage (tk_queues s j))
                in Some (activate_tqueue i ((set_tq i (\<lambda>tq. tq\<lparr>tq_usage := u\<rparr>) s)\<lparr>idle_tqueues := remove1 i (idle_tqueues s)\<rparr>))
           else None
      else Some s)"

text \<open>\<open>opt\<close> is the server option, if there is one.\<close>

definition default_flush_command :: "var option \<Rightarrow> string option" where
  "default_flush_command opt =
     (let str = (case opt of None \<Rightarrow> Some ''.flush'' | Some (TYPE_STR s) \<Rightarrow> Some s | Some _ \<Rightarrow> None)
      in case str of Some s \<Rightarrow> (if s = [] then None else Some s) | None \<Rightarrow> None)"

definition new_tqueue :: "objid \<Rightarrow> tqueue" where
  "new_tqueue player =
     \<lparr>tq_player = player, tq_handler = 0, tq_connected = False, tq_input = empty_iqueue, tq_total_input_length = 0,
      tq_last_input_task_id = 0, tq_input_suspended = False, tq_bg = [], tq_usage = NO_USAGE, tq_num_bg_tasks = 0,
      tq_output_prefix = None, tq_output_suffix = None, tq_flush_cmd = None, tq_program_stream = None, tq_program_object = 0,
      tq_program_verb = [], tq_hold_input = False, tq_disable_oob = False, tq_reading = None, tq_icmds = ICMD_ALL_CMDS\<rparr>"

definition lookup_tqueue :: "objid \<Rightarrow> tasks \<Rightarrow> nat option" where
  "lookup_tqueue player s = find (\<lambda>i. tq_player (tk_queues s i) = player) (active_tqueues s @ idle_tqueues s)"

definition find_tqueue :: "objid \<Rightarrow> tasks \<Rightarrow> nat \<times> tasks" where
  "find_tqueue player s =
     (case lookup_tqueue player s of
        Some i \<Rightarrow> (i, s)
      | None \<Rightarrow> (tk_fresh s, deactivate_tqueue (tk_fresh s) (set_tq (tk_fresh s) (\<lambda>_. new_tqueue player) s\<lparr>tk_fresh := Suc (tk_fresh s)\<rparr>)))"

definition free_tqueue :: "nat \<Rightarrow> tasks \<Rightarrow> tasks" where
  "free_tqueue i s = s\<lparr>idle_tqueues := remove1 i (idle_tqueues s)\<rparr>"

section \<open>Background tasks of a queue\<close>

definition enqueue_bg_task :: "nat \<Rightarrow> bg_task \<Rightarrow> tasks \<Rightarrow> tasks" where
  "enqueue_bg_task i t s = set_tq i (\<lambda>tq. tq\<lparr>tq_bg := tq_bg tq @ [t]\<rparr>) s"

definition dequeue_bg_task :: "tqueue \<Rightarrow> tqueue \<times> bg_task option" where
  "dequeue_bg_task tq =
     (case tq_bg tq of
        [] \<Rightarrow> (tq, None)
      | t # ts \<Rightarrow> (tq\<lparr>tq_bg := ts, tq_num_bg_tasks := tq_num_bg_tasks tq - 1\<rparr>, Some t))"

section \<open>Input\<close>

definition first_line :: "tqueue \<Rightarrow> bool" where "first_line tq \<longleftrightarrow> first_input (tq_input tq) \<noteq> None"

definition dequeue_input_task :: "tqueue \<Rightarrow> dequeue_how \<Rightarrow> (tqueue \<times> (task_kind \<times> string) option \<times> server_call list) option" where
  "dequeue_input_task tq how =
     (if tq_disable_oob tq \<and> how = DQ_OOB then Some (tq, None, [])
      else do {
        (q, l) \<leftarrow> dequeue_line (tq_input tq) (if tq_disable_oob tq then DQ_FIRST else how);
        let tq = tq\<lparr>tq_input := q\<rparr>;
        (case l of
           None \<Rightarrow> Some (tq, None, [])
         | Some (kind, str, len) \<Rightarrow>
             let tq = tq\<lparr>tq_total_input_length := tq_total_input_length tq - len\<rparr>;
                 res = tq_input_suspended tq \<and> tq_connected tq \<and> tq_total_input_length tq < INPUT_LOWAT;
                 tq = (if res then tq\<lparr>tq_input_suspended := False\<rparr> else tq);
                 task = (if kind = TASK_OOB then (if tq_disable_oob tq then TASK_INBAND else TASK_OOB, str)
                         else if kind = TASK_QUOTED
                         then (TASK_INBAND, if tq_disable_oob tq then str else drop (length OUT_OF_BAND_QUOTE_PREFIX) str)
                         else (kind, str))
             in Some (tq, Some task, if res then [Resume_input (tq_player tq)] else [])) })"

definition is_out_of_input :: "tqueue \<Rightarrow> bool" where
  "is_out_of_input tq \<longleftrightarrow> \<not> tq_connected tq \<and> \<not> first_line tq"

definition suspend_if :: "bool \<Rightarrow> nat \<Rightarrow> tasks \<Rightarrow> tasks" where
  "suspend_if b i s =
     (let tq = tk_queues s i
      in if \<not> tq_input_suspended tq \<and> tq_connected tq \<and> b
         then emit [Suspend_input (tq_player tq)] (set_tq i (\<lambda>tq. tq\<lparr>tq_input_suspended := True\<rparr>) s) else s)"

definition enqueue_input_task :: "nat \<Rightarrow> string \<Rightarrow> bool \<Rightarrow> bool \<Rightarrow> tasks \<Rightarrow> tasks option" where
  "enqueue_input_task i input at_front binary s =
     do { let tq = tk_queues s i;
          q \<leftarrow> enqueue_line (tq_input tq) input at_front binary;
          let s = set_tq i (\<lambda>tq. tq\<lparr>tq_input := q, tq_total_input_length := tq_total_input_length tq + int (length input)\<rparr>) s;
          s \<leftarrow> (if \<not> tq_hold_input tq \<or> tq_reading tq \<noteq> None \<or> \<not> tq_disable_oob tq \<and> input_kind input binary = TASK_OOB
               then ensure_usage i s else Some s);
          Some (suspend_if (tq_total_input_length (tk_queues s i) > INPUT_HIWAT) i s) }"

definition task_suspend_input :: "nat \<Rightarrow> tasks \<Rightarrow> tasks" where
  "task_suspend_input i s = suspend_if True i s"

partial_function (option) flush_lines :: "bool \<Rightarrow> nat \<Rightarrow> tasks \<Rightarrow> tasks option" where
  "flush_lines show_messages i s =
     do { (tq, t, out) \<leftarrow> dequeue_input_task (tk_queues s i) DQ_FIRST;
          let s = emit out (set_tq i (\<lambda>_. tq) s);
          (case t of
             None \<Rightarrow> Some s
           | Some (kind, str) \<Rightarrow>
               flush_lines show_messages i (if show_messages then emit [Notify (tq_player tq) (''>>     '' @ str)] s else s)) }"

definition flush_input :: "bool \<Rightarrow> nat \<Rightarrow> tasks \<Rightarrow> tasks option" where
  "flush_input show_messages i s =
     (let say = (\<lambda>m s. if show_messages then emit [Notify (tq_player (tk_queues s i)) m] s else s)
      in if first_line (tk_queues s i)
         then map_option (say ''>> (Done flushing)'') (flush_lines show_messages i (say ''>> Flushing the following pending input:'' s))
         else Some (say ''>> No pending input to flush...'' s))"

definition new_input_task :: "nat \<Rightarrow> string \<Rightarrow> bool \<Rightarrow> tasks \<Rightarrow> tasks option" where
  "new_input_task i input binary s =
     (case tq_flush_cmd (tk_queues s i) of
        Some c \<Rightarrow> if mystrcasecmp input c = 0 then flush_input True i s else enqueue_input_task i input False binary s
      | None \<Rightarrow> enqueue_input_task i input False binary s)"

definition new_task_queue :: "var option \<Rightarrow> objid \<Rightarrow> objid \<Rightarrow> tasks \<Rightarrow> nat \<times> tasks" where
  "new_task_queue flush_option player handler s =
     (case find_tqueue player s of (i, s) \<Rightarrow>
        (i, set_tq i (\<lambda>tq. tq\<lparr>tq_connected := True, tq_handler := handler, tq_flush_cmd := default_flush_command flush_option\<rparr>) s))"

definition free_task_queue :: "nat \<Rightarrow> tasks \<Rightarrow> tasks option" where
  "free_task_queue i s =
     (let s = set_tq i (\<lambda>tq. tq\<lparr>tq_connected := False\<rparr>) s
      in if tq_reading (tk_queues s i) \<noteq> None then ensure_usage i s else Some s)"

section \<open>Connection options\<close>

text \<open>Whether a line that is out of band is waiting: the first one, or the one after the first run.\<close>

definition oob_waiting :: "iqueue \<Rightarrow> bool option" where
  "oob_waiting q =
     (case first_input q of
        None \<Rightarrow> Some False
      | Some f \<Rightarrow> do { l \<leftarrow> first_itail q; x \<leftarrow> get_next q (Field l); n \<leftarrow> in_heap q f;
                       Some (x \<noteq> None \<or> t_kind n = TASK_OOB) })"

text \<open>The second component is what the function returns; the state is as it was if an option cannot be set.\<close>

definition tasks_set_connection_option :: "nat \<Rightarrow> string \<Rightarrow> var \<Rightarrow> tasks \<Rightarrow> (tasks \<times> bool) option" where
  "tasks_set_connection_option i option v s =
     (if mystrcasecmp option ''flush-command'' = 0
      then Some (set_tq i (\<lambda>tq. tq\<lparr>tq_flush_cmd := (case v of TYPE_STR c \<Rightarrow> (if c = [] then None else Some c) | _ \<Rightarrow> None)\<rparr>) s, True)
      else if mystrcasecmp option ''hold-input'' = 0
      then let s = set_tq i (\<lambda>tq. tq\<lparr>tq_hold_input := is_true v\<rparr>) s
           in map_option (\<lambda>s. (s, True)) (if \<not> is_true v \<and> first_line (tk_queues s i) then ensure_usage i s else Some s)
      else if mystrcasecmp option ''disable-oob'' = 0
      then let s = set_tq i (\<lambda>tq. tq\<lparr>tq_disable_oob := is_true v\<rparr>) s
           in if is_true v then Some (s, True)
              else do { w \<leftarrow> oob_waiting (tq_input (tk_queues s i));
                        map_option (\<lambda>s. (s, True)) (if w then ensure_usage i s else Some s) }
      else if mystrcasecmp option ''intrinsic-commands'' = 0
      then Some (case icmd_set_flags (tk_queues s i) v of None \<Rightarrow> (s, False) | Some tq \<Rightarrow> (set_tq i (\<lambda>_. tq) s, True))
      else Some (s, False))"

definition tasks_connection_option :: "nat \<Rightarrow> string \<Rightarrow> tasks \<Rightarrow> var option" where
  "tasks_connection_option i option s =
     (let tq = tk_queues s i
      in if mystrcasecmp option ''flush-command'' = 0 then Some (TYPE_STR (case tq_flush_cmd tq of Some c \<Rightarrow> c | None \<Rightarrow> []))
         else if mystrcasecmp option ''hold-input'' = 0 then Some (TYPE_INT (of_bool (tq_hold_input tq)))
         else if mystrcasecmp option ''disable-oob'' = 0 then Some (TYPE_INT (of_bool (tq_disable_oob tq)))
         else if mystrcasecmp option ''intrinsic-commands'' = 0 then Some (icmd_list (tq_icmds tq))
         else None)"

definition tasks_connection_options :: "nat \<Rightarrow> tasks \<Rightarrow> var list \<Rightarrow> var list" where
  "tasks_connection_options i s list =
     list @ List.map_filter (\<lambda>n. map_option (\<lambda>v. TYPE_LIST [TYPE_STR n, v]) (tasks_connection_option i n s))
       [''flush-command'', ''hold-input'', ''disable-oob'', ''intrinsic-commands'']"

section \<open>Background tasks\<close>

fun insert_waiting :: "bg_task \<Rightarrow> bg_task list \<Rightarrow> bg_task list" where
  "insert_waiting t [] = [t]"
| "insert_waiting t (u # us) = (if GET_START_TIME t < GET_START_TIME u then t # u # us else u # insert_waiting t us)"

definition enqueue_waiting :: "bg_task \<Rightarrow> tasks \<Rightarrow> tasks" where
  "enqueue_waiting t s =
     (case find_tqueue (task_progr t) s of (i, s) \<Rightarrow>
        (set_tq i (\<lambda>tq. tq\<lparr>tq_num_bg_tasks := tq_num_bg_tasks tq + 1\<rparr>) s)\<lparr>waiting_tasks := insert_waiting t (waiting_tasks s)\<rparr>)"

definition enqueue_ft :: "program \<Rightarrow> activation \<Rightarrow> var list \<Rightarrow> int \<Rightarrow> int \<Rightarrow> num \<Rightarrow> tasks \<Rightarrow> tasks" where
  "enqueue_ft prog a rt_env f_index start_time ident s =
     enqueue_waiting (Forked_task ident prog (a\<lparr>a_rt_env := rt_env, a_prog := prog, a_rt_stack := []\<rparr>) rt_env f_index start_time) s"

text \<open>\<open>limit_option\<close> is the value of the server option \<^verbatim>\<open>queued_task_limit\<close>, -1 by default.\<close>

definition check_user_task_limit :: "int \<Rightarrow> db \<Rightarrow> objid \<Rightarrow> tasks \<Rightarrow> bool option" where
  "check_user_task_limit limit_option db user s =
     do { own \<leftarrow> (if valid db user
                  then do { (h, v) \<leftarrow> db_find_property True db user ''queued_task_limit'';
                            Some (case (h, v) of (No_prop, _) \<Rightarrow> -1 | (_, Some (TYPE_INT n)) \<Rightarrow> signed_take_bit 31 n | _ \<Rightarrow> -1) }
                  else Some (-1));
          let limit = (if own < 0 then limit_option else own);
          let queued = (case lookup_tqueue user s of Some i \<Rightarrow> tq_num_bg_tasks (tk_queues s i) | None \<Rightarrow> 0);
          Some (limit < 0 \<or> queued < limit) }"

text \<open>The number of the task is the second component, or nothing if the limit is reached.\<close>

definition enqueue_forked_task2 :: "int \<Rightarrow> activation \<Rightarrow> nat \<Rightarrow> num \<Rightarrow> nat option \<Rightarrow> db \<Rightarrow> tasks \<Rightarrow> (tasks \<times> num option) option" where
  "enqueue_forked_task2 limit_option a f_index after_seconds vid db s =
     do { ok \<leftarrow> check_user_task_limit limit_option db (a_progr a) s;
          if \<not> ok then Some (s, None)
          else do {
            let (n, s) = new_task_id s;
            a \<leftarrow> (case vid of None \<Rightarrow> Some a | Some i \<Rightarrow> set_env i (TYPE_INT n) a);
            let (now, s) = time0 s;
            Some (enqueue_ft (a_prog a) a (a_rt_env a) (int f_index) (now + after_seconds) n s, Some n) } }"

definition INT32_MAX :: int where "INT32_MAX = 2 ^ 31 - 1"

definition enqueue_suspended :: "int \<Rightarrow> saved_vm \<Rightarrow> int \<Rightarrow> db \<Rightarrow> tasks \<Rightarrow> (tasks \<times> error) option" where
  "enqueue_suspended limit_option the_vm after_seconds db s =
     do { let (t, s) = time0 s;
          let now = signed_take_bit 31 t;
          ok \<leftarrow> check_user_task_limit limit_option db (progr_of_cur_verb the_vm) s;
          let soon = signed_take_bit 31 (now + after_seconds);
          if ok then Some (enqueue_waiting (Suspended_task the_vm (if soon < now then INT32_MAX else soon) zero_var) s, E_NONE)
          else Some (s, E_QUOTA) }"

definition resume_task :: "saved_vm \<Rightarrow> var \<Rightarrow> tasks \<Rightarrow> tasks option" where
  "resume_task the_vm v s =
     (case find_tqueue (progr_of_cur_verb the_vm) s of (i, s) \<Rightarrow> ensure_usage i (enqueue_bg_task i (Suspended_task the_vm 0 v) s))"

section \<open>Reading\<close>

definition read_input_now :: "objid \<Rightarrow> tasks \<Rightarrow> (tasks \<times> var) option" where
  "read_input_now connection s =
     (case lookup_tqueue connection s of
        None \<Rightarrow> Some (s, TYPE_ERR E_INVARG)
      | Some i \<Rightarrow>
          if is_out_of_input (tk_queues s i) then Some (s, TYPE_ERR E_INVARG)
          else do { (tq, t, out) \<leftarrow> dequeue_input_task (tk_queues s i) DQ_INBAND;
                    Some (emit out (set_tq i (\<lambda>_. tq) s), case t of None \<Rightarrow> TYPE_INT 0 | Some (_, str) \<Rightarrow> TYPE_STR str) })"

definition start_reading :: "saved_vm \<Rightarrow> objid \<Rightarrow> tasks \<Rightarrow> (tasks \<times> error) option" where
  "start_reading the_vm player s =
     (case lookup_tqueue player s of
        None \<Rightarrow> Some (s, E_INVARG)
      | Some i \<Rightarrow>
          if tq_reading (tk_queues s i) \<noteq> None \<or> is_out_of_input (tk_queues s i) then Some (s, E_INVARG)
          else let s = set_tq i (\<lambda>tq. tq\<lparr>tq_reading := Some the_vm\<rparr>) s
               in map_option (\<lambda>s. (s, E_NONE)) (if first_line (tk_queues s i) then ensure_usage i s else Some s))"

definition last_input_task_id :: "objid \<Rightarrow> tasks \<Rightarrow> num" where
  "last_input_task_id player s = (case lookup_tqueue player s of Some i \<Rightarrow> tq_last_input_task_id (tk_queues s i) | None \<Rightarrow> 0)"

section \<open>The next task\<close>

definition next_task_start :: "tasks \<Rightarrow> int \<times> tasks" where
  "next_task_start s =
     (if list_ex (\<lambda>i. first_line (tk_queues s i) \<or> tq_bg (tk_queues s i) \<noteq> []) (active_tqueues s) then (0, s)
      else case waiting_tasks s of
             [] \<Rightarrow> (-1, s)
           | t # _ \<Rightarrow> (case time0 s of (now, s) \<Rightarrow> let wait = signed_take_bit 31 (GET_START_TIME t - now) in (if 0 \<le> wait then wait else 0, s)))"

text \<open>The tasks whose time has come go to the queues of their owners.\<close>

fun release_waiting :: "int \<Rightarrow> bg_task list \<Rightarrow> tasks \<Rightarrow> tasks option" where
  "release_waiting now [] s = Some (s\<lparr>waiting_tasks := []\<rparr>)"
| "release_waiting now (t # ts) s =
     (if GET_START_TIME t \<le> now
      then case find_tqueue (task_progr t) s of (i, s) \<Rightarrow>
             do { s \<leftarrow> ensure_usage i s; release_waiting now ts (enqueue_bg_task i t s) }
      else Some (s\<lparr>waiting_tasks := t # ts\<rparr>))"

definition free_idle :: "tasks \<Rightarrow> tasks" where
  "free_idle s =
     fold (\<lambda>i s. let tq = tk_queues s i
                 in if \<not> tq_connected tq \<and> \<not> first_line tq \<and> tq_num_bg_tasks tq = 0 then free_tqueue i s else s)
       (idle_tqueues s) s"

section \<open>Killing and resuming\<close>

definition task_id_from_num :: "num \<Rightarrow> num" where
  "task_id_from_num n = (if n < 0 \<or> n > INT32_MAX then 0 else n)"

definition may_touch :: "db \<Rightarrow> objid \<Rightarrow> objid \<Rightarrow> bool" where
  "may_touch db who owner \<longleftrightarrow> is_wizard db who \<or> who = owner"

text \<open>The queue whose reading task has the number, idle queues first, or whose background task has it.\<close>

definition reading_is :: "num \<Rightarrow> tqueue \<Rightarrow> bool" where
  "reading_is n tq \<longleftrightarrow> (case tq_reading tq of Some v \<Rightarrow> vm_task_id v = n | None \<Rightarrow> False)"

definition drop_waiting :: "num \<Rightarrow> bg_task list \<Rightarrow> bg_task list" where
  "drop_waiting n ts = takeWhile (\<lambda>t. task_ident t \<noteq> n) ts @ tl (dropWhile (\<lambda>t. task_ident t \<noteq> n) ts)"

definition kill_task :: "num \<Rightarrow> objid \<Rightarrow> db \<Rightarrow> tasks \<Rightarrow> tasks \<times> error" where
  "kill_task n owner db s =
     (if n = current_task_id s then (s, E_NONE)
      else case find (\<lambda>t. task_ident t = n) (waiting_tasks s) of
        Some t \<Rightarrow>
          if \<not> may_touch db owner (task_progr t) then (s, E_PERM)
          else ((case lookup_tqueue (task_progr t) s of
                   Some i \<Rightarrow> set_tq i (\<lambda>tq. tq\<lparr>tq_num_bg_tasks := tq_num_bg_tasks tq - 1\<rparr>) s
                 | None \<Rightarrow> s)\<lparr>waiting_tasks := drop_waiting n (waiting_tasks s)\<rparr>, E_NONE)
      | None \<Rightarrow>
        (case find (\<lambda>i. reading_is n (tk_queues s i)) (idle_tqueues s) of
           Some i \<Rightarrow>
             if \<not> may_touch db owner (tq_player (tk_queues s i)) then (s, E_PERM)
             else (set_tq i (\<lambda>tq. tq\<lparr>tq_reading := None\<rparr>) s, E_NONE)
         | None \<Rightarrow>
           (case find (\<lambda>i. reading_is n (tk_queues s i) \<or> list_ex (\<lambda>t. task_ident t = n) (tq_bg (tk_queues s i))) (active_tqueues s) of
              Some i \<Rightarrow>
                if \<not> may_touch db owner (tq_player (tk_queues s i)) then (s, E_PERM)
                else (set_tq i (\<lambda>tq. if reading_is n tq then tq\<lparr>tq_reading := None\<rparr>
                                    else tq\<lparr>tq_bg := drop_waiting n (tq_bg tq), tq_num_bg_tasks := tq_num_bg_tasks tq - 1\<rparr>) s, E_NONE)
            | None \<Rightarrow> (s, E_INVARG))))"

definition bf_kill_task :: "db \<Rightarrow> num \<Rightarrow> objid \<Rightarrow> tasks \<Rightarrow> tasks \<times> package" where
  "bf_kill_task db num progr s =
     (let n = task_id_from_num num
      in case kill_task n progr db s of (s, e) \<Rightarrow>
           (s, if e \<noteq> E_NONE then make_error_pack e
               else if n = current_task_id s then make_abort_pack ABORT_KILL else no_var_pack))"

definition is_suspended :: "num \<Rightarrow> bg_task \<Rightarrow> bool" where
  "is_suspended n t \<longleftrightarrow> (case t of Suspended_task v _ _ \<Rightarrow> vm_task_id v = n | Forked_task _ _ _ _ _ _ \<Rightarrow> False)"

definition drop_suspended :: "num \<Rightarrow> bg_task list \<Rightarrow> bg_task list" where
  "drop_suspended n ts = takeWhile (Not \<circ> is_suspended n) ts @ tl (dropWhile (Not \<circ> is_suspended n) ts)"

fun give_value :: "num \<Rightarrow> var \<Rightarrow> bg_task list \<Rightarrow> bg_task list" where
  "give_value n v [] = []"
| "give_value n v (t # ts) =
     (if is_suspended n t then (case t of Suspended_task m start _ \<Rightarrow> Suspended_task m start v | u \<Rightarrow> u) # ts else t # give_value n v ts)"

definition do_resume :: "num \<Rightarrow> var \<Rightarrow> objid \<Rightarrow> db \<Rightarrow> tasks \<Rightarrow> (tasks \<times> error) option" where
  "do_resume n v progr db s =
     (case find (is_suspended n) (waiting_tasks s) of
        Some t \<Rightarrow>
          if \<not> may_touch db progr (task_progr t) then Some (s, E_PERM)
          else do { let (now, s) = time0 s;
                    let (i, s) = find_tqueue (task_progr t) s;
                    s \<leftarrow> ensure_usage i (s\<lparr>waiting_tasks := drop_suspended n (waiting_tasks s)\<rparr>);
                    Some (enqueue_bg_task i (Suspended_task (st_vm t) now v) s, E_NONE) }
      | None \<Rightarrow>
        (case find (\<lambda>i. list_ex (is_suspended n) (tq_bg (tk_queues s i))) (active_tqueues s) of
           Some i \<Rightarrow>
             if \<not> may_touch db progr (tq_player (tk_queues s i)) then Some (s, E_PERM)
             else Some (set_tq i (\<lambda>tq. tq\<lparr>tq_bg := give_value n v (tq_bg tq)\<rparr>) s, E_NONE)
         | None \<Rightarrow> Some (s, E_INVARG)))"

definition bf_resume :: "db \<Rightarrow> num \<Rightarrow> var option \<Rightarrow> objid \<Rightarrow> tasks \<Rightarrow> (tasks \<times> package) option" where
  "bf_resume db n v progr s =
     do { (s, e) \<leftarrow> do_resume (task_id_from_num n) (case v of Some v \<Rightarrow> v | None \<Rightarrow> zero_var) progr db s;
          Some (s, if e \<noteq> E_NONE then make_error_pack e else no_var_pack) }"

definition find_suspended_task :: "num \<Rightarrow> tasks \<Rightarrow> saved_vm option" where
  "find_suspended_task n s =
     (case find (is_suspended n) (waiting_tasks s) of
        Some t \<Rightarrow> Some (st_vm t)
      | None \<Rightarrow>
        (case find (\<lambda>i. reading_is n (tk_queues s i)) (idle_tqueues s) of
           Some i \<Rightarrow> tq_reading (tk_queues s i)
         | None \<Rightarrow>
           (case find (\<lambda>i. reading_is n (tk_queues s i) \<or> list_ex (is_suspended n) (tq_bg (tk_queues s i))) (active_tqueues s) of
              Some i \<Rightarrow> if reading_is n (tk_queues s i) then tq_reading (tk_queues s i)
                        else map_option st_vm (find (is_suspended n) (tq_bg (tk_queues s i)))
            | None \<Rightarrow> None)))"

section \<open>Built-in functions\<close>

definition bf_queue_info :: "objid option \<Rightarrow> tasks \<Rightarrow> package" where
  "bf_queue_info who s =
     make_var_pack
       (case who of
          None \<Rightarrow> TYPE_LIST (rev (map (\<lambda>i. TYPE_OBJ (tq_player (tk_queues s i))) (active_tqueues s @ idle_tqueues s)))
        | Some w \<Rightarrow> TYPE_INT (case lookup_tqueue w s of Some i \<Rightarrow> tq_num_bg_tasks (tk_queues s i) | None \<Rightarrow> 0))"

definition bf_task_id :: "tasks \<Rightarrow> package" where
  "bf_task_id s = make_var_pack (TYPE_INT (current_task_id s))"

definition bf_output_delimiters :: "db \<Rightarrow> objid \<Rightarrow> objid \<Rightarrow> tasks \<Rightarrow> package" where
  "bf_output_delimiters db player progr s =
     (if \<not> may_touch db progr player then make_error_pack E_PERM
      else case lookup_tqueue player s of
        None \<Rightarrow> make_error_pack E_INVARG
      | Some i \<Rightarrow>
          let tq = tk_queues s i; str = (\<lambda>d. TYPE_STR (case d of Some x \<Rightarrow> x | None \<Rightarrow> []))
          in if \<not> tq_connected tq then make_error_pack E_INVARG
             else make_var_pack (TYPE_LIST [str (tq_output_prefix tq), str (tq_output_suffix tq)]))"

definition bf_force_input :: "db \<Rightarrow> objid \<Rightarrow> string \<Rightarrow> bool \<Rightarrow> objid \<Rightarrow> tasks \<Rightarrow> (tasks \<times> package) option" where
  "bf_force_input db conn line at_front progr s =
     (if \<not> may_touch db progr conn then Some (s, make_error_pack E_PERM)
      else case find_tqueue conn s of (i, s) \<Rightarrow>
             do { s \<leftarrow> enqueue_input_task i line at_front False s; Some (s, no_var_pack) })"

definition bf_flush_input :: "db \<Rightarrow> objid \<Rightarrow> bool \<Rightarrow> objid \<Rightarrow> tasks \<Rightarrow> (tasks \<times> package) option" where
  "bf_flush_input db conn show_messages progr s =
     (if \<not> may_touch db progr conn then Some (s, make_error_pack E_PERM)
      else case find_tqueue conn s of (i, s) \<Rightarrow>
             do { s \<leftarrow> flush_input show_messages i s; Some (s, no_var_pack) })"

end
