(* ===== verification/Scheduler.thy ===== *)
theory Scheduler
  imports Tasks BfVerbs
begin

text \<open>
  What the scheduler runs (\<^verbatim>\<open>tasks.c\<close>): commands, logins, out-of-band commands and background tasks, each on the
  interpreter with the task queues as its surroundings, and the list of the queued tasks.  The parser, the connections of the server
  and the timers are parameters.
\<close>

section \<open>Surroundings\<close>

text \<open>
  \<open>sr_timer n k\<close> is the timer of the \<open>k\<close>-th run of the interpreter after the task number \<open>n\<close> was drawn;
  \<open>sr_connected\<close> is \<^verbatim>\<open>player_connected\<close> of \<^verbatim>\<open>server.c\<close>; \<open>sr_parse\<close> is the parser and its messages.
\<close>

record surroundings =
  sr_services :: "tasks services"
  sr_timer :: "nat \<Rightarrow> nat \<Rightarrow> nat \<Rightarrow> bool"
  sr_parse :: "string \<Rightarrow> program option \<times> string list"
  sr_connected :: "objid \<Rightarrow> objid \<Rightarrow> bool \<Rightarrow> tasks interp \<Rightarrow> tasks interp option"
  sr_protect_set_verb_code :: bool
  sr_numeric_names :: bool

abbreviation queue :: "tasks interp \<Rightarrow> nat \<Rightarrow> tqueue" where "queue s i \<equiv> tk_queues (in_tasks s) i"

abbreviation in_db :: "tasks interp \<Rightarrow> db" where "in_db s \<equiv> moo_db (in_moo s)"

definition on_tasks :: "(tasks \<Rightarrow> tasks) \<Rightarrow> tasks interp \<Rightarrow> tasks interp" where
  "on_tasks f s = s\<lparr>in_tasks := f (in_tasks s)\<rparr>"

definition with_db :: "db \<Rightarrow> tasks interp \<Rightarrow> tasks interp" where
  "with_db db s = s\<lparr>in_moo := (in_moo s)\<lparr>moo_db := db\<rparr>\<rparr>"

definition notify :: "objid \<Rightarrow> string \<Rightarrow> tasks interp \<Rightarrow> tasks interp" where
  "notify player line s = on_tasks (emit [Notify player line]) s"

definition timer :: "surroundings \<Rightarrow> nat \<Rightarrow> tasks interp \<Rightarrow> nat \<Rightarrow> bool" where
  "timer e k s = sr_timer e (tk_drawn (in_tasks s)) k"

section \<open>Services of the task queues to the interpreter\<close>

definition suspend_service ::
  "int \<Rightarrow> suspender \<Rightarrow> bi_data \<Rightarrow> vmstruct \<Rightarrow> int \<Rightarrow> db \<Rightarrow> tasks \<Rightarrow> (tasks \<times> error) option" where
  "suspend_service limit_option proc data vm root db w =
     (let the_vm = \<lparr>vm_task_id = current_task_id w, vm_state = vm, vm_root = root\<rparr>
      in case (proc, data) of
           (enqueue_suspended_task, Seconds n) \<Rightarrow> enqueue_suspended limit_option the_vm n db w
         | (make_reading_task, Obj_data conn) \<Rightarrow> start_reading the_vm conn w
         | _ \<Rightarrow> None)"

section \<open>Server tasks\<close>

definition do_server_verb_task ::
  "surroundings \<Rightarrow> objid \<Rightarrow> string \<Rightarrow> var \<Rightarrow> verb_handle option \<Rightarrow> objid \<Rightarrow> string \<Rightarrow> bool \<Rightarrow> tasks interp
     \<Rightarrow> (tasks interp \<times> outcome \<times> var option) option" where
  "do_server_verb_task e this verb args h player argstr do_db_tracebacks s =
     do { let db = in_db s;
          definer \<leftarrow> db_verb_definer h;
          names \<leftarrow> db_verb_names db h;
          prog \<leftarrow> db_verb_program (sv_null_program (sr_services e)) db h;
          owner \<leftarrow> db_verb_owner db h;
          flags \<leftarrow> db_verb_flags db h;
          do_server_program_task (sr_services e) (timer e 0 s) (timer e 1 s) this verb args definer names prog owner
            (flags AND VF_DEBUG \<noteq> 0) player argstr do_db_tracebacks s }"

text \<open>\<open>setting\<close> is the queue whose \<^verbatim>\<open>last_input_task_id\<close> is set, if one is given.\<close>

definition run_server_task_setting_id ::
  "surroundings \<Rightarrow> objid \<Rightarrow> objid \<Rightarrow> string \<Rightarrow> var \<Rightarrow> string \<Rightarrow> nat option \<Rightarrow> tasks interp
     \<Rightarrow> (tasks interp \<times> outcome \<times> var option) option" where
  "run_server_task_setting_id e player what verb args argstr setting s =
     do { let (n, w) = new_task_id (in_tasks s);
          let w = w\<lparr>current_task_id := n\<rparr>;
          let w = (case setting of Some i \<Rightarrow> set_tq i (\<lambda>tq. tq\<lparr>tq_last_input_task_id := n\<rparr>) w | None \<Rightarrow> w);
          let s = s\<lparr>in_tasks := w\<rparr>;
          (db, h) \<leftarrow> db_find_callable_verb (\<lambda>_ _. False) (in_db s) what verb;
          let s = with_db db s;
          if h \<noteq> None then do_server_verb_task e what verb args h player argstr True s
          else Some (s, OUTCOME_DONE, Some (TYPE_INT 0)) }"

definition run_server_task ::
  "surroundings \<Rightarrow> objid \<Rightarrow> objid \<Rightarrow> string \<Rightarrow> var \<Rightarrow> string \<Rightarrow> tasks interp \<Rightarrow> (tasks interp \<times> outcome \<times> var option) option" where
  "run_server_task e player what verb args argstr s = run_server_task_setting_id e player what verb args argstr None s"

definition run_server_program_task ::
  "surroundings \<Rightarrow> objid \<Rightarrow> string \<Rightarrow> var \<Rightarrow> objid \<Rightarrow> string \<Rightarrow> program \<Rightarrow> objid \<Rightarrow> bool \<Rightarrow> objid \<Rightarrow> string \<Rightarrow> tasks interp
     \<Rightarrow> (tasks interp \<times> outcome \<times> var option) option" where
  "run_server_program_task e this verb args vloc verbname prog progr debug player argstr s =
     do { let (n, w) = new_task_id (in_tasks s);
          let s = s\<lparr>in_tasks := w\<lparr>current_task_id := n\<rparr>\<rparr>;
          do_server_program_task (sr_services e) (timer e 0 s) (timer e 1 s) this verb args vloc verbname prog progr debug player argstr True s }"

section \<open>Programming\<close>

definition get_system_object :: "db \<Rightarrow> string \<Rightarrow> objid option" where
  "get_system_object db nm =
     (if \<not> valid db SYSTEM_OBJECT then Some NOTHING
      else do { (h, v) \<leftarrow> db_find_property True db SYSTEM_OBJECT nm;
                Some (case v of Some (TYPE_OBJ x) \<Rightarrow> x | _ \<Rightarrow> NOTHING) })"

definition object_phrase :: "objid \<Rightarrow> string \<Rightarrow> string" where
  "object_phrase oid obj =
     (if oid = FAILED_MATCH then ''I don't see \"'' @ obj @ ''\" here.''
      else if oid = AMBIGUOUS then ''I don't know which \"'' @ obj @ ''\" you mean.''
      else ''\"'' @ obj @ ''\" is not a valid object.'')"

text \<open>The handle, the message and the name of the verb.\<close>

definition find_verb_for_programming ::
  "surroundings \<Rightarrow> db \<Rightarrow> objid \<Rightarrow> string \<Rightarrow> (verb_handle option \<times> string \<times> string) option" where
  "find_verb_for_programming e db player verbref =
     (let obj = takeWhile (\<lambda>c. c \<noteq> CHR '':'') verbref; vname = tl (dropWhile (\<lambda>c. c \<noteq> CHR '':'') verbref)
      in if vname = [] then Some (None, ''You must specify a verb; use the format object:verb.'', [])
         else do {
           oid \<leftarrow> (case obj of CHR ''$'' # nm \<Rightarrow> get_system_object db nm | _ \<Rightarrow> match_object db player obj);
           if \<not> valid db oid then Some (None, object_phrase oid obj, vname)
           else do {
             h \<leftarrow> find_described_verb (\<lambda>_. False) (sr_numeric_names e) db oid (TYPE_STR vname);
             if h = None then Some (None, ''That object does not have that verb definition.'', vname)
             else do {
               ok \<leftarrow> db_verb_allows db h player VF_WRITE;
               if \<not> ok \<or> sr_protect_set_verb_code e \<and> \<not> is_wizard db player then Some (None, ''Permission denied.'', vname)
               else do { oname \<leftarrow> db_object_name db oid; names \<leftarrow> db_verb_names db h;
                         Some (h, ''Now programming '' @ oname @ '':'' @ names @ ''.  Use \".\" to end.'', vname) } } } })"

definition start_programming :: "surroundings \<Rightarrow> nat \<Rightarrow> string \<Rightarrow> tasks interp \<Rightarrow> tasks interp option" where
  "start_programming e i argstr s =
     do { (h, message, vname) \<leftarrow> find_verb_for_programming e (in_db s) (tq_player (queue s i)) argstr;
          let s = notify (tq_player (queue s i)) message s;
          if h = None then Some s
          else do { definer \<leftarrow> db_verb_definer h;
                    Some (on_tasks (set_tq i (\<lambda>tq. tq\<lparr>tq_program_stream := Some [], tq_program_object := definer, tq_program_verb := vname\<rparr>)) s) } }"

definition program_verb :: "surroundings \<Rightarrow> objid \<Rightarrow> string \<Rightarrow> verb_handle option \<Rightarrow> tasks interp \<Rightarrow> tasks interp option" where
  "program_verb e player text h s =
     (case sr_parse e text of (prog, errors) \<Rightarrow>
        let s = notify player (num_string (int (length errors)) @ '' error(s).'') (fold (notify player) errors s)
        in case prog of
             Some p \<Rightarrow> do { db \<leftarrow> db_set_verb_program (in_db s) h p; Some (notify player ''Verb programmed.'' (with_db db s)) }
           | None \<Rightarrow> Some (notify player ''Verb not programmed.'' s))"

definition end_programming :: "surroundings \<Rightarrow> nat \<Rightarrow> string \<Rightarrow> tasks interp \<Rightarrow> tasks interp option" where
  "end_programming e i text s =
     do { let tq = queue s i;
          let player = tq_player tq;
          s \<leftarrow> (if \<not> valid (in_db s) (tq_program_object tq)
               then Some (notify player ''That object appears to have disappeared ...'' s)
               else do { h \<leftarrow> find_described_verb (\<lambda>_. False) (sr_numeric_names e) (in_db s) (tq_program_object tq) (TYPE_STR (tq_program_verb tq));
                         if h = None then Some (notify player ''That verb appears to have disappeared ...'' s)
                         else program_verb e player text h s });
          Some (on_tasks (set_tq i (\<lambda>tq. tq\<lparr>tq_program_stream := None\<rparr>)) s) }"

section \<open>Commands\<close>

definition delimiter :: "string \<Rightarrow> string option" where "delimiter str = (if str = [] then None else Some str)"

text \<open>Whether the command was an intrinsic one.\<close>

definition do_intrinsic_command :: "surroundings \<Rightarrow> nat \<Rightarrow> parsed_command \<Rightarrow> tasks interp \<Rightarrow> (tasks interp \<times> bool) option" where
  "do_intrinsic_command e i pc s =
     (let icmd = icmd_index (pc_verb pc); tq = queue s i
      in if icmd = 0 \<or> tq_icmds tq AND icmd_bit icmd = 0 then Some (s, False)
         else if icmd = ICMD_PROGRAM
         then if \<not> is_programmer (in_db s) (tq_player tq) then Some (s, False)
              else do { s \<leftarrow> (case pc_args pc of
                               [TYPE_STR arg] \<Rightarrow> start_programming e i arg s
                             | [_] \<Rightarrow> None
                             | _ \<Rightarrow> Some (notify (tq_player tq) ''Usage:  .program object:verb'' s));
                        Some (s, True) }
         else if icmd = ICMD_PREFIX \<or> icmd = ICMD_OUTPUTPREFIX
         then Some (on_tasks (set_tq i (\<lambda>tq. tq\<lparr>tq_output_prefix := delimiter (pc_argstr pc)\<rparr>)) s, True)
         else Some (on_tasks (set_tq i (\<lambda>tq. tq\<lparr>tq_output_suffix := delimiter (pc_argstr pc)\<rparr>)) s, True))"

definition find_verb_on :: "surroundings \<Rightarrow> db \<Rightarrow> objid \<Rightarrow> parsed_command \<Rightarrow> verb_handle option option" where
  "find_verb_on e db oid pc =
     (let spec = (\<lambda>x. if x = oid then ASPEC_THIS else if x = NOTHING then ASPEC_NONE else ASPEC_ANY)
      in if \<not> valid db oid then Some None
         else db_find_command_verb (sv_aliased (sr_services e)) db oid (pc_verb pc) (spec (pc_dobj pc)) (pc_prep pc) (spec (pc_iobj pc)))"

fun first_verb_on :: "surroundings \<Rightarrow> db \<Rightarrow> parsed_command \<Rightarrow> objid list \<Rightarrow> (objid \<times> verb_handle option) option" where
  "first_verb_on e db pc [] = Some (NOTHING, None)"
| "first_verb_on e db pc (oid # oids) =
     do { h \<leftarrow> find_verb_on e db oid pc; if h \<noteq> None then Some (oid, h) else first_verb_on e db pc oids }"

definition find_command_target :: "surroundings \<Rightarrow> objid \<Rightarrow> objid \<Rightarrow> parsed_command \<Rightarrow> db \<Rightarrow> (db \<times> objid \<times> verb_handle option) option" where
  "find_command_target e player location pc db =
     do { (this, h) \<leftarrow> first_verb_on e db pc [player, location, pc_dobj pc, pc_iobj pc];
          if h \<noteq> None then Some (db, this, h)
          else if valid db location
          then do { (db, h) \<leftarrow> db_find_callable_verb (\<lambda>_ _. False) db location ''huh''; Some (db, location, h) }
          else Some (db, location, None) }"

definition run_command :: "surroundings \<Rightarrow> nat \<Rightarrow> objid \<Rightarrow> parsed_command \<Rightarrow> tasks interp \<Rightarrow> tasks interp option" where
  "run_command e i location pc s =
     do { let player = tq_player (queue s i);
          (db, this, h) \<leftarrow> find_command_target e player location pc (in_db s);
          let s = with_db db s;
          if h \<noteq> None
          then do { (s, _, _) \<leftarrow> do_input_task (sr_services e) (timer e 2 s) (timer e 3 s) player pc this h s; Some s }
          else Some (on_tasks (set_tq i (\<lambda>tq. tq\<lparr>tq_last_input_task_id := 0\<rparr>)) (notify player ''I couldn't understand that.'' s)) }"

definition notify_delimiter :: "objid \<Rightarrow> string option \<Rightarrow> tasks interp \<Rightarrow> tasks interp" where
  "notify_delimiter player d s = (case d of Some line \<Rightarrow> notify player line s | None \<Rightarrow> s)"

text \<open>A command that is not intrinsic: \<^verbatim>\<open>:do_command\<close> of the handler first, then the verb it matches.\<close>

definition do_verb_command :: "surroundings \<Rightarrow> nat \<Rightarrow> string \<Rightarrow> parsed_command \<Rightarrow> tasks interp \<Rightarrow> tasks interp option" where
  "do_verb_command e i command pc s =
     do { let tq = queue s i;
          location \<leftarrow> (if valid (in_db s) (tq_player tq) then db_object_location (in_db s) (tq_player tq) else Some NOTHING);
          (s, out, res) \<leftarrow> run_server_task_setting_id e (tq_player tq) (tq_handler tq) ''do_command''
            (parse_into_wordlist command) command (Some i) (notify_delimiter (tq_player tq) (tq_output_prefix tq) s);
          handled \<leftarrow> (if out = OUTCOME_DONE then map_option is_true res else Some True);
          s \<leftarrow> (if handled then Some s else run_command e i location pc s);
          Some (notify_delimiter (tq_player (queue s i)) (tq_output_suffix (queue s i)) s) }"

definition do_command_task :: "surroundings \<Rightarrow> nat \<Rightarrow> string \<Rightarrow> tasks interp \<Rightarrow> (tasks interp \<times> bool) option" where
  "do_command_task e i command s =
     (case tq_program_stream (queue s i) of
        Some text \<Rightarrow>
          do { s \<leftarrow> (if command = ''.'' then end_programming e i text s
                    else Some (on_tasks (set_tq i (\<lambda>tq. tq\<lparr>tq_program_stream := Some (text @ command @ [CHR 0x0A])\<rparr>)) s));
               Some (s, True) }
      | None \<Rightarrow>
          do { pc \<leftarrow> parse_command (in_db s) command (tq_player (queue s i));
               (case pc of
                  None \<Rightarrow> Some (s, False)
                | Some pc \<Rightarrow>
                    do { (s, intrinsic) \<leftarrow> do_intrinsic_command e i pc s;
                         s \<leftarrow> (if intrinsic then Some s else do_verb_command e i command pc s);
                         Some (s, True) }) })"

definition do_out_of_band_command :: "surroundings \<Rightarrow> nat \<Rightarrow> string \<Rightarrow> tasks interp \<Rightarrow> tasks interp option" where
  "do_out_of_band_command e i command s =
     do { (s, _, _) \<leftarrow> run_server_task e (tq_player (queue s i)) (tq_handler (queue s i)) ''do_out_of_band_command''
            (parse_into_wordlist command) command s;
          Some s }"

section \<open>Logging in\<close>

text \<open>All background tasks of one queue go to the end of another one.\<close>

definition move_bg_tasks :: "nat \<Rightarrow> nat \<Rightarrow> tasks \<Rightarrow> tasks" where
  "move_bg_tasks i j s =
     (let ts = tq_bg (tk_queues s i)
      in set_tq j (\<lambda>tq. tq\<lparr>tq_bg := tq_bg tq @ ts\<rparr>)
           (set_tq i (\<lambda>tq. tq\<lparr>tq_bg := [], tq_num_bg_tasks := tq_num_bg_tasks tq - int (length ts)\<rparr>) s))"

definition split_old_tasks :: "nat \<Rightarrow> objid \<Rightarrow> tasks \<Rightarrow> tasks" where
  "split_old_tasks i old_player s =
     (if tq_num_bg_tasks (tk_queues s i) = 0 then s
      else case find_tqueue old_player s of (j, s) \<Rightarrow>
             let n = tq_num_bg_tasks (tk_queues s i)
             in set_tq i (\<lambda>tq. tq\<lparr>tq_num_bg_tasks := 0\<rparr>) (move_bg_tasks i j (set_tq j (\<lambda>tq. tq\<lparr>tq_num_bg_tasks := n\<rparr>) s)))"

definition take_over :: "nat \<Rightarrow> nat \<Rightarrow> tasks \<Rightarrow> tasks option" where
  "take_over i dead s =
     do { let s = set_tq i (\<lambda>tq. tq\<lparr>tq_num_bg_tasks := tq_num_bg_tasks (tk_queues s dead)\<rparr>) s;
          s \<leftarrow> flush_lines False dead s;
          Some (set_tq dead (\<lambda>tq. tq\<lparr>tq_player := NOTHING, tq_num_bg_tasks := 0\<rparr>) (move_bg_tasks dead i s)) }"

definition log_in :: "surroundings \<Rightarrow> nat \<Rightarrow> objid \<Rightarrow> objid \<Rightarrow> tasks interp \<Rightarrow> tasks interp option" where
  "log_in e i new_player old_max s =
     do { let w = in_tasks s;
          let old_player = tq_player (tk_queues w i);
          let dead = lookup_tqueue new_player w;
          let w = split_old_tasks i old_player (set_tq i (\<lambda>tq. tq\<lparr>tq_player := new_player\<rparr>) w);
          w \<leftarrow> (case dead of Some j \<Rightarrow> take_over i j w | None \<Rightarrow> Some w);
          sr_connected e old_player new_player (new_player > old_max) (s\<lparr>in_tasks := w\<rparr>) }"

definition do_login_task :: "surroundings \<Rightarrow> nat \<Rightarrow> string \<Rightarrow> tasks interp \<Rightarrow> (tasks interp \<times> bool) option" where
  "do_login_task e i command s =
     do { let old_max = db_last_used_objid (in_db s);
          (s, out, res) \<leftarrow> run_server_task_setting_id e (tq_player (queue s i)) (tq_handler (queue s i)) ''do_login_command''
            (parse_into_wordlist command) command (Some i) s;
          s \<leftarrow> (case res of
                 Some (TYPE_OBJ x) \<Rightarrow> if tq_connected (queue s i) \<and> is_user (in_db s) x then log_in e i x old_max s else Some s
               | _ \<Rightarrow> Some s);
          Some (s, True) }"

section \<open>Running tasks\<close>

definition resume_vm :: "surroundings \<Rightarrow> saved_vm \<Rightarrow> var \<Rightarrow> tasks interp \<Rightarrow> tasks interp option" where
  "resume_vm e v x s =
     do { let s = on_tasks (\<lambda>w. w\<lparr>current_task_id := vm_task_id v\<rparr>) s;
          (s, _, _) \<leftarrow> resume_from_previous_vm (sr_services e) (timer e 0 s) (timer e 1 s) (vm_state v) (vm_root v) x s;
          Some s }"

definition end_reading :: "surroundings \<Rightarrow> nat \<Rightarrow> saved_vm \<Rightarrow> var \<Rightarrow> tasks interp \<Rightarrow> tasks interp option" where
  "end_reading e i v x s = resume_vm e v x (on_tasks (set_tq i (\<lambda>tq. tq\<lparr>tq_reading := None\<rparr>)) s)"

definition run_line :: "surroundings \<Rightarrow> nat \<Rightarrow> task_kind \<Rightarrow> string \<Rightarrow> tasks interp \<Rightarrow> (tasks interp \<times> bool) option" where
  "run_line e i kind str s =
     (if kind = TASK_OOB then map_option (\<lambda>s. (s, True)) (do_out_of_band_command e i str s)
      else case tq_reading (queue s i) of
             Some v \<Rightarrow> map_option (\<lambda>s. (s, True)) (end_reading e i v (TYPE_STR str) s)
           | None \<Rightarrow> (if tq_player (queue s i) \<ge> 0 then do_command_task else do_login_task) e i str s)"

definition run_bg_task :: "surroundings \<Rightarrow> bg_task \<Rightarrow> tasks interp \<Rightarrow> tasks interp option" where
  "run_bg_task e t s =
     (case t of
        Forked_task n prog a rt_env f_index _ \<Rightarrow>
          do { let s = on_tasks (\<lambda>w. w\<lparr>current_task_id := n\<rparr>) s;
               (s, _, _) \<leftarrow> do_forked_task (sr_services e) (timer e 0 s) (timer e 1 s) prog rt_env a f_index s;
               Some s }
      | Suspended_task v _ x \<Rightarrow> resume_vm e v x s)"

text \<open>The tasks of one queue until one has been run; a line without a word is none.\<close>

partial_function (option) run_queue :: "surroundings \<Rightarrow> nat \<Rightarrow> tasks interp \<Rightarrow> (tasks interp \<times> bool) option" where
  "run_queue e i s =
     do { (tq, t, out) \<leftarrow> dequeue_input_task (queue s i) (if tq_hold_input (queue s i) \<and> tq_reading (queue s i) = None then DQ_OOB else DQ_FIRST);
          let s = on_tasks (\<lambda>w. emit out (set_tq i (\<lambda>_. tq) w)) s;
          (case t of
             Some (kind, str) \<Rightarrow>
               do { (s, did_one) \<leftarrow> run_line e i kind str s;
                    if did_one then Some (s, True) else run_queue e i s }
           | None \<Rightarrow>
               (case dequeue_bg_task (queue s i) of
                  (tq, None) \<Rightarrow> Some (s, False)
                | (tq, Some t) \<Rightarrow> map_option (\<lambda>s. (s, True)) (run_bg_task e t (on_tasks (set_tq i (\<lambda>_. tq)) s)))) }"

definition run_first :: "surroundings \<Rightarrow> nat \<Rightarrow> tasks interp \<Rightarrow> (tasks interp \<times> bool) option" where
  "run_first e i s =
     (case tq_reading (queue s i) of
        Some v \<Rightarrow> if is_out_of_input (queue s i) then map_option (\<lambda>s. (s, True)) (end_reading e i v (TYPE_ERR E_INVARG) s)
                  else run_queue e i s
      | None \<Rightarrow> run_queue e i s)"

text \<open>The queue is taken off the list; if it ran a task it goes back behind those that have used no more time.\<close>

definition requeue :: "bool \<Rightarrow> int \<Rightarrow> nat \<Rightarrow> tasks \<Rightarrow> tasks" where
  "requeue did_one start i w =
     (let w = w\<lparr>active_tqueues := tl (dropWhile (\<lambda>j. j \<noteq> i) (active_tqueues w))\<rparr>
      in if did_one
         then case time0 w of (t, w) \<Rightarrow> activate_tqueue i (set_tq i (\<lambda>tq. tq\<lparr>tq_usage := tq_usage tq + (t - start)\<rparr>) w)
         else deactivate_tqueue i w)"

partial_function (option) run_active :: "surroundings \<Rightarrow> int \<Rightarrow> tasks interp \<Rightarrow> tasks interp option" where
  "run_active e start s =
     (case active_tqueues (in_tasks s) of
        [] \<Rightarrow> Some s
      | i # _ \<Rightarrow>
          do { (s, did_one) \<leftarrow> run_first e i s;
               let s = on_tasks (requeue did_one start i) s;
               if did_one then Some s else run_active e start s })"

definition run_ready_tasks :: "surroundings \<Rightarrow> tasks interp \<Rightarrow> tasks interp option" where
  "run_ready_tasks e s =
     do { let (now, w) = time0 (in_tasks s);
          w \<leftarrow> release_waiting now (waiting_tasks w) w;
          let (start, w) = time0 w;
          s \<leftarrow> run_active e start (s\<lparr>in_tasks := w\<rparr>);
          Some (on_tasks free_idle s) }"

section \<open>The list of the queued tasks\<close>

definition DEFAULT_BG_TICKS :: num where "DEFAULT_BG_TICKS = 15000"

definition BQM_SIZEOF_activation :: int where "BQM_SIZEOF_activation = 4 * 4 + 14 * 8"

definition BQM_SIZEOF_vmstruct :: int where "BQM_SIZEOF_vmstruct = 4 * 4 + 2 * 8"

definition BQM_SIZEOF_forked_task :: int where "BQM_SIZEOF_forked_task = BQM_SIZEOF_activation + 5 * 8"

definition activation_bytes :: "activation \<Rightarrow> int" where
  "activation_bytes a =
     BQM_SIZEOF_activation + program_bytes (a_prog a)
     + (\<Sum>v\<leftarrow>take (length (prog_var_names (a_prog a))) (a_rt_env a). value_bytes v)
     + (\<Sum>v\<leftarrow>a_rt_stack a. value_bytes v)
     + (value_bytes (a_temp a) - BQM_SIZEOF_Var)
     + (int (length (a_verb a)) + 1) + (int (length (a_verbname a)) + 1)"

definition forked_task_bytes :: "activation \<Rightarrow> int" where
  "forked_task_bytes a = BQM_SIZEOF_forked_task + (activation_bytes a - BQM_SIZEOF_activation)"

definition suspended_task_bytes :: "vmstruct \<Rightarrow> int" where
  "suspended_task_bytes vm = BQM_SIZEOF_vmstruct + (\<Sum>a\<leftarrow>take (Suc (top_activ_stack vm)) (activ_stack vm). activation_bytes a)"

definition suspended_lineno_of_vm :: "tasks services \<Rightarrow> saved_vm \<Rightarrow> num" where
  "suspended_lineno_of_vm sv v =
     (let a = top_activ v
      in sv_line_number sv (a_prog a) (if top_activ_stack (vm_state v) = 0 then vm_root v else MAIN_VECTOR) (a_error_pc a))"

text \<open>The ten entries: number, start, two obsolete ones, programmer, definer, verb, line, object and size.\<close>

definition task_entry :: "num \<Rightarrow> var \<Rightarrow> objid \<Rightarrow> activation \<Rightarrow> num \<Rightarrow> int \<Rightarrow> var" where
  "task_entry n start progr a line bytes =
     TYPE_LIST [TYPE_INT n, start, TYPE_INT 0, TYPE_INT DEFAULT_BG_TICKS, TYPE_OBJ progr, TYPE_OBJ (a_vloc a),
       TYPE_STR (a_verbname a), TYPE_INT line, TYPE_OBJ (a_this a), TYPE_INT bytes]"

definition list_for_vm :: "tasks services \<Rightarrow> saved_vm \<Rightarrow> var \<Rightarrow> objid \<Rightarrow> var" where
  "list_for_vm sv v start progr =
     task_entry (vm_task_id v) start progr (top_activ v) (suspended_lineno_of_vm sv v) (suspended_task_bytes (vm_state v))"

definition list_for_reading_task :: "tasks services \<Rightarrow> objid \<Rightarrow> saved_vm \<Rightarrow> var" where
  "list_for_reading_task sv player v = list_for_vm sv v (TYPE_INT (-1)) player"

definition list_for_bg_task :: "tasks services \<Rightarrow> bg_task \<Rightarrow> var" where
  "list_for_bg_task sv t =
     (case t of
        Forked_task n prog a rt_env f_index start \<Rightarrow>
          task_entry n (TYPE_INT start) (a_progr a) a (sv_line_number sv prog f_index 0) (forked_task_bytes a)
      | Suspended_task v start x \<Rightarrow> list_for_vm sv v (TYPE_INT start) (progr_of_cur_verb v))"

definition bf_queued_tasks :: "tasks services \<Rightarrow> db \<Rightarrow> objid \<Rightarrow> tasks \<Rightarrow> package" where
  "bf_queued_tasks sv db progr s =
     (let show_all = is_wizard db progr;
          reading = (\<lambda>i. case tq_reading (tk_queues s i) of
                       Some v \<Rightarrow> if show_all \<or> tq_player (tk_queues s i) = progr
                                 then [list_for_reading_task sv (tq_player (tk_queues s i)) v] else []
                     | None \<Rightarrow> []);
          bg = (\<lambda>ts. map (list_for_bg_task sv) (filter (\<lambda>t. show_all \<or> task_progr t = progr) ts))
      in make_var_pack (TYPE_LIST
           (concat (map reading (idle_tqueues s))
            @ concat (map (\<lambda>i. reading i @ bg (tq_bg (tk_queues s i))) (active_tqueues s))
            @ bg (waiting_tasks s))))"

end
