(* ===== verification/TaskLaws.thy ===== *)
theory TaskLaws
  imports Scheduler
begin

text \<open>
  The invariant of the task queues: the active queues are in the order of the time they have used, the idle ones have used none, no queue is in
  a list twice, the waiting tasks are in the order of their start, and every queue of input lines is well formed.  Every
  operation returns and keeps it, and none but the end of a turn changes the queue whose turn it is.
\<close>

section \<open>The invariant\<close>

definition queue_ok :: "tqueue \<Rightarrow> bool" where
  "queue_ok tq \<longleftrightarrow> iqueue_valid (tq_input tq) \<and> tq_total_input_length tq = sum_list (map (snd \<circ> snd) (input_lines (tq_input tq)))"

definition queue_set :: "tasks \<Rightarrow> nat set" where "queue_set s = set (active_tqueues s) \<union> set (idle_tqueues s)"

definition by_usage :: "(nat \<Rightarrow> tqueue) \<Rightarrow> nat list \<Rightarrow> bool" where
  "by_usage qs js \<longleftrightarrow> sorted_wrt (\<lambda>i j. tq_usage (qs i) \<le> tq_usage (qs j)) js"

definition by_start :: "bg_task list \<Rightarrow> bool" where
  "by_start ts \<longleftrightarrow> sorted_wrt (\<lambda>t u. GET_START_TIME t \<le> GET_START_TIME u) ts"

definition sched_ok :: "tasks \<Rightarrow> bool" where
  "sched_ok s \<longleftrightarrow>
     distinct (active_tqueues s @ idle_tqueues s)
     \<and> (\<forall>i\<in>queue_set s. i < tk_fresh s \<and> queue_ok (tk_queues s i))
     \<and> by_usage (tk_queues s) (active_tqueues s)
     \<and> (\<forall>i\<in>set (active_tqueues s). 0 \<le> tq_usage (tk_queues s i))
     \<and> (\<forall>i\<in>set (idle_tqueues s). tq_usage (tk_queues s i) = NO_USAGE)
     \<and> by_start (waiting_tasks s)"

lemma by_usage_cong: "(\<And>i. i \<in> set js \<Longrightarrow> tq_usage (qs i) = tq_usage (rs i)) \<Longrightarrow> by_usage qs js = by_usage rs js"
  by (induction js) (auto simp: by_usage_def)

lemma sched_okD:
  assumes "sched_ok s"
  shows "distinct (active_tqueues s)" "distinct (idle_tqueues s)" "\<And>i. i \<in> set (active_tqueues s) \<Longrightarrow> i \<notin> set (idle_tqueues s)"
    "\<And>i. i \<in> queue_set s \<Longrightarrow> i < tk_fresh s" "\<And>i. i \<in> queue_set s \<Longrightarrow> queue_ok (tk_queues s i)"
    "by_usage (tk_queues s) (active_tqueues s)" "\<And>i. i \<in> set (active_tqueues s) \<Longrightarrow> 0 \<le> tq_usage (tk_queues s i)"
    "\<And>i. i \<in> set (idle_tqueues s) \<Longrightarrow> tq_usage (tk_queues s i) = NO_USAGE" "by_start (waiting_tasks s)"
  using assms unfolding sched_ok_def by auto

lemma sched_okI:
  assumes "distinct (active_tqueues s)" "distinct (idle_tqueues s)" "\<And>i. i \<in> set (active_tqueues s) \<Longrightarrow> i \<notin> set (idle_tqueues s)"
    "\<And>i. i \<in> queue_set s \<Longrightarrow> i < tk_fresh s" "\<And>i. i \<in> queue_set s \<Longrightarrow> queue_ok (tk_queues s i)"
    "by_usage (tk_queues s) (active_tqueues s)" "\<And>i. i \<in> set (active_tqueues s) \<Longrightarrow> 0 \<le> tq_usage (tk_queues s i)"
    "\<And>i. i \<in> set (idle_tqueues s) \<Longrightarrow> tq_usage (tk_queues s i) = NO_USAGE" "by_start (waiting_tasks s)"
  shows "sched_ok s"
  using assms unfolding sched_ok_def by auto

text \<open>What an operation within a turn does: queues may be added, and the first active one stays the first.\<close>

definition sched_step :: "tasks \<Rightarrow> tasks \<Rightarrow> bool" where
  "sched_step s s' \<longleftrightarrow> sched_ok s' \<and> queue_set s \<subseteq> queue_set s' \<and> (\<forall>i js. active_tqueues s = i # js \<longrightarrow> (\<exists>js'. active_tqueues s' = i # js'))
     \<and> tk_clock s' = tk_clock s \<and> tk_reads s \<le> tk_reads s'"

lemma sched_step_refl: "sched_ok s \<Longrightarrow> sched_step s s"
  by (simp add: sched_step_def)

lemma sched_step_trans: "sched_step s s1 \<Longrightarrow> sched_step s1 s2 \<Longrightarrow> sched_step s s2"
  unfolding sched_step_def by fastforce

lemma sched_step_ok: "sched_step s s' \<Longrightarrow> sched_ok s'"
  by (simp add: sched_step_def)

lemma sched_step_known: "sched_step s s' \<Longrightarrow> i \<in> queue_set s \<Longrightarrow> i \<in> queue_set s'"
  by (auto simp: sched_step_def)

lemma set_tq_simps [simp]:
  "tk_queues (set_tq i f s) = (tk_queues s)(i := f (tk_queues s i))" "active_tqueues (set_tq i f s) = active_tqueues s"
  "idle_tqueues (set_tq i f s) = idle_tqueues s" "waiting_tasks (set_tq i f s) = waiting_tasks s" "tk_fresh (set_tq i f s) = tk_fresh s"
  "current_task_id (set_tq i f s) = current_task_id s" "tk_clock (set_tq i f s) = tk_clock s" "tk_reads (set_tq i f s) = tk_reads s" "queue_set (set_tq i f s) = queue_set s"
  by (simp_all add: set_tq_def queue_set_def)

lemma emit_simps [simp]:
  "tk_queues (emit os s) = tk_queues s" "active_tqueues (emit os s) = active_tqueues s"
  "idle_tqueues (emit os s) = idle_tqueues s" "waiting_tasks (emit os s) = waiting_tasks s" "tk_fresh (emit os s) = tk_fresh s"
  "current_task_id (emit os s) = current_task_id s" "tk_clock (emit os s) = tk_clock s" "tk_reads (emit os s) = tk_reads s" "queue_set (emit os s) = queue_set s"
  by (simp_all add: emit_def queue_set_def)

lemma time0_simps [simp]:
  "tk_queues (snd (time0 s)) = tk_queues s" "active_tqueues (snd (time0 s)) = active_tqueues s"
  "idle_tqueues (snd (time0 s)) = idle_tqueues s" "waiting_tasks (snd (time0 s)) = waiting_tasks s" "tk_fresh (snd (time0 s)) = tk_fresh s"
  "queue_set (snd (time0 s)) = queue_set s" "tk_clock (snd (time0 s)) = tk_clock s" "tk_reads (snd (time0 s)) = Suc (tk_reads s)"
  by (simp_all add: time0_def queue_set_def)

lemma new_task_id_simps [simp]:
  "tk_queues (snd (new_task_id s)) = tk_queues s" "active_tqueues (snd (new_task_id s)) = active_tqueues s"
  "idle_tqueues (snd (new_task_id s)) = idle_tqueues s" "waiting_tasks (snd (new_task_id s)) = waiting_tasks s"
  "tk_fresh (snd (new_task_id s)) = tk_fresh s" "queue_set (snd (new_task_id s)) = queue_set s"
  "tk_clock (snd (new_task_id s)) = tk_clock s" "tk_reads (snd (new_task_id s)) = tk_reads s"
  by (simp_all add: new_task_id_def queue_set_def)

text \<open>Changes outside the lists and the usage.\<close>

lemma same_lists_step:
  assumes "sched_ok s" "active_tqueues s' = active_tqueues s" "idle_tqueues s' = idle_tqueues s" "waiting_tasks s' = waiting_tasks s"
    "tk_fresh s' = tk_fresh s" "tk_clock s' = tk_clock s" "tk_reads s \<le> tk_reads s'" "\<And>i. i \<in> queue_set s \<Longrightarrow> tq_usage (tk_queues s' i) = tq_usage (tk_queues s i) \<and> queue_ok (tk_queues s' i)"
  shows "sched_step s s'"
proof -
  note D = sched_okD [OF assms(1)]
  have k: "queue_set s' = queue_set s" by (simp add: queue_set_def assms)
  have "sched_ok s'"
  proof (rule sched_okI, goal_cases)
    case 6
    then show ?case using D(6) assms(2,8) by (subst by_usage_cong [of _ _ "tk_queues s"]) (auto simp: queue_set_def)
  next
    case (7 i)
    then show ?case using D(7) assms(2,8) by (simp add: queue_set_def)
  next
    case (8 i)
    then show ?case using D(8) assms(3,8) by (simp add: queue_set_def)
  qed (use D(1-5,9) assms(2-8) k in auto)
  then show ?thesis using assms(2,6,7) k by (simp add: sched_step_def)
qed

lemma set_tq_step:
  assumes "sched_ok s" "i \<in> queue_set s \<Longrightarrow> tq_usage (f (tk_queues s i)) = tq_usage (tk_queues s i)"
    "i \<in> queue_set s \<Longrightarrow> queue_ok (tk_queues s i) \<Longrightarrow> queue_ok (f (tk_queues s i))"
  shows "sched_step s (set_tq i f s)"
  using assms sched_okD(5) [OF assms(1)] by (intro same_lists_step) auto

lemma emit_step: "sched_ok s \<Longrightarrow> sched_step s (emit os s)"
  using sched_okD(5) [of s] by (intro same_lists_step) auto

lemma stream_step: "sched_ok s \<Longrightarrow> sched_step s (snd (time0 s))" "sched_ok s \<Longrightarrow> sched_step s (snd (new_task_id s))"
  using sched_okD(5) [of s] by (intro same_lists_step; auto)+

lemma time0_step: "time0 s = (t, s') \<Longrightarrow> sched_ok s \<Longrightarrow> sched_step s s'"
  using stream_step(1) [of s] by simp

lemma new_task_id_step: "new_task_id s = (n, s') \<Longrightarrow> sched_ok s \<Longrightarrow> sched_step s s'"
  using stream_step(2) [of s] by simp

lemma waiting_step:
  "sched_ok s \<Longrightarrow> by_start ts \<Longrightarrow> sched_step s (s\<lparr>waiting_tasks := ts\<rparr>)"
  by (simp add: sched_step_def sched_ok_def queue_set_def)

section \<open>The lists of queues\<close>

lemma insert_tqueue_set [simp]: "set (insert_tqueue qs i js) = insert i (set js)"
  by (induction js) auto

lemma insert_tqueue_distinct: "i \<notin> set js \<Longrightarrow> distinct (insert_tqueue qs i js) = distinct js"
  by (induction js) auto

lemma insert_tqueue_sorted: "by_usage qs js \<Longrightarrow> by_usage qs (insert_tqueue qs i js)"
  unfolding by_usage_def by (induction js) fastforce+

lemma sched_usage_active: "sched_ok s \<Longrightarrow> i \<in> queue_set s \<Longrightarrow> tq_usage (tk_queues s i) \<noteq> NO_USAGE \<longleftrightarrow> i \<in> set (active_tqueues s)"
  using sched_okD(3,7,8) [of s] by (force simp: queue_set_def NO_USAGE_def)

lemma ensure_usage_ok:
  assumes ok: "sched_ok s" and i: "i \<in> queue_set s"
  shows "\<exists>s'. ensure_usage i s = Some s' \<and> sched_step s s' \<and> i \<in> set (active_tqueues s') \<and> queue_set s' = queue_set s
    \<and> (\<forall>j. (tk_queues s' j)\<lparr>tq_usage := 0\<rparr> = (tk_queues s j)\<lparr>tq_usage := 0\<rparr>) \<and> waiting_tasks s' = waiting_tasks s"
proof (cases "tq_usage (tk_queues s i) = NO_USAGE")
  case False
  then show ?thesis using sched_usage_active [OF ok i] sched_step_refl [OF ok] by (simp add: ensure_usage_def)
next
  case True
  then have idle: "i \<in> set (idle_tqueues s)" "i \<notin> set (active_tqueues s)" using sched_usage_active [OF ok i] i by (auto simp: queue_set_def)
  define u where "u = (case active_tqueues s of [] \<Rightarrow> 0 | j # _ \<Rightarrow> tq_usage (tk_queues s j))"
  define qs where "qs = (tk_queues s)(i := (tk_queues s i)\<lparr>tq_usage := u\<rparr>)"
  define s' where "s' = s\<lparr>tk_queues := qs, idle_tqueues := remove1 i (idle_tqueues s), active_tqueues := insert_tqueue qs i (active_tqueues s)\<rparr>"
  have e: "ensure_usage i s = Some s'"
    using True idle by (simp add: ensure_usage_def activate_tqueue_def set_tq_def s'_def qs_def u_def Let_def)
  note D = sched_okD [OF ok]
  have k: "queue_set s' = queue_set s" using idle D(2) by (auto simp: queue_set_def s'_def set_remove1_eq)
  have u: "0 \<le> u" using D(7) by (auto simp: u_def split: list.split)
  have old: "qs j = tk_queues s j" if "j \<noteq> i" for j using that by (auto simp: qs_def)
  have "sched_ok s'"
  proof (rule sched_okI, goal_cases)
    case 6
    have "by_usage qs (active_tqueues s)" using D(6) idle(2) by (subst by_usage_cong [of _ _ "tk_queues s"]) (auto simp: qs_def)
    from insert_tqueue_sorted [OF this] show ?case by (simp add: s'_def)
  next
    case (7 j)
    then show ?case using D(7) u old [of j] by (cases "j = i") (auto simp: s'_def qs_def)
  next
    case (8 j)
    then show ?case using D(2,8) old [of j] by (auto simp: s'_def set_remove1_eq)
  next
    case (5 j)
    then show ?case using D(5) [of j] k old [of j] by (cases "j = i") (auto simp: s'_def qs_def queue_ok_def)
  qed (use D k idle in \<open>auto simp: s'_def insert_tqueue_distinct set_remove1_eq\<close>)
  moreover have "\<exists>js'. active_tqueues s' = j # js'" if "active_tqueues s = j # js" for j js
    using that u idle by (auto simp: s'_def qs_def u_def)
  ultimately show ?thesis using e k by (auto simp: sched_step_def s'_def qs_def)
qed

lemma find_SomeD: "find P xs = Some x \<Longrightarrow> x \<in> set xs \<and> P x"
  by (induction xs) (auto split: if_splits)

lemma lookup_tqueue_known: "lookup_tqueue p s = Some i \<Longrightarrow> i \<in> queue_set s \<and> tq_player (tk_queues s i) = p"
  using find_SomeD [of _ "active_tqueues s @ idle_tqueues s" i] by (auto simp: lookup_tqueue_def queue_set_def)

lemma queue_ok_new: "queue_ok (new_tqueue p)"
proof -
  have "iqueue_valid empty_iqueue" using iqueue_ok_empty by (auto simp: iqueue_valid_def)
  moreover have "input_lines empty_iqueue = []" by (simp add: input_lines_def empty_iqueue_def)
  ultimately show ?thesis by (simp add: queue_ok_def new_tqueue_def)
qed

lemma find_tqueue_ok:
  assumes ok: "sched_ok s" and f: "find_tqueue p s = (i, s')"
  shows "sched_step s s'" "i \<in> queue_set s'" "tq_player (tk_queues s' i) = p" "waiting_tasks s' = waiting_tasks s"
    "\<And>j. j \<in> queue_set s \<Longrightarrow> tk_queues s' j = tk_queues s j"
proof -
  have "sched_step s s' \<and> i \<in> queue_set s' \<and> tq_player (tk_queues s' i) = p \<and> waiting_tasks s' = waiting_tasks s
    \<and> (\<forall>j\<in>queue_set s. tk_queues s' j = tk_queues s j)"
  proof (cases "lookup_tqueue p s")
    case None
    define qs where "qs = (tk_queues s)(i := new_tqueue p)"
    from None f have s': "i = tk_fresh s" "s' = s\<lparr>tk_queues := qs, tk_fresh := Suc i, idle_tqueues := i # idle_tqueues s\<rparr>"
      by (auto simp: find_tqueue_def deactivate_tqueue_def set_tq_def new_tqueue_def qs_def)
    have new: "j \<noteq> i" if "j \<in> queue_set s" for j using that sched_okD(4) [OF ok] s'(1) by blast
    note D = sched_okD [OF ok]
    have k: "queue_set s' = insert i (queue_set s)" by (auto simp: s'(2) queue_set_def)
    have "sched_ok s'"
    proof (rule sched_okI, goal_cases)
      case 6
      then show ?case using D(6) new by (subst by_usage_cong [of _ _ "tk_queues s"]) (auto simp: s'(2) qs_def queue_set_def)
    next
      case (7 j)
      then show ?case using D(7) new by (auto simp: s'(2) qs_def queue_set_def)
    next
      case (8 j)
      then show ?case using D(8) by (auto simp: s'(2) qs_def new_tqueue_def)
    next
      case (5 j)
      then have "j = i \<or> j \<in> queue_set s" by (simp add: k)
      then show ?case using D(5) queue_ok_new by (auto simp: s'(2) qs_def)
    next
      case (4 j)
      then have "j = i \<or> j \<in> queue_set s" by (simp add: k)
      then show ?case using D(4) [of j] by (auto simp: s'(2) s'(1))
    qed (use D(1-3,9) new in \<open>auto simp: s'(2) queue_set_def\<close>)
    then show ?thesis using new by (auto simp: sched_step_def s'(2) queue_set_def qs_def new_tqueue_def)
  next
    case (Some j)
    then show ?thesis using f ok lookup_tqueue_known [OF Some] by (auto simp: find_tqueue_def sched_step_refl)
  qed
  then show "sched_step s s'" "i \<in> queue_set s'" "tq_player (tk_queues s' i) = p" "waiting_tasks s' = waiting_tasks s"
    "\<And>j. j \<in> queue_set s \<Longrightarrow> tk_queues s' j = tk_queues s j" by auto
qed

section \<open>Input\<close>

lemma queue_okE:
  assumes "queue_ok tq"
  obtains "iqueue_valid (tq_input tq)" "tq_total_input_length tq = sum_list (map (snd \<circ> snd) (input_lines (tq_input tq)))"
  using assms by (auto simp: queue_ok_def)

lemma take_first_sum: "sum_list (map (snd \<circ> snd) (snd (take_first P ls))) = sum_list (map (snd \<circ> snd) ls)
    - (case fst (take_first P ls) of Some (_, _, n) \<Rightarrow> n | None \<Rightarrow> (0::int))"
  by (induction ls) (auto split: option.split prod.split)

text \<open>What a caller of \<^verbatim>\<open>dequeue_input_task\<close> gets from a line.\<close>

definition line_task :: "bool \<Rightarrow> input_line \<Rightarrow> task_kind \<times> string" where
  "line_task no_oob l =
     (case l of (kind, str, _) \<Rightarrow>
        if kind = TASK_OOB then (if no_oob then TASK_INBAND else TASK_OOB, str)
        else if kind = TASK_QUOTED then (TASK_INBAND, if no_oob then str else drop (length OUT_OF_BAND_QUOTE_PREFIX) str)
        else (kind, str))"

definition asks :: "tqueue \<Rightarrow> dequeue_how \<Rightarrow> input_line \<Rightarrow> bool" where
  "asks tq how l \<longleftrightarrow> (if tq_disable_oob tq then how \<noteq> DQ_OOB else wants how l)"

lemma dequeue_input_task_ok:
  assumes ok: "queue_ok tq"
  shows "\<exists>tq' out. dequeue_input_task tq how = Some (tq', map_option (line_task (tq_disable_oob tq)) (fst (take_first (asks tq how) (input_lines (tq_input tq)))), out)
    \<and> queue_ok tq' \<and> input_lines (tq_input tq') = snd (take_first (asks tq how) (input_lines (tq_input tq)))
    \<and> tq'\<lparr>tq_input := tq_input tq, tq_total_input_length := 0, tq_input_suspended := False\<rparr> = tq\<lparr>tq_total_input_length := 0, tq_input_suspended := False\<rparr>
    \<and> (tq_input_suspended tq' \<longleftrightarrow> tq_input_suspended tq \<and> out = []) \<and> set out \<subseteq> {Resume_input (tq_player tq)}
    \<and> (fst (take_first (asks tq how) (input_lines (tq_input tq))) \<noteq> None \<longrightarrow>
         (out \<noteq> [] \<longleftrightarrow> tq_input_suspended tq \<and> tq_connected tq \<and> tq_total_input_length tq' < INPUT_LOWAT))"
proof (cases "tq_disable_oob tq \<and> how = DQ_OOB")
  case True
  then have "take_first (asks tq how) ls = (None, ls)" for ls by (intro take_first_none) (simp add: asks_def)
  with True ok show ?thesis by (simp add: dequeue_input_task_def)
next
  case False
  define h where "h = (if tq_disable_oob tq then DQ_FIRST else how)"
  from False have w: "asks tq how = wants h" by (intro ext; cases how) (auto simp: asks_def h_def wants_def wanted_def)
  from ok have v: "iqueue_valid (tq_input tq)" "tq_total_input_length tq = sum_list (map (snd \<circ> snd) (input_lines (tq_input tq)))"
    by (auto elim: queue_okE)
  from iq.get_law [OF v(1), of h] obtain q where q: "dequeue_line (tq_input tq) h = Some (q, fst (take_first (wants h) (input_lines (tq_input tq))))"
    "iqueue_valid q" "input_lines q = snd (take_first (wants h) (input_lines (tq_input tq)))" by blast
  have sum: "sum_list (map (snd \<circ> snd) (input_lines q)) = tq_total_input_length tq
      - (case fst (take_first (wants h) (input_lines (tq_input tq))) of Some (_, _, n) \<Rightarrow> n | None \<Rightarrow> 0)"
    unfolding q(3) v(2) by (rule take_first_sum)
  show ?thesis
  proof (cases "fst (take_first (wants h) (input_lines (tq_input tq)))")
    case None
    then show ?thesis using False q v sum unfolding w by (auto simp: dequeue_input_task_def h_def [symmetric] queue_ok_def)
  next
    case (Some l)
    obtain kind str n where l: "l = (kind, str, n)" by (cases l) auto
    show ?thesis using False q v sum Some l unfolding w
      by (auto simp: dequeue_input_task_def h_def [symmetric] queue_ok_def Let_def line_task_def)
  qed
qed

lemma suspend_if_step: "sched_ok s \<Longrightarrow> sched_step s (suspend_if b i s)"
  unfolding suspend_if_def Let_def
  by (auto intro!: sched_step_refl sched_step_trans [OF set_tq_step emit_step] sched_step_ok [OF set_tq_step] simp: queue_ok_def)

lemma suspend_if_queue:
  "tk_queues (suspend_if b i s) i = (tk_queues s i)\<lparr>tq_input_suspended := tq_input_suspended (tk_queues s i) \<or> tq_connected (tk_queues s i) \<and> b\<rparr>"
  by (cases "tk_queues s i") (auto simp: suspend_if_def Let_def)

lemma input_only:
  assumes "a\<lparr>tq_input := q, tq_total_input_length := 0, tq_input_suspended := False\<rparr> = b\<lparr>tq_total_input_length := 0, tq_input_suspended := False\<rparr>"
  shows "tq_player a = tq_player b" "tq_connected a = tq_connected b" "tq_usage a = tq_usage b" "tq_bg a = tq_bg b"
    "tq_num_bg_tasks a = tq_num_bg_tasks b" "tq_reading a = tq_reading b"
  using assms by (cases a; cases b; simp)+

lemma usage_only:
  assumes "a\<lparr>tq_usage := 0\<rparr> = b\<lparr>tq_usage := 0\<rparr>"
  shows "tq_player a = tq_player b" "tq_connected a = tq_connected b" "tq_input a = tq_input b" "tq_total_input_length a = tq_total_input_length b"
    "tq_input_suspended a = tq_input_suspended b" "tq_bg a = tq_bg b" "tq_num_bg_tasks a = tq_num_bg_tasks b" "tq_reading a = tq_reading b"
  using assms by (cases a; cases b; simp)+

lemma enqueue_input_task_ok:
  assumes ok: "sched_ok s" and i: "i \<in> queue_set s"
    and l: "l = (input_kind input binary, input, int (length input))"
  shows "\<exists>s'. enqueue_input_task i input at_front binary s = Some s' \<and> sched_step s s'
    \<and> input_lines (tq_input (tk_queues s' i))
        = (if at_front then l # input_lines (tq_input (tk_queues s i)) else input_lines (tq_input (tk_queues s i)) @ [l])
    \<and> (tq_input_suspended (tk_queues s' i) \<longleftrightarrow> tq_input_suspended (tk_queues s i) \<or> tq_connected (tk_queues s i)
         \<and> tq_total_input_length (tk_queues s' i) > INPUT_HIWAT)
    \<and> (\<not> tq_hold_input (tk_queues s i) \<or> tq_reading (tk_queues s i) \<noteq> None \<or> \<not> tq_disable_oob (tk_queues s i) \<and> input_kind input binary = TASK_OOB
         \<longrightarrow> i \<in> set (active_tqueues s'))"
proof -
  define tq where "tq = tk_queues s i"
  have v: "iqueue_valid (tq_input tq)" "tq_total_input_length tq = sum_list (map (snd \<circ> snd) (input_lines (tq_input tq)))"
    using sched_okD(5) [OF ok i] by (auto simp: tq_def elim: queue_okE)
  from iq.put_law [OF v(1), of input at_front binary] obtain q where q: "enqueue_line (tq_input tq) input at_front binary = Some q"
    "iqueue_valid q" "input_lines q = (if at_front then l # input_lines (tq_input tq) else input_lines (tq_input tq) @ [l])" unfolding l by blast
  define s1 where "s1 = set_tq i (\<lambda>tq. tq\<lparr>tq_input := q, tq_total_input_length := tq_total_input_length tq + int (length input)\<rparr>) s"
  have st1: "sched_step s s1" unfolding s1_def
    using v q by (intro set_tq_step [OF ok]) (auto simp: queue_ok_def tq_def [symmetric] l)
  note ok1 = sched_step_ok [OF st1] and i1 = sched_step_known [OF st1 i]
  define go where "go \<longleftrightarrow> \<not> tq_hold_input tq \<or> tq_reading tq \<noteq> None \<or> \<not> tq_disable_oob tq \<and> input_kind input binary = TASK_OOB"
  from ensure_usage_ok [OF ok1 i1] sched_step_refl [OF ok1] obtain s2 where
    s2: "(if go then ensure_usage i s1 else Some s1) = Some s2" "sched_step s1 s2" "go \<longrightarrow> i \<in> set (active_tqueues s2)"
      "(tk_queues s2 i)\<lparr>tq_usage := 0\<rparr> = (tk_queues s1 i)\<lparr>tq_usage := 0\<rparr>" by (cases go) auto
  define s' where "s' = suspend_if (tq_total_input_length (tk_queues s2 i) > INPUT_HIWAT) i s2"
  have e: "enqueue_input_task i input at_front binary s = Some s'"
    using s2(1) q(1) unfolding enqueue_input_task_def Let_def tq_def [symmetric] by (simp only: s1_def [symmetric] go_def [symmetric] s'_def bind.bind_lunit)
  have st: "sched_step s s'" unfolding s'_def
    by (rule sched_step_trans [OF sched_step_trans [OF st1 s2(2)] suspend_if_step [OF sched_step_ok [OF s2(2)]]])
  have a: "active_tqueues s' = active_tqueues s2" by (simp add: s'_def suspend_if_def Let_def)
  have f: "tq_input (tk_queues s2 i) = q" "tq_connected (tk_queues s2 i) = tq_connected tq" "tq_input_suspended (tk_queues s2 i) = tq_input_suspended tq"
    using usage_only [OF s2(4)] by (simp_all add: s1_def tq_def)
  show ?thesis using e st a f s2(3) q(3) by (auto simp: go_def tq_def s'_def suspend_if_queue)
qed

text \<open>Flushing ends, with the queue empty.\<close>

lemma flush_lines_ok:
  assumes "sched_ok s" "i \<in> queue_set s" "length (input_lines (tq_input (tk_queues s i))) = n"
  shows "\<exists>s'. flush_lines show_messages i s = Some s' \<and> sched_step s s' \<and> input_lines (tq_input (tk_queues s' i)) = []
    \<and> queue_set s' = queue_set s \<and> (\<forall>j. j \<noteq> i \<longrightarrow> tk_queues s' j = tk_queues s j)
    \<and> tq_bg (tk_queues s' i) = tq_bg (tk_queues s i) \<and> tq_num_bg_tasks (tk_queues s' i) = tq_num_bg_tasks (tk_queues s i)"
  using assms
proof (induction n arbitrary: s)
  case n: 0
  then have "input_lines (tq_input (tk_queues s i)) = []" by simp
  with dequeue_input_task_ok [OF sched_okD(5) [OF n(1,2)], of DQ_FIRST] obtain tq out where
    d: "dequeue_input_task (tk_queues s i) DQ_FIRST = Some (tq, None, out)" "queue_ok tq" "input_lines (tq_input tq) = []"
    and same: "tq\<lparr>tq_input := tq_input (tk_queues s i), tq_total_input_length := 0, tq_input_suspended := False\<rparr>
      = (tk_queues s i)\<lparr>tq_total_input_length := 0, tq_input_suspended := False\<rparr>" by auto
  note f = input_only [OF same]
  have "sched_step s (emit out (set_tq i (\<lambda>_. tq) s))"
    using d(2) f n(1) by (intro sched_step_trans [OF set_tq_step emit_step] sched_step_ok [OF set_tq_step]) auto
  with d f show ?case by (subst flush_lines.simps) simp
next
  case (Suc n)
  obtain l ls where ls: "input_lines (tq_input (tk_queues s i)) = l # ls" "length ls = n" using Suc.prems(3) by (auto simp: length_Suc_conv)
  have "asks (tk_queues s i) DQ_FIRST = (\<lambda>_. True)" by (auto simp: asks_def wants_def wanted_def)
  then have tk: "take_first (asks (tk_queues s i) DQ_FIRST) (input_lines (tq_input (tk_queues s i))) = (Some l, ls)" using ls by (simp add: take_first_all)
  obtain kind str where t: "line_task (tq_disable_oob (tk_queues s i)) l = (kind, str)" by fastforce
  from dequeue_input_task_ok [OF sched_okD(5) [OF Suc.prems(1,2)], of DQ_FIRST] obtain tq out where
    d: "dequeue_input_task (tk_queues s i) DQ_FIRST = Some (tq, Some (kind, str), out)" "queue_ok tq" "input_lines (tq_input tq) = ls"
    and same: "tq\<lparr>tq_input := tq_input (tk_queues s i), tq_total_input_length := 0, tq_input_suspended := False\<rparr>
      = (tk_queues s i)\<lparr>tq_total_input_length := 0, tq_input_suspended := False\<rparr>"
    unfolding tk fst_conv snd_conv option.map t by (elim exE conjE)
  note f = input_only [OF same]
  define s1 where "s1 = emit (if show_messages then [Notify (tq_player tq) (''>>     '' @ str)] else []) (emit out (set_tq i (\<lambda>_. tq) s))"
  have st: "sched_step s (set_tq i (\<lambda>_. tq) s)" using d(2) f Suc.prems(1) by (intro set_tq_step) auto
  have st1: "sched_step s s1" unfolding s1_def
    by (rule sched_step_trans [OF sched_step_trans [OF st emit_step [OF sched_step_ok [OF st]]] emit_step
          [OF sched_step_ok [OF sched_step_trans [OF st emit_step [OF sched_step_ok [OF st]]]]]])
  have "\<exists>s'. flush_lines show_messages i s1 = Some s' \<and> sched_step s1 s' \<and> input_lines (tq_input (tk_queues s' i)) = []
    \<and> queue_set s' = queue_set s1 \<and> (\<forall>j. j \<noteq> i \<longrightarrow> tk_queues s' j = tk_queues s1 j)
    \<and> tq_bg (tk_queues s' i) = tq_bg (tk_queues s1 i) \<and> tq_num_bg_tasks (tk_queues s' i) = tq_num_bg_tasks (tk_queues s1 i)"
    using ls(2) d(3) sched_step_ok [OF st1] sched_step_known [OF st1 Suc.prems(2)] by (intro Suc.IH) (auto simp: s1_def)
  moreover have "flush_lines show_messages i s = flush_lines show_messages i s1"
    by (subst flush_lines.simps) (simp add: d(1) s1_def emit_def)
  ultimately show ?case using sched_step_trans [OF st1] f by (auto simp: s1_def)
qed

lemma flush_input_ok:
  assumes "sched_ok s" "i \<in> queue_set s"
  shows "\<exists>s'. flush_input show_messages i s = Some s' \<and> sched_step s s'"
proof -
  have e: "sched_step t (if show_messages then emit os t else t)" if "sched_ok t" for t os
    using that emit_step sched_step_refl by simp
  define s1 where "s1 = (if show_messages then emit [Notify (tq_player (tk_queues s i)) ''>> Flushing the following pending input:''] s else s)"
  have st: "sched_step s s1" unfolding s1_def by (rule e [OF assms(1)])
  from flush_lines_ok [OF sched_step_ok [OF st] sched_step_known [OF st assms(2)] refl] obtain s2 where
    s2: "flush_lines show_messages i s1 = Some s2" "sched_step s1 s2" by blast
  show ?thesis
    using s2 e [OF assms(1)] sched_step_trans [OF sched_step_trans [OF st s2(2)] e [OF sched_step_ok [OF s2(2)]]]
    unfolding flush_input_def Let_def s1_def by auto
qed

lemma new_input_task_ok:
  assumes "sched_ok s" "i \<in> queue_set s"
  shows "\<exists>s'. new_input_task i input binary s = Some s' \<and> sched_step s s'"
proof -
  obtain s1 s2 where "flush_input True i s = Some s1 \<and> sched_step s s1" "enqueue_input_task i input False binary s = Some s2 \<and> sched_step s s2"
    using flush_input_ok [OF assms] enqueue_input_task_ok [OF assms refl] by metis
  then show ?thesis by (auto simp: new_input_task_def split: option.split)
qed

lemma find_then_set:
  assumes s: "sched_ok s" "find_tqueue p s = (i, s1)" and f: "\<And>tq. tq_usage (f tq) = tq_usage tq" "\<And>tq. queue_ok tq \<Longrightarrow> queue_ok (f tq)"
  shows "sched_step s (set_tq i f s1) \<and> i \<in> queue_set s1"
proof -
  note F = find_tqueue_ok [OF s]
  show ?thesis using sched_step_trans [OF F(1) set_tq_step [OF sched_step_ok [OF F(1)]]] f F(2) by blast
qed

lemma new_task_queue_ok:
  assumes "sched_ok s" "new_task_queue opt player handler s = (i, s')"
  shows "sched_step s s' \<and> i \<in> queue_set s'"
proof -
  obtain j s1 where f: "find_tqueue player s = (j, s1)" by fastforce
  have "sched_step s (set_tq j (\<lambda>tq. tq\<lparr>tq_connected := True, tq_handler := handler, tq_flush_cmd := default_flush_command opt\<rparr>) s1) \<and> j \<in> queue_set s1"
    by (rule find_then_set [OF assms(1) f]) (simp_all add: queue_ok_def)
  then show ?thesis using assms(2) by (auto simp: new_task_queue_def f)
qed

lemma set_then_ensure:
  assumes s: "sched_ok s" "i \<in> queue_set s" and f: "tq_usage (f (tk_queues s i)) = tq_usage (tk_queues s i)"
    "queue_ok (tk_queues s i) \<Longrightarrow> queue_ok (f (tk_queues s i))"
  shows "\<exists>s'. (if b then ensure_usage i (set_tq i f s) else Some (set_tq i f s)) = Some s' \<and> sched_step s s'"
proof -
  have st: "sched_step s (set_tq i f s)" by (rule set_tq_step) (use assms in auto)
  show ?thesis using ensure_usage_ok [OF sched_step_ok [OF st] sched_step_known [OF st s(2)]] st sched_step_trans [OF st] by (cases b) auto
qed

lemma free_task_queue_ok: "sched_ok s \<Longrightarrow> i \<in> queue_set s \<Longrightarrow> \<exists>s'. free_task_queue i s = Some s' \<and> sched_step s s'"
  unfolding free_task_queue_def Let_def by (rule set_then_ensure) (simp_all add: queue_ok_def)

text \<open>The test for a waiting line that is out of band, by the first line and by what follows the first run, is exact.\<close>

lemma oob_waiting_ok:
  assumes "iqueue_valid q"
  shows "oob_waiting q = Some (list_ex (\<lambda>l. fst l = TASK_OOB) (input_lines q))"
proof -
  from assms obtain as where ok: "iqueue_ok q as" by (auto simp: iqueue_valid_def)
  note D = iqueue_okD [OF ok]
  have k: "fst (the (entry_of q a)) = TASK_OOB \<longleftrightarrow> oob_at q a" if "a \<in> set as" for a
    using alive_heap [OF D(3) [OF that]] by auto
  then have L: "list_ex (\<lambda>l. fst l = TASK_OOB) (input_lines q) \<longleftrightarrow> (\<exists>a\<in>set as. oob_at q a)"
    by (auto simp: input_lines_ok [OF ok] list_ex_iff)
  show ?thesis
  proof (cases as)
    case Nil
    then show ?thesis using D(4) L by (simp add: oob_waiting_def)
  next
    case (Cons f cs)
    obtain r bs where r: "as = r @ bs" "r \<noteq> []" "\<And>a. a \<in> set r \<Longrightarrow> oob_at q a = oob_at q f" "bs \<noteq> [] \<Longrightarrow> oob_at q (hd bs) \<noteq> oob_at q f"
      using first_run [of as "oob_at q"] Cons by (metis list.distinct(1) list.sel(1))
    have "first_itail q = Some (last r)" using D(7) run_ends_run [of r "oob_at q" "oob_at q f" bs] r by simp
    moreover have "get_next q (Field (last r)) = Some (first_of bs None)"
      using D(3,5) r(1,2) by (cases r rule: rev_cases) (auto simp: slot_simps)
    moreover obtain n where "in_heap q f = Some n" "(t_kind n = TASK_OOB) = oob_at q f" using alive_heap [of q f] D(3) Cons by auto
    ultimately have "oob_waiting q = Some (bs \<noteq> [] \<or> oob_at q f)" using D(4) Cons by (cases bs) (simp_all add: oob_waiting_def)
    moreover have "f \<in> set r" using r(1,2) Cons by (metis hd_append2 list.sel(1) hd_in_set)
    have "(\<exists>a\<in>set as. oob_at q a) \<longleftrightarrow> bs \<noteq> [] \<or> oob_at q f"
    proof (cases "bs = []")
      case True
      then have "set as = set r" by (simp add: r(1))
      then show ?thesis using True r(3) \<open>f \<in> set r\<close> by blast
    next
      case False
      then have "hd bs \<in> set as" "f \<in> set as" unfolding r(1) using \<open>f \<in> set r\<close> by auto
      then show ?thesis using r(4) [OF False] False by blast
    qed
    ultimately show ?thesis using L by simp
  qed
qed

lemma pick_if:
  "\<exists>s b. f = Some (s, b) \<and> P s \<Longrightarrow> \<exists>s b. g = Some (s, b) \<and> P s \<Longrightarrow> \<exists>s b. (if c then f else g) = Some (s, b) \<and> P s"
  by simp

lemma tasks_set_connection_option_ok:
  assumes "sched_ok s" "i \<in> queue_set s"
  shows "\<exists>s' b. tasks_set_connection_option i option v s = Some (s', b) \<and> sched_step s s'"
proof -
  note Q = sched_okD(5) [OF assms]
  define s1 where "s1 = set_tq i (\<lambda>tq. tq\<lparr>tq_disable_oob := is_true v\<rparr>) s"
  have flush: "sched_step s (set_tq i (\<lambda>tq. tq\<lparr>tq_flush_cmd := c\<rparr>) s)" for c
    by (rule set_tq_step [OF assms(1)]) (simp_all add: queue_ok_def)
  have st: "sched_step s s1" unfolding s1_def by (rule set_tq_step [OF assms(1)]) (simp_all add: queue_ok_def)
  have hold: "\<exists>s'. (if b then ensure_usage i (set_tq i (\<lambda>tq. tq\<lparr>tq_hold_input := is_true v\<rparr>) s)
      else Some (set_tq i (\<lambda>tq. tq\<lparr>tq_hold_input := is_true v\<rparr>) s)) = Some s' \<and> sched_step s s'" for b
    by (rule set_then_ensure [OF assms]) (simp_all add: queue_ok_def)
  have oob: "\<exists>s'. (if b then ensure_usage i s1 else Some s1) = Some s' \<and> sched_step s s'" for b
    unfolding s1_def by (rule set_then_ensure [OF assms]) (simp_all add: queue_ok_def)
  have w: "\<exists>b. oob_waiting (tq_input (tk_queues s1 i)) = Some b"
    using oob_waiting_ok [of "tq_input (tk_queues s i)"] Q by (simp add: s1_def queue_ok_def)
  have icmd: "sched_step s (set_tq i (\<lambda>_. tq) s)" if "icmd_set_flags (tk_queues s i) v = Some tq" for tq
    by (rule set_tq_step [OF assms(1)]) (use that in \<open>auto simp: icmd_set_flags_def queue_ok_def\<close>)
  have oob': "\<exists>s' b. (if is_true v then Some (s1, True) else do { w \<leftarrow> oob_waiting (tq_input (tk_queues s1 i));
      map_option (\<lambda>s. (s, True)) (if w then ensure_usage i s1 else Some s1) }) = Some (s', b) \<and> sched_step s s'"
  proof -
    obtain b where "oob_waiting (tq_input (tk_queues s1 i)) = Some b" using w by blast
    then show ?thesis using oob [of b] st by (cases "is_true v") auto
  qed
  have hold': "\<exists>s' b. map_option (\<lambda>s. (s, True)) (if c then ensure_usage i (set_tq i (\<lambda>tq. tq\<lparr>tq_hold_input := is_true v\<rparr>) s)
      else Some (set_tq i (\<lambda>tq. tq\<lparr>tq_hold_input := is_true v\<rparr>) s)) = Some (s', b) \<and> sched_step s s'" for c
    using hold [of c] by auto
  have icmd': "\<exists>s' b. Some (case icmd_set_flags (tk_queues s i) v of None \<Rightarrow> (s, False) | Some tq \<Rightarrow> (set_tq i (\<lambda>_. tq) s, True)) = Some (s', b)
      \<and> sched_step s s'"
    using icmd sched_step_refl [OF assms(1)] by (cases "icmd_set_flags (tk_queues s i) v") auto
  have fl: "\<exists>s' b. Some (set_tq i (\<lambda>tq. tq\<lparr>tq_flush_cmd := c\<rparr>) s, True) = Some (s', b) \<and> sched_step s s'" for c using flush by blast
  show ?thesis
    unfolding tasks_set_connection_option_def Let_def s1_def [symmetric]
    by (rule pick_if, rule fl, rule pick_if, rule hold', rule pick_if, rule oob', rule pick_if, rule icmd')
      (use sched_step_refl [OF assms(1)] in blast)
qed

end
