(* ===== verification/BgLaws.thy ===== *)
theory BgLaws
  imports TaskLaws
begin

text \<open>Background tasks: every operation on them returns and keeps the invariant of the task queues; the waiting tasks form a stable queue by start time.\<close>

section \<open>Waiting\<close>

text \<open>A task is put behind all that start no later and before all that start later.\<close>

lemma insert_waiting_place:
  "by_start us \<Longrightarrow> insert_waiting t us = filter (\<lambda>u. GET_START_TIME u \<le> GET_START_TIME t) us @ t # filter (\<lambda>u. GET_START_TIME t < GET_START_TIME u) us"
proof (induction us)
  case (Cons u us)
  then have IH: "insert_waiting t us = filter (\<lambda>u. GET_START_TIME u \<le> GET_START_TIME t) us @ t # filter (\<lambda>u. GET_START_TIME t < GET_START_TIME u) us"
    and u: "\<forall>v\<in>set us. GET_START_TIME u \<le> GET_START_TIME v" by (auto simp: by_start_def)
  show ?case
  proof (cases "GET_START_TIME t < GET_START_TIME u")
    case True
    with u have "filter (\<lambda>u. GET_START_TIME u \<le> GET_START_TIME t) us = []" "filter (\<lambda>u. GET_START_TIME t < GET_START_TIME u) us = us"
      by (auto simp: filter_empty_conv filter_id_conv)
    with True show ?thesis by simp
  qed (use IH in simp)
qed simp

lemma insert_waiting_set [simp]: "set (insert_waiting t us) = insert t (set us)"
  by (induction us) auto

lemma insert_waiting_sorted: "by_start us \<Longrightarrow> by_start (insert_waiting t us)"
  unfolding by_start_def by (induction us) fastforce+

lemma enqueue_waiting_step:
  assumes "sched_ok s"
  shows "sched_step s (enqueue_waiting t s) \<and> waiting_tasks (enqueue_waiting t s) = insert_waiting t (waiting_tasks s)"
proof -
  obtain i s1 where f: "find_tqueue (task_progr t) s = (i, s1)" by fastforce
  note F = find_tqueue_ok [OF assms f]
  have st: "sched_step s (set_tq i (\<lambda>tq. tq\<lparr>tq_num_bg_tasks := tq_num_bg_tasks tq + 1\<rparr>) s1)"
    by (rule find_then_set [OF assms f, THEN conjunct1]) (simp_all add: queue_ok_def)
  have w: "by_start (insert_waiting t (waiting_tasks s))" by (rule insert_waiting_sorted [OF sched_okD(9) [OF assms]])
  show ?thesis using sched_step_trans [OF st waiting_step [OF sched_step_ok [OF st]]] w F(4) by (simp add: enqueue_waiting_def f)
qed

lemma check_user_task_limit_returns:
  assumes ok: "db_ok db"
  shows "\<exists>b. check_user_task_limit limit_option db user s = Some b"
proof (cases "valid db user")
  case True
  have n: "nul_free ''queued_task_limit''" "find_builtin ''queued_task_limit'' = None" by code_simp+
  have "\<exists>h v. db_find_property True db user ''queued_task_limit'' = Some (h, v)"
    using db_find_property_present [OF db_okD(3,5) [OF ok] n(1) True n(2), of True]
      db_find_property_absent [OF db_okD(3,5) [OF ok] n(1) True n(2), of True] by blast
  then show ?thesis by (auto simp: check_user_task_limit_def True)
qed (simp add: check_user_task_limit_def)

text \<open>Forking and suspending return, unless the variable for the number of the task does not exist.\<close>

lemma enqueue_forked_task2_ok:
  assumes "sched_ok s" "db_ok db" "\<And>i. vid = Some i \<Longrightarrow> i < length (a_rt_env a)"
  shows "\<exists>s' n. enqueue_forked_task2 limit_option a f_index secs vid db s = Some (s', n) \<and> sched_step s s'
    \<and> (check_user_task_limit limit_option db (a_progr a) s = Some False \<longrightarrow> n = None \<and> s' = s)"
proof -
  obtain ok where l: "check_user_task_limit limit_option db (a_progr a) s = Some ok" using check_user_task_limit_returns [OF assms(2)] by blast
  show ?thesis
  proof (cases ok)
    case True
    obtain n s1 where n: "new_task_id s = (n, s1)" by fastforce
    obtain now s2 where t: "time0 s1 = (now, s2)" by fastforce
    note st1 = new_task_id_step [OF n assms(1)]
    note st2 = sched_step_trans [OF st1 time0_step [OF t sched_step_ok [OF st1]]]
    have "\<exists>b. (case vid of None \<Rightarrow> Some a | Some i \<Rightarrow> set_env i (TYPE_INT n) a) = Some b"
      using assms(3) by (cases vid) (auto simp: set_env_def)
    then obtain b where b: "(case vid of None \<Rightarrow> Some a | Some i \<Rightarrow> set_env i (TYPE_INT n) a) = Some b" by blast
    show ?thesis
      using l True n t b sched_step_trans [OF st2 enqueue_waiting_step [OF sched_step_ok [OF st2], THEN conjunct1]]
      by (simp add: enqueue_forked_task2_def enqueue_ft_def)
  qed (use l sched_step_refl [OF assms(1)] in \<open>simp add: enqueue_forked_task2_def\<close>)
qed

lemma enqueue_suspended_ok:
  assumes "sched_ok s" "db_ok db"
  shows "\<exists>s' e. enqueue_suspended limit_option the_vm secs db s = Some (s', e) \<and> sched_step s s'"
proof -
  obtain t s1 where t: "time0 s = (t, s1)" by fastforce
  note st = time0_step [OF t assms(1)]
  obtain ok where l: "check_user_task_limit limit_option db (progr_of_cur_verb the_vm) s1 = Some ok"
    using check_user_task_limit_returns [OF assms(2)] by blast
  show ?thesis
    using t l st sched_step_trans [OF st enqueue_waiting_step [OF sched_step_ok [OF st], THEN conjunct1]]
    by (cases ok) (simp_all add: enqueue_suspended_def Let_def)
qed

lemma bg_step: "sched_ok s \<Longrightarrow> sched_step s (enqueue_bg_task i t s)"
  unfolding enqueue_bg_task_def by (rule set_tq_step) (simp_all add: queue_ok_def)

lemma resume_task_ok:
  assumes "sched_ok s"
  shows "\<exists>s'. resume_task the_vm v s = Some s' \<and> sched_step s s'"
proof -
  obtain i s1 where f: "find_tqueue (progr_of_cur_verb the_vm) s = (i, s1)" by fastforce
  note F = find_tqueue_ok [OF assms f]
  note st = sched_step_trans [OF F(1) bg_step [OF sched_step_ok [OF F(1)], of i "Suspended_task the_vm 0 v"]]
  have "i \<in> queue_set (enqueue_bg_task i (Suspended_task the_vm 0 v) s1)" using F(2) by (simp add: enqueue_bg_task_def)
  from ensure_usage_ok [OF sched_step_ok [OF st] this] show ?thesis using sched_step_trans [OF st] by (auto simp: resume_task_def f)
qed

section \<open>Reading\<close>

lemma dequeue_step:
  assumes "sched_ok s" "i \<in> queue_set s"
  shows "\<exists>tq t out. dequeue_input_task (tk_queues s i) how = Some (tq, t, out) \<and> sched_step s (emit out (set_tq i (\<lambda>_. tq) s))"
proof -
  from dequeue_input_task_ok [OF sched_okD(5) [OF assms], of how] obtain tq t out where
    d: "dequeue_input_task (tk_queues s i) how = Some (tq, t, out)" "queue_ok tq"
    and same: "tq\<lparr>tq_input := tq_input (tk_queues s i), tq_total_input_length := 0, tq_input_suspended := False\<rparr>
      = (tk_queues s i)\<lparr>tq_total_input_length := 0, tq_input_suspended := False\<rparr>" by blast
  have st: "sched_step s (set_tq i (\<lambda>_. tq) s)"
    by (rule set_tq_step) (use d(2) input_only [OF same] assms(1) in simp_all)
  show ?thesis using d(1) sched_step_trans [OF st emit_step [OF sched_step_ok [OF st]]] by blast
qed

lemma read_input_now_ok:
  assumes "sched_ok s"
  shows "\<exists>s' v. read_input_now connection s = Some (s', v) \<and> sched_step s s'"
proof (cases "lookup_tqueue connection s")
  case (Some i)
  from dequeue_step [OF assms, of i DQ_INBAND] lookup_tqueue_known [OF Some] obtain tq t out where
    "dequeue_input_task (tk_queues s i) DQ_INBAND = Some (tq, t, out)" "sched_step s (emit out (set_tq i (\<lambda>_. tq) s))" by blast
  then show ?thesis using sched_step_refl [OF assms] by (simp add: read_input_now_def Some)
qed (use sched_step_refl [OF assms] in \<open>simp add: read_input_now_def\<close>)

lemma start_reading_ok:
  assumes "sched_ok s"
  shows "\<exists>s' e. start_reading the_vm player s = Some (s', e) \<and> sched_step s s'"
proof (cases "lookup_tqueue player s")
  case (Some i)
  have "i \<in> queue_set s" using lookup_tqueue_known [OF Some] by simp
  from set_then_ensure [OF assms this, of "\<lambda>tq. tq\<lparr>tq_reading := Some the_vm\<rparr>" "first_line (tk_queues s i)"] obtain s' where
    "(if first_line (tk_queues s i) then ensure_usage i (set_tq i (\<lambda>tq. tq\<lparr>tq_reading := Some the_vm\<rparr>) s)
      else Some (set_tq i (\<lambda>tq. tq\<lparr>tq_reading := Some the_vm\<rparr>) s)) = Some s'" "sched_step s s'" by (auto simp: queue_ok_def)
  then show ?thesis using sched_step_refl [OF assms] by (simp add: start_reading_def Some first_line_def)
qed (use sched_step_refl [OF assms] in \<open>simp add: start_reading_def\<close>)

section \<open>Killing and resuming\<close>

lemma by_start_tl: "by_start (xs @ ys) \<Longrightarrow> by_start (xs @ tl ys)"
  by (cases ys) (auto simp: by_start_def sorted_wrt_append)

lemma by_start_drop: "by_start ts \<Longrightarrow> by_start (takeWhile P ts @ tl (dropWhile P ts))"
  by (rule by_start_tl) simp

lemma kill_task_step: "sched_ok s \<Longrightarrow> kill_task n owner db s = (s', e) \<Longrightarrow> sched_step s s'"
proof -
  assume ok: "sched_ok s" and k: "kill_task n owner db s = (s', e)"
  note r = sched_step_refl [OF ok]
  have set: "sched_step s (set_tq i (\<lambda>tq. tq\<lparr>tq_num_bg_tasks := tq_num_bg_tasks tq - 1\<rparr>) s)" "sched_step s (set_tq i (\<lambda>tq. tq\<lparr>tq_reading := None\<rparr>) s)"
    "sched_step s (set_tq i (\<lambda>tq. if reading_is n tq then tq\<lparr>tq_reading := None\<rparr>
         else tq\<lparr>tq_bg := drop_waiting n (tq_bg tq), tq_num_bg_tasks := tq_num_bg_tasks tq - 1\<rparr>) s)" for i
    by (rule set_tq_step [OF ok]; simp add: queue_ok_def)+
  have w: "sched_step s (t\<lparr>waiting_tasks := drop_waiting n (waiting_tasks s)\<rparr>)" if "sched_step s t" for t
    by (rule sched_step_trans [OF that waiting_step [OF sched_step_ok [OF that]]])
      (simp add: drop_waiting_def by_start_drop sched_okD(9) [OF ok])
  show "sched_step s s'" using k r set w unfolding kill_task_def by (auto split: if_splits option.splits)
qed

lemma do_resume_ok:
  assumes "sched_ok s"
  shows "\<exists>s' e. do_resume n v progr db s = Some (s', e) \<and> sched_step s s'"
proof (cases "find (is_suspended n) (waiting_tasks s)")
  case (Some t)
  obtain now s1 where t1: "time0 s = (now, s1)" by fastforce
  obtain i s2 where f: "find_tqueue (task_progr t) s1 = (i, s2)" by fastforce
  note st1 = time0_step [OF t1 assms]
  note F = find_tqueue_ok [OF sched_step_ok [OF st1] f]
  note st2 = sched_step_trans [OF st1 F(1)]
  define s3 where "s3 = s2\<lparr>waiting_tasks := drop_suspended n (waiting_tasks s2)\<rparr>"
  have st3: "sched_step s s3" unfolding s3_def
    by (rule sched_step_trans [OF st2 waiting_step [OF sched_step_ok [OF st2]]])
      (simp add: drop_suspended_def by_start_drop sched_okD(9) [OF sched_step_ok [OF st2]])
  have "i \<in> queue_set s3" using F(2) by (simp add: s3_def queue_set_def)
  from ensure_usage_ok [OF sched_step_ok [OF st3] this] obtain s4 where s4: "ensure_usage i s3 = Some s4" "sched_step s3 s4" by blast
  note st4 = sched_step_trans [OF st3 s4(2)]
  show ?thesis
    using sched_step_refl [OF assms] sched_step_trans [OF st4 bg_step [OF sched_step_ok [OF st4]]] s4(1) t1 f
    by (auto simp: do_resume_def Some s3_def)
next
  case None
  have "sched_step s (set_tq i (\<lambda>tq. tq\<lparr>tq_bg := give_value n v (tq_bg tq)\<rparr>) s)" for i by (rule set_tq_step [OF assms]) (simp_all add: queue_ok_def)
  then show ?thesis using sched_step_refl [OF assms] None by (auto simp: do_resume_def split: option.split)
qed

end
