(* ===== verification/VmFrame.thy ===== *)
theory VmFrame
  imports Vm
begin

text \<open>
  The interpreter touches the task queues only through the services: whatever suspending, forking and the built-in
  functions keep of the queues, a run of the interpreter keeps.
\<close>

lemma in_tasks_simps [simp]:
  "in_tasks (set_vm vm s) = in_tasks s" "in_tasks (set_run a s) = in_tasks s" "in_tasks (pop_activ s) = in_tasks s"
  "in_tasks (save_handler_info v args s) = in_tasks s" "in_tasks (fresh_vm sv s) = in_tasks s"
  "in_tasks (count_extended bc a op s) = in_tasks s" "in_tasks (setup_task_execution_limits sv fg s) = in_tasks s"
  by (simp_all add: set_vm_def set_run_def pop_activ_def save_handler_info_def fresh_vm_def count_extended_def
      setup_task_execution_limits_def Let_def)

fun result_tasks :: "'w result \<Rightarrow> 'w" where
  "result_tasks (Running s) = in_tasks s"
| "result_tasks (Stopped s out res) = in_tasks s"

locale vm_frame =
  fixes sv :: "'w services" and P :: "'w \<Rightarrow> bool"
  assumes suspend_keeps: "P w \<Longrightarrow> sv_suspend sv proc data vm root db w = Some (w', e) \<Longrightarrow> P w'"
    and fork_keeps: "P w \<Longrightarrow> sv_fork sv a f n vid db w = Some (w', t) \<Longrightarrow> P w'"
    and bf_keeps: "bf \<in> set (sv_bf_table sv) \<Longrightarrow> P (in_tasks s) \<Longrightarrow> bf_func bf s args pc data progr = Some (s', p) \<Longrightarrow> P (in_tasks s')"
begin

lemma bf_nth_keeps:
  "bf_func (sv_bf_table sv ! n) s args pc data progr = Some (s', p) \<Longrightarrow> \<not> length (sv_bf_table sv) \<le> n \<Longrightarrow> P (in_tasks s) \<Longrightarrow> P (in_tasks s')"
  by (rule bf_keeps [OF nth_mem]) auto

lemma call_bi_func_keeps: "call_bi_func sv s n args pc progr data = Some (s', p) \<Longrightarrow> P (in_tasks s) \<Longrightarrow> P (in_tasks s')"
  unfolding call_bi_func_def Let_def
  by (auto simp: bind_eq_Some_conv split: if_splits var.splits option.splits prod.splits dest: bf_nth_keeps)

lemma squelch_keeps:
  assumes r: "squelch sv place n pc data s = Some s'" and p: "P (in_tasks s)"
  shows "P (in_tasks s')"
proof -
  have "sv = sv \<longrightarrow> P (in_tasks s) \<longrightarrow> P (in_tasks s')"
  proof (rule squelch.raw_induct [where P = "\<lambda>sv' place n pc data s s'. sv' = sv \<longrightarrow> P (in_tasks s) \<longrightarrow> P (in_tasks s')", OF _ r], intro impI)
    fix rec sv' place n pc data s s'
    assume IH: "\<And>sv' place n pc data s s'. rec sv' place n pc data s = Some s' \<Longrightarrow> sv' = sv \<longrightarrow> P (in_tasks s) \<longrightarrow> P (in_tasks s')"
      and e: "do { a \<leftarrow> nth_opt (activ_stack (in_vm s)) place;
          (s, p) \<leftarrow> call_bi_func sv' s n zero_var pc (a_progr a) data;
          (case p of
             BI_CALL pc data \<Rightarrow> if pc \<noteq> 0 then rec sv' place n pc data (pop_activ s) else Some (pop_activ s)
           | _ \<Rightarrow> Some s) } = Some s'" and sv: "sv' = sv" "P (in_tasks s)"
    from e sv(1) obtain a :: activation and s1 p where c: "call_bi_func sv s n zero_var pc (a_progr a) data = Some (s1, p)"
      and r: "(case p of BI_CALL pc data \<Rightarrow> if 0 < pc then rec sv place n pc data (pop_activ s1) else Some (pop_activ s1) | _ \<Rightarrow> Some s1) = Some s'"
      by (auto simp: bind_eq_Some_conv)
    have "P (in_tasks s1)" using call_bi_func_keeps [OF c] sv by simp
    then show "P (in_tasks s')" using r IH [of sv] by (cases p) (auto split: if_splits)
  qed
  with p show ?thesis by simp
qed

lemma unwind_stack_keeps:
  assumes r: "unwind_stack sv why val s = Some (s', out)" and p: "P (in_tasks s)"
  shows "P (in_tasks s')"
proof -
  have "sv = sv \<longrightarrow> P (in_tasks s) \<longrightarrow> P (in_tasks (fst (s', out)))"
  proof (rule unwind_stack.raw_induct [where P = "\<lambda>sv' why val s r. sv' = sv \<longrightarrow> P (in_tasks s) \<longrightarrow> P (in_tasks (fst r))", OF _ r], intro impI)
    fix rec sv' why val s r
    assume IH: "\<And>sv' why val s r. rec sv' why val s = Some r \<Longrightarrow> sv' = sv \<longrightarrow> P (in_tasks s) \<longrightarrow> P (in_tasks (fst r))"
      and e: "do { code \<leftarrow> raised_code why val;
          goal \<leftarrow> unwind_goal why val;
          a \<leftarrow> RUN_ACTIV (in_vm s);
          (a, found) \<leftarrow> unwind_rt why val code goal a;
          if found then Some (set_run a s, None)
          else if why = FIN_EXIT then do { lab \<leftarrow> exit_label val; Some (set_run (a\<lparr>a_pc := lab\<rparr>) s, None) }
          else if top_activ_stack (in_vm s) = 0 then Some (s, Some OUTCOME_ABORTED)
          else if a_bi_func_pc a = 0 then rec sv' why val (pop_activ s)
          else do { s \<leftarrow> squelch sv' (top_activ_stack (in_vm s)) (a_bi_func_id a) (a_bi_func_pc a) (a_bi_func_data a) (pop_activ s);
                    rec sv' why val s } } = Some r" and sv: "sv' = sv" "P (in_tasks s)"
    have IH': "P (in_tasks (fst r))" if "rec sv why val t = Some r" "P (in_tasks t)" for t using IH [OF that(1)] that(2) by simp
    from e obtain af :: "activation \<times> bool" where u: "(case af of (a, found) \<Rightarrow> if found then Some (set_run a s, None)
          else if why = FIN_EXIT then do { lab \<leftarrow> exit_label val; Some (set_run (a\<lparr>a_pc := lab\<rparr>) s, None) }
          else if top_activ_stack (in_vm s) = 0 then Some (s, Some OUTCOME_ABORTED)
          else if a_bi_func_pc a = 0 then rec sv why val (pop_activ s)
          else do { s \<leftarrow> squelch sv (top_activ_stack (in_vm s)) (a_bi_func_id a) (a_bi_func_pc a) (a_bi_func_data a) (pop_activ s);
                    rec sv why val s }) = Some r" unfolding sv(1) bind_eq_Some_conv by (elim exE conjE)
    obtain a found where "af = (a, found)" by fastforce
    with u show "P (in_tasks (fst r))"
      using sv(2) IH' squelch_keeps [where s = "pop_activ s"]
      by (cases found; cases "why = FIN_EXIT"; cases "top_activ_stack (in_vm s) = 0"; cases "a_bi_func_pc a = 0") (auto simp: bind_eq_Some_conv)
  qed
  with p show ?thesis by simp
qed

lemma suspend_task_keeps: "suspend_task sv proc data s = Some (s', e) \<Longrightarrow> P (in_tasks s) \<Longrightarrow> P (in_tasks s')"
  by (auto simp: suspend_task_def Let_def bind_eq_Some_conv intro: suspend_keeps)

lemma raise_error_keeps: "raise_error sv code msg val s = Some (s', out) \<Longrightarrow> P (in_tasks s) \<Longrightarrow> P (in_tasks s')"
  by (auto simp: raise_error_def bind_eq_Some_conv split: option.splits dest: unwind_stack_keeps)

lemma abort_task_keeps: "abort_task sv reason s = Some s' \<Longrightarrow> P (in_tasks s) \<Longrightarrow> P (in_tasks s')"
  by (auto simp: abort_task_def Let_def split: abort_reason.splits dest!: unwind_stack_keeps)

lemma unwind_return_keeps: "unwind_return sv val s = Some (s', out) \<Longrightarrow> P (in_tasks s) \<Longrightarrow> P (in_tasks s')"
  unfolding unwind_return_def Let_def
  by (auto simp: bind_eq_Some_conv split: if_split_asm dest!: call_bi_func_keeps)
    (auto simp: bind_eq_Some_conv split: if_split_asm package.split_asm dest!: raise_error_keeps suspend_task_keeps abort_task_keeps)

lemma do_raise_keeps: "do_raise sv e a b s = Some r \<Longrightarrow> P (in_tasks s) \<Longrightarrow> P (result_tasks r)"
  by (auto simp: do_raise_def bind_eq_Some_conv split: if_split_asm dest!: raise_error_keeps)

lemma do_abort_keeps: "do_abort sv reason s = Some r \<Longrightarrow> P (in_tasks s) \<Longrightarrow> P (result_tasks r)"
  by (auto simp: do_abort_def bind_eq_Some_conv dest!: abort_task_keeps)

lemma do_fork_keeps: "do_fork sv f secs ident a s = Some r \<Longrightarrow> P (in_tasks s) \<Longrightarrow> P (result_tasks r)"
  by (auto simp: do_fork_def Let_def bind_eq_Some_conv)
    (auto simp: bind_eq_Some_conv split: option.split_asm dest!: do_raise_keeps dest: fork_keeps [rotated])

lemma do_call_verb_keeps: "do_call_verb sv x vname args a s = Some r \<Longrightarrow> P (in_tasks s) \<Longrightarrow> P (result_tasks r)"
  by (auto simp: do_call_verb_def Let_def bind_eq_Some_conv split: if_split_asm dest!: do_raise_keeps)

lemma do_call_bi_keeps: "do_call_bi sv n args a s = Some r \<Longrightarrow> P (in_tasks s) \<Longrightarrow> P (result_tasks r)"
  unfolding do_call_bi_def Let_def
  by (auto simp: bind_eq_Some_conv dest!: call_bi_func_keeps)
    (auto simp: bind_eq_Some_conv split: if_split_asm package.split_asm
      dest!: raise_error_keeps suspend_task_keeps do_abort_keeps do_raise_keeps)

lemma do_return_keeps: "do_return sv v a b s = Some r \<Longrightarrow> P (in_tasks s) \<Longrightarrow> P (result_tasks r)"
  by (auto simp: do_return_def bind_eq_Some_conv split: option.split dest!: unwind_return_keeps)

lemma do_unwind_keeps: "do_unwind sv why v a s = Some r \<Longrightarrow> P (in_tasks s) \<Longrightarrow> P (result_tasks r)"
  by (auto simp: do_unwind_def bind_eq_Some_conv split: option.split if_split_asm dest!: unwind_stack_keeps do_return_keeps)

lemma carry_out_keeps: "carry_out sv eff s = Some r \<Longrightarrow> P (in_tasks s) \<Longrightarrow> P (result_tasks r)"
  by (auto simp: carry_out_def split: effect.split_asm if_split_asm
      dest!: do_raise_keeps do_abort_keeps do_fork_keeps do_call_verb_keeps do_call_bi_keeps do_return_keeps do_unwind_keeps)

lemma step_keeps: "step sv timed_out s = Some r \<Longrightarrow> P (in_tasks s) \<Longrightarrow> P (result_tasks r)"
  by (auto simp: step_def Let_def bind_eq_Some_conv split: if_split_asm dest!: do_abort_keeps carry_out_keeps)

lemma run_loop_keeps:
  assumes r: "run_loop sv clock n s = Some (s', out, res)" and p: "P (in_tasks s)"
  shows "P (in_tasks s')"
proof -
  have "sv = sv \<longrightarrow> P (in_tasks s) \<longrightarrow> P (in_tasks (fst (s', out, res)))"
  proof (rule run_loop.raw_induct [where P = "\<lambda>sv' clock n s r. sv' = sv \<longrightarrow> P (in_tasks s) \<longrightarrow> P (in_tasks (fst r))", OF _ r], intro impI)
    fix rec sv' clock n s r
    assume IH: "\<And>sv' clock n s r. rec sv' clock n s = Some r \<Longrightarrow> sv' = sv \<longrightarrow> P (in_tasks s) \<longrightarrow> P (in_tasks (fst r))"
      and e: "do { r \<leftarrow> step sv' (clock n) s; (case r of Running s \<Rightarrow> rec sv' clock (n + 1) s | Stopped s out res \<Rightarrow> Some (s, out, res)) } = Some r"
      and sv: "sv' = sv" "P (in_tasks s)"
    from e sv(1) obtain q where q: "step sv (clock n) s = Some q" "(case q of Running s \<Rightarrow> rec sv clock (n + 1) s | Stopped s out res \<Rightarrow> Some (s, out, res)) = Some r"
      unfolding bind_eq_Some_conv by blast
    show "P (in_tasks (fst r))" using q(2) step_keeps [OF q(1) sv(2)] IH [of sv clock "n + 1"] by (cases q) auto
  qed
  with p show ?thesis by simp
qed

lemma run_keeps: "run sv clock e s = Some (s', out, res) \<Longrightarrow> P (in_tasks s) \<Longrightarrow> P (in_tasks s')"
proof -
  assume r: "run sv clock e s = Some (s', out, res)" and p: "P (in_tasks s)"
  show "P (in_tasks s')"
  proof (cases e)
    case None
    then show ?thesis using r p run_loop_keeps by (simp add: run_def)
  next
    case (Some err)
    with r obtain a q where q: "do_raise sv err (a\<lparr>a_error_pc := a_pc a\<rparr>) (PUSH (TYPE_ERR err) (a\<lparr>a_error_pc := a_pc a\<rparr>)) s = Some q"
      "(case q of Running s \<Rightarrow> run_loop sv clock 0 s | Stopped s out res \<Rightarrow> Some (s, out, res)) = Some (s', out, res)"
      by (auto simp: run_def Let_def bind_eq_Some_conv)
    show ?thesis using q(2) do_raise_keeps [OF q(1) p] run_loop_keeps by (cases q) auto
  qed
qed

lemma run_limited_keeps: "run_limited sv clock e fg s = Some (s', out, res) \<Longrightarrow> P (in_tasks s) \<Longrightarrow> P (in_tasks s')"
  unfolding run_limited_def by (drule run_keeps) simp_all

lemma notify_lines_keeps: "notify_lines args s = Some s' \<Longrightarrow> in_tasks s' = in_tasks s"
proof -
  assume n: "notify_lines args s = Some s'"
  then obtain xs where a: "args = TYPE_LIST xs" by (cases args) (auto simp: notify_lines_def bind_eq_Some_conv)
  define l where "l = (if xs = [] then TYPE_NONE else last xs)"
  show ?thesis using n unfolding notify_lines_def a var.case l_def [symmetric] by (cases l) (auto simp: bind_eq_Some_conv)
qed

lemma server_program_state_keeps:
  "server_program_state sv this verb args vloc verbname prog progr debug player argstr s = Some s' \<Longrightarrow> in_tasks s' = in_tasks s"
  by (auto simp: server_program_state_def start_task_def Let_def bind_eq_Some_conv)

lemma run_no_traceback_keeps: "run_no_traceback sv clock e fg s = Some (s', out, res) \<Longrightarrow> P (in_tasks s) \<Longrightarrow> P (in_tasks s')"
  by (auto simp: run_no_traceback_def bind_eq_Some_conv dest!: run_limited_keeps)
    (auto simp: bind_eq_Some_conv split: option.split_asm if_split_asm dest!: notify_lines_keeps)

lemma run_handler_keeps: "run_handler sv clock player vname args s = Some (s', b) \<Longrightarrow> P (in_tasks s) \<Longrightarrow> P (in_tasks s')"
  by (auto simp: run_handler_def Let_def bind_eq_Some_conv split: if_split_asm dest!: run_no_traceback_keeps server_program_state_keeps)
    (auto simp: bind_eq_Some_conv split: outcome.split_asm)

lemma run_interpreter_keeps: "run_interpreter sv clock clock2 e fg tb s = Some (s', out, res) \<Longrightarrow> P (in_tasks s) \<Longrightarrow> P (in_tasks s')"
  by (auto simp: run_interpreter_def bind_eq_Some_conv dest!: run_limited_keeps)
    (auto simp: bind_eq_Some_conv split: option.split_asm if_split_asm dest!: run_handler_keeps notify_lines_keeps)

lemma start_task_keeps: "start_task prog which s = Some s' \<Longrightarrow> in_tasks s' = in_tasks s"
  by (auto simp: start_task_def bind_eq_Some_conv)

lemma tasks_keep:
  "do_server_program_task sv c c2 this verb args vloc verbname prog progr debug player argstr tb s = Some (s', out, res) \<Longrightarrow> P (in_tasks s) \<Longrightarrow> P (in_tasks s')"
  "do_input_task sv c c2 user pc this vh s = Some (s', out, res) \<Longrightarrow> P (in_tasks s) \<Longrightarrow> P (in_tasks s')"
  "do_forked_task sv c c2 prog env a f s = Some (s', out, res) \<Longrightarrow> P (in_tasks s) \<Longrightarrow> P (in_tasks s')"
  by (auto simp: do_server_program_task_def do_input_task_def do_forked_task_def Let_def bind_eq_Some_conv
      dest!: run_interpreter_keeps server_program_state_keeps start_task_keeps)

lemma resume_from_previous_vm_keeps:
  "resume_from_previous_vm sv c c2 the_vm root v s = Some (s', out, res) \<Longrightarrow> P (in_tasks s) \<Longrightarrow> P (in_tasks s')"
  unfolding resume_from_previous_vm_def Let_def
  by (cases v) (auto simp: bind_eq_Some_conv dest!: run_interpreter_keeps)

end

end
