(* ===== verification/SchedulerLaws.thy ===== *)
theory SchedulerLaws
  imports BgLaws VmFrame
begin

text \<open>
  The scheduler with the interpreter: however the tasks that are run use the queues, a turn of the scheduler keeps the invariant.
  The interface is a locale: the services of the interpreter are those of the task queues, and the built-in functions and the server
  module change the queues by its operations only.
\<close>

section \<open>Services\<close>

lemma enqueue_forked_task2_step:
  assumes "enqueue_forked_task2 limit_option a f n vid db s = Some (s', t)" "sched_ok s"
  shows "sched_step s s'"
proof -
  from assms(1) obtain ok where ok: "check_user_task_limit limit_option db (a_progr a) s = Some ok"
    by (auto simp: enqueue_forked_task2_def bind_eq_Some_conv)
  obtain m s1 where m: "new_task_id s = (m, s1)" by fastforce
  obtain now s2 where t: "time0 s1 = (now, s2)" by fastforce
  note st1 = new_task_id_step [OF m assms(2)]
  note st2 = sched_step_trans [OF st1 time0_step [OF t sched_step_ok [OF st1]]]
  show ?thesis
    using assms ok m t sched_step_refl [OF assms(2)] sched_step_trans [OF st2 enqueue_waiting_step [OF sched_step_ok [OF st2], THEN conjunct1]]
    by (auto simp: enqueue_forked_task2_def enqueue_ft_def bind_eq_Some_conv split: if_split_asm)
qed

lemma enqueue_suspended_step:
  assumes "enqueue_suspended limit_option the_vm n db s = Some (s', err)" "sched_ok s"
  shows "sched_step s s'"
proof -
  obtain t s1 where t: "time0 s = (t, s1)" by fastforce
  note st = time0_step [OF t assms(2)]
  show ?thesis
    using assms(1) t st sched_step_trans [OF st enqueue_waiting_step [OF sched_step_ok [OF st], THEN conjunct1]]
    by (auto simp: enqueue_suspended_def Let_def bind_eq_Some_conv split: if_split_asm)
qed

lemma suspend_service_step:
  assumes "suspend_service limit_option proc data vm root db s = Some (s', err)" "sched_ok s"
  shows "sched_step s s'"
proof -
  have r: "sched_step s s'" if "start_reading v x s = Some (s', err)" for v x
    using start_reading_ok [OF assms(2), of v x] that by auto
  show ?thesis
    using assms r by (auto simp: suspend_service_def Let_def split: suspender.split_asm bi_data.split_asm dest: enqueue_suspended_step)
qed

section \<open>Moving tasks at a login\<close>

lemma move_bg_step: "sched_ok s \<Longrightarrow> sched_step s (move_bg_tasks i j s)"
proof -
  assume ok: "sched_ok s"
  let ?t = "set_tq i (\<lambda>tq. tq\<lparr>tq_bg := [], tq_num_bg_tasks := tq_num_bg_tasks tq - int (length (tq_bg (tk_queues s i)))\<rparr>) s"
  have st: "sched_step s ?t" by (rule set_tq_step [OF ok]) (simp_all add: queue_ok_def)
  have "sched_step ?t (set_tq j (\<lambda>tq. tq\<lparr>tq_bg := tq_bg tq @ tq_bg (tk_queues s i)\<rparr>) ?t)"
    by (rule set_tq_step [OF sched_step_ok [OF st]]) (simp_all add: queue_ok_def)
  with st show ?thesis unfolding move_bg_tasks_def Let_def by (rule sched_step_trans)
qed

lemma set_num_step: "sched_ok s \<Longrightarrow> sched_step s (set_tq i (\<lambda>tq. tq\<lparr>tq_num_bg_tasks := n\<rparr>) s)"
  by (rule set_tq_step) (simp_all add: queue_ok_def)

lemma split_old_tasks_step:
  assumes "sched_ok s"
  shows "sched_step s (split_old_tasks i p s)"
proof (cases "tq_num_bg_tasks (tk_queues s i) = 0")
  case False
  obtain j s1 where f: "find_tqueue p s = (j, s1)" by fastforce
  note st1 = find_tqueue_ok(1) [OF assms f]
  define n where "n = tq_num_bg_tasks (tk_queues s1 i)"
  note st2 = sched_step_trans [OF st1 set_num_step [OF sched_step_ok [OF st1], of j n]]
  note st3 = sched_step_trans [OF st2 move_bg_step [OF sched_step_ok [OF st2], of i j]]
  note st4 = sched_step_trans [OF st3 set_num_step [OF sched_step_ok [OF st3], of i 0]]
  show ?thesis using st4 False by (simp add: split_old_tasks_def f Let_def n_def)
qed (simp add: split_old_tasks_def sched_step_refl [OF assms])

lemma take_over_step:
  assumes "take_over i dead s = Some s'" "sched_ok s" "dead \<in> queue_set s"
  shows "sched_step s s'"
proof -
  note st1 = set_num_step [OF assms(2), of i "tq_num_bg_tasks (tk_queues s dead)"]
  from flush_lines_ok [OF sched_step_ok [OF st1] sched_step_known [OF st1 assms(3)] refl, of False] assms(1) obtain s2 where
    s2: "sched_step (set_tq i (\<lambda>tq. tq\<lparr>tq_num_bg_tasks := tq_num_bg_tasks (tk_queues s dead)\<rparr>) s) s2"
      "s' = set_tq dead (\<lambda>tq. tq\<lparr>tq_player := NOTHING, tq_num_bg_tasks := 0\<rparr>) (move_bg_tasks dead i s2)"
    by (auto simp: take_over_def Let_def)
  note st2 = sched_step_trans [OF st1 s2(1)]
  note st3 = sched_step_trans [OF st2 move_bg_step [OF sched_step_ok [OF st2], of dead i]]
  show ?thesis unfolding s2(2)
    by (rule sched_step_trans [OF st3 set_tq_step [OF sched_step_ok [OF st3]]]) (simp_all add: queue_ok_def)
qed

section \<open>The scheduler\<close>

lemma on_tasks_simps [simp]: "in_tasks (on_tasks f s) = f (in_tasks s)" "in_tasks (with_db db s) = in_tasks s"
  "in_tasks (notify p l s) = emit [Notify p l] (in_tasks s)"
  by (simp_all add: on_tasks_def with_db_def notify_def)

abbreviation turn :: "tasks interp \<Rightarrow> tasks interp \<Rightarrow> bool" where "turn s s' \<equiv> sched_step (in_tasks s) (in_tasks s')"

locale scheduler =
  fixes e :: surroundings and limit_option :: int
  assumes suspends: "sv_suspend (sr_services e) = suspend_service limit_option"
    and forks: "sv_fork (sr_services e) = enqueue_forked_task2 limit_option"
    and builtins: "bf \<in> set (sv_bf_table (sr_services e)) \<Longrightarrow> sched_ok (in_tasks s)
      \<Longrightarrow> bf_func bf s args pc data progr = Some (s', p) \<Longrightarrow> turn s s'"
    and connects: "sched_ok (in_tasks s) \<Longrightarrow> sr_connected e old_player new_player b s = Some s' \<Longrightarrow> turn s s'"

sublocale scheduler \<subseteq> frame: vm_frame "sr_services e" "sched_step w" for w
proof unfold_locales
  fix w0 proc data vm root db w' err
  assume "sched_step w w0" "sv_suspend (sr_services e) proc data vm root db w0 = Some (w', err)"
  then show "sched_step w w'" unfolding suspends using sched_step_trans suspend_service_step sched_step_ok by blast
next
  fix w0 a f n vid db w' t
  assume "sched_step w w0" "sv_fork (sr_services e) a f n vid db w0 = Some (w', t)"
  then show "sched_step w w'" unfolding forks using sched_step_trans enqueue_forked_task2_step sched_step_ok by blast
next
  fix bf s args pc data progr s' p
  assume "bf \<in> set (sv_bf_table (sr_services e))" "sched_step w (in_tasks s)" "bf_func bf s args pc data progr = Some (s', p)"
  then show "sched_step w (in_tasks s')" using sched_step_trans builtins sched_step_ok by blast
qed

context scheduler
begin

lemma server_task_turn:
  "do_server_program_task (sr_services e) c c2 this verb args vloc verbname prog progr debug player argstr tb s = Some (s', out, res) \<Longrightarrow> sched_step w (in_tasks s) \<Longrightarrow> sched_step w (in_tasks s')"
  "do_server_verb_task e this verb args h player argstr tb s = Some (s', out, res) \<Longrightarrow> sched_step w (in_tasks s) \<Longrightarrow> sched_step w (in_tasks s')"
  by (auto simp: do_server_verb_task_def Let_def bind_eq_Some_conv dest!: frame.tasks_keep(1))

lemma set_field_turn:
  assumes "sched_step w s" "\<And>tq. tq_usage (f tq) = tq_usage tq" "\<And>tq. queue_ok tq \<Longrightarrow> queue_ok (f tq)"
  shows "sched_step w (set_tq i f s)"
  using sched_step_trans [OF assms(1) set_tq_step [OF sched_step_ok [OF assms(1)]]] assms(2,3) by blast

lemma emit_turn: "sched_step w s \<Longrightarrow> sched_step w (emit os s)"
  using sched_step_trans emit_step sched_step_ok by blast

lemma notify_turn: "sched_step w (in_tasks s) \<Longrightarrow> sched_step w (in_tasks (notify p l s))"
  by (simp add: emit_turn)

lemma current_turn: "sched_step w s \<Longrightarrow> sched_step w (s\<lparr>current_task_id := n\<rparr>)"
  by (simp add: sched_step_def sched_ok_def queue_set_def)

lemma new_id_turn:
  assumes "sched_step w s" "new_task_id s = (n, s')"
  shows "sched_step w s'"
  using sched_step_trans [OF assms(1) new_task_id_step [OF assms(2) sched_step_ok [OF assms(1)]]] .

lemma run_server_task_setting_id_turn:
  assumes "run_server_task_setting_id e player what verb args argstr setting s = Some (s', out, res)" "sched_step w (in_tasks s)"
  shows "sched_step w (in_tasks s')"
proof -
  obtain n w1 where n: "new_task_id (in_tasks s) = (n, w1)" by fastforce
  define w2 where "w2 = (case setting of Some i \<Rightarrow> set_tq i (\<lambda>tq. tq\<lparr>tq_last_input_task_id := n\<rparr>) (w1\<lparr>current_task_id := n\<rparr>) | None \<Rightarrow> w1\<lparr>current_task_id := n\<rparr>)"
  have w2: "sched_step w w2"
    using current_turn [OF new_id_turn [OF assms(2) n]] by (auto simp: w2_def queue_ok_def split: option.split intro!: set_field_turn)
  from assms(1) obtain db h where d: "db_find_callable_verb (\<lambda>_ _. False) (in_db s) what verb = Some (db, h)"
    and r: "(if h \<noteq> None then do_server_verb_task e what verb args h player argstr True (with_db db (s\<lparr>in_tasks := w2\<rparr>))
      else Some (with_db db (s\<lparr>in_tasks := w2\<rparr>), OUTCOME_DONE, Some (TYPE_INT 0))) = Some (s', out, res)"
    unfolding run_server_task_setting_id_def n w2_def by (auto simp: Let_def bind_eq_Some_conv)
  show ?thesis using r w2 by (cases "h = None") (auto dest!: server_task_turn(2) [where w = w])
qed

lemma fold_notify_turn: "sched_step w (in_tasks s) \<Longrightarrow> sched_step w (in_tasks (fold (notify p) ls s))"
  by (induction ls arbitrary: s) (simp_all add: emit_turn)

lemma start_programming_turn: "start_programming e i arg s = Some s' \<Longrightarrow> sched_step w (in_tasks s) \<Longrightarrow> sched_step w (in_tasks s')"
  by (auto simp: start_programming_def Let_def bind_eq_Some_conv queue_ok_def split: if_split_asm intro!: set_field_turn emit_turn)

lemma end_programming_turn:
  assumes "end_programming e i text s = Some s'" "sched_step w (in_tasks s)"
  shows "sched_step w (in_tasks s')"
proof -
  have p: "sched_step w (in_tasks t)" if "program_verb e player text h s = Some t" for player h t
    using that assms(2) fold_notify_turn [OF assms(2)]
    by (auto simp: program_verb_def Let_def bind_eq_Some_conv split: prod.split_asm option.split_asm intro!: emit_turn)
  show ?thesis
    using assms p by (auto simp: end_programming_def Let_def bind_eq_Some_conv queue_ok_def split: if_split_asm intro!: set_field_turn emit_turn)
qed

lemma do_intrinsic_command_turn:
  assumes "do_intrinsic_command e i pc s = Some (s', b)" "sched_step w (in_tasks s)"
  shows "sched_step w (in_tasks s')"
proof -
  have a: "sched_step w (in_tasks t)"
    if "(case pc_args pc of [TYPE_STR arg] \<Rightarrow> start_programming e i arg s | [_] \<Rightarrow> None
        | _ \<Rightarrow> Some (notify p ''Usage:  .program object:verb'' s)) = Some t" for t p
    using that assms(2) by (auto split: list.split_asm var.split_asm intro: emit_turn start_programming_turn)
  show ?thesis
    using assms a by (auto simp: do_intrinsic_command_def Let_def bind_eq_Some_conv queue_ok_def split: if_split_asm intro!: set_field_turn)
qed

lemma run_command_turn: "run_command e i location pc s = Some s' \<Longrightarrow> sched_step w (in_tasks s) \<Longrightarrow> sched_step w (in_tasks s')"
  by (auto simp: run_command_def Let_def bind_eq_Some_conv queue_ok_def split: if_split_asm intro!: set_field_turn emit_turn dest!: frame.tasks_keep(2) [where w = w])

lemma delimiter_turn: "sched_step w (in_tasks s) \<Longrightarrow> sched_step w (in_tasks (notify_delimiter p d s))"
  by (simp add: notify_delimiter_def emit_turn split: option.split)

lemma do_verb_command_turn:
  assumes "do_verb_command e i command pc s = Some s'" "sched_step w (in_tasks s)"
  shows "sched_step w (in_tasks s')"
proof -
  from assms(1) obtain location s1 out res handled s2 where
    r: "run_server_task_setting_id e (tq_player (queue s i)) (tq_handler (queue s i)) ''do_command'' (parse_into_wordlist command) command (Some i)
        (notify_delimiter (tq_player (queue s i)) (tq_output_prefix (queue s i)) s) = Some (s1, out, res)"
    and c: "(if handled then Some s1 else run_command e i location pc s1) = Some s2"
    and s': "s' = notify_delimiter (tq_player (queue s2 i)) (tq_output_suffix (queue s2 i)) s2"
    unfolding do_verb_command_def Let_def bind_eq_Some_conv by (elim exE conjE) (auto simp: bind_eq_Some_conv)
  have "sched_step w (in_tasks s1)" using run_server_task_setting_id_turn [OF r delimiter_turn [OF assms(2)]] .
  then have "sched_step w (in_tasks s2)" using c run_command_turn by (auto split: if_split_asm)
  then show ?thesis unfolding s' by (rule delimiter_turn)
qed

lemma do_command_task_turn:
  assumes "do_command_task e i command s = Some (s', b)" "sched_step w (in_tasks s)"
  shows "sched_step w (in_tasks s')"
proof (cases "tq_program_stream (queue s i)")
  case (Some lines)
  then show ?thesis using assms
    by (auto simp: do_command_task_def bind_eq_Some_conv queue_ok_def split: if_split_asm intro!: set_field_turn dest: end_programming_turn)
next
  case None
  then show ?thesis using assms
    by (auto simp: do_command_task_def bind_eq_Some_conv)
      (auto simp: bind_eq_Some_conv split: if_split_asm option.split_asm dest: do_intrinsic_command_turn do_verb_command_turn)
qed

lemma do_out_of_band_command_turn: "do_out_of_band_command e i command s = Some s' \<Longrightarrow> sched_step w (in_tasks s) \<Longrightarrow> sched_step w (in_tasks s')"
  by (auto simp: do_out_of_band_command_def run_server_task_def bind_eq_Some_conv dest!: run_server_task_setting_id_turn)

lemma log_in_turn:
  assumes "log_in e i new_player old_max s = Some s'" "sched_step w (in_tasks s)"
  shows "sched_step w (in_tasks s')"
proof -
  define w1 where "w1 = set_tq i (\<lambda>tq. tq\<lparr>tq_player := new_player\<rparr>) (in_tasks s)"
  define w2 where "w2 = split_old_tasks i (tq_player (queue s i)) w1"
  have st1: "sched_step (in_tasks s) w1" unfolding w1_def
    by (rule set_tq_step [OF sched_step_ok [OF assms(2)]]) (simp_all add: queue_ok_def)
  have st2: "sched_step (in_tasks s) w2" unfolding w2_def by (rule sched_step_trans [OF st1 split_old_tasks_step [OF sched_step_ok [OF st1]]])
  from assms(1) obtain w3 where w3: "(case lookup_tqueue new_player (in_tasks s) of Some j \<Rightarrow> take_over i j w2 | None \<Rightarrow> Some w2) = Some w3"
    "sr_connected e (tq_player (queue s i)) new_player (new_player > old_max) (s\<lparr>in_tasks := w3\<rparr>) = Some s'"
    unfolding log_in_def Let_def w1_def [symmetric] w2_def [symmetric] bind_eq_Some_conv by blast
  have st3: "sched_step (in_tasks s) w3"
  proof (cases "lookup_tqueue new_player (in_tasks s)")
    case None
    then show ?thesis using w3(1) st2 by simp
  next
    case (Some j)
    have "j \<in> queue_set w2" using lookup_tqueue_known [OF Some] sched_step_known [OF st2] by blast
    then show ?thesis using w3(1) Some sched_step_trans [OF st2 take_over_step [OF _ sched_step_ok [OF st2]]] by simp
  qed
  note st = sched_step_trans [OF assms(2) st3]
  have "sched_step w3 (in_tasks s')" using connects [OF _ w3(2)] sched_step_ok [OF st] by simp
  with st show ?thesis by (rule sched_step_trans)
qed

lemma do_login_task_turn:
  assumes "do_login_task e i command s = Some (s', b)" "sched_step w (in_tasks s)"
  shows "sched_step w (in_tasks s')"
proof -
  from assms(1) obtain s1 out res s2 where
    r: "run_server_task_setting_id e (tq_player (queue s i)) (tq_handler (queue s i)) ''do_login_command'' (parse_into_wordlist command) command (Some i) s
        = Some (s1, out, res)"
    and l: "(case res of Some (TYPE_OBJ x) \<Rightarrow> if tq_connected (queue s1 i) \<and> is_user (in_db s1) x then log_in e i x (db_last_used_objid (in_db s)) s1 else Some s1
        | _ \<Rightarrow> Some s1) = Some s2" and s': "s' = s2"
    unfolding do_login_task_def Let_def bind_eq_Some_conv by (elim exE conjE) (auto simp: bind_eq_Some_conv)
  have "sched_step w (in_tasks s1)" by (rule run_server_task_setting_id_turn [OF r assms(2)])
  then show ?thesis using l s' log_in_turn by (auto split: option.split_asm var.split_asm if_split_asm)
qed

section \<open>Running tasks\<close>

lemma resume_vm_turn: "resume_vm e v x s = Some s' \<Longrightarrow> sched_step w (in_tasks s) \<Longrightarrow> sched_step w (in_tasks s')"
  by (auto simp: resume_vm_def Let_def bind_eq_Some_conv dest!: frame.resume_from_previous_vm_keeps [where w = w] intro: current_turn)

lemma end_reading_turn: "end_reading e i v x s = Some s' \<Longrightarrow> sched_step w (in_tasks s) \<Longrightarrow> sched_step w (in_tasks s')"
  unfolding end_reading_def by (erule resume_vm_turn) (auto simp: queue_ok_def intro!: set_field_turn)

lemma run_line_turn: "run_line e i kind str s = Some (s', b) \<Longrightarrow> sched_step w (in_tasks s) \<Longrightarrow> sched_step w (in_tasks s')"
  by (auto simp: run_line_def split: if_split_asm option.split_asm
      dest: do_out_of_band_command_turn end_reading_turn do_command_task_turn do_login_task_turn)

lemma run_bg_task_turn: "run_bg_task e t s = Some s' \<Longrightarrow> sched_step w (in_tasks s) \<Longrightarrow> sched_step w (in_tasks s')"
  by (cases t) (auto simp: run_bg_task_def Let_def bind_eq_Some_conv dest!: frame.tasks_keep(3) [where w = w] dest: resume_vm_turn intro: current_turn)

lemma run_queue_turn:
  assumes r: "run_queue e i s = Some (s', b)" and s: "sched_step w (in_tasks s)" "i \<in> queue_set w"
  shows "sched_step w (in_tasks s')"
proof -
  have "e = e \<longrightarrow> sched_step w (in_tasks s) \<longrightarrow> i \<in> queue_set w \<longrightarrow> sched_step w (in_tasks (fst (s', b)))"
  proof (rule run_queue.raw_induct [where P = "\<lambda>e' i s r. e' = e \<longrightarrow> sched_step w (in_tasks s) \<longrightarrow> i \<in> queue_set w \<longrightarrow> sched_step w (in_tasks (fst r))", OF _ r],
      intro impI)
    fix rec e' i s r
    assume IH: "\<And>e' i s r. rec e' i s = Some r \<Longrightarrow> e' = e \<longrightarrow> sched_step w (in_tasks s) \<longrightarrow> i \<in> queue_set w \<longrightarrow> sched_step w (in_tasks (fst r))"
      and q: "do { (tq, t, out) \<leftarrow> dequeue_input_task (queue s i) (if tq_hold_input (queue s i) \<and> tq_reading (queue s i) = None then DQ_OOB else DQ_FIRST);
          let s = on_tasks (\<lambda>w. emit out (set_tq i (\<lambda>_. tq) w)) s;
          (case t of
             Some (kind, str) \<Rightarrow> do { (s, did_one) \<leftarrow> run_line e' i kind str s; if did_one then Some (s, True) else rec e' i s }
           | None \<Rightarrow>
               (case dequeue_bg_task (queue s i) of
                  (tq, None) \<Rightarrow> Some (s, False)
                | (tq, Some t) \<Rightarrow> map_option (\<lambda>s. (s, True)) (run_bg_task e' t (on_tasks (set_tq i (\<lambda>_. tq)) s)))) } = Some r"
      and c: "e' = e" "sched_step w (in_tasks s)" "i \<in> queue_set w"
    define how where "how = (if tq_hold_input (queue s i) \<and> tq_reading (queue s i) = None then DQ_OOB else DQ_FIRST)"
    from dequeue_step [OF sched_step_ok [OF c(2)] sched_step_known [OF c(2,3)], of how] obtain tq t out where
      d: "dequeue_input_task (queue s i) how = Some (tq, t, out)" "sched_step (in_tasks s) (emit out (set_tq i (\<lambda>_. tq) (in_tasks s)))" by blast
    define s1 where "s1 = on_tasks (\<lambda>w. emit out (set_tq i (\<lambda>_. tq) w)) s"
    have s1: "sched_step w (in_tasks s1)" using sched_step_trans [OF c(2) d(2)] by (simp add: s1_def)
    have bg: "sched_step w (set_tq i (\<lambda>_. tq') (in_tasks s1))" if "dequeue_bg_task (queue s1 i) = (tq', u)" for tq' u
      by (rule sched_step_trans [OF s1 set_tq_step [OF sched_step_ok [OF s1]]])
        (use that in \<open>auto simp: dequeue_bg_task_def queue_ok_def split: list.split_asm\<close>)
    have q': "(case t of
             Some (kind, str) \<Rightarrow> do { (s, did_one) \<leftarrow> run_line e i kind str s1; if did_one then Some (s, True) else rec e i s }
           | None \<Rightarrow>
               (case dequeue_bg_task (queue s1 i) of
                  (tq, None) \<Rightarrow> Some (s1, False)
                | (tq, Some t) \<Rightarrow> map_option (\<lambda>s. (s, True)) (run_bg_task e t (on_tasks (set_tq i (\<lambda>_. tq)) s1)))) = Some r"
      using q unfolding how_def [symmetric] d(1) c(1) bind.bind_lunit prod.case Let_def s1_def [symmetric] .
    have IH': "sched_step w (in_tasks (fst r))" if "rec e i x = Some r" "sched_step w (in_tasks x)" for x using IH [OF that(1)] that(2) c(3) by simp
    show "sched_step w (in_tasks (fst r))"
    proof (cases t)
      case None
      obtain tq' u where u: "dequeue_bg_task (queue s1 i) = (tq', u)" by fastforce
      show ?thesis using q' None u s1 bg [OF u] by (cases u) (auto dest!: run_bg_task_turn [where w = w])
    next
      case (Some ks)
      then show ?thesis using q' s1 IH' run_line_turn [where w = w] by (cases ks) (auto simp: bind_eq_Some_conv split: if_split_asm)
    qed
  qed
  with s show ?thesis by simp
qed

lemma run_first_turn: "run_first e i s = Some (s', b) \<Longrightarrow> sched_ok (in_tasks s) \<Longrightarrow> i \<in> queue_set (in_tasks s) \<Longrightarrow> turn s s'"
  using sched_step_refl [of "in_tasks s"]
  by (auto simp: run_first_def split: option.split_asm if_split_asm dest: end_reading_turn run_queue_turn)

end

text \<open>The end of a turn.\<close>

lemma requeue_ok:
  assumes ok: "sched_ok w" and a: "active_tqueues w = i # js" and t: "start \<le> tk_clock w (tk_reads w)"
  shows "sched_ok (requeue did_one start i w)" "tk_clock (requeue did_one start i w) = tk_clock w" "tk_reads w \<le> tk_reads (requeue did_one start i w)"
proof -
  note D = sched_okD [OF ok]
  have i: "i \<notin> set js" "i \<notin> set (idle_tqueues w)" "distinct js" using D(1,3) a by auto
  have js: "by_usage (tk_queues w) js" using D(6) a by (simp add: by_usage_def)
  define u where "u = tq_usage (tk_queues w i) + (tk_clock w (tk_reads w) - start)"
  define qs where "qs = (tk_queues w)(i := (tk_queues w i)\<lparr>tq_usage := (if did_one then u else NO_USAGE)\<rparr>)"
  have u: "0 \<le> u" using D(7) [of i] a t by (simp add: u_def)
  have e: "requeue did_one start i w = (if did_one
      then w\<lparr>tk_queues := qs, tk_reads := Suc (tk_reads w), active_tqueues := insert_tqueue qs i js\<rparr>
      else w\<lparr>tk_queues := qs, active_tqueues := js, idle_tqueues := i # idle_tqueues w\<rparr>)"
    by (simp add: requeue_def a time0_def activate_tqueue_def deactivate_tqueue_def set_tq_def qs_def u_def)
  have k: "queue_set (requeue did_one start i w) = queue_set w" using a by (auto simp: e queue_set_def)
  have srt: "by_usage qs js" using js i by (subst by_usage_cong [of _ _ "tk_queues w"]) (auto simp: qs_def)
  have q: "queue_ok (qs j)" if "j \<in> queue_set w" for j using D(5) [OF that] by (auto simp: qs_def queue_ok_def)
  have o: "qs j = tk_queues w j" if "j \<noteq> i" for j using that by (simp add: qs_def)
  show "sched_ok (requeue did_one start i w)"
  proof (rule sched_okI, goal_cases)
    case 6
    then show ?case using srt insert_tqueue_sorted [OF srt] by (simp add: e)
  next
    case (7 j)
    then show ?case using D(7) [of j] a u i o [of j] by (cases "j = i") (auto simp: e qs_def split: if_split_asm)
  next
    case (8 j)
    then show ?case using D(8) [of j] i o [of j] by (cases "j = i") (auto simp: e qs_def split: if_split_asm)
  next
    case (3 j)
    then show ?case using D(3) [of j] a i by (auto simp: e split: if_split_asm)
  qed (use D k q i a in \<open>auto simp: e insert_tqueue_distinct\<close>)
qed (auto simp: requeue_def time0_def activate_tqueue_def deactivate_tqueue_def set_tq_def Let_def)

lemma free_idle_ok: "sched_ok w \<Longrightarrow> sched_ok (free_idle w)"
proof -
  have one: "sched_ok (free_tqueue i v)" if "sched_ok v" for i v
    by (rule sched_okI) (use sched_okD [OF that] in \<open>auto simp: free_tqueue_def queue_set_def set_remove1_eq dest: in_set_remove1 notin_set_remove1\<close>)
  have "sched_ok (fold (\<lambda>i s. let tq = tk_queues s i in if \<not> tq_connected tq \<and> \<not> first_line tq \<and> tq_num_bg_tasks tq = 0 then free_tqueue i s else s) is v)"
    if "sched_ok v" for "is" v
    using that one by (induction "is" arbitrary: v) (auto simp: Let_def)
  then show "sched_ok w \<Longrightarrow> sched_ok (free_idle w)" by (simp add: free_idle_def)
qed

lemma release_waiting_ok:
  assumes "sched_ok s" "by_start ts"
  shows "\<exists>s'. release_waiting now ts s = Some s' \<and> sched_step s s' \<and> waiting_tasks s' = dropWhile (\<lambda>t. GET_START_TIME t \<le> now) ts"
  using assms
proof (induction ts arbitrary: s)
  case Nil
  then show ?case using waiting_step [OF Nil(1), of "[]"] by (simp add: by_start_def)
next
  case (Cons t ts)
  show ?case
  proof (cases "GET_START_TIME t \<le> now")
    case True
    obtain i s1 where f: "find_tqueue (task_progr t) s = (i, s1)" by fastforce
    note F = find_tqueue_ok [OF Cons.prems(1) f]
    from ensure_usage_ok [OF sched_step_ok [OF F(1)] F(2)] obtain s2 where s2: "ensure_usage i s1 = Some s2" "sched_step s1 s2" by blast
    note st = sched_step_trans [OF sched_step_trans [OF F(1) s2(2)] bg_step [OF sched_step_ok [OF s2(2)], of i t]]
    from Cons.IH [OF sched_step_ok [OF st]] Cons.prems(2) obtain s' where
      "release_waiting now ts (enqueue_bg_task i t s2) = Some s'" "sched_step (enqueue_bg_task i t s2) s'"
      "waiting_tasks s' = dropWhile (\<lambda>t. GET_START_TIME t \<le> now) ts" by (auto simp: by_start_def)
    then show ?thesis using True f s2(1) sched_step_trans [OF st] by auto
  next
    case False
    then show ?thesis using waiting_step [OF Cons.prems] by simp
  qed
qed

context scheduler
begin

lemma run_active_ok:
  assumes r: "run_active e start s = Some s'" and s: "sched_ok (in_tasks s)" "mono (tk_clock (in_tasks s))"
    "start \<le> tk_clock (in_tasks s) (tk_reads (in_tasks s))"
  shows "sched_ok (in_tasks s')"
proof -
  have "e = e \<longrightarrow> sched_ok (in_tasks s) \<longrightarrow> mono (tk_clock (in_tasks s)) \<longrightarrow> start \<le> tk_clock (in_tasks s) (tk_reads (in_tasks s)) \<longrightarrow> sched_ok (in_tasks s')"
  proof (rule run_active.raw_induct [where P = "\<lambda>e' start s s'. e' = e \<longrightarrow> sched_ok (in_tasks s) \<longrightarrow> mono (tk_clock (in_tasks s))
      \<longrightarrow> start \<le> tk_clock (in_tasks s) (tk_reads (in_tasks s)) \<longrightarrow> sched_ok (in_tasks s')", OF _ r], intro impI)
    fix rec e' start s s'
    assume IH: "\<And>e' start s s'. rec e' start s = Some s' \<Longrightarrow> e' = e \<longrightarrow> sched_ok (in_tasks s) \<longrightarrow> mono (tk_clock (in_tasks s))
        \<longrightarrow> start \<le> tk_clock (in_tasks s) (tk_reads (in_tasks s)) \<longrightarrow> sched_ok (in_tasks s')"
      and q: "(case active_tqueues (in_tasks s) of [] \<Rightarrow> Some s
        | i # _ \<Rightarrow> do { (s, did_one) \<leftarrow> run_first e' i s; let s = on_tasks (requeue did_one start i) s;
                        if did_one then Some s else rec e' start s }) = Some s'"
      and c: "e' = e" "sched_ok (in_tasks s)" "mono (tk_clock (in_tasks s))" "start \<le> tk_clock (in_tasks s) (tk_reads (in_tasks s))"
    show "sched_ok (in_tasks s')"
    proof (cases "active_tqueues (in_tasks s)")
      case Nil
      then show ?thesis using q c by simp
    next
      case (Cons i js)
      with q c(1) obtain s1 d where f: "run_first e i s = Some (s1, d)"
        and n: "(if d then Some (on_tasks (requeue d start i) s1) else rec e start (on_tasks (requeue d start i) s1)) = Some s'"
        by (auto simp: bind_eq_Some_conv Let_def)
      have st: "turn s s1" by (rule run_first_turn [OF f c(2)]) (simp add: queue_set_def Cons)
      then obtain js' where js': "active_tqueues (in_tasks s1) = i # js'" using Cons unfolding sched_step_def by blast
      have cl: "tk_clock (in_tasks s1) = tk_clock (in_tasks s)" "tk_reads (in_tasks s) \<le> tk_reads (in_tasks s1)" using st by (simp_all add: sched_step_def)
      then have le: "start \<le> tk_clock (in_tasks s1) (tk_reads (in_tasks s1))" using c(3,4) monoD [OF c(3) cl(2)] by simp
      note R = requeue_ok [OF sched_step_ok [OF st] js' le, of d]
      have "start \<le> tk_clock (in_tasks s1) (tk_reads (requeue d start i (in_tasks s1)))" using le c(3) cl monoD [OF c(3) R(3)] by (simp add: order_trans)
      then show ?thesis using n R(1,2) IH [of e start "on_tasks (requeue d start i) s1" s'] c(3) cl(1) by (auto split: if_split_asm)
    qed
  qed
  with s show ?thesis by simp
qed

lemma run_ready_tasks_ok:
  assumes r: "run_ready_tasks e s = Some s'" and s: "sched_ok (in_tasks s)" "mono (tk_clock (in_tasks s))"
  shows "sched_ok (in_tasks s')"
proof -
  obtain now w1 where t1: "time0 (in_tasks s) = (now, w1)" by fastforce
  note st1 = time0_step [OF t1 s(1)]
  from release_waiting_ok [OF sched_step_ok [OF st1] sched_okD(9) [OF sched_step_ok [OF st1]], of now] obtain w2 where
    w2: "release_waiting now (waiting_tasks w1) w1 = Some w2" "sched_step w1 w2" by blast
  obtain start w3 where t2: "time0 w2 = (start, w3)" by fastforce
  note st2 = sched_step_trans [OF st1 w2(2)]
  note st3 = sched_step_trans [OF st2 time0_step [OF t2 sched_step_ok [OF st2]]]
  from r t1 w2(1) t2 obtain s1 where s1: "run_active e start (s\<lparr>in_tasks := w3\<rparr>) = Some s1" "s' = on_tasks free_idle s1"
    by (auto simp: run_ready_tasks_def bind_eq_Some_conv)
  have cl: "tk_clock w3 = tk_clock (in_tasks s)" using st3 by (simp add: sched_step_def)
  have "start = tk_clock w2 (tk_reads w2)" "tk_reads w3 = Suc (tk_reads w2)" "tk_clock w3 = tk_clock w2" using t2 by (auto simp: time0_def)
  then have "start \<le> tk_clock w3 (tk_reads w3)" using monoD [OF s(2), of "tk_reads w2" "tk_reads w3"] cl by simp
  with run_active_ok [OF s1(1)] sched_step_ok [OF st3] s(2) cl have "sched_ok (in_tasks s1)" by simp
  then show ?thesis using free_idle_ok s1(2) by simp
qed

end

end
