(* ===== verification/Streams.thy ===== *)
theory Streams
  imports NumberLaws
begin

text \<open>
  Streams of characters (\<^verbatim>\<open>streams.c\<close>): a buffer whose size grows by powers of two, up to a maximum
  where too long a text is an exception; and the conversions of the C library's \<^verbatim>\<open>printf\<close> that print
  numbers.
\<close>

section \<open>Growing\<close>

text \<open>The text is what is below \<^verbatim>\<open>current\<close>.\<close>

record stream =
  st_text :: string
  st_buflen :: nat

definition NEXT_2_POWER :: "64 word \<Rightarrow> 64 word" where
  "NEXT_2_POWER v =
     (let v = v OR drop_bit 1 v; v = v OR drop_bit 2 v; v = v OR drop_bit 4 v; v = v OR drop_bit 8 v; v = v OR drop_bit 16 v
      in 1 + (v OR drop_bit 32 v))"

definition new_stream :: "nat \<Rightarrow> stream" where
  "new_stream size' = \<lparr>st_text = [], st_buflen = unat (NEXT_2_POWER (of_nat size' OR 0x1f))\<rparr>"

text \<open>
  The limit is \<^verbatim>\<open>stream_alloc_maximum\<close> where exceptions are enabled; the exception \<^verbatim>\<open>stream_too_big\<close>
  is \<open>None\<close>.
\<close>

type_synonym limit = "nat option"

definition grew :: "limit \<Rightarrow> nat \<Rightarrow> stream \<Rightarrow> stream option" where
  "grew lim need s =
     (let n = length (st_text s) + need; newlen = unat (NEXT_2_POWER (of_nat n))
      in if n < st_buflen s then Some s
         else case lim of
           None \<Rightarrow> Some (s\<lparr>st_buflen := newlen\<rparr>)
         | Some m \<Rightarrow>
             if newlen > m then (if n < m then Some (s\<lparr>st_buflen := m\<rparr>) else None)
             else Some (s\<lparr>st_buflen := newlen\<rparr>))"

definition stream_add_bytes :: "limit \<Rightarrow> string \<Rightarrow> stream \<Rightarrow> stream option" where
  "stream_add_bytes lim bytes s = map_option (\<lambda>s. s\<lparr>st_text := st_text s @ bytes\<rparr>) (grew lim (length bytes) s)"

definition stream_add_char :: "limit \<Rightarrow> char \<Rightarrow> stream \<Rightarrow> stream option" where
  "stream_add_char lim c s = map_option (\<lambda>s. s\<lparr>st_text := st_text s @ [c]\<rparr>) (grew lim 1 s)"

definition stream_add_string :: "limit \<Rightarrow> string \<Rightarrow> stream \<Rightarrow> stream option" where
  "stream_add_string lim str s = stream_add_bytes lim str s"

text \<open>\<open>out\<close> is what the format and its arguments make.\<close>

definition stream_printf :: "limit \<Rightarrow> string \<Rightarrow> stream \<Rightarrow> stream option" where
  "stream_printf lim out s = map_option (\<lambda>s. s\<lparr>st_text := st_text s @ out\<rparr>) (grew lim (length out) s)"

definition stream_delete_char :: "stream \<Rightarrow> stream" where
  "stream_delete_char s = s\<lparr>st_text := butlast (st_text s)\<rparr>"

definition stream_add_utf :: "limit \<Rightarrow> nat \<Rightarrow> stream \<Rightarrow> (stream \<times> bool) option" where
  "stream_add_utf lim c s =
     do { s \<leftarrow> grew lim 4 s;
          Some (case put_utf c of Some bs \<Rightarrow> (s\<lparr>st_text := st_text s @ bs\<rparr>, True) | None \<Rightarrow> (s, False)) }"

text \<open>The last character with its continuation bytes is taken away; there is a byte that is none in every text.\<close>

definition stream_delete_utf :: "stream \<Rightarrow> stream option" where
  "stream_delete_utf s =
     (if st_text s = [] then Some s
      else case dropWhile is_utf8_cont_byte (rev (st_text s)) of
        [] \<Rightarrow> None
      | c # cs \<Rightarrow> Some (s\<lparr>st_text := rev cs\<rparr>))"

definition reset_stream :: "stream \<Rightarrow> stream" where "reset_stream s = s\<lparr>st_text := []\<rparr>"

definition stream_contents :: "stream \<Rightarrow> string" where "stream_contents s = st_text s"

definition stream_length :: "stream \<Rightarrow> nat" where "stream_length s = length (st_text s)"

definition stream_last_byte :: "stream \<Rightarrow> int" where
  "stream_last_byte s = (if st_text s = [] then -1 else signed_take_bit 7 (of_char (last (st_text s))))"

text \<open>A buffer to be filled from outside: what it has room for, and the stream after \<open>bytes\<close> were written there.\<close>

definition stream_beginfill :: "limit \<Rightarrow> nat \<Rightarrow> stream \<Rightarrow> (stream \<times> nat) option" where
  "stream_beginfill lim need s = map_option (\<lambda>s. (s, st_buflen s - length (st_text s) - 1)) (grew lim need s)"

definition stream_endfill :: "nat \<Rightarrow> string \<Rightarrow> stream \<Rightarrow> stream option" where
  "stream_endfill unused bytes s =
     (if unused \<ge> st_buflen s - length (st_text s) then None
      else if length (st_text s) + length bytes = st_buflen s - 1 - unused then Some (s\<lparr>st_text := st_text s @ bytes\<rparr>) else None)"

section \<open>Numbers as text\<close>

text \<open>The quotient to the nearest, ties to even, and the decimal exponent of \<open>p / q\<close>.\<close>

definition near_div :: "nat \<Rightarrow> nat \<Rightarrow> nat" where
  "near_div p q = (let m = p div q; r = p mod q in if 2 * r > q \<or> 2 * r = q \<and> odd m then Suc m else m)"

function dec_up :: "nat \<Rightarrow> nat \<Rightarrow> nat" where
  "dec_up p q = (if p = 0 \<or> q \<le> p then 0 else Suc (dec_up (10 * p) q))"
  by pat_completeness auto
termination by (relation "measure (\<lambda>(p, q). q - p)") auto

declare dec_up.simps [simp del]

definition dec_exp :: "nat \<Rightarrow> nat \<Rightarrow> int" where
  "dec_exp p q = (if q \<le> p then int (length (digits_of (p div q))) - 1 else - int (dec_up p q))"

text \<open>The first \<open>P\<close> significant digits as one number, and the exponent of the first.\<close>

definition significant :: "nat \<Rightarrow> nat \<Rightarrow> nat \<Rightarrow> nat \<times> int" where
  "significant P p q =
     (if p = 0 then (0, 0)
      else let X = dec_exp p q; k = int P - 1 - X; m = near_div (p * 10 ^ nat k) (q * 10 ^ nat (- k))
           in if m = 10 ^ P then (10 ^ (P - 1), X + 1) else (m, X))"

definition pad_left :: "nat \<Rightarrow> string \<Rightarrow> string" where
  "pad_left n ds = replicate (n - length ds) (CHR ''0'') @ ds"

definition strip_zeros :: "string \<Rightarrow> string" where
  "strip_zeros ds = rev (dropWhile (\<lambda>c. c = CHR ''0'') (rev ds))"

definition with_point :: "string \<Rightarrow> string \<Rightarrow> string" where
  "with_point ds fs = (if fs = [] then ds else ds @ ''.'' @ fs)"

text \<open>The number \<open>m\<close> with its last \<open>d\<close> digits behind the point; \<open>strip\<close> is what is done with those.\<close>

definition fixed_text :: "(string \<Rightarrow> string) \<Rightarrow> nat \<Rightarrow> nat \<Rightarrow> string" where
  "fixed_text strip m d = (let ds = pad_left (Suc d) (digits_of m); n = length ds - d in with_point (take n ds) (strip (drop n ds)))"

definition exp_text :: "(string \<Rightarrow> string) \<Rightarrow> nat \<Rightarrow> nat \<Rightarrow> int \<Rightarrow> string" where
  "exp_text strip P m X =
     (let ds = pad_left P (digits_of m)
      in with_point (take 1 ds) (strip (drop 1 ds)) @ ''e'' @ (if X < 0 then ''-'' else ''+'') @ pad_left 2 (digits_of (nat \<bar>X\<bar>)))"

definition fl_text :: "(nat \<Rightarrow> nat \<Rightarrow> string) \<Rightarrow> flnum \<Rightarrow> string" where
  "fl_text f d =
     (if fl_neg d then ''-'' else []) @
     (if fl_is_nan d then ''nan'' else if fl_is_inf d then ''inf'' else f (fl_units d) one_unit)"

definition fmt_f :: "nat \<Rightarrow> flnum \<Rightarrow> string" where
  "fmt_f prec = fl_text (\<lambda>p q. fixed_text (\<lambda>x. x) (near_div (p * 10 ^ prec) q) prec)"

definition fmt_e :: "nat \<Rightarrow> flnum \<Rightarrow> string" where
  "fmt_e prec = fl_text (\<lambda>p q. let (m, X) = significant (Suc prec) p q in exp_text (\<lambda>x. x) (Suc prec) m X)"

definition fmt_g :: "nat \<Rightarrow> flnum \<Rightarrow> string" where
  "fmt_g prec =
     fl_text (\<lambda>p q. let P = max 1 prec; (m, X) = significant P p q
                    in if X < int P \<and> -4 \<le> X then fixed_text strip_zeros m (nat (int P - 1 - X))
                       else exp_text strip_zeros P m X)"

definition FLOAT_DIGITS :: nat where "FLOAT_DIGITS = 15"

text \<open>The text with the precision that the loop stops at: each attempt is printed to the stream and taken back.\<close>

function unparse_float_loop :: "limit \<Rightarrow> flnum \<Rightarrow> bool \<Rightarrow> nat \<Rightarrow> stream \<Rightarrow> (stream \<times> string) option" where
  "unparse_float_loop lim n for_tostr prec s =
     do { let out = fmt_g prec n;
          s' \<leftarrow> stream_printf lim out s;
          if for_tostr \<or> fl_eq n (fst (strtod out)) \<or> prec - FLOAT_DIGITS \<ge> 4 then Some (s', out)
          else unparse_float_loop lim n for_tostr (Suc prec) (s'\<lparr>st_text := st_text s\<rparr>) }"
  by pat_completeness auto
termination by (relation "measure (\<lambda>(_, _, _, prec, _). FLOAT_DIGITS + 4 - prec)") auto

declare unparse_float_loop.simps [simp del]

definition stream_unparse_float :: "limit \<Rightarrow> flnum \<Rightarrow> bool \<Rightarrow> stream \<Rightarrow> stream option" where
  "stream_unparse_float lim n for_tostr s =
     do { (s, out) \<leftarrow> unparse_float_loop lim n for_tostr FLOAT_DIGITS s;
          if list_ex (\<lambda>c. c = CHR ''.'' \<or> c = CHR ''e'') out then Some s else stream_add_string lim ''.0'' s }"

definition bf_floatstr :: "flnum \<Rightarrow> num \<Rightarrow> bool \<Rightarrow> package" where
  "bf_floatstr d prec use_sci =
     (if prec < 0 then make_error_pack E_INVARG
      else let n = (if prec > int FLOAT_DIGITS + 4 then FLOAT_DIGITS + 4 else nat prec)
           in make_string_pack (if use_sci then fmt_e n d else fmt_f n d))"

section \<open>Powers of two\<close>

text \<open>Each line of the macro doubles the number of places that a bit is spread to.\<close>

lemma spread:
  fixes v x :: "64 word"
  assumes "\<And>i. bit x i \<longleftrightarrow> (\<exists>j<n. bit v (i + j))"
  shows "bit (x OR drop_bit n x) i \<longleftrightarrow> (\<exists>j<2 * n. bit v (i + j))"
proof
  assume "bit (x OR drop_bit n x) i"
  then consider "bit x i" | "bit x (n + i)" by (auto simp: bit_simps)
  then show "\<exists>j<2 * n. bit v (i + j)"
  proof cases
    case 1
    then show ?thesis using assms [of i] by force
  next
    case 2
    then obtain j where "j < n" "bit v (n + i + j)" using assms [of "n + i"] by blast
    then show ?thesis by (intro exI [of _ "n + j"]) (simp add: ac_simps)
  qed
next
  assume "\<exists>j<2 * n. bit v (i + j)"
  then obtain j where j: "j < 2 * n" "bit v (i + j)" by blast
  then show "bit (x OR drop_bit n x) i"
  proof (cases "j < n")
    case True
    then show ?thesis using j assms [of i] by (auto simp: bit_simps)
  next
    case False
    then have "bit x (n + i)" using j assms [of "n + i"] by (auto intro!: exI [of _ "j - n"])
    then show ?thesis by (simp add: bit_simps)
  qed
qed

lemma bit_length_bounds: "n < 2 ^ bit_length n \<and> (0 < n \<longrightarrow> 2 ^ (bit_length n - 1) \<le> n)"
proof (induction n rule: bit_length.induct)
  case (1 n)
  show ?case
  proof (cases "n = 0")
    case False
    have l: "bit_length n = Suc (bit_length (n div 2))" using False by (simp add: bit_length.simps)
    have "n < 2 * 2 ^ bit_length (n div 2)" using 1 False by linarith
    moreover have "2 ^ bit_length (n div 2) \<le> n"
    proof (cases "n div 2 = 0")
      case True
      then show ?thesis using False by (simp add: bit_length.simps)
    next
      case n: False
      then have "2 ^ (bit_length (n div 2) - 1) \<le> n div 2" using 1 False by simp
      moreover have "bit_length (n div 2) = Suc (bit_length (n div 2) - 1)" using n by (subst (1 2) bit_length.simps) simp
      then have "(2::nat) ^ bit_length (n div 2) = 2 * 2 ^ (bit_length (n div 2) - 1)" by (metis power_Suc)
      ultimately have "2 ^ bit_length (n div 2) \<le> 2 * (n div 2)" by simp
      then show ?thesis by linarith
    qed
    ultimately show ?thesis by (simp add: l)
  qed (simp add: bit_length.simps)
qed

lemma word_bit_unat:
  fixes v :: "64 word"
  shows "bit v j \<longleftrightarrow> odd (unat v div 2 ^ j)"
proof -
  have "bit (unat v) j \<longleftrightarrow> bit v j" by (simp add: bit_unsigned_iff)
  then show ?thesis by (simp add: bit_iff_odd)
qed

lemma smeared_word:
  fixes v x :: "64 word"
  assumes "\<And>i. bit x i \<longleftrightarrow> (\<exists>j<64. bit v (i + j))"
  shows "x = mask (bit_length (unat v))"
proof (rule bit_word_eqI)
  fix i
  assume i: "i < LENGTH(64)"
  let ?k = "bit_length (unat v)"
  note B = bit_length_bounds [of "unat v"]
  have "\<not> bit v j" if "?k \<le> j" for j
  proof -
    have "unat v < 2 ^ j" using B that by (meson le_less_trans less_le_trans one_le_numeral power_increasing)
    then show ?thesis by (simp add: word_bit_unat)
  qed
  moreover have "\<exists>j<64. bit v (i + j)" if "i < ?k"
  proof -
    have p: "0 < unat v" using that by (cases "unat v = 0") (auto simp: bit_length.simps)
    have "bit v (?k - 1)"
    proof -
      have "unat v div 2 ^ (?k - 1) = 1"
      proof (rule div_nat_eqI)
        show "2 ^ (?k - 1) * 1 \<le> unat v" using B p by simp
        have "?k = Suc (?k - 1)" using that by simp
        then have "(2::nat) ^ ?k = 2 * 2 ^ (?k - 1)" by (metis power_Suc)
        then show "unat v < 2 ^ (?k - 1) * Suc 1" using B by simp
      qed
      then show ?thesis by (simp add: word_bit_unat)
    qed
    moreover then have "?k - 1 < 64" using bit_imp_le_length by fastforce
    ultimately show ?thesis using that by (intro exI [of _ "?k - 1 - i"]) auto
  qed
  ultimately show "bit x i \<longleftrightarrow> bit (mask ?k :: 64 word) i"
    using assms [of i] i by (auto simp: bit_mask_iff not_less [symmetric]) (meson le_add1 not_less order_trans)
qed

lemma NEXT_2_POWER_value: "n < 2 ^ 63 \<Longrightarrow> unat (NEXT_2_POWER (of_nat n)) = 2 ^ bit_length n"
proof -
  assume n: "n < 2 ^ 63"
  define v :: "64 word" where "v = of_nat n"
  have v: "unat v = n" using n by (simp add: v_def unat_of_nat take_bit_nat_eq_self)
  define x1 where "x1 = v OR drop_bit 1 v"
  define x2 where "x2 = x1 OR drop_bit 2 x1"
  define x3 where "x3 = x2 OR drop_bit 4 x2"
  define x4 where "x4 = x3 OR drop_bit 8 x3"
  define x5 where "x5 = x4 OR drop_bit 16 x4"
  define x6 where "x6 = x5 OR drop_bit 32 x5"
  note D = x1_def x2_def x3_def x4_def x5_def x6_def
  have b1: "bit x1 i \<longleftrightarrow> (\<exists>j<2. bit v (i + j))" for i unfolding x1_def using spread [of v 1 v i] by simp
  have b2: "bit x2 i \<longleftrightarrow> (\<exists>j<4. bit v (i + j))" for i unfolding x2_def using spread [OF b1, of i] by simp
  have b3: "bit x3 i \<longleftrightarrow> (\<exists>j<8. bit v (i + j))" for i unfolding x3_def using spread [OF b2, of i] by simp
  have b4: "bit x4 i \<longleftrightarrow> (\<exists>j<16. bit v (i + j))" for i unfolding x4_def using spread [OF b3, of i] by simp
  have b5: "bit x5 i \<longleftrightarrow> (\<exists>j<32. bit v (i + j))" for i unfolding x5_def using spread [OF b4, of i] by simp
  have b6: "bit x6 i \<longleftrightarrow> (\<exists>j<64. bit v (i + j))" for i unfolding x6_def using spread [OF b5, of i] by simp
  have x6: "x6 = mask (bit_length n)" using smeared_word [OF b6] v by simp
  have k: "bit_length n < 64"
  proof (rule ccontr)
    assume "\<not> bit_length n < 64"
    then have "(2::nat) ^ 63 \<le> 2 ^ (bit_length n - 1)" by (intro power_increasing) auto
    then show False using bit_length_bounds [of n] n by (cases "n = 0") (auto simp: bit_length.simps)
  qed
  have "NEXT_2_POWER v = 1 + x6" by (simp add: NEXT_2_POWER_def D Let_def)
  also have "\<dots> = 2 ^ bit_length n" by (simp add: x6 mask_eq_exp_minus_1)
  finally have "NEXT_2_POWER v = of_nat (2 ^ bit_length n)" by simp
  moreover have "(2::nat) ^ bit_length n < 2 ^ 64" using k by (intro power_strict_increasing) auto
  ultimately show ?thesis by (simp only: v_def unat_of_nat take_bit_nat_eq_self)  (simp add: take_bit_nat_eq_self)
qed

lemma NEXT_2_POWER_above: "n < 2 ^ 63 \<Longrightarrow> n < unat (NEXT_2_POWER (of_nat n))"
  using bit_length_bounds [of n] by (simp add: NEXT_2_POWER_value)

section \<open>What a stream takes\<close>

definition stream_ok :: "stream \<Rightarrow> bool" where "stream_ok s \<longleftrightarrow> length (st_text s) < st_buflen s"

definition fits :: "limit \<Rightarrow> stream \<Rightarrow> nat \<Rightarrow> bool" where
  "fits lim s n \<longleftrightarrow> (case lim of None \<Rightarrow> True | Some m \<Rightarrow> n < max (st_buflen s) m)"

text \<open>The function adds the text, or raises the exception exactly if the text does not fit.\<close>

definition writes :: "limit \<Rightarrow> string \<Rightarrow> (stream \<Rightarrow> stream option) \<Rightarrow> bool" where
  "writes lim bytes f \<longleftrightarrow>
     (\<forall>s. stream_ok s \<longrightarrow> length (st_text s) + length bytes < 2 ^ 63 \<longrightarrow>
        (case f s of
           None \<Rightarrow> \<not> fits lim s (length (st_text s) + length bytes)
         | Some s' \<Rightarrow> fits lim s (length (st_text s) + length bytes) \<and> stream_ok s' \<and> fits lim s' = fits lim s
                      \<and> st_text s' = st_text s @ bytes))"

lemma new_stream_ok:
  assumes "n < 2 ^ 63"
  shows "stream_ok (new_stream n)" "st_text (new_stream n) = []"
proof -
  have "take_bit 63 (n OR 31) = n OR 31" using assms by (simp add: take_bit_or take_bit_nat_eq_self)
  then have "n OR 31 < 2 ^ 63" by (metis take_bit_nat_less_exp)
  moreover have "(of_nat n :: 64 word) OR 0x1f = of_nat (n OR 31)" by (simp add: of_nat_or_eq)
  ultimately show "stream_ok (new_stream n)"
    using NEXT_2_POWER_above [of "n OR 31"] by (simp add: stream_ok_def new_stream_def)
qed (simp add: new_stream_def)

lemma new_stream_100 [simp]: "st_buflen (new_stream 100) = 128" "st_buflen (new_stream 0) = 32" "st_buflen (new_stream 50) = 64"
  by (simp_all add: new_stream_def NEXT_2_POWER_def)

lemma fits_text [simp]: "fits lim (s\<lparr>st_text := t\<rparr>) = fits lim s"
  by (simp add: fits_def fun_eq_iff split: option.split)

lemma grew_cases:
  assumes "stream_ok s" "length (st_text s) + need < 2 ^ 63"
  shows "case grew lim need s of
      None \<Rightarrow> \<not> fits lim s (length (st_text s) + need)
    | Some s' \<Rightarrow> fits lim s (length (st_text s) + need) \<and> length (st_text s) + need < st_buflen s' \<and> fits lim s' = fits lim s
        \<and> st_text s' = st_text s"
  using assms NEXT_2_POWER_above [OF assms(2)]
  by (auto simp: grew_def fits_def Let_def fun_eq_iff split: option.split)

lemma writes_grow: "writes lim bytes (\<lambda>s. map_option (\<lambda>s. s\<lparr>st_text := st_text s @ bytes\<rparr>) (grew lim (length bytes) s))"
  unfolding writes_def
proof (intro allI impI)
  fix s
  assume s: "stream_ok s" "length (st_text s) + length bytes < 2 ^ 63"
  show "case map_option (\<lambda>s. s\<lparr>st_text := st_text s @ bytes\<rparr>) (grew lim (length bytes) s) of
           None \<Rightarrow> \<not> fits lim s (length (st_text s) + length bytes)
         | Some s' \<Rightarrow> fits lim s (length (st_text s) + length bytes) \<and> stream_ok s' \<and> fits lim s' = fits lim s
                      \<and> st_text s' = st_text s @ bytes"
    using grew_cases [OF s, of lim]
    by (auto simp: stream_ok_def split: option.split option.split_asm)
qed

lemma stream_writes [intro]:
  "writes lim bytes (stream_add_bytes lim bytes)" "writes lim [c] (stream_add_char lim c)"
  "writes lim bytes (stream_add_string lim bytes)" "writes lim bytes (stream_printf lim bytes)"
  using writes_grow [of lim bytes] writes_grow [of lim "[c]"]
  by (simp_all add: writes_def stream_add_bytes_def stream_add_char_def stream_add_string_def stream_printf_def)

lemma writes_nothing [intro]: "writes lim [] Some"
  by (auto simp: writes_def stream_ok_def fits_def split: option.split)

lemma fits_less: "fits lim s n \<Longrightarrow> m \<le> n \<Longrightarrow> fits lim s m"
  by (auto simp: fits_def split: option.splits)

lemma writes_append [intro]:
  assumes "writes lim b1 f" "writes lim b2 g"
  shows "writes lim (b1 @ b2) (\<lambda>s. do { s \<leftarrow> f s; g s })"
  unfolding writes_def
proof (intro allI impI)
  fix s
  assume s: "stream_ok s" "length (st_text s) + length (b1 @ b2) < 2 ^ 63"
  then have f: "case f s of None \<Rightarrow> \<not> fits lim s (length (st_text s) + length b1)
      | Some s' \<Rightarrow> fits lim s (length (st_text s) + length b1) \<and> stream_ok s' \<and> fits lim s' = fits lim s \<and> st_text s' = st_text s @ b1"
    using assms(1) by (auto simp: writes_def)
  show "case (do { s \<leftarrow> f s; g s }) of None \<Rightarrow> \<not> fits lim s (length (st_text s) + length (b1 @ b2))
      | Some s' \<Rightarrow> fits lim s (length (st_text s) + length (b1 @ b2)) \<and> stream_ok s' \<and> fits lim s' = fits lim s \<and> st_text s' = st_text s @ b1 @ b2"
  proof (cases "f s")
    case None
    then show ?thesis using f fits_less [of lim s "length (st_text s) + length (b1 @ b2)" "length (st_text s) + length b1"] by auto
  next
    case (Some s1)
    with f have s1: "stream_ok s1" "fits lim s1 = fits lim s" "st_text s1 = st_text s @ b1" by auto
    have "case g s1 of None \<Rightarrow> \<not> fits lim s1 (length (st_text s1) + length b2)
      | Some s' \<Rightarrow> fits lim s1 (length (st_text s1) + length b2) \<and> stream_ok s' \<and> fits lim s' = fits lim s1 \<and> st_text s' = st_text s1 @ b2"
      using assms(2) s1(1,3) s(2) by (auto simp: writes_def)
    then show ?thesis using Some s1 by (auto simp: ac_simps split: option.splits)
  qed
qed

text \<open>A whole text on a fresh stream.\<close>

lemma writesD:
  assumes "writes lim bytes f" "stream_ok s" "length (st_text s) + length bytes < 2 ^ 63"
  shows "case f s of None \<Rightarrow> \<not> fits lim s (length (st_text s) + length bytes)
    | Some s' \<Rightarrow> fits lim s (length (st_text s) + length bytes) \<and> stream_ok s' \<and> fits lim s' = fits lim s \<and> st_text s' = st_text s @ bytes"
  using assms unfolding writes_def by blast

lemma writes_fresh:
  assumes "writes (Some m) bytes f" "n < 2 ^ 63" "st_buflen (new_stream n) \<le> m" "length bytes < 2 ^ 63"
  shows "map_option stream_contents (f (new_stream n)) = (if length bytes < m then Some bytes else None)"
  using writesD [OF assms(1) new_stream_ok(1) [OF assms(2)]] assms(3,4) new_stream_ok(2) [OF assms(2)]
  by (auto simp: fits_def stream_contents_def max_def split: option.splits)

lemma writes_free:
  assumes "writes None bytes f" "n < 2 ^ 63" "length bytes < 2 ^ 63"
  shows "map_option stream_contents (f (new_stream n)) = Some bytes"
  using writesD [OF assms(1) new_stream_ok(1) [OF assms(2)]] assms(3) new_stream_ok(2) [OF assms(2)]
  by (auto simp: fits_def stream_contents_def split: option.splits)

end
