(* ===== verification/BfLists.thy ===== *)
theory BfLists
  imports Streams VmInstr
begin

text \<open>
  The built-in functions on lists and strings (\<^verbatim>\<open>list.c\<close>) with the searches and the binary strings of
  \<^verbatim>\<open>utils.c\<close>.  Every function takes its checked arguments; optional ones are options.  The regular
  expressions, the digest, the character tables and the conversion between encodings are parameters.  \<open>None\<close> is a panic.
\<close>

section \<open>Limits\<close>

text \<open>Between \<^verbatim>\<open>TRY_STREAM\<close> and \<^verbatim>\<open>ENDTRY_STREAM\<close> streams are limited by a server option.\<close>

definition try_limit :: "options \<Rightarrow> limit" where
  "try_limit opts = Some (nat (opt_max_string_concat opts + 1))"

definition space_pack :: "options \<Rightarrow> package" where
  "space_pack opts = make_space_pack (opt_catchable opts)"

definition stream_pack :: "options \<Rightarrow> stream option \<Rightarrow> package" where
  "stream_pack opts r = (case r of Some s \<Rightarrow> make_string_pack (stream_contents s) | None \<Rightarrow> space_pack opts)"

section \<open>Values as text\<close>

fun error_name :: "error \<Rightarrow> string" where
  "error_name E_NONE = ''E_NONE''"
| "error_name E_TYPE = ''E_TYPE''"
| "error_name E_DIV = ''E_DIV''"
| "error_name E_PERM = ''E_PERM''"
| "error_name E_PROPNF = ''E_PROPNF''"
| "error_name E_VERBNF = ''E_VERBNF''"
| "error_name E_VARNF = ''E_VARNF''"
| "error_name E_INVIND = ''E_INVIND''"
| "error_name E_RECMOVE = ''E_RECMOVE''"
| "error_name E_MAXREC = ''E_MAXREC''"
| "error_name E_RANGE = ''E_RANGE''"
| "error_name E_ARGS = ''E_ARGS''"
| "error_name E_NACC = ''E_NACC''"
| "error_name E_INVARG = ''E_INVARG''"
| "error_name E_QUOTA = ''E_QUOTA''"
| "error_name E_FLOAT = ''E_FLOAT''"

definition stream_add_tostr :: "limit \<Rightarrow> var \<Rightarrow> stream \<Rightarrow> stream option option" where
  "stream_add_tostr lim v s =
     (case v of
        TYPE_INT n \<Rightarrow> Some (stream_printf lim (num_string n) s)
      | TYPE_OBJ x \<Rightarrow> Some (stream_printf lim (''#'' @ num_string x) s)
      | TYPE_STR str \<Rightarrow> Some (stream_add_string lim str s)
      | TYPE_ERR e \<Rightarrow> Some (stream_add_string lim (unparse_error e) s)
      | TYPE_FLOAT d \<Rightarrow> Some (stream_unparse_float lim d True s)
      | TYPE_LIST vs \<Rightarrow> Some (stream_add_string lim ''{list}'' s)
      | _ \<Rightarrow> None)"

definition value2str :: "var \<Rightarrow> string option" where
  "value2str v =
     (case v of
        TYPE_STR str \<Rightarrow> Some str
      | _ \<Rightarrow> do { r \<leftarrow> stream_add_tostr None v (new_stream 0); map_option stream_contents r })"

fun add_escaped :: "limit \<Rightarrow> string \<Rightarrow> stream \<Rightarrow> stream option" where
  "add_escaped lim [] s = Some s"
| "add_escaped lim (c # str) s =
     do { s \<leftarrow> (if c = CHR 0x22 \<or> c = CHR 0x5C then stream_add_char lim (CHR 0x5C) s else Some s);
          s \<leftarrow> stream_add_char lim c s;
          add_escaped lim str s }"

fun unparse_value :: "limit \<Rightarrow> var \<Rightarrow> stream \<Rightarrow> stream option"
  and unparse_elements :: "limit \<Rightarrow> string \<Rightarrow> var list \<Rightarrow> stream \<Rightarrow> stream option" where
  "unparse_value lim (TYPE_INT n) s = stream_printf lim (num_string n) s"
| "unparse_value lim (TYPE_OBJ x) s = stream_printf lim (''#'' @ num_string x) s"
| "unparse_value lim (TYPE_ERR e) s = stream_add_string lim (error_name e) s"
| "unparse_value lim (TYPE_FLOAT d) s = stream_unparse_float lim d False s"
| "unparse_value lim (TYPE_STR str) s =
     do { s \<leftarrow> stream_add_char lim (CHR 0x22) s; s \<leftarrow> add_escaped lim str s; stream_add_char lim (CHR 0x22) s }"
| "unparse_value lim (TYPE_LIST vs) s =
     do { s \<leftarrow> stream_add_char lim (CHR ''{'') s; s \<leftarrow> unparse_elements lim [] vs s; stream_add_char lim (CHR ''}'') s }"
| "unparse_value lim _ s = stream_add_string lim ''>>Unknown value<<'' s"
| "unparse_elements lim sep [] s = Some s"
| "unparse_elements lim sep (v # vs) s =
     do { s \<leftarrow> stream_add_string lim sep s; s \<leftarrow> unparse_value lim v s; unparse_elements lim '', '' vs s }"

fun tostr_loop :: "limit \<Rightarrow> var list \<Rightarrow> stream \<Rightarrow> stream option option" where
  "tostr_loop lim [] s = Some (Some s)"
| "tostr_loop lim (v # vs) s =
     do { r \<leftarrow> stream_add_tostr lim v s;
          (case r of None \<Rightarrow> Some None | Some s \<Rightarrow> tostr_loop lim vs s) }"

definition bf_tostr :: "options \<Rightarrow> var list \<Rightarrow> package option" where
  "bf_tostr opts args = map_option (stream_pack opts) (tostr_loop (try_limit opts) args (new_stream 100))"

definition bf_toliteral :: "options \<Rightarrow> var \<Rightarrow> package" where
  "bf_toliteral opts v = stream_pack opts (unparse_value (try_limit opts) v (new_stream 100))"

section \<open>Lists\<close>

definition bf_length :: "var \<Rightarrow> package" where
  "bf_length v =
     (case v of
        TYPE_LIST vs \<Rightarrow> make_var_pack (TYPE_INT (int (length vs)))
      | TYPE_STR str \<Rightarrow> make_var_pack (TYPE_INT (int (memo_strlen_utf str)))
      | _ \<Rightarrow> make_error_pack E_TYPE)"

definition bf_setadd :: "options \<Rightarrow> var list \<Rightarrow> var \<Rightarrow> package option" where
  "bf_setadd opts list v =
     do { r \<leftarrow> setadd list v;
          Some (if r = list \<or> int (length r) \<le> opt_max_list_concat opts then make_var_pack (TYPE_LIST r) else space_pack opts) }"

definition bf_setremove :: "var list \<Rightarrow> var \<Rightarrow> package option" where
  "bf_setremove list v = map_option (make_var_pack \<circ> TYPE_LIST) (setremove list v)"

text \<open>The position is an \<^verbatim>\<open>int\<close>.\<close>

definition insert_or_append :: "options \<Rightarrow> var list \<Rightarrow> var \<Rightarrow> num option \<Rightarrow> int \<Rightarrow> package option" where
  "insert_or_append opts lst elt at append1 =
     (if opt_max_list_concat opts \<le> int (length lst) then Some (space_pack opts)
      else let len = int (length lst);
               pos = (case at of
                        None \<Rightarrow> signed_take_bit 31 (if append1 \<noteq> 0 then len + 1 else 1)
                      | Some n \<Rightarrow>
                          let p = signed_take_bit 31 (n + append1)
                          in if p \<le> 0 then 1 else if p > len + 1 then signed_take_bit 31 (len + 1) else p)
           in map_option (make_var_pack \<circ> TYPE_LIST) (doinsert lst elt pos))"

definition bf_listappend :: "options \<Rightarrow> var list \<Rightarrow> var \<Rightarrow> num option \<Rightarrow> package option" where
  "bf_listappend opts lst elt at = insert_or_append opts lst elt at 1"

definition bf_listinsert :: "options \<Rightarrow> var list \<Rightarrow> var \<Rightarrow> num option \<Rightarrow> package option" where
  "bf_listinsert opts lst elt at = insert_or_append opts lst elt at 0"

definition bf_listdelete :: "var list \<Rightarrow> num \<Rightarrow> package option" where
  "bf_listdelete lst n =
     (if n \<le> 0 \<or> n > int (length lst) then Some (make_error_pack E_RANGE)
      else map_option (make_var_pack \<circ> TYPE_LIST) (listdelete lst n))"

definition bf_listset :: "var list \<Rightarrow> var \<Rightarrow> num \<Rightarrow> package option" where
  "bf_listset lst v n =
     (if n \<le> 0 \<or> n > int (length lst) then Some (make_error_pack E_RANGE)
      else map_option (make_var_pack \<circ> TYPE_LIST) (listset lst v n))"

definition bf_equal :: "var \<Rightarrow> var \<Rightarrow> package option" where
  "bf_equal a b = map_option (\<lambda>r. make_int_pack (of_bool r)) (equality a b True)"

definition bf_is_member :: "var \<Rightarrow> var list \<Rightarrow> package option" where
  "bf_is_member v lst = map_option make_int_pack (ismember v lst True)"

definition bf_value_bytes :: "var \<Rightarrow> package" where
  "bf_value_bytes v = make_var_pack (TYPE_INT (value_bytes v))"

section \<open>Searching strings\<close>

text \<open>Whether \<open>what\<close> is at the beginning of the string.\<close>

definition starts_with :: "bool \<Rightarrow> string \<Rightarrow> string \<Rightarrow> bool" where
  "starts_with case_counts s what \<longleftrightarrow>
     (if case_counts then take (length what) s = what else mystrncasecmp s what (length what) = 0)"

text \<open>With nothing to look for the loop would not end; the caller excludes it.\<close>

function strsub_loop :: "limit \<Rightarrow> string \<Rightarrow> string \<Rightarrow> bool \<Rightarrow> string \<Rightarrow> stream \<Rightarrow> stream option" where
  "strsub_loop lim what with' case_counts source s =
     (if what = [] then None
      else case source of
        [] \<Rightarrow> Some s
      | c # cs \<Rightarrow>
          if starts_with case_counts source what
          then do { s \<leftarrow> stream_add_string lim with' s; strsub_loop lim what with' case_counts (drop (length what) source) s }
          else do { s \<leftarrow> stream_add_char lim c s; strsub_loop lim what with' case_counts cs s })"
  by pat_completeness auto
termination by (relation "measure (\<lambda>(_, _, _, _, source, _). length source)") auto

declare strsub_loop.simps [simp del]

definition bf_strsub :: "options \<Rightarrow> string \<Rightarrow> string \<Rightarrow> string \<Rightarrow> bool \<Rightarrow> package" where
  "bf_strsub opts source what with' case_matters =
     (if what = [] then make_error_pack E_INVARG
      else stream_pack opts (strsub_loop (try_limit opts) what with' case_matters source (new_stream 100)))"

lemma starts_with_Nil [simp]: "starts_with cc s []"
  by (simp add: starts_with_def)

function strindex_loop :: "string \<Rightarrow> bool \<Rightarrow> string \<Rightarrow> int \<Rightarrow> int" where
  "strindex_loop what case_counts s ind =
     (if length s < length what then 0
      else if starts_with case_counts s what then ind + 1
      else strindex_loop what case_counts (drop (snd (get_utf s)) s) (ind + 1))"
  by pat_completeness auto
termination
  by (relation "measure (\<lambda>(_, _, s, _). length s)") (auto intro!: get_utf_advances)

declare strindex_loop.simps [simp del]

definition strindex :: "string \<Rightarrow> string \<Rightarrow> bool \<Rightarrow> int" where
  "strindex source what case_counts = strindex_loop what case_counts source 0"

text \<open>\<open>n\<close> is one more than the byte that is looked at next.\<close>

fun strrindex_loop :: "string \<Rightarrow> string \<Rightarrow> bool \<Rightarrow> nat \<Rightarrow> num option" where
  "strrindex_loop source what case_counts 0 = Some 0"
| "strrindex_loop source what case_counts (Suc i) =
     (if i < length source \<and> is_utf8_cont_byte (source ! i) then strrindex_loop source what case_counts i
      else if starts_with case_counts (drop i source) what then utf_char_index source (int i + 1)
      else strrindex_loop source what case_counts i)"

definition strrindex :: "string \<Rightarrow> string \<Rightarrow> bool \<Rightarrow> num option" where
  "strrindex source what case_counts =
     strrindex_loop source what case_counts (if length source < length what then 0 else Suc (length source - length what))"

definition bf_index :: "string \<Rightarrow> string \<Rightarrow> bool \<Rightarrow> package" where
  "bf_index source what case_matters = make_var_pack (TYPE_INT (strindex source what case_matters))"

definition bf_rindex :: "string \<Rightarrow> string \<Rightarrow> bool \<Rightarrow> package option" where
  "bf_rindex source what case_matters = map_option (make_var_pack \<circ> TYPE_INT) (strrindex source what case_matters)"

definition signum :: "int \<Rightarrow> int" where "signum x = (if x < 0 then -1 else if x > 0 then 1 else 0)"

text \<open>The comparison of the C library takes bytes as unsigned.\<close>

fun strcmp :: "string \<Rightarrow> string \<Rightarrow> int" where
  "strcmp [] [] = 0"
| "strcmp (c # s) [] = int (of_char c)"
| "strcmp [] (d # t) = - int (of_char d)"
| "strcmp (c # s) (d # t) = (if c = d then strcmp s t else int (of_char c) - int (of_char d))"

definition bf_strcmp :: "string \<Rightarrow> string \<Rightarrow> package" where
  "bf_strcmp a b = make_var_pack (TYPE_INT (signum (strcmp a b)))"

text \<open>\<open>crypt\<close> is the function of the C library, and \<open>a\<close> and \<open>b\<close> are random numbers.\<close>

definition saltstuff :: string where
  "saltstuff = ''abcdefghijklmnopqrstuvwxyzABCDEFGHIJKLMNOPQRSTUVWXYZ0123456789./''"

definition bf_crypt :: "(string \<Rightarrow> string \<Rightarrow> string) \<Rightarrow> nat \<Rightarrow> nat \<Rightarrow> string \<Rightarrow> string option \<Rightarrow> package" where
  "bf_crypt crypt a b str salt =
     make_string_pack (crypt str
       (case salt of
          Some x \<Rightarrow> if length x < 2 then [saltstuff ! (a mod length saltstuff), saltstuff ! (b mod length saltstuff)] else x
        | None \<Rightarrow> [saltstuff ! (a mod length saltstuff), saltstuff ! (b mod length saltstuff)]))"

end
