(* ===== verification/Builtins.thy ===== *)
theory Builtins
  imports SchedulerLaws BfLists
begin

text \<open>
  The table of built-in functions (\<^verbatim>\<open>functions.c\<close>), the functions of \<^verbatim>\<open>execute.c\<close> and \<^verbatim>\<open>tasks.c\<close>
  in it, and the part of \<^verbatim>\<open>server.c\<close> that runs when a player has logged in.  With them the scheduler has all that
  its interface asks for: the functions change the task queues by the operations of the queues only.
\<close>

section \<open>Registration\<close>

definition MAX_FUNC :: nat where "MAX_FUNC = 256"

definition register_common :: "'w bft_entry \<Rightarrow> 'w bft_entry list \<Rightarrow> 'w bft_entry list" where
  "register_common f table = (if length table = MAX_FUNC then table else table @ [f])"

definition register_function ::
  "string \<Rightarrow> int \<Rightarrow> int \<Rightarrow> ('w interp \<Rightarrow> var \<Rightarrow> nat \<Rightarrow> bi_data \<Rightarrow> objid \<Rightarrow> ('w interp \<times> package) option) \<Rightarrow> int list
     \<Rightarrow> 'w bft_entry" where
  "register_function nm minargs maxargs func prototype =
     \<lparr>bf_name = nm, bf_minargs = minargs, bf_maxargs = maxargs, bf_prototype = prototype, bf_protected = False, bf_func = func\<rparr>"

abbreviation (input) T_INT :: int where "T_INT \<equiv> 0"
abbreviation (input) T_OBJ :: int where "T_OBJ \<equiv> 1"
abbreviation (input) T_STR :: int where "T_STR \<equiv> 2"

definition number_func_by_name :: "'w bft_entry list \<Rightarrow> string \<Rightarrow> nat option" where
  "number_func_by_name table nm = find (\<lambda>i. mystrcasecmp nm (bf_name (table ! i)) = 0) [0..<length table]"

definition function_description :: "'w bft_entry \<Rightarrow> var" where
  "function_description f =
     (let nargs = (if bf_maxargs f = -1 then bf_minargs f else bf_maxargs f)
      in TYPE_LIST [TYPE_STR (bf_name f), TYPE_INT (bf_minargs f), TYPE_INT (bf_maxargs f),
           TYPE_LIST (map (\<lambda>p. TYPE_INT (if p < 0 then p else p AND 0x7f)) (take (nat nargs) (bf_prototype f)))])"

definition bf_function_info :: "'w bft_entry list \<Rightarrow> string option \<Rightarrow> package" where
  "bf_function_info table nm =
     (case nm of
        Some x \<Rightarrow>
          (case number_func_by_name table x of
             None \<Rightarrow> make_error_pack E_INVARG
           | Some i \<Rightarrow> make_var_pack (function_description (table ! i)))
      | None \<Rightarrow> make_var_pack (TYPE_LIST (map function_description table)))"

text \<open>\<open>flag\<close> is \<^verbatim>\<open>server_flag_option\<close>.\<close>

definition load_server_protect_function_flags :: "(string \<Rightarrow> bool) \<Rightarrow> 'w bft_entry list \<Rightarrow> 'w bft_entry list" where
  "load_server_protect_function_flags flag table = map (\<lambda>f. f\<lparr>bf_protected := flag (''protect_'' @ bf_name f)\<rparr>) table"

section \<open>Functions of the interpreter\<close>

definition bf_call_function ::
  "'w services \<Rightarrow> 'w interp \<Rightarrow> var \<Rightarrow> nat \<Rightarrow> bi_data \<Rightarrow> objid \<Rightarrow> ('w interp \<times> package) option" where
  "bf_call_function sv s arglist next' vdata progr =
     (let wrap = (\<lambda>fnum. map_option (\<lambda>(s, p). (s, case p of BI_CALL pc data \<Rightarrow> BI_CALL pc (Cf_state fnum data) | q \<Rightarrow> q)))
      in if next' = 1 then
           (case arglist of
              TYPE_LIST (TYPE_STR fname # args) \<Rightarrow>
                (case number_func_by_name (sv_bf_table sv) fname of
                   None \<Rightarrow> Some (s, make_raise_pack E_INVARG ''Unknown built-in function'' (TYPE_STR fname))
                 | Some fnum \<Rightarrow> wrap fnum (call_bi_func sv s fnum (TYPE_LIST args) next' progr vdata))
            | _ \<Rightarrow> None)
         else (case vdata of
                 Cf_state fnum data \<Rightarrow> wrap fnum (call_bi_func sv s fnum arglist next' progr data)
               | _ \<Rightarrow> None))"

definition bf_raise :: "var \<Rightarrow> string option \<Rightarrow> var option \<Rightarrow> package option" where
  "bf_raise code msg v =
     do { m \<leftarrow> (case msg of Some x \<Rightarrow> Some x | None \<Rightarrow> value2str code);
          Some (BI_RAISE code m (case v of Some x \<Rightarrow> x | None \<Rightarrow> zero_var)) }"

definition bf_suspend :: "num option \<Rightarrow> package" where
  "bf_suspend secs =
     (case secs of
        Some n \<Rightarrow>
          let seconds = signed_take_bit 31 n
          in if seconds < 0 then make_error_pack E_INVARG else BI_SUSPEND enqueue_suspended_task (Seconds seconds)
      | None \<Rightarrow> BI_SUSPEND enqueue_suspended_task (Seconds (-1)))"

definition bf_read :: "objid option \<Rightarrow> bool \<Rightarrow> objid \<Rightarrow> tasks interp \<Rightarrow> (tasks interp \<times> package) option" where
  "bf_read conn non_blocking progr s =
     do { connection \<leftarrow> (case conn of Some x \<Rightarrow> Some x | None \<Rightarrow> map_option a_player (nth_opt (activ_stack (in_vm s)) 0));
          denied \<leftarrow> (case conn of
                       Some x \<Rightarrow>
                         if is_wizard (in_db s) progr then Some False
                         else if \<not> valid (in_db s) connection then Some True
                         else map_option (\<lambda>owner. progr \<noteq> owner) (db_object_owner (in_db s) connection)
                     | None \<Rightarrow>
                         Some (\<not> is_wizard (in_db s) progr
                               \<or> last_input_task_id connection (in_tasks s) \<noteq> current_task_id (in_tasks s)));
          if denied then Some (s, make_error_pack E_PERM)
          else if non_blocking then
            do { (w, r) \<leftarrow> read_input_now connection (in_tasks s);
                 Some (s\<lparr>in_tasks := w\<rparr>, case r of TYPE_ERR e \<Rightarrow> make_error_pack e | _ \<Rightarrow> make_var_pack r) }
          else Some (s, BI_SUSPEND make_reading_task (Obj_data connection)) }"

text \<open>\<open>wakeup\<close> is what is left on the timer of the task.\<close>

definition bf_seconds_left :: "num \<Rightarrow> package" where "bf_seconds_left wakeup = make_var_pack (TYPE_INT wakeup)"

definition bf_ticks_left :: "'w interp \<Rightarrow> package" where "bf_ticks_left s = make_var_pack (TYPE_INT (in_ticks s))"

definition bf_pass :: "'w services \<Rightarrow> var list \<Rightarrow> 'w interp \<Rightarrow> ('w interp \<times> package) option" where
  "bf_pass sv args s =
     do { run \<leftarrow> RUN_ACTIV (in_vm s);
          (m, e) \<leftarrow> call_verb2 (sv_aliased sv) (sv_null_program sv) (in_moo s) (a_this run) (a_verb run) args True;
          Some (s\<lparr>in_moo := m\<rparr>, if e = E_NONE then tail_call_pack else make_error_pack e) }"

definition bf_set_task_perms :: "objid \<Rightarrow> objid \<Rightarrow> tasks interp \<Rightarrow> (tasks interp \<times> package) option" where
  "bf_set_task_perms oid progr s =
     (if progr \<noteq> oid \<and> \<not> is_wizard (in_db s) progr then Some (s, make_error_pack E_PERM)
      else do { run \<leftarrow> RUN_ACTIV (in_vm s); Some (set_run (run\<lparr>a_progr := oid\<rparr>) s, no_var_pack) })"

definition bf_caller_perms :: "'w interp \<Rightarrow> package option" where
  "bf_caller_perms s =
     (if top_activ_stack (in_vm s) = 0 then Some (make_var_pack (TYPE_OBJ NOTHING))
      else map_option (\<lambda>a. make_var_pack (TYPE_OBJ (a_progr a))) (nth_opt (activ_stack (in_vm s)) (top_activ_stack (in_vm s) - 1)))"

definition bf_callers :: "'w services \<Rightarrow> bool \<Rightarrow> 'w interp \<Rightarrow> package" where
  "bf_callers sv line_numbers_too s =
     make_var_pack (make_stack_list sv (activ_stack (in_vm s)) 0 (top_activ_stack (in_vm s)) False (in_root_vector s) line_numbers_too)"

definition bf_task_stack :: "tasks services \<Rightarrow> num \<Rightarrow> bool \<Rightarrow> objid \<Rightarrow> tasks interp \<Rightarrow> package" where
  "bf_task_stack sv n line_numbers_too progr s =
     (case find_suspended_task (task_id_from_num n) (in_tasks s) of
        None \<Rightarrow> make_error_pack E_INVARG
      | Some v \<Rightarrow>
          if \<not> is_wizard (in_db s) progr \<and> progr \<noteq> progr_of_cur_verb v then make_error_pack E_PERM
          else make_var_pack (make_stack_list sv (activ_stack (vm_state v)) 0 (top_activ_stack (vm_state v)) True (vm_root v) line_numbers_too))"

section \<open>Tables\<close>

text \<open>
  Each entry takes the list of its arguments, which \<^verbatim>\<open>call_bi_func\<close> has checked; a list of another form cannot come
  to the function.  \<open>wakeup\<close> stands for the timer.
\<close>

definition keep :: "(tasks interp \<Rightarrow> package) \<Rightarrow> tasks interp \<Rightarrow> (tasks interp \<times> package) option" where
  "keep f s = Some (s, f s)"

definition flag_of :: "var list \<Rightarrow> bool" where
  "flag_of rest = (case rest of v # _ \<Rightarrow> is_true v | [] \<Rightarrow> False)"

definition raise_entry :: "var \<Rightarrow> package option" where
  "raise_entry arglist =
     (case arglist of
        TYPE_LIST [code] \<Rightarrow> bf_raise code None None
      | TYPE_LIST [code, TYPE_STR m] \<Rightarrow> bf_raise code (Some m) None
      | TYPE_LIST [code, TYPE_STR m, v] \<Rightarrow> bf_raise code (Some m) (Some v)
      | _ \<Rightarrow> None)"

definition read_entry :: "var \<Rightarrow> objid \<Rightarrow> tasks interp \<Rightarrow> (tasks interp \<times> package) option" where
  "read_entry arglist progr s =
     (case arglist of
        TYPE_LIST [] \<Rightarrow> bf_read None False progr s
      | TYPE_LIST (TYPE_OBJ x # rest) \<Rightarrow> bf_read (Some x) (flag_of rest) progr s
      | _ \<Rightarrow> None)"

definition register_execute :: "tasks services \<Rightarrow> (tasks interp \<Rightarrow> num) \<Rightarrow> tasks bft_entry list" where
  "register_execute sv wakeup =
     [register_function ''call_function'' 1 (-1) (bf_call_function sv) [T_STR],
      register_function ''raise'' 1 3 (\<lambda>s a _ _ _. map_option (Pair s) (raise_entry a)) [TYPE_ANY, T_STR, TYPE_ANY],
      register_function ''suspend'' 0 1
        (\<lambda>s a _ _ _. case a of
             TYPE_LIST [] \<Rightarrow> Some (s, bf_suspend None) | TYPE_LIST [TYPE_INT n] \<Rightarrow> Some (s, bf_suspend (Some n)) | _ \<Rightarrow> None) [T_INT],
      register_function ''read'' 0 2 (\<lambda>s a _ _ progr. read_entry a progr s) [T_OBJ, TYPE_ANY],
      register_function ''seconds_left'' 0 0 (\<lambda>s _ _ _ _. keep (\<lambda>s. bf_seconds_left (wakeup s)) s) [],
      register_function ''ticks_left'' 0 0 (\<lambda>s _ _ _ _. keep bf_ticks_left s) [],
      register_function ''pass'' 0 (-1) (\<lambda>s a _ _ _. case a of TYPE_LIST args \<Rightarrow> bf_pass sv args s | _ \<Rightarrow> None) [],
      register_function ''set_task_perms'' 1 1
        (\<lambda>s a _ _ progr. case a of TYPE_LIST [TYPE_OBJ x] \<Rightarrow> bf_set_task_perms x progr s | _ \<Rightarrow> None) [T_OBJ],
      register_function ''caller_perms'' 0 0 (\<lambda>s _ _ _ _. map_option (Pair s) (bf_caller_perms s)) [],
      register_function ''callers'' 0 1
        (\<lambda>s a _ _ _. case a of TYPE_LIST rest \<Rightarrow> keep (bf_callers sv (flag_of rest)) s | _ \<Rightarrow> None) [TYPE_ANY],
      register_function ''task_stack'' 1 2
        (\<lambda>s a _ _ progr. case a of TYPE_LIST (TYPE_INT n # rest) \<Rightarrow> keep (bf_task_stack sv n (flag_of rest) progr) s | _ \<Rightarrow> None)
        [T_INT, TYPE_ANY]]"

definition give_tasks :: "tasks interp \<Rightarrow> tasks \<times> package \<Rightarrow> tasks interp \<times> package" where
  "give_tasks s r = (s\<lparr>in_tasks := fst r\<rparr>, snd r)"

definition resume_entry :: "var \<Rightarrow> objid \<Rightarrow> tasks interp \<Rightarrow> (tasks \<times> package) option" where
  "resume_entry arglist progr s =
     (case arglist of
        TYPE_LIST [TYPE_INT n] \<Rightarrow> bf_resume (in_db s) n None progr (in_tasks s)
      | TYPE_LIST [TYPE_INT n, v] \<Rightarrow> bf_resume (in_db s) n (Some v) progr (in_tasks s)
      | _ \<Rightarrow> None)"

definition register_tasks :: "tasks services \<Rightarrow> tasks bft_entry list" where
  "register_tasks sv =
     [register_function ''task_id'' 0 0 (\<lambda>s _ _ _ _. keep (\<lambda>s. bf_task_id (in_tasks s)) s) [],
      register_function ''queued_tasks'' 0 0 (\<lambda>s _ _ _ progr. keep (\<lambda>s. bf_queued_tasks sv (in_db s) progr (in_tasks s)) s) [],
      register_function ''kill_task'' 1 1
        (\<lambda>s a _ _ progr. case a of
             TYPE_LIST [TYPE_INT n] \<Rightarrow> Some (give_tasks s (bf_kill_task (in_db s) n progr (in_tasks s))) | _ \<Rightarrow> None) [T_INT],
      register_function ''output_delimiters'' 1 1
        (\<lambda>s a _ _ progr. case a of
             TYPE_LIST [TYPE_OBJ x] \<Rightarrow> keep (\<lambda>s. bf_output_delimiters (in_db s) x progr (in_tasks s)) s | _ \<Rightarrow> None) [T_OBJ],
      register_function ''queue_info'' 0 1
        (\<lambda>s a _ _ _. case a of
             TYPE_LIST [] \<Rightarrow> keep (\<lambda>s. bf_queue_info None (in_tasks s)) s
           | TYPE_LIST [TYPE_OBJ x] \<Rightarrow> keep (\<lambda>s. bf_queue_info (Some x) (in_tasks s)) s | _ \<Rightarrow> None) [T_OBJ],
      register_function ''resume'' 1 2 (\<lambda>s a _ _ progr. map_option (give_tasks s) (resume_entry a progr s)) [T_INT, TYPE_ANY],
      register_function ''force_input'' 2 3
        (\<lambda>s a _ _ progr. case a of
             TYPE_LIST (TYPE_OBJ x # TYPE_STR line # rest) \<Rightarrow>
               map_option (give_tasks s) (bf_force_input (in_db s) x line (flag_of rest) progr (in_tasks s)) | _ \<Rightarrow> None)
        [T_OBJ, T_STR, TYPE_ANY],
      register_function ''flush_input'' 1 2
        (\<lambda>s a _ _ progr. case a of
             TYPE_LIST (TYPE_OBJ x # rest) \<Rightarrow>
               map_option (give_tasks s) (bf_flush_input (in_db s) x (flag_of rest) progr (in_tasks s)) | _ \<Rightarrow> None)
        [T_OBJ, TYPE_ANY]]"

text \<open>
  The table is known to its own functions.  Here it is approximated from below: \<open>n\<close> bounds how often
  \<^verbatim>\<open>call_function()\<close> may call itself, which takes one argument every time.
\<close>

primrec function_table :: "nat \<Rightarrow> tasks services \<Rightarrow> (tasks interp \<Rightarrow> num) \<Rightarrow> tasks bft_entry list" where
  "function_table 0 sv wakeup = []"
| "function_table (Suc n) sv wakeup =
     (let sv = sv\<lparr>sv_bf_table := function_table n sv wakeup\<rparr>
      in fold register_common (register_execute sv wakeup @ register_tasks sv) [])"

section \<open>A player is connected\<close>

definition call_notifier :: "surroundings \<Rightarrow> objid \<Rightarrow> objid \<Rightarrow> string \<Rightarrow> tasks interp \<Rightarrow> tasks interp option" where
  "call_notifier e player handler verb_name s =
     map_option fst (run_server_task e player handler verb_name (TYPE_LIST [TYPE_OBJ player]) [] s)"

text \<open>
  \<open>handles\<close> are the connections: for a player the listener and the task queue.  The messages to the
  connections and the log are left out, and so is the flag \<^verbatim>\<open>disconnect_me\<close>.
\<close>

definition player_connected ::
  "surroundings \<Rightarrow> (objid \<Rightarrow> (objid \<times> nat) option) \<Rightarrow> objid \<Rightarrow> objid \<Rightarrow> bool \<Rightarrow> tasks interp \<Rightarrow> tasks interp option" where
  "player_connected e handles old_id new_id is_newly_created s =
     (case handles old_id of
        None \<Rightarrow> None
      | Some (listener, _) \<Rightarrow>
          (case handles new_id of
             Some (existing_listener, i) \<Rightarrow>
               if i \<notin> queue_set (in_tasks s) then None
               else do {
                 w \<leftarrow> free_task_queue i (in_tasks s);
                 let s = s\<lparr>in_tasks := w\<rparr>;
                 if existing_listener = listener then call_notifier e new_id listener ''user_reconnected'' s
                 else do { s \<leftarrow> call_notifier e new_id existing_listener ''user_client_disconnected'' s;
                           call_notifier e new_id listener ''user_connected'' s } }
           | None \<Rightarrow> call_notifier e new_id listener (if is_newly_created then ''user_created'' else ''user_connected'') s))"

section \<open>The functions keep the queues\<close>

lemma register_all_subset: "set (fold register_common fs table) \<subseteq> set table \<union> set fs"
proof (induction fs arbitrary: table)
  case (Cons f fs)
  have "set (register_common f table) \<subseteq> insert f (set table)" by (auto simp: register_common_def)
  then show ?case using Cons.IH [of "register_common f table"] by auto
qed simp

lemma bf_read_turn:
  assumes "bf_read conn nb progr s = Some (s', p)" "sched_ok (in_tasks s)"
  shows "turn s s'"
proof -
  have "sched_step (in_tasks s) w" if "read_input_now c (in_tasks s) = Some (w, v)" for c w v
    using read_input_now_ok [OF assms(2), of c] that by auto
  then show ?thesis
    using assms(1) sched_step_refl [OF assms(2)] by (auto simp: bf_read_def bind_eq_Some_conv split: if_split_asm)
qed

lemma read_entry_turn: "read_entry a progr s = Some (s', p) \<Longrightarrow> sched_ok (in_tasks s) \<Longrightarrow> turn s s'"
  by (auto simp: read_entry_def split: var.split_asm list.split_asm dest: bf_read_turn)

lemma call_function_turn:
  assumes "vm_frame sv (sched_step w)" "bf_call_function sv s a n data progr = Some (s', p)" "sched_step w (in_tasks s)"
  shows "sched_step w (in_tasks s')"
  using assms(2,3) vm_frame.call_bi_func_keeps [OF assms(1)]
  by (auto simp: bf_call_function_def Let_def split: if_split_asm var.split_asm list.split_asm option.split_asm bi_data.split_asm)

lemma execute_builtins_turn:
  assumes f: "bf \<in> set (register_execute sv wakeup)" and r: "bf_func bf s a n data progr = Some (s', p)"
    and s: "sched_ok (in_tasks s)" and sv: "vm_frame sv (sched_step (in_tasks s))"
  shows "turn s s'"
proof -
  note c = call_function_turn [OF sv _ sched_step_refl [OF s]]
  from f r consider "bf_call_function sv s a n data progr = Some (s', p)" | "read_entry a progr s = Some (s', p)" | "in_tasks s' = in_tasks s"
    by (auto simp: register_execute_def register_function_def bf_pass_def bf_set_task_perms_def bind_eq_Some_conv keep_def
        split: var.split_asm list.split_asm if_split_asm)
  then show ?thesis using c read_entry_turn [OF _ s] sched_step_refl [OF s] by cases simp_all
qed

lemma bf_kill_task_turn: "sched_ok w \<Longrightarrow> sched_step w (fst (bf_kill_task db n progr w))"
  by (auto simp: bf_kill_task_def Let_def split: prod.split intro: kill_task_step)

lemma resume_entry_turn:
  assumes "resume_entry a progr s = Some (w, p)" "sched_ok (in_tasks s)"
  shows "sched_step (in_tasks s) w"
proof -
  have "sched_step (in_tasks s) w" if "do_resume n v progr (in_db s) (in_tasks s) = Some (w, e)" for n v e
    using do_resume_ok [OF assms(2), of n v progr "in_db s"] that by auto
  then show ?thesis
    using assms(1) by (auto simp: resume_entry_def bf_resume_def bind_eq_Some_conv split: var.split_asm list.split_asm)
qed

lemma bf_force_input_turn:
  assumes "bf_force_input db conn line at_front progr w = Some (w', p)" "sched_ok w"
  shows "sched_step w w'"
proof -
  obtain i w1 where f: "find_tqueue conn w = (i, w1)" by fastforce
  note F = find_tqueue_ok [OF assms(2) f]
  have "sched_step w v" if "enqueue_input_task i line at_front False w1 = Some v" for v
    using enqueue_input_task_ok [OF sched_step_ok [OF F(1)] F(2) refl, of line at_front False] that sched_step_trans [OF F(1)] by auto
  then show ?thesis
    using assms(1) f sched_step_refl [OF assms(2)] by (auto simp: bf_force_input_def bind_eq_Some_conv split: if_split_asm)
qed

lemma bf_flush_input_turn:
  assumes "bf_flush_input db conn sm progr w = Some (w', p)" "sched_ok w"
  shows "sched_step w w'"
proof -
  obtain i w1 where f: "find_tqueue conn w = (i, w1)" by fastforce
  note F = find_tqueue_ok [OF assms(2) f]
  have "sched_step w v" if "flush_input sm i w1 = Some v" for v
    using flush_input_ok [OF sched_step_ok [OF F(1)] F(2), of sm] that sched_step_trans [OF F(1)] by auto
  then show ?thesis
    using assms(1) f sched_step_refl [OF assms(2)] by (auto simp: bf_flush_input_def bind_eq_Some_conv split: if_split_asm)
qed

lemma give_tasks_simps [simp]: "give_tasks s r = (s', p) \<longleftrightarrow> s' = s\<lparr>in_tasks := fst r\<rparr> \<and> p = snd r"
  by (auto simp: give_tasks_def)

lemma task_builtins_turn:
  assumes f: "bf \<in> set (register_tasks sv)" and r: "bf_func bf s a n data progr = Some (s', p)" and s: "sched_ok (in_tasks s)"
  shows "turn s s'"
  using f r sched_step_refl [OF s] bf_kill_task_turn [OF s] resume_entry_turn [OF _ s] bf_force_input_turn [OF _ s] bf_flush_input_turn [OF _ s]
  by (auto simp: register_tasks_def register_function_def keep_def split: var.split_asm list.split_asm)

lemma functions_frame:
  assumes "\<And>bf s a n data progr s' p. bf \<in> set (sv_bf_table sv) \<Longrightarrow> sched_ok (in_tasks s) \<Longrightarrow> bf_func bf s a n data progr = Some (s', p) \<Longrightarrow> turn s s'"
    and "sv_suspend sv = suspend_service limit" "sv_fork sv = enqueue_forked_task2 limit"
  shows "vm_frame sv (sched_step w)"
proof
  fix w0 proc data vm root db w' err
  assume "sched_step w w0" "sv_suspend sv proc data vm root db w0 = Some (w', err)"
  then show "sched_step w w'" unfolding assms using sched_step_trans suspend_service_step sched_step_ok by blast
next
  fix w0 a f n vid db w' t
  assume "sched_step w w0" "sv_fork sv a f n vid db w0 = Some (w', t)"
  then show "sched_step w w'" unfolding assms using sched_step_trans enqueue_forked_task2_step sched_step_ok by blast
next
  fix bf s args pc data progr s' p
  assume "bf \<in> set (sv_bf_table sv)" "sched_step w (in_tasks s)" "bf_func bf s args pc data progr = Some (s', p)"
  then show "sched_step w (in_tasks s')" using sched_step_trans assms(1) sched_step_ok by blast
qed

text \<open>Any services with the task queues and the table in the place of theirs.\<close>

definition queue_services :: "int \<Rightarrow> tasks services \<Rightarrow> tasks services" where
  "queue_services limit sv = sv\<lparr>sv_suspend := suspend_service limit, sv_fork := enqueue_forked_task2 limit\<rparr>"

definition server_services :: "int \<Rightarrow> nat \<Rightarrow> (tasks interp \<Rightarrow> num) \<Rightarrow> (string \<Rightarrow> bool) \<Rightarrow> tasks services \<Rightarrow> tasks services" where
  "server_services limit n wakeup flag sv =
     (let sv = queue_services limit sv
      in sv\<lparr>sv_bf_table := load_server_protect_function_flags flag (function_table n sv wakeup)\<rparr>)"

lemma function_table_turn:
  assumes "sv_suspend sv = suspend_service limit" "sv_fork sv = enqueue_forked_task2 limit"
  shows "bf \<in> set (function_table n sv wakeup) \<Longrightarrow> sched_ok (in_tasks s) \<Longrightarrow> bf_func bf s a k data progr = Some (s', p) \<Longrightarrow> turn s s'"
proof (induction n arbitrary: bf s a k data progr s' p)
  case (Suc n)
  let ?sv = "sv\<lparr>sv_bf_table := function_table n sv wakeup\<rparr>"
  have "vm_frame ?sv (sched_step w)" for w
    by (rule functions_frame [where limit = limit]) (use Suc.IH assms in auto)
  moreover have "bf \<in> set (register_execute ?sv wakeup) \<or> bf \<in> set (register_tasks ?sv)"
    using Suc.prems(1) register_all_subset [of "register_execute ?sv wakeup @ register_tasks ?sv" "[]"] by (auto simp: Let_def)
  ultimately show ?case using Suc.prems execute_builtins_turn task_builtins_turn by blast
qed simp

lemma server_builtins_turn:
  assumes "bf \<in> set (sv_bf_table (server_services limit n wakeup flag sv))" "sched_ok (in_tasks s)" "bf_func bf s a k data progr = Some (s', p)"
  shows "turn s s'"
proof -
  obtain f where "f \<in> set (function_table n (queue_services limit sv) wakeup)" "bf = f\<lparr>bf_protected := flag (''protect_'' @ bf_name f)\<rparr>"
    using assms(1) by (auto simp: server_services_def Let_def load_server_protect_function_flags_def)
  then show ?thesis using assms(2,3) function_table_turn [of "queue_services limit sv" limit] by (simp add: queue_services_def)
qed

text \<open>The surroundings without the connections; then a login runs verbs there.\<close>

definition server_surroundings ::
  "int \<Rightarrow> nat \<Rightarrow> (tasks interp \<Rightarrow> num) \<Rightarrow> (string \<Rightarrow> bool) \<Rightarrow> (objid \<Rightarrow> (objid \<times> nat) option) \<Rightarrow> surroundings \<Rightarrow> surroundings" where
  "server_surroundings limit n wakeup flag handles e =
     (let e = e\<lparr>sr_services := server_services limit n wakeup flag (sr_services e)\<rparr>
      in e\<lparr>sr_connected := player_connected e handles\<rparr>)"

lemma server_services_simps [simp]:
  "sv_suspend (server_services limit n wakeup flag sv) = suspend_service limit"
  "sv_fork (server_services limit n wakeup flag sv) = enqueue_forked_task2 limit"
  by (simp_all add: server_services_def Let_def queue_services_def)

lemma unconnected_scheduler:
  "scheduler (e\<lparr>sr_services := server_services limit n wakeup flag (sr_services e), sr_connected := \<lambda>_ _ _ _. None\<rparr>) limit"
  by unfold_locales (auto dest: server_builtins_turn)

lemma call_notifier_cong:
  assumes "sr_services e = sr_services e'" "sr_timer e = sr_timer e'"
  shows "call_notifier e player handler verb s = call_notifier e' player handler verb s"
proof -
  have e: "do_server_verb_task e = do_server_verb_task e'" by (intro ext) (simp only: do_server_verb_task_def timer_def assms)
  show ?thesis unfolding call_notifier_def run_server_task_def run_server_task_setting_id_def e ..
qed

lemma call_notifier_turn:
  assumes "scheduler e limit" "call_notifier e player handler verb s = Some s'" "sched_step w (in_tasks s)"
  shows "sched_step w (in_tasks s')"
  using assms(2,3) scheduler.run_server_task_setting_id_turn [OF assms(1)]
  by (auto simp: call_notifier_def run_server_task_def)

lemma player_connected_turn:
  assumes "scheduler e limit" "player_connected e handles old_id new_id b s = Some s'" "sched_ok (in_tasks s)"
  shows "turn s s'"
proof -
  note t = call_notifier_turn [OF assms(1), where w = "in_tasks s"]
  have fr: "sched_step (in_tasks s) w" if "free_task_queue i (in_tasks s) = Some w" "i \<in> queue_set (in_tasks s)" for i w
    using free_task_queue_ok [OF assms(3) that(2)] that(1) by auto
  show ?thesis
    using assms(2) sched_step_refl [OF assms(3)] t fr
    by (auto simp: player_connected_def Let_def bind_eq_Some_conv split: option.split_asm if_split_asm)
qed

interpretation server: scheduler "server_surroundings limit n wakeup flag handles e" limit for limit n wakeup flag handles e
proof
  let ?e = "e\<lparr>sr_services := server_services limit n wakeup flag (sr_services e)\<rparr>"
  fix s old_player new_player b s'
  assume s: "sched_ok (in_tasks s)" "sr_connected (server_surroundings limit n wakeup flag handles e) old_player new_player b s = Some s'"
  have n: "call_notifier ?e = call_notifier (?e\<lparr>sr_connected := \<lambda>_ _ _ _. None\<rparr>)"
    by (intro ext call_notifier_cong) simp_all
  have "player_connected ?e handles old_player new_player b s
      = player_connected (?e\<lparr>sr_connected := \<lambda>_ _ _ _. None\<rparr>) handles old_player new_player b s"
    unfolding player_connected_def n ..
  then show "turn s s'"
    using s player_connected_turn [OF unconnected_scheduler] by (simp add: server_surroundings_def Let_def)
qed (auto simp: server_surroundings_def Let_def dest: server_builtins_turn)

end
