(* ===== verification/ExampleTasks.thy ===== *)
theory ExampleTasks
  imports Builtins ExampleVm
begin

text \<open>A small state of the task queues: a connected player without input, a queue that is not in use any more, and a task that waits.\<close>

definition sample_services :: "tasks services" where
  "sample_services = \<lparr>sv_options = sample_options, sv_null_program = sample_program, sv_aliased = (\<lambda>_ _. False), sv_bf_table = [],
     sv_line_number = (\<lambda>_ _ _. 1), sv_suspend = suspend_service (-1), sv_max_stack_depth = 50, sv_fg_ticks = 30000, sv_bg_ticks = 15000,
     sv_blank = sample_activ, sv_fork = enqueue_forked_task2 (-1)\<rparr>"

definition sample_base :: surroundings where
  "sample_base = \<lparr>sr_services = sample_services, sr_timer = (\<lambda>_ _ _. False), sr_parse = (\<lambda>_. (None, [])), sr_connected = (\<lambda>_ _ _ _. None),
     sr_protect_set_verb_code = False, sr_numeric_names = False\<rparr>"

definition sample_surroundings :: surroundings where
  "sample_surroundings = server_surroundings (-1) 2 (\<lambda>_. 5) (\<lambda>_. False) (\<lambda>_. None) sample_base"

definition sample_forked :: "int \<Rightarrow> bg_task" where
  "sample_forked start = Forked_task 7 sample_program sample_activ [] (-1) start"

definition sample_tasks :: tasks where
  "sample_tasks =
     \<lparr>tk_queues = (\<lambda>i. (new_tqueue (if i = 0 then 1 else 2))\<lparr>tq_connected := (i = 0), tq_usage := (if i = 0 then 0 else NO_USAGE)\<rparr>), tk_fresh = 2,
      active_tqueues = [0], idle_tqueues = [1], waiting_tasks = [sample_forked 1000], current_task_id = 0,
      tk_clock = (\<lambda>n. 100 + int n), tk_reads = 0, tk_ids = (\<lambda>n. int n + 1), tk_drawn = 0, tk_output = []\<rparr>"

definition sample_interp :: "tasks interp" where
  "sample_interp = \<lparr>in_moo = sample_moo, in_root_vector = -1, in_ticks = 30000, in_handler = None, in_tasks = sample_tasks, in_notified = []\<rparr>"

lemma iqueue_valid_empty: "iqueue_valid empty_iqueue" "input_lines empty_iqueue = []"
  using iqueue_ok_empty by (auto simp: iqueue_valid_def input_lines_def empty_iqueue_def)

lemma sample_sched_ok: "sched_ok sample_tasks"
  by (auto simp: sched_ok_def sample_tasks_def queue_set_def queue_ok_def iqueue_valid_empty new_tqueue_def by_usage_def by_start_def)

lemma sample_clock: "mono (tk_clock sample_tasks)"
  by (auto simp: sample_tasks_def mono_def)

lemma sample_empty_queue: "dequeue_line empty_iqueue how = Some (empty_iqueue, None)" "first_input empty_iqueue = None"
  by (simp_all add: dequeue_line_def dequeue_node_def empty_iqueue_def)

text \<open>A turn in which no task is run: the waiting task is not due, and the queue without input becomes idle.\<close>

definition after_release :: tasks where
  "after_release = sample_tasks\<lparr>tk_reads := Suc (Suc 0)\<rparr>"

lemma sample_first: "run_first e 0 (sample_interp\<lparr>in_tasks := after_release\<rparr>) = Some (sample_interp\<lparr>in_tasks := after_release\<rparr>, False)"
proof -
  have q: "tk_queues after_release 0 = (new_tqueue 1)\<lparr>tq_connected := True, tq_usage := 0\<rparr>" by (simp add: after_release_def sample_tasks_def)
  have "dequeue_input_task (tk_queues after_release 0) DQ_FIRST = Some (tk_queues after_release 0, None, [])"
    by (simp add: q new_tqueue_def dequeue_input_task_def sample_empty_queue)
  moreover have "set_tq 0 (\<lambda>_. tk_queues after_release 0) after_release = after_release" by (simp add: set_tq_def)
  ultimately show ?thesis
    by (subst run_first_def, subst run_queue.simps)
      (simp add: q on_tasks_def emit_def dequeue_bg_task_def new_tqueue_def)
qed

lemma sample_turn:
  "\<exists>s'. run_ready_tasks e sample_interp = Some s' \<and> active_tqueues (in_tasks s') = [] \<and> idle_tqueues (in_tasks s') = [0]"
proof -
  have "release_waiting 100 (waiting_tasks sample_tasks) (sample_tasks\<lparr>tk_reads := 1\<rparr>) = Some (sample_tasks\<lparr>tk_reads := 1\<rparr>)"
    by (simp add: sample_tasks_def sample_forked_def GET_START_TIME_def)
  then have r: "run_ready_tasks e sample_interp = map_option (on_tasks free_idle) (run_active e 101 (sample_interp\<lparr>in_tasks := after_release\<rparr>))"
    by (simp add: run_ready_tasks_def sample_interp_def after_release_def time0_def sample_tasks_def map_option_case split: option.split)
  define w where "w = requeue False 101 0 after_release"
  have "active_tqueues after_release = [0]" by (simp add: after_release_def sample_tasks_def)
  then have "run_active e 101 (sample_interp\<lparr>in_tasks := after_release\<rparr>) = run_active e 101 (sample_interp\<lparr>in_tasks := w\<rparr>)"
    by (subst run_active.simps) (simp add: sample_first w_def on_tasks_def)
  moreover have w: "active_tqueues w = []" "idle_tqueues w = [0, 1]" "tq_connected (tk_queues w 0)" "tk_queues w 1 = tk_queues sample_tasks 1"
    by (simp_all add: w_def requeue_def deactivate_tqueue_def set_tq_def after_release_def sample_tasks_def new_tqueue_def)
  ultimately have "run_active e 101 (sample_interp\<lparr>in_tasks := after_release\<rparr>) = Some (sample_interp\<lparr>in_tasks := w\<rparr>)"
    by (subst (asm) (2) run_active.simps) simp
  moreover have "active_tqueues (free_idle w) = []" "idle_tqueues (free_idle w) = [0]"
    using w by (simp_all add: free_idle_def free_tqueue_def first_line_def sample_tasks_def new_tqueue_def sample_empty_queue)
  ultimately show ?thesis by (simp add: r on_tasks_def)
qed

end
