(* ===== verification/BfStrings.thy ===== *)
theory BfStrings
  imports BfLists
begin

text \<open>
  The other built-in functions of \<^verbatim>\<open>list.c\<close>: regular expressions with the cache of compiled patterns
  (and \<^verbatim>\<open>pattern_ylo.c\<close>, which adapts the matcher), substitution, digests, binary strings and characters.  The compiler and the
  matcher of regular expressions (\<^verbatim>\<open>regexpr.c\<close>), the digest, the tables of characters and \<^verbatim>\<open>iconv\<close> are parameters.
\<close>

section \<open>Patterns\<close>

text \<open>The rest of a character set up to its end; \<open>None\<close> if there is none.\<close>

fun copy_charset :: "string \<Rightarrow> string \<Rightarrow> (string \<times> string) option" where
  "copy_charset s [] = None"
| "copy_charset s (c # p) = (if c = CHR '']'' then Some (s @ [c], p) else copy_charset (s @ [c]) p)"

definition copy_first :: "char \<Rightarrow> string \<times> string \<Rightarrow> string \<times> string" where
  "copy_first d sp = (case sp of (s, c # p) \<Rightarrow> if c = d then (s @ [c], p) else sp | _ \<Rightarrow> sp)"

definition translate_charset :: "string \<Rightarrow> string \<Rightarrow> (string \<times> string) option" where
  "translate_charset s p = (case copy_first (CHR '']'') (copy_first (CHR ''^'') (s, p)) of (s, p) \<Rightarrow> copy_charset s p)"

lemma copy_charset_length: "copy_charset s p = Some (s', p') \<Longrightarrow> length p' < length p"
  by (induction s p rule: copy_charset.induct) (auto split: if_splits)

lemma translate_charset_length: "translate_charset s p = Some (s', p') \<Longrightarrow> length p' < length p"
  by (auto simp: translate_charset_def copy_first_def split: list.splits if_splits prod.splits dest!: copy_charset_length)

function translate_pattern :: "string \<Rightarrow> string \<Rightarrow> string option" where
  "translate_pattern s [] = Some s"
| "translate_pattern s (c # p) =
     (if c = CHR ''%'' then
        (case p of
           [] \<Rightarrow> None
         | d # q \<Rightarrow> translate_pattern (s @ (if d \<in> set ''.*+?[^$|()123456789bB<>wW'' then [CHR 0x5C] else []) @ [d]) q)
      else if c = CHR 0x5C then translate_pattern (s @ [CHR 0x5C, CHR 0x5C]) p
      else if c = CHR ''['' then
        (case translate_charset (s @ [c]) p of None \<Rightarrow> None | Some (s, q) \<Rightarrow> translate_pattern s q)
      else translate_pattern (s @ [c]) p)"
  by pat_completeness auto
termination
  by (relation "measure (\<lambda>(_, p). length p)") (auto dest: translate_charset_length)

text \<open>\<open>compile\<close> is the compiler of regular expressions, given the text and whether case matters.\<close>

definition new_pattern :: "(string \<Rightarrow> bool \<Rightarrow> 'p option) \<Rightarrow> string \<Rightarrow> bool \<Rightarrow> 'p option" where
  "new_pattern compile pattern case_matters =
     (case translate_pattern [] pattern of None \<Rightarrow> None | Some t \<Rightarrow> compile t case_matters)"

datatype match_result = MATCH_SUCCEEDED "(num \<times> num) list" | MATCH_FAILED | MATCH_ABORTED

text \<open>
  \<open>search\<close> is the matcher: the pattern, the string, where the search starts and how far it goes; \<open>Inl\<close> is a negative
  result, \<open>Inr\<close> the registers.
\<close>

definition match_pattern ::
  "('p \<Rightarrow> string \<Rightarrow> int \<Rightarrow> int \<Rightarrow> int + (num \<times> num) list) \<Rightarrow> 'p \<Rightarrow> string \<Rightarrow> bool \<Rightarrow> match_result" where
  "match_pattern search p str is_reverse =
     (let len = int (length str)
      in case search p str (if is_reverse then len else 0) (if is_reverse then - len else len) of
           Inr regs \<Rightarrow> MATCH_SUCCEEDED (map (\<lambda>(a, b). (a + 1, b)) (take 10 regs))
         | Inl n \<Rightarrow> if n = -2 then MATCH_ABORTED else MATCH_FAILED)"

text \<open>The cache: a list in the order of use, each entry with the text, unless it is free, the flag and the pattern.\<close>

type_synonym 'p pat_cache = "(string option \<times> bool \<times> 'p option) list"

definition setup_pattern_cache :: "nat \<Rightarrow> 'p pat_cache" where
  "setup_pattern_cache n = replicate n (None, False, None)"

text \<open>The entry that is used and the others in their order.\<close>

fun pattern_entry ::
  "(string \<Rightarrow> bool \<Rightarrow> 'p option) \<Rightarrow> string \<Rightarrow> bool \<Rightarrow> 'p pat_cache \<Rightarrow> ((string option \<times> bool \<times> 'p option) \<times> 'p pat_cache) option" where
  "pattern_entry mk str cm [] = None"
| "pattern_entry mk str cm (e # es) =
     (if fst e = Some str \<and> fst (snd e) = cm then Some (e, es)
      else if es = [] then (case mk str cm of None \<Rightarrow> Some ((None, cm, None), []) | Some p \<Rightarrow> Some ((Some str, cm, Some p), []))
      else map_option (\<lambda>(x, xs). (x, e # xs)) (pattern_entry mk str cm es))"

definition get_pattern :: "(string \<Rightarrow> bool \<Rightarrow> 'p option) \<Rightarrow> string \<Rightarrow> bool \<Rightarrow> 'p pat_cache \<Rightarrow> ('p pat_cache \<times> 'p option) option" where
  "get_pattern mk str cm cache = map_option (\<lambda>(e, es). (e # es, snd (snd e))) (pattern_entry mk str cm cache)"

definition match_pair :: "string \<Rightarrow> num \<times> num \<Rightarrow> (num \<times> num) option" where
  "match_pair subject reg =
     do { a \<leftarrow> utf_char_index subject (fst reg); b \<leftarrow> utf_char_index subject (snd reg + 1); Some (a, b - 1) }"

fun match_pairs :: "string \<Rightarrow> (num \<times> num) list \<Rightarrow> (num \<times> num) list option" where
  "match_pairs subject [] = Some []"
| "match_pairs subject (r # rs) = do { p \<leftarrow> match_pair subject r; ps \<leftarrow> match_pairs subject rs; Some (p # ps) }"

definition pair_list :: "num \<times> num \<Rightarrow> var" where "pair_list p = TYPE_LIST [TYPE_INT (fst p), TYPE_INT (snd p)]"

definition do_match ::
  "(string \<Rightarrow> bool \<Rightarrow> 'p option) \<Rightarrow> ('p \<Rightarrow> string \<Rightarrow> bool \<Rightarrow> match_result) \<Rightarrow> string \<Rightarrow> string \<Rightarrow> bool \<Rightarrow> bool \<Rightarrow> 'p pat_cache
     \<Rightarrow> ('p pat_cache \<times> var) option" where
  "do_match mk run subject pattern cm reverse cache =
     do { (cache, pat) \<leftarrow> get_pattern mk pattern cm cache;
          (case pat of
             None \<Rightarrow> Some (cache, TYPE_ERR E_INVARG)
           | Some p \<Rightarrow>
               (case run p subject reverse of
                  MATCH_SUCCEEDED regs \<Rightarrow>
                    do { ps \<leftarrow> match_pairs subject regs;
                         (case ps of
                            (a, b) # more' \<Rightarrow>
                              Some (cache, TYPE_LIST [TYPE_INT a, TYPE_INT b, TYPE_LIST (map pair_list more'), TYPE_STR subject])
                          | [] \<Rightarrow> None) }
                | MATCH_FAILED \<Rightarrow> Some (cache, TYPE_LIST [])
                | MATCH_ABORTED \<Rightarrow> Some (cache, TYPE_ERR E_QUOTA))) }"

definition match_pack :: "var \<Rightarrow> package" where
  "match_pack ans = (case ans of TYPE_ERR e \<Rightarrow> make_error_pack e | _ \<Rightarrow> make_var_pack ans)"

definition bf_match ::
  "(string \<Rightarrow> bool \<Rightarrow> 'p option) \<Rightarrow> ('p \<Rightarrow> string \<Rightarrow> bool \<Rightarrow> match_result) \<Rightarrow> string \<Rightarrow> string \<Rightarrow> bool \<Rightarrow> 'p pat_cache
     \<Rightarrow> ('p pat_cache \<times> package) option" where
  "bf_match mk run subject pattern cm cache = map_option (map_prod id match_pack) (do_match mk run subject pattern cm False cache)"

definition bf_rmatch ::
  "(string \<Rightarrow> bool \<Rightarrow> 'p option) \<Rightarrow> ('p \<Rightarrow> string \<Rightarrow> bool \<Rightarrow> match_result) \<Rightarrow> string \<Rightarrow> string \<Rightarrow> bool \<Rightarrow> 'p pat_cache
     \<Rightarrow> ('p pat_cache \<times> package) option" where
  "bf_rmatch mk run subject pattern cm cache = map_option (map_prod id match_pack) (do_match mk run subject pattern cm True cache)"

section \<open>Substitution\<close>

text \<open>The arguments are \<^verbatim>\<open>int\<close>.\<close>

definition invalid_pair :: "int \<Rightarrow> int \<Rightarrow> int \<Rightarrow> bool" where
  "invalid_pair num1 num2 max' \<longleftrightarrow> \<not> (num1 = 0 \<and> num2 = -1 \<or> num1 > 0 \<and> num2 \<ge> num1 - 1 \<and> num2 \<le> max')"

definition to_int32 :: "num \<Rightarrow> int" where "to_int32 n = signed_take_bit 31 n"

definition subs_pair :: "int \<Rightarrow> var \<Rightarrow> (int \<times> int) option" where
  "subs_pair len v =
     (case v of
        TYPE_LIST [TYPE_INT a, TYPE_INT b] \<Rightarrow>
          if invalid_pair (to_int32 a) (to_int32 b) len then None else Some (to_int32 a, to_int32 b)
      | _ \<Rightarrow> None)"

fun subs_pairs :: "int \<Rightarrow> var list \<Rightarrow> (int \<times> int) list option" where
  "subs_pairs len [] = Some []"
| "subs_pairs len (v # vs) = do { p \<leftarrow> subs_pair len v; ps \<leftarrow> subs_pairs len vs; Some (p # ps) }"

text \<open>The subject and the ten pairs of a valid list, the whole match first.\<close>

definition check_subs_list :: "var list \<Rightarrow> (string \<times> (int \<times> int) list) option" where
  "check_subs_list subs =
     (case subs of
        [TYPE_INT a, TYPE_INT b, TYPE_LIST pairs, TYPE_STR subj] \<Rightarrow>
          if length pairs \<noteq> 9 then None
          else do { let len = to_int32 (int (memo_strlen_utf subj));
                    p \<leftarrow> subs_pair len (TYPE_LIST [TYPE_INT a, TYPE_INT b]);
                    ps \<leftarrow> subs_pairs len pairs;
                    Some (subj, p # ps) }
      | _ \<Rightarrow> None)"

text \<open>The bytes from one index to before another; \<open>None\<close> if they are not all in the string.\<close>

definition bytes_of :: "string \<Rightarrow> num \<times> num \<Rightarrow> string option" where
  "bytes_of s r =
     (if fst r = snd r then Some []
      else if 1 \<le> fst r \<and> fst r < snd r \<and> snd r \<le> int (length s) + 1
      then Some (take (nat (snd r - fst r)) (drop (nat (fst r - 1)) s)) else None)"

text \<open>
  The outer option is a read outside the subject; inside, \<open>Inl False\<close> is the exception of the stream, \<open>Inl True\<close> a template that
  is not valid.
\<close>

fun substitute_loop :: "limit \<Rightarrow> string \<Rightarrow> (int \<times> int) list \<Rightarrow> string \<Rightarrow> stream \<Rightarrow> (bool + stream) option" where
  "substitute_loop lim subject pairs [] s = Some (Inr s)"
| "substitute_loop lim subject pairs (c # t) s =
     (if c \<noteq> CHR ''%'' then
        (case stream_add_char lim c s of None \<Rightarrow> Some (Inl False) | Some s \<Rightarrow> substitute_loop lim subject pairs t s)
      else case t of
        [] \<Rightarrow> Some (Inl True)
      | d # u \<Rightarrow>
          if d = CHR ''%'' then
            (case stream_add_char lim d s of None \<Rightarrow> Some (Inl False) | Some s \<Rightarrow> substitute_loop lim subject pairs u s)
          else if isdigit d then
            do { let (a, b) = pairs ! nat (digit_val d);
                 bs \<leftarrow> bytes_of subject (utf_byte_range subject (a, b + 1));
                 (case stream_add_bytes lim bs s of None \<Rightarrow> Some (Inl False) | Some s \<Rightarrow> substitute_loop lim subject pairs u s) }
          else Some (Inl True))"

definition bf_substitute :: "options \<Rightarrow> string \<Rightarrow> var list \<Rightarrow> package option" where
  "bf_substitute opts template subs =
     (case check_subs_list subs of
        None \<Rightarrow> Some (make_error_pack E_INVARG)
      | Some (subject, pairs) \<Rightarrow>
          map_option (\<lambda>r. case r of
                            Inl bad \<Rightarrow> if bad then make_error_pack E_INVARG else space_pack opts
                          | Inr s \<Rightarrow> make_string_pack (stream_contents s))
            (substitute_loop (try_limit opts) subject pairs template (new_stream (length template))))"

section \<open>Binary strings\<close>

definition hex_digit :: "nat \<Rightarrow> char" where "hex_digit n = ''0123456789abcdef'' ! n"

fun stream_add_moobinary_from_raw_bytes :: "limit \<Rightarrow> string \<Rightarrow> stream \<Rightarrow> stream option" where
  "stream_add_moobinary_from_raw_bytes lim [] s = Some s"
| "stream_add_moobinary_from_raw_bytes lim (b # bs) s =
     do { let c = (of_char b :: nat);
          s \<leftarrow> (if c \<ge> 32 \<and> c < 126 then stream_add_char lim b s
               else stream_printf lim [CHR ''~'', hex_digit (c div 16), hex_digit (c mod 16)] s);
          stream_add_moobinary_from_raw_bytes lim bs s }"

text \<open>One hexadecimal digit: the bit 0x20 is set before the digit is looked at.\<close>

definition binary_digit :: "char \<Rightarrow> nat option" where
  "binary_digit b =
     (let c = (of_char b OR 0x20 :: nat)
      in if 48 \<le> c \<and> c \<le> 57 then Some (c - 48) else if 97 \<le> c \<and> c \<le> 102 then Some (c - 97 + 10) else None)"

fun moobinary_to_raw_bytes :: "string \<Rightarrow> string option" where
  "moobinary_to_raw_bytes [] = Some []"
| "moobinary_to_raw_bytes (c # p) =
     (if c \<noteq> CHR ''~'' then map_option ((#) c) (moobinary_to_raw_bytes p)
      else case p of
        x # y # q \<Rightarrow>
          do { a \<leftarrow> binary_digit x; b \<leftarrow> binary_digit y;
               map_option ((#) (char_of (a * 16 + b))) (moobinary_to_raw_bytes q) }
      | _ \<Rightarrow> None)"

definition hash_bytes :: "(string \<Rightarrow> nat list) \<Rightarrow> string \<Rightarrow> string" where
  "hash_bytes md5 input = concat (map (\<lambda>b. [''0123456789ABCDEF'' ! (b div 16 mod 16), ''0123456789ABCDEF'' ! (b mod 16)]) (take 16 (md5 input)))"

definition bf_binary_hash :: "(string \<Rightarrow> nat list) \<Rightarrow> string \<Rightarrow> package" where
  "bf_binary_hash md5 str =
     (case moobinary_to_raw_bytes str of None \<Rightarrow> make_error_pack E_INVARG | Some bytes \<Rightarrow> make_string_pack (hash_bytes md5 bytes))"

definition bf_string_hash :: "(string \<Rightarrow> nat list) \<Rightarrow> string \<Rightarrow> package" where
  "bf_string_hash md5 str = make_string_pack (hash_bytes md5 str)"

definition bf_value_hash :: "(string \<Rightarrow> nat list) \<Rightarrow> options \<Rightarrow> var \<Rightarrow> package" where
  "bf_value_hash md5 opts v =
     (case unparse_value (try_limit opts) v (new_stream 100) of
        Some s \<Rightarrow> make_string_pack (hash_bytes md5 (stream_contents s)) | None \<Rightarrow> space_pack opts)"

definition plain_byte :: "char \<Rightarrow> bool" where
  "plain_byte b \<longleftrightarrow> (32 \<le> (of_char b :: nat) \<and> of_char b \<le> (126 :: nat)) \<or> of_char b = (9 :: nat)"

text \<open>The first pass counts the elements, the second fills a list of that length from \<open>count\<close> on.\<close>

fun count_pieces :: "bool \<Rightarrow> string \<Rightarrow> nat" where
  "count_pieces in_string [] = 0"
| "count_pieces in_string (c # bs) =
     (if plain_byte c then (if in_string then 0 else 1) + count_pieces True bs else 1 + count_pieces False bs)"

fun fill_pieces :: "string \<Rightarrow> bool \<Rightarrow> string \<Rightarrow> nat \<Rightarrow> var list \<Rightarrow> var list option" where
  "fill_pieces s in_string [] count r =
     (if in_string then (if count < length r then Some (r[count := TYPE_STR s]) else None) else Some r)"
| "fill_pieces s in_string (c # bs) count r =
     (if plain_byte c then fill_pieces (s @ [c]) True bs count r
      else do { (r, count, s) \<leftarrow> (if in_string then if count < length r then Some (r[count := TYPE_STR s], Suc count, []) else None
                                 else Some (r, count, s));
                if count < length r then fill_pieces s False bs (Suc count) (r[count := TYPE_INT (of_char c)]) else None })"

definition bf_decode_binary :: "options \<Rightarrow> string \<Rightarrow> bool \<Rightarrow> package option" where
  "bf_decode_binary opts str fully =
     (case moobinary_to_raw_bytes str of
        None \<Rightarrow> Some (make_error_pack E_INVARG)
      | Some bytes \<Rightarrow>
          if fully then
            if int (length bytes) > opt_max_list_concat opts then Some (space_pack opts)
            else Some (make_var_pack (TYPE_LIST (map (\<lambda>b. TYPE_INT (of_char b)) bytes)))
          else let n = count_pieces False bytes
               in if int n > opt_max_list_concat opts then Some (space_pack opts)
                  else map_option (make_var_pack \<circ> TYPE_LIST) (fill_pieces [] False bytes 0 (replicate n TYPE_NONE)))"

text \<open>The flag is false at a value that has no bytes.\<close>

fun encode_binary :: "limit \<Rightarrow> var \<Rightarrow> stream \<Rightarrow> (stream \<times> bool) option"
  and encode_binaries :: "limit \<Rightarrow> var list \<Rightarrow> stream \<Rightarrow> (stream \<times> bool) option" where
  "encode_binary lim (TYPE_INT n) s =
     (if n < 0 \<or> n \<ge> 256 then Some (s, False) else map_option (\<lambda>s. (s, True)) (stream_add_char lim (char_of (nat n)) s))"
| "encode_binary lim (TYPE_STR str) s = map_option (\<lambda>s. (s, True)) (stream_add_string lim str s)"
| "encode_binary lim (TYPE_LIST vs) s = encode_binaries lim vs s"
| "encode_binary lim _ s = Some (s, False)"
| "encode_binaries lim [] s = Some (s, True)"
| "encode_binaries lim (v # vs) s =
     do { (s, ok) \<leftarrow> encode_binary lim v s; if ok then encode_binaries lim vs s else Some (s, False) }"

definition bf_encode_binary :: "options \<Rightarrow> var list \<Rightarrow> package" where
  "bf_encode_binary opts args =
     (let lim = try_limit opts
      in case encode_binary lim (TYPE_LIST args) (new_stream 100) of
           None \<Rightarrow> space_pack opts
         | Some (s, ok) \<Rightarrow>
             if ok then stream_pack opts (stream_add_moobinary_from_raw_bytes lim (stream_contents s) (new_stream 100))
             else make_error_pack E_INVARG)"

section \<open>Characters\<close>

text \<open>
  \<open>printable\<close>, \<open>char_lookup\<close> and \<open>char_name\<close> are the tables of characters; the code point is an \<^verbatim>\<open>int\<close> that the tables
  take as an unsigned number.
\<close>

definition bf_tochar :: "(nat \<Rightarrow> bool) \<Rightarrow> (string \<Rightarrow> nat) \<Rightarrow> var \<Rightarrow> package option" where
  "bf_tochar printable char_lookup v =
     (let give = (\<lambda>ucs. if printable (nat (take_bit 32 ucs))
                        then do { (s, _) \<leftarrow> stream_add_utf None (nat (take_bit 32 ucs)) (new_stream 0);
                                  Some (make_string_pack (stream_contents s)) }
                        else Some (make_error_pack E_INVARG))
      in case v of
           TYPE_INT n \<Rightarrow> give (to_int32 (if n \<le> 0x10ffff then n else 0))
         | TYPE_STR str \<Rightarrow> give (to_int32 (int (char_lookup str)))
         | _ \<Rightarrow> Some (make_error_pack E_TYPE))"

definition single_char_first_argument :: "string \<Rightarrow> nat" where
  "single_char_first_argument str = (case get_utf str of (ucs, n) \<Rightarrow> if n < length str then 0 else ucs)"

definition bf_charname :: "(nat \<Rightarrow> string option) \<Rightarrow> string \<Rightarrow> package" where
  "bf_charname char_name str =
     (let ucs = single_char_first_argument str
      in if ucs = 0 then make_error_pack E_INVARG
         else case char_name ucs of None \<Rightarrow> make_error_pack E_INVARG | Some nm \<Rightarrow> make_string_pack nm)"

definition bf_ord :: "string \<Rightarrow> package" where
  "bf_ord str = (let ucs = single_char_first_argument str in if ucs = 0 then make_error_pack E_INVARG else make_int_pack (int ucs))"

fun encode_chars :: "limit \<Rightarrow> var \<Rightarrow> stream \<Rightarrow> (stream \<times> bool) option"
  and encode_chars_all :: "limit \<Rightarrow> var list \<Rightarrow> stream \<Rightarrow> (stream \<times> bool) option" where
  "encode_chars lim (TYPE_INT n) s = stream_add_utf lim (nat (take_bit 32 n)) s"
| "encode_chars lim (TYPE_STR str) s = map_option (\<lambda>s. (s, True)) (stream_add_string lim str s)"
| "encode_chars lim (TYPE_LIST vs) s = encode_chars_all lim vs s"
| "encode_chars lim _ s = Some (s, False)"
| "encode_chars_all lim [] s = Some (s, True)"
| "encode_chars_all lim (v # vs) s = do { (s, ok) \<leftarrow> encode_chars lim v s; if ok then encode_chars_all lim vs s else Some (s, False) }"

text \<open>\<open>recode lim from to bytes s\<close> adds the bytes in another encoding, with \<open>False\<close> if that is not possible.\<close>

definition bf_encode_chars ::
  "(limit \<Rightarrow> string \<Rightarrow> string \<Rightarrow> string \<Rightarrow> stream \<Rightarrow> (stream \<times> bool) option) \<Rightarrow> options \<Rightarrow> var \<Rightarrow> string \<Rightarrow> package" where
  "bf_encode_chars recode opts v encoding =
     (let lim = try_limit opts
      in case (do { (s, ok) \<leftarrow> encode_chars lim v (new_stream 100);
                    if \<not> ok then Some None
                    else do { (s2, ok) \<leftarrow> recode lim ''UTF-8'' encoding (stream_contents s) (new_stream 100);
                              if \<not> ok then Some None
                              else map_option Some (stream_add_moobinary_from_raw_bytes lim (stream_contents s2) (reset_stream s)) } }) of
           None \<Rightarrow> space_pack opts
         | Some None \<Rightarrow> make_error_pack E_INVARG
         | Some (Some s) \<Rightarrow> make_string_pack (stream_contents s))"

text \<open>The characters of a text in UTF-32 of the machine.\<close>

fun units32 :: "string \<Rightarrow> nat list" where
  "units32 (a # b # c # d # bs) = (of_char a + 256 * of_char b + 65536 * of_char c + 16777216 * of_char d) # units32 bs"
| "units32 _ = []"

fun count_chars :: "(nat \<Rightarrow> bool) \<Rightarrow> nat list \<Rightarrow> nat \<Rightarrow> nat \<times> nat \<Rightarrow> nat \<times> nat" where
  "count_chars printable [] scount (llen, smax) = (llen, max smax scount)"
| "count_chars printable (c # cs) scount (llen, smax) =
     (if printable c then count_chars printable cs (scount + char_size c) (if scount = 0 then Suc llen else llen, smax)
      else count_chars printable cs 0 (Suc llen, max smax scount))"

fun fill_chars :: "(nat \<Rightarrow> bool) \<Rightarrow> nat list \<Rightarrow> stream \<Rightarrow> nat \<Rightarrow> var list \<Rightarrow> (nat \<times> var list) option" where
  "fill_chars printable [] s llast r =
     (if stream_length s = 0 then Some (llast, r)
      else if llast < length r then Some (Suc llast, r[llast := TYPE_STR (stream_contents s)]) else None)"
| "fill_chars printable (c # cs) s llast r =
     (if printable c then do { (s, _) \<leftarrow> stream_add_utf None c s; fill_chars printable cs s llast r }
      else do { (s, llast, r) \<leftarrow> (if stream_length s = 0 then Some (s, llast, r)
                                 else if llast < length r then Some (reset_stream s, Suc llast, r[llast := TYPE_STR (stream_contents s)])
                                 else None);
                if llast < length r then fill_chars printable cs s (Suc llast) (r[llast := TYPE_INT (int c)]) else None })"

definition bf_decode_chars ::
  "(nat \<Rightarrow> bool) \<Rightarrow> (limit \<Rightarrow> string \<Rightarrow> string \<Rightarrow> string \<Rightarrow> stream \<Rightarrow> (stream \<times> bool) option) \<Rightarrow> options \<Rightarrow> string \<Rightarrow> string \<Rightarrow> bool
     \<Rightarrow> package option" where
  "bf_decode_chars printable recode opts str encoding fully =
     (case do { bytes \<leftarrow> moobinary_to_raw_bytes str; recode None encoding ''UTF-32LE'' bytes (new_stream 100) } of
        Some (s32, True) \<Rightarrow>
          let dchars = units32 (stream_contents s32);
              dchars = (case dchars of c # cs \<Rightarrow> if c = 0xfeff then cs else dchars | [] \<Rightarrow> [])
          in if fully then
               if int (length dchars) > opt_max_list_concat opts then Some (space_pack opts)
               else Some (make_var_pack (TYPE_LIST (map (TYPE_INT \<circ> int) dchars)))
             else let (llen, smax) = count_chars printable dchars 0 (0, 0)
                  in if int llen > opt_max_list_concat opts \<or> int smax > opt_max_string_concat opts then Some (space_pack opts)
                     else do { (llast, r) \<leftarrow> fill_chars printable dchars (new_stream (smax + 1)) 0 (replicate llen TYPE_NONE);
                               if llast \<noteq> llen then None else Some (make_var_pack (TYPE_LIST r)) }
      | _ \<Rightarrow> Some (make_error_pack E_INVARG))"

end
