(* ===== verification/StringLaws.thy ===== *)
theory StringLaws
  imports BfStrings
begin

text \<open>
  What the built-in functions on strings give: the text of values within the limit of streams, binary strings there and back,
  the cache of patterns, and the substitution within its subject.
\<close>

section \<open>Text\<close>

fun tostr_text :: "var \<Rightarrow> string" where
  "tostr_text (TYPE_INT n) = num_string n"
| "tostr_text (TYPE_OBJ x) = ''#'' @ num_string x"
| "tostr_text (TYPE_STR str) = str"
| "tostr_text (TYPE_ERR e) = unparse_error e"
| "tostr_text (TYPE_FLOAT d) =
     (let out = fmt_g FLOAT_DIGITS d in if list_ex (\<lambda>c. c = CHR ''.'' \<or> c = CHR ''e'') out then out else out @ ''.0'')"
| "tostr_text _ = ''{list}''"

definition has_text :: "var \<Rightarrow> bool" where
  "has_text v \<longleftrightarrow> (case v of TYPE_CLEAR \<Rightarrow> False | TYPE_NONE \<Rightarrow> False | TYPE_CATCH _ \<Rightarrow> False | TYPE_FINALLY _ \<Rightarrow> False | _ \<Rightarrow> True)"

lemma writes_float: "writes lim (tostr_text (TYPE_FLOAT d)) (stream_unparse_float lim d True)"
proof -
  define out where "out = fmt_g FLOAT_DIGITS d"
  have e: "stream_unparse_float lim d True = (\<lambda>s. do { s \<leftarrow> stream_printf lim out s;
      if list_ex (\<lambda>c. c = CHR ''.'' \<or> c = CHR ''e'') out then Some s else stream_add_string lim ''.0'' s })"
    by (rule ext) (simp add: stream_unparse_float_def unparse_float_loop.simps out_def Let_def split: bind_splits)
  show ?thesis
  proof (cases "list_ex (\<lambda>c. c = CHR ''.'' \<or> c = CHR ''e'') out")
    case True
    then show ?thesis using stream_writes(4) [of lim out] by (simp add: e out_def [symmetric])
  next
    case False
    then show ?thesis using writes_append [OF stream_writes(4) stream_writes(3), of lim out "''.0''"] by (simp add: e out_def [symmetric])
  qed
qed

lemma writes_tostr:
  assumes "has_text v"
  shows "\<exists>f. stream_add_tostr lim v = (\<lambda>s. Some (f s)) \<and> writes lim (tostr_text v) f"
  using assms stream_writes [of lim] writes_float [of lim]
  by (cases v) (auto simp: has_text_def stream_add_tostr_def fun_eq_iff simp del: tostr_text.simps(5) intro!: exI)

lemma writes_tostr_loop:
  assumes "list_all has_text vs"
  shows "\<exists>f. tostr_loop lim vs = (\<lambda>s. Some (f s)) \<and> writes lim (concat (map tostr_text vs)) f"
  using assms
proof (induction vs)
  case Nil
  then show ?case by (auto simp: fun_eq_iff intro!: exI [of _ Some])
next
  case (Cons v vs)
  then obtain g where g: "tostr_loop lim vs = (\<lambda>s. Some (g s))" "writes lim (concat (map tostr_text vs)) g" by fastforce
  from writes_tostr [of v lim] Cons.prems obtain f where f: "stream_add_tostr lim v = (\<lambda>s. Some (f s))" "writes lim (tostr_text v) f" by fastforce
  have "tostr_loop lim (v # vs) = (\<lambda>s. Some (do { s \<leftarrow> f s; g s }))"
    by (auto simp: fun_eq_iff f(1) g(1) split: option.split)
  then show ?case using writes_append [OF f(2) g(2)] by auto
qed

lemma try_limit_text:
  assumes "writes (try_limit opts) bytes f" "127 \<le> opt_max_string_concat opts" "length bytes < 2 ^ 63"
  shows "map_option stream_contents (f (new_stream 100)) = (if int (length bytes) \<le> opt_max_string_concat opts then Some bytes else None)"
  using writes_fresh [OF assms(1) [unfolded try_limit_def], of 100] assms(2,3) by (simp add: nat_less_iff) linarith

lemma stream_pack_text: "map_option stream_contents r = Some t \<Longrightarrow> stream_pack opts r = make_string_pack t"
  "map_option stream_contents r = None \<Longrightarrow> stream_pack opts r = space_pack opts"
  by (auto simp: stream_pack_def)

lemma bf_tostr_text:
  assumes "list_all has_text args" "127 \<le> opt_max_string_concat opts" "t = concat (map tostr_text args)" "length t < 2 ^ 63"
  shows "bf_tostr opts args = Some (if int (length t) \<le> opt_max_string_concat opts then make_string_pack t else space_pack opts)"
proof -
  from writes_tostr_loop [OF assms(1)] obtain f where f: "tostr_loop (try_limit opts) args = (\<lambda>s. Some (f s))" "writes (try_limit opts) t f"
    unfolding assms(3) by blast
  show ?thesis using try_limit_text [OF f(2) assms(2,4)] stream_pack_text [of "f (new_stream 100)"]
    by (auto simp: bf_tostr_def f(1) split: if_split_asm)
qed

section \<open>Binary strings\<close>

definition byte_text :: "char \<Rightarrow> string" where
  "byte_text b = (let c = (of_char b :: nat) in if c \<ge> 32 \<and> c < 126 then [b] else [CHR ''~'', hex_digit (c div 16), hex_digit (c mod 16)])"

lemma writes_moobinary: "writes lim (concat (map byte_text bs)) (stream_add_moobinary_from_raw_bytes lim bs)"
proof (induction bs)
  case Nil
  then show ?case using writes_nothing [of lim] by (simp add: writes_def)
next
  case (Cons b bs)
  have e: "stream_add_moobinary_from_raw_bytes lim (b # bs) = (\<lambda>s. do { s \<leftarrow> (if 32 \<le> (of_char b :: nat) \<and> of_char b < (126 :: nat)
      then stream_add_char lim b s else stream_printf lim [CHR ''~'', hex_digit (of_char b div 16), hex_digit (of_char b mod 16)] s);
      stream_add_moobinary_from_raw_bytes lim bs s })" by (simp add: fun_eq_iff Let_def)
  have "writes lim (byte_text b) (\<lambda>s. if 32 \<le> (of_char b :: nat) \<and> of_char b < (126 :: nat)
      then stream_add_char lim b s else stream_printf lim [CHR ''~'', hex_digit (of_char b div 16), hex_digit (of_char b mod 16)] s)"
    using stream_writes [of lim] by (cases "32 \<le> (of_char b :: nat) \<and> of_char b < (126 :: nat)") (auto simp: byte_text_def Let_def)
  from writes_append [OF this Cons.IH] show ?case by (simp add: e)
qed

lemma binary_digit_hex: "n < 16 \<Longrightarrow> binary_digit (hex_digit n) = Some n"
proof -
  have "list_all (\<lambda>n. binary_digit (hex_digit n) = Some n) [0..<16]" by code_simp
  then show "n < 16 \<Longrightarrow> ?thesis" by (simp add: list_all_iff)
qed

lemma byte_text_parsed: "moobinary_to_raw_bytes (byte_text b @ p) = map_option ((#) b) (moobinary_to_raw_bytes p)"
proof (cases "32 \<le> (of_char b :: nat) \<and> of_char b < (126 :: nat)")
  case True
  then have "b \<noteq> CHR ''~''" by auto
  with True show ?thesis by (simp add: byte_text_def)
next
  case False
  have c: "of_char b < (256 :: nat)" by simp
  have "binary_digit (hex_digit (of_char b div 16)) = Some (of_char b div 16)" "binary_digit (hex_digit (of_char b mod 16)) = Some (of_char b mod 16)"
    using c by (simp_all add: binary_digit_hex less_mult_imp_div_less)
  moreover have "of_char b div 16 * 16 + of_char b mod 16 = (of_char b :: nat)" by simp
  ultimately show ?thesis using False by (simp add: byte_text_def Let_def)
qed

lemma moobinary_inverse: "moobinary_to_raw_bytes (concat (map byte_text bs)) = Some bs"
  by (induction bs) (simp_all add: byte_text_parsed)

lemma byte_text_length: "length (concat (map byte_text bs)) \<le> 3 * length bs"
  by (induction bs) (auto simp: byte_text_def Let_def)

text \<open>The bytes of a value.\<close>

fun value_raw :: "var \<Rightarrow> string option" and values_raw :: "var list \<Rightarrow> string option" where
  "value_raw (TYPE_INT n) = (if n < 0 \<or> n \<ge> 256 then None else Some [char_of (nat n)])"
| "value_raw (TYPE_STR str) = Some str"
| "value_raw (TYPE_LIST vs) = values_raw vs"
| "value_raw _ = None"
| "values_raw [] = Some []"
| "values_raw (v # vs) = do { a \<leftarrow> value_raw v; b \<leftarrow> values_raw vs; Some (a @ b) }"

lemma encode_binary_writes:
  "value_raw v = Some bs \<Longrightarrow> \<exists>f. encode_binary lim v = (\<lambda>s. map_option (\<lambda>s. (s, True)) (f s)) \<and> writes lim bs f"
  "values_raw vs = Some bs \<Longrightarrow> \<exists>f. encode_binaries lim vs = (\<lambda>s. map_option (\<lambda>s. (s, True)) (f s)) \<and> writes lim bs f"
proof (induction v and vs arbitrary: bs and bs rule: value_raw_values_raw.induct)
  case (6 v vs)
  from 6(3) obtain a b where ab: "value_raw v = Some a" "values_raw vs = Some b" "bs = a @ b" by (auto simp: bind_eq_Some_conv)
  from 6(1) [OF ab(1)] obtain f where f: "encode_binary lim v = (\<lambda>s. map_option (\<lambda>s. (s, True)) (f s))" "writes lim a f" by blast
  from 6(2) [OF ab(1,2)] obtain g where g: "encode_binaries lim vs = (\<lambda>s. map_option (\<lambda>s. (s, True)) (g s))" "writes lim b g" by blast
  have "encode_binaries lim (v # vs) = (\<lambda>s. map_option (\<lambda>s. (s, True)) (do { s \<leftarrow> f s; g s }))"
  proof
    fix s
    show "encode_binaries lim (v # vs) s = map_option (\<lambda>s. (s, True)) (do { s \<leftarrow> f s; g s })" by (cases "f s") (simp_all add: f(1) g(1))
  qed
  then show ?case using writes_append [OF f(2) g(2)] ab(3) by (intro exI [of _ "\<lambda>s. do { s \<leftarrow> f s; g s }"]) simp
qed (auto simp: fun_eq_iff split: if_split_asm intro!: exI stream_writes writes_nothing)

lemma bf_encode_binary_text:
  assumes "values_raw vs = Some bs" "127 \<le> opt_max_string_concat opts" "3 * int (length bs) \<le> opt_max_string_concat opts" "opt_max_string_concat opts < 2 ^ 63"
  shows "bf_encode_binary opts vs = make_string_pack (concat (map byte_text bs))"
proof -
  from encode_binary_writes(2) [OF assms(1), of "try_limit opts"] obtain f where
    f: "encode_binaries (try_limit opts) vs = (\<lambda>s. map_option (\<lambda>s. (s, True)) (f s))" "writes (try_limit opts) bs f" by blast
  have "map_option stream_contents (f (new_stream 100)) = Some bs" using try_limit_text [OF f(2) assms(2)] assms(3,4) by simp
  then obtain s where s: "f (new_stream 100) = Some s" "stream_contents s = bs" by auto
  note l = byte_text_length [of bs]
  have "map_option stream_contents (stream_add_moobinary_from_raw_bytes (try_limit opts) bs (new_stream 100)) = Some (concat (map byte_text bs))"
    using try_limit_text [OF writes_moobinary assms(2)] assms(3,4) l by simp
  then show ?thesis by (simp add: bf_encode_binary_def f(1) s stream_pack_text(1))
qed

text \<open>The elements that the second pass writes.\<close>

fun pieces :: "string \<Rightarrow> bool \<Rightarrow> string \<Rightarrow> var list" where
  "pieces s in_string [] = (if in_string then [TYPE_STR s] else [])"
| "pieces s in_string (c # bs) =
     (if plain_byte c then pieces (s @ [c]) True bs
      else (if in_string then [TYPE_STR s] else []) @ TYPE_INT (of_char c) # pieces [] False bs)"

lemma pieces_length: "length (pieces s in_string bs) = of_bool in_string + count_pieces in_string bs"
  by (induction s in_string bs rule: pieces.induct) auto

lemma value_raw_byte [simp]: "value_raw (TYPE_INT (of_char c)) = Some [c]"
proof -
  have "(of_char c :: int) = int (of_char c)" by (cases c) simp
  moreover have "of_char c < (256 :: nat)" by simp
  ultimately have "0 \<le> (of_char c :: int)" "(of_char c :: int) < 256" "nat (of_char c) = of_char c" by (simp_all del: of_nat_of_char)
  then show ?thesis by simp
qed

lemma pieces_raw: "(\<not> in_string \<Longrightarrow> s = []) \<Longrightarrow> values_raw (pieces s in_string bs) = Some (s @ bs)"
  by (induction s in_string bs rule: pieces.induct) (auto simp del: value_raw.simps(1))

lemma fill_pieces_ok:
  "length r = count + of_bool in_string + count_pieces in_string bs \<Longrightarrow> (\<not> in_string \<Longrightarrow> s = [])
     \<Longrightarrow> fill_pieces s in_string bs count r = Some (take count r @ pieces s in_string bs)"
proof (induction s in_string bs arbitrary: count r rule: pieces.induct)
  case (1 s in_string)
  then show ?case by (auto simp: take_update_swap list_update_append upd_conv_take_nth_drop)
next
  case (2 s in_string c bs)
  show ?case
  proof (cases "plain_byte c")
    case True
    then show ?thesis using 2 by auto
  next
    case False
    then show ?thesis using 2 by (auto simp: upd_conv_take_nth_drop take_Suc_conv_app_nth)
  qed
qed

lemma bf_decode_binary_value:
  assumes "moobinary_to_raw_bytes str = Some bs" "int (length bs) \<le> opt_max_list_concat opts"
  shows "\<exists>vs. bf_decode_binary opts str fully = Some (make_var_pack (TYPE_LIST vs)) \<and> values_raw vs = Some bs"
proof (cases fully)
  case True
  have "values_raw (map (\<lambda>b. TYPE_INT (of_char b)) bs) = Some bs" by (induction bs) (auto simp del: value_raw.simps(1))
  then show ?thesis using True assms by (auto simp: bf_decode_binary_def)
next
  case False
  have "count_pieces i bs \<le> length bs" for i by (induction bs arbitrary: i) (auto simp: le_SucI)
  then have "int (count_pieces False bs) \<le> opt_max_list_concat opts" using assms(2) by (meson of_nat_mono order_trans)
  then show ?thesis
    using False assms(1) fill_pieces_ok [of "replicate (count_pieces False bs) TYPE_NONE" 0 False bs "[]"] pieces_raw [of False "[]" bs]
    by (auto simp: bf_decode_binary_def Let_def not_less)
qed

section \<open>The cache of patterns\<close>

definition coherent :: "(string \<Rightarrow> bool \<Rightarrow> 'p option) \<Rightarrow> 'p pat_cache \<Rightarrow> bool" where
  "coherent mk cache \<longleftrightarrow> list_all (\<lambda>(t, cm, p). case t of Some str \<Rightarrow> mk str cm = p | None \<Rightarrow> True) cache"

lemma pattern_entry_ok:
  assumes "coherent mk cache" "cache \<noteq> []"
  shows "\<exists>e es. pattern_entry mk str cm cache = Some (e, es) \<and> snd (snd e) = mk str cm \<and> coherent mk (e # es) \<and> length (e # es) = length cache"
  using assms
proof (induction cache)
  case (Cons e es)
  show ?case
  proof (cases "fst e = Some str \<and> fst (snd e) = cm \<or> es = []")
    case True
    then show ?thesis using Cons.prems by (cases e; cases "mk str cm") (auto simp: coherent_def)
  next
    case False
    have "coherent mk es" using Cons.prems(1) by (simp add: coherent_def)
    with Cons.IH False obtain x xs where x: "pattern_entry mk str cm es = Some (x, xs)" "snd (snd x) = mk str cm" "coherent mk (x # xs)"
      "length (x # xs) = length es" by blast
    have "pattern_entry mk str cm (e # es) = Some (x, e # xs)" using False x(1) by auto
    moreover have "coherent mk (x # e # xs)" using x(3) Cons.prems(1) by (simp add: coherent_def)
    ultimately show ?thesis using x(2,4) by simp
  qed
qed simp

lemma get_pattern_ok:
  assumes "coherent mk cache" "cache \<noteq> []"
  shows "\<exists>cache'. get_pattern mk str cm cache = Some (cache', mk str cm) \<and> coherent mk cache' \<and> length cache' = length cache"
  using pattern_entry_ok [OF assms, of str cm] by (auto simp: get_pattern_def)

section \<open>Substitution\<close>

lemma get_conts_within: "snd (get_conts k v s n) \<le> n + length s"
  by (induction k v s n rule: get_conts.induct) (auto simp: Let_def)

lemma get_utf_within: "s \<noteq> [] \<Longrightarrow> snd (get_utf s) \<le> length s"
  using get_conts_within [of _ _ "tl s" 1] by (cases s) (auto simp: get_utf_def Let_def rune_def)

text \<open>The bytes of the first \<open>k\<close> characters.\<close>

fun char_bytes :: "string \<Rightarrow> nat \<Rightarrow> nat" where
  "char_bytes s 0 = 0"
| "char_bytes s (Suc k) = snd (get_utf s) + char_bytes (drop (snd (get_utf s)) s) k"

lemma byte_index_chars:
  "k \<le> memo_strlen_utf s \<Longrightarrow> 0 < k \<Longrightarrow> byte_index_loop s pos (int k + 1) = int (pos + char_bytes s k) + 1"
proof (induction k arbitrary: s pos)
  case (Suc k)
  obtain v n where g: "get_utf s = (v, n)" by fastforce
  have v: "v \<noteq> 0" "k \<le> memo_strlen_utf (drop n s)"
    using Suc.prems(1) g by (subst (asm) memo_strlen_utf.simps, auto split: if_split_asm)+
  show ?case
  proof (cases "k = 0")
    case True
    then show ?thesis using g v by (simp add: byte_index_loop.simps)
  next
    case False
    then show ?thesis using g v Suc.IH [OF v(2), of "pos + n"] by (subst byte_index_loop.simps) (simp add: ac_simps)
  qed
qed simp

lemma utf_byte_index_chars: "k \<le> memo_strlen_utf s \<Longrightarrow> utf_byte_index s (int k + 1) = int (char_bytes s k) + 1"
  using byte_index_chars [of k s 0] by (cases "k = 0") (simp_all add: utf_byte_index_def)

lemma char_bytes_within: "k \<le> memo_strlen_utf s \<Longrightarrow> char_bytes s k \<le> length s"
proof (induction k arbitrary: s)
  case (Suc k)
  obtain v n where g: "get_utf s = (v, n)" by fastforce
  have v: "v \<noteq> 0" "k \<le> memo_strlen_utf (drop n s)"
    using Suc.prems(1) g by (subst (asm) memo_strlen_utf.simps, auto split: if_split_asm)+
  have "s \<noteq> []" using v(1) g by auto
  then have "n \<le> length s" using get_utf_within [of s] g by simp
  then show ?case using Suc.IH [OF v(2)] g by simp
qed simp

lemma char_bytes_mono: "char_bytes s k \<le> char_bytes s (k + m)"
  by (induction k arbitrary: s) auto

lemma bytes_of_pair:
  assumes "\<not> invalid_pair a b (int (memo_strlen_utf s))"
  shows "\<exists>bs. bytes_of s (utf_byte_range s (a, b + 1)) = Some bs"
proof (cases "a = 0 \<and> b = -1")
  case True
  then show ?thesis by (simp add: bytes_of_def byte_range_pair)
next
  case False
  then have ab: "0 < a" "a - 1 \<le> b" "b \<le> int (memo_strlen_utf s)" using assms by (auto simp: invalid_pair_def)
  define k m where "k = nat (a - 1)" and "m = nat b - k"
  have km: "a = int k + 1" "b + 1 = int (k + m) + 1" "k + m \<le> memo_strlen_utf s" using ab by (auto simp: k_def m_def)
  have r: "utf_byte_range s (a, b + 1) = (int (char_bytes s k) + 1, int (char_bytes s (k + m)) + 1)"
    unfolding byte_range_pair km using utf_byte_index_chars [of k s] utf_byte_index_chars [of "k + m" s] km(3) by simp
  show ?thesis unfolding r bytes_of_def using char_bytes_mono [of s k m] char_bytes_within [OF km(3)] by auto
qed

lemma subs_pairs_ok: "subs_pairs len vs = Some ps \<Longrightarrow> length ps = length vs \<and> list_all (\<lambda>(a, b). \<not> invalid_pair a b len) ps"
proof (induction vs arbitrary: ps)
  case (Cons v vs)
  have "\<not> invalid_pair a b len" if "subs_pair len v = Some (a, b)" for a b
    using that by (auto simp: subs_pair_def split: var.split_asm list.split_asm if_split_asm)
  with Cons show ?case by (auto simp: bind_eq_Some_conv)
qed simp

lemma check_subs_list_ok:
  assumes "check_subs_list subs = Some (subj, ps)" "memo_strlen_utf subj < 2 ^ 31"
  shows "length ps = 10 \<and> list_all (\<lambda>(a, b). \<not> invalid_pair a b (int (memo_strlen_utf subj))) ps"
proof -
  from assms(1) obtain a b pairs where s: "subs = [TYPE_INT a, TYPE_INT b, TYPE_LIST pairs, TYPE_STR subj]" "length pairs = 9"
    "subs_pairs (to_int32 (int (memo_strlen_utf subj))) (TYPE_LIST [TYPE_INT a, TYPE_INT b] # pairs) = Some ps"
    by (auto simp: check_subs_list_def bind_eq_Some_conv Let_def split: list.split_asm var.split_asm if_split_asm)
  have "to_int32 (int (memo_strlen_utf subj)) = int (memo_strlen_utf subj)"
    using assms(2) by (simp add: to_int32_def signed_take_bit_int_eq_self)
  then show ?thesis using subs_pairs_ok [OF s(3)] s(2) by simp
qed

lemma substitute_loop_returns:
  assumes "length ps = 10" "list_all (\<lambda>(a, b). \<not> invalid_pair a b (int (memo_strlen_utf subj))) ps"
  shows "\<exists>r. substitute_loop lim subj ps t s = Some r"
  using assms
proof (induction lim subj ps t s rule: substitute_loop.induct)
  case (2 lim subj ps c t s)
  show ?case
  proof (cases "c \<noteq> CHR ''%'' \<or> t = []")
    case True
    then show ?thesis using 2 by (auto split: option.split)
  next
    case False
    then obtain d u where t: "c = CHR ''%''" "t = d # u" by (cases t) auto
    show ?thesis
    proof (cases "d \<noteq> CHR ''%'' \<and> isdigit d")
      case True
      obtain a b where ab: "ps ! nat (digit_val d) = (a, b)" by fastforce
      have "(of_char d :: int) = int (of_char d)" by (cases d) simp
      then have "nat (digit_val d) < length ps" using True 2(4) unfolding isdigit_def digit_val_def by linarith
      then have "\<not> invalid_pair a b (int (memo_strlen_utf subj))" using 2(5) ab by (auto simp: list_all_length)
      from bytes_of_pair [OF this] obtain bs where bs: "bytes_of subj (utf_byte_range subj (a, b + 1)) = Some bs" by blast
      show ?thesis using t True ab bs 2(3) [of d u] 2(4,5) by (auto split: option.split)
    next
      case False
      then show ?thesis using t 2(2) [of d u] 2(4,5) by (auto split: option.split)
    qed
  qed
qed simp

lemma bf_substitute_returns:
  assumes "\<And>subj. TYPE_STR subj \<in> set subs \<Longrightarrow> memo_strlen_utf subj < 2 ^ 31"
  shows "\<exists>p. bf_substitute opts template subs = Some p"
proof (cases "check_subs_list subs")
  case (Some sp)
  obtain subj ps where sp: "sp = (subj, ps)" by fastforce
  have "TYPE_STR subj \<in> set subs"
    using Some sp by (auto simp: check_subs_list_def bind_eq_Some_conv Let_def split: list.split_asm var.split_asm if_split_asm)
  then have "length ps = 10" "list_all (\<lambda>(a, b). \<not> invalid_pair a b (int (memo_strlen_utf subj))) ps"
    using check_subs_list_ok [of subs subj ps] Some sp assms by auto
  from substitute_loop_returns [OF this, of "try_limit opts" template "new_stream (length template)"] show ?thesis using Some sp
    by (auto simp: bf_substitute_def)
qed (simp add: bf_substitute_def)

section \<open>Decoded characters\<close>

text \<open>The number of elements that are still to come, after a printable character or not.\<close>

fun elements_left :: "(nat \<Rightarrow> bool) \<Rightarrow> nat list \<Rightarrow> bool \<Rightarrow> nat" where
  "elements_left printable [] in_string = 0"
| "elements_left printable (c # cs) in_string =
     (if printable c then of_bool (\<not> in_string) + elements_left printable cs True else 1 + elements_left printable cs False)"

lemma count_chars_elements: "fst (count_chars printable cs scount (llen, smax)) = llen + elements_left printable cs (scount \<noteq> 0)"
  by (induction cs arbitrary: scount llen smax) (auto simp: char_size_def)

lemma stream_add_utf_free:
  "put_utf c = Some bs \<Longrightarrow> \<exists>s'. stream_add_utf None c s = Some (s', True) \<and> st_text s' = st_text s @ bs \<and> bs \<noteq> []"
  by (auto simp: stream_add_utf_def grew_def Let_def put_utf_def split: if_split_asm)

lemma fill_chars_ok:
  assumes "\<And>c. printable c \<Longrightarrow> put_utf c \<noteq> None"
  shows "length r = llast + of_bool (st_text s \<noteq> []) + elements_left printable cs (st_text s \<noteq> [])
    \<Longrightarrow> \<exists>r'. fill_chars printable cs s llast r = Some (length r, r') \<and> length r' = length r"
proof (induction cs arbitrary: s llast r)
  case Nil
  then show ?case by (auto simp: stream_length_def)
next
  case (Cons c cs)
  show ?case
  proof (cases "printable c")
    case True
    then obtain bs where "put_utf c = Some bs" using assms [of c] by auto
    from stream_add_utf_free [OF this, of s] obtain s' where s': "stream_add_utf None c s = Some (s', True)" "st_text s' \<noteq> []" by auto
    then show ?thesis using True Cons.prems Cons.IH [of r llast s'] by (auto split: if_split_asm)
  next
    case False
    let ?r = "r[llast := TYPE_STR (stream_contents s)]"
    show ?thesis
    proof (cases "st_text s = []")
      case True
      then show ?thesis using False Cons.prems Cons.IH [of "r[llast := TYPE_INT (int c)]" "Suc llast" s] by (simp add: stream_length_def)
    next
      case t: False
      then show ?thesis using False Cons.prems Cons.IH [of "?r[Suc llast := TYPE_INT (int c)]" "Suc (Suc llast)" "reset_stream s"]
        by (simp add: stream_length_def reset_stream_def)
    qed
  qed
qed

text \<open>The two passes agree: there is no panic.\<close>

lemma bf_decode_chars_returns:
  assumes "\<And>c. printable c \<Longrightarrow> put_utf c \<noteq> None"
  shows "\<exists>p. bf_decode_chars printable recode opts str encoding fully = Some p"
proof -
  have f: "\<exists>r'. fill_chars printable cs (new_stream (Suc smax)) 0 (replicate llen TYPE_NONE) = Some (llen, r')"
    if "count_chars printable cs 0 (0, 0) = (llen, smax)" for cs llen smax
    using fill_chars_ok [of printable, OF assms, of "replicate llen TYPE_NONE" 0 "new_stream (Suc smax)" cs] count_chars_elements [of printable cs 0 0 0] that
    by (auto simp: new_stream_def)
  show ?thesis unfolding bf_decode_chars_def Let_def by (auto split: option.split bool.split prod.split dest!: f)
qed

end
