(* ===== verification/Spec2Isabelle.thy ===== *)
theory Spec2Isabelle
  imports Words Commands ExampleMoo BfVerbs RandomNumbers NumberLaws ExampleVm ExampleTasks StringLaws
begin

text \<open>
  The LambdaMOO server: a model of its core and the properties that make it correct.

  \<^bold>\<open>The program.\<close>  The server keeps a database of objects with parents, locations, properties and verbs (\<^verbatim>\<open>db_objects.c\<close>,
  \<^verbatim>\<open>db_properties.c\<close>, \<^verbatim>\<open>db_verbs.c\<close>).  Lines that come from players are queued and turned into commands
  (\<^verbatim>\<open>tasks.c\<close>, \<^verbatim>\<open>parse_cmd.c\<close>, \<^verbatim>\<open>match.c\<close>); a command names a verb, whose program is run by a
  stack machine (\<^verbatim>\<open>execute.c\<close>).  Programs act on the database and on the tasks by built-in functions
  (\<^verbatim>\<open>objects.c\<close>, \<^verbatim>\<open>property.c\<close>, \<^verbatim>\<open>verbs.c\<close>, \<^verbatim>\<open>list.c\<close>, \<^verbatim>\<open>numbers.c\<close>, \<^verbatim>\<open>functions.c\<close>), which may call verbs
  in turn and are then resumed.

  \<^bold>\<open>Theories.\<close>  The arrows of the list below are calls: each theory imports those it calls.

  \<^item> Values: \<^verbatim>\<open>CStrings\<close> (comparison, hashing and verb-name patterns of \<^verbatim>\<open>utils.c\<close>), \<^verbatim>\<open>Values\<close> (the type \<^verbatim>\<open>Var\<close>,
    equality, lists and ranges), \<^verbatim>\<open>Utf\<close> (\<^verbatim>\<open>utf.c\<close>), \<^verbatim>\<open>Numbers\<close> and \<^verbatim>\<open>NumberLaws\<close> (64-bit integers and IEEE doubles of
    \<^verbatim>\<open>numbers.c\<close>), \<^verbatim>\<open>RandomNumbers\<close>, \<^verbatim>\<open>Streams\<close> (\<^verbatim>\<open>streams.c\<close> with the printed numbers).
  \<^item> Database: \<^verbatim>\<open>DbModel\<close> (the table of objects), \<^verbatim>\<open>Links\<close> (the intrusive lists of children and contents, as pointers),
    \<^verbatim>\<open>DbProps\<close>, \<^verbatim>\<open>PropLayout\<close>, \<^verbatim>\<open>PropOps\<close> (property slots and their layout along the ancestors), \<^verbatim>\<open>DbObjects\<close>, \<^verbatim>\<open>ChParent\<close>,
    \<^verbatim>\<open>DbOk\<close> (operations on the hierarchies and the invariant), \<^verbatim>\<open>DbVerbs\<close>, \<^verbatim>\<open>VerbCache\<close>, \<^verbatim>\<open>CacheOps\<close> (verbs and the cache of
    lookups), \<^verbatim>\<open>Reachable\<close> (the step relation of all operations), \<^verbatim>\<open>PropAccess\<close>.
  \<^item> Commands: \<^verbatim>\<open>Words\<close> and \<^verbatim>\<open>Commands\<close>.
  \<^item> Machine: \<^verbatim>\<open>Activations\<close> (frames, packages, calls of verbs), \<^verbatim>\<open>VmInstr\<close> (one function per instruction, from the running activation to an
    effect), \<^verbatim>\<open>VmUnwind\<close> (errors, handlers, returns through built-in functions), \<^verbatim>\<open>Vm\<close> (effects, the loop, starting and resuming
    tasks), \<^verbatim>\<open>VmValues\<close> (values stay values), \<^verbatim>\<open>VmFrame\<close> (what the machine leaves alone).
  \<^item> Built-in functions: \<^verbatim>\<open>BfObjects\<close>, \<^verbatim>\<open>BfMove\<close>, \<^verbatim>\<open>BfRecycle\<close>, \<^verbatim>\<open>BfCreate\<close>, \<^verbatim>\<open>BfProperty\<close>, \<^verbatim>\<open>BfVerbs\<close>, \<^verbatim>\<open>BfLists\<close>, \<^verbatim>\<open>BfStrings\<close> with
    \<^verbatim>\<open>StringLaws\<close>, and \<^verbatim>\<open>Builtins\<close> (the table, and the functions on tasks).
  \<^item> Tasks: \<^verbatim>\<open>InputQueue\<close> (the lines of a connection as a pointer structure), \<^verbatim>\<open>Tasks\<close> (queues, background tasks), \<^verbatim>\<open>Scheduler\<close>
    (commands, logins and turns), \<^verbatim>\<open>TaskLaws\<close>, \<^verbatim>\<open>BgLaws\<close>, \<^verbatim>\<open>SchedulerLaws\<close> (their invariant).
  \<^item> \<^verbatim>\<open>Prelude\<close> has the shared lemmas; \<^verbatim>\<open>Example\<close>, \<^verbatim>\<open>ExampleMoo\<close>, \<^verbatim>\<open>ExampleVm\<close> and \<^verbatim>\<open>ExampleTasks\<close> a small database, machine and
    set of queues on which the properties are tried.

  \<^bold>\<open>State and operations.\<close>  C structures are records with a field per member; the table of objects, the heap of property values and the nodes of the input
  queues are maps from numbers.  A function of the code is a function of the model with the state passed explicitly.  \<open>None\<close> is a panic, a read or a write outside an array,
  a null pointer, or --- for the functions made by \<^verbatim>\<open>partial_function\<close>, which chase pointers or run programs --- that the function does not return.  MOO errors are
  values of \<open>error\<close> or raised packages.  The properties say where \<open>None\<close> cannot occur.

  \<^bold>\<open>What is shown.\<close>  The invariant of the database and its verb cache over all reachable databases; the meaning of every operation on properties, parents and
  locations against an abstract view (a slot is a definer and a definition, whatever its position in the array); that the verb cache is
  invisible; the exact errors, the permissions and the effects of the built-in functions on objects, properties and verbs; that recursion and pointer loops end; wrap-around,
  conversion, printing and parsing of numbers; uniform random numbers; round trips of words, UTF-8 and binary strings; type soundness of the instructions; the refinement of the input queue to a
  list; the invariant of the scheduler through arbitrary runs of the interpreter.  Interfaces are locales: \<^verbatim>\<open>input_queue\<close> (what the scheduler relies on of
  the lines), \<^verbatim>\<open>vm_frame\<close> (what a run of the machine keeps of the task queues) and \<^verbatim>\<open>scheduler\<close>, which extends to it; they are interpreted on the model's own definitions.

  \<^bold>\<open>Configuration and bounds.\<close>  64-bit numbers, IEEE doubles, Unicode strings, no waifs, no bit operators in the lexer, the verb cache on; task numbers have 32 bits;
  the input limit is 65536 characters.  Overflow is written out where the code has it: \<open>signed_take_bit\<close> marks every conversion to a narrower type.  The table of built-in functions is
  known to its functions through a depth, \<open>function_table n\<close>: \<open>n\<close> bounds the nesting of \<^verbatim>\<open>call_function()\<close>, each level of which uses up an
  argument, so that the number of arguments is enough.

  \<^bold>\<open>Parameters.\<close>  Whatever is outside the source or is left aside is an argument: the clock and the random numbers (streams), timers, server options, the
  compiler and the translation of positions to lines, the regular expression matcher, md5, the tables of characters, iconv, \<^verbatim>\<open>pow\<close> and the other
  functions of the mathematical library, the connections of the network, and what fresh memory holds.

  \<^bold>\<open>Not modelled.\<close>  The parser, code generation and decompilation; the format of the database file; sockets, signals, checkpoints and the main loop of the
  server; memory management and reference counts (values are immutable in the model; where the code relies on a count, the value is copied); the optional waifs; the saving
  of suspended tasks; task queues of other modules; logging.
\<close>





text \<open>
  C14.  A lookup that was just made, successful or not, is answered from the
  cache when it is made again: the count of misses stays.
\<close>

theorem cache_hit_again:
  assumes "db_ok db" "cache_ok db" "valid db x" "nul_free w" "harmless al db w" "harmless al' db w"
    and "db_find_callable_verb al db x w = Some (db1, h)"
  shows "\<exists>db2. db_find_callable_verb al' db1 x w = Some (db2, h) \<and> verbcache_miss db2 = verbcache_miss db1"
  using find_callable_again [of db x w al al' db1 h] assms by (auto simp: moo_ok_def)

theorem cache_hit_again_witness:
  "\<exists>db1 db2 h. db_find_callable_verb (\<lambda>_ _. False) sample_db 1 ''jump'' = Some (db1, h)
      \<and> db_find_callable_verb (\<lambda>_ _. False) db1 1 ''jump'' = Some (db2, h) \<and> verbcache_miss db2 = verbcache_miss db1"
proof -
  have c: "cache_ok sample_db" by (simp add: cache_ok_def sample_db_def)
  have h: "valid sample_db 1" "nul_free ''jump''" "harmless (\<lambda>_ _. False) sample_db ''jump''"
    by (simp_all add: sample_valid harmless_def)
  obtain db1 where db1: "db_find_callable_verb (\<lambda>_ _. False) sample_db 1 ''jump'' = Some (db1, lookup_callable sample_db 1 ''jump'')"
    using find_callable_ok [OF moo_okI [OF sample_ok c] h] by blast
  from cache_hit_again [OF sample_ok c h h(3) db1] db1 show ?thesis by blast
qed



text \<open>
  C16.  Parsing a command always returns.  The arguments are the words of the
  argument string; they are split at the leftmost preposition of the table,
  if there is one, into direct object, preposition and indirect object, whose strings
  are joined by single spaces; both objects are what the matcher gives for their strings.
\<close>

theorem command_parsing:
  assumes "db_ok db" "command_line c = (buf, argstr)"
  shows "if parse_into_words buf = [] then parse_command db c user = Some None
    else \<exists>pc ds ps rs. parse_command db c user = Some (Some pc)
      \<and> pc_verb pc = hd (parse_into_words buf) \<and> pc_argstr pc = argstr
      \<and> pc_args pc = map TYPE_STR (parse_into_words argstr)
      \<and> command_parts (parse_into_words argstr) ds (pc_prep pc) ps rs
      \<and> pc_dobjstr pc = build_string ds \<and> pc_prepstr pc = build_string ps \<and> pc_iobjstr pc = build_string rs
      \<and> match_object db user (pc_dobjstr pc) = Some (pc_dobj pc)
      \<and> match_object db user (pc_iobjstr pc) = Some (pc_iobj pc)"
  using parse_command_spec [OF assms] .

theorem command_parsing_witness:
  "\<exists>pc. parse_command sample_db '' put ball in front of room'' 1 = Some (Some pc)
      \<and> pc_args pc = map TYPE_STR [''ball'', ''in'', ''front'', ''of'', ''room'']"
proof -
  have "command_line '' put ball in front of room'' = (''put ball in front of room'', ''ball in front of room'')"
    "parse_into_words ''put ball in front of room'' \<noteq> []"
    "parse_into_words ''ball in front of room'' = [''ball'', ''in'', ''front'', ''of'', ''room'']"
    by code_simp+
  with command_parsing [OF sample_ok this(1), of 1] show ?thesis by auto
qed

text \<open>
  C17.  Matching a name among the things a player holds and those in the same place
  (\<^verbatim>\<open>match_contents\<close>) depends only on which of them have a name or alias equal to
  it and which have one that it abbreviates, both up to case: one exact
  match wins, several are ambiguous; without any, one abbreviation wins,
  several are ambiguous, none fails.
\<close>

theorem object_matching:
  assumes "db_ok db" "dbpriv_find_object db player = Some ob" "nul_free nm"
  shows "match_contents db player nm
    = Some (best_match db nm (contents_list db player @ contents_list db (o_location ob)))"
  using match_contents_spec [OF assms] .

theorem object_matching_witness:
  "match_contents sample_db 1 ''wiz'' = Some 1"
proof -
  have c: "contents_list sample_db 1 = []" "contents_list sample_db 2 = [1]"
    by (rule contents_list_eq, simp add: kids_are_def sample_find sample_objects)+
  have ob: "o_location sample1 = 2" "dbpriv_find_object sample_db 1 = Some sample1" by (simp_all add: sample_find sample_objects)
  have "fold_case ''aliases'' \<notin> slot_name ` set (slots sample_db 1)"
    by (simp add: sample_slots sample_valid slot_name_def dbpriv_new_propdef_def)
  then have "aliases sample_db 1 = Some []"
    using db_find_property_absent [OF db_okD(3,5) [OF sample_ok] aliases_name(2) _ aliases_name(1), of 1 True]
    by (simp add: aliases_def sample_valid)
  then have "names_of sample_db 1 = [''wizard'']"
    by (simp add: names_of_def db_object_name_def sample_find sample_objects)
  moreover have "\<not> exact_name ''wiz'' ''wizard''" "partial_name ''wiz'' ''wizard''" "nul_free ''wiz''"
    by (code_simp, simp add: partial_name_def strict_prefix_def, simp)
  ultimately have "exact_in sample_db ''wiz'' [1] = {}" "partial_in sample_db ''wiz'' [1] = {1}"
    by (auto simp: exact_in_def partial_in_def)
  then have "best_match sample_db ''wiz'' [1] = 1" by (simp add: best_match_def sole_def)
  with ob c show ?thesis
    using object_matching [OF sample_ok ob(2), of "''wiz''"] by simp
qed

text \<open>
  C3.  Adding a property definition (\<^verbatim>\<open>db_add_propdef\<close>) to a valid object of a
  well-formed database always returns.  It succeeds exactly if the name is not
  built in and no ancestor and no descendant of the object defines it; then
  the object gets the value, every descendant gets a clear slot (owned by its
  own owner if the \<^verbatim>\<open>PF_CHOWN\<close> bit is set), no other property of any object
  changes, and the database stays well formed.  Otherwise nothing changes.
\<close>

theorem add_property:
  assumes "db_ok db" "valid db x" "nul_free pname" "value \<noteq> TYPE_CLEAR"
  shows "\<exists>db' added. db_add_propdef db x pname value owner flags = Some (db', added)
      \<and> added = can_define db x pname \<and> db_ok db' \<and> only_props db db' \<and> (\<not> added \<longrightarrow> db' = db)
      \<and> (\<forall>y. valid db y \<longrightarrow> ptab db' y =
           (if added \<and> y \<in> desc db x
            then (ptab db y)((x, dbpriv_new_propdef pname) \<mapsto>
                   new_slot db x \<lparr>pv_var = value, pv_owner = owner, pv_perms = flags\<rparr> y)
            else ptab db y))"
proof (cases "can_define db x pname")
  case True
  from db_add_propdef_ok [OF db_okD(3,5) [OF assms(1)] assms(3,2) True assms(4), of owner flags]
  obtain db' where "db_add_propdef db x pname value owner flags = Some (db', True)"
    "only_props db db'" "inherit_ok db'" "props_ok db'"
    "\<forall>y. valid db y \<longrightarrow> ptab db' y =
       (if y \<in> desc db x
        then (ptab db y)((x, dbpriv_new_propdef pname) \<mapsto>
               new_slot db x \<lparr>pv_var = value, pv_owner = owner, pv_perms = flags\<rparr> y)
        else ptab db y)" by blast
  with True db_ok_only_props [OF assms(1)] show ?thesis by auto
next
  case False
  with db_add_propdef_fail [OF db_okD(3,5) [OF assms(1)] assms(3,2)] assms(1) show ?thesis
    by (intro exI [of _ db] exI [of _ False]) (simp add: only_props_def)
qed

theorem add_property_witness:
  "\<exists>db'. db_add_propdef sample_db 0 ''hue'' (TYPE_INT 3) 1 5 = Some (db', True) \<and> db_ok db'
      \<and> ptab db' 3 = ptab sample_db 3"
proof -
  have "valid sample_db 0" "nul_free ''hue''" "valid sample_db 3" "3 \<notin> desc sample_db 0"
    using sample_names by (simp_all add: sample_valid sample_desc_eqs)
  then show ?thesis
    using add_property [OF sample_ok, of 0 "''hue''" "TYPE_INT 3" 1 5] sample_can_define by auto
qed

text \<open>
  C5.  Deleting a property definition (\<^verbatim>\<open>db_delete_propdef\<close>) succeeds exactly if the
  object itself defines a property of that name (compared without case); then
  its slot disappears from the object and all its descendants and no other slot
  changes.  Otherwise nothing changes.  The database stays well formed.
\<close>

theorem delete_property:
  assumes "db_ok db" "valid db x" "nul_free pname"
  shows "\<exists>db' deleted. db_delete_propdef db x pname = Some (db', deleted)
      \<and> deleted = defines_prop db x pname \<and> db_ok db' \<and> only_props db db' \<and> (\<not> deleted \<longrightarrow> db' = db)
      \<and> (deleted \<longrightarrow> (\<exists>pd \<in> set (propdefs_of db x). fold_case (pd_name pd) = fold_case pname
           \<and> (\<forall>y. valid db y \<longrightarrow> ptab db' y =
                (if y \<in> desc db x then (ptab db y)((x, pd) := None) else ptab db y))))"
proof (cases "defines_prop db x pname")
  case True
  from db_delete_propdef_ok [OF db_okD(3,5) [OF assms(1)] assms(3,2) True]
  obtain db' pd where "db_delete_propdef db x pname = Some (db', True)"
    "only_props db db'" "inherit_ok db'" "props_ok db'"
    "pd \<in> set (propdefs_of db x)" "fold_case (pd_name pd) = fold_case pname"
    "\<forall>y. valid db y \<longrightarrow> ptab db' y = (if y \<in> desc db x then (ptab db y)((x, pd) := None) else ptab db y)"
    by blast
  with True db_ok_only_props [OF assms(1)] show ?thesis by (intro exI [of _ db'] exI [of _ True]) blast
next
  case False
  with db_delete_propdef_fail [OF db_okD(5) [OF assms(1)] assms(3,2)] assms(1) show ?thesis
    by (intro exI [of _ db] exI [of _ False]) (simp add: only_props_def)
qed

theorem delete_property_witness:
  "\<exists>db'. db_delete_propdef sample_db 0 ''SIZE'' = Some (db', True) \<and> db_ok db'"
  using delete_property [OF sample_ok, of 0 "''SIZE''"] sample_names
  by (auto simp: sample_valid sample_defines)

text \<open>
  C6.  Renaming a property definition (\<^verbatim>\<open>db_rename_propdef\<close>) succeeds exactly if the
  object defines the old name and the new one differs from it only in case or
  could be defined there; then every slot of that property keeps its value under
  the new name, in the object and its descendants, and nothing else changes.
\<close>

theorem rename_property:
  assumes "db_ok db" "valid db x" "nul_free old" "nul_free new"
  shows "\<exists>db' renamed. db_rename_propdef db x old new = Some (db', renamed)
      \<and> renamed = (defines_prop db x old \<and> (fold_case old = fold_case new \<or> can_define db x new))
      \<and> db_ok db' \<and> only_props db db' \<and> (\<not> renamed \<longrightarrow> db' = db)
      \<and> (renamed \<longrightarrow> (\<exists>pd \<in> set (propdefs_of db x). fold_case (pd_name pd) = fold_case old
           \<and> (\<forall>y. valid db y \<longrightarrow> ptab db' y =
                (if y \<in> desc db x
                 then (ptab db y)((x, pd) := None, (x, dbpriv_new_propdef new) := ptab db y (x, pd))
                 else ptab db y))))"
proof (cases "defines_prop db x old \<and> (fold_case old = fold_case new \<or> can_define db x new)")
  case True
  then have d: "defines_prop db x old" and c: "fold_case old = fold_case new \<or> can_define db x new" by simp_all
  from db_rename_propdef_ok [OF db_okD(3,5) [OF assms(1)] assms(3,4,2) d c]
  obtain db' pd where "db_rename_propdef db x old new = Some (db', True)"
    "only_props db db'" "inherit_ok db'" "props_ok db'"
    "pd \<in> set (propdefs_of db x)" "fold_case (pd_name pd) = fold_case old"
    "\<forall>y. valid db y \<longrightarrow> ptab db' y =
       (if y \<in> desc db x
        then (ptab db y)((x, pd) := None, (x, dbpriv_new_propdef new) := ptab db y (x, pd))
        else ptab db y)" by blast
  with True db_ok_only_props [OF assms(1)] show ?thesis by (intro exI [of _ db'] exI [of _ True]) blast
next
  case False
  with db_rename_propdef_fail [OF db_okD(3,5) [OF assms(1)] assms(3,4,2)] assms(1) show ?thesis
    by (intro exI [of _ db] exI [of _ False]) (simp add: only_props_def)
qed

theorem rename_property_witness:
  "\<exists>db'. db_rename_propdef sample_db 0 ''SIZE'' ''hue'' = Some (db', True) \<and> db_ok db'"
  using rename_property [OF sample_ok, of 0 "''SIZE''" "''hue''"] sample_names sample_can_define
  by (auto simp: sample_valid sample_defines)

text \<open>
  C4.  Giving an object a new parent (\<^verbatim>\<open>db_change_parent\<close>), where the new parent is
  \<^verbatim>\<open>NOTHING\<close> or a valid object that is not the object or one of its
  descendants (the check its callers make), always returns.  It is refused, with
  nothing changed, exactly if an ancestor-to-be and the object or a descendant
  define the same property.  Otherwise the object moves to the end of the new
  parent's children; it and each descendant keep the values of all properties
  that are still inherited, lose the others, and get clear slots, with the owner
  that \<^verbatim>\<open>PF_CHOWN\<close> asks for, for those they now inherit; and the database stays
  well formed.
\<close>

theorem change_parent:
  assumes "db_ok db" "valid db x" "q = NOTHING \<or> valid db q" "q \<notin> desc db x"
  shows "\<exists>db' moved. db_change_parent db x q = Some (db', moved)
      \<and> moved = clash_free db x q \<and> db_ok db' \<and> (\<not> moved \<longrightarrow> db' = db)
      \<and> (moved \<longrightarrow> keeps parent_rest db db' \<and> db_object_parent db' x = Some q
           \<and> (\<forall>y cs. children_are db y cs \<longrightarrow>
                children_are db' y (removeAll x cs @ (if y = q then [x] else [])))
           \<and> (\<forall>y. valid db y \<longrightarrow> ptab db' y =
                (if y \<in> desc db x
                 then adopt (the (dbpriv_find_object db y)) (desc db x) (ptab db y) (ptab db q)
                 else ptab db y)))"
proof (cases "clash_free db x q")
  case True
  from db_change_parent_ok [OF db_okD(3,5) [OF assms(1)] assms(2,3,4) True]
  obtain db' where r: "db_change_parent db x q = Some (db', True)" "inherit_ok db'" "props_ok db'"
    "keeps parent_rest db db'"
    "db' = (if db_childless db x then db else db_priv_affected_callable_verb_lookup db)\<lparr>objects := objects db'\<rparr>"
    "db_object_parent db' x = Some q"
    "\<forall>y cs. children_are db y cs \<longrightarrow> children_are db' y (removeAll x cs @ (if y = q then [x] else []))"
    "\<forall>y. valid db y \<longrightarrow> ptab db' y =
       (if y \<in> desc db x
        then adopt (the (dbpriv_find_object db y)) (desc db x) (ptab db y) (ptab db q) else ptab db y)"
    by blast
  have "db_ok db'" by (rule db_ok_parent_rest [OF assms(1) r(4,2,3,5)]) simp
  with r True show ?thesis by (intro exI [of _ db'] exI [of _ True]) simp
next
  case False
  with db_change_parent_refused [OF db_okD(3,5) [OF assms(1)] assms(2,3)] assms(1) show ?thesis
    by (intro exI [of _ db] exI [of _ False]) simp
qed

theorem change_parent_witness:
  "\<exists>db'. db_change_parent sample_db 3 0 = Some (db', True) \<and> db_ok db' \<and> children_are db' 0 [1, 2, 3]"
proof -
  have "clash_free sample_db 3 0" by (simp add: clash_free_def sample_desc_eqs sample_defines)
  moreover have "valid sample_db 3" "valid sample_db 0" "0 \<notin> desc sample_db 3"
    by (simp_all add: sample_valid sample_desc_eqs)
  moreover have "children_are sample_db 0 [1, 2]"
    by (simp add: kids_are_def sample_find sample_objects)
  ultimately show ?thesis using change_parent [OF sample_ok, of 3 0] by fastforce
qed

text \<open>
  C7.  Looking up a property (\<^verbatim>\<open>db_find_property\<close>) of a valid object always returns.
  A built-in name, compared without case, gives its built-in value; any other name
  gives the slot of the only property of that name which the object or an
  ancestor defines, with the value found by climbing from the object
  towards the root until a slot is not clear; a name that is not defined there
  gives the null handle.
\<close>

theorem find_property:
  assumes "db_ok db" "valid db x" "nul_free name"
  shows "case find_builtin name of
           Some bi \<Rightarrow> \<exists>v. get_bi_value db bi x = Some v
                         \<and> db_find_property True db x name = Some (Builtin bi x, Some v)
         | None \<Rightarrow> if fold_case name \<in> slot_name ` set (slots db x)
                   then \<exists>n v. n < length (slots db x)
                     \<and> {s \<in> set (slots db x). slot_name s = fold_case name} = {slots db x ! n}
                     \<and> prop_value db (slots db x ! n) x v
                     \<and> db_find_property True db x name
                         = Some (Prop_slot (fst (slots db x ! n)) x n, Some v)
                   else db_find_property True db x name = Some (No_prop, None)"
proof (cases "find_builtin name")
  case None
  note D = db_okD [OF assms(1)]
  show ?thesis
  proof (cases "fold_case name \<in> slot_name ` set (slots db x)")
    case True
    from db_find_property_present [OF D(3,5) assms(3,2) None True, of True] obtain n v
      where n: "n < length (slots db x)" "slot_name (slots db x ! n) = fold_case name"
        and r: "prop_value db (slots db x ! n) x v"
          "db_find_property True db x name = Some (Prop_slot (fst (slots db x ! n)) x n, Some v)"
      by auto
    from n have "{s \<in> set (slots db x). slot_name s = fold_case name} = {slots db x ! n}"
      by (rule one_slot_of_name [OF D(5) assms(2)])
    with n r True None show ?thesis by auto
  next
    case False
    with db_find_property_absent [OF D(3,5) assms(3,2) None False] None show ?thesis by simp
  qed
next
  case (Some bi)
  with get_bi_value_total [OF assms(1,2), of bi] show ?thesis by (auto simp: db_find_property_def)
qed

theorem find_property_witness:
  "\<exists>n v. db_find_property True sample_db 1 ''SIZE'' = Some (Prop_slot 0 1 n, Some v)
      \<and> prop_value sample_db (0, dbpriv_new_propdef ''size'') 1 v"
  using find_property [OF sample_ok, of 1 "''SIZE''"] sample_names
  by (auto simp: sample_valid sample_slots slot_name_def dbpriv_new_propdef_def)

text \<open>
  C8.  Moving an object (\<^verbatim>\<open>db_change_location\<close>) to \<^verbatim>\<open>NOTHING\<close> or to a valid object not
  inside it makes it the last element of the new location's contents and takes
  it out of the old one's; no other location, no other list order, no property and no other attribute
  changes, and the database stays well formed.
\<close>

theorem change_location:
  assumes "db_ok db" "valid db x" "l = NOTHING \<or> valid db l" "l \<notin> inside db x"
  shows "\<exists>db'. db_change_location db x l = Some db' \<and> db_ok db'
      \<and> db_object_location db' x = Some l
      \<and> (\<forall>y. y \<noteq> x \<longrightarrow> db_object_location db' y = db_object_location db y)
      \<and> (\<forall>y cs. contents_are db y cs \<longrightarrow>
            contents_are db' y (removeAll x cs @ (if y = l then [x] else [])))
      \<and> keeps loc_core db db' \<and> db' = db\<lparr>objects := objects db'\<rparr>
      \<and> (\<forall>y. ptab db' y = ptab db y)"
  using db_change_location_ok [OF assms] by blast

theorem change_location_witness:
  "\<exists>db'. db_change_location sample_db 3 2 = Some db' \<and> db_ok db' \<and> contents_are db' 2 [1, 3]"
proof -
  have "valid sample_db 3" "valid sample_db 2" "2 \<notin> inside sample_db 3"
    by (simp_all add: sample_valid sample_inside sample_path_def)
  with change_location [OF sample_ok, of 3 2] obtain db' where
    "db_change_location sample_db 3 2 = Some db'" "db_ok db'"
    "contents_are sample_db 2 [1] \<longrightarrow> contents_are db' 2 (removeAll 3 [1] @ (if 2 = (2 :: int) then [3] else []))"
    by blast
  moreover have "contents_are sample_db 2 [1]" by (simp add: kids_are_def sample_find sample_objects)
  ultimately show ?thesis by auto
qed



text \<open>
  C10.  Destroying an object (\<^verbatim>\<open>db_destroy_object\<close>) that has no parent, child, location
  and contents removes it and nothing else, takes it off the list of users, and
  keeps the database well formed; with any of these links set the server
  panics.
\<close>

theorem destroy_object:
  assumes "db_ok db" "dbpriv_find_object db n = Some ob"
  shows "if o_location ob = NOTHING \<and> o_contents ob = NOTHING \<and> o_parent ob = NOTHING \<and> o_child ob = NOTHING
         then \<exists>db'. db_destroy_object db n = Some db' \<and> db_ok db' \<and> \<not> valid db' n
              \<and> TYPE_OBJ n \<notin> set (all_users db')
              \<and> (\<forall>y. y \<noteq> n \<longrightarrow> dbpriv_find_object db' y = dbpriv_find_object db y)
              \<and> (\<forall>y. y \<noteq> n \<longrightarrow> valid db y \<longrightarrow> ptab db' y = ptab db y)
         else db_destroy_object db n = None"
proof (cases "o_location ob = NOTHING \<and> o_contents ob = NOTHING \<and> o_parent ob = NOTHING \<and> o_child ob = NOTHING")
  case True
  then have al: "o_location ob = NOTHING" "o_contents ob = NOTHING" "o_parent ob = NOTHING" "o_child ob = NOTHING"
    by simp_all
  from db_destroy_object_ok [OF assms al] obtain db' where
    r: "db_destroy_object db n = Some db'" "db_ok db'" "\<not> valid db' n"
      "\<forall>y. y \<noteq> n \<longrightarrow> dbpriv_find_object db' y = dbpriv_find_object db y"
      "\<forall>y. y \<noteq> n \<longrightarrow> valid db y \<longrightarrow> ptab db' y = ptab db y" by blast
  from r(2,3) have "TYPE_OBJ n \<notin> set (all_users db')"
    by (auto dest!: db_okD(6) simp: users_ok_def is_user_def)
  with r True show ?thesis by auto
next
  case False
  with assms(2) show ?thesis by (auto simp: db_destroy_object_def assert_that_def)
qed

theorem destroy_object_witness:
  "(\<exists>db'. db_destroy_object sample_db 3 = Some db' \<and> db_ok db') \<and> db_destroy_object sample_db 0 = None"
  using destroy_object [OF sample_ok, of 3 sample_object] destroy_object [OF sample_ok, of 0 sample0]
  by (auto simp: sample_find) (auto simp: sample_objects)

text \<open>
  C11.  Setting a flag (\<^verbatim>\<open>db_set_object_flag\<close>) or clearing it changes that flag of that
  object only; \<open>players()\<close> stays the duplicate-free list of exactly the valid objects
  whose user flag is set.
\<close>

theorem object_flags:
  assumes "db_ok db" "valid db x" "f < 16"
  shows "\<exists>db'. (if on then db_set_object_flag db x f else db_clear_object_flag db x f) = Some db'
      \<and> db_ok db'
      \<and> (\<forall>y g. db_object_has_flag db' y g =
            (if y = x \<and> g = f then Some on else db_object_has_flag db y g))
      \<and> distinct (db_all_users db') \<and> set (db_all_users db') = TYPE_OBJ ` {y. is_user db' y}"
proof -
  have "\<exists>db'. (if on then db_set_object_flag db x f else db_clear_object_flag db x f) = Some db'
      \<and> db_ok db' \<and> (\<forall>y g. db_object_has_flag db' y g =
            (if y = x \<and> g = f then Some on else db_object_has_flag db y g))"
    using db_set_object_flag_ok [OF assms] db_clear_object_flag_ok [OF assms(1,2), of f]
    by (cases on) (simp_all only: if_True if_False)
  then show ?thesis using db_okD(6) unfolding users_ok_def db_all_users_def by blast
qed

theorem object_flags_witness:
  "\<exists>db'. db_set_object_flag sample_db 3 FLAG_USER = Some db' \<and> db_ok db'
      \<and> db_object_has_flag db' 3 FLAG_USER = Some True"
proof -
  have "valid sample_db 3" "FLAG_USER < 16" by (simp_all add: sample_valid FLAG_USER_def)
  then show ?thesis using object_flags [OF sample_ok, of 3 FLAG_USER True] by auto
qed

text \<open>
  C12.  \<^verbatim>\<open>verbcasecmp\<close> called with two different pointers accepts a word exactly
  if one of the space-separated alternatives of the verb name accepts it.
\<close>

theorem verbcasecmp_meaning:
  "verbcasecmp False verb word \<longleftrightarrow> (\<exists>p \<in> set (verb_names verb). name_matches p word)"
  by (simp add: verbcasecmp_def verb_loop_spec verb_name_spec_def)

text \<open>
  C13.  Splitting a line into words (\<^verbatim>\<open>parse_into_words\<close>) undoes quoting: every list of
  words, empty words and words with blanks, quotes and backslashes included, is
  the result of splitting the line of its quoted and escaped words, joined
  by spaces as \<^verbatim>\<open>build_string\<close> does.
\<close>

theorem words_round_trip: "parse_into_words (build_string (map quote_word ws)) = ws"
  by (rule parse_quoted)



text \<open>
  C19.  Moving an object with \<^verbatim>\<open>move()\<close> never violates the hierarchy of locations,
  whatever the verbs it calls did between its cases.  Each case returns, keeps the state well
  formed, and changes at most the location of the object.  Once the destination has answered,
  the refusals are exactly: \<^verbatim>\<open>E_NACC\<close> if it did not accept and the
  programmer is no wizard; nothing to do if an object has become invalid or the object is already there;
  \<^verbatim>\<open>E_RECMOVE\<close> if the destination is inside the object.  Otherwise the object
  goes to the end of the contents of the destination.
\<close>

theorem move_object:
  assumes "state_ok np m" "pc \<in> {2, 3, 4}"
  shows "\<exists>m' p. bf_move np m v pc (Move_data what wh) progr = Some (m', p) \<and> state_ok np m'
      \<and> (if pc = 2 \<and> move_refusal (moo_db m) what wh progr (is_true v) = None
         then p \<in> move_answers what wh \<and> moved_to (moo_db m) (moo_db m') what wh
         else same_objects_as m m')
      \<and> (\<forall>q. pc = 2 \<and> move_refusal (moo_db m) what wh progr (is_true v) = Some q \<longrightarrow> p = q \<and> m' = m)"
proof (cases "pc = 2")
  case True
  from move_decided_total [OF assms(1), of what wh progr "is_true v"] obtain m' p where
    r: "move_decided np m what wh progr (is_true v) = Some (m', p)" "state_ok np m'"
      "case move_refusal (moo_db m) what wh progr (is_true v) of Some q \<Rightarrow> p = q \<and> m' = m
       | None \<Rightarrow> p \<in> move_answers what wh \<and> moved_to (moo_db m) (moo_db m') what wh" .
  have "bf_move np m v pc (Move_data what wh) progr = Some (m', p)" using True r(1) by (simp add: bf_move_def do_move_def)
  with True r(2,3) show ?thesis
    by (cases "move_refusal (moo_db m) what wh progr (is_true v)") (auto simp: same_objects_as_def)
next
  case False
  from move_entered_ok [OF assms(1)] obtain m' p where
    "move_entered np m what wh = Some (m', p)" "state_ok np m'" "same_objects_as m m'" .
  with False assms show ?thesis
    by (cases "pc = 3") (auto simp: bf_move_def do_move_def same_objects_as_def)
qed

theorem move_object_witness:
  "\<exists>m' p. bf_move sample_program sample_moo (TYPE_INT 0) 2 (Move_data 3 2) 1 = Some (m', p)
      \<and> state_ok sample_program m' \<and> moved_to sample_db (moo_db m') 3 2"
proof -
  have "move_refusal sample_db 3 2 1 (is_true (TYPE_INT 0)) = None"
    by (simp add: move_refusal_def sample_is_wizard sample_valid db_object_location_def sample_find sample_object_def
        sample_inside sample_path_def NOTHING_def)
  then show ?thesis using move_object [OF sample_state_ok, of 2 "TYPE_INT 0" 3 2 1] by auto
qed

text \<open>
  C20.  The first case of \<^verbatim>\<open>move()\<close> raises \<^verbatim>\<open>E_INVARG\<close> for invalid objects and \<^verbatim>\<open>E_PERM\<close>
  if the programmer is neither the owner nor a wizard, without any effect; otherwise
  a valid destination is asked with \<^verbatim>\<open>:accept\<close>, and only a missing verb lets the move go
  on (as not accepted) at once.
\<close>

theorem move_permission:
  assumes "state_ok np m"
  shows "\<exists>m' p. bf_move np m (TYPE_LIST [TYPE_OBJ what, TYPE_OBJ wh]) 1 data progr = Some (m', p)
      \<and> moves_ok np m m' what wh
      \<and> (if \<not> valid (moo_db m) what \<or> \<not> valid (moo_db m) wh \<and> wh \<noteq> NOTHING
         then p = make_error_pack E_INVARG \<and> m' = m
         else if controls (moo_db m) progr what \<noteq> Some True then p = make_error_pack E_PERM \<and> m' = m
         else if wh = NOTHING then move_decided np m what wh progr True = Some (m', p)
         else (case call_result m wh ''accept'' of
             E_NONE \<Rightarrow> p = make_call_pack 2 (Move_data what wh) \<and> called m m' wh ''accept''
           | E_MAXREC \<Rightarrow> p = make_error_pack E_MAXREC
           | _ \<Rightarrow> \<exists>m1. same_objects_as m m1 \<and> move_decided np m1 what wh progr False = Some (m', p)))"
proof -
  have unf: "bf_move np m (TYPE_LIST [TYPE_OBJ what, TYPE_OBJ wh]) 1 data progr
      = do_move np m (TYPE_LIST [TYPE_OBJ what, TYPE_OBJ wh]) 1 what wh progr" by (simp add: bf_move_def)
  show ?thesis
  proof (cases "valid (moo_db m) what \<and> (valid (moo_db m) wh \<or> wh = NOTHING)")
    case False
    with assms show ?thesis unfolding unf by (simp add: do_move_def moves_ok_def same_objects_as_def)
  next
    case True
    then have v: "valid (moo_db m) what" "valid (moo_db m) wh \<or> wh = NOTHING" by simp_all
    show ?thesis
    proof (cases "controls (moo_db m) progr what = Some True")
      case False
      with controls_total [OF v(1), of progr] have "controls (moo_db m) progr what = Some False" by auto
      with v assms show ?thesis unfolding unf by (auto simp: do_move_def moves_ok_def same_objects_as_def)
    next
      case True
      have c: "(\<not> valid (moo_db m) what \<or> \<not> valid (moo_db m) wh \<and> wh \<noteq> NOTHING) = False"
        "(controls (moo_db m) progr what \<noteq> Some True) = False" using v True by auto
      from move_asked [OF assms v True] show ?thesis unfolding unf c if_False .
    qed
  qed
qed

theorem move_permission_witness:
  "\<exists>m'. bf_move sample_program sample_moo (TYPE_LIST [TYPE_OBJ 3, TYPE_OBJ 2]) 1 No_data 2
     = Some (m', make_error_pack E_PERM)"
  using move_permission [OF sample_state_ok, of 3 2 No_data 2] by (auto simp: sample_valid sample_controls)

text \<open>
  C21.  \<^verbatim>\<open>chparent()\<close> refuses, without any effect, exactly with \<^verbatim>\<open>E_INVARG\<close> for invalid
  objects, \<^verbatim>\<open>E_PERM\<close> if the programmer does not control the object or the new parent is
  not fertile for it, \<^verbatim>\<open>E_RECMOVE\<close> if the new parent is the object or a descendant,
  and \<^verbatim>\<open>E_INVARG\<close> if a property would be defined twice; otherwise it moves the object.
  So the inheritance hierarchy never gets a cycle.
\<close>

theorem chparent_builtin:
  assumes "db_ok db" "cache_ok db"
  shows "case chparent_refusal db what parent progr of
           Some e \<Rightarrow> bf_chparent db what parent progr = Some (db, make_error_pack e)
         | None \<Rightarrow> \<exists>db'. bf_chparent db what parent progr = Some (db', no_var_pack)
              \<and> db_ok db' \<and> cache_ok db' \<and> reparented db db' what parent"
  using bf_chparent_ok [OF moo_okI [OF assms], of what parent progr]
  by (auto simp: moo_ok_def split: option.splits)

theorem chparent_builtin_witness:
  "bf_chparent sample_db 0 2 1 = Some (sample_db, make_error_pack E_RECMOVE)"
proof -
  have "db_object_allows sample_db 2 1 FLAG_FERTILE = Some True"
    by (simp add: db_object_allows_def db_object_owner_def sample_find sample2_def sample_is_wizard)
  then have "chparent_refusal sample_db 0 2 1 = Some E_RECMOVE"
    by (simp add: chparent_refusal_def sample_valid may_chparent_def sample_controls sample_desc_eqs)
  then show ?thesis using chparent_builtin [OF sample_ok sample_cache_ok, of 0 2 1] by simp
qed











text \<open>
  C27.  \<^verbatim>\<open>clear_property()\<close> always returns and refuses exactly as \<open>clear_refusal\<close> says: among other things a
  property cannot be cleared on the object that defines it, and only its owner or a wizard can clear
  it.  Otherwise the slot becomes clear, nothing else changes, and \<^verbatim>\<open>is_clear_property()\<close> then
  says so.
\<close>

theorem clear_property:
  assumes "db_ok db" "cache_ok db" "nul_free pname"
  shows "case clear_refusal db x pname progr of
           Some e \<Rightarrow> bf_clear_prop db x pname progr = Some (db, make_error_pack e)
         | None \<Rightarrow> \<exists>db' s pv. bf_clear_prop db x pname progr = Some (db', no_var_pack) \<and> db_ok db' \<and> cache_ok db'
              \<and> slot_name s = fold_case pname \<and> ptab db x s = Some pv
              \<and> ptab db' x = (ptab db x)(s \<mapsto> pv\<lparr>pv_var := TYPE_CLEAR\<rparr>) \<and> (\<forall>z. z \<noteq> x \<longrightarrow> ptab db' z = ptab db z)
              \<and> bf_is_clear_prop db' x pname progr = Some (make_var_pack (TYPE_INT 1))"
  using bf_clear_prop_ok [OF moo_okI [OF assms(1,2)] assms(3), where x = x and progr = progr] unfolding moo_ok_def
  by (cases "clear_refusal db x pname progr") (simp_all only: option.case conj_assoc)

theorem clear_property_witness:
  "\<exists>db'. bf_clear_prop sample_db 2 ''SIZE'' 1 = Some (db', no_var_pack)
     \<and> bf_is_clear_prop db' 2 ''SIZE'' 1 = Some (make_var_pack (TYPE_INT 1))"
proof -
  have h: "valid sample_db 2" "nul_free ''SIZE''" using sample_names by (simp_all add: sample_valid)
  have "0 < length (slots sample_db 2)" "slot_name (slots sample_db 2 ! 0) = fold_case ''SIZE''"
    using sample_names by (simp_all add: sample_slots sample_valid slot_name_def dbpriv_new_propdef_def)
  from slot_found_index [OF sample_ok h sample_names(6) this, of False] have
    f: "db_find_property False sample_db 2 ''SIZE'' = Some (Prop_slot (fst (slots sample_db 2 ! 0)) 2 0, None)" by auto
  have "get_slot sample_db 2 0 = Some (sample_pval (TYPE_STR ''big'') 1)"
    by (simp add: get_slot_def sample_find sample2_def nth_opt_def)
  then have "clear_refusal sample_db 2 ''SIZE'' 1 = None"
    using f by (simp add: clear_refusal_def sample_valid sample_defines sample_is_wizard)
  then show ?thesis using clear_property [OF sample_ok sample_cache_ok h(2), of 2 1] by auto
qed





text \<open>
  C30.  \<^verbatim>\<open>random()\<close> is uniform: of the sequences of \<open>n\<close> draws from the generator of the C library equally many
  give each of the numbers from 1 to the argument, for every \<open>n\<close>; and with three draws, whatever the
  argument, more than half of the sequences have already given a number.
\<close>

theorem random_uniform:
  assumes "1 \<le> num" "num \<le> NUM_MAX" "v \<in> {1..num}" "v' \<in> {1..num}"
  shows "card (random_results num n (Some (make_var_pack (TYPE_INT v)))) = card (random_results num n (Some (make_var_pack (TYPE_INT v'))))
    \<and> 2 * card (random_results num 3 None) < card (draws 3)
    \<and> (\<forall>ds \<in> draws n. bf_random (Some num) ds \<in> insert None ((\<lambda>w. Some (make_var_pack (TYPE_INT w))) ` {1..num}))"
proof (intro conjI ballI)
  have b: "0 < nat num" "nat num < 2 ^ 63" "1 \<le> nat num" "0 < num" using assms by (auto simp: NUM_MAX_def)
  show "card (random_results num n (Some (make_var_pack (TYPE_INT v)))) = card (random_results num n (Some (make_var_pack (TYPE_INT v'))))"
    using assms(3,4) b unfolding card_random_results(1) [OF b(4)] by (intro ways_uniform) auto
  have "2 * card (ways (nat num) 1 3 (\<lambda>x. x = None)) < 1 * RANGE ^ 3"
    by (rule ways_decide [OF b(1,2,3)]) (use b(2) in \<open>simp_all add: RANGE_def\<close>)
  then show "2 * card (random_results num 3 None) < card (draws 3)"
    unfolding card_random_results(2) [OF b(4)] card_draws by simp
  fix ds assume "ds \<in> draws n"
  then have "random_loop (nat num) 0 1 ds = Some w \<Longrightarrow> w \<in> {1..num}" for w
    using random_loop_range [OF b(1,2,3), of 0 ds w] b(4) by (simp add: draws_def)
  then show "bf_random (Some num) ds \<in> insert None ((\<lambda>w. Some (make_var_pack (TYPE_INT w))) ` {1..num})"
    using b(4) by (cases "random_loop (nat num) 0 1 ds") (auto simp: bf_random_def)
qed

theorem random_uniform_witness:
  "card (random_results 6 5 (Some (make_var_pack (TYPE_INT 1)))) = card (random_results 6 5 (Some (make_var_pack (TYPE_INT 6))))"
  using random_uniform [of 6 1 6 5] by (simp add: NUM_MAX_def)

text \<open>
  C31.  The multiplication modulo a positive number in halves of a machine word, with its table lookup for the highest
  bit, always ends and equals the one in integers of double width.
\<close>

theorem muladdmod_equivalence:
  assumes "a < 2 ^ 64" "b < 2 ^ 64" "c < 2 ^ 64" "0 < m" "int m \<le> NUM_MAX"
  shows "muladdmod_halves a b c m = Some (muladdmod a b c m)"
  using assms by (intro muladdmod_halves_ok) (auto simp: NUM_MAX_def)

theorem muladdmod_equivalence_witness:
  "muladdmod_halves (2 ^ 64 - 1) (2 ^ 64 - 2) 7 1000000007 = Some (((2 ^ 64 - 1) * (2 ^ 64 - 2) + 7) mod 1000000007)"
  using muladdmod_equivalence [of "2 ^ 64 - 1" "2 ^ 64 - 2" 7 1000000007] by (simp add: NUM_MAX_def muladdmod_def)

text \<open>
  C32.  Arithmetic on integers is exact modulo two to the 64 and stays in range: addition, subtraction,
  multiplication and, by repeated squaring, the power with an exponent that is not negative.  The quotient truncates
  towards zero and the remainder has the sign of the dividend; a zero divisor gives E_DIV, and the operation is undefined for the least integer and -1 only.
\<close>

theorem integer_arithmetic:
  "(\<exists>s d p. do_add (TYPE_INT a) (TYPE_INT b) = TYPE_INT s \<and> s \<in> {NUM_MIN..NUM_MAX} \<and> s mod 2 ^ 64 = (a + b) mod 2 ^ 64
      \<and> do_subtract (TYPE_INT a) (TYPE_INT b) = TYPE_INT d \<and> d \<in> {NUM_MIN..NUM_MAX} \<and> d mod 2 ^ 64 = (a - b) mod 2 ^ 64
      \<and> do_multiply (TYPE_INT a) (TYPE_INT b) = TYPE_INT p \<and> p \<in> {NUM_MIN..NUM_MAX} \<and> p mod 2 ^ 64 = a * b mod 2 ^ 64)
   \<and> (0 \<le> b \<longrightarrow> (\<exists>p. do_power pow (TYPE_INT a) (TYPE_INT b) = TYPE_INT p \<and> p \<in> {NUM_MIN..NUM_MAX} \<and> p mod 2 ^ 64 = a ^ nat b mod 2 ^ 64))
   \<and> (b = 0 \<longrightarrow> do_divide (TYPE_INT a) (TYPE_INT b) = Some (TYPE_ERR E_DIV) \<and> do_modulus (TYPE_INT a) (TYPE_INT b) = Some (TYPE_ERR E_DIV))
   \<and> (b \<noteq> 0 \<longrightarrow> (if a = NUM_MIN \<and> b = -1 then do_divide (TYPE_INT a) (TYPE_INT b) = None \<and> do_modulus (TYPE_INT a) (TYPE_INT b) = None
      else \<exists>q r. do_divide (TYPE_INT a) (TYPE_INT b) = Some (TYPE_INT q) \<and> do_modulus (TYPE_INT a) (TYPE_INT b) = Some (TYPE_INT r)
        \<and> a = q * b + r \<and> \<bar>r\<bar> < \<bar>b\<bar> \<and> (r = 0 \<or> sgn r = sgn a)))"
proof (intro conjI)
  note w = wrap_num_range wrap_num_mod
  show "(\<exists>s d p. do_add (TYPE_INT a) (TYPE_INT b) = TYPE_INT s \<and> s \<in> {NUM_MIN..NUM_MAX} \<and> s mod 2 ^ 64 = (a + b) mod 2 ^ 64
      \<and> do_subtract (TYPE_INT a) (TYPE_INT b) = TYPE_INT d \<and> d \<in> {NUM_MIN..NUM_MAX} \<and> d mod 2 ^ 64 = (a - b) mod 2 ^ 64
      \<and> do_multiply (TYPE_INT a) (TYPE_INT b) = TYPE_INT p \<and> p \<in> {NUM_MIN..NUM_MAX} \<and> p mod 2 ^ 64 = a * b mod 2 ^ 64)"
    unfolding do_add_def do_subtract_def do_multiply_def simple_binary_def prod.case var.case
    by (intro exI conjI; (rule refl w)?)
  show "(0 \<le> b \<longrightarrow> (\<exists>p. do_power pow (TYPE_INT a) (TYPE_INT b) = TYPE_INT p \<and> p \<in> {NUM_MIN..NUM_MAX} \<and> p mod 2 ^ 64 = a ^ nat b mod 2 ^ 64))"
    using power_loop_ok [of b a 1] w by (auto simp: do_power_def wrap_num_id NUM_MIN_def NUM_MAX_def)
  show "(b = 0 \<longrightarrow> do_divide (TYPE_INT a) (TYPE_INT b) = Some (TYPE_ERR E_DIV) \<and> do_modulus (TYPE_INT a) (TYPE_INT b) = Some (TYPE_ERR E_DIV))"
    by (simp add: do_divide_def do_modulus_def division_op_def)
  show "(b \<noteq> 0 \<longrightarrow> (if a = NUM_MIN \<and> b = -1 then do_divide (TYPE_INT a) (TYPE_INT b) = None \<and> do_modulus (TYPE_INT a) (TYPE_INT b) = None
      else \<exists>q r. do_divide (TYPE_INT a) (TYPE_INT b) = Some (TYPE_INT q) \<and> do_modulus (TYPE_INT a) (TYPE_INT b) = Some (TYPE_INT r)
        \<and> a = q * b + r \<and> \<bar>r\<bar> < \<bar>b\<bar> \<and> (r = 0 \<or> sgn r = sgn a)))"
    using c_quotient_remainder [of b a] by (auto simp: do_divide_def do_modulus_def division_op_def)
qed

theorem integer_arithmetic_witness:
  "do_divide (TYPE_INT NUM_MIN) (TYPE_INT (-1)) = None
   \<and> (\<exists>p. do_power (\<lambda>a b. (a, False)) (TYPE_INT 3) (TYPE_INT 200) = TYPE_INT p \<and> p mod 2 ^ 64 = 3 ^ 200 mod 2 ^ 64)"
  using integer_arithmetic [of NUM_MIN "-1"] integer_arithmetic [of 3 200 "\<lambda>a b. (a, False)"] by simp blast

text \<open>
  C33.  The conversion of a floating-point number to an integer is exact: the fraction is dropped, and E_FLOAT
  is raised if and only if the result is not an integer of the language; a whole number below two to the 53 survives the conversion to
  floating point and back, and every integer survives being printed and parsed,
  provided neither digits nor the minus sign are white space.
\<close>

theorem integer_conversions:
  assumes "IS_REAL d" "\<And>c. my_isspace c \<Longrightarrow> c \<noteq> 45 \<and> \<not> (48 \<le> c \<and> c \<le> 57)" "m \<in> {NUM_MIN..NUM_MAX}" "\<bar>n\<bar> < 2 ^ 53"
  shows "become_integer my_isspace (TYPE_FLOAT d) b =
      Some (let t = c_quotient (fl_value d) (int one_unit) in if t \<in> {NUM_MIN..NUM_MAX} then Inr t else Inl E_FLOAT)
    \<and> become_integer my_isspace (TYPE_FLOAT (fl_of_int n)) b = Some (Inr n)
    \<and> become_integer my_isspace (TYPE_STR (num_string m)) b = Some (Inr m)"
proof (intro conjI)
  show "become_integer my_isspace (TYPE_STR (num_string m)) b = Some (Inr m)" using assms(2,3) by (rule become_integer_printed)
qed (simp_all only: become_integer_float [OF assms(1)] become_integer_whole [OF assms(4)] Let_def)

theorem integer_conversions_witness:
  "become_integer (\<lambda>c. c = 32) (TYPE_STR (num_string NUM_MIN)) True = Some (Inr NUM_MIN)
   \<and> become_integer (\<lambda>c. c = 32) (TYPE_FLOAT (fl_of_int 12)) True = Some (Inr 12)"
  using integer_conversions [of 0 "\<lambda>c. c = 32" NUM_MIN 12 True]
  by (auto simp: IS_REAL_bits fl_bits_def fl_magnitude_def fl_inf_bits_def NUM_MIN_def NUM_MAX_def)

text \<open>
  C34.  Every Unicode character that can be encoded is read back with its length, by the reader of strings and by
  the reader of source text; in a string of characters their number, the byte position of each and the way back are right; and the
  simultaneous translation of two positions equals the two single ones, in every string.
\<close>

theorem utf8_round_trip:
  assumes "runes vs"
  shows "(\<forall>v\<in>set vs. \<exists>bs. put_utf v = Some bs \<and> (\<forall>t. get_utf (bs @ t) = (v, length bs)) \<and> clearance_utf (hd bs) = length bs
      \<and> (\<forall>t. get_utf_call (map byte bs @ t) (-1) = (int v, t, -1)))
    \<and> memo_strlen_utf (encode vs) = length vs
    \<and> (\<forall>k \<le> length vs + 1. utf_byte_index (encode vs) (int k + 1) = int (bytes_before vs k) + 1
        \<and> utf_char_index (encode vs) (utf_byte_index (encode vs) (int k + 1)) = Some (int k + 1))
    \<and> utf_byte_range s (i, j) = (utf_byte_index s i, utf_byte_index s j)"
proof (intro conjI ballI allI impI)
  fix v assume "v \<in> set vs"
  with assms obtain bs where bs: "put_utf v = Some bs" unfolding runes_def by auto
  from put_utf_shape [OF bs] have "clearance_utf (hd bs) = length bs" by (metis list.sel(1))
  with bs show "\<exists>bs. put_utf v = Some bs \<and> (\<forall>t. get_utf (bs @ t) = (v, length bs)) \<and> clearance_utf (hd bs) = length bs
      \<and> (\<forall>t. get_utf_call (map byte bs @ t) (-1) = (int v, t, -1))"
    using get_put_utf get_utf_call_reads by blast
next
  fix k assume "k \<le> length vs + 1"
  note b = byte_index_encode [OF assms, of k] and c = char_index_encode [OF assms this, of 1]
  show "utf_byte_index (encode vs) (int k + 1) = int (bytes_before vs k) + 1" by (rule b)
  show "utf_char_index (encode vs) (utf_byte_index (encode vs) (int k + 1)) = Some (int k + 1)"
    using c first_no_cont [OF assms] unfolding b utf_char_index_def by simp
qed (simp_all add: memo_strlen_encode [OF assms] byte_range_pair)

theorem utf8_round_trip_witness:
  "memo_strlen_utf (encode [0x20ac, 0x41]) = 2 \<and> utf_byte_index (encode [0x20ac, 0x41]) 2 = 4"
  using utf8_round_trip [of "[0x20ac, 0x41]" "[]" 1 1]
  by (auto simp: put_utf_def bytes_before_def dest!: spec [of _ 1])

section \<open>The virtual machine\<close>



section \<open>Tasks\<close>



text \<open>
  C37.  The queue of input lines, two chains of pointers through the same nodes (all lines, and the last line of every run of lines of one
  kind), implements a list: a line is put at one of its ends with its kind found from its text, and a request --- for any line, for one out of band, for one that
  is not --- takes out the first line that it asks for and leaves the others in their order.
\<close>

theorem input_queue_refinement:
  assumes "iqueue_valid q"
  shows "(\<exists>q'. enqueue_line q s front binary = Some q' \<and> iqueue_valid q'
      \<and> input_lines q' = (if front then [(input_kind s binary, s, int (length s))] @ input_lines q
                          else input_lines q @ [(input_kind s binary, s, int (length s))]))
    \<and> (\<exists>q'. dequeue_line q how = Some (q', fst (take_first (wants how) (input_lines q))) \<and> iqueue_valid q'
      \<and> input_lines q' = snd (take_first (wants how) (input_lines q)))"
  using iq.put_law [OF assms, of s front binary] iq.get_law [OF assms, of how] by auto

theorem input_queue_refinement_witness:
  "\<exists>q. enqueue_line empty_iqueue ''#$#mcp'' False False = Some q \<and> input_lines q = [(TASK_OOB, ''#$#mcp'', 6)]
     \<and> dequeue_line empty_iqueue DQ_FIRST = Some (empty_iqueue, None)"
proof -
  have "input_kind ''#$#mcp'' False = TASK_OOB" by code_simp
  then show ?thesis
    using input_queue_refinement [OF iqueue_valid_empty(1), of "''#$#mcp''" False False DQ_FIRST] iqueue_valid_empty(2) sample_empty_queue by auto
qed




section \<open>Text and binary strings\<close>

text \<open>
  C39.  \<^verbatim>\<open>tostr()\<close> of any values of the language gives their texts one after the other if that text is no longer than the limit on
  strings, and fails for want of space otherwise: the buffer that grows by powers of two, with its limit tested at every addition, is full exactly when the
  whole text is too long (the limit being at least the size of the first buffer, less one).
\<close>

theorem tostr_limit:
  assumes "list_all has_text args" "127 \<le> opt_max_string_concat opts" "t = concat (map tostr_text args)" "length t < 2 ^ 63"
  shows "bf_tostr opts args = Some (if int (length t) \<le> opt_max_string_concat opts then make_string_pack t else space_pack opts)"
  by (rule bf_tostr_text [OF assms])

theorem tostr_limit_witness:
  "bf_tostr (sample_options\<lparr>opt_max_string_concat := 127\<rparr>) [TYPE_INT (-5), TYPE_STR '' and '', TYPE_ERR E_PERM] = Some (make_string_pack ''-5 and Permission denied'')
   \<and> bf_tostr (sample_options\<lparr>opt_max_string_concat := 127\<rparr>) [TYPE_STR (replicate 100 (CHR ''x'')), TYPE_STR (replicate 28 (CHR ''x''))]
       = Some (make_abort_pack ABORT_SECONDS)"
proof
  let ?o = "sample_options\<lparr>opt_max_string_concat := 127\<rparr>"
  have "num_string (-5) = ''-5''" by code_simp
  then show "bf_tostr ?o [TYPE_INT (-5), TYPE_STR '' and '', TYPE_ERR E_PERM] = Some (make_string_pack ''-5 and Permission denied'')"
    using tostr_limit [of "[TYPE_INT (-5), TYPE_STR '' and '', TYPE_ERR E_PERM]" ?o "''-5 and Permission denied''"] by (simp add: has_text_def)
  show "bf_tostr ?o [TYPE_STR (replicate 100 (CHR ''x'')), TYPE_STR (replicate 28 (CHR ''x''))] = Some (make_abort_pack ABORT_SECONDS)"
    using tostr_limit [of "[TYPE_STR (replicate 100 (CHR ''x'')), TYPE_STR (replicate 28 (CHR ''x''))]" ?o, OF _ _ refl]
    by (simp add: has_text_def space_pack_def make_space_pack_def sample_options_def)
qed

text \<open>
  C40.  Binary strings survive the way through \<^verbatim>\<open>decode_binary()\<close> and \<^verbatim>\<open>encode_binary()\<close>.  A string that stands for some bytes is
  decoded, into numbers or into texts and numbers, without a write outside the list that the first pass allocated; what was decoded is encoded to a
  string that stands for the same bytes.
\<close>

theorem binary_round_trip:
  assumes "moobinary_to_raw_bytes str = Some bytes" "int (length bytes) \<le> opt_max_list_concat opts"
    and "127 \<le> opt_max_string_concat opts" "3 * int (length bytes) \<le> opt_max_string_concat opts" "opt_max_string_concat opts < 2 ^ 63"
  shows "\<exists>vs code. bf_decode_binary opts str fully = Some (make_var_pack (TYPE_LIST vs))
    \<and> bf_encode_binary opts vs = make_string_pack code \<and> moobinary_to_raw_bytes code = Some bytes"
proof -
  from bf_decode_binary_value [OF assms(1,2)] obtain vs where vs: "bf_decode_binary opts str fully = Some (make_var_pack (TYPE_LIST vs))"
    "values_raw vs = Some bytes" by blast
  from bf_encode_binary_text [OF vs(2) assms(3-5)] moobinary_inverse [of bytes] vs(1) show ?thesis by blast
qed

theorem binary_round_trip_witness:
  "\<exists>vs code. bf_decode_binary (sample_options\<lparr>opt_max_string_concat := 1000\<rparr>) ''ab~0A~7E'' False = Some (make_var_pack (TYPE_LIST vs))
     \<and> bf_encode_binary (sample_options\<lparr>opt_max_string_concat := 1000\<rparr>) vs = make_string_pack code \<and> moobinary_to_raw_bytes code = moobinary_to_raw_bytes ''ab~0A~7E''"
proof -
  have "moobinary_to_raw_bytes ''ab~0A~7E'' = Some [CHR ''a'', CHR ''b'', CHR 0x0A, CHR ''~'']" by code_simp
  then show ?thesis
    using binary_round_trip [of "''ab~0A~7E''" _ "sample_options\<lparr>opt_max_string_concat := 1000\<rparr>" False] by (simp add: sample_options_def)
qed

end
